(* ===== verification/Ts_Prelude.thy ===== *)
theory Ts_Prelude
  imports Main "HOL-Library.Word" "HOL-Library.Sublist"
begin

text \<open>
  Shared vocabulary of the development: the machine integers of the client, the big- and
  little-endian field codecs that every wire format uses, the reading of a byte as a
  \<^verbatim>\<open>char\<close> (the code casts between \<^verbatim>\<open>uint8_t *\<close> and
  \<^verbatim>\<open>const char *\<close> freely), C-string buffers and a few list lemmas. Two theorem
  collections are declared here and filled by the components: \<open>codec_simps\<close> (round trips
  and lengths of field codecs) and \<open>inv_intros\<close> (one preservation lemma per operation).
\<close>

unbundle bit_operations_syntax

named_theorems codec_simps "round trips and lengths of the field codecs"
named_theorems inv_intros "preservation of component invariants, one lemma per operation"

type_synonym u8 = "8 word"
type_synonym u16 = "16 word"
type_synonym u32 = "32 word"
type_synonym u64 = "64 word"
type_synonym bytes = "8 word list"

section \<open>Bytes and characters\<close>

definition ord8 :: "char \<Rightarrow> u8" where
  "ord8 c = of_char c"

definition chr8 :: "u8 \<Rightarrow> char" where
  "chr8 b = char_of (unat b)"

lemma unat_u8_less [simp]: "unat (x :: u8) < 256"
  using unsigned_less [of x, where ?'a = nat] by simp

lemma unat_ord8: "unat (ord8 c) = of_char c"
proof -
  have "(of_char c :: nat) < 256" by simp
  then have "unat (word_of_nat (of_char c) :: u8) = of_char c"
    by (simp add: unat_of_nat)
  then show ?thesis by (simp add: ord8_def of_nat_of_char)
qed

lemma chr8_ord8 [simp]: "chr8 (ord8 c) = c"
  by (simp add: chr8_def unat_ord8)

lemma ord8_chr8 [simp]: "ord8 (chr8 b) = b"
proof -
  have "unat (ord8 (chr8 b)) = unat b mod 256"
    by (simp add: unat_ord8 chr8_def)
  also have "\<dots> = unat b"
    by (simp add: mod_less)
  finally show ?thesis by (simp only: unat_arith_simps)
qed

lemma chr8_eq_iff: "chr8 a = chr8 b \<longleftrightarrow> a = b"
  by (metis ord8_chr8)

lemma chr8_eq_conv: "chr8 a = c \<longleftrightarrow> a = ord8 c"
  by (metis ord8_chr8 chr8_ord8)

definition bytes_of :: "string \<Rightarrow> bytes" where
  "bytes_of s = map ord8 s"

definition string_of :: "bytes \<Rightarrow> string" where
  "string_of bs = map chr8 bs"

lemma string_of_bytes_of [simp]: "string_of (bytes_of s) = s"
  by (induction s) (auto simp: string_of_def bytes_of_def)

lemma bytes_of_string_of [simp]: "bytes_of (string_of bs) = bs"
  by (induction bs) (auto simp: string_of_def bytes_of_def)

lemma bytes_of_simps [simp]: "bytes_of [] = []" "bytes_of (c # s) = ord8 c # bytes_of s"
  by (simp_all add: bytes_of_def)

lemma string_of_simps [simp]: "string_of [] = []" "string_of (b # bs) = chr8 b # string_of bs"
  by (simp_all add: string_of_def)

lemma length_bytes_of [simp]: "length (bytes_of s) = length s"
  by (simp add: bytes_of_def)

lemma length_string_of [simp]: "length (string_of s) = length s"
  by (simp add: string_of_def)

lemma bytes_of_append [simp]: "bytes_of (a @ b) = bytes_of a @ bytes_of b"
  by (simp add: bytes_of_def)

lemma string_of_append [simp]: "string_of (a @ b) = string_of a @ string_of b"
  by (simp add: string_of_def)

section \<open>Big-endian and little-endian fields\<close>

text \<open>
  The shift-and-mask sequences by which the code writes a field, and the shift-and-or
  expressions by which it reads one back.
\<close>

definition put_be16 :: "u16 \<Rightarrow> bytes" where
  "put_be16 v = [ucast (drop_bit 8 v AND 0xFF), ucast (v AND 0xFF)]"

definition put_be24 :: "u32 \<Rightarrow> bytes" where
  "put_be24 v = [ucast (drop_bit 16 v AND 0xFF), ucast (drop_bit 8 v AND 0xFF), ucast (v AND 0xFF)]"

definition put_be32 :: "u32 \<Rightarrow> bytes" where
  "put_be32 v = [ucast (drop_bit 24 v AND 0xFF), ucast (drop_bit 16 v AND 0xFF),
                 ucast (drop_bit 8 v AND 0xFF), ucast (v AND 0xFF)]"

definition put_le32 :: "u32 \<Rightarrow> bytes" where
  "put_le32 v = [ucast v, ucast (drop_bit 8 v), ucast (drop_bit 16 v), ucast (drop_bit 24 v)]"

definition get_be16 :: "u8 \<Rightarrow> u8 \<Rightarrow> u16" where
  "get_be16 a b = push_bit 8 (ucast a) OR ucast b"

definition get_be24 :: "u8 \<Rightarrow> u8 \<Rightarrow> u8 \<Rightarrow> u32" where
  "get_be24 a b c = push_bit 16 (ucast a) OR push_bit 8 (ucast b) OR ucast c"

definition get_be32 :: "u8 \<Rightarrow> u8 \<Rightarrow> u8 \<Rightarrow> u8 \<Rightarrow> u32" where
  "get_be32 a b c d = push_bit 24 (ucast a) OR push_bit 16 (ucast b) OR push_bit 8 (ucast c) OR ucast d"

definition get_le32 :: "u8 \<Rightarrow> u8 \<Rightarrow> u8 \<Rightarrow> u8 \<Rightarrow> u32" where
  "get_le32 a b c d = ucast a OR push_bit 8 (ucast b) OR push_bit 16 (ucast c) OR push_bit 24 (ucast d)"

lemma ff16_mask: "(0xFF :: u16) = mask 8"
  by (simp add: mask_eq_exp_minus_1)

lemma ff32_mask: "(0xFF :: u32) = mask 8"
  by (simp add: mask_eq_exp_minus_1)

lemma ucast_and_ff [simp]:
  "(ucast (v AND 0xFF :: u16) :: u8) = ucast v"
  "(ucast (w AND 0xFF :: u32) :: u8) = ucast w"
  unfolding ff16_mask ff32_mask by (rule bit_word_eqI; auto simp: bit_simps)+

lemma length_put [codec_simps, simp]:
  "length (put_be16 u) = 2" "length (put_be24 v) = 3" "length (put_be32 v) = 4" "length (put_le32 v) = 4"
  by (simp_all add: put_be16_def put_be24_def put_be32_def put_le32_def)

lemma bit_lanes:
  fixes n :: nat
  assumes "n < 32"
  obtains "n < 8" | "8 \<le> n" "n < 16" | "16 \<le> n" "n < 24" | "24 \<le> n" "n < 32"
  using assms by (meson not_le)

lemma get_put_be16 [codec_simps]:
  "get_be16 (ucast (drop_bit 8 v)) (ucast v) = v"
proof (rule bit_word_eqI)
  fix n assume "n < LENGTH(16)"
  then have "n < 32" "n < 16" by simp_all
  then show "bit (get_be16 (ucast (drop_bit 8 v)) (ucast v)) n = bit v n"
    by (cases rule: bit_lanes) (auto simp: get_be16_def bit_simps)
qed

lemma get_put_be24:
  "get_be24 (ucast (drop_bit 16 v)) (ucast (drop_bit 8 v)) (ucast v) = take_bit 24 v"
proof (rule bit_word_eqI)
  fix n assume "n < LENGTH(32)"
  then have "n < 32" by simp
  then show "bit (get_be24 (ucast (drop_bit 16 v)) (ucast (drop_bit 8 v)) (ucast v)) n = bit (take_bit 24 v) n"
    by (cases rule: bit_lanes) (auto simp: get_be24_def bit_simps)
qed

lemma get_put_be32 [codec_simps]:
  "get_be32 (ucast (drop_bit 24 v)) (ucast (drop_bit 16 v)) (ucast (drop_bit 8 v)) (ucast v) = v"
proof (rule bit_word_eqI)
  fix n assume "n < LENGTH(32)"
  then have "n < 32" by simp
  then show "bit (get_be32 (ucast (drop_bit 24 v)) (ucast (drop_bit 16 v)) (ucast (drop_bit 8 v)) (ucast v)) n = bit v n"
    by (cases rule: bit_lanes) (auto simp: get_be32_def bit_simps)
qed

lemma get_put_le32 [codec_simps]:
  "get_le32 (ucast v) (ucast (drop_bit 8 v)) (ucast (drop_bit 16 v)) (ucast (drop_bit 24 v)) = v"
  using get_put_be32 [of v] unfolding get_be32_def get_le32_def
  by (simp only: or.assoc or.commute or.left_commute)

lemma put_get_be32 [codec_simps]:
  "put_be32 (get_be32 a b c d) = [a, b, c, d]"
proof -
  have "(ucast (drop_bit 24 (get_be32 a b c d)) :: u8) = a"
    unfolding get_be32_def by (rule bit_word_eqI) (auto simp: bit_simps dest: bit_imp_le_length)
  moreover have "(ucast (drop_bit 16 (get_be32 a b c d)) :: u8) = b"
    unfolding get_be32_def by (rule bit_word_eqI) (auto simp: bit_simps dest: bit_imp_le_length)
  moreover have "(ucast (drop_bit 8 (get_be32 a b c d)) :: u8) = c"
    unfolding get_be32_def by (rule bit_word_eqI) (auto simp: bit_simps dest: bit_imp_le_length)
  moreover have "(ucast (get_be32 a b c d) :: u8) = d"
    unfolding get_be32_def by (rule bit_word_eqI) (auto simp: bit_simps dest: bit_imp_le_length)
  ultimately show ?thesis by (simp add: put_be32_def)
qed

lemma put_be24_less:
  assumes "unat v < 2 ^ 24"
  shows "get_be24 (ucast (drop_bit 16 v)) (ucast (drop_bit 8 v)) (ucast v) = v"
proof -
  have "unat (take_bit 24 v) = unat v" using assms
    by (simp add: unsigned_take_bit_eq take_bit_nat_eq_self)
  then have "take_bit 24 v = v" by (simp only: unat_arith_simps)
  then show ?thesis by (simp add: get_put_be24)
qed

lemma unat_get_be16: "unat (get_be16 a b) < 2 ^ 16"
  using unsigned_less [of "get_be16 a b", where ?'a = nat] by simp

section \<open>Decimal numbers as the code prints and reads them\<close>

definition digit_char :: "nat \<Rightarrow> char" where
  "digit_char d = char_of (48 + d)"

text \<open>\<^verbatim>\<open>std::to_string\<close>, \<^verbatim>\<open>%u\<close>, \<^verbatim>\<open>%llu\<close> and \<^verbatim>\<open>oss <<\<close> on an unsigned value.\<close>

fun show_nat :: "nat \<Rightarrow> string" where
  "show_nat n = (if n < 10 then [digit_char n] else show_nat (n div 10) @ [digit_char (n mod 10)])"

declare show_nat.simps [simp del]

definition is_digit :: "char \<Rightarrow> bool" where
  "is_digit c \<longleftrightarrow> 48 \<le> (of_char c :: nat) \<and> (of_char c :: nat) \<le> 57"

definition digit_val :: "char \<Rightarrow> nat" where
  "digit_val c = of_char c - 48"

text \<open>The value of a run of digits, most significant first, from an accumulator.\<close>

fun dec_val :: "nat \<Rightarrow> string \<Rightarrow> nat" where
  "dec_val acc [] = acc"
| "dec_val acc (c # cs) = dec_val (acc * 10 + digit_val c) cs"

lemma of_char_digit: "d < 10 \<Longrightarrow> (of_char (digit_char d) :: nat) = 48 + d"
  by (simp add: digit_char_def)

lemma is_digit_digit_char [simp]: "d < 10 \<Longrightarrow> is_digit (digit_char d)"
  by (simp add: is_digit_def of_char_digit)

lemma digit_val_digit_char [simp]: "d < 10 \<Longrightarrow> digit_val (digit_char d) = d"
  by (simp add: digit_val_def of_char_digit)

lemma dec_val_append: "dec_val acc (a @ b) = dec_val (dec_val acc a) b"
  by (induction a arbitrary: acc) auto

lemma show_nat_digits: "list_all is_digit (show_nat n)"
proof (induction n rule: show_nat.induct)
  case (1 n)
  then show ?case by (subst show_nat.simps) auto
qed

lemma dec_val_show_nat [codec_simps]: "dec_val 0 (show_nat n) = n"
proof (induction n rule: show_nat.induct)
  case (1 n)
  then show ?case by (subst show_nat.simps) (auto simp: dec_val_append)
qed

lemma show_nat_not_Nil [simp]: "show_nat n \<noteq> []"
  by (subst show_nat.simps) simp

lemma length_show_nat: "n < 10 ^ k \<Longrightarrow> 0 < k \<Longrightarrow> length (show_nat n) \<le> k"
proof (induction n arbitrary: k rule: show_nat.induct)
  case (1 n)
  show ?case
  proof (cases "n < 10")
    case True
    then show ?thesis using "1.prems"(2) by (subst show_nat.simps) simp
  next
    case False
    obtain j where k: "k = Suc j" using "1.prems"(2) by (cases k) auto
    with False "1.prems"(1) have j: "n div 10 < 10 ^ j" "0 < j"
      by (auto simp: less_mult_imp_div_less mult.commute intro: gr0I)
    show ?thesis using "1.IH" [OF False j] False k by (subst show_nat.simps) simp
  qed
qed

section \<open>Lists\<close>

lemma take_append_drop_length: "n = length a \<Longrightarrow> take n (a @ b) = a \<and> drop n (a @ b) = b"
  by simp

lemma prefix_drop_iff: "prefix p (drop i xs) \<longleftrightarrow> take (length p) (drop i xs) = p"
  by (metis append_eq_conv_conj append_take_drop_id prefix_def)

lemma list_all_update: "list_all P xs \<Longrightarrow> P x \<Longrightarrow> list_all P (xs[i := x])"
  by (auto simp: list_all_iff dest!: set_update_subset_insert [THEN subsetD])

end
