(* ===== verification/Json_Spec.thy ===== *)
theory Json_Spec
  imports Ts_Prelude
begin

text \<open>
  A reference for the texts the client reads and writes: JSON documents as a datatype and
  their compact rendering (no white space between tokens, the form Go's encoder and the
  client's own string builders produce). It is specification, not code: the parsers are
  proved against \<open>render\<close>, and the request builders are proved to produce it. String
  literals carry their escaped text, so \<open>raw_ok\<close> says that the text does not end the
  literal early.
\<close>

section \<open>Documents\<close>

datatype json =
    JLit string
  | JStr string
  | JArr "json list"
  | JObj "(string \<times> json) list"

abbreviation dquote :: char where "dquote \<equiv> CHR 0x22"
abbreviation bslash :: char where "bslash \<equiv> CHR 0x5C"

fun commas :: "string list \<Rightarrow> string" where
  "commas [] = []"
| "commas [x] = x"
| "commas (x # y # zs) = x @ '','' @ commas (y # zs)"

definition quoted :: "string \<Rightarrow> string" where
  "quoted s = dquote # s @ [dquote]"

fun render :: "json \<Rightarrow> string" where
  "render (JLit s) = s"
| "render (JStr s) = quoted s"
| "render (JArr xs) = ''['' @ commas (map render xs) @ '']''"
| "render (JObj fs) = ''{'' @ commas (map (\<lambda>f. quoted (fst f) @ '':'' @ render (snd f)) fs) @ ''}''"

text \<open>
  Text of a string literal: scanned with the escape flag, it meets no bare quote and does not
  end inside an escape.
\<close>

fun raw_scan :: "bool \<Rightarrow> string \<Rightarrow> bool" where
  "raw_scan esc [] = (\<not> esc)"
| "raw_scan esc (c # cs) =
     (if esc then raw_scan False cs
      else if c = bslash then raw_scan True cs
      else c \<noteq> dquote \<and> raw_scan False cs)"

definition raw_ok :: "string \<Rightarrow> bool" where
  "raw_ok s = raw_scan False s"

text \<open>Field names and hand-written values: no character that needs an escape.\<close>

definition plain_char :: "char \<Rightarrow> bool" where
  "plain_char c \<longleftrightarrow> c \<noteq> dquote \<and> c \<noteq> bslash \<and> c \<noteq> CHR 0x00"

definition plain :: "string \<Rightarrow> bool" where
  "plain s = list_all plain_char s"

text \<open>Numbers and the three keywords: none of the structural characters.\<close>

definition lit_char :: "char \<Rightarrow> bool" where
  "lit_char c \<longleftrightarrow> c \<notin> {dquote, bslash, CHR ''{'', CHR ''}'', CHR ''['', CHR '']'', CHR '','', CHR '':''}"

fun wf_json :: "json \<Rightarrow> bool" where
  "wf_json (JLit s) = (list_all lit_char s \<and> s \<noteq> [])"
| "wf_json (JStr s) = raw_ok s"
| "wf_json (JArr xs) = (\<forall>x \<in> set xs. wf_json x)"
| "wf_json (JObj fs) = (\<forall>f \<in> set fs. raw_ok (fst f) \<and> wf_json (snd f))"

section \<open>Lemmas\<close>

lemma plain_raw_ok: "plain s \<Longrightarrow> raw_ok s"
  unfolding plain_def raw_ok_def by (induction s) (auto simp: plain_char_def)

lemma plain_append [simp]: "plain (a @ b) \<longleftrightarrow> plain a \<and> plain b"
  by (simp add: plain_def)

lemma plain_Nil [simp]: "plain []"
  by (simp add: plain_def)

lemma plain_Cons [simp]: "plain (c # s) \<longleftrightarrow> plain_char c \<and> plain s"
  by (simp add: plain_def)

lemma digit_plain: "is_digit c \<Longrightarrow> plain_char c"
  by (auto simp: is_digit_def plain_char_def)

lemma digit_lit: "is_digit c \<Longrightarrow> lit_char c"
  by (auto simp: is_digit_def lit_char_def)

lemma show_nat_lit: "wf_json (JLit (show_nat n))"
  using show_nat_digits [of n] by (auto simp: digit_lit list_all_iff)

lemma length_quoted [simp]: "length (quoted s) = length s + 2"
  by (simp add: quoted_def)

lemma commas_Cons: "commas (x # xs) = x @ (if xs = [] then [] else '','' @ commas xs)"
  by (cases xs) auto

lemma commas_snoc: "commas (xs @ [x]) = (if xs = [] then x else commas xs @ '','' @ x)"
  by (induction xs rule: commas.induct) auto

lemma commas_append:
  "xs \<noteq> [] \<Longrightarrow> ys \<noteq> [] \<Longrightarrow> commas (xs @ ys) = commas xs @ '','' @ commas ys"
  by (induction xs rule: commas.induct) (auto simp: commas_Cons)

lemma render_obj_split:
  "render (JObj (fs @ (n, v) # gs)) =
     ''{'' @ commas (map (\<lambda>f. quoted (fst f) @ '':'' @ render (snd f)) fs)
       @ (if fs = [] then [] else '','') @ quoted n @ '':'' @ render v
       @ (if gs = [] then [] else '','') @ commas (map (\<lambda>f. quoted (fst f) @ '':'' @ render (snd f)) gs) @ ''}''"
  by (cases "fs = []"; cases "gs = []") (auto simp: commas_append commas_Cons)

end
