(* ===== verification/Http2_Codec.thy ===== *)
theory Http2_Codec
  imports Json_Spec
begin

text \<open>
  The stateless half of \<^verbatim>\<open>http2_session.cpp\<close>: frame layout, the HPACK literals of the
  request, the status decoder of the response and the test for a complete JSON body. Lengths
  and offsets are natural numbers; where the code's 32-bit \<^verbatim>\<open>size_t\<close> wraps
  (\<^verbatim>\<open>4 + expected_json_length\<close>, \<^verbatim>\<open>buffer_size - 100\<close>) the wrap-around is
  written out.
\<close>

section \<open>Frames\<close>

definition MAX_FRAME_SIZE :: nat where "MAX_FRAME_SIZE = 16384"

definition kFrameTypeData :: u8 where "kFrameTypeData = 0x0"
definition kFrameTypeHeaders :: u8 where "kFrameTypeHeaders = 0x1"
definition kFrameTypeSettings :: u8 where "kFrameTypeSettings = 0x4"
definition kFrameTypeGoAway :: u8 where "kFrameTypeGoAway = 0x7"
definition kFlagEndStream :: u8 where "kFlagEndStream = 0x1"
definition kFlagEndHeaders :: u8 where "kFlagEndHeaders = 0x4"
definition kFlagAck :: u8 where "kFlagAck = 0x1"

lemmas frame_consts = kFrameTypeData_def kFrameTypeHeaders_def kFrameTypeSettings_def
  kFrameTypeGoAway_def kFlagEndStream_def kFlagEndHeaders_def kFlagAck_def

record frame =
  f_length :: u32
  f_type :: u8
  f_flags :: u8
  f_stream_id :: u32
  f_payload :: bytes

definition append_uint24 :: "bytes \<Rightarrow> u32 \<Rightarrow> bytes" where
  "append_uint24 out v = out @ put_be24 v"

definition append_uint32 :: "bytes \<Rightarrow> u32 \<Rightarrow> bytes" where
  "append_uint32 out v = out @ put_be32 v"

text \<open>The bytes of a frame, as \<^verbatim>\<open>send_frame_\<close> and \<^verbatim>\<open>post_json\<close> lay them out.\<close>

definition frame_bytes :: "frame \<Rightarrow> bytes" where
  "frame_bytes f =
     append_uint32 (append_uint24 [] (f_length f) @ [f_type f, f_flags f]) (f_stream_id f AND 0x7FFFFFFF)
       @ f_payload f"

text \<open>The header \<^verbatim>\<open>read_frame_\<close> reads from the first nine bytes of the buffer.\<close>

definition parse_header :: "bytes \<Rightarrow> frame" where
  "parse_header buf =
     \<lparr>f_length = get_be24 (buf ! 0) (buf ! 1) (buf ! 2),
      f_type = buf ! 3,
      f_flags = buf ! 4,
      f_stream_id = get_be32 (buf ! 5) (buf ! 6) (buf ! 7) (buf ! 8) AND 0x7FFFFFFF,
      f_payload = []\<rparr>"

section \<open>HPACK\<close>

text \<open>The continuation bytes of an integer with a 7-bit prefix.\<close>

fun int_tail :: "nat \<Rightarrow> bytes" where
  "int_tail remaining =
     (if 0x80 \<le> remaining then word_of_nat (remaining mod 0x80 + 0x80) # int_tail (remaining div 0x80)
      else [word_of_nat remaining])"

declare int_tail.simps [simp del]

definition encode_string_literal :: "bytes \<Rightarrow> string \<Rightarrow> bytes" where
  "encode_string_literal block value =
     (let len = length value
      in block @ (if len < 0x7F then [word_of_nat len] else 0x7F # int_tail (len - 0x7F)) @ bytes_of value)"

definition encode_literal_header :: "bytes \<Rightarrow> string \<Rightarrow> string \<Rightarrow> bytes" where
  "encode_literal_header block name value =
     encode_string_literal (encode_string_literal (block @ [0x00]) name) value"

text \<open>
  \<^verbatim>\<open>atoi\<close>: white space, a sign, digits up to the first other character; the value is
  held in the range of \<^verbatim>\<open>int\<close>, as newlib's \<^verbatim>\<open>strtol\<close> does.
\<close>

definition c_isspace :: "char \<Rightarrow> bool" where
  "c_isspace c \<longleftrightarrow> c = CHR '' '' \<or> (9 \<le> (of_char c :: nat) \<and> (of_char c :: nat) \<le> 13)"

definition c_atoi :: "string \<Rightarrow> int" where
  "c_atoi s =
     (let t = dropWhile c_isspace s;
          neg = (t \<noteq> [] \<and> hd t = CHR ''-'');
          u = (if t \<noteq> [] \<and> hd t \<in> {CHR ''-'', CHR ''+''} then tl t else t);
          n = int (dec_val 0 (takeWhile is_digit u))
      in if neg then max (- (2 ^ 31)) (- n) else min (2 ^ 31 - 1) n)"

definition to_int16 :: "int \<Rightarrow> int" where
  "to_int16 x = sint (word_of_int x :: 16 word)"

text \<open>
  \<^verbatim>\<open>decode_status_header_\<close>: the argument is the part of the block from
  \<^verbatim>\<open>idx\<close> on; \<open>-1\<close> is the result of every \<^verbatim>\<open>break\<close>.
\<close>

function decode_status_header :: "bytes \<Rightarrow> int" where
  "decode_status_header [] = -1"
| "decode_status_header (b # r) =
     (if b AND 0x80 \<noteq> 0 then
        if b AND 0x7F = 8 then 200 else decode_status_header r
      else if b AND 0xF0 = 0 then
        case r of [] \<Rightarrow> -1
        | nl # r1 \<Rightarrow>
            let name_len = unat (nl AND 0x7F)
            in if name_len > length r1 then -1
               else case drop name_len r1 of [] \<Rightarrow> -1
               | vl # r2 \<Rightarrow>
                   let value_len = unat (vl AND 0x7F)
                   in if value_len > length r2 then -1
                      else if string_of (take name_len r1) = '':status''
                      then to_int16 (c_atoi (string_of (take value_len r2)))
                      else decode_status_header (drop value_len r2)
      else -1)"
  by pat_completeness auto
termination
proof (relation "measure length"; clarsimp)
  fix nl vl :: u8 and r1 r2 :: bytes
  assume "drop (unat (nl AND 0x7F)) r1 = vl # r2"
  then have "length (drop (unat (nl AND 0x7F)) r1) = Suc (length r2)" by simp
  then show "length r2 - unat (vl AND 0x7F) < Suc (Suc (length r1))"
    by simp
qed

section \<open>Is the buffered body a complete JSON document?\<close>

definition is_msgpack :: "u8 \<Rightarrow> bool" where
  "is_msgpack b \<longleftrightarrow> (0x80 \<le> b \<and> b \<le> 0x8f) \<or> (0xa0 \<le> b \<and> b \<le> 0xbf) \<or> b = 0xde \<or> b = 0xdf"

datatype scan_result = Early | Scanned int bool

text \<open>
  The brace-counting loop from index \<open>i\<close> on the rest of the buffer: \<open>Early\<close> is its
  \<^verbatim>\<open>return true\<close>, \<open>Scanned\<close> the final depth and string flag.
\<close>

fun scan_braces :: "nat \<Rightarrow> int \<Rightarrow> bool \<Rightarrow> bool \<Rightarrow> string \<Rightarrow> scan_result" where
  "scan_braces i d ins esc [] = Scanned d ins"
| "scan_braces i d ins esc (c # cs) =
     (if esc then scan_braces (i + 1) d ins False cs
      else if c = bslash then scan_braces (i + 1) d ins True cs
      else if c = dquote then scan_braces (i + 1) d (\<not> ins) False cs
      else if ins then scan_braces (i + 1) d ins False cs
      else if c = CHR ''{'' then scan_braces (i + 1) (d + 1) ins False cs
      else if c = CHR ''}'' then
        if d - 1 = 0 \<and> i > 1000 \<and> (list_all c_isspace (take 99 cs) \<or> cs = []) then Early
        else scan_braces (i + 1) (d - 1) ins False cs
      else scan_braces (i + 1) d ins False cs)"

text \<open>
  The last loop looks backwards for the last character that is not white space, while
  \<^verbatim>\<open>i > start_offset && i > buffer_size - 100\<close>; the subtraction is on the 32-bit
  \<^verbatim>\<open>size_t\<close>.
\<close>

definition size_sub :: "nat \<Rightarrow> nat \<Rightarrow> nat" where
  "size_sub a b = (if b \<le> a then a - b else 2 ^ 32 + a - b)"

fun last_is_brace :: "string \<Rightarrow> nat \<Rightarrow> nat \<Rightarrow> nat \<Rightarrow> bool" where
  "last_is_brace buf off lim 0 = False"
| "last_is_brace buf off lim (Suc i) =
     (if off < Suc i \<and> lim < Suc i then
        if \<not> c_isspace (buf ! i) then buf ! i = CHR ''}'' else last_is_brace buf off lim i
      else False)"

definition wire_length :: "string \<Rightarrow> u32" where
  "wire_length buf = get_le32 (ord8 (buf ! 0)) (ord8 (buf ! 1)) (ord8 (buf ! 2)) (ord8 (buf ! 3))"

definition has_wire_prefix :: "string \<Rightarrow> bool" where
  "has_wire_prefix buf \<longleftrightarrow> 5 \<le> length buf \<and> buf ! 0 \<noteq> CHR ''{'' \<and> buf ! 4 = CHR ''{''"

definition has_complete_json :: "string \<Rightarrow> bool" where
  "has_complete_json buf =
     (let size = length buf in
      if size < 2 then False
      else if has_wire_prefix buf \<and> size < unat (4 + wire_length buf) then False
      else
        let off = (if has_wire_prefix buf then 4 else 0);
            first_byte = ord8 (buf ! off)
        in if is_msgpack first_byte then size \<ge> 1024
           else if buf ! off \<noteq> CHR ''{'' then False
           else case scan_braces off 0 False False (drop off buf) of
                  Early \<Rightarrow> True
                | Scanned d ins \<Rightarrow>
                    if d \<noteq> 0 \<or> ins then False
                    else last_is_brace buf off (size_sub size 100) size)"

section \<open>Frame layout\<close>

lemma m31_mask: "(0x7FFFFFFF :: u32) = mask 31"
  by (simp add: mask_eq_exp_minus_1)

lemma and_m31: "unat (v :: u32) < 2 ^ 31 \<Longrightarrow> v AND 0x7FFFFFFF = v"
proof -
  assume "unat v < 2 ^ 31"
  then have "unat (take_bit 31 v) = unat v"
    by (simp add: unsigned_take_bit_eq take_bit_nat_eq_self)
  then have "take_bit 31 v = v" by (simp only: unat_arith_simps)
  then show ?thesis unfolding m31_mask by (simp only: take_bit_eq_mask)
qed

lemma and_m31_bound: "unat (v AND 0x7FFFFFFF :: u32) < 2 ^ 31"
  unfolding m31_mask take_bit_eq_mask [symmetric] unsigned_take_bit_eq by (rule take_bit_nat_less_exp)

definition wf_frame :: "frame \<Rightarrow> bool" where
  "wf_frame f \<longleftrightarrow> unat (f_length f) = length (f_payload f) \<and> length (f_payload f) < 2 ^ 24 \<and>
     unat (f_stream_id f) < 2 ^ 31"

lemma length_frame_bytes [simp]: "length (frame_bytes f) = 9 + length (f_payload f)"
  by (simp add: frame_bytes_def append_uint24_def append_uint32_def)

lemma frame_bytes_split:
  "frame_bytes f = (frame_bytes (f\<lparr>f_payload := []\<rparr>)) @ f_payload f"
  by (simp add: frame_bytes_def)

lemma parse_header_frame_bytes [codec_simps]:
  assumes "wf_frame f"
  shows "parse_header (frame_bytes f @ rest) = f\<lparr>f_payload := []\<rparr>"
proof -
  have "unat (f_length f) < 2 ^ 24" using assms by (simp add: wf_frame_def)
  moreover have "f_stream_id f AND 0x7FFFFFFF = f_stream_id f"
    using assms by (intro and_m31) (simp add: wf_frame_def)
  ultimately show ?thesis
    by (simp add: parse_header_def frame_bytes_def append_uint24_def append_uint32_def put_be24_def
        put_be32_def put_be24_less get_put_be32)
qed

section \<open>HPACK against a reference decoder\<close>

text \<open>String literals as RFC 7541 (5.1, 5.2) defines them, without Huffman coding.\<close>

fun hpack_tail :: "bytes \<Rightarrow> (nat \<times> bytes) option" where
  "hpack_tail [] = None"
| "hpack_tail (b # bs) =
     (if 0x80 \<le> unat b then map_option (\<lambda>(v, r). (unat b - 0x80 + 0x80 * v, r)) (hpack_tail bs)
      else Some (unat b, bs))"

definition hpack_length :: "bytes \<Rightarrow> (nat \<times> bytes) option" where
  "hpack_length bs =
     (case bs of [] \<Rightarrow> None
      | b # r \<Rightarrow> if 0x80 \<le> unat b then None
               else if unat b < 0x7F then Some (unat b, r)
               else map_option (\<lambda>(v, r). (0x7F + v, r)) (hpack_tail r))"

definition hpack_string :: "bytes \<Rightarrow> (string \<times> bytes) option" where
  "hpack_string bs =
     (case hpack_length bs of None \<Rightarrow> None
      | Some (n, r) \<Rightarrow> if n \<le> length r then Some (string_of (take n r), drop n r) else None)"

definition hpack_literal :: "bytes \<Rightarrow> ((string \<times> string) \<times> bytes) option" where
  "hpack_literal bs =
     (case bs of [] \<Rightarrow> None
      | b # r \<Rightarrow> if b \<noteq> 0 then None
               else case hpack_string r of None \<Rightarrow> None
               | Some (n, r) \<Rightarrow> (case hpack_string r of None \<Rightarrow> None
                   | Some (v, r) \<Rightarrow> Some ((n, v), r)))"

fun hpack_literals :: "nat \<Rightarrow> bytes \<Rightarrow> (string \<times> string) list option" where
  "hpack_literals 0 bs = (if bs = [] then Some [] else None)"
| "hpack_literals (Suc n) bs =
     (case hpack_literal bs of None \<Rightarrow> None
      | Some (h, r) \<Rightarrow> map_option (Cons h) (hpack_literals n r))"

lemma unat_of_nat_small: "n < 256 \<Longrightarrow> unat (word_of_nat n :: u8) = n"
  by (simp add: unat_of_nat)

lemma hpack_tail_int_tail [codec_simps]: "hpack_tail (int_tail n @ r) = Some (n, r)"
proof (induction n rule: int_tail.induct)
  case (1 n)
  show ?case
  proof (cases "0x80 \<le> n")
    case True
    have "unat (word_of_nat (n mod 0x80 + 0x80) :: u8) = n mod 0x80 + 0x80"
      by (rule unat_of_nat_small) simp
    with True 1 show ?thesis
      by (subst int_tail.simps) (simp del: of_nat_add)
  next
    case False
    then show ?thesis by (subst int_tail.simps) (simp add: unat_of_nat_small)
  qed
qed

lemma hpack_string_encode [codec_simps]:
  "hpack_string (encode_string_literal [] s @ r) = Some (s, r)"
proof (cases "length s < 0x7F")
  case True
  then show ?thesis
    by (simp add: hpack_string_def hpack_length_def encode_string_literal_def unat_of_nat_small)
next
  case False
  then show ?thesis
    by (simp add: hpack_string_def hpack_length_def encode_string_literal_def codec_simps)
qed

lemma encode_string_append: "encode_string_literal b s = b @ encode_string_literal [] s"
  by (simp add: encode_string_literal_def Let_def)

lemma encode_header_append:
  "encode_literal_header b n v = b @ 0 # encode_string_literal [] n @ encode_string_literal [] v"
  by (simp add: encode_literal_header_def encode_string_literal_def Let_def)

lemma hpack_literal_encode [codec_simps]:
  "hpack_literal (encode_literal_header [] n v @ r) = Some ((n, v), r)"
  by (simp add: encode_header_append hpack_literal_def codec_simps)

lemma header_fold_decodes:
  "hpack_literals (length hs) (fold (\<lambda>(n, v) b. encode_literal_header b n v) hs []) = Some hs"
proof -
  have gen: "fold (\<lambda>(n, v) b. encode_literal_header b n v) hs b
      = b @ concat (map (\<lambda>(n, v). encode_literal_header [] n v) hs)" for b
    by (induction hs arbitrary: b) (auto simp: encode_header_append)
  have "hpack_literals (length hs) (concat (map (\<lambda>(n, v). encode_literal_header [] n v) hs)) = Some hs"
    by (induction hs) (auto simp: codec_simps)
  with gen [of "[]"] show ?thesis by simp
qed

text \<open>
  The header block the request builder appends header by header is decoded by the reference
  decoder into exactly those headers, in order, for names and values of every length.
\<close>

lemma header_block_roundtrip:
  "hpack_literals (length hs) (fold (\<lambda>(n, v) b. encode_literal_header b n v) hs []) = Some hs"
  by (rule header_fold_decodes)

section \<open>The status decoder\<close>

text \<open>A header the decoder reads: both lengths fit the seven bits it looks at.\<close>

definition short_header :: "string \<times> string \<Rightarrow> bool" where
  "short_header h \<longleftrightarrow> length (fst h) < 0x7F \<and> length (snd h) < 0x7F"

lemma and_7f_mask: "(0x7F :: u8) = mask 7"
  by (simp add: mask_eq_exp_minus_1)

lemma unat_len_byte: "n < 0x7F \<Longrightarrow> unat ((word_of_nat n :: u8) AND 0x7F) = n"
proof -
  assume "n < 0x7F"
  then have "unat (take_bit 7 (word_of_nat n :: u8)) = n"
    by (simp add: unsigned_take_bit_eq unat_of_nat_small take_bit_nat_eq_self)
  then show ?thesis unfolding and_7f_mask by (simp only: take_bit_eq_mask)
qed

lemma encode_short: "length s < 0x7F \<Longrightarrow> encode_string_literal [] s = word_of_nat (length s) # bytes_of s"
  by (simp add: encode_string_literal_def)

lemma decode_literal:
  assumes "short_header (n, v)"
  shows "decode_status_header (encode_literal_header [] n v @ r) =
    (if n = '':status'' then to_int16 (c_atoi v) else decode_status_header r)"
  using assms by (simp add: encode_header_append encode_short short_header_def unat_len_byte)

lemma decode_skip:
  assumes "\<forall>h \<in> set hs. short_header h \<and> fst h \<noteq> '':status''"
  shows "decode_status_header (concat (map (\<lambda>(n, v). encode_literal_header [] n v) hs) @ r) = decode_status_header r"
  using assms by (induction hs) (auto simp: decode_literal)

lemma digits_takeWhile: "list_all is_digit s \<Longrightarrow> takeWhile is_digit s = s"
  by (induction s) auto

lemma digit_not_sign: "is_digit c \<Longrightarrow> \<not> c_isspace c \<and> c \<noteq> CHR ''-'' \<and> c \<noteq> CHR ''+''"
  by (auto simp: is_digit_def c_isspace_def)

lemma c_atoi_show: "n < 2 ^ 31 \<Longrightarrow> c_atoi (show_nat n) = int n"
proof -
  assume n: "n < 2 ^ 31"
  obtain c cs where s: "show_nat n = c # cs" using show_nat_not_Nil [of n] by (cases "show_nat n") auto
  have "is_digit c" using show_nat_digits [of n] by (simp add: s)
  then have "\<not> c_isspace c \<and> c \<noteq> CHR ''-'' \<and> c \<noteq> CHR ''+''" by (rule digit_not_sign)
  then show ?thesis
    using n digits_takeWhile [OF show_nat_digits [of n]] dec_val_show_nat [of n]
    by (simp add: c_atoi_def s)
qed

lemma to_int16_self: "- (2 ^ 15) \<le> x \<Longrightarrow> x < 2 ^ 15 \<Longrightarrow> to_int16 x = x"
  by (simp add: to_int16_def sint_sbintrunc' signed_take_bit_int_eq_self)

lemma to_int16_small: "n < 2 ^ 15 \<Longrightarrow> to_int16 (int n) = int n"
  by (rule to_int16_self) auto

lemma decode_status_behind:
  assumes "\<forall>h \<in> set hs. short_header h \<and> fst h \<noteq> '':status''" and "n < 2 ^ 15"
  shows "decode_status_header (concat (map (\<lambda>(n, v). encode_literal_header [] n v) hs)
           @ encode_literal_header [] '':status'' (show_nat n) @ rest) = int n"
proof -
  have "length (show_nat n) \<le> 5"
    using assms(2) by (intro length_show_nat) auto
  then have "short_header ('':status'', show_nat n)"
    by (simp add: short_header_def)
  then have "decode_status_header (encode_literal_header [] '':status'' (show_nat n) @ rest)
      = to_int16 (c_atoi (show_nat n))"
    by (subst decode_literal) auto
  with assms(2) show ?thesis
    by (simp only: decode_skip [OF assms(1)]) (simp add: c_atoi_show to_int16_small)
qed

text \<open>
  A status sent as a literal with a literal name is found behind any number of other literal
  headers, for every value a signed 16-bit status can hold.
\<close>

lemma decode_status_literal:
  assumes "\<forall>h \<in> set hs. short_header h \<and> fst h \<noteq> '':status''" and "n < 2 ^ 15"
  shows "decode_status_header (concat (map (\<lambda>(n, v). encode_literal_header [] n v) hs)
           @ encode_literal_header [] '':status'' (show_nat n) @ rest) = int n"
  using assms by (rule decode_status_behind)

lemma decode_status_literal_witness:
  "decode_status_header (concat (map (\<lambda>(n, v). encode_literal_header [] n v) [(''date'', ''now'')])
     @ encode_literal_header [] '':status'' (show_nat 404) @ []) = int 404"
  by (rule decode_status_literal) (simp_all add: short_header_def)

text \<open>
  Of the indexed statuses of the static table (RFC 7541, appendix A: 8 to 14 are 200, 204,
  206, 304, 400, 404, 500) only 200 is decoded; every other one is skipped, so a response that
  says only 404 or 500 in this form leaves the caller without a status.
\<close>

lemma decode_status_indexed:
  "decode_status_header [0x88] = 200 \<and>
   list_all (\<lambda>b. decode_status_header [b] = -1) [0x89, 0x8A, 0x8B, 0x8C, 0x8D, 0x8E]"
  by simp

section \<open>Completeness of a JSON body\<close>

text \<open>
  A text the scanner passes over from any positive depth: it returns to that depth, outside
  strings, and no closing brace on the way goes below depth one (\<open>safe\<close>).
\<close>

fun safe :: "int \<Rightarrow> bool \<Rightarrow> bool \<Rightarrow> string \<Rightarrow> bool" where
  "safe d ins esc [] = True"
| "safe d ins esc (c # cs) =
     (if esc then safe d ins False cs
      else if c = bslash then safe d ins True cs
      else if c = dquote then safe d (\<not> ins) False cs
      else if ins then safe d ins False cs
      else if c = CHR ''{'' then safe (d + 1) ins False cs
      else if c = CHR ''}'' then 1 \<le> d - 1 \<and> safe (d - 1) ins False cs
      else safe d ins False cs)"

lemma safe_prefix: "safe d ins esc (a @ b) \<Longrightarrow> safe d ins esc a"
  by (induction d ins esc a rule: safe.induct) (auto split: if_splits)

lemma safe_scan:
  "safe d ins esc s \<Longrightarrow> 1 \<le> d \<Longrightarrow> \<exists>d' ins'. scan_braces i d ins esc s = Scanned d' ins' \<and> 1 \<le> d'"
proof (induction d ins esc s arbitrary: i rule: safe.induct)
  case (2 d ins esc c cs)
  then show ?case by (cases "esc \<or> c = bslash \<or> c = dquote \<or> ins") (auto split: if_splits)
qed simp

definition passes :: "string \<Rightarrow> bool" where
  "passes s \<longleftrightarrow> (\<forall>i d rest. 1 \<le> d \<longrightarrow>
     scan_braces i d False False (s @ rest) = scan_braces (i + length s) d False False rest \<and>
     safe d False False (s @ rest) = safe d False False rest)"

lemma passes_append: "passes a \<Longrightarrow> passes b \<Longrightarrow> passes (a @ b)"
  unfolding passes_def by (simp add: add.assoc)

lemma passes_Nil: "passes []"
  by (simp add: passes_def)

lemma passes_char: "c \<notin> {dquote, bslash, CHR ''{'', CHR ''}''} \<Longrightarrow> passes [c]"
  by (simp add: passes_def)

lemma passes_lit: "list_all lit_char s \<Longrightarrow> passes s"
proof (induction s)
  case (Cons c s)
  then have "passes [c]" "passes s" by (auto intro!: passes_char simp: lit_char_def)
  then show ?case using passes_append by fastforce
qed (rule passes_Nil)

lemma scan_raw:
  "raw_scan esc s \<Longrightarrow>
    scan_braces i d True esc (s @ rest) = scan_braces (i + length s) d True False rest \<and>
    safe d True esc (s @ rest) = safe d True False rest"
  by (induction esc s arbitrary: i rule: raw_scan.induct) (auto split: if_splits)

lemma passes_quoted: "raw_ok s \<Longrightarrow> passes (quoted s)"
  by (simp add: passes_def quoted_def raw_ok_def scan_raw)

lemma passes_braced: "passes s \<Longrightarrow> passes (''{'' @ s @ ''}'')"
  by (simp add: passes_def)

lemma passes_commas: "(\<And>s. s \<in> set ss \<Longrightarrow> passes s) \<Longrightarrow> passes (commas ss)"
proof (induction ss rule: commas.induct)
  case (3 x y zs)
  then have "passes (x @ '','' @ commas (y # zs))"
    by (intro passes_append passes_char) auto
  then show ?case by simp
qed (auto simp: passes_Nil)

lemma passes_render: "wf_json v \<Longrightarrow> passes (render v)"
proof (induction v)
  case (JArr xs)
  then have "passes (''['' @ commas (map render xs) @ '']'')"
    by (intro passes_append passes_char passes_commas) auto
  then show ?case by simp
next
  case (JObj fs)
  have "passes (quoted (fst f) @ '':'' @ render (snd f))" if "f \<in> set fs" for f
    using that JObj.prems JObj.IH [of f "snd f"]
    by (intro passes_append passes_char passes_quoted) (cases f; auto simp: Basic_BNFs.snds.intros)+
  then have "passes (''{'' @ commas (map (\<lambda>f. quoted (fst f) @ '':'' @ render (snd f)) fs) @ ''}'')"
    by (intro passes_braced passes_commas) auto
  then show ?case by simp
qed (simp_all add: passes_lit passes_quoted)

text \<open>An object is open in the middle of its text and closed at its end.\<close>

lemma object_text:
  assumes "wf_json (JObj fs)"
  obtains inner where "render (JObj fs) = ''{'' @ inner @ ''}''" "passes inner"
proof -
  have "passes (quoted (fst f) @ '':'' @ render (snd f))" if "f \<in> set fs" for f
    using that assms by (intro passes_append passes_char passes_quoted passes_render) auto
  then have "passes (commas (map (\<lambda>f. quoted (fst f) @ '':'' @ render (snd f)) fs))"
    by (intro passes_commas) auto
  then show ?thesis by (intro that) auto
qed

lemma scan_open_prefix:
  assumes "passes inner" "n \<le> length inner"
  shows "\<exists>d ins. scan_braces i 0 False False (CHR ''{'' # take n inner) = Scanned d ins \<and> d \<noteq> 0"
proof -
  have "safe 1 False False (take n inner @ drop n inner)"
    using assms(1) unfolding passes_def by (metis append_Nil2 append_take_drop_id order_refl safe.simps(1))
  then have "safe 1 False False (take n inner)" by (rule safe_prefix)
  from safe_scan [OF this, of "i + 1"] show ?thesis by auto
qed

lemma scan_closed:
  assumes "passes inner"
  shows "scan_braces i 0 False False (''{'' @ inner @ ''}'') = (if i + 1 + length inner > 1000 then Early else Scanned 0 False)"
  using assms by (auto simp: passes_def)

lemma last_is_brace_end:
  assumes "buf \<noteq> []" "last buf = CHR ''}''" "off < length buf" "lim < length buf"
  shows "last_is_brace buf off lim (length buf)"
proof -
  obtain k where k: "length buf = Suc k" using assms(1) by (cases buf) auto
  then have "buf ! k = CHR ''}''" using assms(1,2) by (simp add: last_conv_nth)
  then show ?thesis using assms(3,4) k by (simp add: c_isspace_def)
qed

text \<open>The branch of the test behind the format checks, on a whole object at the offset.\<close>

lemma object_accepted:
  assumes "wf_json (JObj fs)" "100 \<le> length (render (JObj fs))" "length pre = off"
    and "\<not> (has_wire_prefix buf \<and> length buf < unat (4 + wire_length buf))"
    and "off = (if has_wire_prefix buf then 4 else 0)" and "buf = pre @ render (JObj fs)"
  shows "has_complete_json buf"
proof -
  obtain inner where m: "render (JObj fs) = ''{'' @ inner @ ''}''" "passes inner"
    using assms(1) by (rule object_text)
  have len: "100 \<le> length (''{'' @ inner @ ''}'')" using assms(2) unfolding m(1) .
  have buf: "buf = pre @ ''{'' @ inner @ ''}''" using assms(6) unfolding m(1) .
  have last: "last_is_brace buf off (size_sub (length buf) 100) (length buf)"
    using len assms(3) by (intro last_is_brace_end) (auto simp: buf size_sub_def)
  have off: "buf ! off = CHR ''{''" "drop off buf = ''{'' @ inner @ ''}''" "\<not> length buf < 2"
    using assms(3) len by (auto simp: buf nth_append)
  have "\<not> is_msgpack (ord8 (buf ! off))"
    unfolding off(1) by (simp add: is_msgpack_def ord8_def)
  then have "has_complete_json buf = (case scan_braces off 0 False False (''{'' @ inner @ ''}'') of Early \<Rightarrow> True
      | Scanned d ins \<Rightarrow> if d \<noteq> 0 \<or> ins then False else last_is_brace buf off (size_sub (length buf) 100) (length buf))"
    using off assms(4) unfolding has_complete_json_def Let_def assms(5) [symmetric]
    by (simp only: if_False simp_thms if_True)
  also have "\<dots>" unfolding scan_closed [OF m(2)]
    by (cases "off + 1 + length inner > 1000") (use last in \<open>simp_all only: scan_result.case if_True if_False simp_thms\<close>)
  finally show ?thesis .
qed

lemma object_complete:
  assumes "wf_json (JObj fs)" "100 \<le> length (render (JObj fs))"
  shows "has_complete_json (render (JObj fs))"
  using assms by (intro object_accepted [where pre = "[]" and off = 0]) (auto simp: has_wire_prefix_def)

lemma object_incomplete:
  assumes "wf_json (JObj fs)" "n < length (render (JObj fs))"
  shows "\<not> has_complete_json (take n (render (JObj fs)))"
proof -
  obtain inner where m: "render (JObj fs) = ''{'' @ inner @ ''}''" "passes inner"
    using assms(1) by (rule object_text)
  show ?thesis
  proof (cases n)
    case 0
    then show ?thesis by (simp add: has_complete_json_def)
  next
    case (Suc k)
    let ?t = "CHR ''{'' # take k inner"
    have k: "k \<le> length inner" using Suc assms(2) unfolding m(1) by simp
    have t: "take n (render (JObj fs)) = ?t" using Suc k unfolding m(1) by simp
    from scan_open_prefix [OF m(2) k, of 0] obtain d ins
      where sc: "scan_braces 0 0 False False ?t = Scanned d ins" "d \<noteq> 0" by blast
    have "\<not> has_wire_prefix ?t" "\<not> is_msgpack (ord8 (?t ! 0))" "?t ! 0 = CHR ''{''"
      by (auto simp: has_wire_prefix_def is_msgpack_def ord8_def)
    then show ?thesis using sc unfolding t has_complete_json_def Let_def
      by (simp only: if_False simp_thms drop_0 scan_result.case if_True) auto
  qed
qed

text \<open>
  The completeness test is exact on messages of 100 bytes and more: of the growing prefixes
  of a well-formed object only the whole is accepted, wherever the frames cut it.
\<close>

lemma complete_json_exact:
  assumes "wf_json (JObj fs)" and "100 \<le> length (render (JObj fs))" and "n \<le> length (render (JObj fs))"
  shows "has_complete_json (take n (render (JObj fs))) \<longleftrightarrow> n = length (render (JObj fs))"
  using object_complete [OF assms(1,2)] object_incomplete [OF assms(1), of n] assms(3)
  by (cases "n = length (render (JObj fs))") auto

lemma complete_json_exact_witness:
  "has_complete_json (take 104 (render (JObj [(''Name'', JStr (replicate 93 CHR ''a''))])))
     \<longleftrightarrow> 104 = length (render (JObj [(''Name'', JStr (replicate 93 CHR ''a''))]))"
proof (rule complete_json_exact)
  have "raw_ok (replicate 93 CHR ''a'')" "raw_ok ''Name''"
    by (intro plain_raw_ok; simp add: plain_def list_all_iff plain_char_def)+
  then show "wf_json (JObj [(''Name'', JStr (replicate 93 CHR ''a''))])"
    by simp
qed simp_all

section \<open>Short messages\<close>

lemma scan_not_early: "i + length s \<le> 1001 \<Longrightarrow> scan_braces i d ins esc s \<noteq> Early"
  by (induction i d ins esc s rule: scan_braces.induct) auto

lemma last_is_brace_none: "i \<le> lim \<Longrightarrow> \<not> last_is_brace buf off lim i"
  by (cases i) auto

text \<open>
  A body shorter than 100 bytes is never complete, however well formed: the bound of the
  last loop, \<^verbatim>\<open>buffer_size - 100\<close>, wraps around. Keep-alive messages of the map stream
  are such bodies.
\<close>

lemma short_json_never_complete:
  assumes "length buf < 100"
  shows "\<not> has_complete_json buf"
proof
  assume c: "has_complete_json buf"
  let ?off = "if has_wire_prefix buf then 4 else 0 :: nat"
  have "?off + length (drop ?off buf) \<le> 1001" using assms by auto
  then have "scan_braces ?off 0 False False (drop ?off buf) \<noteq> Early" by (rule scan_not_early)
  moreover have "\<not> last_is_brace buf ?off (size_sub (length buf) 100) (length buf)"
    using assms by (intro last_is_brace_none) (simp add: size_sub_def)
  ultimately show False using c assms
    by (auto simp: has_complete_json_def Let_def split: if_splits scan_result.splits)
qed

lemma short_json_never_complete_witness:
  "\<not> has_complete_json (render (JObj [(''KeepAlive'', JLit ''true'')]))"
  by (rule short_json_never_complete) simp

section \<open>The length prefix\<close>

lemma chr8_not_brace: "unat b \<noteq> 123 \<Longrightarrow> chr8 b \<noteq> CHR ''{''"
proof
  assume "unat b \<noteq> 123" "chr8 b = CHR ''{''"
  then have "b = ord8 CHR ''{''" by (simp add: chr8_eq_conv)
  with \<open>unat b \<noteq> 123\<close> show False by (simp add: ord8_def)
qed

definition le_prefix :: "nat \<Rightarrow> string" where
  "le_prefix n = string_of (put_le32 (word_of_nat n))"

lemma chr8_0 [simp]: "chr8 0 = CHR 0x00"
  by (simp add: chr8_def char_of_def)

lemma le_prefix_123:
  assumes "n mod 256 = 123" "n < 8192"
  obtains c where "le_prefix n = CHR ''{'' # c # chr8 0 # [chr8 0]" "passes [c]"
proof -
  let ?w = "word_of_nat n :: u32"
  have w: "unat ?w = n" using assms(2) by (simp add: unat_of_nat)
  have "unat (ucast ?w :: u8) = 123"
    using assms(1) w by (simp add: unsigned_ucast_eq take_bit_eq_mod)
  then have b0: "chr8 (ucast ?w) = CHR ''{''" by (simp add: chr8_def char_of_def bit_Suc_0_iff)
  have "unat (ucast (drop_bit 8 ?w) :: u8) = n div 256"
    using assms(2) by (simp only: unsigned_ucast_eq unsigned_drop_bit_eq w) (simp add: take_bit_eq_mod drop_bit_eq_div)
  then have b1: "(of_char (chr8 (ucast (drop_bit 8 ?w))) :: nat) = n div 256"
    using assms(2) by (simp add: chr8_def)
  have "unat (drop_bit 16 ?w) = 0" "unat (drop_bit 24 ?w) = 0"
    using assms(2) by (simp_all only: unsigned_drop_bit_eq w) (simp_all add: drop_bit_eq_div take_bit_eq_mod)
  then have "drop_bit 16 ?w = 0" "drop_bit 24 ?w = 0" by (simp_all add: unat_eq_0)
  then have "le_prefix n = CHR ''{'' # chr8 (ucast (drop_bit 8 ?w)) # chr8 0 # [chr8 0]"
    using b0 by (simp add: le_prefix_def put_le32_def)
  moreover have "passes [chr8 (ucast (drop_bit 8 ?w))]"
    using b1 assms(2) by (intro passes_char) auto
  ultimately show ?thesis by (rule that)
qed

text \<open>
  A message behind its little-endian length is taken for a bare one when the low byte of
  the length is 123, the code of an opening brace; with one brace too many the complete message
  is then refused.
\<close>

lemma length_123_refused:
  assumes "wf_json (JObj fs)" and "length (render (JObj fs)) mod 256 = 123"
    and "length (render (JObj fs)) < 8192"
  shows "\<not> has_complete_json (le_prefix (length (render (JObj fs))) @ render (JObj fs))"
proof -
  obtain c where c: "le_prefix (length (render (JObj fs))) = CHR ''{'' # c # chr8 0 # [chr8 0]" "passes [c]"
    using assms(2,3) by (rule le_prefix_123)
  have "passes ([c] @ ([chr8 0] @ [chr8 0]) @ render (JObj fs))"
    using c(2) assms(1) passes_char [of "CHR 0x00"] by (intro passes_append passes_render) auto
  from scan_open_prefix [OF this order_refl, of 0]
  obtain d ins where d: "scan_braces 0 0 False False (le_prefix (length (render (JObj fs))) @ render (JObj fs)) = Scanned d ins"
    "d \<noteq> 0" by (auto simp: c(1) simp del: render.simps)
  moreover have "\<not> has_wire_prefix (le_prefix (length (render (JObj fs))) @ render (JObj fs))"
    by (simp add: c(1) has_wire_prefix_def del: render.simps)
  moreover have "\<not> is_msgpack (ord8 ((le_prefix (length (render (JObj fs))) @ render (JObj fs)) ! 0))"
    by (simp add: c(1) is_msgpack_def ord8_def del: render.simps)
  ultimately show ?thesis
    unfolding has_complete_json_def Let_def by (simp del: render.simps)
qed

lemma length_123_refused_witness:
  "\<not> has_complete_json (le_prefix (length (render (JObj [(''Name'', JStr (replicate 112 CHR ''a''))])))
      @ render (JObj [(''Name'', JStr (replicate 112 CHR ''a''))]))"
proof (rule length_123_refused)
  have "raw_ok (replicate 112 CHR ''a'')" "raw_ok ''Name''"
    by (intro plain_raw_ok; simp add: plain_def list_all_iff plain_char_def)+
  then show "wf_json (JObj [(''Name'', JStr (replicate 112 CHR ''a''))])"
    by simp
qed simp_all

lemma le_prefix_bytes:
  "le_prefix n = map chr8 [ucast (word_of_nat n :: u32), ucast (drop_bit 8 (word_of_nat n :: u32)),
     ucast (drop_bit 16 (word_of_nat n :: u32)), ucast (drop_bit 24 (word_of_nat n :: u32))]"
  by (simp add: le_prefix_def put_le32_def)

lemma length_le_prefix [simp]: "length (le_prefix n) = 4"
  by (simp add: le_prefix_bytes)

lemma le_prefix_first:
  assumes "n mod 256 \<noteq> 123"
  shows "le_prefix n ! 0 \<noteq> CHR ''{''"
proof -
  have "unat (ucast (word_of_nat n :: u32) :: u8) = n mod 256"
    by (simp add: unsigned_ucast_eq take_bit_eq_mod unat_of_nat mod_mod_cancel)
  with assms show ?thesis by (simp add: le_prefix_bytes chr8_not_brace)
qed

lemma wire_length_le_prefix: "wire_length (le_prefix n @ s) = word_of_nat n"
  by (simp add: wire_length_def le_prefix_bytes codec_simps)

text \<open>
  With the low byte of the length different from 123 the prefix is recognised and the test
  is exact behind it: complete with the last byte of the message and not before.
\<close>

lemma complete_json_exact_prefixed:
  assumes "wf_json (JObj fs)" and "100 \<le> length (render (JObj fs))"
    and "length (render (JObj fs)) < 2 ^ 31" and "length (render (JObj fs)) mod 256 \<noteq> 123"
    and "k \<le> length (render (JObj fs))"
  shows "has_complete_json (le_prefix (length (render (JObj fs))) @ take k (render (JObj fs)))
    \<longleftrightarrow> k = length (render (JObj fs))"
proof -
  let ?n = "length (render (JObj fs))" and ?buf = "le_prefix (length (render (JObj fs))) @ take k (render (JObj fs))"
  have first: "?buf ! 0 \<noteq> CHR ''{''" using le_prefix_first [OF assms(4)] by (simp add: nth_append)
  have brace: "render (JObj fs) ! 0 = CHR ''{''" by simp
  have "unat (4 + word_of_nat ?n :: u32) = 4 + ?n"
    using assms(3) by (simp add: unat_word_ariths unat_of_nat del: render.simps)
  then have wl: "unat (4 + wire_length ?buf) = 4 + ?n" by (simp add: wire_length_le_prefix del: render.simps)
  show ?thesis
  proof (cases "k = 0")
    case True
    have "\<not> has_complete_json ?buf"
      using True first by (simp add: has_complete_json_def has_wire_prefix_def Let_def del: render.simps)
    with True assms(2) show ?thesis by linarith
  next
    case False
    then have pre: "has_wire_prefix ?buf"
      using first brace assms(2,5) by (simp add: has_wire_prefix_def nth_append del: render.simps)
    show ?thesis
    proof (cases "k = ?n")
      case True
      have "has_complete_json ?buf"
        using assms(1,2) pre wl True by (intro object_accepted [where off = 4]) (auto simp del: render.simps)
      with True show ?thesis by simp
    next
      case neq: False
      then have "length ?buf < unat (4 + wire_length ?buf)" using assms(5) wl by (simp del: render.simps)
      with pre neq show ?thesis by (simp add: has_complete_json_def Let_def del: render.simps)
    qed
  qed
qed

lemma complete_json_exact_prefixed_witness:
  "has_complete_json (le_prefix (length (render (JObj [(''Name'', JStr (replicate 93 CHR ''a''))])))
      @ take 7 (render (JObj [(''Name'', JStr (replicate 93 CHR ''a''))])))
    \<longleftrightarrow> 7 = length (render (JObj [(''Name'', JStr (replicate 93 CHR ''a''))]))"
proof (rule complete_json_exact_prefixed)
  have "raw_ok (replicate 93 CHR ''a'')" "raw_ok ''Name''"
    by (intro plain_raw_ok; simp add: plain_def list_all_iff plain_char_def)+
  then show "wf_json (JObj [(''Name'', JStr (replicate 93 CHR ''a''))])"
    by simp
qed simp_all

end
