(* ===== verification/Json_Stream.thy ===== *)
theory Json_Stream
  imports Json_Spec
begin

text \<open>
  \<^verbatim>\<open>json_stream_parser.h\<close>: the incremental parser that keeps the top-level
  \<^verbatim>\<open>Node\<close> field of a map response and drops everything else. The record is the class;
  the caller's \<^verbatim>\<open>output\<close> array is represented by the bytes written to it, so
  \<^verbatim>\<open>output_pos_\<close> is the length of \<open>jp_output\<close>; \<^verbatim>\<open>field_name_buf_\<close> is
  likewise the \<open>field_name_pos_\<close> characters written to it (the code reads the array only
  right after terminating it there). Logging is left out.

  The lemmas show that the parser never writes past either buffer, that feeding a message in
  pieces is feeding it whole, and that on a well-formed message it returns exactly the
  \<^verbatim>\<open>Node\<close> object, whatever fields stand before it.
\<close>

section \<open>State\<close>

datatype jstate = SEEKING_FIELD | IN_FIELD_NAME | EXPECT_COLON | IN_VALUE

record json_parser =
  jp_state :: jstate
  brace_depth :: int
  jp_output :: string
  in_string :: bool
  escape_next :: bool
  capturing :: bool
  capture_depth :: int
  found_node :: bool
  field_name_buf :: string

definition jp_reset :: json_parser where
  "jp_reset = \<lparr>jp_state = SEEKING_FIELD, brace_depth = 0, jp_output = [], in_string = False,
     escape_next = False, capturing = False, capture_depth = -1, found_node = False,
     field_name_buf = []\<rparr>"

definition has_node :: "json_parser \<Rightarrow> bool" where
  "has_node p = found_node p"

definition output_size :: "json_parser \<Rightarrow> nat" where
  "output_size p = length (jp_output p)"

section \<open>One character\<close>

text \<open>\<^verbatim>\<open>output_capacity - 1\<close> on the 32-bit \<^verbatim>\<open>size_t\<close> of the target.\<close>

definition last_index :: "nat \<Rightarrow> nat" where
  "last_index cap = (if cap = 0 then 2 ^ 32 - 1 else cap - 1)"

text \<open>\<^verbatim>\<open>if (output_pos_ < output_capacity - 1) output[output_pos_++] = c;\<close>\<close>

definition put_out :: "nat \<Rightarrow> char \<Rightarrow> json_parser \<Rightarrow> json_parser" where
  "put_out cap c p =
     (if length (jp_output p) < last_index cap then p\<lparr>jp_output := jp_output p @ [c]\<rparr> else p)"

definition capture :: "nat \<Rightarrow> char \<Rightarrow> json_parser \<Rightarrow> json_parser" where
  "capture cap c p = (if capturing p then put_out cap c p else p)"

text \<open>The \<^verbatim>\<open>strcmp\<close> of the name buffer sees it up to the first NUL.\<close>

definition c_str :: "string \<Rightarrow> string" where
  "c_str s = takeWhile (\<lambda>c. c \<noteq> CHR 0x00) s"

definition string_char :: "nat \<Rightarrow> char \<Rightarrow> json_parser \<Rightarrow> json_parser" where
  "string_char cap c p =
     (if escape_next p then capture cap c (p\<lparr>escape_next := False\<rparr>)
      else if c = CHR 0x5C then capture cap c (p\<lparr>escape_next := True\<rparr>)
      else if c = CHR 0x22 then
        capture cap c
          (let p = p\<lparr>in_string := False\<rparr>
           in if jp_state p = IN_FIELD_NAME \<and> brace_depth p = 1 then p\<lparr>jp_state := EXPECT_COLON\<rparr> else p)
      else
        capture cap c
          (if jp_state p = IN_FIELD_NAME \<and> length (field_name_buf p) < 31
           then p\<lparr>field_name_buf := field_name_buf p @ [c]\<rparr> else p))"

definition node_field :: string where
  "node_field = [CHR 0x22] @ ''Node'' @ [CHR 0x22] @ '':''"

definition open_quote :: "nat \<Rightarrow> char \<Rightarrow> json_parser \<Rightarrow> json_parser" where
  "open_quote cap c p =
     capture cap c
       (let p = p\<lparr>in_string := True\<rparr>
        in if jp_state p = SEEKING_FIELD \<and> brace_depth p = 1
           then p\<lparr>jp_state := IN_FIELD_NAME, field_name_buf := []\<rparr> else p)"

definition colon :: "nat \<Rightarrow> char \<Rightarrow> json_parser \<Rightarrow> json_parser" where
  "colon cap c p =
     (if jp_state p = EXPECT_COLON then
        if c_str (field_name_buf p) = ''Node'' then
          let p = p\<lparr>capturing := True, capture_depth := brace_depth p + 1, found_node := True\<rparr>;
              p = (if jp_output p = [] then put_out cap (CHR ''{'') p else p);
              p = fold (put_out cap) node_field p
          in p\<lparr>jp_state := IN_VALUE\<rparr>
        else
          capture cap c
            (let p = (if c_str (field_name_buf p) = ''DERPMap''
                      then p\<lparr>capturing := False, capture_depth := brace_depth p + 1\<rparr> else p)
             in p\<lparr>jp_state := IN_VALUE\<rparr>)
      else capture cap c p)"

text \<open>A closing brace may complete the captured field: the only place the parser finishes.\<close>

definition close_brace :: "nat \<Rightarrow> char \<Rightarrow> json_parser \<Rightarrow> bool \<times> json_parser" where
  "close_brace cap c p =
     (let p = capture cap c p;
          p = p\<lparr>brace_depth := brace_depth p - 1\<rparr>
      in if jp_state p = IN_VALUE \<and> brace_depth p < capture_depth p then
           if capturing p then (True, put_out cap (CHR ''}'') p)
           else (False, p\<lparr>capturing := False, jp_state := SEEKING_FIELD, capture_depth := -1\<rparr>)
         else (False, p))"

definition comma :: "nat \<Rightarrow> char \<Rightarrow> json_parser \<Rightarrow> json_parser" where
  "comma cap c p =
     (let p = capture cap c p
      in if brace_depth p = 1 then p\<lparr>jp_state := SEEKING_FIELD, field_name_buf := []\<rparr> else p)"

definition jp_step :: "nat \<Rightarrow> char \<Rightarrow> json_parser \<Rightarrow> bool \<times> json_parser" where
  "jp_step cap c p =
     (if in_string p then (False, string_char cap c p)
      else if c \<in> {CHR '' '', CHR 0x09, CHR 0x0A, CHR 0x0D} then (False, capture cap c p)
      else if c = CHR 0x22 then (False, open_quote cap c p)
      else if c = CHR '':'' then (False, colon cap c p)
      else if c = CHR ''{'' then (False, capture cap c (p\<lparr>brace_depth := brace_depth p + 1\<rparr>))
      else if c = CHR ''}'' then close_brace cap c p
      else if c = CHR '','' then (False, comma cap c p)
      else (False, capture cap c p))"

text \<open>\<^verbatim>\<open>feed\<close>: the loop over the data, which returns at the character that completes the field.\<close>

fun feed :: "nat \<Rightarrow> string \<Rightarrow> json_parser \<Rightarrow> bool \<times> json_parser" where
  "feed cap [] p = (False, p)"
| "feed cap (c # cs) p =
     (case jp_step cap c p of (True, p') \<Rightarrow> (True, p') | (False, p') \<Rightarrow> feed cap cs p')"

section \<open>Feeding in pieces\<close>

lemma feed_append:
  "feed cap (a @ b) p = (case feed cap a p of (True, p') \<Rightarrow> (True, p') | (False, p') \<Rightarrow> feed cap b p')"
  by (induction a arbitrary: p) (auto split: prod.splits bool.splits)

section \<open>Buffer bounds\<close>

definition jp_bounded :: "nat \<Rightarrow> json_parser \<Rightarrow> bool" where
  "jp_bounded cap p \<longleftrightarrow> length (jp_output p) \<le> last_index cap \<and> length (field_name_buf p) \<le> 31"

lemma jp_bounded_reset [inv_intros]: "jp_bounded cap jp_reset"
  by (simp add: jp_bounded_def jp_reset_def)

lemma jp_bounded_put_out [inv_intros]: "jp_bounded cap p \<Longrightarrow> jp_bounded cap (put_out cap c p)"
  by (auto simp: jp_bounded_def put_out_def)

lemma jp_bounded_capture [inv_intros]: "jp_bounded cap p \<Longrightarrow> jp_bounded cap (capture cap c p)"
  by (simp add: capture_def inv_intros)

lemma jp_bounded_fold [inv_intros]: "jp_bounded cap p \<Longrightarrow> jp_bounded cap (fold (put_out cap) s p)"
  by (induction s arbitrary: p) (auto intro: inv_intros)

lemma jp_bounded_update [simp]:
  "jp_bounded cap (p\<lparr>jp_state := a\<rparr>) = jp_bounded cap p"
  "jp_bounded cap (p\<lparr>brace_depth := b\<rparr>) = jp_bounded cap p"
  "jp_bounded cap (p\<lparr>in_string := c\<rparr>) = jp_bounded cap p"
  "jp_bounded cap (p\<lparr>escape_next := c\<rparr>) = jp_bounded cap p"
  "jp_bounded cap (p\<lparr>capturing := c\<rparr>) = jp_bounded cap p"
  "jp_bounded cap (p\<lparr>capture_depth := b\<rparr>) = jp_bounded cap p"
  "jp_bounded cap (p\<lparr>found_node := c\<rparr>) = jp_bounded cap p"
  by (simp_all add: jp_bounded_def)

lemma jp_bounded_name:
  "jp_bounded cap p \<Longrightarrow> length n \<le> 31 \<Longrightarrow> jp_bounded cap (p\<lparr>field_name_buf := n\<rparr>)"
  by (simp add: jp_bounded_def)

lemma jp_bounded_string_char [inv_intros]:
  "jp_bounded cap p \<Longrightarrow> jp_bounded cap (string_char cap c p)"
  by (auto simp: string_char_def Let_def intro!: inv_intros jp_bounded_name)

lemma jp_bounded_open_quote [inv_intros]:
  "jp_bounded cap p \<Longrightarrow> jp_bounded cap (open_quote cap c p)"
  by (auto simp: open_quote_def Let_def intro!: inv_intros jp_bounded_name)

lemma jp_bounded_colon [inv_intros]: "jp_bounded cap p \<Longrightarrow> jp_bounded cap (colon cap c p)"
  by (auto simp: colon_def Let_def intro!: inv_intros)

lemma jp_bounded_comma [inv_intros]: "jp_bounded cap p \<Longrightarrow> jp_bounded cap (comma cap c p)"
  by (auto simp: comma_def Let_def intro!: inv_intros jp_bounded_name)

lemma jp_bounded_close_brace [inv_intros]:
  "jp_bounded cap p \<Longrightarrow> jp_bounded cap (snd (close_brace cap c p))"
  by (auto simp: close_brace_def Let_def intro!: inv_intros)

lemma jp_bounded_step: "jp_bounded cap p \<Longrightarrow> jp_bounded cap (snd (jp_step cap c p))"
  by (auto simp: jp_step_def intro!: inv_intros)

lemma jp_bounded_feed [inv_intros]: "jp_bounded cap p \<Longrightarrow> jp_bounded cap (snd (feed cap s p))"
proof (induction s arbitrary: p)
  case (Cons c s)
  from jp_bounded_step [OF Cons.prems, of c] Cons.IH show ?case
    by (cases "jp_step cap c p") (auto split: bool.splits)
qed simp

section \<open>Well-formed messages\<close>

text \<open>What the parser has done to its output after passing over \<open>s\<close> in one of its two modes.\<close>

definition emit :: "string \<Rightarrow> json_parser \<Rightarrow> json_parser" where
  "emit s p = (if capturing p then p\<lparr>jp_output := jp_output p @ s\<rparr> else p)"

definition room :: "nat \<Rightarrow> nat \<Rightarrow> json_parser \<Rightarrow> bool" where
  "room cap n p \<longleftrightarrow> (capturing p \<longrightarrow> length (jp_output p) + n \<le> last_index cap)"

lemma upd_same [simp]:
  "escape_next p = b \<Longrightarrow> p\<lparr>escape_next := b\<rparr> = p"
  "in_string p = b \<Longrightarrow> p\<lparr>in_string := b\<rparr> = p"
  "brace_depth p = d \<Longrightarrow> p\<lparr>brace_depth := d\<rparr> = p"
  by auto

lemma emit_emit [simp]: "emit b (emit a p) = emit (a @ b) p"
  by (simp add: emit_def)

lemma emit_Nil [simp]: "emit [] p = p"
  by (simp add: emit_def)

lemma emit_sel [simp]:
  "jp_state (emit s p) = jp_state p" "brace_depth (emit s p) = brace_depth p"
  "in_string (emit s p) = in_string p" "escape_next (emit s p) = escape_next p"
  "capturing (emit s p) = capturing p" "capture_depth (emit s p) = capture_depth p"
  "field_name_buf (emit s p) = field_name_buf p" "found_node (emit s p) = found_node p"
  by (simp_all add: emit_def)

lemma emit_upd [simp]:
  "(emit s p)\<lparr>in_string := b\<rparr> = emit s (p\<lparr>in_string := b\<rparr>)"
  "(emit s p)\<lparr>escape_next := b\<rparr> = emit s (p\<lparr>escape_next := b\<rparr>)"
  "(emit s p)\<lparr>brace_depth := d\<rparr> = emit s (p\<lparr>brace_depth := d\<rparr>)"
  by (simp_all add: emit_def)

lemma room_emit [simp]: "room cap n (emit s p) = room cap (length s + n) p"
  by (auto simp: room_def emit_def)

lemma room_upd [simp]:
  "room cap n (p\<lparr>in_string := b\<rparr>) = room cap n p"
  "room cap n (p\<lparr>escape_next := b\<rparr>) = room cap n p"
  "room cap n (p\<lparr>brace_depth := d\<rparr>) = room cap n p"
  by (simp_all add: room_def)

lemma room_mono: "room cap n p \<Longrightarrow> m \<le> n \<Longrightarrow> room cap m p"
  by (auto simp: room_def)

lemma capture_emit: "room cap (Suc n) p \<Longrightarrow> capture cap c p = emit [c] p"
  by (auto simp: capture_def put_out_def room_def emit_def)

text \<open>The text of a string literal that is not a top-level field name.\<close>

lemma feed_raw:
  assumes "raw_scan (escape_next p) s" and "in_string p" and "jp_state p \<noteq> IN_FIELD_NAME"
    and "room cap (length s) p"
  shows "feed cap (s @ rest) p = feed cap rest ((emit s p)\<lparr>escape_next := False\<rparr>)"
  using assms
proof (induction s arbitrary: p)
  case (Cons c s)
  then show ?case
    by (auto simp: jp_step_def string_char_def capture_emit split: if_splits)
qed simp

text \<open>
  Between tokens below the top level (\<open>deep\<close>) no character but a brace changes the mode:
  a value is passed over, copied to the output when capturing and dropped when not.
\<close>

definition deep :: "json_parser \<Rightarrow> bool" where
  "deep p \<longleftrightarrow> \<not> in_string p \<and> \<not> escape_next p \<and> 2 \<le> brace_depth p \<and> capture_depth p \<le> 2 \<and>
     jp_state p \<notin> {IN_FIELD_NAME, EXPECT_COLON}"

lemma deep_emit [simp]: "deep (emit s p) = deep p"
  by (simp add: deep_def)

lemma deep_inc: "deep p \<Longrightarrow> deep (p\<lparr>brace_depth := brace_depth p + 1\<rparr>)"
  by (simp add: deep_def)

lemma feed_quoted:
  assumes "raw_ok s" "\<not> in_string p" "\<not> escape_next p" "jp_state p \<noteq> IN_FIELD_NAME"
    and "jp_state p \<noteq> SEEKING_FIELD \<or> brace_depth p \<noteq> 1" and "room cap (length s + 2) p"
  shows "feed cap (quoted s @ rest) p = feed cap rest (emit (quoted s) p)"
proof -
  let ?p = "p\<lparr>in_string := True\<rparr>"
  have "feed cap (quoted s @ rest) p = feed cap (s @ dquote # rest) (emit [dquote] ?p)"
    using assms room_mono [OF assms(6), of 1]
    by (auto simp: quoted_def jp_step_def open_quote_def capture_emit Let_def)
  also have "\<dots> = feed cap (dquote # rest) (emit (dquote # s) ?p)"
    using assms room_mono [OF assms(6), of "length s + 1"]
    by (subst feed_raw) (auto simp: raw_ok_def)
  also have "\<dots> = feed cap rest (capture cap dquote (emit (dquote # s) p))"
    using assms by (auto simp: jp_step_def string_char_def Let_def)
  also have "capture cap dquote (emit (dquote # s) p) = emit (quoted s) p"
    using assms(6) by (subst capture_emit [where n = 0]) (simp_all add: quoted_def)
  finally show ?thesis .
qed

lemma feed_lit:
  assumes "list_all lit_char s" "\<not> in_string p" "room cap (length s) p"
  shows "feed cap (s @ rest) p = feed cap rest (emit s p)"
  using assms
proof (induction s arbitrary: p)
  case (Cons c s)
  then show ?case
    by (auto simp: jp_step_def capture_emit lit_char_def)
qed simp

text \<open>One character outside strings and below the top level.\<close>

lemma feed_deep_char:
  assumes "deep p" "room cap 1 p" "c \<in> {CHR '':'', CHR '','', CHR ''['', CHR '']''}"
  shows "feed cap (c # rest) p = feed cap rest (emit [c] p)"
  using assms by (auto simp: jp_step_def deep_def capture_emit colon_def comma_def Let_def)

lemma feed_deep_open:
  assumes "\<not> in_string p" "room cap 1 p"
  shows "feed cap (CHR ''{'' # rest) p = feed cap rest (emit ''{'' (p\<lparr>brace_depth := brace_depth p + 1\<rparr>))"
  using assms by (auto simp: jp_step_def capture_emit)

lemma feed_deep_close:
  assumes "deep p" "room cap 1 p"
  shows "feed cap (CHR ''}'' # rest) (p\<lparr>brace_depth := brace_depth p + 1\<rparr>) = feed cap rest (emit ''}'' p)"
  using assms by (auto simp: jp_step_def close_brace_def capture_emit deep_def Let_def)

text \<open>
  A comma-separated list of items, each passed over by the parser, is passed over: arrays and
  the fields of objects are both instances.
\<close>

lemma feed_commas:
  assumes "\<And>s p rest. s \<in> set ss \<Longrightarrow> deep p \<Longrightarrow> room cap (length s) p \<Longrightarrow>
      feed cap (s @ rest) p = feed cap rest (emit s p)"
    and "deep p" and "room cap (length (commas ss)) p"
  shows "feed cap (commas ss @ rest) p = feed cap rest (emit (commas ss) p)"
  using assms
proof (induction ss arbitrary: p)
  case (Cons s ss)
  have r: "room cap (length s) p"
    using Cons.prems(3) by (rule room_mono) (simp add: commas_Cons)
  show ?case
  proof (cases "ss = []")
    case True
    with Cons.prems(1) [of s p rest] Cons.prems(2) r show ?thesis by simp
  next
    case False
    let ?q = "emit (s @ '','') p"
    have q: "deep ?q" "room cap (length (commas ss)) ?q" "room cap 1 (emit s p)"
      using Cons.prems(2) room_mono [OF Cons.prems(3)] False
      by (auto simp: commas_Cons intro: room_mono [OF Cons.prems(3)])
    have "feed cap (commas (s # ss) @ rest) p = feed cap ('','' @ commas ss @ rest) (emit s p)"
      using False Cons.prems(1) [of s p] Cons.prems(2) r by (simp add: commas_Cons)
    also have "\<dots> = feed cap (commas ss @ rest) ?q"
      using Cons.prems(2) q(3) feed_deep_char [of "emit s p" cap "CHR '',''"] by simp
    also have "\<dots> = feed cap rest (emit (commas ss) ?q)"
      using Cons.prems(1) q(1,2) by (intro Cons.IH) auto
    finally show ?thesis using False by (simp add: commas_Cons)
  qed
qed simp

abbreviation field_text :: "string \<times> json \<Rightarrow> string" where
  "field_text f \<equiv> quoted (fst f) @ '':'' @ render (snd f)"

lemma feed_deep_field:
  assumes val: "\<And>q rest. deep q \<Longrightarrow> room cap (length (render (snd f))) q \<Longrightarrow>
      feed cap (render (snd f) @ rest) q = feed cap rest (emit (render (snd f)) q)"
    and wf: "raw_ok (fst f)" and q: "deep q" "room cap (length (field_text f)) q"
  shows "feed cap (field_text f @ rest) q = feed cap rest (emit (field_text f) q)"
proof -
  have rq: "room cap (length (fst f) + 2) q" "room cap 1 (emit (quoted (fst f)) q)"
    "room cap (length (render (snd f))) (emit (quoted (fst f) @ '':'') q)"
    using q(2) by (auto elim: room_mono)
  have "feed cap (field_text f @ rest) q = feed cap ('':'' @ render (snd f) @ rest) (emit (quoted (fst f)) q)"
    using wf q(1) rq(1) by (simp add: feed_quoted deep_def)
  also have "\<dots> = feed cap (render (snd f) @ rest) (emit (quoted (fst f) @ '':'') q)"
    using q(1) rq(2) feed_deep_char [of "emit (quoted (fst f)) q" cap "CHR '':''"] by simp
  also have "\<dots> = feed cap rest (emit (field_text f) q)"
    using val q(1) rq(3) by simp
  finally show ?thesis .
qed

lemma feed_deep_value:
  assumes "wf_json v" "deep p" "room cap (length (render v)) p"
  shows "feed cap (render v @ rest) p = feed cap rest (emit (render v) p)"
  using assms
proof (induction v arbitrary: p rest)
  case (JLit s)
  then show ?case by (simp add: feed_lit deep_def)
next
  case (JStr s)
  then show ?case using feed_quoted [of s p cap rest] by (auto simp: deep_def)
next
  case (JArr xs)
  have r: "room cap 1 p" "room cap (length (commas (map render xs))) (emit ''['' p)"
    "room cap 1 (emit (''['' @ commas (map render xs)) p)"
    using JArr.prems(3) by (auto elim: room_mono)
  have "feed cap (commas (map render xs) @ '']'' @ rest) (emit ''['' p)
      = feed cap ('']'' @ rest) (emit (commas (map render xs)) (emit ''['' p))"
    using JArr r by (intro feed_commas) auto
  then show ?case
    using JArr.prems r feed_deep_char [of p cap "CHR ''[''"]
      feed_deep_char [of "emit (''['' @ commas (map render xs)) p" cap "CHR '']''" rest] by simp
next
  case (JObj fs)
  let ?in = "commas (map field_text fs)"
  let ?p = "p\<lparr>brace_depth := brace_depth p + 1\<rparr>"
  have r: "room cap 1 p" "room cap (length ?in) (emit ''{'' ?p)" "room cap 1 (emit (''{'' @ ?in) p)"
    using JObj.prems(3) by (auto elim: room_mono)
  have field: "feed cap (field_text f @ rest') q = feed cap rest' (emit (field_text f) q)"
    if f: "f \<in> set fs" and q: "deep q" "room cap (length (field_text f)) q" for f q rest'
    using JObj.IH [of f "snd f"] JObj.prems(1) f q
    by (intro feed_deep_field) (cases f; auto simp: Basic_BNFs.snds.intros)+
  have "feed cap (render (JObj fs) @ rest) p = feed cap (?in @ ''}'' @ rest) (emit ''{'' ?p)"
    using r(1) JObj.prems(2) feed_deep_open [of p cap] by (simp add: deep_def)
  also have "\<dots> = feed cap (''}'' @ rest) (emit ?in (emit ''{'' ?p))"
    using r(2) JObj.prems(2) field by (intro feed_commas) (auto simp: deep_inc)
  also have "\<dots> = feed cap rest (emit (render (JObj fs)) p)"
    using r(3) JObj.prems(2) feed_deep_close [of "emit (''{'' @ ?in) p" cap rest] by simp
  finally show ?case .
qed

lemma feed_deep_fields:
  assumes "\<forall>f \<in> set fs. raw_ok (fst f) \<and> wf_json (snd f)" "deep p"
    "room cap (length (commas (map field_text fs))) p"
  shows "feed cap (commas (map field_text fs) @ rest) p = feed cap rest (emit (commas (map field_text fs)) p)"
proof (intro feed_commas)
  fix s q rest
  assume "s \<in> set (map field_text fs)" and q: "deep q" "room cap (length s) q"
  then obtain f where f: "f \<in> set fs" "s = field_text f" by auto
  with assms(1) q show "feed cap (s @ rest) q = feed cap rest (emit s q)"
    unfolding f(2) by (intro feed_deep_field feed_deep_value) auto
qed (use assms in auto)

section \<open>Fields before the wanted one\<close>

text \<open>Between two top-level fields, dropping: the mode in which the parser looks for a name.\<close>

definition top :: "json_parser \<Rightarrow> bool" where
  "top p \<longleftrightarrow> \<not> in_string p \<and> \<not> escape_next p \<and> brace_depth p = 1 \<and> \<not> capturing p \<and> capture_depth p \<le> 2"

lemma emit_idle [simp]: "\<not> capturing p \<Longrightarrow> emit s p = p"
  by (simp add: emit_def)

lemma room_idle [simp]: "\<not> capturing p \<Longrightarrow> room cap n p"
  by (simp add: room_def)

lemma capture_idle [simp]: "\<not> capturing p \<Longrightarrow> capture cap c p = p"
  by (simp add: capture_def)

lemma feed_raw_idle:
  assumes "raw_scan (escape_next p) s" "in_string p" "\<not> capturing p"
  shows "\<exists>n. feed cap (s @ rest) p = feed cap rest (p\<lparr>escape_next := False, field_name_buf := n\<rparr>)"
  using assms
proof (induction s arbitrary: p)
  case Nil
  have "p = p\<lparr>escape_next := False, field_name_buf := field_name_buf p\<rparr>" using Nil by simp
  then show ?case by (metis append_Nil)
next
  case (Cons c s)
  let ?q = "string_char cap c p"
  have "raw_scan (escape_next ?q) s" "in_string ?q" "\<not> capturing ?q"
    using Cons.prems by (auto simp: string_char_def split: if_splits)
  from Cons.IH [OF this] obtain n
    where "feed cap (s @ rest) ?q = feed cap rest (?q\<lparr>escape_next := False, field_name_buf := n\<rparr>)" ..
  moreover have "?q\<lparr>escape_next := False, field_name_buf := n\<rparr> = p\<lparr>escape_next := False, field_name_buf := n\<rparr>"
    using Cons.prems by (auto simp: string_char_def split: if_splits)
  ultimately show ?case using Cons.prems by (auto simp: jp_step_def)
qed

lemma feed_quoted_top:
  assumes "raw_ok s" "top p"
  shows "\<exists>p'. feed cap (quoted s @ rest) p = feed cap rest p' \<and> top p' \<and> jp_output p' = jp_output p"
proof -
  let ?q = "open_quote cap dquote p"
  have q: "raw_scan (escape_next ?q) s" "in_string ?q" "\<not> capturing ?q"
    using assms by (auto simp: open_quote_def top_def raw_ok_def Let_def)
  from feed_raw_idle [OF q] obtain n where
    "feed cap (s @ dquote # rest) ?q = feed cap (dquote # rest) (?q\<lparr>escape_next := False, field_name_buf := n\<rparr>)"
    by blast
  moreover have "jp_step cap dquote p = (False, ?q)"
    using assms(2) by (simp add: jp_step_def top_def)
  moreover have "jp_step cap dquote (?q\<lparr>escape_next := False, field_name_buf := n\<rparr>)
      = (False, string_char cap dquote (?q\<lparr>escape_next := False, field_name_buf := n\<rparr>))"
    using q(2) by (simp add: jp_step_def)
  ultimately have "feed cap (quoted s @ rest) p
      = feed cap rest (string_char cap dquote (?q\<lparr>escape_next := False, field_name_buf := n\<rparr>))"
    by (simp add: quoted_def)
  moreover have "top (string_char cap dquote (?q\<lparr>escape_next := False, field_name_buf := n\<rparr>))"
    using assms(2) by (auto simp: string_char_def open_quote_def top_def Let_def)
  moreover have "jp_output (string_char cap dquote (?q\<lparr>escape_next := False, field_name_buf := n\<rparr>)) = jp_output p"
    using assms(2) by (auto simp: string_char_def open_quote_def top_def Let_def)
  ultimately show ?thesis by blast
qed

definition at_value :: "json_parser \<Rightarrow> bool" where
  "at_value p \<longleftrightarrow> top p \<and> jp_state p \<in> {IN_VALUE, SEEKING_FIELD}"

lemma feed_top_object:
  assumes "\<forall>f \<in> set fs. raw_ok (fst f) \<and> wf_json (snd f)" "at_value p"
  shows "\<exists>p'. feed cap (render (JObj fs) @ rest) p = feed cap rest p' \<and> top p' \<and> jp_output p' = jp_output p"
proof -
  let ?p = "p\<lparr>brace_depth := 2\<rparr>" and ?in = "commas (map field_text fs)"
  have d: "deep ?p" "\<not> capturing ?p" using assms(2) by (auto simp: at_value_def top_def deep_def)
  have "feed cap (render (JObj fs) @ rest) p = feed cap (?in @ ''}'' @ rest) ?p"
    using assms(2) feed_deep_open [of p cap] by (simp add: at_value_def top_def)
  also have "\<dots> = feed cap (''}'' @ rest) ?p"
    using feed_deep_fields [OF assms(1) d(1)] d(2) by simp
  also have "\<dots> = feed cap rest (snd (close_brace cap CHR ''}'' ?p))"
    using assms(2) by (auto simp: jp_step_def close_brace_def at_value_def top_def)
  finally show ?thesis
    using assms(2) by (intro exI [of _ "snd (close_brace cap CHR ''}'' ?p)"])
      (auto simp: close_brace_def at_value_def top_def)
qed

definition seeking :: "json_parser \<Rightarrow> bool" where
  "seeking p \<longleftrightarrow> top p \<and> jp_state p = SEEKING_FIELD"

lemma feed_top_comma:
  assumes "top p"
  shows "\<exists>p'. feed cap (CHR '','' # rest) p = feed cap rest p' \<and> seeking p' \<and> jp_output p' = jp_output p"
  using assms by (intro exI [of _ "comma cap CHR '','' p"])
    (auto simp: jp_step_def comma_def top_def seeking_def Let_def)

text \<open>
  A comma-separated list at the top level, for items that may start in the states \<open>S\<close>: the
  elements of an array value and the fields of the message itself.
\<close>

lemma feed_top_commas:
  assumes S: "\<And>q. S q \<Longrightarrow> top q" "\<And>q. seeking q \<Longrightarrow> S q"
    and item: "\<And>s q rest. s \<in> set ss \<Longrightarrow> S q \<Longrightarrow>
      \<exists>q'. feed cap (s @ rest) q = feed cap rest q' \<and> top q' \<and> jp_output q' = jp_output q"
    and p: "S p"
  shows "\<exists>p'. feed cap (commas ss @ rest) p = feed cap rest p' \<and> top p' \<and> jp_output p' = jp_output p"
  using item p
proof (induction ss arbitrary: p)
  case Nil
  then show ?case using S(1) by auto
next
  case (Cons s ss)
  show ?case
  proof (cases "ss = []")
    case True
    then show ?thesis using Cons.prems by auto
  next
    case False
    obtain q where q: "feed cap (commas (s # ss) @ rest) p = feed cap (CHR '','' # commas ss @ rest) q"
      "top q" "jp_output q = jp_output p"
      using Cons.prems(1) [of s p "'','' @ commas ss @ rest"] Cons.prems(2) False
      by (auto simp: commas_Cons)
    from feed_top_comma [OF q(2)] obtain r where r:
      "feed cap (CHR '','' # commas ss @ rest) q = feed cap (commas ss @ rest) r" "seeking r"
      "jp_output r = jp_output q" by blast
    obtain p' where "feed cap (commas ss @ rest) r = feed cap rest p'" "top p'" "jp_output p' = jp_output r"
      using Cons.IH [of r] Cons.prems(1) S(2) [OF r(2)] by auto
    with q r show ?thesis by auto
  qed
qed

lemma feed_top_value:
  assumes "wf_json v" "at_value p"
  shows "\<exists>p'. feed cap (render v @ rest) p = feed cap rest p' \<and> top p' \<and> jp_output p' = jp_output p"
  using assms
proof (induction v arbitrary: p rest)
  case (JLit s)
  then show ?case by (intro exI [of _ p]) (auto simp: feed_lit at_value_def top_def)
next
  case (JStr s)
  then show ?case using feed_quoted_top by (auto simp: at_value_def)
next
  case (JArr xs)
  have top: "top p" using JArr.prems(2) by (simp add: at_value_def)
  have step: "feed cap (c # r) q = feed cap r q" if "top q" "c = CHR ''['' \<or> c = CHR '']''" for c r q
    using that by (auto simp: jp_step_def top_def)
  have item: "\<exists>q'. feed cap (s @ r) q = feed cap r q' \<and> top q' \<and> jp_output q' = jp_output q"
    if "s \<in> set (map render xs)" "at_value q" for s q r
    using that JArr.IH JArr.prems(1) by auto
  have "\<exists>p'. feed cap (commas (map render xs) @ '']'' @ rest) p = feed cap ('']'' @ rest) p' \<and>
      top p' \<and> jp_output p' = jp_output p"
    using item JArr.prems(2) by (intro feed_top_commas [where S = at_value])
      (auto simp: at_value_def seeking_def)
  then show ?case using top step by fastforce
next
  case (JObj fs)
  then show ?case by (intro feed_top_object) auto
qed

lemma plain_no_nul: "plain s \<Longrightarrow> c_str (take n s) = take n s"
  by (auto simp: c_str_def takeWhile_eq_all_conv plain_def list_all_iff plain_char_def dest!: in_set_takeD)

lemma feed_name:
  assumes "plain s" "in_string p" "\<not> escape_next p" "\<not> capturing p" "jp_state p = IN_FIELD_NAME"
    "length (field_name_buf p) \<le> 31"
  shows "feed cap (s @ rest) p = feed cap rest (p\<lparr>field_name_buf := take 31 (field_name_buf p @ s)\<rparr>)"
  using assms
proof (induction s arbitrary: p)
  case (Cons c s)
  let ?q = "string_char cap c p"
  have q: "?q = p\<lparr>field_name_buf := take 31 (field_name_buf p @ [c])\<rparr>"
    using Cons.prems by (auto simp: string_char_def plain_char_def)
  have "feed cap ((c # s) @ rest) p = feed cap (s @ rest) ?q"
    using Cons.prems by (simp add: jp_step_def)
  also have "\<dots> = feed cap rest (?q\<lparr>field_name_buf := take 31 (field_name_buf ?q @ s)\<rparr>)"
    using Cons.prems unfolding q by (intro Cons.IH) auto
  also have "?q\<lparr>field_name_buf := take 31 (field_name_buf ?q @ s)\<rparr> = p\<lparr>field_name_buf := take 31 (field_name_buf p @ c # s)\<rparr>"
    unfolding q by (cases "length (field_name_buf p) < 31") (auto simp: min_def)
  finally show ?case .
qed simp

text \<open>A top-level field name up to its colon: from \<open>SEEKING_FIELD\<close> to \<open>EXPECT_COLON\<close>.\<close>

lemma feed_field_name:
  assumes "plain n" "seeking p"
  shows "feed cap (quoted n @ rest) p
    = feed cap rest (p\<lparr>field_name_buf := take 31 n, jp_state := EXPECT_COLON\<rparr>)"
proof -
  let ?q = "p\<lparr>in_string := True, jp_state := IN_FIELD_NAME, field_name_buf := []\<rparr>"
  have "feed cap (quoted n @ rest) p = feed cap (n @ dquote # rest) ?q"
    using assms(2) by (auto simp: quoted_def jp_step_def seeking_def top_def open_quote_def Let_def)
  also have "\<dots> = feed cap (dquote # rest) (?q\<lparr>field_name_buf := take 31 n\<rparr>)"
    using assms by (subst feed_name) (auto simp: seeking_def top_def)
  also have "\<dots> = feed cap rest (p\<lparr>field_name_buf := take 31 n, jp_state := EXPECT_COLON\<rparr>)"
    using assms(2) by (auto simp: jp_step_def seeking_def top_def string_char_def Let_def)
  finally show ?thesis .
qed

lemma feed_other_field:
  assumes "plain (fst f)" "fst f \<noteq> ''Node''" "wf_json (snd f)" "seeking p"
  shows "\<exists>p'. feed cap (field_text f @ rest) p = feed cap rest p' \<and> top p' \<and> jp_output p' = jp_output p"
proof -
  let ?q = "p\<lparr>field_name_buf := take 31 (fst f), jp_state := EXPECT_COLON\<rparr>"
  have "take 31 (fst f) \<noteq> ''Node''"
  proof (cases "length (fst f) \<le> 31")
    case False
    then have "length (take 31 (fst f)) \<noteq> length ''Node''" by simp
    then show ?thesis by metis
  qed (use assms(2) in simp)
  then have "c_str (field_name_buf ?q) \<noteq> ''Node''"
    using assms(1) by (simp add: plain_no_nul)
  then have colon: "at_value (colon cap CHR '':'' ?q)" "jp_output (colon cap CHR '':'' ?q) = jp_output p"
    using assms(4) by (auto simp: colon_def at_value_def seeking_def top_def Let_def)
  have "feed cap (field_text f @ rest) p = feed cap (render (snd f) @ rest) (colon cap CHR '':'' ?q)"
    using assms feed_field_name [of "fst f" p cap "'':'' @ render (snd f) @ rest"]
    by (auto simp: jp_step_def seeking_def top_def)
  with feed_top_value [OF assms(3) colon(1)] colon(2) show ?thesis by metis
qed

lemma fold_put_out:
  "length (jp_output p) + length s \<le> last_index cap \<Longrightarrow>
    fold (put_out cap) s p = p\<lparr>jp_output := jp_output p @ s\<rparr>"
  by (induction s arbitrary: p) (auto simp: put_out_def)

lemma colon_node:
  assumes "jp_state p = EXPECT_COLON" "field_name_buf p = ''Node''" "brace_depth p = 1" "jp_output p = []"
    "9 \<le> last_index cap"
  shows "colon cap CHR '':'' p = p\<lparr>capturing := True, capture_depth := 2, found_node := True,
    jp_output := ''{'' @ node_field, jp_state := IN_VALUE\<rparr>"
proof -
  have "length (node_field) = 7" by (simp add: node_field_def)
  then show ?thesis using assms
    by (simp add: colon_def c_str_def fold_put_out put_out_def [of cap "CHR ''{''"] del: fold_simps)
qed

lemma feed_capture_end:
  assumes "capturing p" "\<not> in_string p" "jp_state p = IN_VALUE" "brace_depth p = 2" "capture_depth p = 2"
    "room cap 2 p"
  shows "feed cap (CHR ''}'' # rest) p = (True, (emit ''}}'' p)\<lparr>brace_depth := 1\<rparr>)"
proof -
  have "capture cap CHR ''}'' p = emit ''}'' p"
    using room_mono [OF assms(6), of 1] by (subst capture_emit [where n = 0]) auto
  with assms show ?thesis
    by (auto simp: jp_step_def close_brace_def put_out_def room_def emit_def Let_def)
qed

text \<open>
  The \<^verbatim>\<open>Node\<close> field itself: its object is copied behind the opening the parser
  writes, closed, and the parser is done, whatever follows.
\<close>

lemma feed_node_field:
  assumes fs: "\<forall>f \<in> set fs. raw_ok (fst f) \<and> wf_json (snd f)" and p: "seeking p" "jp_output p = []"
    and room: "length (render (JObj fs)) + 9 \<le> last_index cap"
  shows "\<exists>p'. feed cap (quoted ''Node'' @ '':'' @ render (JObj fs) @ rest) p = (True, p') \<and>
    jp_output p' = ''{'' @ quoted ''Node'' @ '':'' @ render (JObj fs) @ ''}'' \<and> has_node p'"
proof -
  let ?q = "p\<lparr>field_name_buf := ''Node'', jp_state := EXPECT_COLON\<rparr>"
  let ?head = "''{'' @ node_field" and ?in = "commas (map field_text fs)"
  let ?r = "?q\<lparr>capturing := True, capture_depth := 2, found_node := True, jp_output := ?head,
    jp_state := IN_VALUE\<rparr>"
  let ?d = "emit ''{'' (?r\<lparr>brace_depth := 2\<rparr>)"
  have len: "length node_field = 7" by (simp add: node_field_def)
  have "feed cap (quoted ''Node'' @ '':'' @ render (JObj fs) @ rest) p
      = feed cap ('':'' @ render (JObj fs) @ rest) ?q"
    using feed_field_name [of "''Node''" p] p(1) by (simp add: plain_char_def)
  also have "\<dots> = feed cap (render (JObj fs) @ rest) (colon cap CHR '':'' ?q)"
    using p(1) by (simp add: jp_step_def seeking_def top_def)
  also have "colon cap CHR '':'' ?q = ?r"
    using p room by (intro colon_node) (auto simp: seeking_def top_def)
  also have "feed cap (render (JObj fs) @ rest) ?r = feed cap (?in @ ''}'' @ rest) ?d"
    using p(1) room len feed_deep_open [of ?r cap] by (simp add: room_def seeking_def top_def)
  also have "\<dots> = feed cap (''}'' @ rest) (emit ?in ?d)"
    using fs p(1) room len by (intro feed_deep_fields) (auto simp: deep_def room_def seeking_def top_def emit_def)
  also have "\<dots> = (True, (emit ''}}'' (emit ?in ?d))\<lparr>brace_depth := 1\<rparr>)"
    using p(1) room len feed_capture_end [of "emit ?in ?d" cap rest]
    by (simp add: seeking_def top_def room_def emit_def)
  finally show ?thesis
    by (simp add: emit_def has_node_def node_field_def quoted_def)
qed

section \<open>Properties\<close>

lemma seeking_start:
  "jp_step cap CHR ''{'' jp_reset = (False, jp_reset\<lparr>brace_depth := 1\<rparr>)"
  "seeking (jp_reset\<lparr>brace_depth := 1\<rparr>)" "jp_output (jp_reset\<lparr>brace_depth := 1\<rparr>) = []"
  by (simp_all add: jp_step_def jp_reset_def seeking_def top_def)

lemma feed_fields_to_node:
  assumes "\<forall>f \<in> set pre. plain (fst f) \<and> fst f \<noteq> ''Node'' \<and> wf_json (snd f)" "seeking p"
  shows "\<exists>p'. feed cap (commas (map field_text pre) @ (if pre = [] then [] else '','') @ rest) p = feed cap rest p' \<and>
    seeking p' \<and> jp_output p' = jp_output p"
proof (cases "pre = []")
  case False
  have "\<exists>p'. feed cap (commas (map field_text pre) @ CHR '','' # rest) p = feed cap (CHR '','' # rest) p' \<and>
      top p' \<and> jp_output p' = jp_output p"
    using assms feed_other_field
    by (intro feed_top_commas [where S = seeking]) (auto simp: seeking_def)
  then obtain q where "feed cap (commas (map field_text pre) @ CHR '','' # rest) p = feed cap (CHR '','' # rest) q"
    "top q" "jp_output q = jp_output p" by blast
  with feed_top_comma [of q cap rest] False show ?thesis by auto
qed (use assms in auto)

text \<open>
  For every well-formed message whose \<^verbatim>\<open>Node\<close> field is an object that fits the
  buffer, whatever fields precede it (a \<^verbatim>\<open>DERPMap\<close> of any size included) and
  whatever text follows, the parser finishes and its output is the object with that one field.
\<close>

lemma feed_extracts_node:
  assumes "\<forall>f \<in> set pre. plain (fst f) \<and> fst f \<noteq> ''Node'' \<and> wf_json (snd f)"
    and "\<forall>f \<in> set node. raw_ok (fst f) \<and> wf_json (snd f)"
    and "length (render (JObj node)) + 9 \<le> last_index cap"
  shows "\<exists>p. feed cap (render (JObj (pre @ (''Node'', JObj node) # post))) jp_reset = (True, p) \<and>
    jp_output p = render (JObj [(''Node'', JObj node)]) \<and> has_node p"
proof -
  let ?p0 = "jp_reset\<lparr>brace_depth := 1\<rparr>"
  let ?tail = "(if post = [] then [] else '','') @ commas (map field_text post) @ ''}''"
  let ?node = "quoted ''Node'' @ '':'' @ render (JObj node) @ ?tail"
  obtain p where p: "seeking p" "jp_output p = []"
    "feed cap (commas (map field_text pre) @ (if pre = [] then [] else '','') @ ?node) ?p0 = feed cap ?node p"
    using feed_fields_to_node [OF assms(1) seeking_start(2), of cap ?node] seeking_start(3) by auto
  have "feed cap (render (JObj (pre @ (''Node'', JObj node) # post))) jp_reset = feed cap ?node p"
    using p(3) by (simp only: render_obj_split) (simp add: seeking_start(1) del: render.simps)
  with feed_node_field [OF assms(2) p(1,2) assms(3), of ?tail] show ?thesis by simp
qed

lemma feed_extracts_node_witness:
  "\<exists>p. feed 64 (render (JObj ([(''DERPMap'', JObj [(''Node'', JLit ''1'')])] @
      (''Node'', JObj [(''ID'', JLit ''7'')]) # [(''Peers'', JArr [])]))) jp_reset = (True, p) \<and>
    jp_output p = render (JObj [(''Node'', JObj [(''ID'', JLit ''7'')])]) \<and> has_node p"
  by (rule feed_extracts_node)
    (simp_all add: plain_char_def lit_char_def raw_ok_def quoted_def last_index_def)

text \<open>Feeding chunk after chunk until one of them completes the field, as \<^verbatim>\<open>post_json\<close> does.\<close>

fun feed_chunks :: "nat \<Rightarrow> string list \<Rightarrow> json_parser \<Rightarrow> bool \<times> json_parser" where
  "feed_chunks cap [] p = (False, p)"
| "feed_chunks cap (s # ss) p =
     (case feed cap s p of (True, p') \<Rightarrow> (True, p') | (False, p') \<Rightarrow> feed_chunks cap ss p')"

text \<open>
  The result does not depend on how the transport cuts the message into frames.
\<close>

lemma feed_chunks_concat:
  "feed_chunks cap ss p = feed cap (concat ss) p"
  by (induction ss arbitrary: p) (auto simp: feed_append split: prod.splits bool.splits)

text \<open>
  Neither buffer is overrun: from the reset state, after any input and for any capacity of
  at least one byte, the terminating NUL of the output and that of the field name (array of 32)
  are written inside their arrays.
\<close>

lemma feed_in_bounds:
  assumes "0 < cap"
  shows "output_size (snd (feed cap s jp_reset)) < cap \<and>
    length (field_name_buf (snd (feed cap s jp_reset))) < 32"
  using jp_bounded_feed [OF jp_bounded_reset, of cap s] assms
  by (auto simp: jp_bounded_def output_size_def last_index_def)

lemma feed_in_bounds_witness:
  "output_size (snd (feed 4 ''{}'' jp_reset)) < 4 \<and> length (field_name_buf (snd (feed 4 ''{}'' jp_reset))) < 32"
  by (rule feed_in_bounds) simp

text \<open>
  A \<^verbatim>\<open>Node\<close> that is not an object is not recognised as finished: capturing runs
  on into the field behind it, and the text the parser hands out as the Node field holds that
  field's object.
\<close>

lemma feed_null_node_leaks:
  "map_prod id (\<lambda>p. (jp_output p, has_node p))
     (feed 64 (render (JObj [(''Node'', JLit ''null''), (''DNSConfig'', JObj [])])) jp_reset)
   = (True, (render (JObj [(''Node'', JLit ''null''), (''DNSConfig'', JObj [])]), True))"
  by code_simp

end
