(* ===== verification/Ts_Interfaces.thy ===== *)
theory Ts_Interfaces
  imports Ts_Prelude
begin

text \<open>
  The contracts the components share, as locales. \<open>framing\<close> is a self-delimiting wire
  format: the HTTP/2 frame, the DERP frame and the controlbase record are instances, and a
  stream of any number of them is decoded uniquely. \<open>machine\<close> is a component whose
  operations keep an invariant: it then holds after any sequence of operations. Every locale is
  interpreted on the model's own definitions, in the theory of the component that provides it.
\<close>

section \<open>Self-delimiting frames\<close>

locale framing =
  fixes enc :: "'a \<Rightarrow> bytes"
    and dec :: "bytes \<Rightarrow> ('a \<times> bytes) option"
    and valid :: "'a \<Rightarrow> bool"
  assumes dec_enc: "valid a \<Longrightarrow> dec (enc a @ r) = Some (a, r)"
begin

fun dec_many :: "nat \<Rightarrow> bytes \<Rightarrow> ('a list \<times> bytes) option" where
  "dec_many 0 bs = Some ([], bs)"
| "dec_many (Suc n) bs =
     (case dec bs of None \<Rightarrow> None
      | Some (a, r) \<Rightarrow> map_option (\<lambda>(as, s). (a # as, s)) (dec_many n r))"

lemma dec_many_enc:
  "list_all valid as \<Longrightarrow> dec_many (length as) (concat (map enc as) @ r) = Some (as, r)"
  by (induction as) (auto simp: dec_enc)

lemma enc_inject:
  assumes "valid a" "valid b" "enc a @ r = enc b @ s"
  shows "a = b \<and> r = s"
proof -
  from assms(3) have "dec (enc a @ r) = dec (enc b @ s)" by (rule arg_cong)
  then show ?thesis unfolding dec_enc [OF assms(1)] dec_enc [OF assms(2)] by simp
qed

lemma stream_unique:
  assumes "list_all valid as" "list_all valid bs" "length as = length bs"
    and "concat (map enc as) @ r = concat (map enc bs) @ s"
  shows "as = bs \<and> r = s"
proof -
  from assms(3,4) have "dec_many (length as) (concat (map enc as) @ r) = dec_many (length bs) (concat (map enc bs) @ s)"
    by (simp only:)
  then show ?thesis unfolding dec_many_enc [OF assms(1)] dec_many_enc [OF assms(2)] by simp
qed

end

section \<open>Components that keep an invariant\<close>

locale machine =
  fixes step :: "'op \<Rightarrow> 's \<Rightarrow> 's"
    and inv :: "'s \<Rightarrow> bool"
  assumes step_inv: "inv s \<Longrightarrow> inv (step c s)"
begin

lemma run_inv: "inv s \<Longrightarrow> inv (fold step cs s)"
  by (induction cs arbitrary: s) (auto intro: step_inv)


end

end
