(* ===== verification/Http2_Session.thy ===== *)
theory Http2_Session
  imports Http2_Codec Json_Stream Ts_Interfaces
begin

text \<open>
  \<^verbatim>\<open>http2_session.cpp\<close>: the client's HTTP/2 connection. The record is the class plus
  the two callbacks' world: \<open>inbox\<close> is the script of what successive calls of
  \<^verbatim>\<open>recv_cb_\<close> give (\<open>None\<close> is a \<^verbatim>\<open>false\<close> return, a timeout; an
  exhausted script is a timeout too), \<open>tx_log\<close> the buffers handed to
  \<^verbatim>\<open>send_cb_\<close>, and \<open>send_result\<close> what its \<open>n\<close>-th call answers. Since every
  frame read takes at least one entry of the script, the receive loops terminate.

  \<^verbatim>\<open>filtered_json_buffer_\<close> is zeroed before every use and only ever appended to; it
  is represented by the part written so far. Timeouts are arguments of the callbacks only and
  are left out; \<^verbatim>\<open>read_next_message\<close>, which reads the clock, takes the readings as an
  argument.
\<close>

section \<open>State\<close>

record h2 =
  recv_buffer :: bytes
  settings_ack_sent :: bool
  settings_exchanged :: bool
  jparser :: json_parser
  filtered_json_buffer :: string
  parsing_json :: bool
  json_complete :: bool
  filtered_json_size :: nat
  json_bytes_processed :: nat
  filter_node_only :: bool
  response_buffer :: string
  response_buffer_used :: nat
  has_callbacks :: bool
  inbox :: "bytes option list"
  tx_log :: "bytes list"
  send_result :: "nat \<Rightarrow> bytes \<Rightarrow> bool"

definition kFilteredBufferSize :: nat where "kFilteredBufferSize = 65536"
definition kMaxRecvBufferSize :: nat where "kMaxRecvBufferSize = 40 * 1024"

section \<open>Sending\<close>

definition send_cb :: "bytes \<Rightarrow> h2 \<Rightarrow> bool \<times> h2" where
  "send_cb data h = (send_result h (length (tx_log h)) data, h\<lparr>tx_log := tx_log h @ [data]\<rparr>)"

definition send_frame :: "frame \<Rightarrow> h2 \<Rightarrow> bool \<times> h2" where
  "send_frame f h = (if \<not> has_callbacks h then (False, h) else send_cb (frame_bytes f) h)"

definition settings_payload :: bytes where
  "settings_payload =
     [0x00, 0x02, 0x00, 0x00, 0x00, 0x00, 0x00, 0x05] @ put_be32 (word_of_nat MAX_FRAME_SIZE)"

definition send_initial_settings :: "h2 \<Rightarrow> bool \<times> h2" where
  "send_initial_settings h =
     send_frame \<lparr>f_length = word_of_nat (length settings_payload), f_type = kFrameTypeSettings,
       f_flags = 0, f_stream_id = 0, f_payload = settings_payload\<rparr> h"

definition h2_init :: "h2 \<Rightarrow> bool \<times> h2" where
  "h2_init h =
     send_initial_settings (h\<lparr>has_callbacks := True, recv_buffer := [], settings_ack_sent := False,
       settings_exchanged := False, response_buffer := [], response_buffer_used := 0\<rparr>)"

definition settings_ack :: frame where
  "settings_ack = \<lparr>f_length = 0, f_type = kFrameTypeSettings, f_flags = kFlagAck, f_stream_id = 0,
     f_payload = []\<rparr>"

definition send_settings_ack :: "h2 \<Rightarrow> bool \<times> h2" where
  "send_settings_ack h =
     (if settings_ack_sent h then (True, h)
      else case send_frame settings_ack h of
        (True, h) \<Rightarrow> (True, h\<lparr>settings_ack_sent := True\<rparr>)
      | (False, h) \<Rightarrow> (False, h))"

definition handle_settings :: "frame \<Rightarrow> bool" where
  "handle_settings f \<longleftrightarrow> f_stream_id f = 0"

section \<open>Receiving\<close>

definition pull_bytes :: "h2 \<Rightarrow> bool \<times> h2" where
  "pull_bytes h =
     (if \<not> has_callbacks h \<or> length (recv_buffer h) > kMaxRecvBufferSize then (False, h)
      else case inbox h of
        [] \<Rightarrow> (False, h)
      | None # r \<Rightarrow> (False, h\<lparr>inbox := r\<rparr>)
      | Some chunk # r \<Rightarrow> (chunk \<noteq> [], h\<lparr>inbox := r, recv_buffer := recv_buffer h @ chunk\<rparr>))"

lemma pull_bytes_inbox: "pull_bytes h = (True, h') \<Longrightarrow> length (inbox h') < length (inbox h)"
  by (auto simp: pull_bytes_def split: if_splits list.splits option.splits)

text \<open>\<^verbatim>\<open>while (recv_buffer_.size() < 9)\<close>\<close>

function pull_header :: "h2 \<Rightarrow> bool \<times> h2" where
  "pull_header h =
     (if length (recv_buffer h) < 9 then
        case pull_bytes h of (False, h') \<Rightarrow> (False, h') | (True, h') \<Rightarrow> pull_header h'
      else (True, h))"
  by pat_completeness auto
termination
  by (relation "measure (\<lambda>h. length (inbox h))") (auto simp: pull_bytes_inbox)

declare pull_header.simps [simp del]

text \<open>\<^verbatim>\<open>while (recv_buffer_.size() < need)\<close>, with its early \<^verbatim>\<open>break\<close>.\<close>

function pull_payload :: "nat \<Rightarrow> h2 \<Rightarrow> bool \<times> h2" where
  "pull_payload need h =
     (if length (recv_buffer h) < need then
        case pull_bytes h of
          (False, h') \<Rightarrow> (False, h')
        | (True, h') \<Rightarrow>
            if length (recv_buffer h') > need + MAX_FRAME_SIZE then (True, h')
            else pull_payload need h'
      else (True, h))"
  by pat_completeness auto
termination
  by (relation "measure (\<lambda>(n, h). length (inbox h))") (auto simp: pull_bytes_inbox)

declare pull_payload.simps [simp del]

text \<open>A DATA frame stays in the buffer for the caller; any other frame is cut off it.\<close>

definition read_frame :: "h2 \<Rightarrow> frame option \<times> h2" where
  "read_frame h0 =
     (let h = (if length (recv_buffer h0) > MAX_FRAME_SIZE * 2 then h0\<lparr>recv_buffer := []\<rparr> else h0)
      in case pull_bytes h of (False, h) \<Rightarrow> (None, h) | (True, h) \<Rightarrow>
         (case pull_header h of (False, h) \<Rightarrow> (None, h) | (True, h) \<Rightarrow>
            (let f = parse_header (recv_buffer h);
                 len = unat (f_length f);
                 need = 9 + len
             in if len > MAX_FRAME_SIZE then (None, h)
                else case pull_payload need h of (False, h) \<Rightarrow> (None, h) | (True, h) \<Rightarrow>
                  (if f_type f \<noteq> kFrameTypeData
                   then (Some (f\<lparr>f_payload := take len (drop 9 (recv_buffer h))\<rparr>),
                         h\<lparr>recv_buffer := drop need (recv_buffer h)\<rparr>)
                   else (Some f, h)))))"

definition process_control_frames :: "h2 \<Rightarrow> bool \<times> h2" where
  "process_control_frames h =
     (if settings_exchanged h then (True, h)
      else case read_frame h of (None, h) \<Rightarrow> (False, h) | (Some f, h) \<Rightarrow>
        (if f_stream_id f \<noteq> 0 then (False, h)
         else if f_type f \<noteq> kFrameTypeSettings then (False, h)
         else if f_flags f AND kFlagAck \<noteq> 0 then (False, h)
         else if \<not> handle_settings f then (False, h)
         else case send_settings_ack h of (False, h) \<Rightarrow> (False, h)
           | (True, h) \<Rightarrow> (True, h\<lparr>settings_exchanged := True\<rparr>)))"

text \<open>Reading changes the script and the buffer only, the former by shortening it.\<close>

definition pulled :: "h2 \<Rightarrow> h2 \<Rightarrow> bool" where
  "pulled h h' \<longleftrightarrow> (\<exists>i r. h' = h\<lparr>recv_buffer := recv_buffer h @ r, inbox := i\<rparr> \<and> length i \<le> length (inbox h))"

lemma pulled_refl: "pulled h h"
  unfolding pulled_def by (intro exI [of _ "inbox h"] exI [of _ "[]"]) simp

lemma pulled_trans: "pulled h g \<Longrightarrow> pulled g k \<Longrightarrow> pulled h k"
  unfolding pulled_def by force

lemma pull_bytes_pulled: "pull_bytes h = (b, h') \<Longrightarrow> pulled h h'"
proof -
  assume e: "pull_bytes h = (b, h')"
  have "h' = h\<lparr>recv_buffer := recv_buffer h' , inbox := inbox h'\<rparr>"
    using e by (auto simp: pull_bytes_def split: if_splits list.splits option.splits)
  moreover obtain r where "recv_buffer h' = recv_buffer h @ r"
    using e by (auto simp: pull_bytes_def split: if_splits list.splits option.splits)
  moreover have "length (inbox h') \<le> length (inbox h)"
    using e by (auto simp: pull_bytes_def split: if_splits list.splits option.splits)
  ultimately show ?thesis unfolding pulled_def by metis
qed

lemma pull_header_pulled: "pull_header h = (b, h') \<Longrightarrow> pulled h h'"
proof (induction h rule: pull_header.induct)
  case (1 h)
  show ?case
  proof (cases "length (recv_buffer h) < 9")
    case True
    obtain c g where g: "pull_bytes h = (c, g)" by fastforce
    show ?thesis
    proof (cases c)
      case c: True
      from "1.prems" have "pull_header g = (b, h')"
        using True g c by (subst (asm) pull_header.simps) simp
      with "1.IH" [OF True g [symmetric]] c have "pulled g h'" by simp
      with pull_bytes_pulled [OF g] show ?thesis by (rule pulled_trans)
    next
      case False
      with "1.prems" True g have "g = h'" by (subst (asm) pull_header.simps) simp
      with pull_bytes_pulled [OF g] show ?thesis by simp
    qed
  next
    case False
    with "1.prems" show ?thesis by (subst (asm) pull_header.simps) (simp add: pulled_refl)
  qed
qed

lemma pull_payload_pulled: "pull_payload n h = (b, h') \<Longrightarrow> pulled h h'"
proof (induction n h rule: pull_payload.induct)
  case (1 n h)
  show ?case
  proof (cases "length (recv_buffer h) < n")
    case True
    obtain c g where g: "pull_bytes h = (c, g)" by fastforce
    show ?thesis
    proof (cases "c \<and> \<not> length (recv_buffer g) > n + MAX_FRAME_SIZE")
      case c: True
      from "1.prems" have "pull_payload n g = (b, h')"
        using True g c by (subst (asm) pull_payload.simps) simp
      with "1.IH" [OF True g [symmetric]] c have "pulled g h'" by simp
      with pull_bytes_pulled [OF g] show ?thesis by (rule pulled_trans)
    next
      case False
      with "1.prems" True g have "g = h'"
        by (subst (asm) pull_payload.simps) (auto split: bool.splits if_splits)
      with pull_bytes_pulled [OF g] show ?thesis by simp
    qed
  next
    case False
    with "1.prems" show ?thesis by (subst (asm) pull_payload.simps) (simp add: pulled_refl)
  qed
qed

lemma pull_header_enough: "pull_header h = (True, h') \<Longrightarrow> 9 \<le> length (recv_buffer h')"
proof (induction h rule: pull_header.induct)
  case (1 h)
  show ?case
  proof (cases "length (recv_buffer h) < 9")
    case True
    obtain c g where g: "pull_bytes h = (c, g)" by fastforce
    with "1.prems" True have "c" "pull_header g = (True, h')"
      by (subst (asm) pull_header.simps; cases c; simp)+
    with "1.IH" [OF True g [symmetric]] show ?thesis by simp
  next
    case False
    with "1.prems" show ?thesis by (subst (asm) pull_header.simps) simp
  qed
qed

lemma parse_header_append: "9 \<le> length b \<Longrightarrow> parse_header (b @ r) = parse_header b"
proof -
  assume b: "9 \<le> length b"
  then have "b \<noteq> []" by auto
  with b show ?thesis by (simp add: parse_header_def nth_append)
qed

lemma pull_payload_enough: "pull_payload n h = (True, h') \<Longrightarrow> n \<le> length (recv_buffer h')"
proof (induction n h rule: pull_payload.induct)
  case (1 n h)
  show ?case
  proof (cases "length (recv_buffer h) < n")
    case True
    obtain c g where g: "pull_bytes h = (c, g)" by fastforce
    show ?thesis
    proof (cases "c \<and> \<not> length (recv_buffer g) > n + MAX_FRAME_SIZE")
      case c: True
      from "1.prems" have "pull_payload n g = (True, h')"
        using True g c by (subst (asm) pull_payload.simps) simp
      with "1.IH" [OF True g [symmetric]] c show ?thesis by simp
    next
      case False
      with "1.prems" True g show ?thesis
        by (subst (asm) pull_payload.simps) (auto split: bool.splits if_splits)
    qed
  next
    case False
    with "1.prems" show ?thesis by (subst (asm) pull_payload.simps) simp
  qed
qed

lemma pulled_inbox: "pulled h h' \<Longrightarrow> length (inbox h') \<le> length (inbox h)"
  by (auto simp: pulled_def)

text \<open>Everything but the buffer and the script is untouched by a frame read.\<close>

definition same_session :: "h2 \<Rightarrow> h2 \<Rightarrow> bool" where
  "same_session h h' \<longleftrightarrow> (\<exists>b i. h' = h\<lparr>recv_buffer := b, inbox := i\<rparr>)"

lemma same_session_refl: "same_session h h"
  unfolding same_session_def by (intro exI [of _ "recv_buffer h"] exI [of _ "inbox h"]) simp

lemma same_session_trans: "same_session h g \<Longrightarrow> same_session g k \<Longrightarrow> same_session h k"
  by (clarsimp simp: same_session_def) (rule exI, rule exI, rule refl)

lemma same_session_pulled: "pulled h h' \<Longrightarrow> same_session h h'"
  by (auto simp: pulled_def same_session_def)

lemma same_session_cut: "same_session h (h\<lparr>recv_buffer := b\<rparr>)"
  unfolding same_session_def by (intro exI [of _ b] exI [of _ "inbox h"]) simp

text \<open>
  A successful \<open>read_frame\<close>, cut into the steps of its body. \<open>g\<close> is the session when
  the whole frame is in the buffer.
\<close>

lemma read_frame_elim:
  assumes "read_frame h = (Some f, h')"
  obtains g n where "same_session h g" "length (inbox g) < length (inbox h)"
    and "n = unat (f_length (parse_header (recv_buffer g)))" "n \<le> MAX_FRAME_SIZE"
    and "9 + n \<le> length (recv_buffer g)"
    and "(f, h') = (let hdr = parse_header (recv_buffer g) in if f_type hdr \<noteq> kFrameTypeData
      then (hdr\<lparr>f_payload := take n (drop 9 (recv_buffer g))\<rparr>, g\<lparr>recv_buffer := drop (9 + n) (recv_buffer g)\<rparr>)
      else (hdr, g))"
proof -
  define h0 where "h0 = (if length (recv_buffer h) > MAX_FRAME_SIZE * 2 then h\<lparr>recv_buffer := []\<rparr> else h)"
  obtain h1 where h1: "pull_bytes h0 = (True, h1)"
    using assms by (auto simp: read_frame_def h0_def Let_def split: prod.splits bool.splits)
  obtain h2 where h2: "pull_header h1 = (True, h2)"
    using assms h1 by (auto simp: read_frame_def Let_def simp flip: h0_def split: prod.splits bool.splits)
  define n where "n = unat (f_length (parse_header (recv_buffer h2)))"
  have n: "n \<le> MAX_FRAME_SIZE"
    using assms h1 h2 by (auto simp: read_frame_def Let_def n_def simp flip: h0_def split: if_splits)
  obtain g where g: "pull_payload (9 + n) h2 = (True, g)"
    using assms h1 h2 n by (auto simp: read_frame_def Let_def n_def simp flip: h0_def split: prod.splits bool.splits)
  have p: "pulled h0 h1" "pulled h1 h2" "pulled h2 g"
    using h1 h2 g by (auto intro: pull_bytes_pulled pull_header_pulled pull_payload_pulled)
  have "9 \<le> length (recv_buffer h2)" using h2 by (rule pull_header_enough)
  then have hdr: "parse_header (recv_buffer g) = parse_header (recv_buffer h2)"
    using p(3) by (auto simp: pulled_def parse_header_append)
  have "same_session h h0" by (simp add: h0_def same_session_cut same_session_refl)
  moreover have "same_session h0 g"
    using p by (intro same_session_pulled) (blast intro: pulled_trans)
  ultimately have same: "same_session h g" by (rule same_session_trans)
  have "inbox h0 = inbox h" by (simp add: h0_def)
  then have "length (inbox g) < length (inbox h)"
    using pull_bytes_inbox [OF h1] pulled_inbox [OF p(2)] pulled_inbox [OF p(3)] by simp
  moreover have "9 + n \<le> length (recv_buffer g)" using g by (rule pull_payload_enough)
  moreover have "read_frame h = (if f_type (parse_header (recv_buffer h2)) \<noteq> kFrameTypeData
      then (Some ((parse_header (recv_buffer h2))\<lparr>f_payload := take n (drop 9 (recv_buffer g))\<rparr>),
            g\<lparr>recv_buffer := drop (9 + n) (recv_buffer g)\<rparr>)
      else (Some (parse_header (recv_buffer h2)), g))"
    using h1 h2 g n by (simp add: read_frame_def Let_def n_def flip: h0_def)
  then have "(f, h') = (let hdr = parse_header (recv_buffer g) in if f_type hdr \<noteq> kFrameTypeData
      then (hdr\<lparr>f_payload := take n (drop 9 (recv_buffer g))\<rparr>, g\<lparr>recv_buffer := drop (9 + n) (recv_buffer g)\<rparr>)
      else (hdr, g))"
    unfolding hdr assms by (auto simp: Let_def split: if_splits)
  moreover have "n = unat (f_length (parse_header (recv_buffer g)))" unfolding hdr n_def by simp
  ultimately show ?thesis using n same by (intro that)
qed

lemma read_frame_inbox: "read_frame h = (Some f, h') \<Longrightarrow> length (inbox h') < length (inbox h)"
  by (erule read_frame_elim) (auto simp: Let_def split: if_splits)

lemma read_frame_same: "read_frame h = (Some f, h') \<Longrightarrow> same_session h h'"
  by (erule read_frame_elim)
     (auto simp: Let_def intro: same_session_trans same_session_cut split: if_splits)

lemma read_frame_fail_same: "read_frame h = (None, h') \<Longrightarrow> same_session h h'"
proof -
  assume e: "read_frame h = (None, h')"
  define h0 where "h0 = (if length (recv_buffer h) > MAX_FRAME_SIZE * 2 then h\<lparr>recv_buffer := []\<rparr> else h)"
  have h0: "same_session h h0" by (simp add: h0_def same_session_cut same_session_refl)
  have "pulled h0 h' \<or> (\<exists>h1. pulled h0 h1 \<and> pulled h1 h') \<or> (\<exists>h1 h2. pulled h0 h1 \<and> pulled h1 h2 \<and> pulled h2 h')"
    using e by (auto simp: read_frame_def Let_def simp flip: h0_def split: prod.splits bool.splits if_splits
        dest!: pull_bytes_pulled pull_header_pulled pull_payload_pulled)
  then have "pulled h0 h'" by (blast intro: pulled_trans)
  with h0 show ?thesis by (blast intro: same_session_trans same_session_pulled)
qed

section \<open>The request\<close>

definition request_headers :: "string \<Rightarrow> string \<Rightarrow> string \<Rightarrow> string \<Rightarrow> (string \<times> string) list" where
  "request_headers scheme authority path payload =
     [('':method'', ''POST''), ('':scheme'', scheme), ('':authority'', authority), ('':path'', path),
      (''content-type'', ''application/json''), (''content-length'', show_nat (length payload)),
      (''accept'', ''application/json'')]"

definition header_block :: "(string \<times> string) list \<Rightarrow> bytes" where
  "header_block hs = fold (\<lambda>(n, v) b. encode_literal_header b n v) hs []"

definition request_frames :: "u32 \<Rightarrow> string \<Rightarrow> string \<Rightarrow> string \<Rightarrow> string \<Rightarrow> frame list" where
  "request_frames sid scheme authority path payload =
     (let block = header_block (request_headers scheme authority path payload) in
      [\<lparr>f_length = word_of_nat (length block), f_type = kFrameTypeHeaders, f_flags = kFlagEndHeaders,
        f_stream_id = sid, f_payload = block\<rparr>,
       \<lparr>f_length = word_of_nat (length payload), f_type = kFrameTypeData, f_flags = kFlagEndStream,
        f_stream_id = sid, f_payload = bytes_of payload\<rparr>])"

text \<open>Both frames go out in one buffer, so that they travel in one Noise message.\<close>

definition request_bytes :: "u32 \<Rightarrow> string \<Rightarrow> string \<Rightarrow> string \<Rightarrow> string \<Rightarrow> bytes" where
  "request_bytes sid scheme authority path payload =
     concat (map frame_bytes (request_frames sid scheme authority path payload))"

text \<open>The per-request reset at the head of \<^verbatim>\<open>post_json\<close> and \<^verbatim>\<open>read_next_message\<close>.\<close>

definition begin_json :: "bool \<Rightarrow> h2 \<Rightarrow> h2" where
  "begin_json filtering h =
     h\<lparr>filter_node_only := filtering, jparser := jp_reset, parsing_json := False,
       json_complete := False, filtered_json_size := 0, json_bytes_processed := 0,
       filtered_json_buffer := []\<rparr>"

section \<open>One DATA frame\<close>

definition data_payload :: "frame \<Rightarrow> h2 \<Rightarrow> string" where
  "data_payload f h = string_of (take (unat (f_length f)) (drop 9 (recv_buffer h)))"

definition drop_frame :: "frame \<Rightarrow> h2 \<Rightarrow> h2" where
  "drop_frame f h = h\<lparr>recv_buffer := drop (9 + unat (f_length f)) (recv_buffer h)\<rparr>"

text \<open>The four-byte length in front of the first piece of a message.\<close>

definition strip_prefix :: "string \<Rightarrow> h2 \<Rightarrow> bool \<times> string" where
  "strip_prefix p h =
     (if json_bytes_processed h = 0 \<and> 5 \<le> length p \<and> p ! 0 \<noteq> CHR ''{'' \<and> p ! 4 = CHR ''{''
      then (True, drop 4 p) else (False, p))"

text \<open>Append to the buffer what fits, and test for completeness when anything was appended.\<close>

definition buffer_json :: "string \<Rightarrow> h2 \<Rightarrow> h2" where
  "buffer_json js h =
     (let space_left = kFilteredBufferSize - filtered_json_size h - 1;
          n = min (length js) space_left
      in if n > 0 then
           let h = h\<lparr>filtered_json_buffer := take (filtered_json_size h) (filtered_json_buffer h) @ take n js,
                     filtered_json_size := filtered_json_size h + n\<rparr>
           in if \<not> json_complete h \<and> has_complete_json (take (filtered_json_size h) (filtered_json_buffer h))
              then h\<lparr>json_complete := True\<rparr> else h
         else h)"

text \<open>Filtering mode: the streaming parser writes to the same buffer.\<close>

definition filter_json :: "string \<Rightarrow> h2 \<Rightarrow> h2" where
  "filter_json js h =
     (case feed kFilteredBufferSize js (jparser h) of (done, p) \<Rightarrow>
        let h = h\<lparr>jparser := p, filtered_json_buffer := jp_output p,
                  json_bytes_processed := json_bytes_processed h + length js\<rparr>
        in if done \<and> has_node p then h\<lparr>json_complete := True, filtered_json_size := output_size p\<rparr> else h)"

definition window_update :: "u32 \<Rightarrow> nat \<Rightarrow> frame" where
  "window_update sid n =
     \<lparr>f_length = 4, f_type = 0x08, f_flags = 0, f_stream_id = sid, f_payload = put_be32 (word_of_nat n)\<rparr>"

definition send_window_updates :: "u32 \<Rightarrow> nat \<Rightarrow> h2 \<Rightarrow> h2" where
  "send_window_updates sid n h =
     (if n > 0 then snd (send_frame (window_update 0 n) (snd (send_frame (window_update sid n) h))) else h)"

text \<open>What the switch does with the loop: go on, leave it, or return with the stream open.\<close>

datatype loop_exit = Continue | CloseStream | ReturnOpen | ReturnFalse

definition absorb_data :: "frame \<Rightarrow> h2 \<Rightarrow> h2" where
  "absorb_data f h =
     (let (has_wire, js) = strip_prefix (data_payload f h) h;
          h = (if has_wire then h\<lparr>parsing_json := True\<rparr> else h);
          h = (if \<not> filter_node_only h \<and> \<not> has_wire \<and> json_bytes_processed h = 0
               then h\<lparr>parsing_json := True\<rparr> else h)
      in if filter_node_only h then
           (if parsing_json h \<and> \<not> json_complete h then filter_json js h else h)
         else if parsing_json h then
           (let h = buffer_json js h in h\<lparr>json_bytes_processed := json_bytes_processed h + length js\<rparr>)
         else h)"

definition handle_data :: "u32 \<Rightarrow> bool \<Rightarrow> frame \<Rightarrow> h2 \<Rightarrow> loop_exit \<times> h2" where
  "handle_data sid close_stream f h =
     (let h = send_window_updates sid (unat (f_length f)) (drop_frame f (absorb_data f h))
      in if filter_node_only h \<and> json_complete h then (CloseStream, h)
         else if \<not> filter_node_only h \<and> json_complete h then
           (if close_stream then CloseStream else ReturnOpen, h)
         else if f_flags f AND kFlagEndStream \<noteq> 0 then (CloseStream, h\<lparr>json_complete := True\<rparr>)
         else (Continue, h))"

section \<open>The response loop\<close>

definition handle_settings_frame :: "frame \<Rightarrow> h2 \<Rightarrow> loop_exit \<times> h2" where
  "handle_settings_frame f h =
     (if \<not> handle_settings f then (ReturnFalse, h)
      else if f_flags f AND kFlagAck = 0 then
        case send_settings_ack h of (True, h) \<Rightarrow> (Continue, h) | (False, h) \<Rightarrow> (ReturnFalse, h)
      else (Continue, h))"

text \<open>The switch of \<^verbatim>\<open>post_json\<close>; the status is threaded through as the code's reference argument.\<close>

definition post_frame :: "u32 \<Rightarrow> bool \<Rightarrow> frame \<Rightarrow> u16 \<Rightarrow> h2 \<Rightarrow> loop_exit \<times> u16 \<times> h2" where
  "post_frame sid close_stream f status h =
     (if f_stream_id f \<noteq> sid \<and> f_stream_id f \<noteq> 0 then (ReturnFalse, status, h)
      else if f_type f = kFrameTypeHeaders then
        (let s = decode_status_header (f_payload f);
             status = (if s > 0 then word_of_int s else status)
         in (if f_flags f AND kFlagEndStream \<noteq> 0 then CloseStream else Continue, status, h))
      else if f_type f = kFrameTypeData then
        (case handle_data sid close_stream f h of (e, h) \<Rightarrow> (e, status, h))
      else if f_type f = kFrameTypeSettings then
        (case handle_settings_frame f h of (e, h) \<Rightarrow> (e, status, h))
      else if f_type f = kFrameTypeGoAway then (ReturnFalse, status, h)
      else (Continue, status, h))"

definition response :: "h2 \<Rightarrow> string" where
  "response h = take (filtered_json_size h) (filtered_json_buffer h)"

lemma inbox_sends [simp]:
  "inbox (snd (send_frame f h)) = inbox h"
  "inbox (send_window_updates sid n h) = inbox h"
  "inbox (drop_frame f h) = inbox h"
  by (simp_all add: send_frame_def send_cb_def send_window_updates_def drop_frame_def)

lemma inbox_absorb [simp]: "inbox (absorb_data f h) = inbox h"
  by (auto simp: absorb_data_def filter_json_def buffer_json_def Let_def split: prod.splits)

lemma inbox_settings_frame: "handle_settings_frame f h = (e, h') \<Longrightarrow> inbox h' = inbox h"
  by (auto simp: handle_settings_frame_def send_settings_ack_def send_frame_def send_cb_def
      split: if_splits prod.splits bool.splits)

lemma inbox_post_frame: "post_frame sid cs f st h = (e, st', h') \<Longrightarrow> inbox h' = inbox h"
  by (auto simp: post_frame_def handle_data_def Let_def split: if_splits prod.splits dest: inbox_settings_frame)

text \<open>
  The loop: \<open>None\<close> is \<^verbatim>\<open>return false\<close>, \<open>Some r\<close> is
  \<^verbatim>\<open>return true\<close> with the response \<open>r\<close>.
\<close>

function post_loop :: "u32 \<Rightarrow> bool \<Rightarrow> u16 \<Rightarrow> h2 \<Rightarrow> string option \<times> u16 \<times> h2" where
  "post_loop sid close_stream status h =
     (case read_frame h of
        (None, h) \<Rightarrow>
          if response_buffer_used h > 0 \<and> has_complete_json (take (response_buffer_used h) (response_buffer h))
          then (Some (response h), status, h) else (None, status, h)
      | (Some f, h) \<Rightarrow>
          (case post_frame sid close_stream f status h of
             (Continue, status, h) \<Rightarrow> post_loop sid close_stream status h
           | (CloseStream, status, h) \<Rightarrow> (Some (response h), status, h)
           | (ReturnOpen, status, h) \<Rightarrow> (Some (response h), status, h)
           | (ReturnFalse, status, h) \<Rightarrow> (None, status, h)))"
  by pat_completeness auto
termination
  by (relation "measure (\<lambda>(sid, cs, st, h). length (inbox h))")
     (auto dest!: read_frame_inbox [OF sym] inbox_post_frame [OF sym])

declare post_loop.simps [simp del]

definition post_json :: "u32 \<Rightarrow> string \<Rightarrow> string \<Rightarrow> string \<Rightarrow> string \<Rightarrow> u16 \<Rightarrow> bool \<Rightarrow> bool \<Rightarrow> h2 \<Rightarrow>
    string option \<times> u16 \<times> h2" where
  "post_json sid scheme authority path payload status close_stream filtering h =
     (case send_cb (request_bytes sid scheme authority path payload) (begin_json filtering h) of
        (False, h) \<Rightarrow> (None, status, h)
      | (True, h) \<Rightarrow>
          post_loop sid close_stream 0 (h\<lparr>response_buffer_used := 0, response_buffer := []\<rparr>))"

section \<open>The persistent stream\<close>

text \<open>
  \<^verbatim>\<open>read_next_message\<close>: the switch differs from that of \<^verbatim>\<open>post_json\<close> in
  every case, and a DATA frame is absorbed without the window updates.
\<close>

definition next_data :: "frame \<Rightarrow> h2 \<Rightarrow> loop_exit \<times> h2" where
  "next_data f h =
     (let (has_wire, js) = strip_prefix (data_payload f h) h;
          h = (if has_wire \<or> json_bytes_processed h = 0 then h\<lparr>parsing_json := True\<rparr> else h);
          before = json_complete h;
          h = (if parsing_json h then buffer_json js h else h)
      in if \<not> before \<and> json_complete h then (ReturnOpen, drop_frame f h)
         else
           let h = (if parsing_json h then h\<lparr>json_bytes_processed := json_bytes_processed h + length js\<rparr> else h);
               h = drop_frame f h
           in (if f_flags f AND kFlagEndStream \<noteq> 0 then ReturnFalse else Continue, h))"

definition next_frame :: "u32 \<Rightarrow> frame \<Rightarrow> h2 \<Rightarrow> loop_exit \<times> h2" where
  "next_frame sid f h =
     (if f_stream_id f \<noteq> sid \<and> f_stream_id f \<noteq> 0 then
        (Continue,
         if f_type f = kFrameTypeData \<and> length (recv_buffer h) \<ge> 9 + unat (f_length f)
         then drop_frame f h else h)
      else if f_type f = kFrameTypeHeaders then (Continue, h)
      else if f_type f = kFrameTypeData then next_data f h
      else if f_type f = kFrameTypeSettings then handle_settings_frame f h
      else if f_type f = kFrameTypeGoAway then (ReturnFalse, h)
      else (Continue, h))"

text \<open>
  The loop reads the clock once per round; \<open>clock\<close> lists the readings, and \<open>None\<close> means
  that the call has not returned by the last of them. \<open>Some None\<close> is
  \<^verbatim>\<open>return false\<close>.
\<close>

fun next_loop :: "u32 \<Rightarrow> u32 \<Rightarrow> u32 \<Rightarrow> u32 list \<Rightarrow> h2 \<Rightarrow> string option option \<times> h2" where
  "next_loop sid start timeout [] h = (None, h)"
| "next_loop sid start timeout (now # clock) h =
     (if now - start > timeout then (Some None, h)
      else case read_frame h of
        (None, h) \<Rightarrow> next_loop sid start timeout clock h
      | (Some f, h) \<Rightarrow>
          (case next_frame sid f h of
             (Continue, h) \<Rightarrow> next_loop sid start timeout clock h
           | (CloseStream, h) \<Rightarrow> (Some None, h)
           | (ReturnOpen, h) \<Rightarrow> (Some (Some (response h)), h)
           | (ReturnFalse, h) \<Rightarrow> (Some None, h)))"

definition read_next_message :: "u32 \<Rightarrow> u32 \<Rightarrow> u32 \<Rightarrow> u32 list \<Rightarrow> h2 \<Rightarrow> string option option \<times> h2" where
  "read_next_message sid start timeout clock h = next_loop sid start timeout clock (begin_json False h)"

text \<open>\<^verbatim>\<open>send_data_on_stream\<close>: a big-endian length and the text, in one DATA frame.\<close>

definition stream_data_frame :: "u32 \<Rightarrow> string \<Rightarrow> frame" where
  "stream_data_frame sid data =
     (let wire = put_be32 (word_of_nat (length data)) @ bytes_of data in
      \<lparr>f_length = word_of_nat (length wire), f_type = kFrameTypeData, f_flags = 0,
       f_stream_id = sid, f_payload = wire\<rparr>)"

definition send_data_on_stream :: "u32 \<Rightarrow> string \<Rightarrow> h2 \<Rightarrow> bool \<times> h2" where
  "send_data_on_stream sid data h = send_frame (stream_data_frame sid data) h"

section \<open>Frames are a self-delimiting format\<close>

definition dec_frame :: "bytes \<Rightarrow> (frame \<times> bytes) option" where
  "dec_frame bs =
     (if length bs < 9 then None
      else let f = parse_header bs; n = unat (f_length f)
           in if length bs < 9 + n then None
              else Some (f\<lparr>f_payload := take n (drop 9 bs)\<rparr>, drop (9 + n) bs))"

lemma drop_frame_bytes [simp]: "drop 9 (frame_bytes f) = f_payload f"
proof -
  have "length (frame_bytes (f\<lparr>f_payload := []\<rparr>)) = 9" by simp
  then show ?thesis
    by (subst frame_bytes_split) (simp del: length_frame_bytes)
qed

lemma dec_frame_bytes: "wf_frame f \<Longrightarrow> dec_frame (frame_bytes f @ r) = Some (f, r)"
  by (simp add: dec_frame_def Let_def parse_header_frame_bytes wf_frame_def)

interpretation h2f: framing frame_bytes dec_frame wf_frame
  by unfold_locales (rule dec_frame_bytes)

section \<open>Reading a frame out of arbitrary chunks\<close>

text \<open>The session after the first \<open>k\<close> chunks of the script have been pulled.\<close>

definition took :: "nat \<Rightarrow> bytes list \<Rightarrow> bytes option list \<Rightarrow> h2 \<Rightarrow> h2" where
  "took k cs later h = h\<lparr>recv_buffer := recv_buffer h @ concat (take k cs), inbox := map Some (drop k cs) @ later\<rparr>"

definition scripted :: "bytes list \<Rightarrow> bytes option list \<Rightarrow> h2 \<Rightarrow> bool" where
  "scripted cs later h \<longleftrightarrow> has_callbacks h \<and> inbox h = map Some cs @ later \<and> [] \<notin> set cs"

lemma scripted_took: "scripted cs later h \<Longrightarrow> scripted (drop k cs) later (took k cs later h)"
  by (auto simp: scripted_def took_def dest: in_set_dropD)

lemma took_sel [simp]:
  "recv_buffer (took k cs later h) = recv_buffer h @ concat (take k cs)"
  "inbox (took k cs later h) = map Some (drop k cs) @ later"
  by (simp_all add: took_def)

lemma concat_take_drop [simp]: "concat (take k cs) @ concat (drop k cs) = concat cs"
  by (metis append_take_drop_id concat_append)

lemma took_0: "scripted cs later h \<Longrightarrow> took 0 cs later h = h"
  by (simp add: took_def scripted_def)

lemma took_took: "took j (drop k cs) later (took k cs later h) = took (k + j) cs later h"
  by (simp add: took_def take_add) (metis add.commute)

lemma pull_bytes_took:
  assumes "scripted cs later h" "cs \<noteq> []" "length (recv_buffer h) \<le> kMaxRecvBufferSize"
  shows "pull_bytes h = (True, took 1 cs later h)"
  using assms by (cases cs) (auto simp: pull_bytes_def scripted_def took_def)

lemma pull_header_took:
  assumes "scripted cs later h" "9 \<le> length (recv_buffer h) + length (concat cs)"
  shows "\<exists>k \<le> length cs. pull_header h = (True, took k cs later h)"
  using assms
proof (induction cs arbitrary: h)
  case Nil
  then show ?case by (subst pull_header.simps) (simp add: took_0)
next
  case (Cons c cs)
  show ?case
  proof (cases "length (recv_buffer h) < 9")
    case True
    let ?g = "took 1 (c # cs) later h"
    have g: "pull_bytes h = (True, ?g)"
      using Cons.prems(1) True by (intro pull_bytes_took) (auto simp: kMaxRecvBufferSize_def)
    obtain k where "k \<le> length cs" "pull_header ?g = (True, took k cs later ?g)"
      using Cons.IH [of ?g] Cons.prems scripted_took [OF Cons.prems(1), of 1] by auto
    with g True show ?thesis
      using took_took [of k 1 "c # cs" later h]
      by (intro exI [of _ "Suc k"]) (subst pull_header.simps, simp)
  next
    case False
    with Cons.prems(1) show ?thesis by (intro exI [of _ 0]) (subst pull_header.simps, simp add: took_0)
  qed
qed

lemma pull_payload_took:
  assumes "scripted cs later h" "n \<le> length (recv_buffer h) + length (concat cs)" "n \<le> 9 + MAX_FRAME_SIZE"
  shows "\<exists>k \<le> length cs. pull_payload n h = (True, took k cs later h)"
  using assms
proof (induction cs arbitrary: h)
  case Nil
  then show ?case by (subst pull_payload.simps) (simp add: took_0)
next
  case (Cons c cs)
  show ?case
  proof (cases "length (recv_buffer h) < n")
    case True
    let ?g = "took 1 (c # cs) later h"
    have g: "pull_bytes h = (True, ?g)"
      using Cons.prems(1,3) True by (intro pull_bytes_took) (auto simp: kMaxRecvBufferSize_def MAX_FRAME_SIZE_def)
    obtain k where k: "k \<le> length cs" "pull_payload n ?g = (True, took k cs later ?g)"
      using Cons.IH [of ?g] Cons.prems scripted_took [OF Cons.prems(1), of 1] by auto
    show ?thesis
    proof (cases "length (recv_buffer ?g) > n + MAX_FRAME_SIZE")
      case True
      then show ?thesis using g \<open>length (recv_buffer h) < n\<close>
        by (intro exI [of _ 1]) (subst pull_payload.simps, simp)
    next
      case False
      with k g True show ?thesis
        using took_took [of k 1 "c # cs" later h]
        by (intro exI [of _ "Suc k"]) (subst pull_payload.simps, simp)
    qed
  next
    case False
    with Cons.prems(1) show ?thesis by (intro exI [of _ 0]) (subst pull_payload.simps, simp add: took_0)
  qed
qed

lemma longer_prefix: "b @ c = f @ r \<Longrightarrow> length f \<le> length b \<Longrightarrow> \<exists>t. b = f @ t \<and> t @ c = r"
  by (auto simp: append_eq_append_conv2)

text \<open>
  C26. However the transport cuts the byte stream, \<^verbatim>\<open>read_frame_\<close> returns the next
  frame: it takes at least one chunk, and what it leaves in the buffer and in the transport is
  the rest of the stream (behind the frame itself when it is a DATA frame, whose payload the
  caller takes from the buffer).
\<close>

theorem read_frame_any_chunking:
  assumes "scripted cs later h" and "cs \<noteq> []" and "length (recv_buffer h) \<le> 2 * MAX_FRAME_SIZE"
    and "wf_frame f" and "length (f_payload f) \<le> MAX_FRAME_SIZE"
    and "recv_buffer h @ concat cs = frame_bytes f @ rest"
  shows "\<exists>k h'. 0 < k \<and> k \<le> length cs \<and>
    read_frame h = (Some (if f_type f = kFrameTypeData then f\<lparr>f_payload := []\<rparr> else f), h') \<and>
    scripted (drop k cs) later h' \<and> same_session h h' \<and>
    recv_buffer h' @ concat (drop k cs) = (if f_type f = kFrameTypeData then frame_bytes f @ rest else rest)"
proof -
  let ?n = "length (f_payload f)"
  have len: "length (recv_buffer h) + length (concat cs) = 9 + ?n + length rest"
    using arg_cong [OF assms(6), of length] by simp
  let ?h1 = "took 1 cs later h"
  have h1: "pull_bytes h = (True, ?h1)"
    using assms(1-3) by (intro pull_bytes_took) (auto simp: kMaxRecvBufferSize_def MAX_FRAME_SIZE_def)
  have c1: "length (recv_buffer ?h1) + length (concat (drop 1 cs)) = 9 + ?n + length rest"
    using len by (metis append.assoc concat_take_drop length_append took_sel(1))
  obtain j where j: "j \<le> length (drop 1 cs)" "pull_header ?h1 = (True, took j (drop 1 cs) later ?h1)"
    using pull_header_took [OF scripted_took [OF assms(1), of 1]] c1 by auto
  define i where "i = 1 + j"
  let ?h2 = "took i cs later h"
  have h2: "pull_header ?h1 = (True, ?h2)" "i \<le> length cs" "0 < i"
    using j assms(2) by (auto simp: took_took i_def Suc_le_eq) (cases cs; auto)
  have c2: "length (recv_buffer ?h2) + length (concat (drop i cs)) = 9 + ?n + length rest"
    using len by (metis append.assoc concat_take_drop length_append took_sel(1))
  obtain l where l: "l \<le> length (drop i cs)" "pull_payload (9 + ?n) ?h2 = (True, took l (drop i cs) later ?h2)"
    using pull_payload_took [OF scripted_took [OF assms(1), of i], of "9 + ?n"] c2 assms(5) by auto
  define k where "k = i + l"
  let ?h3 = "took k cs later h"
  have h3: "pull_payload (9 + ?n) ?h2 = (True, ?h3)" "k \<le> length cs" "0 < k"
    using l h2 by (auto simp: took_took k_def)
  have stream: "recv_buffer ?h3 @ concat (drop k cs) = frame_bytes f @ rest"
    using assms(6) by (simp add: append.assoc del: concat_append) 
  have "9 \<le> length (recv_buffer ?h2)" using h2(1) by (rule pull_header_enough)
  moreover have "recv_buffer ?h2 @ concat (drop i cs) = frame_bytes f @ rest"
    using assms(6) by simp
  ultimately have hdr: "parse_header (recv_buffer ?h2) = f\<lparr>f_payload := []\<rparr>"
    using parse_header_append [of "recv_buffer ?h2" "concat (drop i cs)"]
      parse_header_frame_bytes [OF assms(4), of rest] by simp
  have n: "unat (f_length f) = ?n" using assms(4) by (simp add: wf_frame_def)
  have enough: "9 + ?n \<le> length (recv_buffer ?h3)" using h3(1) by (rule pull_payload_enough)
  have t: "\<exists>t. recv_buffer ?h3 = frame_bytes f @ t \<and> t @ concat (drop k cs) = rest"
    using stream enough by (intro longer_prefix) auto
  then obtain t where t: "recv_buffer ?h3 = frame_bytes f @ t" "t @ concat (drop k cs) = rest" by blast
  have small: "\<not> MAX_FRAME_SIZE * 2 < length (recv_buffer h)" using assms(3) by simp
  have r: "read_frame h = (if f_type f \<noteq> kFrameTypeData
      then (Some f, ?h3\<lparr>recv_buffer := t\<rparr>) else (Some (f\<lparr>f_payload := []\<rparr>), ?h3))"
    using assms(5) unfolding read_frame_def Let_def if_not_P [OF small] h1 prod.case bool.case h2 hdr
    by (simp add: n h3(1) t(1) del: took_sel)
  have sc: "scripted (drop k cs) later ?h3" using assms(1) by (rule scripted_took)
  have same: "same_session h ?h3" "same_session h (?h3\<lparr>recv_buffer := t\<rparr>)"
  proof -
    show "same_session h ?h3" by (auto simp: same_session_def took_def)
    then show "same_session h (?h3\<lparr>recv_buffer := t\<rparr>)" by (rule same_session_trans) (rule same_session_cut)
  qed
  show ?thesis
  proof (cases "f_type f = kFrameTypeData")
    case True
    with r h3 sc same stream show ?thesis by (intro exI [of _ k] exI [of _ ?h3]) simp
  next
    case False
    moreover have "scripted (drop k cs) later (?h3\<lparr>recv_buffer := t\<rparr>)" using sc by (simp add: scripted_def)
    ultimately show ?thesis
      using r h3 same t by (intro exI [of _ k] exI [of _ "?h3\<lparr>recv_buffer := t\<rparr>"]) simp
  qed
qed

text \<open>A connected session with nothing received yet, for the examples.\<close>

definition idle_session :: "bytes option list \<Rightarrow> h2" where
  "idle_session script = \<lparr>recv_buffer = [], settings_ack_sent = False, settings_exchanged = False,
     jparser = jp_reset, filtered_json_buffer = [], parsing_json = False, json_complete = False,
     filtered_json_size = 0, json_bytes_processed = 0, filter_node_only = False,
     response_buffer = [], response_buffer_used = 0, has_callbacks = True, inbox = script,
     tx_log = [], send_result = \<lambda>n d. True\<rparr>"

lemma idle_session_sel:
  "has_callbacks (idle_session s)" "recv_buffer (idle_session s) = []" "inbox (idle_session s) = s"
  "send_result (idle_session s) n d" "tx_log (idle_session s) = []"
  by (simp_all add: idle_session_def)

theorem read_frame_any_chunking_witness:
  "\<exists>k h'. 0 < k \<and> k \<le> length [[0, 0, 4, 8, 0], [0, 0, 0, 0, 0], [0, 0, 1, 9 :: u8]] \<and>
    read_frame (idle_session (map Some [[0, 0, 4, 8, 0], [0, 0, 0, 0, 0], [0, 0, 1, 9]]))
      = (Some (if f_type (window_update 0 1) = kFrameTypeData then (window_update 0 1)\<lparr>f_payload := []\<rparr>
               else window_update 0 1), h') \<and>
    scripted (drop k [[0, 0, 4, 8, 0], [0, 0, 0, 0, 0], [0, 0, 1, 9]]) [] h' \<and>
    same_session (idle_session (map Some [[0, 0, 4, 8, 0], [0, 0, 0, 0, 0], [0, 0, 1, 9]])) h' \<and>
    recv_buffer h' @ concat (drop k [[0, 0, 4, 8, 0], [0, 0, 0, 0, 0], [0, 0, 1, 9]])
      = (if f_type (window_update 0 1) = kFrameTypeData then frame_bytes (window_update 0 1) @ [9] else [9])"
proof (rule read_frame_any_chunking)
  show "wf_frame (window_update 0 1)" by (simp add: wf_frame_def window_update_def)
  show "recv_buffer (idle_session (map Some [[0, 0, 4, 8, 0], [0, 0, 0, 0, 0], [0, 0, 1, 9]]))
      @ concat [[0, 0, 4, 8, 0], [0, 0, 0, 0, 0], [0, 0, 1, 9]] = frame_bytes (window_update 0 1) @ [9]"
    by (simp add: idle_session_sel frame_bytes_def window_update_def append_uint24_def append_uint32_def
        put_be24_def put_be32_def)
qed (simp_all add: scripted_def idle_session_sel window_update_def MAX_FRAME_SIZE_def)

end
