(* ===== verification/Http2_Posts.thy ===== *)
theory Http2_Posts
  imports Http2_Session
begin

text \<open>
  The properties of \<^verbatim>\<open>Http2Session\<close> as a whole: what a request looks like on the
  wire, what the response loop returns for a response that arrives one frame per chunk, what it
  does when several frames arrive in one chunk, and what the persistent stream answers.
\<close>

section \<open>A frame that arrives alone\<close>

lemma read_frame_chunk:
  assumes "has_callbacks h" "recv_buffer h = []" "inbox h = Some (frame_bytes f @ x) # r"
    and "wf_frame f" "length (f_payload f) \<le> MAX_FRAME_SIZE"
  shows "read_frame h = (if f_type f = kFrameTypeData
     then (Some (f\<lparr>f_payload := []\<rparr>), h\<lparr>recv_buffer := frame_bytes f @ x, inbox := r\<rparr>)
     else (Some f, h\<lparr>recv_buffer := x, inbox := r\<rparr>))"
proof -
  have nil: "frame_bytes f \<noteq> []"
    by (metis length_frame_bytes add_is_0 list.size(3) zero_neq_numeral)
  let ?g = "h\<lparr>recv_buffer := frame_bytes f @ x, inbox := r\<rparr>"
  have g1: "pull_bytes h = (True, ?g)"
    using assms(1-3) nil by (simp add: pull_bytes_def)
  have g2: "pull_header ?g = (True, ?g)" by (subst pull_header.simps) simp
  have g3: "pull_payload (9 + length (f_payload f)) ?g = (True, ?g)" by (subst pull_payload.simps) simp
  have hdr: "parse_header (frame_bytes f @ x) = f\<lparr>f_payload := []\<rparr>"
    using assms(4) by (rule parse_header_frame_bytes)
  have n: "unat (f_length f) = length (f_payload f)" using assms(4) by (simp add: wf_frame_def)
  have nb: "\<not> MAX_FRAME_SIZE * 2 < length (recv_buffer h)" using assms(2) by simp
  have small: "\<not> MAX_FRAME_SIZE < length (f_payload f)" using assms(5) by simp
  have swap: "h\<lparr>inbox := r, recv_buffer := x\<rparr> = h\<lparr>recv_buffer := x, inbox := r\<rparr>" by simp
  show ?thesis
    using small unfolding read_frame_def Let_def if_not_P [OF nb] g1 prod.case bool.case g2
    by (simp add: hdr n g3 swap)
qed

lemma read_frame_alone:
  assumes "has_callbacks h" "recv_buffer h = []" "inbox h = Some (frame_bytes f) # r"
    and "wf_frame f" "length (f_payload f) \<le> MAX_FRAME_SIZE"
  shows "read_frame h = (if f_type f = kFrameTypeData
     then (Some (f\<lparr>f_payload := []\<rparr>), h\<lparr>recv_buffer := frame_bytes f, inbox := r\<rparr>)
     else (Some f, h\<lparr>inbox := r\<rparr>))"
proof -
  have "h\<lparr>inbox := r, recv_buffer := []\<rparr> = h\<lparr>inbox := r\<rparr>"
    using assms(2) by (cases h) simp
  then show ?thesis
    using read_frame_chunk [of h f "[]" r] assms by simp
qed

section \<open>Response frames\<close>

definition response_headers :: "u32 \<Rightarrow> bytes \<Rightarrow> frame" where
  "response_headers sid block =
     \<lparr>f_length = word_of_nat (length block), f_type = kFrameTypeHeaders, f_flags = kFlagEndHeaders,
      f_stream_id = sid, f_payload = block\<rparr>"

definition response_data :: "u32 \<Rightarrow> u8 \<Rightarrow> string \<Rightarrow> frame" where
  "response_data sid flags p =
     \<lparr>f_length = word_of_nat (length p), f_type = kFrameTypeData, f_flags = flags,
      f_stream_id = sid, f_payload = bytes_of p\<rparr>"

lemma unat_frame_size: "n \<le> MAX_FRAME_SIZE \<Longrightarrow> unat (word_of_nat n :: u32) = n"
  by (simp add: unat_of_nat take_bit_nat_eq_self MAX_FRAME_SIZE_def)

lemma wf_response:
  "unat sid < 2 ^ 31 \<Longrightarrow> length block \<le> MAX_FRAME_SIZE \<Longrightarrow> wf_frame (response_headers sid block)"
  "unat sid < 2 ^ 31 \<Longrightarrow> length p \<le> MAX_FRAME_SIZE \<Longrightarrow> wf_frame (response_data sid fl p)"
  by (simp_all add: wf_frame_def response_headers_def response_data_def unat_frame_size)
     (simp_all add: MAX_FRAME_SIZE_def)

definition returned_window :: "u32 \<Rightarrow> nat \<Rightarrow> bytes list" where
  "returned_window sid n = [frame_bytes (window_update sid n), frame_bytes (window_update 0 n)]"

text \<open>One piece of a message that is not complete before it.\<close>

definition collecting :: "string \<Rightarrow> h2 \<Rightarrow> bool" where
  "collecting pre h \<longleftrightarrow> has_callbacks h \<and> recv_buffer h = [] \<and> \<not> filter_node_only h \<and> \<not> json_complete h
     \<and> filtered_json_buffer h = pre \<and> filtered_json_size h = length pre \<and> json_bytes_processed h = length pre
     \<and> (pre \<noteq> [] \<longrightarrow> parsing_json h)"

lemma buffer_json_fits:
  assumes "filtered_json_buffer h = pre" "filtered_json_size h = length pre" "\<not> json_complete h"
    and "p \<noteq> []" "length (pre @ p) < kFilteredBufferSize"
  shows "buffer_json p h = h\<lparr>filtered_json_buffer := pre @ p, filtered_json_size := length (pre @ p),
    json_complete := has_complete_json (pre @ p)\<rparr>"
proof -
  have n: "min (length p) (kFilteredBufferSize - length pre - 1) = length p" using assms(5) by simp
  have pos: "0 < length p" using assms(4) by simp
  show ?thesis
    unfolding buffer_json_def Let_def assms(2) n if_P [OF pos] using assms(1,3)
    by (cases h; cases "has_complete_json (pre @ p)") simp_all
qed

definition absorbed :: "string \<Rightarrow> string \<Rightarrow> h2 \<Rightarrow> h2" where
  "absorbed pre p h = h\<lparr>parsing_json := True, filtered_json_buffer := pre @ p,
     filtered_json_size := length (pre @ p), json_complete := has_complete_json (pre @ p),
     json_bytes_processed := length (pre @ p)\<rparr>"

lemma absorb_piece:
  assumes "collecting pre (h\<lparr>recv_buffer := []\<rparr>)" "p \<noteq> []" "length (pre @ p) < kFilteredBufferSize"
    and "pre = [] \<Longrightarrow> p ! 0 = CHR ''{''" "data_payload f h = p"
  shows "absorb_data f h = absorbed pre p h"
proof -
  have sp: "strip_prefix p h = (False, p)"
    using assms(1,4) by (auto simp: strip_prefix_def collecting_def)
  let ?h = "h\<lparr>parsing_json := True\<rparr>"
  have bj: "buffer_json p ?h = ?h\<lparr>filtered_json_buffer := pre @ p, filtered_json_size := length (pre @ p),
      json_complete := has_complete_json (pre @ p)\<rparr>"
    using assms(1-3) by (intro buffer_json_fits) (simp_all add: collecting_def)
  have on: "(if \<not> filter_node_only h \<and> \<not> False \<and> json_bytes_processed h = 0 then ?h else h) = ?h"
    using assms(1) by (cases h) (auto simp: collecting_def)
  have jb: "json_bytes_processed h = length pre" "\<not> filter_node_only ?h" "parsing_json ?h"
    using assms(1) by (simp_all add: collecting_def)
  show ?thesis
    unfolding absorb_data_def assms(5) sp Let_def prod.case if_False on
    using jb by (simp add: bj absorbed_def)
qed

lemma handle_data_piece:
  assumes "collecting pre h" "p \<noteq> []" "length p \<le> MAX_FRAME_SIZE" "length (pre @ p) < kFilteredBufferSize"
    and "pre = [] \<Longrightarrow> p ! 0 = CHR ''{''"
    and "fl AND kFlagEndStream \<noteq> 0 \<Longrightarrow> has_complete_json (pre @ p)"
  shows "\<exists>h'. handle_data sid cs ((response_data sid fl p)\<lparr>f_payload := []\<rparr>)
       (h\<lparr>recv_buffer := frame_bytes (response_data sid fl p)\<rparr>)
     = (if has_complete_json (pre @ p) then if cs then CloseStream else ReturnOpen else Continue, h')
   \<and> inbox h' = inbox h \<and> tx_log h' = tx_log h @ returned_window sid (length p)
   \<and> filtered_json_buffer h' = pre @ p \<and> filtered_json_size h' = length (pre @ p)
   \<and> (\<not> has_complete_json (pre @ p) \<longrightarrow> collecting (pre @ p) h')"
proof -
  let ?f = "(response_data sid fl p)\<lparr>f_payload := []\<rparr>"
  let ?g = "h\<lparr>recv_buffer := frame_bytes (response_data sid fl p)\<rparr>"
  have n: "unat (f_length ?f) = length p"
    using assms(3) by (simp add: response_data_def unat_frame_size)
  then have n': "unat (f_length (response_data sid fl p)) = length p" by simp
  have pay: "f_payload (response_data sid fl p) = bytes_of p" "f_flags ?f = fl" by (simp_all add: response_data_def)
  have "collecting pre (?g\<lparr>recv_buffer := []\<rparr>)" using assms(1) by (simp add: collecting_def)
  moreover have "data_payload ?f ?g = p" unfolding data_payload_def n by (simp add: pay)
  ultimately have ab: "absorb_data ?f ?g = absorbed pre p ?g"
    using assms(2,4,5) by (intro absorb_piece)
  have cb: "has_callbacks h" "\<not> filter_node_only h" using assms(1) by (simp_all add: collecting_def)
  let ?k = "send_window_updates sid (length p) (drop_frame ?f (absorbed pre p ?g))"
  have k: "inbox ?k = inbox h" "tx_log ?k = tx_log h @ returned_window sid (length p)"
    "filtered_json_buffer ?k = pre @ p" "filtered_json_size ?k = length (pre @ p)"
    "json_complete ?k = has_complete_json (pre @ p)" "\<not> filter_node_only ?k"
    "\<not> has_complete_json (pre @ p) \<Longrightarrow> collecting (pre @ p) ?k"
    using cb assms(2) by (simp_all add: send_window_updates_def send_frame_def send_cb_def drop_frame_def
        returned_window_def absorbed_def collecting_def n' pay)
  have h: "handle_data sid cs ?f ?g
     = (if has_complete_json (pre @ p) then if cs then CloseStream else ReturnOpen else Continue, ?k)"
    using k(5,6) assms(6) unfolding handle_data_def ab n Let_def pay(2) by auto
  show ?thesis
    using h k by blast
qed

lemma post_frame_data:
  assumes "f_type f = kFrameTypeData" "f_stream_id f = sid"
  shows "post_frame sid cs f st h = (case handle_data sid cs f h of (e, h) \<Rightarrow> (e, st, h))"
  using assms by (simp add: post_frame_def frame_consts)

lemma response_data_sel [simp]:
  "f_type (response_data sid fl p) = kFrameTypeData" "f_stream_id (response_data sid fl p) = sid"
  "f_flags (response_data sid fl p) = fl" "f_payload (response_data sid fl p) = bytes_of p"
  by (simp_all add: response_data_def)

lemma render_cut:
  assumes "wf_json (JObj fs)" "pre @ p @ s = render (JObj fs)" "s \<noteq> []"
  shows "\<not> has_complete_json (pre @ p)"
proof -
  have "pre @ p = take (length (pre @ p)) (render (JObj fs))" unfolding assms(2) [symmetric] by simp
  moreover have "length (pre @ p) < length (render (JObj fs))"
    unfolding assms(2) [symmetric] using assms(3) by (cases s) simp_all
  ultimately show ?thesis using object_incomplete [OF assms(1)] by metis
qed

lemma render_obj_hd: "pre @ p @ s = render (JObj fs) \<Longrightarrow> p \<noteq> [] \<Longrightarrow> pre = [] \<Longrightarrow> p ! 0 = CHR ''{''"
  by (cases p) auto

text \<open>One turn of the loop on a DATA frame that arrives alone.\<close>

lemma post_loop_piece:
  assumes "collecting pre h" "inbox h = Some (frame_bytes (response_data sid fl p)) # r" "unat sid < 2 ^ 31"
    and "p \<noteq> []" "length p \<le> MAX_FRAME_SIZE" "length (pre @ p) < kFilteredBufferSize"
    and "pre = [] \<Longrightarrow> p ! 0 = CHR ''{''" "fl AND kFlagEndStream \<noteq> 0 \<Longrightarrow> has_complete_json (pre @ p)"
  obtains g where "inbox g = r" "tx_log g = tx_log h @ returned_window sid (length p)"
    "has_complete_json (pre @ p) \<Longrightarrow> post_loop sid cs st h = (Some (pre @ p), st, g)"
    "\<not> has_complete_json (pre @ p) \<Longrightarrow> collecting (pre @ p) g \<and> post_loop sid cs st h = post_loop sid cs st g"
proof -
  let ?f = "response_data sid fl p" and ?h = "h\<lparr>inbox := r\<rparr>"
  have wf: "wf_frame ?f" using assms(3,5) wf_response(2) by blast
  have rd: "read_frame h = (Some (?f\<lparr>f_payload := []\<rparr>), ?h\<lparr>recv_buffer := frame_bytes ?f\<rparr>)"
    using assms(1,2,5) wf by (subst read_frame_alone [OF _ _ assms(2) wf]) (auto simp: collecting_def)
  have "collecting pre ?h" using assms(1) by (simp add: collecting_def)
  from handle_data_piece [OF this assms(4-8), where sid = sid and cs = cs] obtain g where
    g: "handle_data sid cs (?f\<lparr>f_payload := []\<rparr>) (?h\<lparr>recv_buffer := frame_bytes ?f\<rparr>)
        = (if has_complete_json (pre @ p) then if cs then CloseStream else ReturnOpen else Continue, g)"
      "inbox g = r" "tx_log g = tx_log h @ returned_window sid (length p)"
      "filtered_json_buffer g = pre @ p" "filtered_json_size g = length (pre @ p)"
      "\<not> has_complete_json (pre @ p) \<longrightarrow> collecting (pre @ p) g"
    by auto
  have pf: "post_frame sid cs (?f\<lparr>f_payload := []\<rparr>) st (?h\<lparr>recv_buffer := frame_bytes ?f\<rparr>)
      = (if has_complete_json (pre @ p) then if cs then CloseStream else ReturnOpen else Continue, st, g)"
    using g(1) by (subst post_frame_data) simp_all
  have resp: "response g = pre @ p" using g(4,5) by (simp add: response_def)
  show ?thesis
  proof (rule that)
    show "inbox g = r" "tx_log g = tx_log h @ returned_window sid (length p)" by (fact g)+
    show "post_loop sid cs st h = (Some (pre @ p), st, g)" if "has_complete_json (pre @ p)"
      using that pf resp by (subst post_loop.simps) (simp add: rd)
    show "collecting (pre @ p) g \<and> post_loop sid cs st h = post_loop sid cs st g" if "\<not> has_complete_json (pre @ p)"
      using that pf g(6) by (subst post_loop.simps) (simp add: rd)
  qed
qed

lemma post_loop_collects:
  assumes "collecting pre h" "unat sid < 2 ^ 31"
    and "inbox h = map (\<lambda>p. Some (frame_bytes (response_data sid 0 p))) ps
           @ Some (frame_bytes (response_data sid fl q)) # later"
    and "\<forall>p \<in> set (ps @ [q]). p \<noteq> [] \<and> length p \<le> MAX_FRAME_SIZE"
    and "pre @ concat ps @ q = render (JObj fs)" "wf_json (JObj fs)"
    and "100 \<le> length (render (JObj fs))" "length (render (JObj fs)) < kFilteredBufferSize"
  shows "\<exists>h'. post_loop sid cs st h = (Some (render (JObj fs)), st, h') \<and> inbox h' = later
    \<and> tx_log h' = tx_log h @ concat (map (\<lambda>p. returned_window sid (length p)) (ps @ [q]))"
  using assms(1,3,4,5)
proof (induction ps arbitrary: pre h)
  case Nil
  then have whole: "pre @ q = render (JObj fs)" by simp
  have fit: "q \<noteq> []" "length q \<le> MAX_FRAME_SIZE" "length (pre @ q) < kFilteredBufferSize"
    using Nil(3) assms(8) unfolding whole by simp_all
  have fin: "has_complete_json (pre @ q)"
    unfolding whole using assms(6,7) by (rule object_complete)
  have hd: "q ! 0 = CHR ''{''" if "pre = []"
    using render_obj_hd [of pre q "[]"] whole fit(1) that by auto
  have "inbox h = Some (frame_bytes (response_data sid fl q)) # later" using Nil(2) by simp
  from post_loop_piece [OF Nil(1) this assms(2) fit hd fin, of cs st] obtain g where
    "inbox g = later" "tx_log g = tx_log h @ returned_window sid (length q)"
    "post_loop sid cs st h = (Some (pre @ q), st, g)"
    using fin by metis
  then show ?case using whole by auto
next
  case (Cons p ps)
  then have whole: "pre @ p @ (concat ps @ q) = render (JObj fs)" by simp
  have len: "length (pre @ p) < kFilteredBufferSize"
    using assms(8) unfolding whole [symmetric] by simp
  have q: "q \<noteq> []" "p \<noteq> []" "length p \<le> MAX_FRAME_SIZE" using Cons(4) by simp_all
  have open': "\<not> has_complete_json (pre @ p)"
    using assms(6) whole by (rule render_cut) (simp add: q(1))
  have inb: "inbox h = Some (frame_bytes (response_data sid 0 p))
      # (map (\<lambda>p. Some (frame_bytes (response_data sid 0 p))) ps @ Some (frame_bytes (response_data sid fl q)) # later)"
    using Cons(3) by simp
  obtain g where g: "inbox g = map (\<lambda>p. Some (frame_bytes (response_data sid 0 p))) ps
        @ Some (frame_bytes (response_data sid fl q)) # later"
    "tx_log g = tx_log h @ returned_window sid (length p)"
    "\<not> has_complete_json (pre @ p) \<Longrightarrow> collecting (pre @ p) g \<and> post_loop sid cs st h = post_loop sid cs st g"
    by (rule post_loop_piece [OF Cons(2) inb assms(2) q(2,3) len render_obj_hd [OF whole q(2)]]) auto
  note g' = g(3) [OF open']
  have "\<forall>p \<in> set (ps @ [q]). p \<noteq> [] \<and> length p \<le> MAX_FRAME_SIZE" using Cons(4) by simp
  from Cons.IH [OF conjunct1 [OF g'] g(1) this] whole g(2) conjunct2 [OF g'] show ?case by simp
qed

section \<open>A whole request\<close>

text \<open>The turn of the loop that reads the response headers.\<close>

lemma post_loop_headers:
  assumes "has_callbacks h" "recv_buffer h = []"
    and "inbox h = Some (frame_bytes (response_headers sid block)) # r" "unat sid < 2 ^ 31"
    and "length block \<le> MAX_FRAME_SIZE" "decode_status_header block = int n" "0 < n"
  shows "post_loop sid cs st h = post_loop sid cs (word_of_nat n) (h\<lparr>inbox := r\<rparr>)"
proof -
  let ?f = "response_headers sid block"
  have sel: "f_type ?f = kFrameTypeHeaders" "f_stream_id ?f = sid" "f_payload ?f = block"
    "f_flags ?f = kFlagEndHeaders"
    by (simp_all add: response_headers_def)
  have rd: "read_frame h = (Some ?f, h\<lparr>inbox := r\<rparr>)"
    using assms(4,5) by (subst read_frame_alone [OF assms(1-3)]) (simp_all add: wf_response sel frame_consts)
  have "kFlagEndHeaders AND kFlagEndStream = 0" by (simp add: kFlagEndHeaders_def kFlagEndStream_def)
  then have pf: "post_frame sid cs ?f st (h\<lparr>inbox := r\<rparr>) = (Continue, word_of_nat n, h\<lparr>inbox := r\<rparr>)"
    using assms(6,7) by (simp add: post_frame_def sel Let_def)
  show ?thesis by (subst post_loop.simps) (simp only: rd pf prod.case option.case loop_exit.case)
qed

definition response_block :: "(string \<times> string) list \<Rightarrow> nat \<Rightarrow> bytes" where
  "response_block hs n = concat (map (\<lambda>(n, v). encode_literal_header [] n v) hs)
     @ encode_literal_header [] '':status'' (show_nat n)"

lemma post_json_reply:
  assumes "has_callbacks h" "recv_buffer h = []" "unat sid < 2 ^ 31"
    and "send_result h (length (tx_log h)) (request_bytes sid scheme authority path payload)"
    and "\<forall>e \<in> set hs. short_header e \<and> fst e \<noteq> '':status''" "0 < n" "n < 2 ^ 15"
    and "length (response_block hs n) \<le> MAX_FRAME_SIZE"
    and "inbox h = Some (frame_bytes (response_headers sid (response_block hs n)))
           # map (\<lambda>p. Some (frame_bytes (response_data sid 0 p))) ps
           @ Some (frame_bytes (response_data sid fl q)) # later"
    and "\<forall>p \<in> set (ps @ [q]). p \<noteq> [] \<and> length p \<le> MAX_FRAME_SIZE"
    and "concat ps @ q = render (JObj fs)" "wf_json (JObj fs)"
    and "100 \<le> length (render (JObj fs))" "length (render (JObj fs)) < kFilteredBufferSize"
  shows "\<exists>h'. post_json sid scheme authority path payload st cs False h = (Some (render (JObj fs)), word_of_nat n, h')
    \<and> inbox h' = later
    \<and> tx_log h' = tx_log h @ request_bytes sid scheme authority path payload
        # concat (map (\<lambda>p. returned_window sid (length p)) (ps @ [q]))"
proof -
  define g where "g = (snd (send_cb (request_bytes sid scheme authority path payload) (begin_json False h)))
      \<lparr>response_buffer_used := 0, response_buffer := []\<rparr>"
  have g: "has_callbacks g" "recv_buffer g = []" "inbox g = inbox h"
    "tx_log g = tx_log h @ [request_bytes sid scheme authority path payload]"
    using assms(1,2) by (simp_all add: g_def send_cb_def begin_json_def)
  have c: "collecting [] (g\<lparr>inbox := i\<rparr>)" for i
    using assms(1,2) by (simp add: g_def send_cb_def begin_json_def collecting_def)
  have "post_json sid scheme authority path payload st cs False h = post_loop sid cs 0 g"
    using assms(4) by (simp add: post_json_def send_cb_def begin_json_def g_def)
  also have "\<dots> = post_loop sid cs (word_of_nat n) (g\<lparr>inbox := map (\<lambda>p. Some (frame_bytes (response_data sid 0 p))) ps
           @ Some (frame_bytes (response_data sid fl q)) # later\<rparr>)"
  proof (rule post_loop_headers)
    show "decode_status_header (response_block hs n) = int n"
      using decode_status_behind [OF assms(5,7), of "[]"] by (simp add: response_block_def)
  qed (use assms(3,6,8,9) g in simp_all)
  finally have step: "post_json sid scheme authority path payload st cs False h = \<dots>" .
  have whole: "[] @ concat ps @ q = render (JObj fs)" using assms(11) by simp
  from post_loop_collects [OF c assms(3) _ assms(10) whole assms(12-14), where fl = fl and later = later
      and cs = cs and st = "word_of_nat n"]
  show ?thesis unfolding step using g(4) by auto
qed


definition sample_fields :: "(string \<times> json) list" where
  "sample_fields = [(''Name'', JStr (replicate 93 CHR ''a''))]"

lemma sample_fields_ok: "wf_json (JObj sample_fields)"
proof -
  have "raw_ok (replicate 93 CHR ''a'')" "raw_ok ''Name''"
    by (intro plain_raw_ok; simp add: plain_def list_all_iff plain_char_def)+
  then show ?thesis by (simp add: sample_fields_def)
qed

lemma length_sample_block:
  assumes "n < 2 ^ 15"
  shows "length (response_block [(''date'', ''now'')] n) \<le> MAX_FRAME_SIZE"
proof -
  have "length (show_nat n) \<le> 5" using assms by (intro length_show_nat) auto
  then show ?thesis
    by (simp add: response_block_def encode_literal_header_def encode_string_literal_def
        MAX_FRAME_SIZE_def del: show_nat.simps)
qed

lemma length_sample: "length (render (JObj sample_fields)) = 104"
  by (simp add: sample_fields_def)

lemma halves: "length s = 104 \<Longrightarrow> \<forall>p \<in> set ([take 60 s] @ [drop 60 s]). p \<noteq> [] \<and> length p \<le> MAX_FRAME_SIZE"
  by (cases s) (simp_all add: MAX_FRAME_SIZE_def)

lemmas sample_halves = halves [OF length_sample]


section \<open>Several frames in one chunk\<close>

lemma read_frame_silent: "inbox h = [] \<Longrightarrow> fst (read_frame h) = None"
  by (simp add: read_frame_def Let_def pull_bytes_def)

lemma post_loop_silent:
  assumes "inbox h = []" "response_buffer_used h = 0"
  shows "fst (post_loop sid cs st h) = None"
proof -
  obtain g where g: "read_frame h = (None, g)"
    using read_frame_silent [OF assms(1)] by (cases "read_frame h") simp
  then have "response_buffer_used g = 0"
    using read_frame_fail_same [OF g] assms(2) by (auto simp: same_session_def)
  with g show ?thesis by (subst post_loop.simps) simp
qed

lemma post_loop_coalesced:
  assumes "has_callbacks h" "recv_buffer h = []" "unat sid < 2 ^ 31" "length block \<le> MAX_FRAME_SIZE"
    and "inbox h = [Some (frame_bytes (response_headers sid block) @ x)]" "response_buffer_used h = 0"
  shows "fst (post_loop sid cs st h) = None"
proof -
  let ?f = "response_headers sid block" and ?g = "h\<lparr>recv_buffer := x, inbox := []\<rparr>"
  have sel: "f_type ?f = kFrameTypeHeaders" "f_stream_id ?f = sid" "f_payload ?f = block"
    "f_flags ?f = kFlagEndHeaders" "kFlagEndHeaders AND kFlagEndStream = 0"
    by (simp_all add: response_headers_def kFlagEndHeaders_def kFlagEndStream_def)
  have rd: "read_frame h = (Some ?f, ?g)"
    using assms(3,4) by (subst read_frame_chunk [OF assms(1,2,5)]) (simp_all add: wf_response sel frame_consts)
  obtain s where pf: "post_frame sid cs ?f st ?g = (Continue, s, ?g)"
    by (simp add: post_frame_def sel Let_def)
  have "post_loop sid cs st h = post_loop sid cs s ?g"
    by (subst post_loop.simps) (simp only: rd pf prod.case option.case loop_exit.case)
  then show ?thesis using post_loop_silent [of ?g] assms(6) by simp
qed

text \<open>
  The same response in one chunk is lost: \<^verbatim>\<open>read_frame_\<close> asks the transport for
  more bytes before it looks at those it already holds, so a HEADERS frame and a DATA frame that
  arrive together leave the second one unread in the buffer and the request fails.
\<close>

lemma coalesced_response_lost:
  assumes "has_callbacks h" "recv_buffer h = []" "unat sid < 2 ^ 31" "length block \<le> MAX_FRAME_SIZE"
    and "inbox h = [Some (frame_bytes (response_headers sid block) @ frame_bytes (response_data sid fl msg))]"
  shows "fst (post_json sid scheme authority path payload st cs filtering h) = None"
proof -
  let ?req = "request_bytes sid scheme authority path payload"
  show ?thesis
  proof (cases "send_result h (length (tx_log h)) ?req")
    case True
    then show ?thesis using assms
      by (simp add: post_json_def send_cb_def begin_json_def
          post_loop_coalesced [where block = block and x = "frame_bytes (response_data sid fl msg)"])
  qed (simp add: post_json_def send_cb_def begin_json_def)
qed

lemma coalesced_response_lost_witness:
  "fst (post_json 1 ''https'' ''c'' ''/k'' ''{}'' 0 True False
     (idle_session [Some (frame_bytes (response_headers 1 [0x88])
        @ frame_bytes (response_data 1 1 (render (JObj sample_fields))))])) = None"
  by (rule coalesced_response_lost) (simp_all add: idle_session_sel MAX_FRAME_SIZE_def)

section \<open>The response buffer\<close>

definition json_ok :: "h2 \<Rightarrow> bool" where
  "json_ok h \<longleftrightarrow> filtered_json_size h < kFilteredBufferSize
     \<and> length (filtered_json_buffer h) < kFilteredBufferSize \<and> jp_bounded kFilteredBufferSize (jparser h)"

lemma json_ok_update [simp]:
  "json_ok (h\<lparr>parsing_json := b\<rparr>) = json_ok h" "json_ok (h\<lparr>json_complete := b\<rparr>) = json_ok h"
  "json_ok (h\<lparr>json_bytes_processed := n\<rparr>) = json_ok h" "json_ok (h\<lparr>recv_buffer := r\<rparr>) = json_ok h"
  "json_ok (h\<lparr>inbox := i\<rparr>) = json_ok h" "json_ok (h\<lparr>tx_log := l\<rparr>) = json_ok h"
  "json_ok (h\<lparr>settings_ack_sent := b\<rparr>) = json_ok h"
  "json_ok (h\<lparr>response_buffer := rb\<rparr>) = json_ok h" "json_ok (h\<lparr>response_buffer_used := n\<rparr>) = json_ok h"
  by (simp_all add: json_ok_def)

lemma json_ok_same: "same_session h h' \<Longrightarrow> json_ok h \<Longrightarrow> json_ok h'"
  by (auto simp: same_session_def)

lemma json_ok_begin [inv_intros]: "json_ok (begin_json b h)"
  by (simp add: json_ok_def begin_json_def jp_bounded_reset kFilteredBufferSize_def)

lemma json_ok_sends [simp]:
  "json_ok (snd (send_cb d h)) = json_ok h" "json_ok (snd (send_frame f h)) = json_ok h"
  "json_ok (send_window_updates sid n h) = json_ok h" "json_ok (drop_frame f h) = json_ok h"
  by (simp_all add: send_cb_def send_frame_def send_window_updates_def drop_frame_def)

lemma json_ok_buffer [inv_intros]: "json_ok h \<Longrightarrow> json_ok (buffer_json js h)"
  by (auto simp: json_ok_def buffer_json_def Let_def)

lemma json_ok_filter [inv_intros]: "json_ok h \<Longrightarrow> json_ok (filter_json js h)"
proof -
  assume h: "json_ok h"
  obtain d p where p: "feed kFilteredBufferSize js (jparser h) = (d, p)" by fastforce
  have "jp_bounded kFilteredBufferSize p"
    using h jp_bounded_feed [of kFilteredBufferSize "jparser h" js] by (simp add: json_ok_def p)
  moreover from this have "length (jp_output p) < kFilteredBufferSize" "output_size p < kFilteredBufferSize"
    by (auto simp: jp_bounded_def output_size_def last_index_def kFilteredBufferSize_def)
  ultimately show ?thesis
    using h unfolding filter_json_def p by (simp add: Let_def json_ok_def)
qed

lemma json_ok_absorb [inv_intros]: "json_ok h \<Longrightarrow> json_ok (absorb_data f h)"
  by (auto simp: absorb_data_def Let_def intro!: inv_intros split: prod.splits)

lemma json_ok_settings: "handle_settings_frame f h = (e, h') \<Longrightarrow> json_ok h \<Longrightarrow> json_ok h'"
  by (auto simp: handle_settings_frame_def send_settings_ack_def send_frame_def send_cb_def
      split: if_splits prod.splits bool.splits)

lemma json_ok_post_frame: "post_frame sid cs f st h = (e, st', h') \<Longrightarrow> json_ok h \<Longrightarrow> json_ok h'"
  by (auto simp: post_frame_def handle_data_def Let_def intro!: inv_intros
      split: if_splits prod.splits dest: json_ok_settings)

lemma json_ok_next_frame: "next_frame sid f h = (e, h') \<Longrightarrow> json_ok h \<Longrightarrow> json_ok h'"
  by (auto simp: next_frame_def next_data_def Let_def intro!: inv_intros
      split: if_splits prod.splits dest: json_ok_settings)

definition small_response :: "string option \<Rightarrow> bool" where
  "small_response r = (case r of None \<Rightarrow> True | Some s \<Rightarrow> length s < kFilteredBufferSize)"

lemma small_response_ok: "json_ok h \<Longrightarrow> small_response (Some (response h))"
  by (simp add: small_response_def response_def json_ok_def min_def)

lemma post_loop_ok:
  "post_loop sid cs st h = (r, st', h') \<Longrightarrow> json_ok h \<Longrightarrow> json_ok h' \<and> small_response r"
proof (induction sid cs st h rule: post_loop.induct)
  case (1 sid cs st h)
  obtain fo g where rd: "read_frame h = (fo, g)" by fastforce
  show ?case
  proof (cases fo)
    case None
    with rd have "json_ok g" using read_frame_fail_same "1.prems"(2) json_ok_same by blast
    with "1.prems"(1) rd None show ?thesis
      by (subst (asm) post_loop.simps)
         (auto simp: small_response_ok small_response_def [of None] split: if_splits)
  next
    case (Some f)
    with rd have g: "json_ok g" using read_frame_same "1.prems"(2) json_ok_same by blast
    obtain e s k where pf: "post_frame sid cs f st g = (e, s, k)" by (cases "post_frame sid cs f st g") auto
    have k: "json_ok k" using json_ok_post_frame [OF pf g] .
    show ?thesis
      using "1.prems"(1) rd Some pf k "1.IH" [OF rd [symmetric] Some pf [symmetric] _ refl _ k]
      by (subst (asm) post_loop.simps)
         (auto simp: small_response_ok small_response_def [of None] split: loop_exit.splits)
  qed
qed

text \<open>
  C40. No write of a request leaves the 64 KB response buffer, in either mode and whatever the
  server sends: the text in it, its recorded size and the response handed out stay below the
  buffer's size, which keeps room for the terminator.
\<close>

theorem post_json_in_bounds:
  "case post_json sid scheme authority path payload st cs filtering h of
     (r, st', h') \<Rightarrow> json_ok h' \<and> small_response r"
proof -
  obtain b g where g: "send_cb (request_bytes sid scheme authority path payload) (begin_json filtering h) = (b, g)"
    by fastforce
  have "json_ok g" using json_ok_sends(1) json_ok_begin g by (metis snd_conv)
  then show ?thesis
    using post_loop_ok [of sid cs 0 "g\<lparr>response_buffer_used := 0, response_buffer := []\<rparr>"]
    by (auto simp: post_json_def g small_response_def [of None] split: prod.splits bool.splits)
qed

section \<open>The request on the wire\<close>

text \<open>
  What goes out for a request is exactly two frames on the caller's stream, and nothing else:
  a HEADERS frame whose block decodes to the seven headers in order (the content length in decimal
  among them) and a DATA frame with the payload.
\<close>

lemma request_decodes:
  assumes "unat sid < 2 ^ 31" "length payload < 2 ^ 24"
    and "length (header_block (request_headers scheme authority path payload)) < 2 ^ 24"
  shows "h2f.dec_many 2 (request_bytes sid scheme authority path payload @ r)
        = Some (request_frames sid scheme authority path payload, r) \<and>
    hpack_literals 7 (f_payload (hd (request_frames sid scheme authority path payload)))
        = Some (request_headers scheme authority path payload) \<and>
    string_of (f_payload (last (request_frames sid scheme authority path payload))) = payload"
proof (intro conjI)
  let ?fs = "request_frames sid scheme authority path payload"
  have u: "unat (word_of_nat n :: u32) = n" if "n < 2 ^ 24" for n
    using that by (simp add: unat_of_nat take_bit_nat_eq_self)
  have "list_all wf_frame ?fs"
    using assms u by (simp add: request_frames_def Let_def wf_frame_def)
  moreover have "length ?fs = 2" by (simp add: request_frames_def Let_def)
  ultimately show "h2f.dec_many 2 (request_bytes sid scheme authority path payload @ r) = Some (?fs, r)"
    unfolding request_bytes_def by (metis h2f.dec_many_enc)
  have "length (request_headers scheme authority path payload) = 7" by (simp add: request_headers_def)
  then show "hpack_literals 7 (f_payload (hd ?fs)) = Some (request_headers scheme authority path payload)"
    using header_fold_decodes [of "request_headers scheme authority path payload"]
    by (simp add: request_frames_def Let_def header_block_def)
  show "string_of (f_payload (last ?fs)) = payload" by (simp add: request_frames_def Let_def)
qed

lemma header_block_length:
  "length (header_block hs) = sum_list (map (\<lambda>(n, v). length (encode_literal_header [] n v)) hs)"
proof -
  have "length (fold (\<lambda>(n, v) b. encode_literal_header b n v) hs b)
      = length b + sum_list (map (\<lambda>(n, v). length (encode_literal_header [] n v)) hs)" for b
    by (induction hs arbitrary: b) (auto simp: encode_header_append)
  from this [of "[]"] show ?thesis by (simp add: header_block_def)
qed

lemma sample_header_length:
  "length (header_block (request_headers ''https'' ''c'' ''/k'' ''{}'')) < 2 ^ 24"
proof -
  have n: "length (show_nat (length ''{}'')) \<le> 1" by (rule length_show_nat) auto
  have "length v \<le> 1 \<Longrightarrow> length (encode_literal_header [] ''content-length'' v) \<le> 20" for v
    by (simp add: encode_literal_header_def encode_string_literal_def)
  from this [OF n] have "length (encode_literal_header [] ''content-length'' (show_nat (length ''{}''))) \<le> 20" .
  then show ?thesis
    by (simp add: header_block_length request_headers_def encode_literal_header_def
        encode_string_literal_def del: show_nat.simps)
qed

lemma request_decodes_witness:
  "h2f.dec_many 2 (request_bytes 1 ''https'' ''c'' ''/k'' ''{}'' @ [7])
      = Some (request_frames 1 ''https'' ''c'' ''/k'' ''{}'', [7]) \<and>
   hpack_literals 7 (f_payload (hd (request_frames 1 ''https'' ''c'' ''/k'' ''{}'')))
      = Some (request_headers ''https'' ''c'' ''/k'' ''{}'') \<and>
   string_of (f_payload (last (request_frames 1 ''https'' ''c'' ''/k'' ''{}''))) = ''{}''"
  by (rule request_decodes [OF _ _ sample_header_length]) simp_all

section \<open>The settings handshake\<close>

text \<open>
  The handshake accepts exactly a SETTINGS frame on stream 0 that is not an acknowledgement,
  and answers it with one acknowledgement; anything else that arrives first fails it.
\<close>

lemma settings_handshake:
  assumes "has_callbacks h" "recv_buffer h = []" "inbox h = Some (frame_bytes f) # r"
    and "wf_frame f" "length (f_payload f) \<le> MAX_FRAME_SIZE" "\<not> settings_exchanged h" "\<not> settings_ack_sent h"
    and "send_result h (length (tx_log h)) (frame_bytes settings_ack)"
  shows "fst (process_control_frames h) =
      (f_type f = kFrameTypeSettings \<and> f_stream_id f = 0 \<and> f_flags f AND kFlagAck = 0) \<and>
    tx_log (snd (process_control_frames h)) =
      (if fst (process_control_frames h) then tx_log h @ [frame_bytes settings_ack] else tx_log h)"
  using assms(1,6-8)
  by (simp add: process_control_frames_def read_frame_alone [OF assms(1-5)] handle_settings_def
      send_settings_ack_def send_frame_def send_cb_def frame_consts)

lemma settings_handshake_witness:
  "fst (process_control_frames (idle_session [Some (frame_bytes (window_update 0 1))])) =
      (f_type (window_update 0 1) = kFrameTypeSettings \<and> f_stream_id (window_update 0 1) = 0
        \<and> f_flags (window_update 0 1) AND kFlagAck = 0) \<and>
    tx_log (snd (process_control_frames (idle_session [Some (frame_bytes (window_update 0 1))]))) =
      (if fst (process_control_frames (idle_session [Some (frame_bytes (window_update 0 1))]))
       then tx_log (idle_session [Some (frame_bytes (window_update 0 1))]) @ [frame_bytes settings_ack]
       else tx_log (idle_session [Some (frame_bytes (window_update 0 1))]))"
  by (rule settings_handshake)
     (simp_all add: idle_session_def window_update_def wf_frame_def MAX_FRAME_SIZE_def)

section \<open>The persistent stream\<close>

definition at_most_an_ack :: "h2 \<Rightarrow> h2 \<Rightarrow> bool" where
  "at_most_an_ack h h' \<longleftrightarrow>
     tx_log h' = tx_log h \<or> (\<not> settings_ack_sent h \<and> tx_log h' = tx_log h @ [frame_bytes settings_ack])"

text \<open>The stronger relation one turn that goes on with the loop keeps.\<close>

definition acked :: "h2 \<Rightarrow> h2 \<Rightarrow> bool" where
  "acked h h' \<longleftrightarrow> (tx_log h' = tx_log h \<and> settings_ack_sent h' = settings_ack_sent h) \<or>
     (\<not> settings_ack_sent h \<and> settings_ack_sent h' \<and> tx_log h' = tx_log h @ [frame_bytes settings_ack])"

lemma acked_same: "same_session h h' \<Longrightarrow> acked h h'"
  by (auto simp: same_session_def acked_def)

lemma acked_trans: "acked h g \<Longrightarrow> at_most_an_ack g k \<Longrightarrow> at_most_an_ack h k"
  by (auto simp: acked_def at_most_an_ack_def)

lemma acked_weaken: "acked h g \<Longrightarrow> at_most_an_ack h g"
  by (auto simp: acked_def at_most_an_ack_def)

lemma tx_buffer_json [simp]:
  "tx_log (buffer_json js h) = tx_log h" "settings_ack_sent (buffer_json js h) = settings_ack_sent h"
  by (simp_all add: buffer_json_def Let_def)

lemma acked_next_data: "acked h (snd (next_data f h))"
  by (auto simp: next_data_def Let_def acked_def drop_frame_def split: prod.splits)

lemma ack_next_frame:
  "at_most_an_ack h (snd (next_frame sid f h)) \<and>
   (fst (next_frame sid f h) = Continue \<longrightarrow> acked h (snd (next_frame sid f h)))"
proof -
  have "acked h (drop_frame f h)" "acked h h" by (simp_all add: acked_def drop_frame_def)
  then show ?thesis
    using acked_next_data [of h f] acked_weaken
    by (auto simp: next_frame_def handle_settings_frame_def send_settings_ack_def send_frame_def send_cb_def
        acked_def at_most_an_ack_def split: bool.splits prod.splits if_splits)
qed

lemma ack_next_loop: "at_most_an_ack h (snd (next_loop sid start timeout clock h))"
proof (induction clock arbitrary: h)
  case Nil
  then show ?case by (simp add: at_most_an_ack_def)
next
  case (Cons now clock)
  obtain fo g where rd: "read_frame h = (fo, g)" by fastforce
  have g: "acked h g"
    using rd read_frame_same read_frame_fail_same acked_same by (cases fo) blast+
  show ?case
  proof (cases fo)
    case None
    with rd Cons.IH [of g] acked_trans [OF g] show ?thesis by (simp add: at_most_an_ack_def)
  next
    case (Some f)
    obtain e k where k: "next_frame sid f g = (e, k)" by fastforce
    with ack_next_frame [of g sid f] acked_trans [OF g] have
      "at_most_an_ack h k" "e = Continue \<Longrightarrow> acked g k" by auto
    with rd Some k Cons.IH [of k] acked_trans [OF g] acked_trans [of g k] show ?thesis
      by (cases e) (auto simp: at_most_an_ack_def [of h h])
  qed
qed

text \<open>
  Whatever arrives on the persistent stream and however long it is read,
  \<^verbatim>\<open>read_next_message\<close> sends at most one SETTINGS acknowledgement. In particular it
  never sends the WINDOW_UPDATE that \<^verbatim>\<open>post_json\<close> documents as needed, so the server's
  flow-control window on a long poll only shrinks.
\<close>

lemma read_next_message_gives_no_window:
  "tx_log (snd (read_next_message sid start timeout clock h)) = tx_log h \<or>
   tx_log (snd (read_next_message sid start timeout clock h)) = tx_log h @ [frame_bytes settings_ack]"
  using ack_next_loop [of "begin_json False h" sid start timeout clock]
  by (auto simp: read_next_message_def at_most_an_ack_def begin_json_def)

lemma get_le32_sum:
  "unat (get_le32 a b c d) = unat a + 2 ^ 8 * unat b + 2 ^ 16 * unat c + 2 ^ 24 * unat d"
proof -
  let ?a = "ucast a :: u32" and ?b = "push_bit 8 (ucast b) :: u32"
    and ?c = "push_bit 16 (ucast c) :: u32" and ?d = "push_bit 24 (ucast d) :: u32"
  have "?a + ?b = ?a OR ?b" "(?a OR ?b) + ?c = (?a OR ?b) OR ?c" "(?a OR ?b OR ?c) + ?d = (?a OR ?b OR ?c) OR ?d"
    by (rule disjunctive_add; auto simp: bit_simps dest: bit_imp_le_length)+
  then have "get_le32 a b c d = ?a + ?b + ?c + ?d"
    by (simp only: get_le32_def or.assoc)
  moreover have "take_bit 32 (unat x) = unat x" for x :: u8
    by (rule take_bit_nat_eq_self) (rule less_trans [OF unat_u8_less], simp)
  moreover have "(((x + y * 256 mod 4294967296) mod 4294967296 + z * 65536 mod 4294967296) mod 4294967296
      + t * 16777216 mod 4294967296) mod 4294967296 = x + 256 * y + 65536 * z + 16777216 * t"
    if "x < 256" "y < 256" "z < 256" "t < 256" for x y z t :: nat
    using that by simp
  note this [OF unat_u8_less unat_u8_less unat_u8_less unat_u8_less, of a b c d]
  ultimately show ?thesis
    by (simp add: push_bit_eq_mult unat_word_ariths unsigned_ucast_eq)
qed

lemma split_u16:
  assumes "n < 2 ^ 16"
  shows "put_be32 (word_of_nat n) = [0, 0, word_of_nat (n div 256), word_of_nat n]"
proof -
  have d: "drop_bit k n = n div 2 ^ k" for k by (rule drop_bit_eq_div)
  have lane: "(ucast (drop_bit k (word_of_nat n :: u32) AND 0xFF) :: u8) = word_of_nat (n div 2 ^ k)" for k
    using assms unfolding ff32_mask
    by (subst word_eq_iff_unsigned [where 'a = nat])
       (simp add: unsigned_ucast_eq unsigned_drop_bit_eq unat_of_nat take_bit_nat_eq_self d
         unsigned_take_bit_eq take_bit_eq_mod [of 8 "_ :: nat"] flip: take_bit_eq_mask)
  have "n div 2 ^ 24 = 0" "n div 2 ^ 16 = 0" using assms by simp_all
  then show ?thesis using lane [of 0] lane [of 8] lane [of 16] lane [of 24] by (simp add: put_be32_def)
qed

text \<open>
  A message sent with \<^verbatim>\<open>send_data_on_stream\<close> would never be taken for complete by
  this program's own reader: the sender writes the length big-endian, the reader takes it
  little-endian and waits for more.
\<close>

lemma own_stream_message_incomplete:
  assumes "0 < length data" and "length data < 2 ^ 16" and "data ! 0 = CHR ''{''"
  shows "\<not> has_complete_json (string_of (f_payload (stream_data_frame sid data)))"
proof -
  let ?n = "length data" and ?buf = "string_of (f_payload (stream_data_frame sid data))"
  have buf: "?buf = chr8 0 # chr8 0 # chr8 (word_of_nat (?n div 256)) # chr8 (word_of_nat ?n) # data"
    by (simp add: stream_data_frame_def Let_def split_u16 [OF assms(2)] string_of_def [of "_ # _"])
  have pre: "has_wire_prefix ?buf"
    using assms(1,3) unfolding buf by (simp add: has_wire_prefix_def Suc_le_eq)
  have hi: "unat (word_of_nat (?n div 256) :: u8) = ?n div 256" "unat (word_of_nat ?n :: u8) = ?n mod 256"
    using assms(2) by (simp_all add: unat_of_nat)
  have zero_char: "ord8 CHR 0x00 = 0" by (simp add: ord8_def)
  have w: "unat (wire_length ?buf) = 2 ^ 16 * (?n div 256) + 2 ^ 24 * (?n mod 256)"
    unfolding wire_length_def buf by (simp add: get_le32_sum hi zero_char)
  have "unat (4 + wire_length ?buf) = 4 + unat (wire_length ?buf)"
    using assms(2) by (simp add: unat_word_ariths w)
  moreover have "?n < 2 ^ 16 * (?n div 256) + 2 ^ 24 * (?n mod 256)"
  proof -
    have "0 < 256 * q + r \<Longrightarrow> 256 * q + r < 65536 * q + 16777216 * r" for q r :: nat by linarith
    from this [of "?n div 256" "?n mod 256"] show ?thesis using assms(1) by simp
  qed
  moreover have "length ?buf = 4 + ?n" by (simp add: buf)
  ultimately have "length ?buf < unat (4 + wire_length ?buf)" unfolding w by linarith
  with pre show ?thesis by (simp add: has_complete_json_def Let_def)
qed

lemma own_stream_message_incomplete_witness:
  "\<not> has_complete_json (string_of (f_payload (stream_data_frame 3 ''{}'')))"
  by (rule own_stream_message_incomplete) simp_all

end
