(* ===== verification/Map_Parser.thy ===== *)
theory Map_Parser
  imports Json_Stream Http2_Codec Ts_Interfaces "HOL-Library.Monad_Syntax"
begin

text \<open>
  \<^verbatim>\<open>map_response_parser.cpp\<close>: the network map read out of the JSON text without a tree,
  into fixed buffers. A pair of pointers \<^verbatim>\<open>[p, end)\<close> is the text between them, so a
  pointer advanced is a shorter text; a \<^verbatim>\<open>char[n]\<close> is a list of exactly \<open>n\<close> characters
  whose contents as a C string are \<open>c_str\<close> of it, so that what an earlier call left behind is
  part of the state.
\<close>

section \<open>Text helpers\<close>

fun find_str :: "string \<Rightarrow> string \<Rightarrow> string option" where
  "find_str needle [] = (if needle = [] then Some [] else None)"
| "find_str needle (c # s) =
     (if take (length needle) (c # s) = needle then Some (c # s) else find_str needle s)"

text \<open>
  From the character behind the opening quote; the value and the text behind the closing quote.
  \<open>prev\<close> is the character before the one looked at.
\<close>

fun closing_quote :: "char \<Rightarrow> string \<Rightarrow> (string \<times> string) option" where
  "closing_quote prev [] = None"
| "closing_quote prev (c # s) =
     (if c = dquote \<and> prev \<noteq> bslash then Some ([], s)
      else map_option (\<lambda>(v, r). (c # v, r)) (closing_quote c s))"

definition extract_quoted_value :: "string \<Rightarrow> (string \<times> string) option" where
  "extract_quoted_value s =
     (case dropWhile (\<lambda>c. c \<noteq> dquote) s of [] \<Rightarrow> None | q # r \<Rightarrow> closing_quote q r)"

definition extract_number :: "string \<Rightarrow> u64 option" where
  "extract_number s =
     (case dropWhile (\<lambda>c. c \<in> {CHR '' '', CHR 0x09, CHR 0x0A, CHR 0x0D}) s of
        [] \<Rightarrow> None
      | c # r \<Rightarrow> if \<not> is_digit c then None
          else Some (fold (\<lambda>d v. v * 10 + word_of_nat (of_char d - 48)) (takeWhile is_digit (c # r)) 0))"

text \<open>The matching-bracket scans: the text up to and including the bracket that brings \<open>d\<close> to 0, and the rest.\<close>

fun matching :: "char \<Rightarrow> char \<Rightarrow> nat \<Rightarrow> string \<Rightarrow> string \<times> string" where
  "matching op cl d [] = ([], [])"
| "matching op cl d (c # s) =
     (if d = 0 then ([], c # s)
      else map_prod (Cons c) id (matching op cl (if c = op then d + 1 else if c = cl then d - 1 else d) s))"

text \<open>\<^verbatim>\<open>safe_strncpy\<close> over the old contents of the buffer.\<close>

definition safe_strncpy :: "string \<Rightarrow> string \<Rightarrow> string" where
  "safe_strncpy dest src =
     (let n = (if length src < length dest - 1 then length src else length dest - 1)
      in take n src @ [CHR 0x00] @ drop (n + 1) dest)"

definition nibble :: "char \<Rightarrow> u8 option" where
  "nibble c =
     (let n = of_char c :: nat in
      if 48 \<le> n \<and> n \<le> 57 then Some (word_of_nat (n - 48))
      else if 97 \<le> n \<and> n \<le> 102 then Some (word_of_nat (n - 97 + 10))
      else if 65 \<le> n \<and> n \<le> 70 then Some (word_of_nat (n - 65 + 10))
      else None)"

text \<open>The loop writes as it goes: a bad digit leaves the bytes before it in the output.\<close>

fun hex_loop :: "nat \<Rightarrow> string \<Rightarrow> bytes \<Rightarrow> bool \<times> bytes" where
  "hex_loop i (h # l # s) out =
     (case nibble h of None \<Rightarrow> (False, out)
      | Some a \<Rightarrow> (case nibble l of None \<Rightarrow> (False, out)
          | Some b \<Rightarrow> hex_loop (i + 1) s (out[i := push_bit 4 a OR b])))"
| "hex_loop i s out = (True, out)"

definition hex_decode_to_bytes :: "string \<Rightarrow> bytes \<Rightarrow> nat \<times> bytes" where
  "hex_decode_to_bytes s out =
     (if length s mod 2 \<noteq> 0 then (0, out)
      else if length s div 2 > length out then (0, out)
      else case hex_loop 0 s out of (True, out) \<Rightarrow> (length s div 2, out) | (False, out) \<Rightarrow> (0, out))"

text \<open>
  \<^verbatim>\<open>sscanf\<close>'s \<^verbatim>\<open>%u\<close>: white space, an optional sign, digits; the value
  saturates at the largest unsigned and a minus sign negates it modulo \<open>2 ^ 32\<close>.
\<close>

definition scan_u :: "string \<Rightarrow> (u32 \<times> string) option" where
  "scan_u s =
     (let s = dropWhile c_isspace s;
          neg = (s \<noteq> [] \<and> hd s = CHR ''-'');
          s = (if s \<noteq> [] \<and> hd s \<in> {CHR ''-'', CHR ''+''} then tl s else s);
          ds = takeWhile is_digit s;
          v = word_of_nat (min (dec_val 0 ds) (2 ^ 32 - 1)) :: u32
      in if ds = [] then None else Some (if neg then - v else v, dropWhile is_digit s))"

definition scan_dot :: "string \<Rightarrow> string option" where
  "scan_dot s = (case s of [] \<Rightarrow> None | c # r \<Rightarrow> if c = CHR ''.'' then Some r else None)"

definition sscanf_ipv4 :: "string \<Rightarrow> (u32 \<times> u32 \<times> u32 \<times> u32) option" where
  "sscanf_ipv4 s =
     do { (a, s) \<leftarrow> scan_u s; s \<leftarrow> scan_dot s; (b, s) \<leftarrow> scan_u s; s \<leftarrow> scan_dot s;
          (c, s) \<leftarrow> scan_u s; s \<leftarrow> scan_dot s; (d, s) \<leftarrow> scan_u s; Some (a, b, c, d) }"

definition is_private_ipv4 :: "string \<Rightarrow> bool" where
  "is_private_ipv4 s =
     (if s = [] then False
      else case sscanf_ipv4 (c_str (take 15 s)) of None \<Rightarrow> False
        | Some (a, b, c, d) \<Rightarrow>
            a = 10 \<or> (a = 172 \<and> 16 \<le> b \<and> b \<le> 31) \<or> (a = 192 \<and> b = 168) \<or> a = 127
              \<or> (a = 169 \<and> b = 254))"

section \<open>The map\<close>

definition MAX_PEERS :: nat where "MAX_PEERS = 5"

record peer =
  disco_key :: bytes
  node_key :: bytes
  tailscale_ip :: string
  hostname :: string
  endpoint :: string
  valid :: bool

record static_map =
  node_id :: string
  node_ipv4 :: string
  peers :: "peer list"
  peer_count :: nat
  derp_host :: string
  derp_port :: u16
  stun_port :: u16

definition zero_chars :: "nat \<Rightarrow> string" where "zero_chars n = replicate n (CHR 0x00)"

definition empty_peer :: peer where
  "empty_peer = \<lparr>disco_key = replicate 32 0, node_key = replicate 32 0, tailscale_ip = zero_chars 16,
     hostname = zero_chars 64, endpoint = zero_chars 64, valid = False\<rparr>"

definition empty_map :: static_map where
  "empty_map = \<lparr>node_id = zero_chars 32, node_ipv4 = zero_chars 48, peers = replicate MAX_PEERS empty_peer,
     peer_count = 0, derp_host = zero_chars 128, derp_port = 0, stun_port = 0\<rparr>"

section \<open>The node's own entry\<close>

text \<open>\<^verbatim>\<open>find_str\<close> for a field name, and the text behind it.\<close>

definition field :: "string \<Rightarrow> string \<Rightarrow> string option" where
  "field name s = map_option (drop (length name)) (find_str name s)"

abbreviation key_of :: "string \<Rightarrow> string" where "key_of n \<equiv> dquote # n @ [dquote, CHR '':'']"

text \<open>The section that starts with \<open>name\<close> and runs to its matching bracket, name included.\<close>

definition section_of :: "string \<Rightarrow> char \<Rightarrow> char \<Rightarrow> string \<Rightarrow> string option" where
  "section_of name op cl s =
     map_option (\<lambda>t. name @ fst (matching op cl 1 (drop (length name) t))) (find_str name s)"

definition strip_cidr :: "string \<Rightarrow> string" where
  "strip_cidr s = takeWhile (\<lambda>c. c \<noteq> CHR ''/'') s"

definition has_colon :: "string \<Rightarrow> bool" where
  "has_colon s = (CHR '':'' \<in> set (strip_cidr s))"

lemma closing_quote_shorter: "closing_quote p s = Some (v, r) \<Longrightarrow> length r < length s"
  by (induction p s arbitrary: v rule: closing_quote.induct) (auto split: if_splits)

lemma quoted_value_shorter: "extract_quoted_value s = Some (v, r) \<Longrightarrow> length r < length s"
proof -
  assume e: "extract_quoted_value s = Some (v, r)"
  then obtain q t where t: "dropWhile (\<lambda>c. c \<noteq> dquote) s = q # t" "closing_quote q t = Some (v, r)"
    by (auto simp: extract_quoted_value_def split: list.splits)
  have "length (dropWhile (\<lambda>c. c \<noteq> dquote) s) \<le> length s" by (rule length_dropWhile_le)
  with closing_quote_shorter [OF t(2)] t(1) show ?thesis by simp
qed

text \<open>The first IPv4 address of the array.\<close>

function node_address :: "string \<Rightarrow> string option" where
  "node_address s =
     (if s = [] then None
      else case extract_quoted_value s of None \<Rightarrow> None
        | Some (v, r) \<Rightarrow> if \<not> has_colon v then Some (strip_cidr v)
            else if r = [] \<or> hd r = CHR '']'' then None else node_address r)"
  by pat_completeness auto
termination
  by (relation "measure length") (auto dest: quoted_value_shorter)

declare node_address.simps [simp del]

definition parse_node :: "string \<Rightarrow> static_map \<Rightarrow> static_map" where
  "parse_node json m =
     (case section_of (key_of ''Node'' @ ''{'') (CHR ''{'') (CHR ''}'') json of
        None \<Rightarrow> m
      | Some node \<Rightarrow>
          let m = (case field (key_of ''ID'') node of None \<Rightarrow> m
                   | Some t \<Rightarrow> (case extract_number t of None \<Rightarrow> m
                       | Some n \<Rightarrow> m\<lparr>node_id := safe_strncpy (node_id m) (show_nat (unat n))\<rparr>))
          in (case field (key_of ''Addresses'' @ ''['') node of None \<Rightarrow> m
              | Some t \<Rightarrow> (case node_address t of None \<Rightarrow> m
                  | Some ip \<Rightarrow> m\<lparr>node_ipv4 := safe_strncpy (node_ipv4 m) ip\<rparr>)))"

section \<open>The peers\<close>

text \<open>The value of a key field: the hexadecimal part, when the field is long enough to have one.\<close>

definition key_hex :: "string \<Rightarrow> string \<Rightarrow> string \<Rightarrow> string option" where
  "key_hex name pre obj =
     (case field (key_of name) obj of None \<Rightarrow> None
      | Some t \<Rightarrow> (case extract_quoted_value t of None \<Rightarrow> None
          | Some (v, _) \<Rightarrow>
              if length v > length pre
              then Some (if take (length pre) v = pre then drop (length pre) v else v)
              else None))"

definition parse_node_key :: "string \<Rightarrow> peer \<Rightarrow> peer" where
  "parse_node_key obj p =
     (let p = p\<lparr>valid := False\<rparr> in
      case key_hex ''Key'' ''nodekey:'' obj of None \<Rightarrow> p
      | Some hex \<Rightarrow> (case hex_decode_to_bytes hex (node_key p) of
          (n, k) \<Rightarrow> p\<lparr>node_key := k, valid := (n = 32)\<rparr>))"

definition parse_disco_key :: "string \<Rightarrow> peer \<Rightarrow> peer" where
  "parse_disco_key obj p =
     (case key_hex ''DiscoKey'' ''discokey:'' obj of None \<Rightarrow> p
      | Some hex \<Rightarrow> p\<lparr>disco_key := snd (hex_decode_to_bytes hex (disco_key p))\<rparr>)"

definition string_field :: "string \<Rightarrow> string \<Rightarrow> string option" where
  "string_field name obj =
     (case field (key_of name) obj of None \<Rightarrow> None
      | Some t \<Rightarrow> map_option fst (extract_quoted_value t))"

definition parse_hostname :: "string \<Rightarrow> peer \<Rightarrow> peer" where
  "parse_hostname obj p =
     (case (case string_field ''Name'' obj of None \<Rightarrow> string_field ''HostName'' obj | v \<Rightarrow> v) of
        None \<Rightarrow> p
      | Some h \<Rightarrow> p\<lparr>hostname := safe_strncpy (hostname p) h\<rparr>)"

definition peer_allowed :: "string list option \<Rightarrow> peer \<Rightarrow> bool" where
  "peer_allowed flt p =
     (case flt of None \<Rightarrow> True
      | Some ts \<Rightarrow> ts = [] \<or>
          list_ex (\<lambda>t. c_str (hostname p) = t \<or> take (length t) (c_str (hostname p)) = t) ts)"

text \<open>The address part of an endpoint, up to the port's colon.\<close>

definition endpoint_ip :: "string \<Rightarrow> string" where
  "endpoint_ip v =
     (case dropWhile (\<lambda>c. c \<notin> {CHR '']'', CHR '':''}) v of
        [] \<Rightarrow> v
      | c # _ \<Rightarrow> if c = CHR '']'' then v else takeWhile (\<lambda>c. c \<noteq> CHR '':'') v)"

text \<open>The endpoints: the first public IPv4 one, else the first private one.\<close>

function parse_endpoints :: "bool \<Rightarrow> string \<Rightarrow> string \<Rightarrow> string" where
  "parse_endpoints found_private s ep =
     (if s = [] then ep
      else case extract_quoted_value s of None \<Rightarrow> ep
        | Some (v, r) \<Rightarrow>
            if CHR ''['' \<notin> set v \<and> \<not> is_private_ipv4 (endpoint_ip v) then safe_strncpy ep v
            else
              let keep = (CHR ''['' \<notin> set v \<and> \<not> found_private);
                  ep = (if keep then safe_strncpy ep v else ep)
              in if r = [] \<or> hd r = CHR '']'' then ep
                 else parse_endpoints (found_private \<or> keep) r ep)"
  by pat_completeness auto
termination
  by (relation "measure (\<lambda>(f, s, e). length s)") (auto dest: quoted_value_shorter)

declare parse_endpoints.simps [simp del]

definition parse_endpoint :: "string \<Rightarrow> peer \<Rightarrow> peer" where
  "parse_endpoint obj p =
     (case field (key_of ''Endpoints'' @ ''['') obj of None \<Rightarrow> p
      | Some t \<Rightarrow> p\<lparr>endpoint := parse_endpoints False t (endpoint p)\<rparr>)"

definition parse_tailscale_ip :: "string \<Rightarrow> peer \<Rightarrow> peer" where
  "parse_tailscale_ip obj p =
     (case field (key_of ''Addresses'' @ ''['') obj of
        Some t \<Rightarrow> (case extract_quoted_value t of None \<Rightarrow> p
          | Some (v, _) \<Rightarrow> p\<lparr>tailscale_ip := safe_strncpy (tailscale_ip p) (strip_cidr v)\<rparr>)
      | None \<Rightarrow> (case field (key_of ''AllowedIPs'' @ ''['') obj of None \<Rightarrow> p
          | Some t \<Rightarrow> (case extract_quoted_value t of None \<Rightarrow> p
              | Some (v, _) \<Rightarrow>
                  if strip_cidr v = ''0.0.0.0'' \<or> strip_cidr v = ''::'' then p
                  else p\<lparr>tailscale_ip := safe_strncpy (tailscale_ip p) (strip_cidr v)\<rparr>)))"

text \<open>
  One peer object, written over the slot \<open>p\<close>: what the slot holds afterwards, and whether the
  peer is taken. A peer that is skipped leaves what was written so far in the slot.
\<close>

definition parse_peer :: "string list option \<Rightarrow> string \<Rightarrow> peer \<Rightarrow> bool \<times> peer" where
  "parse_peer flt obj p =
     (let p = parse_node_key obj p in
      if \<not> valid p then (False, p)
      else
        let p = parse_hostname obj (parse_disco_key obj p)
        in if \<not> peer_allowed flt p then (False, p)
           else (True, parse_tailscale_ip obj (parse_endpoint obj p)))"

text \<open>The next object of the array and the text behind it.\<close>

definition next_object :: "string \<Rightarrow> (string \<times> string) option" where
  "next_object s =
     (case dropWhile (\<lambda>c. c \<noteq> CHR ''{'') s of [] \<Rightarrow> None
      | c # t \<Rightarrow> Some (map_prod (Cons c) id (matching (CHR ''{'') (CHR ''}'') 1 t)))"

lemma length_matching: "length (snd (matching op cl d s)) \<le> length s"
  by (induction op cl d s rule: matching.induct) auto

lemma next_object_shorter: "next_object s = Some (obj, r) \<Longrightarrow> length r < length s"
proof -
  assume e: "next_object s = Some (obj, r)"
  then obtain c t where t: "dropWhile (\<lambda>c. c \<noteq> CHR ''{'') s = c # t"
    "r = snd (matching (CHR ''{'') (CHR ''}'') 1 t)"
    by (auto simp: next_object_def map_prod_def split: list.splits prod.splits)
  have "length (dropWhile (\<lambda>c. c \<noteq> CHR ''{'') s) \<le> length s" by (rule length_dropWhile_le)
  with length_matching [of "CHR ''{''" "CHR ''}''" 1 t] t show ?thesis by simp
qed

function parse_peers :: "string list option \<Rightarrow> string \<Rightarrow> static_map \<Rightarrow> static_map" where
  "parse_peers flt s m =
     (if s = [] \<or> peer_count m \<ge> MAX_PEERS then m
      else case next_object s of None \<Rightarrow> m
        | Some (obj, r) \<Rightarrow>
            (case parse_peer flt obj (peers m ! peer_count m) of (taken, p) \<Rightarrow>
               parse_peers flt r (m\<lparr>peers := (peers m)[peer_count m := p],
                 peer_count := (if taken then peer_count m + 1 else peer_count m)\<rparr>)))"
  by pat_completeness auto
termination
  by (relation "measure (\<lambda>(f, s, m). length s)") (auto dest: next_object_shorter)

declare parse_peers.simps [simp del]

definition parse_peer_section :: "string list option \<Rightarrow> string \<Rightarrow> static_map \<Rightarrow> static_map" where
  "parse_peer_section flt json m =
     (case section_of (key_of ''Peers'' @ ''['') (CHR ''['') (CHR '']'') json of None \<Rightarrow> m
      | Some sec \<Rightarrow> parse_peers flt (drop 9 sec) m)"

section \<open>The relay\<close>

definition parse_port :: "string \<Rightarrow> u16 \<Rightarrow> string \<Rightarrow> u16" where
  "parse_port name old obj =
     (case field (key_of name) obj of None \<Rightarrow> old
      | Some t \<Rightarrow> (case extract_number t of None \<Rightarrow> old | Some n \<Rightarrow> ucast n))"

definition default_port :: "u16 \<Rightarrow> u16 \<Rightarrow> static_map \<Rightarrow> u16" where
  "default_port dflt v m = (if v = 0 \<and> derp_host m ! 0 \<noteq> CHR 0x00 then dflt else v)"

definition parse_derp_node :: "string \<Rightarrow> static_map \<Rightarrow> static_map" where
  "parse_derp_node obj m =
     (let m = (case string_field ''HostName'' obj of None \<Rightarrow> m
               | Some h \<Rightarrow> if h = [] then m else m\<lparr>derp_host := safe_strncpy (derp_host m) h\<rparr>);
          m = m\<lparr>derp_port := default_port 443 (parse_port ''DERPPort'' (derp_port m) obj) m\<rparr>
      in m\<lparr>stun_port := default_port 3478 (parse_port ''STUNPort'' (stun_port m) obj) m\<rparr>)"

definition parse_derp :: "string \<Rightarrow> static_map \<Rightarrow> static_map" where
  "parse_derp json m =
     (case section_of (key_of ''DERPMap'' @ ''{'') (CHR ''{'') (CHR ''}'') json of None \<Rightarrow> m
      | Some dm \<Rightarrow> (case find_str (key_of ''Regions'' @ ''{'') dm of None \<Rightarrow> m
          | Some t \<Rightarrow> (case field (key_of ''Nodes'' @ ''['') t of None \<Rightarrow> m
              | Some u \<Rightarrow> (case next_object u of None \<Rightarrow> m
                  | Some (obj, _) \<Rightarrow> parse_derp_node obj m))))"

section \<open>The whole parse\<close>

definition parse_map_static :: "string \<Rightarrow> string list option \<Rightarrow> static_map \<Rightarrow> bool \<times> static_map" where
  "parse_map_static json flt m =
     (if json = [] then (False, m)
      else
        let m = parse_node json (m\<lparr>peer_count := 0, node_id := zero_chars 32, node_ipv4 := zero_chars 48\<rparr>);
            m = parse_peer_section flt json m;
            m = parse_derp json m
        in (node_ipv4 m ! 0 \<noteq> CHR 0x00 \<or> peer_count m > 0, m))"

section \<open>Searching\<close>

lemma take_eq_iff: "take (length n) s = n \<longleftrightarrow> (\<exists>r. s = n @ r)"
  by (metis append_eq_conv_conj append_take_drop_id)

text \<open>
  \<^verbatim>\<open>find_str\<close> returns the first occurrence: the text found starts with the needle,
  and no earlier position does; it fails only when there is none.
\<close>

lemma find_str_first:
  "case find_str n s of
     None \<Rightarrow> \<forall>k r. drop k s \<noteq> n @ r
   | Some t \<Rightarrow> \<exists>pre r. s = pre @ t \<and> t = n @ r \<and> list_all (\<lambda>k. take (length n) (drop k s) \<noteq> n) [0..<length pre]"
proof (induction n s rule: find_str.induct)
  case (1 n)
  then show ?case by (auto intro: exI [of _ "[]"])
next
  case (2 n c s)
  show ?case
  proof (cases "take (length n) (c # s) = n")
    case True
    then show ?thesis by (auto simp: take_eq_iff intro!: exI [of _ "[]"])
  next
    case False
    show ?thesis
    proof (cases "find_str n s")
      case None
      have "drop k (c # s) \<noteq> n @ r" for k r
        using False None 2 by (cases k) (auto simp: take_eq_iff)
      with False None show ?thesis by simp
    next
      case (Some t)
      then obtain pre r where p: "s = pre @ t" "t = n @ r"
        "list_all (\<lambda>k. take (length n) (drop k s) \<noteq> n) [0..<length pre]"
        using 2 False by auto
      have "[0..<length (c # pre)] = 0 # map Suc [0..<length pre]" by (simp add: map_Suc_upt upt_conv_Cons del: upt_Suc)
      with p False have "list_all (\<lambda>k. take (length n) (drop k (c # s)) \<noteq> n) [0..<length (c # pre)]"
        by (simp only: list.pred_inject list.pred_map drop_0 o_def drop_Suc_Cons) simp
      with p False Some show ?thesis by (auto intro!: exI [of _ "c # pre"])
    qed
  qed
qed

section \<open>Hexadecimal keys\<close>

definition hex_digit :: "nat \<Rightarrow> char" where
  "hex_digit n = (if n < 10 then char_of (48 + n) else char_of (87 + n))"

definition hex_of :: "bytes \<Rightarrow> string" where
  "hex_of bs = concat (map (\<lambda>b. [hex_digit (unat b div 16), hex_digit (unat b mod 16)]) bs)"

lemma length_hex_of [simp]: "length (hex_of bs) = 2 * length bs"
  unfolding hex_of_def by (induction bs) auto

lemma nibble_hex_digit: "n < 16 \<Longrightarrow> nibble (hex_digit n) = Some (word_of_nat n)"
  by (auto simp: nibble_def hex_digit_def Let_def)

lemma high_nibble: "unat (b :: u8) div 16 < 16"
  using unat_u8_less [of b] by (simp add: less_mult_imp_div_less)

lemma join_nibbles: "push_bit 4 (word_of_nat (unat b div 16)) OR word_of_nat (unat b mod 16) = (b :: u8)"
proof -
  have hi: "(word_of_nat (unat b div 16) :: u8) = drop_bit 4 b"
    using less_trans [OF high_nibble [of b], of 256]
    by (simp add: drop_bit_eq_div word_eq_iff_unsigned [where 'a = nat] unat_of_nat unat_div)
  have lo: "(word_of_nat (unat b mod 16) :: u8) = take_bit 4 b"
    by (simp add: take_bit_eq_mod word_eq_iff_unsigned [where 'a = nat] unat_of_nat unat_mod)
  show ?thesis
    unfolding hi lo by (rule bit_word_eqI) (auto simp: bit_simps)
qed

lemma hex_loop_of:
  "i + length bs = length out \<Longrightarrow> hex_loop i (hex_of bs) out = (True, take i out @ bs)"
proof (induction bs arbitrary: i out)
  case Nil
  then show ?case by (simp add: hex_of_def)
next
  case (Cons b bs)
  have step: "hex_loop i (hex_of (b # bs)) out = hex_loop (i + 1) (hex_of bs) (out[i := b])"
    by (simp add: hex_of_def nibble_hex_digit high_nibble join_nibbles)
  have "take (i + 1) (out[i := b]) = take i out @ [b]"
    using Cons.prems by (simp add: take_Suc_conv_app_nth)
  with Cons show ?case unfolding step by simp
qed

text \<open>A key printed in lower-case hexadecimal is decoded into exactly its bytes, whatever the buffer held.\<close>

lemma hex_decode_encode:
  assumes "length bs = length out"
  shows "hex_decode_to_bytes (hex_of bs) out = (length bs, bs)"
  using assms by (simp add: hex_decode_to_bytes_def hex_loop_of)

lemma hex_decode_encode_witness:
  "hex_decode_to_bytes (hex_of [0x12, 0xAB]) [0, 0] = (length [0x12, 0xAB :: u8], [0x12, 0xAB])"
  by (rule hex_decode_encode) simp

section \<open>The buffers\<close>

text \<open>A C buffer of size \<open>n\<close> that holds a string.\<close>

definition c_buffer :: "nat \<Rightarrow> string \<Rightarrow> bool" where
  "c_buffer n s \<longleftrightarrow> length s = n \<and> CHR 0x00 \<in> set s"

definition peer_ok :: "peer \<Rightarrow> bool" where
  "peer_ok p \<longleftrightarrow> length (disco_key p) = 32 \<and> length (node_key p) = 32 \<and> c_buffer 16 (tailscale_ip p)
     \<and> c_buffer 64 (hostname p) \<and> c_buffer 64 (endpoint p)"

definition map_ok :: "static_map \<Rightarrow> bool" where
  "map_ok m \<longleftrightarrow> c_buffer 32 (node_id m) \<and> c_buffer 48 (node_ipv4 m) \<and> c_buffer 128 (derp_host m)
     \<and> length (peers m) = MAX_PEERS \<and> list_all peer_ok (peers m) \<and> peer_count m \<le> MAX_PEERS
     \<and> list_all valid (take (peer_count m) (peers m))"

lemma safe_strncpy_buffer [inv_intros]: "c_buffer n d \<Longrightarrow> c_buffer n (safe_strncpy d s)"
  by (cases d) (auto simp: c_buffer_def safe_strncpy_def Let_def)

lemma length_hex_loop [simp]: "length (snd (hex_loop i s out)) = length out"
  by (induction i s out rule: hex_loop.induct) (auto split: option.splits)

lemma length_hex_decode [simp]: "length (snd (hex_decode_to_bytes s out)) = length out"
  using length_hex_loop [of 0 s out]
  by (cases "hex_loop 0 s out") (auto simp: hex_decode_to_bytes_def split: bool.splits)

lemma hex_decode_length: "hex_decode_to_bytes s out = (n, k) \<Longrightarrow> length k = length out"
  using length_hex_decode [of s out] by simp

lemma parse_endpoints_buffer [inv_intros]: "c_buffer n ep \<Longrightarrow> c_buffer n (parse_endpoints b s ep)"
proof (induction b s ep rule: parse_endpoints.induct)
  case (1 b s ep)
  show ?case
  proof (cases "s = [] \<or> extract_quoted_value s = None")
    case True
    with "1.prems" show ?thesis by (subst parse_endpoints.simps) auto
  next
    case False
    then obtain v r where v: "s \<noteq> []" "extract_quoted_value s = Some (v, r)" by auto
    let ?ep = "if CHR ''['' \<notin> set v \<and> \<not> b then safe_strncpy ep v else ep"
    have "c_buffer n ?ep" using "1.prems" by (simp add: inv_intros)
    note IH = "1.IH" [OF v refl _ refl refl _ this]
    let ?pub = "CHR ''['' \<notin> set v \<and> \<not> is_private_ipv4 (endpoint_ip v)"
    have "parse_endpoints b s ep = (if ?pub then safe_strncpy ep v
        else if r = [] \<or> hd r = CHR '']'' then ?ep
        else parse_endpoints (b \<or> CHR ''['' \<notin> set v \<and> \<not> b) r ?ep)"
      by (subst parse_endpoints.simps) (simp only: v option.case prod.case Let_def if_False simp_thms)
    moreover have "c_buffer n (safe_strncpy ep v)" using "1.prems" by (rule safe_strncpy_buffer)
    ultimately show ?thesis using IH \<open>c_buffer n ?ep\<close> by (cases ?pub; cases "r = [] \<or> hd r = CHR '']''") simp_all
  qed
qed

lemma peer_ok_steps [inv_intros]:
  "peer_ok p \<Longrightarrow> peer_ok (parse_node_key obj p)" "peer_ok p \<Longrightarrow> peer_ok (parse_disco_key obj p)"
  "peer_ok p \<Longrightarrow> peer_ok (parse_hostname obj p)" "peer_ok p \<Longrightarrow> peer_ok (parse_endpoint obj p)"
  "peer_ok p \<Longrightarrow> peer_ok (parse_tailscale_ip obj p)"
  by (auto simp: peer_ok_def parse_node_key_def parse_disco_key_def parse_hostname_def parse_endpoint_def
      parse_tailscale_ip_def Let_def intro!: inv_intros split: option.splits prod.splits dest: hex_decode_length)

lemma peer_ok_parse: "peer_ok p \<Longrightarrow> peer_ok (snd (parse_peer flt obj p))"
  by (auto simp: parse_peer_def Let_def intro!: inv_intros)

text \<open>A property the accepted peers get from \<open>parse_peer\<close> holds of all counted slots afterwards.\<close>

lemma parse_peers_accepted:
  "\<forall>obj p q. parse_peer flt obj p = (True, q) \<longrightarrow> Q q \<Longrightarrow> length (peers m) = MAX_PEERS \<Longrightarrow> list_all Q (take (peer_count m) (peers m)) \<Longrightarrow>
    list_all Q (take (peer_count (parse_peers flt s m)) (peers (parse_peers flt s m)))"
proof (induction flt s m rule: parse_peers.induct)
  case (1 flt s m)
  show ?case
  proof (cases "s = [] \<or> peer_count m \<ge> MAX_PEERS \<or> next_object s = None")
    case True
    with "1.prems" show ?thesis by (subst (1 2) parse_peers.simps) auto
  next
    case False
    then obtain obj r where o: "next_object s = Some (obj, r)" and c: "\<not> (s = [] \<or> peer_count m \<ge> MAX_PEERS)" by auto
    obtain taken q where q: "parse_peer flt obj (peers m ! peer_count m) = (taken, q)" by fastforce
    let ?g = "m\<lparr>peers := (peers m)[peer_count m := q], peer_count := (if taken then peer_count m + 1 else peer_count m)\<rparr>"
    have "list_all Q (take (peer_count ?g) (peers ?g))"
    proof (cases taken)
      case True
      with q have "Q q" using "1.prems"(1) by auto
      moreover have "peer_count m < length (peers m)" using c "1.prems" by simp
      ultimately show ?thesis using "1.prems"(3) True by (simp add: take_Suc_conv_app_nth)
    next
      case False
      then show ?thesis using "1.prems" by simp
    qed
    with "1.IH" [OF c o refl q [symmetric]] "1.prems" o c q show ?thesis
      by (subst (1 2) parse_peers.simps) simp
  qed
qed

lemma parse_peers_keeps:
  assumes "\<And>m p. I m \<Longrightarrow> I (m\<lparr>peers := p\<rparr>)" "\<And>m n. I m \<Longrightarrow> I (m\<lparr>peer_count := n\<rparr>)"
  shows "I m \<Longrightarrow> I (parse_peers flt s m)"
proof (induction flt s m rule: parse_peers.induct)
  case (1 flt s m)
  then show ?case
    using assms by (subst parse_peers.simps) (auto split: option.splits prod.splits)
qed

lemma parse_peers_slots:
  "length (peers m) = MAX_PEERS \<Longrightarrow> list_all peer_ok (peers m) \<Longrightarrow> peer_count m \<le> MAX_PEERS \<Longrightarrow>
   length (peers (parse_peers flt s m)) = MAX_PEERS \<and> list_all peer_ok (peers (parse_peers flt s m))
     \<and> peer_count (parse_peers flt s m) \<le> MAX_PEERS"
proof (induction flt s m rule: parse_peers.induct)
  case (1 flt s m)
  show ?case
  proof (cases "s = [] \<or> peer_count m \<ge> MAX_PEERS \<or> next_object s = None")
    case True
    with "1.prems" show ?thesis by (subst (1 2 3) parse_peers.simps) auto
  next
    case False
    then obtain obj r where o: "next_object s = Some (obj, r)" and c: "\<not> (s = [] \<or> peer_count m \<ge> MAX_PEERS)" by auto
    obtain taken q where q: "parse_peer flt obj (peers m ! peer_count m) = (taken, q)" by fastforce
    let ?g = "m\<lparr>peers := (peers m)[peer_count m := q], peer_count := (if taken then peer_count m + 1 else peer_count m)\<rparr>"
    have "peer_ok (peers m ! peer_count m)" using c "1.prems" by (simp add: list_all_length)
    then have "peer_ok q" using peer_ok_parse [of "peers m ! peer_count m" flt obj] by (simp add: q)
    then have "list_all peer_ok (peers ?g)"
      using "1.prems"(2) by (auto simp: list_all_iff dest!: set_update_subset_insert [THEN subsetD])
    moreover have "length (peers ?g) = MAX_PEERS" "peer_count ?g \<le> MAX_PEERS" using "1.prems" c by auto
    ultimately show ?thesis
      using "1.IH" [OF c o refl q [symmetric]] o c q by (subst (1 2 3) parse_peers.simps) simp
  qed
qed

lemma parse_node_fields [simp]:
  "peers (parse_node s m) = peers m" "peer_count (parse_node s m) = peer_count m"
  "derp_host (parse_node s m) = derp_host m"
  by (simp_all add: parse_node_def Let_def split: option.splits)

lemma parse_derp_fields [simp]:
  "peers (parse_derp s m) = peers m" "peer_count (parse_derp s m) = peer_count m"
  "node_id (parse_derp s m) = node_id m" "node_ipv4 (parse_derp s m) = node_ipv4 m"
  by (simp_all add: parse_derp_def parse_derp_node_def Let_def split: option.splits prod.splits)

lemma parse_node_buffers:
  "c_buffer 32 (node_id m) \<Longrightarrow> c_buffer 32 (node_id (parse_node s m))"
  "c_buffer 48 (node_ipv4 m) \<Longrightarrow> c_buffer 48 (node_ipv4 (parse_node s m))"
  by (auto simp: parse_node_def Let_def intro!: inv_intros split: option.splits)

lemma parse_derp_buffer: "c_buffer 128 (derp_host m) \<Longrightarrow> c_buffer 128 (derp_host (parse_derp s m))"
  by (auto simp: parse_derp_def parse_derp_node_def Let_def intro!: inv_intros split: option.splits prod.splits)

lemma zero_chars_buffer: "0 < n \<Longrightarrow> c_buffer n (zero_chars n)"
  by (simp add: c_buffer_def zero_chars_def)

lemma parse_peer_frame [simp]:
  "valid (parse_disco_key obj p) = valid p" "valid (parse_hostname obj p) = valid p"
  "valid (parse_endpoint obj p) = valid p" "valid (parse_tailscale_ip obj p) = valid p"
  "hostname (parse_disco_key obj p) = hostname p" "hostname (parse_node_key obj p) = hostname p"
  "hostname (parse_endpoint obj p) = hostname p" "hostname (parse_tailscale_ip obj p) = hostname p"
  "disco_key (parse_node_key obj p) = disco_key p" "disco_key (parse_hostname obj p) = disco_key p"
  "disco_key (parse_endpoint obj p) = disco_key p" "disco_key (parse_tailscale_ip obj p) = disco_key p"
  by (simp_all add: parse_disco_key_def parse_hostname_def parse_endpoint_def parse_tailscale_ip_def
      parse_node_key_def Let_def split: option.splits prod.splits)

lemma parse_peer_valid: "parse_peer flt obj p = (True, q) \<Longrightarrow> valid q"
  by (auto simp: parse_peer_def Let_def split: if_splits)

lemma parse_peers_fields [simp]:
  "node_id (parse_peers flt s m) = node_id m" "node_ipv4 (parse_peers flt s m) = node_ipv4 m"
  "derp_host (parse_peers flt s m) = derp_host m"
  using parse_peers_keeps [where I = "\<lambda>x. node_id x = node_id m" and m = m]
    parse_peers_keeps [where I = "\<lambda>x. node_ipv4 x = node_ipv4 m" and m = m]
    parse_peers_keeps [where I = "\<lambda>x. derp_host x = derp_host m" and m = m]
  by simp_all

lemma parse_peer_section_fields [simp]:
  "node_id (parse_peer_section flt s m) = node_id m" "node_ipv4 (parse_peer_section flt s m) = node_ipv4 m"
  "derp_host (parse_peer_section flt s m) = derp_host m"
  by (simp_all add: parse_peer_section_def split: option.splits)

text \<open>What the peer section leaves in the slots, started with none counted.\<close>

lemma parse_peer_section_slots:
  assumes "length (peers m) = MAX_PEERS" "list_all peer_ok (peers m)" "peer_count m = 0"
  shows "length (peers (parse_peer_section flt s m)) = MAX_PEERS"
    and "list_all peer_ok (peers (parse_peer_section flt s m))"
    and "peer_count (parse_peer_section flt s m) \<le> MAX_PEERS"
  using assms parse_peers_slots [of m flt] by (auto simp: parse_peer_section_def split: option.splits)

lemma parse_peer_section_accepted:
  assumes "length (peers m) = MAX_PEERS" "peer_count m = 0"
    and "\<forall>obj p q. parse_peer flt obj p = (True, q) \<longrightarrow> Q q"
  shows "list_all Q (take (peer_count (parse_peer_section flt s m)) (peers (parse_peer_section flt s m)))"
  using assms parse_peers_accepted [of flt Q m] by (auto simp: parse_peer_section_def split: option.splits)

definition clear_map :: "static_map \<Rightarrow> static_map" where
  "clear_map m = m\<lparr>peer_count := 0, node_id := zero_chars 32, node_ipv4 := zero_chars 48\<rparr>"

lemma map_ok_parse: "map_ok m \<Longrightarrow> map_ok (snd (parse_map_static json flt m))"
proof -
  assume m: "map_ok m"
  let ?m1 = "parse_node json (clear_map m)"
  let ?m2 = "parse_peer_section flt json ?m1"
  have b: "c_buffer 32 (node_id ?m1)" "c_buffer 48 (node_ipv4 ?m1)" "c_buffer 128 (derp_host ?m1)"
    using m by (auto simp: clear_map_def map_ok_def zero_chars_buffer intro!: parse_node_buffers)
  have p: "length (peers ?m1) = MAX_PEERS" "list_all peer_ok (peers ?m1)" "peer_count ?m1 = 0"
    using m by (simp_all add: clear_map_def map_ok_def)
  have "map_ok (parse_derp json ?m2)"
    using b parse_derp_buffer [of ?m2 json] parse_peer_section_slots [OF p, of flt json]
      parse_peer_section_accepted [OF p(1,3), of flt valid json] parse_peer_valid
    by (simp add: map_ok_def)
  then show ?thesis
    using m by (simp add: parse_map_static_def Let_def flip: clear_map_def)
qed

lemma map_ok_empty: "map_ok empty_map"
  by (simp add: map_ok_def empty_map_def zero_chars_buffer peer_ok_def empty_peer_def list_all_iff)

interpretation mp: machine "\<lambda>(json, flt) m. snd (parse_map_static json flt m)" map_ok
  by unfold_locales (auto intro: map_ok_parse)


section \<open>Private addresses\<close>

definition dotted :: "nat \<Rightarrow> nat \<Rightarrow> nat \<Rightarrow> nat \<Rightarrow> string" where
  "dotted a b c d = show_nat a @ ''.'' @ show_nat b @ ''.'' @ show_nat c @ ''.'' @ show_nat d"

lemma scan_show:
  assumes "n < 2 ^ 32" "t = [] \<or> \<not> is_digit (hd t)"
  shows "scan_u (show_nat n @ t) = Some (word_of_nat n, t)"
proof -
  obtain c cs where s: "show_nat n = c # cs" using show_nat_not_Nil [of n] by (cases "show_nat n") auto
  have dg: "list_all is_digit (c # cs)" using show_nat_digits [of n] by (simp add: s)
  then have c: "\<not> c_isspace c" "c \<noteq> CHR ''-''" "c \<noteq> CHR ''+''" by (auto dest: digit_not_sign)
  have all: "takeWhile is_digit ((c # cs) @ t) = c # cs" "dropWhile is_digit ((c # cs) @ t) = t"
    using dg assms(2) by (cases t; auto simp: list_all_iff takeWhile_append2 dropWhile_append2)+
  have v: "dec_val 0 (c # cs) = n" using dec_val_show_nat [of n] by (simp add: s)
  have hd: "dropWhile c_isspace ((c # cs) @ t) = (c # cs) @ t" using c by simp
  have m: "min n (2 ^ 32 - 1) = n" using assms(1) by simp
  show ?thesis
    unfolding scan_u_def s Let_def hd using c
    by (simp only: append_Cons list.sel list.distinct simp_thms insert_iff empty_iff if_False all [unfolded append_Cons] v m)
qed

text \<open>
  On a dotted quad the test is exactly membership in 10/8, 172.16/12, 192.168/16, 127/8 and
  169.254/16.
\<close>

lemma is_private_dotted:
  assumes "a < 256" "b < 256" "c < 256" "d < 256"
  shows "is_private_ipv4 (dotted a b c d) \<longleftrightarrow>
    a = 10 \<or> (a = 172 \<and> b \<in> {16..31}) \<or> (a = 192 \<and> b = 168) \<or> a = 127 \<or> (a = 169 \<and> b = 254)"
proof -
  have dot: "\<not> is_digit (CHR ''.'')" by (simp add: is_digit_def)
  have sc: "sscanf_ipv4 (dotted a b c d) = Some (word_of_nat a, word_of_nat b, word_of_nat c, word_of_nat d)"
    using assms dot scan_show [of d "[]"] by (simp add: sscanf_ipv4_def dotted_def scan_show scan_dot_def)
  have l: "length (show_nat n) \<le> 3" if "n < 256" for n using that by (intro length_show_nat) auto
  have "length (dotted a b c d) \<le> 15"
    using l [OF assms(1)] l [OF assms(2)] l [OF assms(3)] l [OF assms(4)] by (simp add: dotted_def)
  moreover have "c_str (dotted a b c d) = dotted a b c d"
  proof -
    have "CHR 0x00 \<notin> set (show_nat n)" for n
      using show_nat_digits [of n] by (auto simp: list_all_iff is_digit_def)
    then show ?thesis by (auto simp: c_str_def dotted_def takeWhile_eq_all_conv)
  qed
  moreover have "dotted a b c d \<noteq> []" by (simp add: dotted_def)
  ultimately have "is_private_ipv4 (dotted a b c d) = (case sscanf_ipv4 (dotted a b c d) of None \<Rightarrow> False
      | Some (a, b, c, d) \<Rightarrow> a = 10 \<or> (a = 172 \<and> 16 \<le> b \<and> b \<le> 31) \<or> (a = 192 \<and> b = 168) \<or> a = 127
        \<or> (a = 169 \<and> b = 254))"
    by (simp add: is_private_ipv4_def)
  moreover have eq: "(word_of_nat n :: u32) = word_of_nat k \<longleftrightarrow> n = k"
    and le: "(word_of_nat n :: u32) \<le> word_of_nat k \<longleftrightarrow> n \<le> k" if "n < 256" "k < 256" for n k
    using that by (simp_all add: word_of_nat_eq_iff word_le_nat_alt unat_of_nat take_bit_nat_eq_self)
  ultimately show ?thesis
    using eq [OF assms(1), of 10] eq [OF assms(1), of 172] eq [OF assms(1), of 192] eq [OF assms(1), of 127]
      eq [OF assms(1), of 169] eq [OF assms(2), of 168] eq [OF assms(2), of 254]
      le [OF assms(2), of 31] le [OF _ assms(2), of 16]
    by (simp add: sc)
qed

lemma is_private_dotted_witness:
  "is_private_ipv4 (dotted 172 20 0 1) \<longleftrightarrow>
    (172 :: nat) = 10 \<or> ((172 :: nat) = 172 \<and> (20 :: nat) \<in> {16..31}) \<or> ((172 :: nat) = 192 \<and> (20 :: nat) = 168)
      \<or> (172 :: nat) = 127 \<or> ((172 :: nat) = 169 \<and> (20 :: nat) = 254)"
  by (rule is_private_dotted) simp_all

end
