(* ===== verification/Map_Filter.thy ===== *)
theory Map_Filter
  imports Map_Parser
begin

text \<open>
  The peer filter of \<^verbatim>\<open>parse_map_static\<close>: what it lets through, and what a peer it
  keeps out leaves behind in the slot the next one is written over.
\<close>

section \<open>The filter\<close>

lemma peer_allowed_frame [simp]:
  "peer_allowed flt (parse_endpoint obj p) = peer_allowed flt p"
  "peer_allowed flt (parse_tailscale_ip obj p) = peer_allowed flt p"
  by (simp_all add: peer_allowed_def split: option.splits)

lemma parse_peer_allowed: "parse_peer flt obj p = (True, q) \<Longrightarrow> peer_allowed flt q"
  by (auto simp: parse_peer_def Let_def split: if_splits)

text \<open>
  With a filter, every peer the parse counts has a host name that starts with one of the
  names of the filter.
\<close>

lemma filter_sound:
  assumes "map_ok m" and "json \<noteq> []" and "ts \<noteq> []" and "parse_map_static json (Some ts) m = (b, m')"
    and "i < peer_count m'"
  shows "list_ex (\<lambda>t. \<exists>r. c_str (hostname (peers m' ! i)) = t @ r) ts"
proof -
  let ?m1 = "parse_node json (clear_map m)"
  let ?m2 = "parse_peer_section (Some ts) json ?m1"
  have m': "m' = parse_derp json ?m2"
    using assms(2,4) by (simp add: parse_map_static_def Let_def flip: clear_map_def)
  have p: "length (peers ?m1) = MAX_PEERS" "list_all peer_ok (peers ?m1)" "peer_count ?m1 = 0"
    using assms(1) by (simp_all add: clear_map_def map_ok_def)
  have "peer_allowed (Some ts) (peers m' ! i)"
    using assms(5) parse_peer_section_accepted [OF p(1,3), of "Some ts" "peer_allowed (Some ts)" json]
      parse_peer_section_slots [OF p, of "Some ts" json] parse_peer_allowed
    by (auto simp: m' list_all_length)
  then show ?thesis
    using assms(3) by (auto simp: peer_allowed_def take_eq_iff list_ex_iff)
qed

definition filter_sample :: string where
  "filter_sample = ''{'' @ quoted ''Peers'' @ '':['' @ ''{'' @ quoted ''Key'' @ '':'' @ quoted (replicate 64 CHR ''a'')
     @ '','' @ quoted ''Name'' @ '':'' @ quoted ''abc'' @ ''}]}''"

lemma filter_sound_witness:
  "list_ex (\<lambda>t. \<exists>r. c_str (hostname (peers (snd (parse_map_static filter_sample (Some [''a'']) empty_map)) ! 0)) = t @ r) [''a'']"
proof (rule filter_sound [OF map_ok_empty])
  show "filter_sample \<noteq> []" by (simp add: filter_sample_def)
  show "parse_map_static filter_sample (Some [''a'']) empty_map
    = (fst (parse_map_static filter_sample (Some [''a'']) empty_map), snd (parse_map_static filter_sample (Some [''a'']) empty_map))"
    by simp
  show "0 < peer_count (snd (parse_map_static filter_sample (Some [''a'']) empty_map))" by code_simp
qed simp

section \<open>What a skipped peer leaves behind\<close>

text \<open>
  A peer whose object has no usable \<^verbatim>\<open>DiscoKey\<close> keeps the key its slot holds. When the
  peer before it was skipped by the filter, that is the skipped peer's key: incoming disco packets
  of the excluded peer are then attributed to the accepted one.
\<close>

lemma skipped_peer_leaks_disco_key:
  assumes "valid (parse_node_key objA p)" and "key_hex ''DiscoKey'' ''discokey:'' objA = Some (hex_of k)"
    and "length k = length (disco_key p)"
    and "parse_peer flt objA p = (False, pA)"
    and "key_hex ''DiscoKey'' ''discokey:'' objB = None" and "parse_peer flt objB pA = (True, pB)"
  shows "disco_key pB = k"
proof -
  have "disco_key (parse_disco_key objA (parse_node_key objA p)) = k"
    using assms(2,3) by (simp add: parse_disco_key_def hex_decode_to_bytes_def hex_loop_of)
  then have "disco_key pA = k"
    using assms(1,4) by (auto simp: parse_peer_def Let_def split: if_splits)
  moreover have "disco_key pB = disco_key pA"
    using assms(5,6) by (auto simp: parse_peer_def Let_def parse_disco_key_def split: if_splits)
  ultimately show ?thesis by simp
qed

definition skipped_obj :: string where
  "skipped_obj = ''{'' @ quoted ''Key'' @ '':'' @ quoted (replicate 64 CHR ''a'') @ '','' @ quoted ''DiscoKey'' @ '':''
     @ quoted (hex_of (replicate 32 7)) @ '','' @ quoted ''Name'' @ '':'' @ quoted ''bad'' @ ''}''"

definition accepted_obj :: string where
  "accepted_obj = ''{'' @ quoted ''Key'' @ '':'' @ quoted (replicate 64 CHR ''b'') @ '','' @ quoted ''Name'' @ '':'' @ quoted ''abc'' @ ''}''"

lemma skipped_peer_leaks_disco_key_witness:
  "disco_key (snd (parse_peer (Some [''abc'']) accepted_obj (snd (parse_peer (Some [''abc'']) skipped_obj empty_peer))))
     = replicate 32 7"
proof (rule skipped_peer_leaks_disco_key [where flt = "Some [''abc'']" and objA = skipped_obj and p = empty_peer])
  show "valid (parse_node_key skipped_obj empty_peer)" by code_simp
  show "key_hex ''DiscoKey'' ''discokey:'' skipped_obj = Some (hex_of (replicate 32 7))" by code_simp
  show "length (replicate 32 7) = length (disco_key empty_peer)" by (simp add: empty_peer_def)
  have "\<not> fst (parse_peer (Some [''abc'']) skipped_obj empty_peer)" by code_simp
  then show "parse_peer (Some [''abc'']) skipped_obj empty_peer
      = (False, snd (parse_peer (Some [''abc'']) skipped_obj empty_peer))"
    by (cases "parse_peer (Some [''abc'']) skipped_obj empty_peer") simp
  show "key_hex ''DiscoKey'' ''discokey:'' accepted_obj = None" by code_simp
  have "fst (parse_peer (Some [''abc'']) accepted_obj (snd (parse_peer (Some [''abc'']) skipped_obj empty_peer)))" by code_simp
  then show "parse_peer (Some [''abc'']) accepted_obj (snd (parse_peer (Some [''abc'']) skipped_obj empty_peer))
      = (True, snd (parse_peer (Some [''abc'']) accepted_obj (snd (parse_peer (Some [''abc'']) skipped_obj empty_peer))))"
    by (cases "parse_peer (Some [''abc'']) accepted_obj (snd (parse_peer (Some [''abc'']) skipped_obj empty_peer))") simp
qed

end
