(* ===== verification/Map_Roundtrip.thy ===== *)
theory Map_Roundtrip
  imports Map_Parser
begin

text \<open>
  The map parser against the documents it is written for: a network map with the node's own entry
  and up to five peers, rendered as JSON, comes back field by field. The lemmas say how
  \<^verbatim>\<open>find_str\<close> and the bracket scans pass over the tokens of rendered JSON.
\<close>

section \<open>Tokens\<close>

definition clean :: "string \<Rightarrow> bool" where
  "clean s \<longleftrightarrow> plain s \<and> set s \<inter> {CHR ''{'', CHR ''}'', CHR ''['', CHR '']''} = {}"

definition fld :: "string \<Rightarrow> string \<Rightarrow> string \<Rightarrow> string option" where
  "fld n x s = field (key_of n @ x) s"

lemma fld_char: "c \<noteq> dquote \<Longrightarrow> fld n x (c # t) = fld n x t"
  by (simp add: fld_def field_def)

lemma fld_Nil: "fld n x [] = None"
  by (simp add: fld_def field_def)

lemma fld_hit: "fld n x (quoted n @ CHR '':'' # x @ t) = Some t"
proof -
  let ?n = "key_of n @ x"
  have "quoted n @ CHR '':'' # x @ t = ?n @ t" by (simp add: quoted_def)
  moreover have "find_str ?n (?n @ t) = Some (?n @ t)" by simp
  ultimately show ?thesis by (simp only: fld_def field_def) simp
qed

lemma fld_no_quote: "dquote \<notin> set s \<Longrightarrow> fld n x (s @ t) = fld n x t"
  by (induction s) (auto simp: fld_char)

lemma fld_miss: "take (length (key_of n @ x)) (dquote # t) \<noteq> key_of n @ x \<Longrightarrow> fld n x (dquote # t) = fld n x t"
  by (simp add: fld_def field_def)

lemma plain_no_dquote: "plain v \<Longrightarrow> dquote \<notin> set v"
  by (induction v) (auto simp: plain_char_def)

lemma quote_split:
  assumes "dquote \<notin> set n" "dquote \<notin> set v" "n @ dquote # a = v @ dquote # b"
  shows "n = v \<and> a = b"
proof -
  have "takeWhile (\<lambda>c. c \<noteq> dquote) (s @ dquote # r) = s" if "dquote \<notin> set s" for s r
    using that by (induction s) auto
  from this [OF assms(1), of a] this [OF assms(2), of b] assms(3) have "n = v" by simp
  with assms(3) show ?thesis by simp
qed

lemma fld_quoted:
  assumes "plain n" "plain v" "n \<noteq> []" "c \<noteq> hd n" "v \<noteq> n \<or> c \<noteq> CHR '':''"
  shows "fld n x (quoted v @ c # t) = fld n x (c # t)"
proof -
  have "v @ dquote # c # t \<noteq> n @ dquote # CHR '':'' # x @ r" for r
  proof
    assume "v @ dquote # c # t = n @ dquote # CHR '':'' # x @ r"
    from quote_split [OF _ _ this] assms show False by (auto simp: plain_no_dquote)
  qed
  then have "fld n x (dquote # v @ dquote # c # t) = fld n x (v @ dquote # c # t)"
    by (intro fld_miss, subst take_eq_iff) auto
  also have "\<dots> = fld n x (dquote # c # t)"
    using assms(2) by (intro fld_no_quote plain_no_dquote)
  also have "\<dots> = fld n x (c # t)"
    using assms(3,4) by (intro fld_miss, subst take_eq_iff) (cases n; auto)
  finally show ?thesis by (simp add: quoted_def)
qed

lemma closing_plain:
  assumes "plain v" "p \<noteq> bslash"
  shows "closing_quote p (v @ dquote # t) = Some (v, t)"
  using assms by (induction v arbitrary: p) (auto simp: plain_char_def)

lemma quoted_value: "plain v \<Longrightarrow> extract_quoted_value (quoted v @ t) = Some (v, t)"
  by (simp add: extract_quoted_value_def quoted_def closing_plain)

section \<open>Bracket scans\<close>

definition balanced :: "char \<Rightarrow> char \<Rightarrow> string \<Rightarrow> bool" where
  "balanced op cl s \<longleftrightarrow>
     (\<forall>d t. matching op cl (Suc d) (s @ t) = map_prod (append s) id (matching op cl (Suc d) t))"

lemma balanced_append: "balanced op cl a \<Longrightarrow> balanced op cl b \<Longrightarrow> balanced op cl (a @ b)"
  by (simp add: balanced_def map_prod_def split: prod.splits)

lemma balanced_Nil: "balanced op cl []"
  by (simp add: balanced_def map_prod_def split: prod.splits)

lemma balanced_Cons: "c \<noteq> op \<Longrightarrow> c \<noteq> cl \<Longrightarrow> balanced op cl s \<Longrightarrow> balanced op cl (c # s)"
  by (simp add: balanced_def map_prod_def split: prod.splits)

lemma balanced_skip: "op \<notin> set s \<Longrightarrow> cl \<notin> set s \<Longrightarrow> balanced op cl s"
  by (induction s) (auto intro: balanced_Nil balanced_Cons)

lemma matching_0: "matching op cl 0 s = ([], s)"
  by (cases s) auto

lemma balanced_bracket:
  assumes "balanced op cl s" "op \<noteq> cl"
  shows "balanced op cl (op # s @ [cl])"
proof -
  have "matching op cl (Suc d) (op # s @ cl # t)
      = map_prod (append (op # s @ [cl])) id (matching op cl (Suc d) t)" for d t
    using assms by (simp add: balanced_def map_prod_def split: prod.splits)
  then show ?thesis by (simp add: balanced_def)
qed

lemma matching_balanced: "balanced op cl s \<Longrightarrow> op \<noteq> cl \<Longrightarrow> matching op cl 1 (s @ cl # t) = (s @ [cl], t)"
  by (simp add: balanced_def matching_0)

lemma balanced_commas:
  "CHR '','' \<noteq> op \<Longrightarrow> CHR '','' \<noteq> cl \<Longrightarrow> \<forall>s \<in> set ss. balanced op cl s \<Longrightarrow> balanced op cl (commas ss)"
  by (induction ss rule: commas.induct) (auto intro: balanced_Nil balanced_append balanced_Cons)

section \<open>The documents\<close>

record peer_desc =
  pd_key :: bytes
  pd_disco :: bytes
  pd_name :: string
  pd_endpoint :: string
  pd_ip :: string

definition peer_json :: "peer_desc \<Rightarrow> json" where
  "peer_json d = JObj [(''Key'', JStr (''nodekey:'' @ hex_of (pd_key d))),
     (''DiscoKey'', JStr (''discokey:'' @ hex_of (pd_disco d))), (''Name'', JStr (pd_name d)),
     (''Endpoints'', JArr [JStr (pd_endpoint d)]), (''Addresses'', JArr [JStr (pd_ip d @ ''/32'')])]"

definition map_json :: "nat \<Rightarrow> string \<Rightarrow> peer_desc list \<Rightarrow> json" where
  "map_json i ip ds = JObj [(''Node'', JObj [(''ID'', JLit (show_nat i)),
      (''Addresses'', JArr [JStr (ip @ ''/32'')])]), (''Peers'', JArr (map peer_json ds))]"

definition good_ip :: "nat \<Rightarrow> string \<Rightarrow> bool" where
  "good_ip n s \<longleftrightarrow> clean s \<and> s \<noteq> [] \<and> length s < n \<and> CHR ''/'' \<notin> set s \<and> CHR '':'' \<notin> set s"

definition good_peer :: "peer_desc \<Rightarrow> bool" where
  "good_peer d \<longleftrightarrow> length (pd_key d) = 32 \<and> length (pd_disco d) = 32 \<and> clean (pd_name d)
     \<and> length (pd_name d) < 64 \<and> clean (pd_endpoint d) \<and> length (pd_endpoint d) < 64 \<and> good_ip 16 (pd_ip d)"

section \<open>One peer\<close>

lemma plain_hex: "plain (hex_of bs)"
proof -
  have p: "plain_char c" if "(of_char c :: nat) \<notin> {34, 92, 0}" for c
    using that by (auto simp: plain_char_def)
  have "plain_char (hex_digit n)" if "n < 16" for n
    using that by (intro p) (auto simp: hex_digit_def)
  then show ?thesis by (induction bs) (auto simp: hex_of_def high_nibble)
qed

lemma clean_plain: "clean s \<Longrightarrow> plain s"
  by (simp add: clean_def)

text \<open>The object of a peer as a sequence of tokens.\<close>

lemma peer_tokens:
  "render (peer_json d) = CHR ''{'' # quoted ''Key'' @ CHR '':'' # quoted (''nodekey:'' @ hex_of (pd_key d)) @ CHR '',''
    # quoted ''DiscoKey'' @ CHR '':'' # quoted (''discokey:'' @ hex_of (pd_disco d)) @ CHR '',''
    # quoted ''Name'' @ CHR '':'' # quoted (pd_name d) @ CHR '',''
    # quoted ''Endpoints'' @ CHR '':'' # CHR ''['' # quoted (pd_endpoint d) @ CHR '']'' # CHR '',''
    # quoted ''Addresses'' @ CHR '':'' # CHR ''['' # quoted (pd_ip d @ ''/32'') @ CHR '']'' # ''}''"
  by (simp add: peer_json_def)

lemma field_fld: "field (key_of n) = fld n []" "field (key_of n @ x) = fld n x"
  by (simp_all add: fld_def fun_eq_iff)

lemma fld_hits:
  "fld n [] (quoted n @ CHR '':'' # t) = Some t"
  "fld n ''['' (quoted n @ CHR '':'' # CHR ''['' # t) = Some t"
  using fld_hit [of n "[]" t] fld_hit [of n "''[''" t] by simp_all

lemmas token_simps = fld_char fld_quoted fld_hits fld_Nil plain_char_def plain_hex quoted_value

lemma peer_fields:
  assumes "good_peer d"
  shows "key_hex ''Key'' ''nodekey:'' (render (peer_json d)) = Some (hex_of (pd_key d))"
    and "key_hex ''DiscoKey'' ''discokey:'' (render (peer_json d)) = Some (hex_of (pd_disco d))"
    and "string_field ''Name'' (render (peer_json d)) = Some (pd_name d)"
    and "fld ''Endpoints'' ''['' (render (peer_json d)) = Some (quoted (pd_endpoint d) @ CHR '']'' # CHR '',''
        # quoted ''Addresses'' @ CHR '':'' # CHR ''['' # quoted (pd_ip d @ ''/32'') @ CHR '']'' # ''}'')"
    and "fld ''Addresses'' ''['' (render (peer_json d)) = Some (quoted (pd_ip d @ ''/32'') @ CHR '']'' # ''}'')"
proof -
  have p: "plain (pd_name d)" "plain (pd_endpoint d)" "plain (pd_ip d)" "length (pd_key d) = 32" "length (pd_disco d) = 32"
    using assms by (auto simp: good_peer_def good_ip_def clean_plain)
  show "key_hex ''Key'' ''nodekey:'' (render (peer_json d)) = Some (hex_of (pd_key d))"
    unfolding key_hex_def field_fld peer_tokens using p by (simp add: token_simps)
  show "key_hex ''DiscoKey'' ''discokey:'' (render (peer_json d)) = Some (hex_of (pd_disco d))"
    unfolding key_hex_def field_fld peer_tokens using p by (simp add: token_simps)
  show "string_field ''Name'' (render (peer_json d)) = Some (pd_name d)"
    unfolding string_field_def field_fld peer_tokens using p by (simp add: token_simps)
  show "fld ''Endpoints'' ''['' (render (peer_json d)) = Some (quoted (pd_endpoint d) @ CHR '']'' # CHR '',''
        # quoted ''Addresses'' @ CHR '':'' # CHR ''['' # quoted (pd_ip d @ ''/32'') @ CHR '']'' # ''}'')"
    unfolding peer_tokens using p by (simp add: token_simps)
  show "fld ''Addresses'' ''['' (render (peer_json d)) = Some (quoted (pd_ip d @ ''/32'') @ CHR '']'' # ''}'')"
    unfolding peer_tokens using p by (simp add: token_simps)
qed

definition filled :: "peer_desc \<Rightarrow> peer \<Rightarrow> peer" where
  "filled d p = \<lparr>disco_key = pd_disco d, node_key = pd_key d, tailscale_ip = safe_strncpy (tailscale_ip p) (pd_ip d),
     hostname = safe_strncpy (hostname p) (pd_name d), endpoint = safe_strncpy (endpoint p) (pd_endpoint d),
     valid = True\<rparr>"

lemma strip_cidr_ip: "CHR ''/'' \<notin> set ip \<Longrightarrow> strip_cidr (ip @ CHR ''/'' # r) = ip"
  by (induction ip) (auto simp: strip_cidr_def)

lemma one_endpoint:
  assumes "plain e" "CHR ''['' \<notin> set e"
  shows "parse_endpoints False (quoted e @ CHR '']'' # t) ep = safe_strncpy ep e"
  using assms by (subst parse_endpoints.simps) (simp add: quoted_value Let_def quoted_def [of e, symmetric])

lemma parse_peer_rendered:
  assumes "good_peer d" "peer_ok p"
  shows "parse_peer None (render (peer_json d)) p = (True, filled d p)"
proof -
  let ?o = "render (peer_json d)"
  note f = peer_fields [OF assms(1)]
  have g: "CHR ''['' \<notin> set (pd_endpoint d)" "CHR ''/'' \<notin> set (pd_ip d)" "plain (pd_endpoint d)" "plain (pd_ip d)"
    using assms(1) by (auto simp: good_peer_def good_ip_def clean_def)
  have l: "length (pd_key d) = length (node_key q)" "length (pd_disco d) = length (disco_key q)"
    if "peer_ok q" for q
    using assms(1) that by (simp_all add: good_peer_def peer_ok_def)
  have n: "parse_node_key ?o p = p\<lparr>valid := True, node_key := pd_key d\<rparr>"
    using l [OF assms(2)] assms(1) by (simp add: parse_node_key_def f(1) hex_decode_to_bytes_def hex_loop_of good_peer_def)
  have d: "parse_disco_key ?o q = q\<lparr>disco_key := pd_disco d\<rparr>" if "peer_ok q" for q
    using l [OF that] by (simp add: parse_disco_key_def f(2) hex_decode_to_bytes_def hex_loop_of)
  have h: "parse_hostname ?o q = q\<lparr>hostname := safe_strncpy (hostname q) (pd_name d)\<rparr>" for q
    by (simp add: parse_hostname_def f(3))
  have e: "parse_endpoint ?o q = q\<lparr>endpoint := safe_strncpy (endpoint q) (pd_endpoint d)\<rparr>" for q
    unfolding parse_endpoint_def field_fld f(4) using g by (simp add: one_endpoint)
  have i: "parse_tailscale_ip ?o q = q\<lparr>tailscale_ip := safe_strncpy (tailscale_ip q) (pd_ip d)\<rparr>" for q
    unfolding parse_tailscale_ip_def field_fld f(5) using g by (simp add: quoted_value strip_cidr_ip plain_char_def)
  have "peer_ok (p\<lparr>valid := True, node_key := pd_key d\<rparr>)"
    using assms by (simp add: peer_ok_def good_peer_def)
  from d [OF this] show ?thesis
    by (simp add: parse_peer_def n h e i peer_allowed_def filled_def Let_def)
qed

section \<open>The array\<close>

lemma peer_body:
  assumes "good_peer d"
  obtains body where "render (peer_json d) = CHR ''{'' # body @ ''}''"
    "CHR ''{'' \<notin> set body" "CHR ''}'' \<notin> set body" "balanced (CHR ''['') (CHR '']'') body"
proof -
  have hex: "CHR ''{'' \<notin> set (hex_of bs)" "CHR ''}'' \<notin> set (hex_of bs)" "CHR ''['' \<notin> set (hex_of bs)"
    "CHR '']'' \<notin> set (hex_of bs)" for bs
  proof -
    have p: "c \<notin> {CHR ''{'', CHR ''}'', CHR ''['', CHR '']''}" if "(of_char c :: nat) \<notin> {123, 125, 91, 93}" for c
      using that by auto
    have "hex_digit n \<notin> {CHR ''{'', CHR ''}'', CHR ''['', CHR '']''}" if "n < 16" for n
      using that by (intro p) (auto simp: hex_digit_def)
    then have "set (hex_of bs) \<inter> {CHR ''{'', CHR ''}'', CHR ''['', CHR '']''} = {}"
      by (induction bs) (auto simp: hex_of_def high_nibble)
    then show "CHR ''{'' \<notin> set (hex_of bs)" "CHR ''}'' \<notin> set (hex_of bs)" "CHR ''['' \<notin> set (hex_of bs)"
      "CHR '']'' \<notin> set (hex_of bs)" by auto
  qed
  have c: "set s \<inter> {CHR ''{'', CHR ''}'', CHR ''['', CHR '']''} = {}" if "s \<in> {pd_name d, pd_endpoint d, pd_ip d}" for s
    using assms that by (auto simp: good_peer_def good_ip_def clean_def)
  have b: "balanced (CHR ''['') (CHR '']'') (CHR ''['' # quoted v @ [CHR '']''])"
    if "CHR ''['' \<notin> set v" "CHR '']'' \<notin> set v" for v
    using that by (intro balanced_bracket balanced_skip) (auto simp: quoted_def)
  let ?l = "quoted ''Key'' @ CHR '':'' # quoted (''nodekey:'' @ hex_of (pd_key d)) @ CHR '',''
    # quoted ''DiscoKey'' @ CHR '':'' # quoted (''discokey:'' @ hex_of (pd_disco d)) @ CHR '',''
    # quoted ''Name'' @ CHR '':'' # quoted (pd_name d) @ CHR '','' # quoted ''Endpoints'' @ '':''"
  let ?body = "?l @ (CHR ''['' # quoted (pd_endpoint d) @ [CHR '']'']) @ (CHR '','' # quoted ''Addresses'' @ '':'')
    @ (CHR ''['' # quoted (pd_ip d @ ''/32'') @ [CHR '']''])"
  show ?thesis
  proof (rule that)
    show "render (peer_json d) = CHR ''{'' # ?body @ ''}''" unfolding peer_tokens by simp
    show "CHR ''{'' \<notin> set ?body" "CHR ''}'' \<notin> set ?body"
      using hex c by (auto simp: quoted_def)
    show "balanced (CHR ''['') (CHR '']'') ?body"
      using hex c by (intro balanced_append b) (auto simp: quoted_def intro!: balanced_skip)
  qed
qed

lemma next_object_rendered:
  assumes "good_peer d" "CHR ''{'' \<notin> set sep"
  shows "next_object (sep @ render (peer_json d) @ t) = Some (render (peer_json d), t)"
proof -
  from assms(1) obtain body where b: "render (peer_json d) = CHR ''{'' # body @ ''}''"
    "CHR ''{'' \<notin> set body" "CHR ''}'' \<notin> set body"
    by (rule peer_body)
  have "dropWhile (\<lambda>c. c \<noteq> CHR ''{'') (sep @ CHR ''{'' # body @ CHR ''}'' # t) = CHR ''{'' # body @ CHR ''}'' # t"
    using assms(2) by (induction sep) auto
  moreover have "matching (CHR ''{'') (CHR ''}'') 1 (body @ CHR ''}'' # t) = (body @ ''}'', t)"
    using b by (intro matching_balanced balanced_skip) auto
  ultimately show ?thesis by (simp add: next_object_def b(1))
qed

fun fill_slots :: "nat \<Rightarrow> peer_desc list \<Rightarrow> peer list \<Rightarrow> peer list" where
  "fill_slots c [] ps = ps"
| "fill_slots c (d # ds) ps = fill_slots (Suc c) ds (ps[c := filled d (ps ! c)])"

lemma peer_ok_filled: "good_peer d \<Longrightarrow> peer_ok p \<Longrightarrow> peer_ok (filled d p)"
  by (auto simp: peer_ok_def filled_def good_peer_def intro!: inv_intros)

lemma parse_peers_rendered:
  assumes "\<forall>d \<in> set ds. good_peer d" "CHR ''{'' \<notin> set sep"
    and "length (peers m) = MAX_PEERS" "list_all peer_ok (peers m)" "peer_count m + length ds \<le> MAX_PEERS"
  shows "parse_peers None (sep @ commas (map (\<lambda>d. render (peer_json d)) ds) @ '']'') m
    = m\<lparr>peers := fill_slots (peer_count m) ds (peers m), peer_count := peer_count m + length ds\<rparr>"
  using assms
proof (induction ds arbitrary: sep m)
  case Nil
  have "next_object (sep @ '']'') = None" using Nil(2) by (induction sep) (auto simp: next_object_def)
  then show ?case by (subst parse_peers.simps) simp
next
  case (Cons d ds)
  let ?t = "(if ds = [] then [] else '','') @ commas (map (\<lambda>d. render (peer_json d)) ds) @ '']''"
  let ?p = "peers m ! peer_count m"
  let ?g = "m\<lparr>peers := (peers m)[peer_count m := filled d ?p], peer_count := Suc (peer_count m)\<rparr>"
  have text_eq: "sep @ commas (map (\<lambda>d. render (peer_json d)) (d # ds)) @ '']'' = sep @ render (peer_json d) @ ?t"
    by (simp add: commas_Cons)
  have d: "good_peer d" using Cons.prems by simp
  have p: "peer_ok ?p" using Cons.prems by (simp add: list_all_length)
  have "parse_peers None (sep @ render (peer_json d) @ ?t) m = parse_peers None ?t ?g"
    using next_object_rendered [OF d Cons.prems(2), of ?t] parse_peer_rendered [OF d p] Cons.prems(5)
    by (subst parse_peers.simps) simp
  also have "\<dots> = ?g\<lparr>peers := fill_slots (peer_count ?g) ds (peers ?g), peer_count := peer_count ?g + length ds\<rparr>"
    using Cons.prems p d by (intro Cons.IH) (auto intro!: list_all_update peer_ok_filled)
  finally show ?case unfolding text_eq by simp
qed

section \<open>Reading the slots back\<close>

definition describe :: "peer \<Rightarrow> peer_desc" where
  "describe p = \<lparr>pd_key = node_key p, pd_disco = disco_key p, pd_name = c_str (hostname p),
     pd_endpoint = c_str (endpoint p), pd_ip = c_str (tailscale_ip p)\<rparr>"

lemma c_str_strncpy: "plain s \<Longrightarrow> length s < length d \<Longrightarrow> c_str (safe_strncpy d s) = s"
proof -
  assume "plain s" "length s < length d"
  moreover have "takeWhile (\<lambda>c. c \<noteq> CHR 0x00) (s @ CHR 0x00 # r) = s" if "plain s" for r
    using that by (induction s) (auto simp: plain_char_def)
  ultimately show ?thesis by (auto simp: c_str_def safe_strncpy_def Let_def)
qed

lemma describe_filled: "good_peer d \<Longrightarrow> peer_ok p \<Longrightarrow> describe (filled d p) = d"
  by (simp add: describe_def filled_def good_peer_def good_ip_def clean_plain peer_ok_def c_buffer_def c_str_strncpy)

lemma length_fill [simp]: "length (fill_slots c ds ps) = length ps"
  by (induction c ds ps rule: fill_slots.induct) auto

lemma describe_slots:
  assumes "\<forall>d \<in> set ds. good_peer d" "list_all peer_ok ps" "c + length ds \<le> length ps"
  shows "map describe (take (c + length ds) (fill_slots c ds ps)) = map describe (take c ps) @ ds"
  using assms
proof (induction c ds ps rule: fill_slots.induct)
  case (2 c d ds ps)
  have p: "peer_ok (ps ! c)" using 2(3,4) by (simp add: list_all_length)
  have "map describe (take (Suc c + length ds) (fill_slots (Suc c) ds (ps[c := filled d (ps ! c)])))
      = map describe (take (Suc c) (ps[c := filled d (ps ! c)])) @ ds"
    using 2 p by (intro "2.IH") (auto intro!: list_all_update peer_ok_filled)
  also have "take (Suc c) (ps[c := filled d (ps ! c)]) = take c ps @ [filled d (ps ! c)]"
    using 2(4) by (simp add: take_Suc_conv_app_nth)
  finally show ?case using 2(2) p by (simp add: describe_filled)
qed simp

section \<open>The whole document\<close>

lemma section_fld:
  "section_of (key_of n @ x) op cl s
    = map_option (\<lambda>t. quoted n @ CHR '':'' # x @ fst (matching op cl 1 t)) (fld n x s)"
  by (simp add: section_of_def fld_def field_def quoted_def option.map_comp o_def)

lemma fld_brace: "fld n ''{'' (quoted n @ CHR '':'' # CHR ''{'' # t) = Some t"
  using fld_hit [of n "''{''" t] by simp

lemma number_fold:
  "list_all is_digit ds \<Longrightarrow>
   fold (\<lambda>d v. v * 10 + word_of_nat (of_char d - 48)) ds (word_of_nat n :: u64) = word_of_nat (dec_val n ds)"
proof (induction ds arbitrary: n)
  case (Cons a ds)
  have "(word_of_nat n * 10 + word_of_nat k :: u64) = word_of_nat (n * 10 + k)" for k by simp
  note step = this
  have "list_all is_digit ds" using Cons.prems by simp
  from Cons.IH [OF this] show ?case
    by (simp only: fold_simps dec_val.simps digit_val_def step)
qed simp

lemma extract_show_nat:
  assumes "c \<noteq> CHR '' ''" "\<not> is_digit c"
  shows "extract_number (show_nat i @ c # t) = Some (word_of_nat i)"
proof -
  obtain d ds where s: "show_nat i = d # ds" using show_nat_not_Nil [of i] by (cases "show_nat i") auto
  have dg: "list_all is_digit (d # ds)" using show_nat_digits [of i] by (simp add: s)
  then have "is_digit d" by simp
  then have w: "d \<notin> {CHR '' '', CHR 0x09, CHR 0x0A, CHR 0x0D}" by (auto simp: is_digit_def)
  have tw: "takeWhile is_digit (d # ds @ c # t) = d # ds"
    using dg assms(2) takeWhile_append2 [of "d # ds" is_digit "c # t"] by (auto simp: list_all_iff)
  have "fold (\<lambda>d v. v * 10 + word_of_nat (of_char d - 48)) (d # ds) (0 :: u64) = word_of_nat i"
    using number_fold [OF dg, of 0] dec_val_show_nat [of i] by (simp add: s)
  then show ?thesis using w \<open>is_digit d\<close> tw unfolding extract_number_def s append_Cons
    by (simp del: takeWhile.simps fold_simps)
qed

lemma quoted_not_Nil: "quoted v \<noteq> []"
  by (simp add: quoted_def)

lemma own_address:
  assumes "plain ip" "CHR ''/'' \<notin> set ip" "CHR '':'' \<notin> set ip"
  shows "node_address (quoted (ip @ ''/32'') @ t) = Some ip"
  using assms by (subst node_address.simps)
    (simp add: quoted_value plain_char_def has_colon_def strip_cidr_ip quoted_not_Nil)

lemma map_tokens:
  "render (map_json i ip ds) = CHR ''{'' # quoted ''Node'' @ CHR '':'' # CHR ''{'' # quoted ''ID'' @ CHR '':'' # show_nat i
     @ CHR '','' # quoted ''Addresses'' @ CHR '':'' # CHR ''['' # quoted (ip @ ''/32'') @ CHR '']'' # CHR ''}'' # CHR '',''
     # quoted ''Peers'' @ CHR '':'' # CHR ''['' # commas (map (\<lambda>d. render (peer_json d)) ds) @ '']}''"
  by (simp add: map_json_def o_def)

lemma number_no_quote: "dquote \<notin> set (show_nat i)" "CHR ''{'' \<notin> set (show_nat i)" "CHR ''}'' \<notin> set (show_nat i)"
  using show_nat_digits [of i] by (auto simp: list_all_iff is_digit_def)

lemma parse_node_rendered:
  assumes "i < 2 ^ 64" "clean ip" "CHR ''/'' \<notin> set ip" "CHR '':'' \<notin> set ip"
  shows "parse_node (render (map_json i ip ds)) m
    = m\<lparr>node_id := safe_strncpy (node_id m) (show_nat i), node_ipv4 := safe_strncpy (node_ipv4 m) ip\<rparr>"
proof -
  let ?in = "quoted ''ID'' @ CHR '':'' # show_nat i @ CHR '','' # quoted ''Addresses'' @ CHR '':'' # CHR ''[''
     # quoted (ip @ ''/32'') @ [CHR '']'']"
  have p: "plain ip" "CHR ''{'' \<notin> set ip" "CHR ''}'' \<notin> set ip" using assms(2) by (auto simp: clean_def)
  have "matching (CHR ''{'') (CHR ''}'') 1 (?in @ CHR ''}'' # t) = (?in @ ''}'', t)" for t
    using p number_no_quote [of i] by (intro matching_balanced balanced_skip) (auto simp: quoted_def)
  then have sec: "section_of (key_of ''Node'' @ ''{'') (CHR ''{'') (CHR ''}'') (render (map_json i ip ds))
      = Some (quoted ''Node'' @ CHR '':'' # CHR ''{'' # ?in @ ''}'')"
    unfolding section_fld map_tokens by (simp add: token_simps fld_brace)
  have id: "fld ''ID'' [] (quoted ''Node'' @ CHR '':'' # CHR ''{'' # ?in @ ''}'')
      = Some (show_nat i @ CHR '','' # quoted ''Addresses'' @ CHR '':'' # CHR ''[''
          # quoted (ip @ ''/32'') @ CHR '']'' # ''}'')"
    by (simp add: token_simps)
  have ad: "fld ''Addresses'' ''['' (quoted ''Node'' @ CHR '':'' # CHR ''{'' # ?in @ ''}'')
      = Some (quoted (ip @ ''/32'') @ CHR '']'' # ''}'')"
    using number_no_quote [of i] by (simp add: token_simps fld_no_quote)
  have "unat (word_of_nat i :: u64) = i" using assms(1) by (simp add: unat_of_nat take_bit_nat_eq_self)
  then show ?thesis
    unfolding parse_node_def sec field_fld option.case Let_def id ad
    by (simp add: extract_show_nat is_digit_def own_address [OF p(1) assms(3,4)])
qed

text \<open>A peer's object holds none of the top-level fields.\<close>

lemma fld_peer:
  assumes "good_peer d" "plain n" "n \<noteq> []" "n \<notin> {''Key'', ''DiscoKey'', ''Name'', ''Endpoints'', ''Addresses''}"
    and "hd n \<notin> {CHR '','', CHR '':'', CHR '']'', CHR ''}'', CHR ''[''}"
  shows "fld n x (render (peer_json d) @ t) = fld n x t"
proof -
  have "plain (pd_name d)" "plain (pd_endpoint d)" "plain (pd_ip d)"
    using assms(1) by (auto simp: good_peer_def good_ip_def clean_plain)
  then show ?thesis
    unfolding peer_tokens using assms(2-5) by (auto simp: token_simps)
qed

lemma fld_peers:
  assumes "\<forall>d \<in> set ds. good_peer d" "plain n" "n \<noteq> []"
    "n \<notin> {''Key'', ''DiscoKey'', ''Name'', ''Endpoints'', ''Addresses''}"
    and "hd n \<notin> {CHR '','', CHR '':'', CHR '']'', CHR ''}'', CHR ''[''}"
  shows "fld n x (commas (map (\<lambda>d. render (peer_json d)) ds) @ t) = fld n x t"
  using assms by (induction ds) (auto simp: commas_Cons fld_peer fld_char)

lemma peer_section_rendered:
  assumes "\<forall>d \<in> set ds. good_peer d" "length ds \<le> MAX_PEERS" "plain ip"
    and "length (peers m) = MAX_PEERS" "list_all peer_ok (peers m)" "peer_count m = 0"
  shows "parse_peer_section None (render (map_json i ip ds)) m
    = m\<lparr>peers := fill_slots 0 ds (peers m), peer_count := length ds\<rparr>"
proof -
  let ?c = "commas (map (\<lambda>d. render (peer_json d)) ds)"
  have "balanced (CHR ''['') (CHR '']'') (render (peer_json d))" if d: "good_peer d" for d
  proof -
    obtain body where "render (peer_json d) = CHR ''{'' # body @ ''}''" "balanced (CHR ''['') (CHR '']'') body"
      using d by (rule peer_body)
    then show ?thesis by (auto intro!: balanced_Cons balanced_append balanced_Nil)
  qed
  then have "balanced (CHR ''['') (CHR '']'') ?c" using assms(1) by (intro balanced_commas) auto
  then have "matching (CHR ''['') (CHR '']'') 1 (?c @ CHR '']'' # ''}'') = (?c @ '']'', ''}'')"
    by (rule matching_balanced) simp
  moreover have "fld ''Peers'' ''['' (render (map_json i ip ds)) = Some (?c @ '']}'')"
    unfolding map_tokens using assms(3) number_no_quote [of i] by (simp add: token_simps fld_no_quote)
  ultimately have "section_of (key_of ''Peers'' @ ''['') (CHR ''['') (CHR '']'') (render (map_json i ip ds))
      = Some (quoted ''Peers'' @ CHR '':'' # CHR ''['' # ?c @ '']'')"
    unfolding section_fld by simp
  then have "parse_peer_section None (render (map_json i ip ds)) m = parse_peers None ([] @ ?c @ '']'') m"
    by (simp add: parse_peer_section_def quoted_def)
  also have "\<dots> = m\<lparr>peers := fill_slots (peer_count m) ds (peers m), peer_count := peer_count m + length ds\<rparr>"
    using assms by (intro parse_peers_rendered) auto
  finally show ?thesis using assms(6) by simp
qed

lemma no_derp:
  assumes "\<forall>d \<in> set ds. good_peer d" "plain ip"
  shows "parse_derp (render (map_json i ip ds)) m = m"
proof -
  have "fld ''DERPMap'' ''{'' (render (map_json i ip ds)) = None"
    unfolding map_tokens using assms number_no_quote [of i]
    by (simp add: token_simps fld_no_quote fld_peers)
  then show ?thesis by (simp add: parse_derp_def section_fld [of "''DERPMap''" "''{''", simplified])
qed

text \<open>
  C25. A network map rendered with the node's identifier, its address and up to five peers comes
  back from the parse as it was: the identifier and the address, and for every peer, in order, the
  decoded keys, the name, the endpoint and the address, whatever the slots held before.
\<close>

theorem parse_map_roundtrip:
  assumes "map_ok m" and "i < 2 ^ 64" and "good_ip 48 ip" and "\<forall>d \<in> set ds. good_peer d"
    and "length ds \<le> MAX_PEERS"
  shows "case parse_map_static (render (map_json i ip ds)) None m of (ok, m') \<Rightarrow>
    ok \<and> c_str (node_id m') = show_nat i \<and> c_str (node_ipv4 m') = ip \<and>
    map describe (take (peer_count m') (peers m')) = ds"
proof -
  have ip: "clean ip" "plain ip" "ip \<noteq> []" "length ip < 48" "CHR ''/'' \<notin> set ip" "CHR '':'' \<notin> set ip"
    using assms(3) by (auto simp: good_ip_def clean_def)
  let ?c = "clear_map m"
  have c: "length (peers ?c) = MAX_PEERS" "list_all peer_ok (peers ?c)" "peer_count ?c = 0"
    "length (node_id ?c) = 32" "length (node_ipv4 ?c) = 48"
    using assms(1) by (simp_all add: clear_map_def map_ok_def zero_chars_def)
  let ?m1 = "?c\<lparr>node_id := safe_strncpy (node_id ?c) (show_nat i), node_ipv4 := safe_strncpy (node_ipv4 ?c) ip\<rparr>"
  let ?m2 = "?m1\<lparr>peers := fill_slots 0 ds (peers ?m1), peer_count := length ds\<rparr>"
  have "parse_peer_section None (render (map_json i ip ds)) ?m1 = ?m2"
    using assms(4,5) ip c by (intro peer_section_rendered) auto
  then have run: "parse_map_static (render (map_json i ip ds)) None m
      = (node_ipv4 ?m2 ! 0 \<noteq> CHR 0x00 \<or> peer_count ?m2 > 0, ?m2)"
    using parse_node_rendered [OF assms(2) ip(1,5,6), of ds ?c] no_derp [OF assms(4) ip(2)]
    by (simp add: parse_map_static_def Let_def map_json_def flip: clear_map_def)
  have "length (show_nat i) \<le> 20" using assms(2) by (intro length_show_nat) auto
  moreover have "plain (show_nat i)" using show_nat_digits [of i] by (auto simp: plain_def list_all_iff digit_plain)
  ultimately have id: "c_str (node_id ?m2) = show_nat i" using c by (simp add: c_str_strncpy)
  have v4: "c_str (node_ipv4 ?m2) = ip" using c ip by (simp add: c_str_strncpy)
  have "node_ipv4 ?m2 ! 0 \<noteq> CHR 0x00"
    using v4 ip by (cases "node_ipv4 ?m2") (auto simp: c_str_def safe_strncpy_def Let_def split: if_splits)
  moreover have "map describe (take (peer_count ?m2) (peers ?m2)) = ds"
    using describe_slots [OF assms(4), of "peers ?c" 0] c assms(5) by simp
  ultimately show ?thesis unfolding run using id v4 by simp
qed

definition sample_peer :: peer_desc where
  "sample_peer = \<lparr>pd_key = replicate 32 1, pd_disco = replicate 32 2, pd_name = ''lamp'',
     pd_endpoint = ''1.2.3.4:5'', pd_ip = ''100.64.0.7''\<rparr>"

lemma sample_peer_good: "good_peer sample_peer"
  by (simp add: sample_peer_def good_peer_def good_ip_def clean_def plain_char_def)

theorem parse_map_roundtrip_witness:
  "case parse_map_static (render (map_json 7 ''100.64.0.5'' [sample_peer])) None empty_map of (ok, m') \<Rightarrow>
    ok \<and> c_str (node_id m') = show_nat 7 \<and> c_str (node_ipv4 m') = ''100.64.0.5'' \<and>
    map describe (take (peer_count m') (peers m')) = [sample_peer]"
  by (rule parse_map_roundtrip [OF map_ok_empty])
     (simp_all add: good_ip_def clean_def plain_char_def sample_peer_good MAX_PEERS_def)

end
