(* ===== verification/Crypto_Box.thy ===== *)
theory Crypto_Box
  imports Ts_Prelude
begin

text \<open>
  \<^verbatim>\<open>crypto_box_simple.cpp\<close>: the Salsa20 family and the NaCl box built on it. The
  sixteen-word state is a list updated by index, as the macros update the array; the two
  primitives that come from libsodium, \<^verbatim>\<open>crypto_scalarmult_curve25519\<close> and
  \<^verbatim>\<open>crypto_onetimeauth_poly1305\<close> with its verification, are parameters. The wiping of
  temporaries and the logging are left out.
\<close>

section \<open>Words\<close>

definition rotl32 :: "u32 \<Rightarrow> nat \<Rightarrow> u32" where
  "rotl32 x b = push_bit b x OR drop_bit (32 - b) x"

text \<open>The \<^verbatim>\<open>QR\<close> macro on the elements at four indices; the four statements run in order.\<close>

definition QR :: "nat \<Rightarrow> nat \<Rightarrow> nat \<Rightarrow> nat \<Rightarrow> u32 list \<Rightarrow> u32 list" where
  "QR a b c d x =
     (let x = x[b := x ! b XOR rotl32 (x ! a + x ! d) 7];
          x = x[c := x ! c XOR rotl32 (x ! b + x ! a) 9];
          x = x[d := x ! d XOR rotl32 (x ! c + x ! b) 13]
      in x[a := x ! a XOR rotl32 (x ! d + x ! c) 18])"

definition store32_le :: "u32 \<Rightarrow> bytes" where
  "store32_le v = put_le32 v"

definition load32_le :: "nat \<Rightarrow> bytes \<Rightarrow> u32" where
  "load32_le i b = get_le32 (b ! i) (b ! (i + 1)) (b ! (i + 2)) (b ! (i + 3))"

definition double_round :: "u32 list \<Rightarrow> u32 list" where
  "double_round x =
     (let x = QR 0 4 8 12 x; x = QR 5 9 13 1 x; x = QR 10 14 2 6 x; x = QR 15 3 7 11 x;
          x = QR 0 1 2 3 x; x = QR 5 6 7 4 x; x = QR 10 11 8 9 x
      in QR 15 12 13 14 x)"

definition rounds20 :: "u32 list \<Rightarrow> u32 list" where
  "rounds20 x = (double_round ^^ 10) x"

section \<open>Blocks and streams\<close>

definition salsa20_input :: "bytes \<Rightarrow> bytes \<Rightarrow> u64 \<Rightarrow> u32 list" where
  "salsa20_input n k counter =
     [0x61707865, load32_le 0 k, load32_le 4 k, load32_le 8 k, load32_le 12 k, 0x3320646e,
      load32_le 0 n, load32_le 4 n, ucast counter, ucast (drop_bit 32 counter), 0x79622d32,
      load32_le 16 k, load32_le 20 k, load32_le 24 k, load32_le 28 k, 0x6b206574]"

definition salsa20_block :: "bytes \<Rightarrow> bytes \<Rightarrow> u64 \<Rightarrow> bytes" where
  "salsa20_block n k counter =
     (let input = salsa20_input n k counter
      in concat (map store32_le (map2 (+) (rounds20 input) input)))"

function stream_offset :: "nat \<Rightarrow> bytes \<Rightarrow> bytes \<Rightarrow> u64 \<Rightarrow> bytes" where
  "stream_offset clen n k counter =
     (if clen \<ge> 64 then salsa20_block n k counter @ stream_offset (clen - 64) n k (counter + 1)
      else if clen > 0 then take clen (salsa20_block n k counter) else [])"
  by pat_completeness auto
termination by (relation "measure (\<lambda>(l, _). l)") auto

declare stream_offset.simps [simp del]

definition stream_salsa20 :: "nat \<Rightarrow> bytes \<Rightarrow> bytes \<Rightarrow> bytes" where
  "stream_salsa20 clen n k = stream_offset clen n k 0"

definition hsalsa20 :: "bytes \<Rightarrow> bytes \<Rightarrow> bytes" where
  "hsalsa20 inp k =
     (let x = rounds20
        [0x61707865, load32_le 0 k, load32_le 4 k, load32_le 8 k, load32_le 12 k, 0x3320646e,
         load32_le 0 inp, load32_le 4 inp, load32_le 8 inp, load32_le 12 inp, 0x79622d32,
         load32_le 16 k, load32_le 20 k, load32_le 24 k, load32_le 28 k, 0x6b206574]
      in store32_le (x ! 0) @ store32_le (x ! 5) @ store32_le (x ! 10) @ store32_le (x ! 15)
         @ store32_le (x ! 6) @ store32_le (x ! 7) @ store32_le (x ! 8) @ store32_le (x ! 9))"

definition xor_bytes :: "bytes \<Rightarrow> bytes \<Rightarrow> bytes" where
  "xor_bytes a b = map2 (XOR) a b"

definition xsalsa20_xor :: "bytes \<Rightarrow> bytes \<Rightarrow> bytes \<Rightarrow> bytes" where
  "xsalsa20_xor m n k = xor_bytes m (stream_salsa20 (length m) (drop 16 n) (hsalsa20 n k))"

definition xsalsa20_keystream_skip32 :: "nat \<Rightarrow> bytes \<Rightarrow> bytes \<Rightarrow> bytes" where
  "xsalsa20_keystream_skip32 len n subkey =
     (if len = 0 then []
      else
        let block0 = stream_offset 64 (drop 16 n) subkey 0;
            produced = (if len < 32 then len else 32)
        in take produced (drop 32 block0)
           @ (if produced < len then stream_offset (len - produced) (drop 16 n) subkey 1 else []))"

section \<open>The box\<close>

definition box_beforenm :: "(bytes \<Rightarrow> bytes \<Rightarrow> bytes option) \<Rightarrow> bytes \<Rightarrow> bytes \<Rightarrow> bytes option" where
  "box_beforenm scalarmult pk sk = map_option (hsalsa20 (replicate 16 0)) (scalarmult sk pk)"

definition box_easy_afternm :: "(bytes \<Rightarrow> bytes \<Rightarrow> bytes) \<Rightarrow> bytes \<Rightarrow> bytes \<Rightarrow> bytes \<Rightarrow> bytes" where
  "box_easy_afternm onetimeauth m n key =
     (let poly1305_key = xsalsa20_xor (replicate 32 0) n key;
          subkey = hsalsa20 n key;
          ct = xor_bytes m (xsalsa20_keystream_skip32 (length m) n subkey)
      in onetimeauth ct poly1305_key @ ct)"

definition box_open_easy_afternm ::
    "(bytes \<Rightarrow> bytes \<Rightarrow> bytes \<Rightarrow> bool) \<Rightarrow> bytes \<Rightarrow> bytes \<Rightarrow> bytes \<Rightarrow> bytes option" where
  "box_open_easy_afternm verify c n key =
     (if length c < 16 then None
      else
        let poly1305_key = xsalsa20_xor (replicate 32 0) n key;
            subkey = hsalsa20 n key;
            ct = drop 16 c
        in if \<not> verify (take 16 c) ct poly1305_key then None
           else Some (xor_bytes ct (xsalsa20_keystream_skip32 (length ct) n subkey)))"

definition crypto_box_easy_simple ::
    "(bytes \<Rightarrow> bytes \<Rightarrow> bytes option) \<Rightarrow> (bytes \<Rightarrow> bytes \<Rightarrow> bytes) \<Rightarrow> bytes \<Rightarrow> bytes \<Rightarrow> bytes \<Rightarrow> bytes \<Rightarrow> bytes option" where
  "crypto_box_easy_simple scalarmult onetimeauth m n pk sk =
     map_option (box_easy_afternm onetimeauth m n) (box_beforenm scalarmult pk sk)"

definition crypto_box_open_easy_simple ::
    "(bytes \<Rightarrow> bytes \<Rightarrow> bytes option) \<Rightarrow> (bytes \<Rightarrow> bytes \<Rightarrow> bytes \<Rightarrow> bool) \<Rightarrow> bytes \<Rightarrow> bytes \<Rightarrow> bytes \<Rightarrow> bytes \<Rightarrow> bytes option" where
  "crypto_box_open_easy_simple scalarmult verify c n pk sk =
     Option.bind (box_beforenm scalarmult pk sk) (box_open_easy_afternm verify c n)"

section \<open>The rounds against their definition\<close>

text \<open>
  The quarter-round, row-round, column-round and double-round as the Salsa20 specification states
  them, on tuples of values instead of indices into one array.
\<close>

definition quarterround :: "u32 \<times> u32 \<times> u32 \<times> u32 \<Rightarrow> u32 \<times> u32 \<times> u32 \<times> u32" where
  "quarterround y = (case y of (y0, y1, y2, y3) \<Rightarrow>
     let z1 = y1 XOR word_rotl 7 (y0 + y3); z2 = y2 XOR word_rotl 9 (z1 + y0);
         z3 = y3 XOR word_rotl 13 (z2 + z1)
     in (y0 XOR word_rotl 18 (z3 + z2), z1, z2, z3))"

fun rowround :: "u32 list \<Rightarrow> u32 list" where
  "rowround [y0, y1, y2, y3, y4, y5, y6, y7, y8, y9, y10, y11, y12, y13, y14, y15] =
     (case quarterround (y0, y1, y2, y3) of (z0, z1, z2, z3) \<Rightarrow>
      case quarterround (y5, y6, y7, y4) of (z5, z6, z7, z4) \<Rightarrow>
      case quarterround (y10, y11, y8, y9) of (z10, z11, z8, z9) \<Rightarrow>
      case quarterround (y15, y12, y13, y14) of (z15, z12, z13, z14) \<Rightarrow>
        [z0, z1, z2, z3, z4, z5, z6, z7, z8, z9, z10, z11, z12, z13, z14, z15])"
| "rowround x = x"

fun transpose16 :: "u32 list \<Rightarrow> u32 list" where
  "transpose16 [x0, x1, x2, x3, x4, x5, x6, x7, x8, x9, x10, x11, x12, x13, x14, x15] =
     [x0, x4, x8, x12, x1, x5, x9, x13, x2, x6, x10, x14, x3, x7, x11, x15]"
| "transpose16 x = x"

definition columnround :: "u32 list \<Rightarrow> u32 list" where
  "columnround x = transpose16 (rowround (transpose16 x))"

lemma rotl32_word_rotl:
  assumes "0 < b" "b < 32"
  shows "rotl32 x b = word_rotl b x"
proof (rule bit_word_eqI)
  fix n assume n: "n < LENGTH(32)"
  have r: "bit (word_rotl b x) n = bit x ((n + (32 - b)) mod 32)"
    using n assms by (simp add: bit_word_rotl_iff)
  have l: "bit (rotl32 x b) n = ((b \<le> n \<and> bit x (n - b)) \<or> bit x (32 - b + n))"
    using n by (simp add: rotl32_def bit_or_iff bit_push_bit_iff bit_drop_bit_eq)
  show "bit (rotl32 x b) n = bit (word_rotl b x) n"
  proof (cases "n < b")
    case True
    then have "(n + (32 - b)) mod 32 = 32 - b + n" using assms by simp
    with True show ?thesis unfolding l r by simp
  next
    case False
    then have "n + (32 - b) = (n - b) + 32" "n - b < 32" using n assms by auto
    then have "(n + (32 - b)) mod 32 = n - b" by simp
    moreover have "\<not> bit x (32 - b + n)" using False assms by (auto dest: bit_imp_le_length)
    ultimately show ?thesis using False unfolding l r by simp
  qed
qed

lemma QR_quarterround:
  assumes "quarterround (x ! a, x ! b, x ! c, x ! d) = (z0, z1, z2, z3)"
    and "distinct [a, b, c, d]" "a < length x" "b < length x" "c < length x" "d < length x"
  shows "QR a b c d x = x[b := z1, c := z2, d := z3, a := z0]"
  using assms by (auto simp: QR_def quarterround_def Let_def rotl32_word_rotl)

lemma double_round_spec:
  assumes "length x = 16"
  shows "double_round x = rowround (columnround x)"
proof -
  obtain x0 x1 x2 x3 x4 x5 x6 x7 x8 x9 x10 x11 x12 x13 x14 x15
    where x: "x = [x0, x1, x2, x3, x4, x5, x6, x7, x8, x9, x10, x11, x12, x13, x14, x15]"
    using assms by (auto simp: length_Suc_conv numeral_eq_Suc)
  obtain a0 a4 a8 a12 where a: "quarterround (x0, x4, x8, x12) = (a0, a4, a8, a12)" by (cases "quarterround (x0, x4, x8, x12)")
  obtain a5 a9 a13 a1 where b: "quarterround (x5, x9, x13, x1) = (a5, a9, a13, a1)" by (cases "quarterround (x5, x9, x13, x1)")
  obtain a10 a14 a2 a6 where c: "quarterround (x10, x14, x2, x6) = (a10, a14, a2, a6)" by (cases "quarterround (x10, x14, x2, x6)")
  obtain a15 a3 a7 a11 where d: "quarterround (x15, x3, x7, x11) = (a15, a3, a7, a11)" by (cases "quarterround (x15, x3, x7, x11)")
  obtain b0 b1 b2 b3 where e: "quarterround (a0, a1, a2, a3) = (b0, b1, b2, b3)" by (cases "quarterround (a0, a1, a2, a3)")
  obtain b5 b6 b7 b4 where f: "quarterround (a5, a6, a7, a4) = (b5, b6, b7, b4)" by (cases "quarterround (a5, a6, a7, a4)")
  obtain b10 b11 b8 b9 where g: "quarterround (a10, a11, a8, a9) = (b10, b11, b8, b9)" by (cases "quarterround (a10, a11, a8, a9)")
  obtain b15 b12 b13 b14 where h: "quarterround (a15, a12, a13, a14) = (b15, b12, b13, b14)" by (cases "quarterround (a15, a12, a13, a14)")
  have "rowround (columnround x) = [b0, b1, b2, b3, b4, b5, b6, b7, b8, b9, b10, b11, b12, b13, b14, b15]"
    by (simp add: x columnround_def a b c d e f g h)
  moreover have "double_round x = [b0, b1, b2, b3, b4, b5, b6, b7, b8, b9, b10, b11, b12, b13, b14, b15]"
    unfolding double_round_def Let_def x
    by (simp add: QR_quarterround a b c d e f g h)
  ultimately show ?thesis by simp
qed

text \<open>
  The in-place double round of the macros computes the specified one: a column round, which
  is the row round of the transposed matrix, and then a row round.
\<close>

lemma double_round_refines:
  assumes "length x = 16"
  shows "double_round x = rowround (columnround x)"
  using assms by (rule double_round_spec)

lemma double_round_refines_witness:
  "double_round (map word_of_nat [0..<16]) = rowround (columnround (map word_of_nat [0..<16]))"
  by (rule double_round_refines) simp

section \<open>Key streams\<close>

lemma length_QR [simp]: "length (QR a b c d x) = length x"
  by (simp add: QR_def Let_def)

lemma length_rounds20 [simp]: "length (rounds20 x) = length x"
proof -
  have "length ((double_round ^^ n) x) = length x" for n
    by (induction n) (simp_all add: double_round_def Let_def)
  then show ?thesis by (simp add: rounds20_def)
qed

lemma length_store [simp]: "length (store32_le v) = 4"
  by (simp add: store32_le_def)

lemma length_concat_store: "length (concat (map store32_le xs)) = 4 * length xs"
  by (induction xs) auto

lemma length_salsa20_block [simp]: "length (salsa20_block n k c) = 64"
proof -
  have "length (salsa20_input n k c) = 16" by (simp add: salsa20_input_def)
  then show ?thesis unfolding salsa20_block_def Let_def length_concat_store by simp
qed

lemma length_stream [simp]: "length (stream_offset l n k c) = l"
proof (induction l n k c rule: stream_offset.induct)
  case (1 l n k c)
  then show ?case by (subst stream_offset.simps) auto
qed

lemma take_stream: "m \<le> l \<Longrightarrow> take m (stream_offset l n k c) = stream_offset m n k c"
proof (induction l n k c arbitrary: m rule: stream_offset.induct)
  case (1 l n k c)
  show ?case
  proof (cases "l \<ge> 64")
    case True
    show ?thesis
    proof (cases "m \<ge> 64")
      case m: True
      then have "take (m - 64) (stream_offset (l - 64) n k (c + 1)) = stream_offset (m - 64) n k (c + 1)"
        using 1 True by simp
      with True m show ?thesis by (subst (1 2) stream_offset.simps) simp
    next
      case False
      with True show ?thesis by (subst (1 2) stream_offset.simps) simp
    qed
  next
    case False
    with "1.prems" show ?thesis by (subst (1 2) stream_offset.simps) (simp add: min_def)
  qed
qed

lemma drop_block: "64 \<le> l \<Longrightarrow> drop 64 (stream_offset l n k c) = stream_offset (l - 64) n k (c + 1)"
  by (subst stream_offset.simps) simp

text \<open>
  The key stream behind the authenticator's key is computed without its first 32 bytes being
  produced again: it is exactly the stream of the box with 32 bytes dropped, for every length.
\<close>

lemma skip32_is_drop:
  "xsalsa20_keystream_skip32 len n subkey = drop 32 (stream_salsa20 (32 + len) (drop 16 n) subkey)"
proof -
  let ?s = "\<lambda>l. stream_offset l (drop 16 n) subkey"
  show ?thesis
  proof (cases "len < 32")
    case True
    have "take (32 + len) (?s 64 0) = ?s (32 + len) 0" using True by (intro take_stream) simp
    then have "drop 32 (?s (32 + len) 0) = take len (drop 32 (?s 64 0))"
      by (metis add_diff_cancel_left' drop_take)
    then show ?thesis using True by (auto simp: xsalsa20_keystream_skip32_def stream_salsa20_def Let_def)
  next
    case False
    then have l: "64 \<le> 32 + len" by simp
    have "take 64 (?s (32 + len) 0) = ?s 64 0" using l by (rule take_stream)
    moreover have "drop 64 (?s (32 + len) 0) = ?s (32 + len - 64) 1" using drop_block [OF l] by simp
    moreover have "32 + len - 64 = len - 32" by simp
    ultimately have "?s (32 + len) 0 = ?s 64 0 @ ?s (len - 32) 1"
      using append_take_drop_id [of 64 "?s (32 + len) 0"] by (simp only:)
    then have "drop 32 (?s (32 + len) 0) = drop 32 (?s 64 0) @ ?s (len - 32) 1" by simp
    moreover have "?s 0 1 = []" by (subst stream_offset.simps) simp
    ultimately show ?thesis using False
      by (auto simp: xsalsa20_keystream_skip32_def stream_salsa20_def Let_def)
  qed
qed

section \<open>Opening what was sealed\<close>

lemma xor_bytes_twice: "length k = length m \<Longrightarrow> xor_bytes (xor_bytes m k) k = m"
  unfolding xor_bytes_def by (induction k m rule: list_induct2) (auto simp: xor.assoc)

lemma length_xor_bytes [simp]: "length (xor_bytes a b) = min (length a) (length b)"
  by (simp add: xor_bytes_def)

lemma length_skip32 [simp]: "length (xsalsa20_keystream_skip32 l n k) = l"
  by (auto simp: xsalsa20_keystream_skip32_def Let_def)

lemma sealed_box_opens:
  assumes "scalarmult ska pkb = scalarmult skb pka"
    and "\<And>t m k. verify t m k = (t = onetimeauth m k)" and "\<And>m k. length (onetimeauth m k) = 16"
    and "crypto_box_easy_simple scalarmult onetimeauth m n pkb ska = Some c"
  shows "crypto_box_open_easy_simple scalarmult verify c n pka skb = Some m \<and> length c = length m + 16"
proof -
  obtain key where key: "box_beforenm scalarmult pkb ska = Some key"
    and c: "c = box_easy_afternm onetimeauth m n key"
    using assms(4) by (auto simp: crypto_box_easy_simple_def)
  have "box_beforenm scalarmult pka skb = Some key"
    using key assms(1) by (simp add: box_beforenm_def)
  then show ?thesis
    using assms(2,3) by (simp add: crypto_box_open_easy_simple_def c box_easy_afternm_def
        box_open_easy_afternm_def Let_def xor_bytes_twice)
qed

text \<open>
  What one side seals the other opens: when the two key pairs agree on a secret, and the
  authenticator's verification accepts exactly the tag it makes, the opened box is the message,
  for every message and nonce; the box is 16 bytes longer.
\<close>

lemma box_open_easy:
  assumes "scalarmult ska pkb = scalarmult skb pka"
    and "\<And>t m k. verify t m k = (t = onetimeauth m k)" and "\<And>m k. length (onetimeauth m k) = 16"
    and "crypto_box_easy_simple scalarmult onetimeauth m n pkb ska = Some c"
  shows "crypto_box_open_easy_simple scalarmult verify c n pka skb = Some m \<and> length c = length m + 16"
  by (rule sealed_box_opens [OF assms])

lemma box_open_easy_witness:
  "crypto_box_open_easy_simple (\<lambda>sk pk. Some (replicate 32 (sk ! 0 + pk ! 0))) (\<lambda>t m k. t = replicate 16 (k ! 0))
     (box_easy_afternm (\<lambda>m k. replicate 16 (k ! 0)) [1, 2, 3] (replicate 24 9) (hsalsa20 (replicate 16 0) (replicate 32 11)))
     (replicate 24 9) [4] [7] = Some [1, 2, 3] \<and>
   length (box_easy_afternm (\<lambda>m k. replicate 16 (k ! 0)) [1, 2, 3] (replicate 24 9) (hsalsa20 (replicate 16 0) (replicate 32 11)))
     = length [1, 2, 3 :: u8] + 16"
  by (rule box_open_easy [where onetimeauth = "\<lambda>m k. replicate 16 (k ! 0)" and ska = "[4]" and pkb = "[7]"])
     (simp_all add: crypto_box_easy_simple_def box_beforenm_def)

text \<open>
  A box is opened only if its tag is the authenticator's of its ciphertext under the key the
  nonce and the shared secret give; a box too short for a tag never is.
\<close>

lemma box_open_authentic:
  assumes "crypto_box_open_easy_simple scalarmult verify c n pk sk = Some m"
  shows "16 \<le> length c \<and> length m = length c - 16 \<and>
    (\<exists>s. scalarmult sk pk = Some s \<and>
       verify (take 16 c) (drop 16 c) (xsalsa20_xor (replicate 32 0) n (hsalsa20 (replicate 16 0) s)))"
  using assms by (auto simp: crypto_box_open_easy_simple_def box_beforenm_def box_open_easy_afternm_def
      Let_def bind_eq_Some_conv split: if_splits)

lemma box_open_authentic_witness:
  "16 \<le> length (replicate 16 (0 :: u8)) \<and> length ([] :: bytes) = length (replicate 16 (0 :: u8)) - 16 \<and>
    (\<exists>s. Some [5] = Some s \<and>
       (\<lambda>t m k. t = replicate 16 (0 :: u8)) (take 16 (replicate 16 (0 :: u8))) (drop 16 (replicate 16 (0 :: u8)))
         (xsalsa20_xor (replicate 32 0) (replicate 24 0) (hsalsa20 (replicate 16 0) s)))"
  by (rule box_open_authentic [where scalarmult = "\<lambda>sk pk. Some [5]" and sk = "[1]" and pk = "[2]"
        and verify = "\<lambda>t m k. t = replicate 16 (0 :: u8)"])
     (simp add: crypto_box_open_easy_simple_def box_beforenm_def box_open_easy_afternm_def xor_bytes_def)

lemma qr_numbers:
  "quarterround (y0, y1, y2, y3) =
     (let z1 = y1 XOR rotl32 (y0 + y3) 7; z2 = y2 XOR rotl32 (z1 + y0) 9; z3 = y3 XOR rotl32 (z2 + z1) 13
      in (y0 XOR rotl32 (z3 + z2) 18, z1, z2, z3))"
  by (simp add: quarterround_def rotl32_word_rotl)

lemma double_round_numbers:
  "double_round [x0, x1, x2, x3, x4, x5, x6, x7, x8, x9, x10, x11, x12, x13, x14, x15] =
   rowround (transpose16 (rowround (transpose16 [x0, x1, x2, x3, x4, x5, x6, x7, x8, x9, x10, x11, x12, x13, x14, x15])))"
  using double_round_spec [of "[x0, x1, x2, x3, x4, x5, x6, x7, x8, x9, x10, x11, x12, x13, x14, x15]"]
  by (simp only: columnround_def) simp

text \<open>The ten double rounds of the published example, one by one.\<close>

lemma known_round_1:
  "double_round
   [0x61707865, 0x5b9d5d4a, 0xe12dcea4, 0xf43b8e72, 0x250f3580, 0x3320646e, 0x00000000, 0x00000000,
    0x00000000, 0x00000000, 0x79622d32, 0xc9217ee0, 0x339ed147, 0x3c9bf076, 0x4217161e, 0x6b206574] =
   [0xbfbfbe6c, 0x71c8d19e, 0x36a00e1b, 0xcf3e9165, 0x9356f0a7, 0xc7d4bb64, 0xea74c975, 0xb0f4c673,
    0x5a04abd6, 0x24c79160, 0x2b23c226, 0x0f372564, 0x5e82239d, 0xabd906e0, 0x964e2e69, 0xafedb6ad]"
  by (simp add: double_round_numbers qr_numbers Let_def rotl32_def)

lemma known_round_2:
  "double_round
   [0xbfbfbe6c, 0x71c8d19e, 0x36a00e1b, 0xcf3e9165, 0x9356f0a7, 0xc7d4bb64, 0xea74c975, 0xb0f4c673,
    0x5a04abd6, 0x24c79160, 0x2b23c226, 0x0f372564, 0x5e82239d, 0xabd906e0, 0x964e2e69, 0xafedb6ad] =
   [0x8d11373b, 0x3b16ace5, 0x25404b97, 0x825f15b0, 0x5ef349c3, 0x4b5b41e3, 0xd92e9cef, 0x1630cdb6,
    0x77c358af, 0x28d2a6f0, 0x6d301128, 0x3ca2bdee, 0xfa6fe34f, 0xf057388d, 0xb9707ebb, 0x502a8eae]"
  by (simp add: double_round_numbers qr_numbers Let_def rotl32_def)

lemma known_round_3:
  "double_round
   [0x8d11373b, 0x3b16ace5, 0x25404b97, 0x825f15b0, 0x5ef349c3, 0x4b5b41e3, 0xd92e9cef, 0x1630cdb6,
    0x77c358af, 0x28d2a6f0, 0x6d301128, 0x3ca2bdee, 0xfa6fe34f, 0xf057388d, 0xb9707ebb, 0x502a8eae] =
   [0xa7fe22d0, 0x124e1e63, 0x7dd5ee22, 0x6569e9f2, 0xdc44f506, 0x66c88341, 0xe3f55b52, 0xe83cb685,
    0x0e0dd522, 0xaf476d7b, 0x768d8a5f, 0x703825f3, 0xf7ded5c2, 0x686438a2, 0xf7ebf910, 0x92a7c614]"
  by (simp add: double_round_numbers qr_numbers Let_def rotl32_def)

lemma known_round_4:
  "double_round
   [0xa7fe22d0, 0x124e1e63, 0x7dd5ee22, 0x6569e9f2, 0xdc44f506, 0x66c88341, 0xe3f55b52, 0xe83cb685,
    0x0e0dd522, 0xaf476d7b, 0x768d8a5f, 0x703825f3, 0xf7ded5c2, 0x686438a2, 0xf7ebf910, 0x92a7c614] =
   [0x42da5e2d, 0x2bc59429, 0xed296dee, 0xeadd096e, 0x7d2a4cae, 0x7b9de028, 0x237c0e5f, 0x63be6a38,
    0x8c5c3a48, 0xdaac12f4, 0xbac5a078, 0xe143bb95, 0xf1c937a2, 0x01bd245b, 0x7de69fcd, 0x142a88eb]"
  by (simp add: double_round_numbers qr_numbers Let_def rotl32_def)

lemma known_round_5:
  "double_round
   [0x42da5e2d, 0x2bc59429, 0xed296dee, 0xeadd096e, 0x7d2a4cae, 0x7b9de028, 0x237c0e5f, 0x63be6a38,
    0x8c5c3a48, 0xdaac12f4, 0xbac5a078, 0xe143bb95, 0xf1c937a2, 0x01bd245b, 0x7de69fcd, 0x142a88eb] =
   [0xc8c13420, 0x05075cdf, 0x53fd0724, 0xd17f2234, 0x39e3b7a7, 0xcf38b2a2, 0xb4231846, 0x30758fd2,
    0xf552ebd1, 0xa7da3002, 0x286267ce, 0x5bdb7a8f, 0x0cbc07e4, 0x51d16c7d, 0xf3bddff3, 0xd92132ba]"
  by (simp add: double_round_numbers qr_numbers Let_def rotl32_def)

lemma known_round_6:
  "double_round
   [0xc8c13420, 0x05075cdf, 0x53fd0724, 0xd17f2234, 0x39e3b7a7, 0xcf38b2a2, 0xb4231846, 0x30758fd2,
    0xf552ebd1, 0xa7da3002, 0x286267ce, 0x5bdb7a8f, 0x0cbc07e4, 0x51d16c7d, 0xf3bddff3, 0xd92132ba] =
   [0xd60d341d, 0x84df3cb2, 0x0cafdba0, 0x4c23d49f, 0x5d07ce58, 0x247a3619, 0x93ce5237, 0x48e0819c,
    0x7d712c26, 0x7a6adf92, 0x8377e90b, 0xfe66c193, 0x1677b552, 0x70e74f22, 0x51f34576, 0xb06d8823]"
  by (simp add: double_round_numbers qr_numbers Let_def rotl32_def)

lemma known_round_7:
  "double_round
   [0xd60d341d, 0x84df3cb2, 0x0cafdba0, 0x4c23d49f, 0x5d07ce58, 0x247a3619, 0x93ce5237, 0x48e0819c,
    0x7d712c26, 0x7a6adf92, 0x8377e90b, 0xfe66c193, 0x1677b552, 0x70e74f22, 0x51f34576, 0xb06d8823] =
   [0x4d59b5b4, 0x2c3b8972, 0x1e27c0b7, 0x4f422684, 0xad70478b, 0x2faaa5de, 0xa6683ffb, 0x4ac5501e,
    0xd3b78c7c, 0x6a183446, 0x3f818384, 0x9c4e59e0, 0xac074421, 0xcf3aa1a0, 0xce56cb15, 0xbcdcacc2]"
  by (simp add: double_round_numbers qr_numbers Let_def rotl32_def)

lemma known_round_8:
  "double_round
   [0x4d59b5b4, 0x2c3b8972, 0x1e27c0b7, 0x4f422684, 0xad70478b, 0x2faaa5de, 0xa6683ffb, 0x4ac5501e,
    0xd3b78c7c, 0x6a183446, 0x3f818384, 0x9c4e59e0, 0xac074421, 0xcf3aa1a0, 0xce56cb15, 0xbcdcacc2] =
   [0x1f972938, 0xf776092c, 0x9c4c2515, 0x9f0945d0, 0x12904b8a, 0xa69eff88, 0x03453420, 0x34a348c7,
    0x95e7a892, 0x427932b5, 0x51297995, 0xe10f3323, 0x8bd9bbe2, 0x9bbc65e7, 0xfe8e5015, 0x88c42c63]"
  by (simp add: double_round_numbers qr_numbers Let_def rotl32_def)

lemma known_round_9:
  "double_round
   [0x1f972938, 0xf776092c, 0x9c4c2515, 0x9f0945d0, 0x12904b8a, 0xa69eff88, 0x03453420, 0x34a348c7,
    0x95e7a892, 0x427932b5, 0x51297995, 0xe10f3323, 0x8bd9bbe2, 0x9bbc65e7, 0xfe8e5015, 0x88c42c63] =
   [0x8e23feff, 0xbb57e3a8, 0x2e9ce98e, 0xef005bda, 0x6576bd84, 0xf92a7c11, 0xcef956f3, 0x0be525b0,
    0x6793208b, 0x01735426, 0x95f43a74, 0x7f4f2be6, 0x5aad6d20, 0xaf8bf498, 0xe5ef8bf8, 0xf71b53c4]"
  by (simp add: double_round_numbers qr_numbers Let_def rotl32_def)

lemma known_round_10:
  "double_round
   [0x8e23feff, 0xbb57e3a8, 0x2e9ce98e, 0xef005bda, 0x6576bd84, 0xf92a7c11, 0xcef956f3, 0x0be525b0,
    0x6793208b, 0x01735426, 0x95f43a74, 0x7f4f2be6, 0x5aad6d20, 0xaf8bf498, 0xe5ef8bf8, 0xf71b53c4] =
   [0x6455271b, 0x61fb2532, 0xd014184f, 0x3d8fa8a0, 0x00012069, 0xd485e973, 0x9e540960, 0xf27464ac,
    0x08eec406, 0x8983f644, 0x1951cd62, 0xecd78af5, 0x0b98dc76, 0xa0891d1a, 0xac152dce, 0xc7469a7a]"
  by (simp add: double_round_numbers qr_numbers Let_def rotl32_def)

lemmas known_rounds = known_round_1 known_round_2 known_round_3 known_round_4 known_round_5
  known_round_6 known_round_7 known_round_8 known_round_9 known_round_10

lemma known_rounds20:
  "rounds20
   [0x61707865, 0x5b9d5d4a, 0xe12dcea4, 0xf43b8e72, 0x250f3580, 0x3320646e, 0x00000000, 0x00000000,
    0x00000000, 0x00000000, 0x79622d32, 0xc9217ee0, 0x339ed147, 0x3c9bf076, 0x4217161e, 0x6b206574] =
   [0x6455271b, 0x61fb2532, 0xd014184f, 0x3d8fa8a0, 0x00012069, 0xd485e973, 0x9e540960, 0xf27464ac,
    0x08eec406, 0x8983f644, 0x1951cd62, 0xecd78af5, 0x0b98dc76, 0xa0891d1a, 0xac152dce, 0xc7469a7a]"
proof -
  have ten: "(f ^^ 10) x = f (f (f (f (f (f (f (f (f (f x)))))))))" for f :: "u32 list \<Rightarrow> u32 list" and x
    by (simp add: eval_nat_numeral)
  show ?thesis by (simp only: rounds20_def ten known_rounds)
qed

text \<open>
  The key derivation reproduces the published value: HSalsa20 of the shared secret of
  "Cryptography in NaCl" under a zero input is that paper's first key.
\<close>

lemma hsalsa20_known_answer:
  "hsalsa20 (replicate 16 0)
   [0x4a, 0x5d, 0x9d, 0x5b, 0xa4, 0xce, 0x2d, 0xe1, 0x72, 0x8e, 0x3b, 0xf4, 0x80, 0x35, 0x0f, 0x25,
    0xe0, 0x7e, 0x21, 0xc9, 0x47, 0xd1, 0x9e, 0x33, 0x76, 0xf0, 0x9b, 0x3c, 0x1e, 0x16, 0x17, 0x42] =
   [0x1b, 0x27, 0x55, 0x64, 0x73, 0xe9, 0x85, 0xd4, 0x62, 0xcd, 0x51, 0x19, 0x7a, 0x9a, 0x46, 0xc7,
    0x60, 0x09, 0x54, 0x9e, 0xac, 0x64, 0x74, 0xf2, 0x06, 0xc4, 0xee, 0x08, 0x44, 0xf6, 0x83, 0x89]"
proof -
  have "hsalsa20 (replicate 16 0)
   [0x4a, 0x5d, 0x9d, 0x5b, 0xa4, 0xce, 0x2d, 0xe1, 0x72, 0x8e, 0x3b, 0xf4, 0x80, 0x35, 0x0f, 0x25,
    0xe0, 0x7e, 0x21, 0xc9, 0x47, 0xd1, 0x9e, 0x33, 0x76, 0xf0, 0x9b, 0x3c, 0x1e, 0x16, 0x17, 0x42] =
    (let x = rounds20
      [0x61707865, 0x5b9d5d4a, 0xe12dcea4, 0xf43b8e72, 0x250f3580, 0x3320646e, 0x00000000, 0x00000000,
    0x00000000, 0x00000000, 0x79622d32, 0xc9217ee0, 0x339ed147, 0x3c9bf076, 0x4217161e, 0x6b206574]
     in store32_le (x ! 0) @ store32_le (x ! 5) @ store32_le (x ! 10) @ store32_le (x ! 15)
         @ store32_le (x ! 6) @ store32_le (x ! 7) @ store32_le (x ! 8) @ store32_le (x ! 9))"
    by (simp add: hsalsa20_def load32_le_def get_le32_def)
  then show ?thesis by (simp add: known_rounds20 store32_le_def put_le32_def)
qed

end
