(* ===== verification/Derp_Session.thy ===== *)
theory Derp_Session
  imports Derp_Client
begin

text \<open>
  Correctness of \<open>Derp_Client\<close>: the frame format as an instance of \<open>framing\<close>, reading over
  any chunking of the stream, delivery of relayed packets, the answer to a ping, the handshake,
  the one place where a local buffer is overrun, and the frames whose payload stays in the
  stream and is taken for the headers that follow.
\<close>

section \<open>The frame format\<close>

definition derp_frame :: "u8 \<times> bytes \<Rightarrow> bytes" where
  "derp_frame f = derp_header (fst f) (word_of_nat (length (snd f))) @ snd f"

definition derp_decode :: "bytes \<Rightarrow> ((u8 \<times> bytes) \<times> bytes) option" where
  "derp_decode bs =
     (case bs of
        ty # a # b # c # e # r \<Rightarrow>
          let n = unat (get_be32 a b c e) in
          if n \<le> length r then Some ((ty, take n r), drop n r) else None
      | _ \<Rightarrow> None)"

definition derp_ok :: "u8 \<times> bytes \<Rightarrow> bool" where
  "derp_ok f \<longleftrightarrow> length (snd f) < 2 ^ 32"

lemma length_derp_header [simp]: "length (derp_header ty len) = 5"
  by (simp add: derp_header_def)

lemma derp_header_Cons:
  "derp_header ty len = [ty, ucast (drop_bit 24 len), ucast (drop_bit 16 len), ucast (drop_bit 8 len), ucast len]"
  by (simp add: derp_header_def put_be32_def)

lemma unat_word_of_nat_u32: "n < 2 ^ 32 \<Longrightarrow> unat (word_of_nat n :: u32) = n"
  by (simp add: unat_of_nat take_bit_nat_eq_self)

interpretation dpf: framing derp_frame derp_decode derp_ok
  by unfold_locales
     (auto simp: derp_frame_def derp_decode_def derp_ok_def derp_header_Cons codec_simps unat_word_of_nat_u32)

section \<open>Reading over any chunking\<close>

text \<open>The script begins with the bytes \<open>bs\<close>, cut into non-empty pieces, and goes on with \<open>r\<close>.\<close>

definition pending :: "derp \<Rightarrow> bytes \<Rightarrow> rx list \<Rightarrow> bool" where
  "pending d bs r \<longleftrightarrow> (\<exists>cs. script d = map Bytes cs @ r \<and> [] \<notin> set cs \<and> concat cs = bs)"

lemma pending_nil: "pending d [] r \<longleftrightarrow> script d = r"
proof
  assume "pending d [] r"
  then obtain cs where cs: "script d = map Bytes cs @ r" "[] \<notin> set cs" "concat cs = []"
    by (auto simp: pending_def)
  then show "script d = r" by (cases cs) auto
qed (auto simp: pending_def)

lemma pending_single: "script d = Bytes bs # r \<Longrightarrow> bs \<noteq> [] \<Longrightarrow> pending d bs r"
  unfolding pending_def by (rule exI [of _ "[bs]"]) auto

lemma sock_read_pending:
  assumes "pending d bs r" "bs \<noteq> []" "0 < n"
  shows "\<exists>k d'. sock_read n d = (Got (take k bs), d') \<and> 0 < k \<and> k \<le> n \<and> k \<le> length bs
    \<and> pending d' (drop k bs) r \<and> (\<exists>s. d' = d\<lparr>script := s\<rparr>)"
proof -
  obtain cs where cs: "script d = map Bytes cs @ r" "[] \<notin> set cs" "concat cs = bs"
    using assms(1) by (auto simp: pending_def)
  with assms(2) obtain c cs' where c: "cs = c # cs'" "c \<noteq> []" by (cases cs) auto
  let ?k = "min n (length c)"
  have k: "0 < ?k" "?k \<le> n" "?k \<le> length bs" using c cs(3) assms(3) by auto
  have t: "take ?k bs = take n c" using cs(3) c by (cases "n \<le> length c") auto
  show ?thesis
  proof (cases "length c \<le> n")
    case True
    then have "sock_read n d = (Got (take ?k bs), d\<lparr>script := map Bytes cs' @ r\<rparr>)"
      using cs(1) c t by (simp add: sock_read_def)
    moreover have "pending (d\<lparr>script := map Bytes cs' @ r\<rparr>) (drop ?k bs) r"
      unfolding pending_def by (rule exI [of _ cs']) (use True cs c in auto)
    ultimately show ?thesis using k by blast
  next
    case False
    then have "sock_read n d = (Got (take ?k bs), d\<lparr>script := Bytes (drop n c) # map Bytes cs' @ r\<rparr>)"
      using cs(1) c t by (simp add: sock_read_def)
    moreover have "pending (d\<lparr>script := Bytes (drop n c) # map Bytes cs' @ r\<rparr>) (drop ?k bs) r"
      unfolding pending_def by (rule exI [of _ "drop n c # cs'"]) (use False cs c in auto)
    ultimately show ?thesis using k by blast
  qed
qed

lemma store_check_fits: "length bs \<le> cap \<Longrightarrow> store_check cap bs d = d"
  by (simp add: store_check_def)

lemma payload_loop_pending:
  assumes "pending d bs r" "length got + m = len" "m \<le> length bs" "len \<le> cap"
  shows "\<exists>s. payload_loop cap start len got d = (Some (got @ take m bs), d\<lparr>script := s\<rparr>)
    \<and> pending (d\<lparr>script := s\<rparr>) (drop m bs) r"
  using assms
proof (induction m arbitrary: d bs got rule: less_induct)
  case (less m)
  show ?case
  proof (cases "m = 0")
    case True
    then have "payload_loop cap start len got d = (Some got, d)"
      using less.prems by (subst payload_loop.simps) simp
    moreover have "d\<lparr>script := script d\<rparr> = d" by simp
    ultimately show ?thesis using True less.prems(1) by (metis append_Nil2 drop0 take0)
  next
    case False
    with less.prems have ne: "bs \<noteq> []" "0 < m" "len - length got = m" "\<not> len \<le> length got" by auto
    from sock_read_pending [OF less.prems(1) ne(1,2)] obtain k d' s where
      k: "sock_read m d = (Got (take k bs), d')" "0 < k" "k \<le> m" "k \<le> length bs"
         "pending d' (drop k bs) r" "d' = d\<lparr>script := s\<rparr>" by blast
    have step: "payload_loop cap start len got d = payload_loop cap start len (got @ take k bs) d'"
      using ne k less.prems(2,4) by (subst payload_loop.simps) (simp add: store_check_fits)
    have pre: "m - k < m" "length (got @ take k bs) + (m - k) = len" "m - k \<le> length (drop k bs)"
      using k ne less.prems by auto
    from less.IH [OF pre(1) k(5) pre(2,3) less.prems(4)] obtain s' where s':
        "payload_loop cap start len (got @ take k bs) d' =
          (Some ((got @ take k bs) @ take (m - k) (drop k bs)), d'\<lparr>script := s'\<rparr>)"
        "pending (d'\<lparr>script := s'\<rparr>) (drop (m - k) (drop k bs)) r" by blast
    have "take k bs @ take (m - k) (drop k bs) = take m bs" using k(3)
      by (metis append_take_drop_id le_add_diff_inverse take_add)
    then show ?thesis using s' step k(3,6) by (auto simp: add.commute)
  qed
qed

lemma read_frame_payload_pending:
  assumes "pending d bs r" "unat len \<le> length bs" "unat len \<le> cap" "cap \<le> RECV_BUFFER_SIZE"
  shows "\<exists>s. read_frame_payload cap len d = (Some (take (unat len) bs), d\<lparr>script := s\<rparr>)
    \<and> pending (d\<lparr>script := s\<rparr>) (drop (unat len) bs) r"
proof (cases "len = 0")
  case True
  then show ?thesis using assms(1)
    by (auto simp: read_frame_payload_def intro!: exI [of _ "script d"])
next
  case False
  with payload_loop_pending [OF assms(1), of "[]" "unat len" "unat len" cap "millis d"] assms show ?thesis
    by (auto simp: read_frame_payload_def)
qed

text \<open>A header is read when its five bytes arrive in one piece.\<close>

definition header_ready :: "derp \<Rightarrow> bytes \<Rightarrow> rx list \<Rightarrow> bool" where
  "header_ready d bs r \<longleftrightarrow>
     (\<exists>c cs. script d = map Bytes (c # cs) @ r \<and> 5 \<le> length c \<and> [] \<notin> set cs \<and> concat (c # cs) = bs)"

lemma read_header_ready:
  assumes "header_ready d (derp_header ty len @ bs) r"
  shows "\<exists>s. read_frame_header d = (Some (ty, len), d\<lparr>script := s\<rparr>) \<and> pending (d\<lparr>script := s\<rparr>) bs r"
proof -
  obtain c cs where c: "script d = map Bytes (c # cs) @ r" "5 \<le> length c" "[] \<notin> set cs"
      "c @ concat cs = derp_header ty len @ bs"
    using assms by (auto simp: header_ready_def)
  have t: "take 5 c = derp_header ty len" and dr: "drop 5 c @ concat cs = bs"
    using c(2,4) by (metis append_eq_append_conv_if length_derp_header)+
  show ?thesis
  proof (cases "length c = 5")
    case True
    with dr t have cs: "concat cs = bs" "c = derp_header ty len" by auto
    have "read_frame_header d = (Some (ty, len), d\<lparr>script := map Bytes cs @ r\<rparr>)"
      using c(1) cs by (simp add: read_frame_header_def sock_read_def FRAME_HEADER_LEN_def
          derp_header_Cons codec_simps)
    then show ?thesis using cs(1) c(3) by (auto simp: pending_def)
  next
    case False
    with c(2) have l: "\<not> length c \<le> 5" "length (take 5 c) = 5" by auto
    have "read_frame_header d = (Some (ty, len), d\<lparr>script := Bytes (drop 5 c) # map Bytes cs @ r\<rparr>)"
      using c(1) l t by (simp add: read_frame_header_def sock_read_def FRAME_HEADER_LEN_def
          derp_header_Cons codec_simps)
    moreover have "pending (d\<lparr>script := Bytes (drop 5 c) # map Bytes cs @ r\<rparr>) bs r"
      unfolding pending_def by (rule exI [of _ "drop 5 c # cs"]) (use c(3) dr l in auto)
    ultimately show ?thesis by blast
  qed
qed

section \<open>One call on a ready connection\<close>

definition ready_at :: "u32 \<Rightarrow> derp \<Rightarrow> bool" where
  "ready_at now d \<longleftrightarrow> d_state d = READY \<and> \<not> now - last_keep_alive d > KEEP_ALIVE_INTERVAL_MS
     \<and> \<not> now - last_activity d > IDLE_TIMEOUT_MS"

lemma dispatch_simps:
  "dispatch RECV_PACKET len d = handle_recv_packet len d"
  "dispatch KEEP_ALIVE len d = d"
  "dispatch PING len d = handle_ping len d"
  by (simp_all add: dispatch_def frame_type_defs)

lemma process_ready_at:
  assumes "ready_at now d"
  shows "process box nonce now d =
    (case read_frame_header (d\<lparr>millis := now\<rparr>) of (None, e) \<Rightarrow> e
     | (Some (ty, len), e) \<Rightarrow> dispatch ty len (e\<lparr>last_activity := now\<rparr>))"
  using assms by (simp add: ready_at_def process_def process_client_info_def process_server_info_def
      process_ready_def Let_def)

lemma header_ready_cong:
  "script d = script e \<Longrightarrow> header_ready d bs r = header_ready e bs r"
  "script d = script e \<Longrightarrow> pending d bs r = pending e bs r"
  by (simp_all add: header_ready_def pending_def)

lemma process_frame:
  assumes "ready_at now d" "header_ready d (derp_header ty len @ bs) r"
  shows "\<exists>s. process box nonce now d = dispatch ty len (d\<lparr>millis := now, last_activity := now, script := s\<rparr>)
    \<and> pending (d\<lparr>millis := now, last_activity := now, script := s\<rparr>) bs r"
proof -
  have "header_ready (d\<lparr>millis := now\<rparr>) (derp_header ty len @ bs) r"
    using assms(2) by (simp add: header_ready_def)
  from read_header_ready [OF this] obtain s where
    h: "read_frame_header (d\<lparr>millis := now\<rparr>) = (Some (ty, len), d\<lparr>millis := now, script := s\<rparr>)"
    "pending (d\<lparr>millis := now, script := s\<rparr>) bs r" by auto
  have c: "d\<lparr>millis := now, script := s, last_activity := now\<rparr> =
      d\<lparr>millis := now, last_activity := now, script := s\<rparr>" by (rule derp.equality) simp_all
  have "process box nonce now d = dispatch ty len (d\<lparr>millis := now, last_activity := now, script := s\<rparr>)"
    by (simp add: process_ready_at [OF assms(1)] h(1) c)
  moreover have "pending (d\<lparr>millis := now, last_activity := now, script := s\<rparr>) bs r"
    using h(2) by (simp add: pending_def)
  ultimately show ?thesis by blast
qed

lemma derp_send_frame_ok:
  assumes "accepts d = (\<lambda>_. length)"
  shows "derp_send_frame ty p d =
    (True, d\<lparr>tx := tx d @ derp_header ty (word_of_nat (length p)) # (if p = [] then [] else [p])\<rparr>)"
  using assms by (simp add: derp_send_frame_def sock_write_def)

lemma handle_ping_ok:
  assumes "read_frame_payload 8 8 e = (Some x, e')" "accepts e' = (\<lambda>_. length)" "length x = 8"
  shows "handle_ping 8 e = e'\<lparr>tx := tx e' @ [derp_header PONG 8, x]\<rparr>"
proof -
  have "x \<noteq> []" "(word_of_nat (length x) :: u32) = 8" using assms(3) by auto
  then show ?thesis using assms(1) by (simp add: handle_ping_def derp_send_frame_ok [OF assms(2)])
qed

lemma recv_packet_core:
  assumes "ready_at now d" "has_cb d" "length k = 32" "length p \<le> 2016"
    and "header_ready d (derp_frame (RECV_PACKET, k @ p) @ bs) r"
  shows "\<exists>s. process box nonce now d =
      d\<lparr>millis := now, last_activity := now, script := s, delivered := delivered d @ [(k, p)]\<rparr>
    \<and> pending (d\<lparr>script := s\<rparr>) bs r"
proof -
  define len :: u32 where "len = word_of_nat (length (k @ p))"
  have n: "unat len = 32 + length p"
    unfolding len_def by (subst unat_word_of_nat_u32) (use assms(3,4) in auto)
  have "header_ready d (derp_header RECV_PACKET len @ (k @ p) @ bs) r"
    using assms(5) unfolding len_def by (simp add: derp_frame_def)
  from process_frame [OF assms(1) this] obtain s where
    s: "process box nonce now d = dispatch RECV_PACKET len (d\<lparr>millis := now, last_activity := now, script := s\<rparr>)"
       "pending (d\<lparr>millis := now, last_activity := now, script := s\<rparr>) ((k @ p) @ bs) r" by blast
  from read_frame_payload_pending [OF s(2), of len RECV_BUFFER_SIZE] n assms(3,4) obtain s' where
    "read_frame_payload RECV_BUFFER_SIZE len (d\<lparr>millis := now, last_activity := now, script := s\<rparr>) =
       (Some (k @ p), d\<lparr>millis := now, last_activity := now, script := s'\<rparr>)"
    "pending (d\<lparr>millis := now, last_activity := now, script := s'\<rparr>) bs r"
    by (auto simp: RECV_BUFFER_SIZE_def)
  then have "process box nonce now d =
      d\<lparr>millis := now, last_activity := now, script := s', delivered := delivered d @ [(k, p)]\<rparr>"
    "pending (d\<lparr>script := s'\<rparr>) bs r"
    using s(1) n assms(2,3) by (simp_all add: dispatch_simps handle_recv_packet_def KEY_LEN_def pending_def)
  then show ?thesis by blast
qed

text \<open>
  C27. A relayed packet of at most 2016 bytes is handed to the callback exactly as sent, with the
  key of its sender, whatever the chunking of its payload, and the stream is left at the frame
  behind it.
\<close>

theorem recv_packet_delivered:
  assumes "ready_at now d" "has_cb d" "length k = 32" "length p \<le> 2016"
    and "header_ready d (derp_frame (RECV_PACKET, k @ p) @ bs) r"
  shows "\<exists>s. process box nonce now d =
      d\<lparr>millis := now, last_activity := now, script := s, delivered := delivered d @ [(k, p)]\<rparr>
    \<and> pending (d\<lparr>script := s\<rparr>) bs r"
  by (rule recv_packet_core [OF assms])

text \<open>
  A ping is answered at once by a pong with its eight bytes.
\<close>

lemma ping_answered:
  assumes "ready_at now d" "accepts d = (\<lambda>_. length)" "length x = 8"
    and "header_ready d (derp_frame (PING, x) @ bs) r"
  shows "\<exists>s. process box nonce now d =
      d\<lparr>millis := now, last_activity := now, script := s, tx := tx d @ [derp_header PONG 8, x]\<rparr>
    \<and> pending (d\<lparr>script := s\<rparr>) bs r"
proof -
  have n: "word_of_nat (length x) = (8 :: u32)" using assms(3) by simp
  have "header_ready d (derp_header PING 8 @ x @ bs) r" using assms(4) n by (simp add: derp_frame_def)
  from process_frame [OF assms(1) this] obtain s where
    s: "process box nonce now d = dispatch PING 8 (d\<lparr>millis := now, last_activity := now, script := s\<rparr>)"
       "pending (d\<lparr>millis := now, last_activity := now, script := s\<rparr>) (x @ bs) r" by blast
  from read_frame_payload_pending [OF s(2), of 8 8] assms(3) obtain s' where
    "read_frame_payload 8 8 (d\<lparr>millis := now, last_activity := now, script := s\<rparr>) =
       (Some x, d\<lparr>millis := now, last_activity := now, script := s'\<rparr>)"
    "pending (d\<lparr>millis := now, last_activity := now, script := s'\<rparr>) bs r"
    by (auto simp: RECV_BUFFER_SIZE_def)
  then have "process box nonce now d =
      d\<lparr>millis := now, last_activity := now, script := s', tx := tx d @ [derp_header PONG 8, x]\<rparr>"
    "pending (d\<lparr>script := s'\<rparr>) bs r"
    using s(1) assms(2,3) handle_ping_ok by (simp_all add: dispatch_simps pending_def)
  then show ?thesis by blast
qed

text \<open>A ready connection whose script is \<open>sc\<close>, and a socket that takes every write.\<close>

definition relay_at :: "derp_state \<Rightarrow> rx list \<Rightarrow> derp" where
  "relay_at st sc = \<lparr>server_host = ''derp'', server_port = 443, use_tls = True, our_node_key = replicate 32 1,
     our_node_key_priv = replicate 32 2, server_public_key = [], d_state = st, has_cb = True, sock_open = True,
     derp_buffer = [], last_keep_alive = 0, last_activity = 0, millis = 0, script = sc, tx = [],
     accepts = (\<lambda>_. length), delivered = [], smashed = False, oom_recovery_attempts = 0, restarted = False\<rparr>"

lemma relay_at_sel [simp]:
  "d_state (relay_at st sc) = st" "script (relay_at st sc) = sc" "tx (relay_at st sc) = []"
  "accepts (relay_at st sc) = (\<lambda>_. length)" "has_cb (relay_at st sc)" "delivered (relay_at st sc) = []"
  "last_keep_alive (relay_at st sc) = 0" "last_activity (relay_at st sc) = 0" "\<not> smashed (relay_at st sc)"
  by (simp_all add: relay_at_def)

lemma ready_at_relay: "now \<le> 60000 \<Longrightarrow> ready_at now (relay_at READY sc)"
  by (auto simp: ready_at_def KEEP_ALIVE_INTERVAL_MS_def IDLE_TIMEOUT_MS_def word_le_nat_alt word_less_nat_alt)

lemma header_ready_single: "script d = Bytes bs # r \<Longrightarrow> 5 \<le> length bs \<Longrightarrow> header_ready d bs r"
  unfolding header_ready_def by (rule exI [of _ bs], rule exI [of _ "[]"]) simp

lemma length_derp_frame: "length (derp_frame f) = 5 + length (snd f)"
  by (simp add: derp_frame_def)

theorem recv_packet_delivered_witness:
  "\<exists>s. process (\<lambda>_ _ _ _. None) [] 7 (relay_at READY [Bytes (derp_frame (RECV_PACKET, replicate 32 3 @ [1, 2, 3]))]) =
     (relay_at READY [Bytes (derp_frame (RECV_PACKET, replicate 32 3 @ [1, 2, 3]))])
       \<lparr>millis := 7, last_activity := 7, script := s, delivered := [(replicate 32 3, [1, 2, 3])]\<rparr>"
  using recv_packet_delivered [where now = 7 and k = "replicate 32 3" and p = "[1, 2, 3]" and bs = "[]" and r = "[]"
      and d = "relay_at READY [Bytes (derp_frame (RECV_PACKET, replicate 32 3 @ [1, 2, 3]))]",
      OF ready_at_relay _ _ _ header_ready_single]
  by (auto simp: length_derp_frame)

lemma ping_answered_witness:
  "\<exists>s. process (\<lambda>_ _ _ _. None) [] 7 (relay_at READY [Bytes (derp_frame (PING, [1, 2, 3, 4, 5, 6, 7, 8]))]) =
     (relay_at READY [Bytes (derp_frame (PING, [1, 2, 3, 4, 5, 6, 7, 8]))])
       \<lparr>millis := 7, last_activity := 7, script := s, tx := [derp_header PONG 8, [1, 2, 3, 4, 5, 6, 7, 8]]\<rparr>"
  using ping_answered [where now = 7 and x = "[1, 2, 3, 4, 5, 6, 7, 8]" and bs = "[]" and r = "[]"
      and d = "relay_at READY [Bytes (derp_frame (PING, [1, 2, 3, 4, 5, 6, 7, 8]))]",
      OF ready_at_relay _ _ header_ready_single]
  by (auto simp: length_derp_frame)

text \<open>
  A packet for a peer goes out as one \<^verbatim>\<open>SEND_PACKET\<close> frame of the peer's key and the
  packet, which the frame decoder splits again; off the ready state, or above 1500 bytes,
  nothing is written.
\<close>

lemma send_packet_wire:
  assumes "accepts d = (\<lambda>_. length)" "length key = 32"
  shows "if d_state d = READY \<and> length p \<le> 1500
    then fst (send_packet key p d) \<and> tx (snd (send_packet key p d)) = tx d @ [derp_header SEND_PACKET (word_of_nat (32 + length p)), key @ p]
      \<and> derp_decode (concat (drop (length (tx d)) (tx (snd (send_packet key p d)))) @ more_bytes) = Some ((SEND_PACKET, key @ p), more_bytes)
    else send_packet key p d = (False, d)"
proof (cases "d_state d = READY \<and> length p \<le> 1500")
  case True
  have "key @ p \<noteq> []" using assms(2) by auto
  then have s: "send_packet key p d = (True, d\<lparr>tx := tx d @ [derp_header SEND_PACKET (word_of_nat (32 + length p)), key @ p],
      last_activity := millis d\<rparr>)"
    using True assms(2) by (simp add: send_packet_def MAX_PACKET_SIZE_def derp_send_frame_ok [OF assms(1)])
  have "derp_ok (SEND_PACKET, key @ p)" using True assms(2) by (simp add: derp_ok_def)
  from dpf.dec_enc [OF this, of more_bytes] show ?thesis
    using True assms(2) by (simp add: s derp_frame_def)
next
  case False
  then show ?thesis by (auto simp: send_packet_def MAX_PACKET_SIZE_def)
qed

lemma send_packet_wire_witness:
  "fst (send_packet (replicate 32 3) [1, 2, 3] (relay_at READY []))"
  using send_packet_wire [of "relay_at READY []" "replicate 32 3" "[1, 2, 3]" "[]"] by simp

section \<open>The handshake\<close>

text \<open>The buffer of the server's key holds 256 bytes, and the payload loop allows 2048.\<close>

lemma store_check_sel [simp]:
  "script (store_check cap bs d) = script d" "smashed (store_check cap bs d) = (smashed d \<or> length bs > cap)"
  by (auto simp: store_check_def)

lemma payload_loop_single:
  assumes "script d = Bytes bs # r" "0 < n" "n \<le> length bs"
  shows "payload_loop cap start n [] d =
    (Some (take n bs), store_check cap (take n bs) (d\<lparr>script := (if length bs = n then r else Bytes (drop n bs) # r)\<rparr>))"
proof -
  have "sock_read n d = (Got (take n bs), d\<lparr>script := (if length bs = n then r else Bytes (drop n bs) # r)\<rparr>)"
    using assms by (auto simp: sock_read_def)
  moreover have "take n bs \<noteq> []" using assms by auto
  moreover have "payload_loop cap start n (take n bs) e = (Some (take n bs), e)" for e
    using assms by (subst payload_loop.simps) simp
  ultimately show ?thesis using assms by (subst payload_loop.simps) simp
qed

lemma read_frame_header_single:
  assumes "script d = Bytes (derp_header ty len @ bs) # r"
  shows "read_frame_header d = (Some (ty, len), d\<lparr>script := (if bs = [] then r else Bytes bs # r)\<rparr>)"
  using assms by (auto simp: read_frame_header_def sock_read_def FRAME_HEADER_LEN_def derp_header_Cons codec_simps)

text \<open>
  A server that announces a key frame of 257 to 2048 bytes makes the client store all of
  them in a buffer of 256: the length is checked from below only.
\<close>

lemma server_key_overruns:
  assumes "d_state d = WAIT_SERVER_KEY" "256 < length p" "length p \<le> 2048"
    and "script d = [Bytes (derp_frame (SERVER_KEY, p))]"
  shows "smashed (snd (handle_server_key d))"
proof -
  define len :: u32 where "len = word_of_nat (length p)"
  have n: "unat len = length p" unfolding len_def by (rule unat_word_of_nat_u32) (use assms(3) in simp)
  have p: "p \<noteq> []" "len \<noteq> 0" using assms(2) n by auto
  let ?d = "d\<lparr>script := [Bytes p]\<rparr>"
  have h: "read_frame_header d = (Some (SERVER_KEY, len), ?d)"
    using read_frame_header_single [of d SERVER_KEY len p "[]"] assms(4) p by (simp add: derp_frame_def len_def)
  have "read_frame_payload 256 len ?d = (Some p, store_check 256 p (?d\<lparr>script := []\<rparr>))"
    using payload_loop_single [of ?d p "[]" "length p"] n p assms(3)
    by (simp add: read_frame_payload_def RECV_BUFFER_SIZE_def)
  then show ?thesis using h n assms(2)
    by (simp add: handle_server_key_def KEY_LEN_def DERP_MAGIC_def)
qed

lemma server_key_overruns_witness:
  "smashed (snd (handle_server_key (relay_at WAIT_SERVER_KEY [Bytes (derp_frame (SERVER_KEY, replicate 300 7))])))"
  using server_key_overruns [of "relay_at WAIT_SERVER_KEY [Bytes (derp_frame (SERVER_KEY, replicate 300 7))]" "replicate 300 7"]
  by simp

text \<open>Nowhere else is a buffer overrun: reads into large enough buffers keep the mark.\<close>

lemma sock_read_smashed: "smashed (snd (sock_read n d)) = smashed d"
  by (auto simp: sock_read_def split: list.splits rx.splits)

lemma sock_read_length: "sock_read n d = (Got bs, d') \<Longrightarrow> length bs \<le> n"
  by (auto simp: sock_read_def split: list.splits rx.splits)

lemma sock_write_smashed: "smashed (snd (sock_write bs d)) = smashed d"
  by (simp add: sock_write_def Let_def)

lemma derp_send_frame_smashed: "smashed (snd (derp_send_frame ty p d)) = smashed d"
  using sock_write_smashed by (auto simp: derp_send_frame_def split: prod.splits bool.splits) (metis snd_conv)+

lemma read_frame_header_smashed: "smashed (snd (read_frame_header d)) = smashed d"
  using sock_read_smashed [of FRAME_HEADER_LEN d]
  by (auto simp: read_frame_header_def disconnect_def split: prod.splits read_result.splits)

lemma payload_loop_smashed:
  "length got \<le> len \<Longrightarrow> len \<le> cap \<Longrightarrow> smashed (snd (payload_loop cap start len got d)) = smashed d"
proof (induction cap start len got d rule: payload_loop.induct)
  case (1 cap start len got d)
  show ?case
  proof (cases "length got \<ge> len")
    case True
    then show ?thesis by (subst payload_loop.simps) simp
  next
    case False
    obtain r d' where r: "sock_read (len - length got) d = (r, d')" by fastforce
    have s: "smashed d' = smashed d" using sock_read_smashed [of "len - length got" d] r by simp
    show ?thesis
    proof (cases r)
      case (Got bs)
      have l: "length (got @ bs) \<le> len" using sock_read_length r Got False by fastforce
      have "smashed (store_check cap (got @ bs) d') = smashed d" using s l "1.prems"(2) by auto
      then show ?thesis using "1.IH"(1) [OF False r [symmetric] Got] r Got False s l "1.prems"(2)
        by (subst payload_loop.simps) (auto split: if_splits)
    next
      case Again
      then show ?thesis using "1.IH"(2) [OF False r [symmetric] Again] r False s "1.prems"
        by (subst payload_loop.simps) auto
    qed (use r False s in \<open>(subst payload_loop.simps, simp)+\<close>)
  qed
qed

lemma read_frame_payload_smashed:
  "unat len \<le> cap \<or> RECV_BUFFER_SIZE \<le> cap \<Longrightarrow> smashed (snd (read_frame_payload cap len d)) = smashed d"
  by (auto simp: read_frame_payload_def payload_loop_smashed)

lemma smashed_sndD:
  "read_frame_header d = (x, d') \<Longrightarrow> smashed d' = smashed d"
  "read_frame_payload RECV_BUFFER_SIZE len d = (y, d') \<Longrightarrow> smashed d' = smashed d"
  "unat len \<le> cap \<Longrightarrow> read_frame_payload cap len d = (y, d') \<Longrightarrow> smashed d' = smashed d"
  "derp_send_frame ty p d = (b, d') \<Longrightarrow> smashed d' = smashed d"
  using read_frame_header_smashed [of d] read_frame_payload_smashed [of len RECV_BUFFER_SIZE d]
    read_frame_payload_smashed [of len cap d] derp_send_frame_smashed [of ty p d] by auto

lemma handle_server_info_smashed: "smashed (snd (handle_server_info d)) = smashed d"
  by (auto simp: handle_server_info_def smashed_sndD split: prod.splits option.splits)

lemma send_client_info_smashed: "smashed (snd (send_client_info box nonce d)) = smashed d"
  by (auto simp: send_client_info_def derp_send_frame_smashed split: option.splits)

lemma dispatch_smashed: "smashed (dispatch ty len d) = smashed d"
proof -
  have "smashed (handle_recv_packet len d) = smashed d"
    by (auto simp: handle_recv_packet_def smashed_sndD split: prod.splits option.splits)
  moreover have "smashed (handle_ping len d) = smashed d"
    by (auto simp: handle_ping_def derp_send_frame_smashed smashed_sndD(3) [where len = 8 and cap = 8] split: prod.splits option.splits)
  moreover have "smashed (discard_payload len d) = smashed d"
    by (auto simp: discard_payload_def read_frame_payload_smashed)
  moreover have "smashed (handle_health len d) = smashed d"
    by (auto simp: handle_health_def word_less_nat_alt intro!: read_frame_payload_smashed)
  ultimately show ?thesis by (simp add: dispatch_def)
qed

lemma process_ready_smashed: "smashed (process_ready now d) = smashed d"
proof -
  have "smashed (case read_frame_header e of (None, d) \<Rightarrow> d | (Some (ty, len), d) \<Rightarrow> dispatch ty len (d\<lparr>last_activity := now\<rparr>))
      = smashed e" for e
    by (auto simp: dispatch_smashed smashed_sndD split: prod.splits option.splits)
  then show ?thesis by (simp add: process_ready_def Let_def disconnect_def derp_send_frame_smashed)
qed

lemma process_server_info_smashed: "smashed (process_server_info now d) = smashed d"
  using handle_server_info_smashed [of d]
  by (auto simp: process_server_info_def process_ready_smashed split: prod.splits bool.splits)

lemma process_client_info_smashed: "smashed (process_client_info box nonce now d) = smashed d"
  using send_client_info_smashed [of box nonce d]
  by (auto simp: process_client_info_def process_server_info_smashed split: prod.splits bool.splits)

text \<open>The states of the handshake: where a call may take the connection.\<close>

inductive derp_edge :: "derp_state \<Rightarrow> derp_state \<Rightarrow> bool" where
  got_key: "derp_edge WAIT_SERVER_KEY SEND_CLIENT_INFO"
| sent_info: "derp_edge SEND_CLIENT_INFO WAIT_SERVER_INFO"
| send_failed: "derp_edge SEND_CLIENT_INFO ERROR"
| got_info: "derp_edge WAIT_SERVER_INFO READY"
| stream_ended: "s \<in> {WAIT_SERVER_KEY, WAIT_SERVER_INFO, READY} \<Longrightarrow> derp_edge s DISCONNECTED"

inductive_cases derp_edgeE: "derp_edge s t"

abbreviation derp_path :: "derp_state \<Rightarrow> derp_state \<Rightarrow> bool" where
  "derp_path \<equiv> derp_edge\<^sup>*\<^sup>*"

lemma derp_path_fwd:
  "derp_path SEND_CLIENT_INFO t \<Longrightarrow> derp_path WAIT_SERVER_KEY t"
  "derp_path WAIT_SERVER_INFO t \<Longrightarrow> derp_path SEND_CLIENT_INFO t"
  "derp_path READY t \<Longrightarrow> derp_path WAIT_SERVER_INFO t"
  by (blast intro: converse_rtranclp_into_rtranclp derp_edge.intros)+

lemma derp_path_one: "derp_edge s t \<Longrightarrow> derp_path s t"
  by (rule r_into_rtranclp)

lemma derp_path_ended:
  "derp_path READY DISCONNECTED" "derp_path WAIT_SERVER_INFO DISCONNECTED" "derp_path WAIT_SERVER_KEY DISCONNECTED"
  by (rule derp_path_one [OF stream_ended], simp)+

lemma derp_path_no_key: "derp_path s t \<Longrightarrow> s \<noteq> WAIT_SERVER_KEY \<Longrightarrow> t \<noteq> WAIT_SERVER_KEY"
  by (induction rule: rtranclp_induct) (auto elim: derp_edgeE)

lemma sock_read_state: "sock_read n d = (x, d') \<Longrightarrow> d_state d' = d_state d"
  by (auto simp: sock_read_def split: list.splits rx.splits)

lemma payload_loop_state: "d_state (snd (payload_loop cap start len got d)) = d_state d"
proof (induction cap start len got d rule: payload_loop.induct)
  case (1 cap start len got d)
  show ?case
  proof (cases "length got \<ge> len")
    case True
    then show ?thesis by (subst payload_loop.simps) simp
  next
    case False
    obtain r d' where r: "sock_read (len - length got) d = (r, d')" by fastforce
    have c: "d_state (store_check cap (got @ bs) d') = d_state d'" for bs by (simp add: store_check_def)
    show ?thesis using False r sock_read_state [OF r] "1.IH" c
      by (subst payload_loop.simps) (auto split: read_result.splits)
  qed
qed

lemma read_frame_payload_state: "d_state (snd (read_frame_payload cap len d)) = d_state d"
  by (auto simp: read_frame_payload_def payload_loop_state)

lemma derp_send_frame_state: "d_state (snd (derp_send_frame ty p d)) = d_state d"
  by (simp add: derp_send_frame_def sock_write_def Let_def split: bool.splits)

lemma stateD:
  "read_frame_header d = (Some h, d') \<Longrightarrow> d_state d' = d_state d"
  "read_frame_header d = (None, d') \<Longrightarrow> d_state d' = d_state d \<or> d_state d' = DISCONNECTED"
  "read_frame_payload cap len d = (y, d') \<Longrightarrow> d_state d' = d_state d"
  "derp_send_frame ty p d = (b, d') \<Longrightarrow> d_state d' = d_state d"
  using read_frame_payload_state [of cap len d] derp_send_frame_state [of ty p d]
  by (auto simp: read_frame_header_def disconnect_def split: prod.splits read_result.splits if_splits dest: sock_read_state)

lemma dispatch_state: "d_state (dispatch ty len d) = d_state d"
proof -
  have "d_state (handle_recv_packet len d) = d_state d"
    by (auto simp: handle_recv_packet_def stateD(3) split: prod.splits option.splits)
  moreover have "d_state (handle_ping len d) = d_state d"
    by (auto simp: handle_ping_def derp_send_frame_state stateD(3) split: prod.splits option.splits)
  moreover have "d_state (discard_payload len d) = d_state d"
    by (simp add: discard_payload_def read_frame_payload_state)
  moreover have "d_state (handle_health len d) = d_state d"
    by (simp add: handle_health_def read_frame_payload_state)
  ultimately show ?thesis by (simp add: dispatch_def)
qed

lemma process_ready_path:
  assumes "d_state d = READY"
  shows "derp_path READY (d_state (process_ready now d))"
proof -
  have "d_state (case read_frame_header e of (None, d) \<Rightarrow> d
      | (Some (ty, len), d) \<Rightarrow> dispatch ty len (d\<lparr>last_activity := now\<rparr>)) \<in> {READY, DISCONNECTED}"
    if "d_state e = READY" for e
    using that stateD(1,2) [of e]
    by (cases "read_frame_header e") (auto simp: dispatch_state split: option.splits)
  then have "d_state (process_ready now d) \<in> {READY, DISCONNECTED}"
    using assms by (simp add: process_ready_def Let_def disconnect_def derp_send_frame_state)
  then show ?thesis by (auto intro: derp_path_ended)
qed

lemma handle_server_info_state:
  "handle_server_info d = (b, d') \<Longrightarrow> d_state d' = d_state d \<or> \<not> b \<and> d_state d' = DISCONNECTED"
  by (auto simp: handle_server_info_def split: prod.splits option.splits if_splits)
     (metis stateD(1,2,3))+

lemma handle_server_key_state:
  "handle_server_key d = (b, d') \<Longrightarrow> d_state d' = d_state d \<or> \<not> b \<and> d_state d' = DISCONNECTED"
  by (auto simp: handle_server_key_def split: prod.splits option.splits if_splits)
     (metis stateD(1,2,3))+

lemma process_server_info_path: "derp_path (d_state d) (d_state (process_server_info now d))"
proof (cases "d_state d = WAIT_SERVER_INFO")
  case True
  obtain b e where h: "handle_server_info d = (b, e)" by fastforce
  show ?thesis
  proof (cases b)
    case True
    then show ?thesis using h \<open>d_state d = WAIT_SERVER_INFO\<close>
      by (simp add: process_server_info_def derp_path_fwd(3) process_ready_path)
  next
    case False
    then show ?thesis using h \<open>d_state d = WAIT_SERVER_INFO\<close> handle_server_info_state [OF h]
      by (auto simp: process_server_info_def derp_path_ended)
  qed
qed (auto simp: process_server_info_def intro: process_ready_path)

lemma process_client_info_path: "derp_path (d_state d) (d_state (process_client_info box nonce now d))"
proof (cases "d_state d = SEND_CLIENT_INFO")
  case True
  obtain b e where h: "send_client_info box nonce d = (b, e)" by fastforce
  have "derp_path WAIT_SERVER_INFO (d_state (process_server_info now (e\<lparr>d_state := WAIT_SERVER_INFO\<rparr>)))"
    using process_server_info_path [of "e\<lparr>d_state := WAIT_SERVER_INFO\<rparr>" now] by simp
  then show ?thesis using True h
    by (cases b) (auto simp: process_client_info_def intro: derp_path_one send_failed derp_path_fwd(2))
qed (simp add: process_client_info_def process_server_info_path)

lemma process_path: "derp_path (d_state d) (d_state (process box nonce now d))"
proof (cases "d_state d = WAIT_SERVER_KEY")
  case True
  obtain b e where h: "handle_server_key (d\<lparr>millis := now\<rparr>) = (b, e)" by fastforce
  have "derp_path SEND_CLIENT_INFO (d_state (process_client_info box nonce now (e\<lparr>d_state := SEND_CLIENT_INFO\<rparr>)))"
    using process_client_info_path [of "e\<lparr>d_state := SEND_CLIENT_INFO\<rparr>" box nonce now] by simp
  then show ?thesis using True h handle_server_key_state [OF h]
    by (cases b) (auto simp: process_def intro: derp_path_ended derp_path_fwd(1))
next
  case False
  then show ?thesis using process_client_info_path [of "d\<lparr>millis := now\<rparr>" box nonce now]
    by (simp add: process_def Let_def)
qed


text \<open>Past the key no frame overruns a buffer, over any number of calls.\<close>

definition past_key :: "derp \<Rightarrow> bool" where
  "past_key d \<longleftrightarrow> d_state d \<noteq> WAIT_SERVER_KEY \<and> \<not> smashed d"

definition process_call ::
    "(bytes \<Rightarrow> bytes \<Rightarrow> bytes \<Rightarrow> bytes \<Rightarrow> bytes option) \<times> bytes \<times> u32 \<times> rx list \<Rightarrow> derp \<Rightarrow> derp" where
  "process_call = (\<lambda>(box, nonce, now, more) d. process box nonce now (d\<lparr>script := script d @ more\<rparr>))"

interpretation dpm: machine process_call past_key
proof
  fix s :: derp and c :: "(bytes \<Rightarrow> bytes \<Rightarrow> bytes \<Rightarrow> bytes \<Rightarrow> bytes option) \<times> bytes \<times> u32 \<times> rx list"
  assume s: "past_key s"
  obtain box nonce now rest where c: "c = (box, nonce, now, rest)" by (metis prod_cases4)
  let ?d = "s\<lparr>script := script s @ rest\<rparr>"
  have "d_state (process box nonce now ?d) \<noteq> WAIT_SERVER_KEY"
    using derp_path_no_key [OF process_path, of ?d box nonce now] s by (simp add: past_key_def)
  moreover have "smashed (process box nonce now ?d) = smashed s"
    using s by (simp add: process_def Let_def past_key_def process_client_info_smashed)
  ultimately show "past_key (process_call c s)" using s by (simp add: process_call_def c past_key_def)
qed

text \<open>
  C39. Once the server's key has been read, no frame of any type or length overruns a buffer, over
  any sequence of calls and whatever arrives between them.
\<close>

theorem frames_in_bounds:
  assumes "past_key d"
  shows "past_key (fold process_call calls d)"
  by (rule dpm.run_inv [OF assms])

theorem frames_in_bounds_witness:
  "past_key (fold process_call [((\<lambda>_ _ _ _. None), [], 7, [Bytes (derp_header RECV_PACKET 4000), Closed])] (relay_at READY []))"
  by (rule frames_in_bounds) (simp add: past_key_def)

end
