(* ===== verification/Derp_Handshake.thy ===== *)
theory Derp_Handshake
  imports Derp_Session
begin

text \<open>
  The relay connection end to end: the URL, the HTTP upgrade that stops exactly at the first
  frame, the three-message handshake in a single call, and what an oversized frame leaves in
  the stream.
\<close>

section \<open>Frames whose payload stays in the stream\<close>

text \<open>The headers whose handler reads nothing of the payload they announce.\<close>

definition skipped :: "u8 \<times> u32 \<Rightarrow> bool" where
  "skipped h = (case h of (ty, len) \<Rightarrow>
     if ty = RECV_PACKET then unat len < 32 \<or> 2048 < unat len
     else if ty = KEEP_ALIVE then True
     else if ty = PING then len \<noteq> 8
     else if ty = HEALTH then unat len = 0 \<or> 1024 \<le> unat len
     else unat len = 0 \<or> 2048 \<le> unat len)"

lemma dispatch_skipped: "skipped (ty, len) \<Longrightarrow> dispatch ty len d = d"
  by (auto simp: skipped_def dispatch_def handle_recv_packet_def handle_ping_def handle_health_def discard_payload_def
        KEY_LEN_def read_frame_payload_def RECV_BUFFER_SIZE_def word_less_nat_alt frame_type_defs unat_eq_zero
      split: if_splits)

lemma process_skipped:
  assumes "ready_at now d" "skipped (ty, len)" "bs \<noteq> []"
    and "script d = [Bytes (derp_header ty len @ bs)]"
  shows "process box nonce now d = d\<lparr>millis := now, last_activity := now, script := [Bytes bs]\<rparr>"
proof -
  have "script (d\<lparr>millis := now\<rparr>) = [Bytes (derp_header ty len @ bs)]" using assms(4) by simp
  from read_frame_header_single [OF this] assms(3)
  have "read_frame_header (d\<lparr>millis := now\<rparr>) = (Some (ty, len), d\<lparr>millis := now, script := [Bytes bs]\<rparr>)" by simp
  then have "process box nonce now d = d\<lparr>millis := now, script := [Bytes bs], last_activity := now\<rparr>"
    by (simp add: process_ready_at [OF assms(1)] dispatch_skipped [OF assms(2)])
  also have "\<dots> = d\<lparr>millis := now, last_activity := now, script := [Bytes bs]\<rparr>"
    by (rule derp.equality) simp_all
  finally show ?thesis .
qed

lemma ready_at_after: "ready_at now d \<Longrightarrow> ready_at now (d\<lparr>millis := now, last_activity := now, script := s\<rparr>)"
  by (simp add: ready_at_def IDLE_TIMEOUT_MS_def)

lemma process_all_skipped:
  assumes "ready_at now d" "list_all skipped hs" "bs \<noteq> []" "hs \<noteq> []"
    and "script d = [Bytes (concat (map (\<lambda>(ty, len). derp_header ty len) hs) @ bs)]"
  shows "(process box nonce now ^^ length hs) d = d\<lparr>millis := now, last_activity := now, script := [Bytes bs]\<rparr>"
  using assms
proof (induction hs arbitrary: d)
  case (Cons h hs)
  obtain ty len where h: "h = (ty, len)" by fastforce
  let ?rest = "concat (map (\<lambda>(ty, len). derp_header ty len) hs) @ bs"
  let ?e = "d\<lparr>millis := now, last_activity := now, script := [Bytes ?rest]\<rparr>"
  have e: "process box nonce now d = ?e"
    using process_skipped [of now d ty len ?rest box nonce] Cons.prems h by simp
  show ?case
  proof (cases hs)
    case Nil
    then show ?thesis using e by simp
  next
    case (Cons a as)
    have "(process box nonce now ^^ length hs) ?e = ?e\<lparr>millis := now, last_activity := now, script := [Bytes bs]\<rparr>"
      by (rule Cons.IH) (use Cons Cons.prems ready_at_after in auto)
    then show ?thesis using e by (simp add: funpow_swap1)
  qed
qed simp

text \<open>
  A packet of more than 2016 bytes is not read: its bytes are taken for the frames that
  follow. A sender whose packet consists of skipped headers and a packet frame of its own
  making has that inner packet delivered under the source key it wrote there.
\<close>

lemma oversized_packet_injects:
  assumes "ready_at now d" "has_cb d" "length k = 32" "length p \<le> 2016" "list_all skipped hs"
    and "q = concat (map (\<lambda>(ty, len). derp_header ty len) hs) @ derp_frame (RECV_PACKET, k @ p) @ bs"
    and "2048 < length q" "length q < 2 ^ 32" "script d = [Bytes (derp_frame (RECV_PACKET, q))]"
  shows "delivered ((process box nonce now ^^ (length hs + 2)) d) = delivered d @ [(k, p)]"
proof -
  define len :: u32 where "len = word_of_nat (length q)"
  have n: "unat len = length q" unfolding len_def by (rule unat_word_of_nat_u32) (use assms(8) in simp)
  let ?hs = "(RECV_PACKET, len) # hs" and ?inner = "derp_frame (RECV_PACKET, k @ p) @ bs"
  let ?e = "d\<lparr>millis := now, last_activity := now, script := [Bytes ?inner]\<rparr>"
  have sk: "list_all skipped ?hs" using assms(5,7) n by (simp add: skipped_def)
  have ne: "?inner \<noteq> []" by (simp add: derp_frame_def derp_header_Cons)
  have "derp_frame (RECV_PACKET, q) = derp_header RECV_PACKET len @ q" by (simp add: derp_frame_def len_def)
  then have "script d = [Bytes (concat (map (\<lambda>(ty, len). derp_header ty len) ?hs) @ ?inner)]"
    using assms(9) by (simp add: assms(6))
  from process_all_skipped [OF assms(1) sk ne _ this]
  have e: "(process box nonce now ^^ length ?hs) d = ?e" by blast
  have "header_ready ?e ?inner []" by (rule header_ready_single) (simp_all add: length_derp_frame)
  from recv_packet_core [OF ready_at_after [OF assms(1)] _ assms(3,4) this, of box nonce] assms(2) obtain s where
    "process box nonce now ?e = ?e\<lparr>millis := now, last_activity := now, script := s, delivered := delivered ?e @ [(k, p)]\<rparr>"
    by auto
  then have "delivered (process box nonce now ?e) = delivered d @ [(k, p)]" by simp
  then show ?thesis using e by simp
qed

lemma oversized_packet_injects_witness:
  "delivered ((process (\<lambda>_ _ _ _. None) [] 7 ^^ (length (replicate 7 (KEEP_ALIVE, 0 :: u32)) + 2)) (relay_at READY [Bytes (derp_frame (RECV_PACKET,
     concat (map (\<lambda>(ty, len). derp_header ty len) (replicate 7 (KEEP_ALIVE, 0)))
       @ derp_frame (RECV_PACKET, replicate 32 5 @ [1, 2]) @ replicate 2100 0))])) = [] @ [(replicate 32 5, [1, 2])]"
proof -
  have r: "ready_at 7 (relay_at READY sc)" for sc by (rule ready_at_relay) simp
  have k: "list_all skipped (replicate 7 (KEEP_ALIVE, 0))"
    by (simp add: skipped_def frame_type_defs list_all_iff)
  have l: "length (concat (map (\<lambda>(ty, len). derp_header ty len) (replicate 7 (KEEP_ALIVE, 0)))
       @ derp_frame (RECV_PACKET, replicate 32 5 @ [1, 2]) @ replicate 2100 0) = 2174"
    by (simp add: length_concat sum_list_replicate length_derp_frame)
  show ?thesis
    by (rule oversized_packet_injects [OF r _ _ _ k refl, of _ _ _ _ _, unfolded relay_at_sel(6)])
       (simp_all only: l relay_at_sel, simp_all)
qed

section \<open>The upgrade\<close>

lemma read_response_single:
  assumes "script d = Bytes (x @ y) # r" "x \<noteq> []" "length (got @ x) \<le> 508" "ends_blank (got @ x)"
    and "\<And>n. 0 < n \<Longrightarrow> n < length x \<Longrightarrow> \<not> ends_blank (got @ take n x)"
  shows "read_response start got d = (Some (got @ x), d\<lparr>script := (if y = [] then r else Bytes y # r)\<rparr>)"
  using assms
proof (induction x arbitrary: got d)
  case (Cons b x)
  let ?s = "if x @ y = [] then r else Bytes (x @ y) # r"
  have g: "sock_read 1 d = (Got [b], d\<lparr>script := ?s\<rparr>)" using Cons.prems(1) by (auto simp: sock_read_def)
  have l: "\<not> 512 - 4 \<le> length got" using Cons.prems(3) by simp
  show ?case
  proof (cases "x = []")
    case True
    then show ?thesis using g l Cons.prems(4) by (subst read_response.simps) simp
  next
    case False
    then have nb: "\<not> ends_blank (got @ [b])" using Cons.prems(5) [of 1] by simp
    have "read_response start (got @ [b]) (d\<lparr>script := ?s\<rparr>)
        = (Some ((got @ [b]) @ x), d\<lparr>script := ?s, script := (if y = [] then r else Bytes y # r)\<rparr>)"
    proof (rule Cons.IH [OF _ False])
      show "\<not> ends_blank ((got @ [b]) @ take n x)" if "0 < n" "n < length x" for n
        using Cons.prems(5) [of "Suc n"] that by simp
    qed (use Cons.prems False in auto)
    then show ?thesis using g l nb by (subst read_response.simps) simp
  qed
qed simp

text \<open>
  Connecting sends one upgrade request and consumes the response up to its blank line and
  nothing behind it: the relay's first frames are left to the handshake.
\<close>

lemma connect_stops_at_frames:
  assumes "d_state d = DISCONNECTED" "accepts d = (\<lambda>_. length)" "use_tls d"
    and "script d = Bytes (resp @ frames) # r" "frames \<noteq> []" "length resp \<le> 508" "ends_blank resp"
    and "list_all (\<lambda>n. \<not> ends_blank (take n resp)) [1..<length resp]"
    and "strstr_found resp ''101''" "strstr_found resp ''Switching Protocols''"
  shows "fst (connect Tls_Connected tcp d) \<and> d_state (snd (connect Tls_Connected tcp d)) = WAIT_SERVER_KEY
    \<and> script (snd (connect Tls_Connected tcp d)) = Bytes frames # r
    \<and> tx (snd (connect Tls_Connected tcp d)) = tx d @ [bytes_of (upgrade_request d)]"
proof -
  let ?d = "d\<lparr>sock_open := True, oom_recovery_attempts := 0, d_state := UPGRADING, tx := tx d @ [bytes_of (upgrade_request d)]\<rparr>"
  have ne: "resp \<noteq> []" using assms(7) by (auto simp: ends_blank_def)
  have u: "upgrade_request (d\<lparr>sock_open := True, oom_recovery_attempts := 0, d_state := UPGRADING\<rparr>) = upgrade_request d"
    by (simp add: upgrade_request_def)
  have "read_response (millis d) [] ?d = (Some ([] @ resp), ?d\<lparr>script := (if frames = [] then r else Bytes frames # r)\<rparr>)"
    by (rule read_response_single) (use assms ne in \<open>auto simp: list_all_iff\<close>)
  then show ?thesis using assms(1,2,3,5,9,10)
    by (simp add: connect_def do_tls_handshake_def do_http_upgrade_def sock_write_def Let_def u)
qed

definition switching :: bytes where
  "switching = bytes_of (''HTTP/1.1 101 Switching Protocols'' @ crlf @ ''Upgrade: DERP'' @ crlf @ crlf)"

lemma connect_stops_at_frames_witness:
  "script (snd (connect Tls_Connected No_Host (relay_at DISCONNECTED [Bytes (switching @ [1, 2, 3])]))) = [Bytes [1, 2, 3]]"
proof -
  have l: "length switching = 51" by (simp add: switching_def crlf_def)
  have "ends_blank switching" by code_simp
  moreover have "list_all (\<lambda>n. \<not> ends_blank (take n switching)) [1..<length switching]" by code_simp
  moreover have "strstr_found switching ''101''" "strstr_found switching ''Switching Protocols''" by code_simp+
  ultimately show ?thesis
    using connect_stops_at_frames [of "relay_at DISCONNECTED [Bytes (switching @ [1, 2, 3])]" switching "[1, 2, 3]" "[]" No_Host] l
    by (simp add: relay_at_def)
qed

section \<open>The handshake\<close>

lemma read_frame_payload_single:
  assumes "script d = Bytes (p @ bs) # r" "length p \<le> cap" "cap \<le> 2048" "unat len = length p"
  shows "read_frame_payload cap len d =
    (Some p, if p = [] then d else d\<lparr>script := (if bs = [] then r else Bytes bs # r)\<rparr>)"
proof (cases "p = []")
  case True
  then show ?thesis using assms(4) by (simp add: read_frame_payload_def unat_eq_zero)
next
  case False
  then have "len \<noteq> 0" using assms(4) by auto
  with False show ?thesis using payload_loop_single [OF assms(1), of "length p" cap "millis d"] assms
    by (simp add: read_frame_payload_def RECV_BUFFER_SIZE_def store_check_fits)
qed

lemma handle_server_key_ok:
  assumes "script d = [Bytes (derp_frame (SERVER_KEY, DERP_MAGIC @ key @ x) @ bs)]" "length key = 32"
    and "length x \<le> 216" "bs \<noteq> []"
  shows "handle_server_key d = (True, d\<lparr>script := [Bytes bs], server_public_key := key\<rparr>)"
proof -
  let ?p = "DERP_MAGIC @ key @ x"
  define len :: u32 where "len = word_of_nat (length ?p)"
  have m: "length DERP_MAGIC = 8" by (simp add: DERP_MAGIC_def)
  have n: "unat len = length ?p" unfolding len_def by (rule unat_word_of_nat_u32) (use assms(2,3) m in simp)
  have ne: "?p \<noteq> []" using m by auto
  have "script d = [Bytes (derp_header SERVER_KEY len @ ?p @ bs)]"
    using assms(1) by (simp add: derp_frame_def len_def)
  from read_frame_header_single [OF this]
  have h: "read_frame_header d = (Some (SERVER_KEY, len), d\<lparr>script := [Bytes (?p @ bs)]\<rparr>)"
    using assms(4) by simp
  have "read_frame_payload 256 len (d\<lparr>script := [Bytes (?p @ bs)]\<rparr>) = (Some ?p, d\<lparr>script := [Bytes bs]\<rparr>)"
    using read_frame_payload_single [of "d\<lparr>script := [Bytes (?p @ bs)]\<rparr>" ?p bs "[]" 256 len] n ne assms(2,3,4) m by simp
  moreover have "\<not> unat len < length DERP_MAGIC + KEY_LEN" using n m assms(2) by (simp add: KEY_LEN_def)
  ultimately show ?thesis using h m assms(2) by (simp add: handle_server_key_def KEY_LEN_def)
qed

lemma handle_server_info_ok:
  assumes "script d = [Bytes (derp_frame (SERVER_INFO, info))]" "length info \<le> 2048"
  shows "handle_server_info d = (True, d\<lparr>script := []\<rparr>)"
proof -
  define len :: u32 where "len = word_of_nat (length info)"
  have n: "unat len = length info" unfolding len_def by (rule unat_word_of_nat_u32) (use assms(2) in simp)
  have "script d = [Bytes (derp_header SERVER_INFO len @ info)]"
    using assms(1) by (simp add: derp_frame_def len_def)
  from read_frame_header_single [OF this]
  have h: "read_frame_header d = (Some (SERVER_INFO, len), d\<lparr>script := (if info = [] then [] else [Bytes info])\<rparr>)" .
  show ?thesis
  proof (cases "info = []")
    case True
    then show ?thesis using h n by (simp add: handle_server_info_def word_less_nat_alt)
  next
    case False
    have "read_frame_payload RECV_BUFFER_SIZE len (d\<lparr>script := [Bytes info]\<rparr>) = (Some info, d\<lparr>script := []\<rparr>)"
      using read_frame_payload_single [of "d\<lparr>script := [Bytes info]\<rparr>" info "[]" "[]" RECV_BUFFER_SIZE len] n assms(2) False
      by (simp add: RECV_BUFFER_SIZE_def)
    moreover have "0 < len" "len < 4096" using n assms(2) False by (auto simp: word_less_nat_alt)
    ultimately show ?thesis using h False by (simp add: handle_server_info_def)
  qed
qed

text \<open>
  When the relay's key frame and its info frame have arrived, one call takes the connection
  to \<^verbatim>\<open>READY\<close>, keeps the relay's key, and sends one client-info frame, in whose box
  the relay, with the same shared secret, reads the client's information.
\<close>

lemma handshake_completes:
  assumes "d_state d = WAIT_SERVER_KEY" "accepts d = (\<lambda>_. length)" "length key = 32" "length x \<le> 216" "length info \<le> 2048"
    and "script d = [Bytes (derp_frame (SERVER_KEY, DERP_MAGIC @ key @ x) @ derp_frame (SERVER_INFO, info))]"
    and "scalarmult (our_node_key_priv d) key = scalarmult relay_priv (our_node_key d)"
    and "scalarmult relay_priv (our_node_key d) \<noteq> None"
    and "\<And>t m k. verify t m k = (t = onetimeauth m k)" and "\<And>m k. length (onetimeauth m k) = 16"
  shows "\<exists>c. process (crypto_box_easy_simple scalarmult onetimeauth) nonce now d =
      d\<lparr>millis := now, script := [], server_public_key := key,
        tx := tx d @ [derp_header CLIENT_INFO (word_of_nat (length (our_node_key d @ nonce @ c))), our_node_key d @ nonce @ c],
        d_state := READY, last_activity := now, last_keep_alive := now\<rparr>
    \<and> crypto_box_open_easy_simple scalarmult verify c nonce (our_node_key d) relay_priv = Some (bytes_of client_info_json)"
proof -
  let ?box = "crypto_box_easy_simple scalarmult onetimeauth"
  let ?f2 = "derp_frame (SERVER_INFO, info)"
  let ?d1 = "d\<lparr>millis := now, script := [Bytes ?f2], server_public_key := key, d_state := SEND_CLIENT_INFO\<rparr>"
  obtain c where c: "?box (bytes_of client_info_json) nonce key (our_node_key_priv d) = Some c"
    using assms(7,8) by (auto simp: crypto_box_easy_simple_def box_beforenm_def)
  have o: "crypto_box_open_easy_simple scalarmult verify c nonce (our_node_key d) relay_priv = Some (bytes_of client_info_json)
      \<and> length c = length (bytes_of client_info_json) + 16"
    by (rule sealed_box_opens [where ska = "our_node_key_priv d" and pkb = key]) (use assms(7,9,10) c in auto)
  let ?p = "our_node_key d @ nonce @ c"
  let ?out = "[derp_header CLIENT_INFO (word_of_nat (length ?p)), ?p]"
  have ne: "?p \<noteq> []" using o by auto
  have "handle_server_key (d\<lparr>millis := now\<rparr>) = (True, d\<lparr>millis := now, script := [Bytes ?f2], server_public_key := key\<rparr>)"
    by (rule handle_server_key_ok [of _ key x]) (use assms(3,4,6) in \<open>auto simp: derp_frame_def derp_header_Cons\<close>)
  then have 1: "process ?box nonce now d = process_client_info ?box nonce now ?d1"
    using assms(1) by (simp add: process_def Let_def)
  have "send_client_info ?box nonce ?d1 = (True, ?d1\<lparr>tx := tx d @ ?out\<rparr>)"
    using c ne derp_send_frame_ok [of ?d1 CLIENT_INFO ?p] assms(2)
    by (simp add: send_client_info_def client_info_payload_def)
  then have 2: "process_client_info ?box nonce now ?d1 =
      process_server_info now (?d1\<lparr>tx := tx d @ ?out, d_state := WAIT_SERVER_INFO\<rparr>)"
    by (simp add: process_client_info_def)
  let ?d2 = "?d1\<lparr>tx := tx d @ ?out, d_state := WAIT_SERVER_INFO\<rparr>"
  have "handle_server_info ?d2 = (True, ?d2\<lparr>script := []\<rparr>)"
    by (rule handle_server_info_ok) (use assms(5) in auto)
  then have 3: "process_server_info now ?d2 =
      process_ready now (?d2\<lparr>script := [], d_state := READY, last_activity := now, last_keep_alive := now\<rparr>)"
    by (simp add: process_server_info_def)
  let ?d3 = "?d2\<lparr>script := [], d_state := READY, last_activity := now, last_keep_alive := now\<rparr>"
  have 4: "process_ready now ?d3 = ?d3"
    by (simp add: process_ready_def read_frame_header_def sock_read_def KEEP_ALIVE_INTERVAL_MS_def IDLE_TIMEOUT_MS_def)
  have "?d3 = d\<lparr>millis := now, script := [], server_public_key := key, tx := tx d @ ?out,
      d_state := READY, last_activity := now, last_keep_alive := now\<rparr>"
    by (rule derp.equality) simp_all
  with 1 2 3 4 o show ?thesis by (intro exI [of _ c] conjI) (simp_all only:)
qed

definition toy_mult :: "bytes \<Rightarrow> bytes \<Rightarrow> bytes option" where
  "toy_mult sk pk = Some (replicate 32 (sk ! 0 + pk ! 0))"

lemma handshake_completes_witness:
  "\<exists>c. process (crypto_box_easy_simple toy_mult (\<lambda>m k. replicate 16 (k ! 0))) [9] 7
      (relay_at WAIT_SERVER_KEY [Bytes (derp_frame (SERVER_KEY, DERP_MAGIC @ replicate 32 3 @ []) @ derp_frame (SERVER_INFO, [7]))]) =
      (relay_at WAIT_SERVER_KEY [Bytes (derp_frame (SERVER_KEY, DERP_MAGIC @ replicate 32 3 @ []) @ derp_frame (SERVER_INFO, [7]))])
      \<lparr>millis := 7, script := [], server_public_key := replicate 32 3,
        tx := [derp_header CLIENT_INFO (word_of_nat (length (replicate 32 1 @ [9] @ c))), replicate 32 1 @ [9] @ c],
        d_state := READY, last_activity := 7, last_keep_alive := 7\<rparr>
    \<and> crypto_box_open_easy_simple toy_mult (\<lambda>t m k. t = replicate 16 (k ! 0)) c [9] (replicate 32 1) [4]
        = Some (bytes_of client_info_json)"
proof -
  have k: "our_node_key (relay_at st sc) = replicate 32 1" "our_node_key_priv (relay_at st sc) = replicate 32 2" for st sc
    by (simp_all add: relay_at_def)
  show ?thesis
    using handshake_completes [where scalarmult = toy_mult and onetimeauth = "\<lambda>m k. replicate 16 (k ! 0)" and relay_priv = "[4]"
        and verify = "\<lambda>t m k. t = replicate 16 (k ! 0)" and key = "replicate 32 3" and x = "[]" and info = "[7]" and nonce = "[9]" and now = 7
        and d = "relay_at WAIT_SERVER_KEY [Bytes (derp_frame (SERVER_KEY, DERP_MAGIC @ replicate 32 3 @ []) @ derp_frame (SERVER_INFO, [7]))]"]
    unfolding k relay_at_sel by (simp add: toy_mult_def)
qed

section \<open>The URL\<close>

lemma split_at_char:
  "list_all (\<lambda>x. x \<noteq> c) a \<Longrightarrow> split_at [c] (a @ c # b) = Some (a, b)"
  by (induction a) auto

lemma split_at_none: "list_all (\<lambda>x. x \<noteq> c) a \<Longrightarrow> split_at [c] a = None"
  by (induction a) auto

lemma stoi_show_nat:
  assumes "n < 2 ^ 31"
  shows "stoi (show_nat n) = Some (int n)"
proof -
  obtain c cs where s: "show_nat n = c # cs" by (cases "show_nat n") auto
  have d: "list_all is_digit (show_nat n)" by (rule show_nat_digits)
  then have c: "is_digit c" using s by simp
  then have "\<not> is_space c" "c \<noteq> CHR ''-''" "c \<noteq> CHR ''+''" by (auto simp: is_digit_def is_space_def)
  then have "dropWhile is_space (show_nat n) = show_nat n" "take 1 (show_nat n) \<noteq> ''-''" "take 1 (show_nat n) \<noteq> ''+''"
    using s by auto
  moreover have "takeWhile is_digit (show_nat n) = show_nat n"
    using d by (simp add: list_all_iff takeWhile_eq_all_conv)
  ultimately show ?thesis using assms by (simp add: stoi_def Let_def dec_val_show_nat del: takeWhile_eq_all_conv)
qed

text \<open>
  A relay's URL with a port is taken apart into the host and the port it was made of, over
  \<^verbatim>\<open>https\<close>; the keys are stored.
\<close>

lemma init_url_roundtrip:
  assumes "list_all (\<lambda>c. c \<noteq> CHR ''/'' \<and> c \<noteq> CHR '':'') host" "port < 65536"
  shows "\<exists>e. derp_init True (''https://'' @ host @ '':'' @ show_nat port @ ''/'' @ path) key priv d = Some (True, e)
    \<and> server_host e = host \<and> unat (server_port e) = port \<and> use_tls e \<and> our_node_key e = key \<and> our_node_key_priv e = priv"
proof -
  have p: "list_all (\<lambda>c. c \<noteq> CHR ''/'') (show_nat port)"
    using show_nat_digits [of port] by (auto simp: list_all_iff is_digit_def)
  have 1: "split_at ''://'' (''https://'' @ host @ '':'' @ show_nat port @ ''/'' @ path) =
      Some (''https'', host @ '':'' @ show_nat port @ ''/'' @ path)" by simp
  have 2: "split_at ''/'' (host @ '':'' @ show_nat port @ ''/'' @ path) = Some (host @ '':'' @ show_nat port, path)"
    using split_at_char [of "CHR ''/''" "host @ '':'' @ show_nat port" path] assms(1) p by (auto simp: list_all_iff)
  have 3: "split_at '':'' (host @ '':'' @ show_nat port) = Some (host, show_nat port)"
    using split_at_char [of "CHR '':''" host "show_nat port"] assms(1) by (simp add: list_all_iff)
  have "unat (word_of_nat port :: u16) = port" using assms(2) by (simp add: unat_of_nat take_bit_nat_eq_self)
  then show ?thesis using assms(2) 1 2 3 by (simp add: derp_init_def stoi_show_nat)
qed

lemma init_url_roundtrip_witness:
  "\<exists>e. derp_init True (''https://'' @ ''derp1.example'' @ '':'' @ show_nat 8443 @ ''/'' @ ''derp'') [1] [2] (relay_at DISCONNECTED []) = Some (True, e)
    \<and> server_host e = ''derp1.example'' \<and> unat (server_port e) = 8443 \<and> use_tls e \<and> our_node_key e = [1] \<and> our_node_key_priv e = [2]"
  by (rule init_url_roundtrip) simp_all

end
