(* ===== verification/Net_Checksum.thy ===== *)
theory Net_Checksum
  imports Ts_Prelude
begin

text \<open>
  The Internet checksum of \<^verbatim>\<open>tailscale.cpp\<close>: the loops of
  \<^verbatim>\<open>calculate_ip_checksum_\<close>, \<^verbatim>\<open>calculate_tcp_checksum_\<close> and of the echo
  reply, on 32-bit sums. The lemmas show that a packet with its checksum filled in verifies: the
  same computation over it gives zero.
\<close>

section \<open>The sum\<close>

fun sum16 :: "u32 \<Rightarrow> bytes \<Rightarrow> u32" where
  "sum16 s (a # b # r) = sum16 (s + (push_bit 8 (ucast a) OR ucast b)) r"
| "sum16 s [a] = s + push_bit 8 (ucast a)"
| "sum16 s [] = s"

lemma unat_halves: "unat (s AND 0xFFFF :: u32) = unat s mod 65536" "unat (drop_bit 16 s) = unat s div 65536"
proof -
  have m: "(0xFFFF :: u32) = mask 16" by (simp add: mask_eq_exp_minus_1)
  show "unat (s AND 0xFFFF :: u32) = unat s mod 65536"
    unfolding m take_bit_eq_mask [symmetric] unsigned_take_bit_eq by (simp add: take_bit_eq_mod)
  show "unat (drop_bit 16 s) = unat s div 65536"
    unfolding unsigned_drop_bit_eq using unsigned_less [of s, where ?'a = nat]
    by (simp add: drop_bit_eq_div take_bit_nat_eq_self)
qed

lemma halves_bounds: "unat (s :: u32) div 65536 < 65536" "unat s mod 65536 < 65536"
proof -
  have "unat s < 65536 * 65536" using unsigned_less [of s, where ?'a = nat] by simp
  then show "unat s div 65536 < 65536" by (rule less_mult_imp_div_less)
qed simp

lemma unat_fold_step: "unat ((s AND 0xFFFF) + drop_bit 16 s :: u32) = unat s mod 65536 + unat s div 65536"
  using halves_bounds [of s] by (simp add: unat_halves unat_word_ariths mod_less)

function fold16 :: "u32 \<Rightarrow> u32" where
  "fold16 s = (if drop_bit 16 s \<noteq> 0 then fold16 ((s AND 0xFFFF) + drop_bit 16 s) else s)"
  by auto
termination
proof (relation "measure unat")
  fix s :: u32 assume "drop_bit 16 s \<noteq> 0"
  then have "0 < unat s div 65536" using unat_halves(2) [of s] by (metis unat_eq_zero neq0_conv)
  moreover have "unat s = unat s div 65536 * 65536 + unat s mod 65536" by simp
  ultimately have "unat s mod 65536 + unat s div 65536 < unat s" by linarith
  then show "((s AND 0xFFFF) + drop_bit 16 s, s) \<in> measure unat" by (simp add: unat_fold_step)
qed simp

declare fold16.simps [simp del]

definition checksum16 :: "u32 \<Rightarrow> u16" where
  "checksum16 s = NOT (ucast (fold16 s))"

definition calculate_ip_checksum :: "bytes \<Rightarrow> u16" where
  "calculate_ip_checksum h = checksum16 (sum16 0 h)"

text \<open>The pseudo-header comes from the addresses of the IP header.\<close>

definition pseudo_sum :: "bytes \<Rightarrow> nat \<Rightarrow> u32" where
  "pseudo_sum iph tcp_len = sum16 0 (take 8 (drop 12 iph)) + 6 + word_of_nat tcp_len"

definition calculate_tcp_checksum :: "bytes \<Rightarrow> bytes \<Rightarrow> u16" where
  "calculate_tcp_checksum iph seg = checksum16 (sum16 (pseudo_sum iph (length seg)) seg)"

text \<open>A checksum written at an offset, high byte first.\<close>

definition put_at :: "nat \<Rightarrow> u16 \<Rightarrow> bytes \<Rightarrow> bytes" where
  "put_at i c bs = bs[i := ucast (drop_bit 8 c), i + 1 := ucast c]"

section \<open>The sum as a number\<close>

fun nsum :: "bytes \<Rightarrow> nat" where
  "nsum (a # b # r) = unat a * 256 + unat b + nsum r"
| "nsum [a] = unat a * 256"
| "nsum [] = 0"

lemma unat_u8_le: "unat (x :: u8) \<le> 255"
  using unat_u8_less [of x] by linarith

lemma unat_pair: "unat (push_bit 8 (ucast a) OR ucast b :: u32) = unat (a :: u8) * 256 + unat (b :: u8)"
proof -
  have "(push_bit 8 (ucast a) OR ucast b :: u32) = push_bit 8 (ucast a) + ucast b"
    by (rule disjunctive_add [symmetric]) (auto simp: bit_simps dest: bit_imp_le_length)
  also have "\<dots> = word_of_nat (unat a * 256 + unat b)"
    by (simp add: push_bit_eq_mult)
  finally have "unat (push_bit 8 (ucast a) OR ucast b :: u32) = unat (word_of_nat (unat a * 256 + unat b) :: u32)"
    by (rule arg_cong)
  also have "\<dots> = unat a * 256 + unat b"
    using unat_u8_le [of a] unat_u8_le [of b] by (subst unat_of_nat) (rule mod_less, simp)
  finally show ?thesis .
qed

lemma unat_high: "unat (push_bit 8 (ucast a) :: u32) = unat (a :: u8) * 256"
  using unat_pair [of a 0] by simp

lemma nsum_bound: "nsum bs \<le> 65535 * length bs"
proof (induction bs rule: nsum.induct)
  case (1 a b r)
  then show ?case using unat_u8_less [of a] unat_u8_less [of b] unfolding nsum.simps list.size distrib_left by linarith
next
  case (2 a)
  then show ?case using unat_u8_le [of a] unfolding nsum.simps list.size by simp
qed simp

lemma unat_sum16: "unat s + nsum bs < 2 ^ 32 \<Longrightarrow> unat (sum16 s bs) = unat s + nsum bs"
proof (induction s bs rule: sum16.induct)
  case (1 s a b r)
  have "unat (s + (push_bit 8 (ucast a) OR ucast b)) = unat s + (unat a * 256 + unat b)"
    using "1.prems" unat_pair [of a b] by (simp add: unat_word_ariths)
  then show ?case using 1 by simp
next
  case (2 s a)
  then show ?case using unat_high [of a] by (simp add: unat_word_ariths)
qed simp

lemma nsum_append: "even (length a) \<Longrightarrow> nsum (a @ b) = nsum a + nsum b"
  by (induction a rule: nsum.induct) auto

section \<open>Folding\<close>

lemma fold16_facts:
  "unat (fold16 s) \<le> 65535 \<and> unat (fold16 s) mod 65535 = unat s mod 65535 \<and> (unat (fold16 s) = 0 \<longleftrightarrow> unat s = 0)"
proof (induction s rule: fold16.induct)
  case (1 s)
  show ?case
  proof (cases "drop_bit 16 s = 0")
    case True
    then have "unat s div 65536 = 0" using unat_halves(2) [of s] by simp
    then have "unat s < 65536" by (simp add: div_eq_0_iff)
    then show ?thesis using True by (subst (1 2 3) fold16.simps) simp
  next
    case False
    let ?t = "(s AND 0xFFFF) + drop_bit 16 s"
    have t: "unat ?t = unat s mod 65536 + unat s div 65536" by (rule unat_fold_step)
    have n: "unat s = unat s div 65536 * 65535 + unat ?t" unfolding t by simp
    have "unat ?t mod 65535 = unat s mod 65535" by (metis n mod_mult_self3)
    moreover have "unat ?t = 0 \<longleftrightarrow> unat s = 0"
      using t n by (metis add_is_0 div_0 mod_0 mult_0)
    ultimately show ?thesis using 1 False by (subst (1 2 3) fold16.simps) simp
  qed
qed

lemma fold16_complement:
  assumes "unat s' = unat s + (65535 - unat (fold16 s))"
  shows "checksum16 s' = 0"
proof -
  let ?f = "unat (fold16 s)"
  have f: "?f \<le> 65535" "?f mod 65535 = unat s mod 65535" "?f = 0 \<longleftrightarrow> unat s = 0" using fold16_facts [of s] by auto
  have "unat s' mod 65535 = (unat s mod 65535 + (65535 - ?f)) mod 65535"
    using assms by (simp add: mod_add_left_eq)
  also have "\<dots> = (?f mod 65535 + (65535 - ?f)) mod 65535" using f(2) by simp
  also have "\<dots> = (?f + (65535 - ?f)) mod 65535" by (rule mod_add_left_eq)
  also have "\<dots> = 0" using f(1) by simp
  finally have "unat (fold16 s') mod 65535 = 0" "unat (fold16 s') \<le> 65535" using fold16_facts [of s'] by auto
  moreover have "unat s' \<noteq> 0" using assms f by (cases "unat s = 0") auto
  then have "unat (fold16 s') \<noteq> 0" using fold16_facts [of s'] by simp
  ultimately have "unat (fold16 s') = 65535" by auto
  then have "fold16 s' = 65535" by (simp add: word_eq_iff_unsigned [where 'a = nat])
  then show ?thesis by (simp add: checksum16_def)
qed

section \<open>Verification\<close>

lemma unat_u16_le: "unat (x :: u16) \<le> 65535"
  using unsigned_less [of x, where ?'a = nat] by simp

lemma unat_not16: "unat (NOT x :: u16) = 65535 - unat x"
proof -
  have "NOT x = 65535 - x" by (simp add: not_eq_complement)
  moreover have "x \<le> 65535" using unat_u16_le [of x] by (simp add: word_le_nat_alt)
  ultimately show ?thesis by (simp add: unat_sub)
qed

lemma unat_checksum16: "unat (checksum16 s) = 65535 - unat (fold16 s)"
proof -
  have "unat (ucast (fold16 s) :: u16) = unat (fold16 s)"
    using fold16_facts [of s] by (simp add: unsigned_ucast_eq take_bit_nat_eq_self)
  then show ?thesis by (simp add: checksum16_def unat_not16)
qed

lemma unat_put16: "unat (ucast (drop_bit 8 c) :: u8) * 256 + unat (ucast c :: u8) = unat (c :: u16)"
proof -
  have h: "unat (ucast (drop_bit 8 c) :: u8) = unat c div 256"
    using unat_u16_le [of c] unfolding unsigned_ucast_eq unsigned_drop_bit_eq
    by (simp add: drop_bit_eq_div take_bit_nat_eq_self)
  have "unat (ucast c :: u8) = unat c mod 256" by (simp add: unsigned_ucast_eq take_bit_eq_mod)
  then show ?thesis using h by simp
qed

lemma nth_put_at: "k \<noteq> i \<Longrightarrow> k \<noteq> i + 1 \<Longrightarrow> put_at i v bs ! k = bs ! k"
  by (simp add: put_at_def)

lemma drop_put_at: "i + 1 < n \<Longrightarrow> drop n (put_at i v bs) = drop n bs"
  by (simp add: put_at_def drop_update_cancel)

lemma length_put_at [simp]: "length (put_at i c bs) = length bs"
  by (simp add: put_at_def)

lemma two_parts: "i + 1 < length bs \<Longrightarrow> bs = take i bs @ [bs ! i, bs ! (i + 1)] @ drop (i + 2) bs"
  by (simp add: Cons_nth_drop_Suc)

lemma put_at_parts:
  assumes "i + 1 < length bs"
  shows "put_at i c bs = take i bs @ [ucast (drop_bit 8 c), ucast c] @ drop (i + 2) bs"
proof -
  have "put_at i c (take i bs @ [x, y] @ r) = take i bs @ [ucast (drop_bit 8 c), ucast c] @ r" for x y r
    using assms by (simp add: put_at_def list_update_append)
  then show ?thesis using two_parts [OF assms] by metis
qed

lemma nsum_put_at:
  assumes "even i" "i + 1 < length bs" "bs ! i = 0" "bs ! (i + 1) = 0"
  shows "nsum (put_at i c bs) = nsum bs + unat c"
proof -
  have bs: "bs = take i bs @ [0, 0] @ drop (i + 2) bs"
    using two_parts [OF assms(2)] assms(3,4) by simp
  have e: "even (length (take i bs))" using assms(1,2) by simp
  have "nsum (put_at i c bs) = nsum (take i bs) + unat c + nsum (drop (i + 2) bs)"
    using e by (simp add: put_at_parts [OF assms(2)] nsum_append unat_put16)
  moreover have "nsum bs = nsum (take i bs) + nsum (drop (i + 2) bs)"
    by (subst bs) (use e in \<open>simp add: nsum_append\<close>)
  ultimately show ?thesis by simp
qed

text \<open>Filling in a zeroed checksum makes the whole verify.\<close>

lemma checksum_verifies:
  assumes "even i" "i + 1 < length bs" "bs ! i = 0" "bs ! (i + 1) = 0" "unat s + nsum bs + 65535 < 2 ^ 32"
  shows "checksum16 (sum16 s (put_at i (checksum16 (sum16 s bs)) bs)) = 0"
proof (rule fold16_complement)
  let ?c = "checksum16 (sum16 s bs)"
  have p: "nsum (put_at i ?c bs) = nsum bs + unat ?c" by (rule nsum_put_at [OF assms(1-4)])
  have "unat (sum16 s (put_at i ?c bs)) = unat s + nsum (put_at i ?c bs)"
    by (rule unat_sum16) (use assms(5) p unat_u16_le [of ?c] in linarith)
  then show "unat (sum16 s (put_at i ?c bs)) = unat (sum16 s bs) + (65535 - unat (fold16 (sum16 s bs)))"
    using p assms(5) by (simp add: unat_sum16 unat_checksum16)
qed

end
