(* ===== verification/Net_Addr.thy ===== *)
theory Net_Addr
  imports Map_Parser
begin

text \<open>
  IPv4 addresses as \<^verbatim>\<open>inet_ntop\<close>, \<^verbatim>\<open>inet_pton\<close> and the \<^verbatim>\<open>%u.%u.%u.%u\<close>
  formats print and read them: four bytes in network order, or a 32-bit value.
\<close>

definition ntop :: "bytes \<Rightarrow> string" where
  "ntop a = dotted (unat (a ! 0)) (unat (a ! 1)) (unat (a ! 2)) (unat (a ! 3))"

definition dotted_ip :: "u32 \<Rightarrow> string" where
  "dotted_ip v = ntop (put_be32 v)"

definition octet :: "string \<Rightarrow> u8 option" where
  "octet s = (if s \<noteq> [] \<and> length s \<le> 3 \<and> list_all is_digit s \<and> dec_val 0 s \<le> 255
              then Some (word_of_nat (dec_val 0 s)) else None)"

fun split_dots :: "string \<Rightarrow> string list" where
  "split_dots [] = [[]]"
| "split_dots (c # s) = (case split_dots s of [] \<Rightarrow> [[c]] | p # ps \<Rightarrow> if c = CHR ''.'' then [] # p # ps else (c # p) # ps)"

text \<open>\<^verbatim>\<open>inet_pton\<close> for IPv4: four decimal numbers of at most three digits and 255.\<close>

definition pton :: "string \<Rightarrow> bytes option" where
  "pton s = (case split_dots s of
     [a, b, c, d] \<Rightarrow> (case (octet a, octet b, octet c, octet d) of
        (Some w, Some x, Some y, Some z) \<Rightarrow> Some [w, x, y, z] | _ \<Rightarrow> None)
   | _ \<Rightarrow> None)"

lemma split_dots_not_Nil: "split_dots s \<noteq> []"
  by (cases s) (auto split: list.splits)

lemma split_dots_none: "list_all (\<lambda>c. c \<noteq> CHR ''.'') s \<Longrightarrow> split_dots s = [s]"
  by (induction s) auto

lemma split_dots_dot:
  "list_all (\<lambda>c. c \<noteq> CHR ''.'') a \<Longrightarrow> split_dots (a @ CHR ''.'' # r) = a # split_dots r"
  by (induction a) (auto split: list.splits simp: split_dots_not_Nil)

lemma digits_no_dot: "list_all (\<lambda>c. c \<noteq> CHR ''.'') (show_nat n)"
  using show_nat_digits [of n] by (auto simp: list_all_iff is_digit_def)

lemma octet_show [codec_simps]: "octet (show_nat (unat (w :: u8))) = Some w"
proof -
  have u: "unat w \<le> 255" using unat_u8_less [of w] by linarith
  then have "length (show_nat (unat w)) \<le> 3" by (intro length_show_nat) auto
  then show ?thesis using u show_nat_digits [of "unat w"] by (simp add: octet_def dec_val_show_nat)
qed

lemma pton_ntop [codec_simps]: "pton (ntop [a, b, c, d]) = Some [a, b, c, d]"
  by (simp add: pton_def ntop_def dotted_def split_dots_dot digits_no_dot split_dots_none octet_show)

end
