(* ===== verification/Ord_Map.thy ===== *)
theory Ord_Map
  imports Ts_Prelude "HOL-Library.List_Lexorder" "HOL-Library.Char_ord"
begin

text \<open>
  \<^verbatim>\<open>std::map\<close> as the association list an iteration over it gives: keys strictly
  ascending (strings in lexicographic order of their characters). \<open>keyed_store\<close> is what its
  users rely on: a lookup sees the last write to its key. It is interpreted on the ordered list.
\<close>

section \<open>The contract\<close>

locale keyed_store =
  fixes get :: "'k \<Rightarrow> 's \<Rightarrow> 'v option"
    and put :: "'k \<Rightarrow> 'v \<Rightarrow> 's \<Rightarrow> 's"
    and del :: "'k \<Rightarrow> 's \<Rightarrow> 's"
    and new :: 's
    and wf :: "'s \<Rightarrow> bool"
  assumes get_put: "wf s \<Longrightarrow> get k (put j v s) = (if k = j then Some v else get k s)"
    and get_del: "wf s \<Longrightarrow> get k (del j s) = (if k = j then None else get k s)"
    and get_new: "get k new = None"
    and wf_put: "wf s \<Longrightarrow> wf (put j v s)"
    and wf_del: "wf s \<Longrightarrow> wf (del j s)"
    and wf_new: "wf new"
begin

definition apply_op :: "'k \<times> 'v option \<Rightarrow> 's \<Rightarrow> 's" where
  "apply_op op s = (case op of (k, Some v) \<Rightarrow> put k v s | (k, None) \<Rightarrow> del k s)"

lemma wf_apply: "wf s \<Longrightarrow> wf (apply_op op s)"
  by (auto simp: apply_op_def wf_put wf_del split: prod.splits option.splits)

lemma get_apply: "wf s \<Longrightarrow> get k (apply_op op s) = (if fst op = k then snd op else get k s)"
  by (auto simp: apply_op_def get_put get_del split: prod.splits option.splits)

lemma wf_run: "wf s \<Longrightarrow> wf (fold apply_op ops s)"
  by (induction ops arbitrary: s) (auto intro: wf_apply)

lemma get_run: "wf s \<Longrightarrow> get k (fold apply_op ops s) = (case map_of (rev ops) k of Some v \<Rightarrow> v | None \<Rightarrow> get k s)"
proof (induction ops arbitrary: s)
  case (Cons op ops)
  then show ?case
    by (cases op) (auto simp: get_apply wf_apply map_of_append map_add_def split: option.splits)
qed simp

end

section \<open>Ordered association lists\<close>

type_synonym ('k, 'v) omap = "('k \<times> 'v) list"

definition om_get :: "'k \<Rightarrow> ('k, 'v) omap \<Rightarrow> 'v option" where
  "om_get k m = map_of m k"

fun om_put :: "'k :: linorder \<Rightarrow> 'v \<Rightarrow> ('k, 'v) omap \<Rightarrow> ('k, 'v) omap" where
  "om_put k v [] = [(k, v)]"
| "om_put k v ((j, w) # m) =
     (if k < j then (k, v) # (j, w) # m else if k = j then (k, v) # m else (j, w) # om_put k v m)"

definition om_del :: "'k \<Rightarrow> ('k, 'v) omap \<Rightarrow> ('k, 'v) omap" where
  "om_del k m = filter (\<lambda>(j, _). j \<noteq> k) m"

definition om_wf :: "('k :: linorder, 'v) omap \<Rightarrow> bool" where
  "om_wf m \<longleftrightarrow> sorted_wrt (<) (map fst m)"

lemma map_of_om_put: "om_wf m \<Longrightarrow> map_of (om_put j v m) k = (if k = j then Some v else map_of m k)"
  by (induction j v m rule: om_put.induct) (auto simp: om_wf_def)

lemma set_om_put: "fst ` set (om_put k v m) = insert k (fst ` set m)"
  by (induction k v m rule: om_put.induct) auto

lemma om_wf_put: "om_wf m \<Longrightarrow> om_wf (om_put k v m)"
proof (induction k v m rule: om_put.induct)
  case (2 k v j w m)
  have "\<forall>x \<in> set (map fst (om_put k v m)). j < x" if "\<not> k < j" "k \<noteq> j"
    using that 2(2) set_om_put [of k v m] by (auto simp: om_wf_def)
  moreover have "om_wf (om_put k v m)" if "\<not> k < j" "k \<noteq> j"
    using 2(1) [OF that] 2(2) by (simp add: om_wf_def)
  ultimately show ?case using 2(2) by (auto simp: om_wf_def)
qed (simp add: om_wf_def)

lemma map_of_om_del: "map_of (om_del j m) k = (if k = j then None else map_of m k)"
  by (induction m) (auto simp: om_del_def)

lemma om_wf_del: "om_wf m \<Longrightarrow> om_wf (om_del k m)"
  by (induction m) (auto simp: om_wf_def om_del_def)

interpretation oms: keyed_store om_get om_put om_del "[]" om_wf
  by unfold_locales
     (simp_all add: om_get_def map_of_om_put map_of_om_del om_wf_put om_wf_del, simp add: om_wf_def)

lemma om_get_mem: "om_wf m \<Longrightarrow> om_get k m = Some v \<longleftrightarrow> (k, v) \<in> set m"
proof -
  assume "om_wf m"
  then have "distinct (map fst m)" by (simp add: om_wf_def strict_sorted_iff)
  then show ?thesis by (simp add: om_get_def)
qed

lemma length_om_put: "length (om_put k v m) = (if om_get k m = None then Suc (length m) else length m) \<or> \<not> om_wf m"
proof (induction k v m rule: om_put.induct)
  case (2 k v j w m)
  show ?case
  proof (cases "k < j \<and> om_wf ((j, w) # m)")
    case True
    then have "k \<notin> fst ` set m" "k \<noteq> j" by (auto simp: om_wf_def)
    then have "om_get k ((j, w) # m) = None" by (simp add: om_get_def map_of_eq_None_iff)
    then show ?thesis using True by simp
  next
    case False
    then show ?thesis using 2 by (cases "om_wf ((j, w) # m)") (auto simp: om_get_def om_wf_def)
  qed
qed (simp add: om_get_def)

lemma length_om_del: "om_get k m \<noteq> None \<Longrightarrow> om_wf m \<Longrightarrow> Suc (length (om_del k m)) = length m"
proof (induction m)
  case (Cons x m)
  obtain j w where x: "x = (j, w)" by fastforce
  show ?case
  proof (cases "j = k")
    case True
    then have "\<forall>y \<in> set m. fst y \<noteq> k" using Cons.prems(2) x by (fastforce simp: om_wf_def)
    then have "om_del k m = m" by (auto simp: om_del_def filter_id_conv)
    then show ?thesis using True x by (simp add: om_del_def)
  next
    case False
    then show ?thesis using Cons x by (auto simp: om_get_def om_wf_def om_del_def)
  qed
qed (simp add: om_get_def)

end
