(* ===== verification/Tcp_Stack.thy ===== *)
theory Tcp_Stack
  imports Net_Checksum Net_Addr Ord_Map
begin

text \<open>
  The TCP endpoint of \<^verbatim>\<open>tailscale.cpp\<close> (\<^verbatim>\<open>handle_tcp_packet_\<close>,
  \<^verbatim>\<open>send_tcp_packet_\<close> and the socket calls) and the sockets of
  \<^verbatim>\<open>tailscale_socket.cpp\<close> and \<^verbatim>\<open>echo_socket.h\<close>. A socket is the three callbacks,
  each a function from the connection to the calls it makes back; on disconnect these are sends
  only. Sizes are \<^verbatim>\<open>size_t\<close> of the 32-bit target. \<open>out_packets\<close> is what is handed to
  the tunnel, with the address of the peer; \<open>overread\<close> records a read behind the packet.
\<close>

section \<open>State\<close>

datatype tcp_state = CLOSED | SYN_RECEIVED | ESTABLISHED | FIN_WAIT

record tcp_conn =
  c_src_ip :: u32
  c_src_port :: u16
  c_dst_port :: u16
  c_seq :: u32
  c_ack :: u32
  c_state :: tcp_state
  rx_buffer :: bytes
  c_last_activity :: u32
  c_socket :: "nat option"

datatype sock_call = SendData bytes | CloseConn

record socket =
  on_connect :: "tcp_conn \<Rightarrow> sock_call list"
  on_data :: "tcp_conn \<Rightarrow> bytes \<Rightarrow> nat \<times> sock_call list"
  on_disconnect :: "tcp_conn \<Rightarrow> bytes list"

record tcp_stack =
  ipv4_address :: string
  uninit :: bytes
  tcp_connections :: "tcp_conn list"
  bound_sockets :: "(u16, nat) omap"
  ip_to_peer :: "(string, nat) omap"
  peer_ips :: "string list"
  out_packets :: "(string \<times> bytes) list"
  overread :: bool

definition MAX_TCP_CONNECTIONS :: nat where "MAX_TCP_CONNECTIONS = 4"

section \<open>Sending\<close>

definition be16_bytes :: "u32 \<Rightarrow> bytes" where
  "be16_bytes v = [ucast (drop_bit 8 v), ucast v]"

text \<open>
  The source address is read from the configured one; four words that \<^verbatim>\<open>sscanf\<close> does
  not fill keep what the stack held, \<open>uninit\<close>.
\<close>

definition own_ip :: "tcp_stack \<Rightarrow> bytes" where
  "own_ip t = (case sscanf_ipv4 (takeWhile (\<lambda>c. c \<noteq> CHR ''/'') (ipv4_address t)) of
     None \<Rightarrow> uninit t | Some (a, b, c, d) \<Rightarrow> [ucast a, ucast b, ucast c, ucast d])"

definition ip_header :: "bytes \<Rightarrow> u32 \<Rightarrow> nat \<Rightarrow> bytes" where
  "ip_header own dst total_len =
     (let h = [0x45, 0] @ be16_bytes (word_of_nat total_len) @ [0, 0, 0x40, 0, 64, 6, 0, 0] @ own @ put_be32 dst
      in put_at 10 (calculate_ip_checksum h) h)"

definition tcp_segment :: "bytes \<Rightarrow> tcp_conn \<Rightarrow> u8 \<Rightarrow> bytes \<Rightarrow> bytes" where
  "tcp_segment iph c flags payload =
     (let s = put_be16 (c_dst_port c) @ put_be16 (c_src_port c) @ put_be32 (c_seq c) @ put_be32 (c_ack c)
                @ [0x50, flags, 0x20, 0, 0, 0, 0, 0] @ payload
      in put_at 16 (calculate_tcp_checksum iph s) s)"

definition tcp_packet :: "bytes \<Rightarrow> tcp_conn \<Rightarrow> u8 \<Rightarrow> bytes \<Rightarrow> bytes" where
  "tcp_packet own c flags payload =
     (let h = ip_header own (c_src_ip c) (40 + length payload) in h @ tcp_segment h c flags payload)"

definition send_tcp_packet :: "tcp_conn \<Rightarrow> u8 \<Rightarrow> bytes \<Rightarrow> tcp_stack \<Rightarrow> tcp_stack" where
  "send_tcp_packet c flags payload t =
     (if 40 + length payload > 1500 then t
      else case om_get (dotted_ip (c_src_ip c)) (ip_to_peer t) of None \<Rightarrow> t
        | Some i \<Rightarrow> if i < length (peer_ips t)
                    then t\<lparr>out_packets := out_packets t @ [(peer_ips t ! i, tcp_packet (own_ip t) c flags payload)]\<rparr>
                    else t)"

section \<open>The socket calls\<close>

definition send_tcp_data :: "bytes \<Rightarrow> tcp_conn \<times> tcp_stack \<Rightarrow> tcp_conn \<times> tcp_stack" where
  "send_tcp_data bs = (\<lambda>(c, t). if bs = [] then (c, t)
     else (c\<lparr>c_seq := c_seq c + word_of_nat (length bs)\<rparr>, send_tcp_packet c 0x18 bs t))"

definition notify_disconnect :: "(nat \<Rightarrow> socket) \<Rightarrow> tcp_conn \<times> tcp_stack \<Rightarrow> tcp_conn \<times> tcp_stack" where
  "notify_disconnect tab = (\<lambda>(c, t). case c_socket c of None \<Rightarrow> (c, t)
     | Some s \<Rightarrow> fold send_tcp_data (on_disconnect (tab s) c) (c, t))"

definition close_tcp_connection :: "(nat \<Rightarrow> socket) \<Rightarrow> tcp_conn \<times> tcp_stack \<Rightarrow> tcp_conn \<times> tcp_stack" where
  "close_tcp_connection tab ct =
     (case notify_disconnect tab ct of (c, t) \<Rightarrow> (c\<lparr>c_state := CLOSED\<rparr>, send_tcp_packet c 0x11 [] t))"

definition run_call :: "(nat \<Rightarrow> socket) \<Rightarrow> sock_call \<Rightarrow> tcp_conn \<times> tcp_stack \<Rightarrow> tcp_conn \<times> tcp_stack" where
  "run_call tab a ct = (case a of SendData bs \<Rightarrow> send_tcp_data bs ct | CloseConn \<Rightarrow> close_tcp_connection tab ct)"

definition find_socket :: "u16 \<Rightarrow> tcp_stack \<Rightarrow> nat option" where
  "find_socket port t = om_get port (bound_sockets t)"

definition bind_socket :: "u16 \<Rightarrow> nat option \<Rightarrow> tcp_stack \<Rightarrow> bool \<times> tcp_stack" where
  "bind_socket port sock t =
     (case sock of None \<Rightarrow> (False, t)
      | Some s \<Rightarrow> if om_get port (bound_sockets t) \<noteq> None then (False, t)
                  else (True, t\<lparr>bound_sockets := om_put port s (bound_sockets t)\<rparr>))"

text \<open>The echo socket: it echoes up to the first newline, and the rest on disconnect.\<close>

definition line_length :: "bytes \<Rightarrow> nat option" where
  "line_length bs = (let k = length (takeWhile (\<lambda>b. b \<noteq> 0x0A) bs) in if k = length bs then None else Some (Suc k))"

definition echo_socket :: socket where
  "echo_socket = \<lparr>on_connect = (\<lambda>_. []),
     on_data = (\<lambda>_ bs. case line_length bs of None \<Rightarrow> (0, []) | Some n \<Rightarrow> (n, [SendData (take n bs)])),
     on_disconnect = (\<lambda>c. if rx_buffer c = [] then [] else [rx_buffer c])\<rparr>"

section \<open>Receiving\<close>

definition conn_matches :: "u32 \<Rightarrow> u16 \<Rightarrow> tcp_conn \<Rightarrow> bool" where
  "conn_matches ip port c \<longleftrightarrow> c_src_ip c = ip \<and> c_src_port c = port \<and> c_state c \<noteq> CLOSED"

definition find_tcp_connection :: "u32 \<Rightarrow> u16 \<Rightarrow> tcp_conn list \<Rightarrow> nat option" where
  "find_tcp_connection ip port cs =
     (let i = length (takeWhile (\<lambda>c. \<not> conn_matches ip port c) cs) in if i < length cs then Some i else None)"

record segment =
  s_ihl :: nat
  s_src_ip :: u32
  s_src_port :: u16
  s_dst_port :: u16
  s_seq :: u32
  s_ack :: u32
  s_data_offset :: nat
  s_flags :: u8
  s_total_len :: u16

text \<open>The fields of a packet; \<open>None\<close> when it is shorter than the header it announces and 20 bytes.\<close>

definition header_length :: "bytes \<Rightarrow> nat" where
  "header_length p = unat (p ! 0 AND 0x0F) * 4"

definition parse_segment :: "bytes \<Rightarrow> segment option" where
  "parse_segment p =
     (let ihl = header_length p; q = drop ihl p in
      if length p < ihl + 20 then None
      else Some \<lparr>s_ihl = ihl, s_src_ip = get_be32 (p ! 12) (p ! 13) (p ! 14) (p ! 15),
        s_src_port = get_be16 (q ! 0) (q ! 1), s_dst_port = get_be16 (q ! 2) (q ! 3),
        s_seq = get_be32 (q ! 4) (q ! 5) (q ! 6) (q ! 7), s_ack = get_be32 (q ! 8) (q ! 9) (q ! 10) (q ! 11),
        s_data_offset = unat (drop_bit 4 (q ! 12)) * 4, s_flags = q ! 13, s_total_len = get_be16 (p ! 2) (p ! 3)\<rparr>)"

definition payload_len :: "segment \<Rightarrow> u32" where
  "payload_len s = word_of_int (int (unat (s_total_len s)) - int (s_ihl s) - int (s_data_offset s))"

text \<open>
  The payload is read by its computed length, which the length of the packet does not bound:
  the bytes of the packet it covers, and whether it reaches behind them.
\<close>

definition payload :: "segment \<Rightarrow> bytes \<Rightarrow> bytes" where
  "payload s p = take (unat (payload_len s)) (drop (s_ihl s + s_data_offset s) p)"

definition reads_behind :: "segment \<Rightarrow> bytes \<Rightarrow> bool" where
  "reads_behind s p \<longleftrightarrow> length p < s_ihl s + s_data_offset s + unat (payload_len s)"

text \<open>A SYN without ACK; \<open>rnd\<close> is the generator's value for the initial sequence number.\<close>

definition handle_syn :: "u32 \<Rightarrow> u32 \<Rightarrow> nat \<Rightarrow> segment \<Rightarrow> tcp_stack \<Rightarrow> tcp_stack" where
  "handle_syn rnd now sock s t =
     (let cs = tcp_connections t in
      case find_tcp_connection (s_src_ip s) (s_src_port s) cs of
        None \<Rightarrow>
          if length cs < MAX_TCP_CONNECTIONS then
            let c = \<lparr>c_src_ip = s_src_ip s, c_src_port = s_src_port s, c_dst_port = s_dst_port s,
                     c_seq = rnd mod 90000 + 10000, c_ack = s_seq s + 1, c_state = SYN_RECEIVED, rx_buffer = [],
                     c_last_activity = now, c_socket = Some sock\<rparr>
            in (send_tcp_packet c 0x12 [] t)\<lparr>tcp_connections := cs @ [c\<lparr>c_seq := c_seq c + 1\<rparr>]\<rparr>
          else t
      | Some i \<Rightarrow>
          let c = (cs ! i)\<lparr>c_ack := s_seq s + 1, c_state := SYN_RECEIVED\<rparr>
          in (send_tcp_packet c 0x12 [] t)\<lparr>tcp_connections := cs[i := c\<lparr>c_seq := c_seq c + 1\<rparr>]\<rparr>)"

definition handle_ack :: "(nat \<Rightarrow> socket) \<Rightarrow> segment \<Rightarrow> tcp_conn \<times> tcp_stack \<Rightarrow> tcp_conn \<times> tcp_stack" where
  "handle_ack tab s = (\<lambda>(c, t).
     if s_flags s AND 0x10 \<noteq> 0 \<and> c_state c = SYN_RECEIVED then
       let c = c\<lparr>c_state := ESTABLISHED\<rparr> in
       (case c_socket c of None \<Rightarrow> (c, t) | Some k \<Rightarrow> fold (run_call tab) (on_connect (tab k) c) (c, t))
     else (c, t))"

text \<open>The socket's reading of the buffer, with what it reports consumed cut off.\<close>

definition feed_socket :: "socket \<Rightarrow> (sock_call \<Rightarrow> tcp_conn \<times> tcp_stack \<Rightarrow> tcp_conn \<times> tcp_stack) \<Rightarrow>
    tcp_conn \<times> tcp_stack \<Rightarrow> tcp_conn \<times> tcp_stack" where
  "feed_socket k run = (\<lambda>(c, t).
     case on_data k c (rx_buffer c) of (n, calls) \<Rightarrow>
       (case fold run calls (c, t) of (c, t) \<Rightarrow>
          (if 0 < n \<and> n \<le> length (rx_buffer c) then c\<lparr>rx_buffer := drop n (rx_buffer c)\<rparr> else c, t)))"

text \<open>Data: the flag says whether the handler goes on to the FIN.\<close>

definition handle_segment_data :: "(nat \<Rightarrow> socket) \<Rightarrow> bytes \<Rightarrow> segment \<Rightarrow> tcp_conn \<times> tcp_stack \<Rightarrow> bool \<times> tcp_conn \<times> tcp_stack" where
  "handle_segment_data tab p s = (\<lambda>(c, t).
     if 0 < payload_len s \<and> c_state c = ESTABLISHED then
       if s_seq s = c_ack c then
         (let c = c\<lparr>rx_buffer := rx_buffer c @ payload s p, c_ack := s_seq s + payload_len s\<rparr>;
              t = (if reads_behind s p then t\<lparr>overread := True\<rparr> else t)
          in (True, case c_socket c of
                Some k \<Rightarrow> if rx_buffer c \<noteq> [] then feed_socket (tab k) (run_call tab) (c, t) else (c, send_tcp_packet c 0x10 [] t)
              | None \<Rightarrow> (c, send_tcp_packet c 0x10 [] t)))
       else if s_seq s < c_ack c then (False, c, send_tcp_packet c 0x10 [] t)
       else (False, c, t)
     else (True, c, t))"

definition handle_fin :: "(nat \<Rightarrow> socket) \<Rightarrow> segment \<Rightarrow> tcp_conn \<times> tcp_stack \<Rightarrow> tcp_conn \<times> tcp_stack" where
  "handle_fin tab s = (\<lambda>(c, t).
     if s_flags s AND 0x01 \<noteq> 0 then
       (case (case c_socket c of None \<Rightarrow> (c, t)
              | Some k \<Rightarrow> notify_disconnect tab (if rx_buffer c \<noteq> [] then feed_socket (tab k) (run_call tab) (c, t) else (c, t))) of
          (c, t) \<Rightarrow>
            let c = c\<lparr>rx_buffer := [], c_ack := (if s_seq s \<ge> c_ack c then s_seq s + 1 else c_ack c)\<rparr>
            in (c\<lparr>c_state := CLOSED\<rparr>, send_tcp_packet c 0x11 [] t))
     else (c, t))"

definition drop_closed :: "tcp_stack \<Rightarrow> tcp_stack" where
  "drop_closed t = t\<lparr>tcp_connections := filter (\<lambda>c. c_state c \<noteq> CLOSED) (tcp_connections t)\<rparr>"

definition set_conn :: "nat \<Rightarrow> tcp_conn \<times> tcp_stack \<Rightarrow> tcp_stack" where
  "set_conn i = (\<lambda>(c, t). t\<lparr>tcp_connections := (tcp_connections t)[i := c]\<rparr>)"

definition handle_tcp_packet :: "(nat \<Rightarrow> socket) \<Rightarrow> u32 \<Rightarrow> u32 \<Rightarrow> bytes \<Rightarrow> tcp_stack \<Rightarrow> tcp_stack" where
  "handle_tcp_packet tab rnd now p t =
     (case parse_segment p of None \<Rightarrow> t | Some s \<Rightarrow>
     (case find_socket (s_dst_port s) t of None \<Rightarrow> t | Some sock \<Rightarrow>
     (if s_flags s AND 0x02 \<noteq> 0 \<and> s_flags s AND 0x10 = 0 then handle_syn rnd now sock s t
      else case find_tcp_connection (s_src_ip s) (s_src_port s) (tcp_connections t) of None \<Rightarrow> t | Some i \<Rightarrow>
        (let ct = handle_ack tab s ((tcp_connections t ! i)\<lparr>c_last_activity := now\<rparr>, t) in
         case handle_segment_data tab p s ct of
           (False, ct) \<Rightarrow> set_conn i ct
         | (True, ct) \<Rightarrow> drop_closed (set_conn i (handle_fin tab s ct))))))"

end
