(* ===== verification/Tcp_Delivery.thy ===== *)
theory Tcp_Delivery
  imports Tcp_Stack Ts_Interfaces
begin

text \<open>
  Correctness of \<open>Tcp_Stack\<close>: what is sent parses back and verifies, the connection table,
  delivery of a line to the echo socket, and the cases in which the endpoint goes wrong: a length
  field that is not checked against the packet, a FIN that comes with data, a repeated SYN,
  a write above the segment size, and slots that are never freed.
\<close>

section \<open>Packets\<close>

lemma length_be16_bytes [simp]: "length (be16_bytes v) = 2"
  by (simp add: be16_bytes_def)

lemma length_ip_header [simp]: "length own = 4 \<Longrightarrow> length (ip_header own dst n) = 20"
  by (simp add: ip_header_def Let_def be16_bytes_def)

lemma length_tcp_segment [simp]: "length (tcp_segment h c f pl) = 20 + length pl"
  by (simp add: tcp_segment_def Let_def)

lemma length_tcp_packet [simp]: "length own = 4 \<Longrightarrow> length (tcp_packet own c f pl) = 40 + length pl"
  by (simp add: tcp_packet_def Let_def)

lemma get_put_be16': "get_be16 (put_be16 v ! 0) (put_be16 v ! 1) = v"
  by (simp add: put_be16_def codec_simps)

lemma be16_of_u32: "get_be16 (ucast (drop_bit 8 (word_of_nat n :: u32))) (ucast (word_of_nat n :: u32)) = word_of_nat n"
proof (rule bit_word_eqI)
  fix k assume "k < LENGTH(16)"
  then have "k < 32" "k < 16" by simp_all
  then show "bit (get_be16 (ucast (drop_bit 8 (word_of_nat n :: u32))) (ucast (word_of_nat n :: u32))) k = bit (word_of_nat n :: u16) k"
    by (cases rule: bit_lanes) (auto simp: get_be16_def bit_simps)
qed

lemma ip_header_fields:
  assumes "length own = 4"
  shows "ip_header own dst n ! 0 = 0x45" "ip_header own dst n ! 9 = 6"
    "get_be16 (ip_header own dst n ! 2) (ip_header own dst n ! 3) = word_of_nat n"
    "take 4 (drop 12 (ip_header own dst n)) = own"
proof -
  let ?h = "[0x45, 0] @ be16_bytes (word_of_nat n) @ [0, 0, 0x40, 0, 64, 6, 0, 0] @ own @ put_be32 dst"
  have h: "ip_header own dst n = put_at 10 (calculate_ip_checksum ?h) ?h" by (simp add: ip_header_def Let_def)
  show "ip_header own dst n ! 0 = 0x45" "ip_header own dst n ! 9 = 6"
    unfolding h by (simp_all add: nth_put_at be16_bytes_def)
  show "get_be16 (ip_header own dst n ! 2) (ip_header own dst n ! 3) = word_of_nat n"
    using be16_of_u32 [of n] unfolding h by (simp add: nth_put_at be16_bytes_def)
  show "take 4 (drop 12 (ip_header own dst n)) = own"
    unfolding h using assms by (simp add: drop_put_at be16_bytes_def)
qed

lemma nth_segment:
  assumes "k < 16"
  shows "tcp_segment h c f pl ! k =
    (put_be16 (c_dst_port c) @ put_be16 (c_src_port c) @ put_be32 (c_seq c) @ put_be32 (c_ack c) @ [0x50, f, 0x20, 0]) ! k"
proof -
  let ?x = "put_be16 (c_dst_port c) @ put_be16 (c_src_port c) @ put_be32 (c_seq c) @ put_be32 (c_ack c) @ [0x50, f, 0x20, 0]"
  obtain v where "tcp_segment h c f pl = put_at 16 v (?x @ [0, 0, 0, 0] @ pl)"
    by (simp add: tcp_segment_def Let_def)
  moreover have "length ?x = 16" by simp
  ultimately show ?thesis using assms by (simp only: nth_put_at nth_append if_True)
qed

lemma drop_segment: "drop 20 (tcp_segment h c f pl) = pl"
  by (simp add: tcp_segment_def Let_def drop_put_at)

lemma parse_tcp_packet:
  assumes "length own = 4" "length pl \<le> 1460"
  shows "parse_segment (tcp_packet own c f pl) = Some \<lparr>s_ihl = 20, s_src_ip = get_be32 (own ! 0) (own ! 1) (own ! 2) (own ! 3),
      s_src_port = c_dst_port c, s_dst_port = c_src_port c, s_seq = c_seq c, s_ack = c_ack c,
      s_data_offset = 20, s_flags = f, s_total_len = word_of_nat (40 + length pl)\<rparr>"
proof -
  let ?n = "40 + length pl"
  let ?h = "ip_header own (c_src_ip c) ?n"
  let ?p = "tcp_packet own c f pl"
  have p: "?p = ?h @ tcp_segment ?h c f pl" by (simp add: tcp_packet_def Let_def)
  have lh: "length ?h = 20" using assms(1) by simp
  have hl: "header_length ?p = 20"
    using ip_header_fields(1) [OF assms(1), of "c_src_ip c"] lh by (simp add: header_length_def p nth_append)
  have d: "drop 20 ?p = tcp_segment ?h c f pl" using lh by (simp add: p)
  have nh: "?p ! k = ?h ! k" if "k < 20" for k using that lh by (simp add: p nth_append)
  have own: "?h ! 12 = own ! 0" "?h ! 13 = own ! 1" "?h ! 14 = own ! 2" "?h ! 15 = own ! 3"
  proof -
    have "own ! k = ?h ! (12 + k)" if "k < 4" for k
      using that lh by (subst ip_header_fields(4) [OF assms(1), of "c_src_ip c" ?n, symmetric]) simp
    from this [of 0] this [of 1] this [of 2] this [of 3]
    show "?h ! 12 = own ! 0" "?h ! 13 = own ! 1" "?h ! 14 = own ! 2" "?h ! 15 = own ! 3" by simp_all
  qed
  have "get_be16 (?h ! 2) (?h ! 3) = word_of_nat ?n" by (rule ip_header_fields(3) [OF assms(1)])
  then show ?thesis using assms(1)
    by (simp add: parse_segment_def Let_def hl d nh own nth_segment put_be16_def put_be32_def codec_simps)
qed

lemma unat_pseudo_sum:
  assumes "length iph = 20" "n \<le> 1480"
  shows "unat (pseudo_sum iph n) \<le> 65535 * 8 + 6 + n"
proof -
  have l: "length (take 8 (drop 12 iph)) = 8" using assms(1) by simp
  have "nsum (take 8 (drop 12 iph)) \<le> 65535 * 8" using nsum_bound [of "take 8 (drop 12 iph)"] l by simp
  then have "unat (sum16 0 (take 8 (drop 12 iph))) \<le> 65535 * 8" by (simp add: unat_sum16)
  moreover have "unat (6 + word_of_nat n :: u32) = 6 + n" using assms(2) by (simp add: unat_word_ariths unat_of_nat)
  ultimately show ?thesis
    unfolding pseudo_sum_def add.assoc using assms(2) by (simp add: unat_word_ariths)
qed

lemma packet_checksums:
  assumes "length own = 4" "length pl \<le> 1460"
  shows "calculate_ip_checksum (take 20 (tcp_packet own c f pl)) = 0
    \<and> calculate_tcp_checksum (take 20 (tcp_packet own c f pl)) (drop 20 (tcp_packet own c f pl)) = 0"
proof -
  let ?h = "ip_header own (c_src_ip c) (40 + length pl)"
  let ?hz = "[0x45, 0] @ be16_bytes (word_of_nat (40 + length pl)) @ [0, 0, 0x40, 0, 64, 6, 0, 0] @ own @ put_be32 (c_src_ip c)"
  let ?x = "put_be16 (c_dst_port c) @ put_be16 (c_src_port c) @ put_be32 (c_seq c) @ put_be32 (c_ack c) @ [0x50, f, 0x20, 0]"
  let ?sz = "?x @ [0, 0, 0, 0] @ pl"
  have lh: "length ?h = 20" using assms(1) by simp
  have p: "tcp_packet own c f pl = ?h @ tcp_segment ?h c f pl" by (simp add: tcp_packet_def Let_def)
  have l0: "length ?hz = 20" "?hz ! 10 = 0" "?hz ! 11 = 0" using assms(1) by (simp_all add: nth_append)
  have "nsum ?hz \<le> 65535 * 20" using nsum_bound [of ?hz] l0(1) by simp
  then have "checksum16 (sum16 0 (put_at 10 (checksum16 (sum16 0 ?hz)) ?hz)) = 0"
    using l0 by (intro checksum_verifies) auto
  then have ip: "calculate_ip_checksum ?h = 0" by (simp add: calculate_ip_checksum_def ip_header_def Let_def)
  have lx: "length ?x = 16" by simp
  have ls: "length ?sz = 20 + length pl" by simp
  have z: "?sz ! 16 = 0" "?sz ! (16 + 1) = 0" unfolding nth_append lx by simp_all
  have sg: "tcp_segment ?h c f pl = put_at 16 (checksum16 (sum16 (pseudo_sum ?h (length ?sz)) ?sz)) ?sz"
    by (simp add: tcp_segment_def Let_def calculate_tcp_checksum_def)
  have "nsum ?sz \<le> 65535 * length ?sz" by (rule nsum_bound)
  also have "\<dots> \<le> 65535 * 1480" using assms(2) unfolding ls by simp
  finally have "unat (pseudo_sum ?h (length ?sz)) + nsum ?sz + 65535 < 2 ^ 32"
    using unat_pseudo_sum [OF lh, of "length ?sz"] assms(2) unfolding ls by simp
  then have "checksum16 (sum16 (pseudo_sum ?h (length ?sz)) (tcp_segment ?h c f pl)) = 0"
    unfolding sg by (intro checksum_verifies z) (auto simp: ls)
  then have "calculate_tcp_checksum ?h (tcp_segment ?h c f pl) = 0"
    by (simp add: calculate_tcp_checksum_def ls)
  then show ?thesis using ip lh by (simp add: p)
qed

lemma tcp_packet_payload:
  assumes "length own = 4" "length pl \<le> 1460" "parse_segment (tcp_packet own c f pl) = Some s"
  shows "payload s (tcp_packet own c f pl) = pl" "payload_len s = word_of_nat (length pl)" "\<not> reads_behind s (tcp_packet own c f pl)"
proof -
  have u: "unat (word_of_nat (40 + length pl) :: u16) = 40 + length pl"
    using assms(2) by (subst unat_of_nat) (rule mod_less, simp)
  have s: "s_ihl s = 20" "s_data_offset s = 20" "s_total_len s = word_of_nat (40 + length pl)"
    using assms(3) unfolding parse_tcp_packet [OF assms(1,2)] by auto
  show l: "payload_len s = word_of_nat (length pl)" by (simp only: payload_len_def s u) simp
  have w: "unat (word_of_nat (length pl) :: u32) = length pl" using assms(2) by (simp add: unat_of_nat take_bit_nat_eq_self)
  have "drop 40 (tcp_packet own c f pl) = drop 20 (drop 20 (tcp_packet own c f pl))" by simp
  then have "drop 40 (tcp_packet own c f pl) = pl" using assms(1) by (simp add: tcp_packet_def Let_def drop_segment del: drop_drop)
  then show "payload s (tcp_packet own c f pl) = pl" "\<not> reads_behind s (tcp_packet own c f pl)"
    using assms(1) by (simp_all add: payload_def reads_behind_def l w s(1,2))
qed

text \<open>
  C31. Every segment that fits a packet parses back to the connection's ports, numbers, flags and
  payload, its length field covers exactly the packet, and both of its checksums verify.
\<close>

theorem tcp_packet_roundtrip:
  assumes "length own = 4" "length pl \<le> 1460"
  shows "\<exists>s. parse_segment (tcp_packet own c f pl) = Some s \<and> s_src_port s = c_dst_port c \<and> s_dst_port s = c_src_port c
    \<and> s_seq s = c_seq c \<and> s_ack s = c_ack c \<and> s_flags s = f \<and> payload s (tcp_packet own c f pl) = pl
    \<and> \<not> reads_behind s (tcp_packet own c f pl)
    \<and> calculate_ip_checksum (take 20 (tcp_packet own c f pl)) = 0
    \<and> calculate_tcp_checksum (take 20 (tcp_packet own c f pl)) (drop 20 (tcp_packet own c f pl)) = 0"
  using tcp_packet_payload(1,3) [OF assms parse_tcp_packet [OF assms]] parse_tcp_packet [OF assms, of c f] packet_checksums [OF assms, of c f]
  by auto

section \<open>What the socket calls may change\<close>

definition sent_from :: "tcp_conn \<times> tcp_stack \<Rightarrow> tcp_conn \<times> tcp_stack \<Rightarrow> bool" where
  "sent_from ct ct' \<longleftrightarrow> (\<exists>x y o'. fst ct' = (fst ct)\<lparr>c_seq := x, c_state := y\<rparr> \<and> (y = c_state (fst ct) \<or> y = CLOSED)
     \<and> snd ct' = (snd ct)\<lparr>out_packets := out_packets (snd ct) @ o'\<rparr>)"

lemma sent_from_refl: "sent_from ct ct"
  unfolding sent_from_def by (intro exI [of _ "c_seq (fst ct)"] exI [of _ "c_state (fst ct)"] exI [of _ "[]"]) simp

lemma sent_from_trans: "sent_from a b \<Longrightarrow> sent_from b c \<Longrightarrow> sent_from a c"
  unfolding sent_from_def
proof (elim exE conjE)
  fix x y o1 x' y' o2
  assume "fst b = (fst a)\<lparr>c_seq := x, c_state := y\<rparr>" "y = c_state (fst a) \<or> y = CLOSED"
    "snd b = (snd a)\<lparr>out_packets := out_packets (snd a) @ o1\<rparr>"
    "fst c = (fst b)\<lparr>c_seq := x', c_state := y'\<rparr>" "y' = c_state (fst b) \<or> y' = CLOSED"
    "snd c = (snd b)\<lparr>out_packets := out_packets (snd b) @ o2\<rparr>"
  then show "\<exists>x y o'. fst c = (fst a)\<lparr>c_seq := x, c_state := y\<rparr> \<and> (y = c_state (fst a) \<or> y = CLOSED)
      \<and> snd c = (snd a)\<lparr>out_packets := out_packets (snd a) @ o'\<rparr>"
    by (intro exI [of _ x'] exI [of _ y'] exI [of _ "o1 @ o2"]) auto
qed

lemma send_tcp_packet_out: "\<exists>o'. send_tcp_packet c f pl t = t\<lparr>out_packets := out_packets t @ o'\<rparr>"
proof -
  have "\<exists>o'. t = t\<lparr>out_packets := out_packets t @ o'\<rparr>" by (rule exI [of _ "[]"]) simp
  then show ?thesis unfolding send_tcp_packet_def by (auto split: option.splits)
qed

lemma sent_send: "sent_from ct (send_tcp_data bs ct)"
proof (cases "bs = []")
  case True
  then show ?thesis by (simp add: send_tcp_data_def sent_from_refl split: prod.splits)
next
  case False
  obtain c t where ct: "ct = (c, t)" by fastforce
  obtain o' where o': "send_tcp_packet c 0x18 bs t = t\<lparr>out_packets := out_packets t @ o'\<rparr>"
    using send_tcp_packet_out by blast
  show ?thesis unfolding sent_from_def ct using False o'
    by (intro exI [of _ "c_seq c + word_of_nat (length bs)"] exI [of _ "c_state c"] exI [of _ o'])
       (simp add: send_tcp_data_def)
qed

lemma sent_fold: "(\<And>a ct. sent_from ct (f a ct)) \<Longrightarrow> sent_from ct (fold f as ct)"
proof (induction as arbitrary: ct)
  case (Cons a as)
  then show ?case unfolding fold_Cons o_apply by (blast intro: sent_from_trans)
qed (simp add: sent_from_refl)

lemma sent_notify: "sent_from ct (notify_disconnect tab ct)"
  by (auto simp: notify_disconnect_def sent_from_refl split: prod.splits option.splits intro: sent_fold sent_send)

lemma sent_close: "sent_from ct (close_tcp_connection tab ct)"
proof -
  obtain c t where n: "notify_disconnect tab ct = (c, t)" by fastforce
  obtain o' where o': "send_tcp_packet c 0x11 [] t = t\<lparr>out_packets := out_packets t @ o'\<rparr>"
    using send_tcp_packet_out by blast
  have "sent_from (c, t) (c\<lparr>c_state := CLOSED\<rparr>, t\<lparr>out_packets := out_packets t @ o'\<rparr>)"
    unfolding sent_from_def by (intro exI [of _ "c_seq c"] exI [of _ CLOSED] exI [of _ o']) simp
  then show ?thesis using sent_notify [of ct tab] n o'
    by (auto simp: close_tcp_connection_def intro: sent_from_trans)
qed

lemma sent_call: "sent_from ct (run_call tab a ct)"
  by (cases a) (simp_all add: run_call_def sent_send sent_close)

section \<open>The connection table\<close>

text \<open>What the table needs of a handler: the peer's address and port stay, and so does the table.\<close>

definition in_place :: "tcp_conn \<times> tcp_stack \<Rightarrow> tcp_conn \<times> tcp_stack \<Rightarrow> bool" where
  "in_place ct ct' \<longleftrightarrow> c_src_ip (fst ct') = c_src_ip (fst ct) \<and> c_src_port (fst ct') = c_src_port (fst ct)
     \<and> tcp_connections (snd ct') = tcp_connections (snd ct)"

lemma in_place_trans: "in_place a b \<Longrightarrow> in_place b c \<Longrightarrow> in_place a c"
  by (simp add: in_place_def)

lemma in_place_sent: "sent_from ct ct' \<Longrightarrow> in_place ct ct'"
  by (auto simp: sent_from_def in_place_def)

lemma in_place_feed: "in_place ct (feed_socket k (run_call tab) ct)"
proof -
  obtain c t where ct: "ct = (c, t)" by fastforce
  obtain n calls where d: "on_data k c (rx_buffer c) = (n, calls)" by fastforce
  obtain c' t' where f: "fold (run_call tab) calls (c, t) = (c', t')" by fastforce
  have "in_place (c, t) (c', t')" using in_place_sent [OF sent_fold, of "run_call tab" "(c, t)" calls] sent_call f by metis
  then show ?thesis by (simp add: ct feed_socket_def d f in_place_def)
qed

lemma in_place_packet: "in_place (c, t) (c, send_tcp_packet c f pl t)"
  using send_tcp_packet_out [of c f pl t] by (auto simp: in_place_def)

lemma in_place_ack: "in_place ct (handle_ack tab s ct)"
proof -
  obtain c t where ct: "ct = (c, t)" by fastforce
  have "in_place (c\<lparr>c_state := ESTABLISHED\<rparr>, t) (fold (run_call tab) calls (c\<lparr>c_state := ESTABLISHED\<rparr>, t))" for calls
    by (intro in_place_sent sent_fold sent_call)
  then show ?thesis by (auto simp: ct handle_ack_def Let_def in_place_def split: option.splits)
qed

lemma in_place_data: "in_place ct (snd (handle_segment_data tab p s ct))"
proof -
  obtain c t where ct: "ct = (c, t)" by fastforce
  have q: "in_place (c, t) (c\<lparr>rx_buffer := b, c_ack := a\<rparr>, t)"
    "in_place (c, t) (c\<lparr>rx_buffer := b, c_ack := a\<rparr>, t\<lparr>overread := True\<rparr>)" for a b by (simp_all add: in_place_def)
  note branches = in_place_trans [OF q(1) in_place_feed] in_place_trans [OF q(1) in_place_packet]
    in_place_trans [OF q(2) in_place_feed] in_place_trans [OF q(2) in_place_packet] in_place_packet
    in_place_sent [OF sent_from_refl]
  show ?thesis
  proof (cases "c_socket c")
    case None
    then show ?thesis by (simp add: ct handle_segment_data_def Let_def branches)
  next
    case (Some k)
    then show ?thesis by (simp add: ct handle_segment_data_def Let_def branches)
  qed
qed

lemma in_place_fin: "in_place ct (handle_fin tab s ct)"
proof -
  obtain c t where ct: "ct = (c, t)" by fastforce
  define ct1 where "ct1 = (case c_socket c of None \<Rightarrow> (c, t)
      | Some k \<Rightarrow> notify_disconnect tab (if rx_buffer c \<noteq> [] then feed_socket (tab k) (run_call tab) (c, t) else (c, t)))"
  obtain c1 t1 where c1: "ct1 = (c1, t1)" by fastforce
  have "in_place (c, t) (notify_disconnect tab ct')" if "in_place (c, t) ct'" for ct'
    using in_place_trans [OF that in_place_sent [OF sent_notify]] .
  then have 1: "in_place (c, t) ct1" using in_place_feed [of "(c, t)"]
    by (auto simp: ct1_def in_place_def split: option.splits)
  have "in_place ct1 (c2\<lparr>c_state := CLOSED\<rparr>, send_tcp_packet c2 0x11 [] t1)"
    if "c_src_ip c2 = c_src_ip c1" "c_src_port c2 = c_src_port c1" for c2
    using in_place_packet [of c2 t1 "0x11" "[]"] that by (simp add: in_place_def c1)
  then have "in_place ct1 (case ct1 of (c, t) \<Rightarrow>
      let c = c\<lparr>rx_buffer := [], c_ack := (if s_seq s \<ge> c_ack c then s_seq s + 1 else c_ack c)\<rparr>
      in (c\<lparr>c_state := CLOSED\<rparr>, send_tcp_packet c 0x11 [] t))"
    by (simp add: c1 Let_def)
  from in_place_trans [OF 1 this] show ?thesis
    by (simp add: ct handle_fin_def ct1_def in_place_def split: prod.splits)
qed

abbreviation open_conn :: "tcp_conn \<Rightarrow> bool" where
  "open_conn c \<equiv> c_state c \<noteq> CLOSED"

definition conn_key :: "tcp_conn \<Rightarrow> u32 \<times> u16" where
  "conn_key c = (c_src_ip c, c_src_port c)"

definition keys_distinct :: "tcp_conn list \<Rightarrow> bool" where
  "keys_distinct cs \<longleftrightarrow> distinct (map conn_key (filter open_conn cs))"

definition table_ok :: "tcp_stack \<Rightarrow> bool" where
  "table_ok t \<longleftrightarrow> length (tcp_connections t) \<le> MAX_TCP_CONNECTIONS \<and> keys_distinct (tcp_connections t)"

lemma find_conn_Some:
  assumes "find_tcp_connection ip port cs = Some i"
  shows "i < length cs" "conn_matches ip port (cs ! i)"
proof -
  have i: "i = length (takeWhile (\<lambda>c. \<not> conn_matches ip port c) cs)" "i < length cs"
    using assms by (auto simp: find_tcp_connection_def Let_def split: if_splits)
  then show "i < length cs" "conn_matches ip port (cs ! i)" using nth_length_takeWhile [of "\<lambda>c. \<not> conn_matches ip port c" cs] by auto
qed

lemma find_conn_None: "find_tcp_connection ip port cs = None \<Longrightarrow> list_all (\<lambda>c. \<not> conn_matches ip port c) cs"
  unfolding find_tcp_connection_def Let_def
  by (induction cs) (auto split: if_splits)

lemma keys_distinct_update:
  assumes "keys_distinct cs" "i < length cs" "open_conn (cs ! i)" "conn_key c = conn_key (cs ! i)"
  shows "keys_distinct (cs[i := c])"
proof -
  let ?a = "take i cs" and ?b = "drop (Suc i) cs"
  have 1: "cs = ?a @ cs ! i # ?b" using assms(2) by (rule id_take_nth_drop)
  have 2: "cs[i := c] = ?a @ c # ?b" using assms(2) by (simp add: upd_conv_take_nth_drop)
  have "distinct (map conn_key (filter open_conn ?a) @ conn_key (cs ! i) # map conn_key (filter open_conn ?b))"
    using assms(1,3) unfolding keys_distinct_def by (subst (asm) 1) simp
  then show ?thesis using assms(4) unfolding keys_distinct_def 2 by auto
qed

lemma handle_syn_table: "table_ok t \<Longrightarrow> table_ok (handle_syn rnd now sock s t)"
proof (cases "find_tcp_connection (s_src_ip s) (s_src_port s) (tcp_connections t)")
  case None
  have "(s_src_ip s, s_src_port s) \<notin> conn_key ` set (filter open_conn (tcp_connections t))"
    using find_conn_None [OF None] by (auto simp: list_all_iff conn_matches_def conn_key_def)
  moreover assume "table_ok t"
  ultimately show ?thesis using None
    by (auto simp: handle_syn_def table_ok_def keys_distinct_def Let_def conn_key_def)
next
  case (Some i)
  let ?c = "tcp_connections t ! i"
  assume ok: "table_ok t"
  have "keys_distinct ((tcp_connections t)[i := c])" if "conn_key c = conn_key ?c" for c
    using keys_distinct_update that find_conn_Some [OF Some] ok by (auto simp: conn_matches_def table_ok_def)
  then show ?thesis using Some ok by (simp add: handle_syn_def table_ok_def Let_def conn_key_def)
qed

lemma table_set_conn:
  assumes "table_ok t" "i < length (tcp_connections t)" "open_conn (tcp_connections t ! i)"
    and "in_place ((tcp_connections t ! i)\<lparr>c_last_activity := now\<rparr>, t) ct"
  shows "table_ok (set_conn i ct)"
proof -
  obtain c t' where ct: "ct = (c, t')" by fastforce
  have "keys_distinct ((tcp_connections t)[i := c])"
    using keys_distinct_update assms by (auto simp: ct in_place_def table_ok_def conn_key_def)
  then show ?thesis using assms(1,4) by (simp add: ct in_place_def table_ok_def set_conn_def)
qed

lemma table_drop_closed: "table_ok t \<Longrightarrow> table_ok (drop_closed t)"
  by (auto simp: table_ok_def drop_closed_def keys_distinct_def intro: order.trans [OF length_filter_le])

lemma handle_tcp_table: "table_ok t \<Longrightarrow> table_ok (handle_tcp_packet tab rnd now p t)"
proof -
  assume ok: "table_ok t"
  have "table_ok (case handle_segment_data tab p s (handle_ack tab s ((tcp_connections t ! i)\<lparr>c_last_activity := now\<rparr>, t)) of
      (False, ct) \<Rightarrow> set_conn i ct | (True, ct) \<Rightarrow> drop_closed (set_conn i (handle_fin tab s ct)))"
    if "find_tcp_connection ip port (tcp_connections t) = Some i" for s i ip port
  proof -
    let ?c0 = "((tcp_connections t ! i)\<lparr>c_last_activity := now\<rparr>, t)"
    obtain b ct where d: "handle_segment_data tab p s (handle_ack tab s ?c0) = (b, ct)" by (rule prod.exhaust)
    have "in_place ?c0 ct" using in_place_trans [OF in_place_ack in_place_data] d by (metis snd_conv)
    moreover have "in_place ?c0 (handle_fin tab s ct)" by (rule in_place_trans [OF calculation in_place_fin])
    ultimately show ?thesis using table_set_conn [OF ok] find_conn_Some [OF that] d
      by (auto simp: conn_matches_def table_drop_closed split: bool.splits)
  qed
  then show ?thesis using ok handle_syn_table
    by (auto simp: handle_tcp_packet_def Let_def split: option.splits)
qed

definition tcp_step :: "(nat \<Rightarrow> socket) \<Rightarrow> u32 \<times> u32 \<times> bytes \<Rightarrow> tcp_stack \<Rightarrow> tcp_stack" where
  "tcp_step tab = (\<lambda>(rnd, now, p). handle_tcp_packet tab rnd now p)"

interpretation tcm: machine "tcp_step tab" table_ok for tab
  by unfold_locales (auto simp: tcp_step_def handle_tcp_table)

text \<open>
  C37. Over any sequence of packets, with any sockets, there are at most four connections, and no
  two open ones share the peer's address and port.
\<close>

theorem connection_table_ok:
  assumes "table_ok t"
  shows "table_ok (fold (tcp_step tab) pkts t)"
  by (rule tcm.run_inv [OF assms])

definition stack_with :: "tcp_conn list \<Rightarrow> tcp_stack" where
  "stack_with cs = \<lparr>ipv4_address = ''100.64.0.1/32'', uninit = [0, 0, 0, 0], tcp_connections = cs, bound_sockets = [(7777, 0)],
     ip_to_peer = [(dotted_ip 0x64400002, 0)], peer_ips = [''100.64.0.2''], out_packets = [], overread = False\<rparr>"

definition conn_in :: "tcp_state \<Rightarrow> u16 \<Rightarrow> tcp_conn" where
  "conn_in st port = \<lparr>c_src_ip = 0x64400002, c_src_port = port, c_dst_port = 7777, c_seq = 100, c_ack = 200, c_state = st,
     rx_buffer = [], c_last_activity = 0, c_socket = Some 0\<rparr>"

theorem connection_table_ok_witness:
  "table_ok (fold (tcp_step (\<lambda>_. echo_socket)) [(1, 2, tcp_packet [100, 64, 0, 2] (conn_in ESTABLISHED 5) 0x02 [])] (stack_with []))"
  by (rule connection_table_ok) (simp add: table_ok_def stack_with_def keys_distinct_def)

text \<open>
  Slots closed by the server are never freed: with four of them the endpoint does nothing
  for any packet, for ever, since only a packet for an open connection reaches the cleanup.
\<close>

lemma closed_slots_never_freed:
  assumes "length (tcp_connections t) = 4" "list_all (\<lambda>c. c_state c = CLOSED) (tcp_connections t)"
  shows "fold (tcp_step tab) pkts t = t"
proof (induction pkts)
  case (Cons x pkts)
  have "find_tcp_connection ip port (tcp_connections t) = None" for ip port
  proof -
    have "takeWhile (\<lambda>c. \<not> conn_matches ip port c) (tcp_connections t) = tcp_connections t"
      using assms(2) by (auto simp: list_all_iff conn_matches_def takeWhile_eq_all_conv)
    then show ?thesis by (simp only: find_tcp_connection_def Let_def) simp
  qed
  then have "tcp_step tab x t = t" using assms(1)
    by (auto simp: tcp_step_def handle_tcp_packet_def handle_syn_def MAX_TCP_CONNECTIONS_def Let_def split: option.splits prod.splits)
  then show ?case using Cons by simp
qed simp

lemma closed_slots_never_freed_witness:
  "fold (tcp_step (\<lambda>_. echo_socket)) [(1, 2, tcp_packet [100, 64, 0, 2] (conn_in ESTABLISHED 5) 0x02 [])]
     (stack_with (map (conn_in CLOSED) [1, 2, 3, 4])) = stack_with (map (conn_in CLOSED) [1, 2, 3, 4])"
  by (rule closed_slots_never_freed) (simp_all add: stack_with_def conn_in_def)

section \<open>Data on an open connection\<close>

lemma handle_tcp_established:
  assumes "parse_segment p = Some s" "find_socket (s_dst_port s) t \<noteq> None" "s_flags s AND 0x02 = 0"
    and "find_tcp_connection (s_src_ip s) (s_src_port s) (tcp_connections t) = Some i"
    and "c_state (tcp_connections t ! i) = ESTABLISHED"
  shows "handle_tcp_packet tab rnd now p t =
    (case handle_segment_data tab p s ((tcp_connections t ! i)\<lparr>c_last_activity := now\<rparr>, t) of
       (False, ct) \<Rightarrow> set_conn i ct | (True, ct) \<Rightarrow> drop_closed (set_conn i (handle_fin tab s ct)))"
proof -
  have "handle_ack tab s ((tcp_connections t ! i)\<lparr>c_last_activity := now\<rparr>, t) = ((tcp_connections t ! i)\<lparr>c_last_activity := now\<rparr>, t)"
    using assms(5) by (simp add: handle_ack_def)
  then show ?thesis using assms by (auto simp: handle_tcp_packet_def Let_def)
qed

lemma overread_sent: "sent_from ct ct' \<Longrightarrow> overread (snd ct') = overread (snd ct)"
  by (auto simp: sent_from_def)

lemma overread_feed: "overread (snd (feed_socket k (run_call tab) ct)) = overread (snd ct)"
proof -
  obtain c t where ct: "ct = (c, t)" by fastforce
  obtain n calls where d: "on_data k c (rx_buffer c) = (n, calls)" by fastforce
  obtain c' t' where f: "fold (run_call tab) calls (c, t) = (c', t')" by fastforce
  have "sent_from (c, t) (fold (run_call tab) calls (c, t))" by (intro sent_fold sent_call)
  then have "overread t' = overread t" using overread_sent [of "(c, t)" "(c', t')"] f by simp
  then show ?thesis by (simp add: ct feed_socket_def d f)
qed

lemma overread_packet: "overread (send_tcp_packet c f pl t) = overread t"
  using send_tcp_packet_out [of c f pl t] by auto

lemma overread_fin: "overread (snd (handle_fin tab s ct)) = overread (snd ct)"
proof -
  have n: "overread (snd (notify_disconnect tab x)) = overread (snd x)" for x by (rule overread_sent [OF sent_notify])
  obtain c t where ct: "ct = (c, t)" by fastforce
  define ct1 where "ct1 = (case c_socket c of None \<Rightarrow> (c, t)
      | Some k \<Rightarrow> notify_disconnect tab (if rx_buffer c \<noteq> [] then feed_socket (tab k) (run_call tab) (c, t) else (c, t)))"
  have "overread (snd ct1) = overread t" by (auto simp: ct1_def n overread_feed split: option.splits)
  then show ?thesis
    by (auto simp: ct handle_fin_def ct1_def [symmetric] Let_def overread_packet split: prod.splits)
qed

text \<open>
  The length of the payload comes from the packet's length field and is compared with nothing:
  on an open connection an in-order segment whose field exceeds the packet makes the endpoint
  read behind it.
\<close>

lemma length_field_overreads:
  assumes "parse_segment p = Some s" "find_socket (s_dst_port s) t \<noteq> None" "s_flags s AND 0x02 = 0"
    and "find_tcp_connection (s_src_ip s) (s_src_port s) (tcp_connections t) = Some i"
    and "c_state (tcp_connections t ! i) = ESTABLISHED" "s_seq s = c_ack (tcp_connections t ! i)"
    and "length p < unat (s_total_len s)" "s_ihl s + s_data_offset s < unat (s_total_len s)"
  shows "overread (handle_tcp_packet tab rnd now p t)"
proof -
  let ?n = "unat (s_total_len s) - (s_ihl s + s_data_offset s)"
  have pl: "payload_len s = word_of_nat ?n"
  proof -
    have "int (unat (s_total_len s)) - int (s_ihl s) - int (s_data_offset s) = int ?n" using assms(8) by simp
    then show ?thesis unfolding payload_len_def by (simp only: of_int_of_nat_eq)
  qed
  have "?n < 2 ^ 32" using unat_u16_le [of "s_total_len s"] by simp
  then have u: "unat (payload_len s) = ?n" unfolding pl by (simp add: unat_of_nat take_bit_nat_eq_self)
  then have pos: "0 < payload_len s" using assms(8) by (simp add: word_less_nat_alt)
  have rb: "reads_behind s p" using assms(7,8) u by (simp add: reads_behind_def)
  let ?c = "(tcp_connections t ! i)\<lparr>c_last_activity := now\<rparr>"
  obtain b ct where d: "handle_segment_data tab p s (?c, t) = (b, ct)" by (rule prod.exhaust)
  have "b \<and> overread (snd ct)" using d pos assms(5,6) rb
    by (cases "c_socket (tcp_connections t ! i)") (auto simp: handle_segment_data_def Let_def overread_feed overread_packet split: if_splits)
  then have "overread (drop_closed (set_conn i (handle_fin tab s ct)))" "b"
    using overread_fin [of tab s ct] by (auto simp: drop_closed_def set_conn_def split: prod.splits)
  then show ?thesis unfolding handle_tcp_established [OF assms(1-5)] d by simp
qed

text \<open>The echo socket on a buffer.\<close>

lemma feed_echo:
  "feed_socket echo_socket (run_call tab) (c, t) =
    (case line_length (rx_buffer c) of None \<Rightarrow> (c, t)
     | Some n \<Rightarrow> (c\<lparr>c_seq := c_seq c + word_of_nat n, rx_buffer := drop n (rx_buffer c)\<rparr>,
                  send_tcp_packet c 0x18 (take n (rx_buffer c)) t))"
proof (cases "line_length (rx_buffer c)")
  case None
  then show ?thesis by (simp add: feed_socket_def echo_socket_def)
next
  case (Some n)
  then have n: "0 < n" "n \<le> length (rx_buffer c)" "take n (rx_buffer c) \<noteq> []"
    using length_takeWhile_le [of "\<lambda>b. b \<noteq> 0x0A" "rx_buffer c"] by (auto simp: line_length_def Let_def split: if_splits)
  then show ?thesis using Some
    by (simp add: feed_socket_def echo_socket_def run_call_def send_tcp_data_def min_absorb2)
qed

lemma line_length_line: "list_all (\<lambda>b. b \<noteq> 0x0A) x \<Longrightarrow> line_length (x @ 0x0A # r) = Some (Suc (length x))"
  by (simp add: line_length_def Let_def takeWhile_append2 list_all_iff)

definition forged :: bytes where
  "forged = [0x45, 0, 0x0F, 0xA0, 0, 0, 0, 0, 64, 6, 0, 0, 100, 64, 0, 2, 100, 64, 0, 1,
     0, 5, 0x1E, 0x61, 0, 0, 0, 200, 0, 0, 0, 100, 0x50, 0x18, 0x20, 0, 0, 0, 0, 0, 65]"

lemma parse_forged: "parse_segment forged = Some \<lparr>s_ihl = 20, s_src_ip = 0x64400002, s_src_port = 5, s_dst_port = 7777,
    s_seq = 200, s_ack = 100, s_data_offset = 20, s_flags = 0x18, s_total_len = 4000\<rparr>"
  by code_simp

lemma find_conn_in: "st \<noteq> CLOSED \<Longrightarrow> find_tcp_connection 0x64400002 port [conn_in st port] = Some 0"
  by (simp add: find_tcp_connection_def conn_matches_def conn_in_def Let_def)

lemma stack_with_sel [simp]:
  "tcp_connections (stack_with cs) = cs" "find_socket 7777 (stack_with cs) = Some 0" "\<not> overread (stack_with cs)"
  "out_packets (stack_with cs) = []" "om_get (dotted_ip 0x64400002) (ip_to_peer (stack_with cs)) = Some 0"
  "peer_ips (stack_with cs) = [''100.64.0.2'']"
  by (simp_all add: stack_with_def find_socket_def om_get_def)

lemma conn_in_sel [simp]:
  "c_src_ip (conn_in st port) = 0x64400002" "c_state (conn_in st port) = st" "c_ack (conn_in st port) = 200"
  "c_seq (conn_in st port) = 100" "rx_buffer (conn_in st port) = []" "c_socket (conn_in st port) = Some 0"
  by (simp_all add: conn_in_def)

lemma length_field_overreads_witness:
  "overread (handle_tcp_packet (\<lambda>_. echo_socket) 1 2 forged (stack_with [conn_in ESTABLISHED 5]))"
  by (rule length_field_overreads [OF parse_forged, where i = 0])
     (simp_all add: find_conn_in, simp_all add: forged_def)

section \<open>The echo service\<close>

lemma own_ip_out [simp]: "own_ip (t\<lparr>out_packets := x\<rparr>) = own_ip t"
  by (simp add: own_ip_def split: option.splits)

text \<open>An in-order segment with a whole line on an open connection of the echo socket.\<close>

definition line_arrives :: "(nat \<Rightarrow> socket) \<Rightarrow> bytes \<Rightarrow> segment \<Rightarrow> bytes \<Rightarrow> nat \<Rightarrow> nat \<Rightarrow> tcp_stack \<Rightarrow> bool" where
  "line_arrives tab p s line i peer t \<longleftrightarrow> parse_segment p = Some s \<and> find_socket (s_dst_port s) t \<noteq> None
     \<and> s_flags s AND 0x02 = 0 \<and> find_tcp_connection (s_src_ip s) (s_src_port s) (tcp_connections t) = Some i
     \<and> c_state (tcp_connections t ! i) = ESTABLISHED \<and> s_seq s = c_ack (tcp_connections t ! i)
     \<and> rx_buffer (tcp_connections t ! i) = [] \<and> (case c_socket (tcp_connections t ! i) of None \<Rightarrow> False | Some k \<Rightarrow> tab k = echo_socket)
     \<and> payload s p = line @ [0x0A] \<and> 0 < payload_len s \<and> \<not> reads_behind s p \<and> list_all (\<lambda>b. b \<noteq> 0x0A) line \<and> length line < 1460
     \<and> om_get (dotted_ip (c_src_ip (tcp_connections t ! i))) (ip_to_peer t) = Some peer \<and> peer < length (peer_ips t)"

lemma line_data:
  fixes now :: u32
  assumes "line_arrives tab p s line i peer t"
  defines "c \<equiv> (tcp_connections t ! i)\<lparr>c_last_activity := now, rx_buffer := line @ [0x0A], c_ack := s_seq s + payload_len s\<rparr>"
  shows "handle_segment_data tab p s ((tcp_connections t ! i)\<lparr>c_last_activity := now\<rparr>, t) =
    (True, c\<lparr>c_seq := c_seq c + word_of_nat (Suc (length line)), rx_buffer := []\<rparr>,
     t\<lparr>out_packets := out_packets t @ [(peer_ips t ! peer, tcp_packet (own_ip t) c 0x18 (line @ [0x0A]))]\<rparr>)"
proof -
  obtain k where k: "c_socket (tcp_connections t ! i) = Some k" "tab k = echo_socket"
    using assms(1) by (auto simp: line_arrives_def split: option.splits)
  have l: "line_length (line @ [0x0A]) = Some (Suc (length line))"
    using assms(1) line_length_line [of line "[]"] by (simp add: line_arrives_def)
  show ?thesis using assms(1) k l
    by (simp add: line_arrives_def handle_segment_data_def Let_def c_def feed_echo send_tcp_packet_def)
qed

text \<open>
  A line sent to the echo socket comes back: the answer is one segment with exactly the
  line, acknowledging all of it, to the peer the connection's address belongs to.
\<close>

lemma line_is_echoed:
  assumes "line_arrives tab p s line i peer t" "s_flags s AND 0x01 = 0"
  shows "\<exists>c. out_packets (handle_tcp_packet tab rnd now p t) = out_packets t @ [(peer_ips t ! peer, tcp_packet (own_ip t) c 0x18 (line @ [0x0A]))]
    \<and> c_ack c = s_seq s + payload_len s \<and> c_seq c = c_seq (tcp_connections t ! i) \<and> conn_key c = conn_key (tcp_connections t ! i)"
proof -
  let ?c = "(tcp_connections t ! i)\<lparr>c_last_activity := now, rx_buffer := line @ [0x0A], c_ack := s_seq s + payload_len s\<rparr>"
  have h: "parse_segment p = Some s" "find_socket (s_dst_port s) t \<noteq> None" "s_flags s AND 0x02 = 0"
    "find_tcp_connection (s_src_ip s) (s_src_port s) (tcp_connections t) = Some i" "c_state (tcp_connections t ! i) = ESTABLISHED"
    using assms(1) by (auto simp: line_arrives_def)
  show ?thesis
    unfolding handle_tcp_established [OF h] line_data [OF assms(1)]
    by (intro exI [of _ ?c]) (simp add: handle_fin_def assms(2) set_conn_def drop_closed_def conn_key_def)
qed

text \<open>
  When the line comes with a FIN, the FIN is not acknowledged: the answer to it acknowledges
  the data only, one byte less than was sent, and the connection is gone.
\<close>

lemma fin_with_data_not_acked:
  assumes "line_arrives tab p s line i peer t" "s_flags s AND 0x01 \<noteq> 0" "s_seq s < s_seq s + payload_len s"
  shows "\<exists>c c'. out_packets (handle_tcp_packet tab rnd now p t) = out_packets t
      @ [(peer_ips t ! peer, tcp_packet (own_ip t) c 0x18 (line @ [0x0A])), (peer_ips t ! peer, tcp_packet (own_ip t) c' 0x11 [])]
    \<and> c_ack c' = s_seq s + payload_len s
    \<and> list_all open_conn (tcp_connections (handle_tcp_packet tab rnd now p t))
    \<and> length (tcp_connections (handle_tcp_packet tab rnd now p t)) < length (tcp_connections t)"
proof -
  let ?c = "(tcp_connections t ! i)\<lparr>c_last_activity := now, rx_buffer := line @ [0x0A], c_ack := s_seq s + payload_len s\<rparr>"
  let ?c' = "?c\<lparr>c_seq := c_seq ?c + word_of_nat (Suc (length line)), rx_buffer := []\<rparr>"
  let ?d = "?c'\<lparr>rx_buffer := [], c_ack := s_seq s + payload_len s\<rparr>"
  have h: "parse_segment p = Some s" "find_socket (s_dst_port s) t \<noteq> None" "s_flags s AND 0x02 = 0"
    "find_tcp_connection (s_src_ip s) (s_src_port s) (tcp_connections t) = Some i" "c_state (tcp_connections t ! i) = ESTABLISHED"
    using assms(1) by (auto simp: line_arrives_def)
  have i: "i < length (tcp_connections t)" using find_conn_Some(1) [OF h(4)] .
  obtain k where k: "c_socket (tcp_connections t ! i) = Some k" "tab k = echo_socket"
    using assms(1) by (auto simp: line_arrives_def split: option.splits)
  have r: "om_get (dotted_ip (c_src_ip (tcp_connections t ! i))) (ip_to_peer t) = Some peer" "peer < length (peer_ips t)"
    using assms(1) by (auto simp: line_arrives_def)
  let ?t = "t\<lparr>out_packets := out_packets t @ [(peer_ips t ! peer, tcp_packet (own_ip t) ?c 0x18 (line @ [0x0A])),
      (peer_ips t ! peer, tcp_packet (own_ip t) ?d 0x11 [])]\<rparr>"
  have f: "handle_fin tab s (?c', t\<lparr>out_packets := out_packets t @ [(peer_ips t ! peer, tcp_packet (own_ip t) ?c 0x18 (line @ [0x0A]))]\<rparr>)
      = (?d\<lparr>c_state := CLOSED\<rparr>, ?t)"
    using k r assms(2,3) by (simp add: handle_fin_def Let_def notify_disconnect_def echo_socket_def send_tcp_packet_def)
  have p: "handle_tcp_packet tab rnd now p t = drop_closed (set_conn i (?d\<lparr>c_state := CLOSED\<rparr>, ?t))"
    unfolding handle_tcp_established [OF h] line_data [OF assms(1)] using f by simp
  have "length (filter open_conn ((tcp_connections t)[i := ?d\<lparr>c_state := CLOSED\<rparr>])) < length ((tcp_connections t)[i := ?d\<lparr>c_state := CLOSED\<rparr>])"
    using i by (intro length_filter_less [where x = "?d\<lparr>c_state := CLOSED\<rparr>"]) (auto intro: set_update_memI)
  then show ?thesis unfolding p
    by (intro exI [of _ ?c] exI [of _ ?d]) (simp add: set_conn_def drop_closed_def list_all_iff)
qed

text \<open>The line ``hi'' from port 5 of the peer, with given flags.\<close>

definition hi_packet :: "u8 \<Rightarrow> bytes" where
  "hi_packet f = [0x45, 0, 0, 43, 0, 0, 0, 0, 64, 6, 0, 0, 100, 64, 0, 2, 100, 64, 0, 1,
     0, 5, 0x1E, 0x61, 0, 0, 0, 200, 0, 0, 0, 100, 0x50, f, 0x20, 0, 0, 0, 0, 0, 104, 105, 10]"

definition hi_segment :: "u8 \<Rightarrow> segment" where
  "hi_segment f = \<lparr>s_ihl = 20, s_src_ip = 0x64400002, s_src_port = 5, s_dst_port = 7777,
    s_seq = 200, s_ack = 100, s_data_offset = 20, s_flags = f, s_total_len = 43\<rparr>"

lemma parse_hi: "parse_segment (hi_packet 0x18) = Some (hi_segment 0x18)" "parse_segment (hi_packet 0x19) = Some (hi_segment 0x19)"
  by code_simp+

lemma hi_arrives:
  assumes "parse_segment (hi_packet f) = Some (hi_segment f)" "f AND 0x02 = 0"
  shows "line_arrives (\<lambda>_. echo_socket) (hi_packet f) (hi_segment f) [104, 105] 0 0 (stack_with [conn_in ESTABLISHED 5])"
proof -
  have "payload_len (hi_segment f) = 3" by (simp add: payload_len_def hi_segment_def)
  then show ?thesis using assms find_conn_in [of ESTABLISHED 5]
    by (simp add: line_arrives_def hi_segment_def payload_def reads_behind_def hi_packet_def)
qed

lemma line_is_echoed_witness:
  "\<exists>c. out_packets (handle_tcp_packet (\<lambda>_. echo_socket) 1 2 (hi_packet 0x18) (stack_with [conn_in ESTABLISHED 5])) =
      out_packets (stack_with [conn_in ESTABLISHED 5]) @
      [(peer_ips (stack_with [conn_in ESTABLISHED 5]) ! 0, tcp_packet (own_ip (stack_with [conn_in ESTABLISHED 5])) c 0x18 ([104, 105] @ [0x0A]))]
    \<and> c_ack c = s_seq (hi_segment 0x18) + payload_len (hi_segment 0x18)
    \<and> c_seq c = c_seq (tcp_connections (stack_with [conn_in ESTABLISHED 5]) ! 0)
    \<and> conn_key c = conn_key (tcp_connections (stack_with [conn_in ESTABLISHED 5]) ! 0)"
  by (rule line_is_echoed [OF hi_arrives [OF parse_hi(1)]]) (simp_all add: hi_segment_def)

lemma fin_with_data_not_acked_witness:
  "length (tcp_connections (handle_tcp_packet (\<lambda>_. echo_socket) 1 2 (hi_packet 0x19) (stack_with [conn_in ESTABLISHED 5]))) < 1"
proof -
  have a: "line_arrives (\<lambda>_. echo_socket) (hi_packet 0x19) (hi_segment 0x19) [104, 105] 0 0 (stack_with [conn_in ESTABLISHED 5])"
    by (rule hi_arrives [OF parse_hi(2)]) simp
  have "payload_len (hi_segment 0x19) = 3" by (simp add: payload_len_def hi_segment_def)
  then show ?thesis using fin_with_data_not_acked [OF a, of 1 2] by (auto simp: hi_segment_def)
qed

theorem tcp_packet_roundtrip_witness:
  "\<exists>s. parse_segment (tcp_packet [100, 64, 0, 1] (conn_in ESTABLISHED 5) 0x18 [1, 2, 3]) = Some s \<and> s_flags s = 0x18
    \<and> payload s (tcp_packet [100, 64, 0, 1] (conn_in ESTABLISHED 5) 0x18 [1, 2, 3]) = [1, 2, 3]"
  using tcp_packet_roundtrip [of "[100, 64, 0, 1]" "[1, 2, 3]" "conn_in ESTABLISHED 5" "0x18"] by auto

section \<open>Two more faults of the endpoint\<close>

text \<open>A write above the segment size sends nothing and still moves the sequence number.\<close>

lemma oversized_write_lost:
  assumes "1460 < length bs"
  shows "send_tcp_data bs (c, t) = (c\<lparr>c_seq := c_seq c + word_of_nat (length bs)\<rparr>, t)"
  using assms by (auto simp: send_tcp_data_def send_tcp_packet_def)

text \<open>A repeated SYN is answered with another initial sequence number than the first.\<close>

lemma repeated_syn_moves_isn:
  assumes "find_tcp_connection (s_src_ip s) (s_src_port s) (tcp_connections t) = Some i"
  shows "c_seq (tcp_connections (handle_syn rnd now sock s t) ! i) = c_seq (tcp_connections t ! i) + 1"
  using assms find_conn_Some(1) [OF assms] by (simp add: handle_syn_def Let_def)

end
