(* ===== verification/Stun.thy ===== *)
theory Stun
  imports Net_Addr
begin

text \<open>
  STUN and NAT-PMP in \<^verbatim>\<open>tailscale.cpp\<close>: the answer to a peer's binding request, the
  parser of binding responses (the code has it twice, in \<^verbatim>\<open>handle_stun_packet_\<close> and in
  \<^verbatim>\<open>perform_stun_query_\<close>), the query with its fallback server, which stops the task that
  reads the socket while it runs, and the port mapping. A receive buffer is the function from its
  index to the byte there, of which the first \<open>len\<close> are the packet: the parser may look at
  bytes behind them, which are what an earlier packet left.
\<close>

definition STUN_MAGIC_COOKIE :: u32 where "STUN_MAGIC_COOKIE = 0x2112A442"
definition STUN_BINDING_REQUEST :: u16 where "STUN_BINDING_REQUEST = 0x0001"
definition STUN_BINDING_RESPONSE :: u16 where "STUN_BINDING_RESPONSE = 0x0101"
definition STUN_ATTR_MAPPED_ADDRESS :: u16 where "STUN_ATTR_MAPPED_ADDRESS = 0x0001"
definition STUN_ATTR_XOR_MAPPED_ADDRESS :: u16 where "STUN_ATTR_XOR_MAPPED_ADDRESS = 0x0020"

type_synonym rxbuf = "nat \<Rightarrow> u8"

definition be16_of :: "rxbuf \<Rightarrow> nat \<Rightarrow> u16" where
  "be16_of m i = get_be16 (m i) (m (i + 1))"

definition be32_of :: "rxbuf \<Rightarrow> nat \<Rightarrow> u32" where
  "be32_of m i = get_be32 (m i) (m (i + 1)) (m (i + 2)) (m (i + 3))"

definition endpoint_of :: "u32 \<Rightarrow> u16 \<Rightarrow> string" where
  "endpoint_of addr port = dotted_ip addr @ '':'' @ show_nat (unat port)"

section \<open>Binding responses\<close>

definition xor_port :: "u16 \<Rightarrow> u16" where
  "xor_port p = p XOR ucast (drop_bit 16 STUN_MAGIC_COOKIE)"

text \<open>The endpoint of the attribute at an offset, when it carries one.\<close>

definition attr_endpoint :: "rxbuf \<Rightarrow> nat \<Rightarrow> string option" where
  "attr_endpoint m off =
     (let ty = be16_of m off; al = be16_of m (off + 2) in
      if ty = STUN_ATTR_XOR_MAPPED_ADDRESS \<and> al \<ge> 8 then
        if m (off + 5) = 0x01
        then Some (endpoint_of (be32_of m (off + 8) XOR STUN_MAGIC_COOKIE) (xor_port (be16_of m (off + 6)))) else None
      else if ty = STUN_ATTR_MAPPED_ADDRESS \<and> al \<ge> 8 then
        if m (off + 5) = 0x01 then Some (endpoint_of (be32_of m (off + 8)) (be16_of m (off + 6))) else None
      else None)"

definition next_attr :: "rxbuf \<Rightarrow> nat \<Rightarrow> nat" where
  "next_attr m off = off + 4 + (unat (be16_of m (off + 2)) + 3) div 4 * 4"

function stun_attrs :: "rxbuf \<Rightarrow> nat \<Rightarrow> nat \<Rightarrow> string option" where
  "stun_attrs m len off =
     (if off + 4 \<le> len then
        (case attr_endpoint m off of Some e \<Rightarrow> Some e | None \<Rightarrow> stun_attrs m len (next_attr m off))
      else None)"
  by pat_completeness auto
termination
  by (relation "measure (\<lambda>(_, len, off). len - off)") (auto simp: next_attr_def)

declare stun_attrs.simps [simp del]

section \<open>Packets from peers\<close>

text \<open>
  The answer to a request from an address, given by its four bytes in order. The target is
  little-endian: \<^verbatim>\<open>s_addr\<close> is the bytes read from the low end.
\<close>

definition s_addr :: "bytes \<Rightarrow> u32" where
  "s_addr a = get_le32 (a ! 0) (a ! 1) (a ! 2) (a ! 3)"

definition htonl :: "u32 \<Rightarrow> u32" where
  "htonl v = s_addr (put_be32 v)"

definition stun_response :: "rxbuf \<Rightarrow> bytes \<Rightarrow> u16 \<Rightarrow> bytes" where
  "stun_response m src port =
     (let cookie = be32_of m 4 in
      put_be16 STUN_BINDING_RESPONSE @ [0x00, 0x0C] @ map m [4..<8] @ map m [8..<20]
        @ put_be16 STUN_ATTR_XOR_MAPPED_ADDRESS @ [0x00, 0x08, 0x00, 0x01]
        @ put_be16 (port XOR ucast (drop_bit 16 cookie)) @ put_be32 (s_addr src XOR htonl cookie))"

text \<open>The packet handler: the new endpoint, and what is sent back to the source.\<close>

definition handle_stun_packet :: "bool \<Rightarrow> rxbuf \<Rightarrow> nat \<Rightarrow> bytes \<Rightarrow> u16 \<Rightarrow> string \<Rightarrow> string \<times> bytes list" where
  "handle_stun_packet socket_open m len src port known =
     (if len < 20 then (known, [])
      else if be16_of m 0 = STUN_BINDING_REQUEST then
        (known, if socket_open then [stun_response m src port] else [])
      else if be16_of m 0 \<noteq> STUN_BINDING_RESPONSE then (known, [])
      else (case stun_attrs m len 20 of Some e \<Rightarrow> (e, []) | None \<Rightarrow> (known, [])))"

section \<open>The query\<close>

definition stun_request :: "bytes \<Rightarrow> bytes" where
  "stun_request txid = [0x00, 0x01, 0x00, 0x00] @ put_be32 STUN_MAGIC_COOKIE @ txid"

text \<open>
  One exchange with a server: whether its name resolves, whether the send is taken, whether
  \<^verbatim>\<open>select\<close> reports data within two seconds, and what is then received, with the
  number of bytes (negative for an error).
\<close>

record exchange =
  resolves :: bool
  send_ok :: bool
  readable :: bool
  received :: int
  response :: rxbuf
  txid :: bytes

record stun_query =
  unified_socket_open :: bool
  io_running :: bool
  derp_host :: string
  stun_port :: u16
  discovered_endpoint :: string
  stun_sent :: "(string \<times> u16 \<times> bytes) list"

definition google :: string where "google = ''stun.l.google.com''"

definition stun_server :: "stun_query \<Rightarrow> string \<times> u16" where
  "stun_server q = (if derp_host q \<noteq> [] then (derp_host q, if stun_port q = 0 then 3478 else stun_port q) else (google, 19302))"

definition query_send :: "string \<times> u16 \<Rightarrow> exchange \<Rightarrow> stun_query \<Rightarrow> stun_query" where
  "query_send srv x q = q\<lparr>stun_sent := stun_sent q @ [(fst srv, snd srv, stun_request (txid x))]\<rparr>"

text \<open>The task is started again only if it was running.\<close>

definition restart_io :: "bool \<Rightarrow> stun_query \<Rightarrow> stun_query" where
  "restart_io was q = (if was then q\<lparr>io_running := True\<rparr> else q)"

definition query_parse :: "bool \<Rightarrow> exchange \<Rightarrow> stun_query \<Rightarrow> bool \<times> stun_query" where
  "query_parse was x q =
     (case stun_attrs (response x) (nat (received x)) 20 of
        None \<Rightarrow> (False, restart_io was q)
      | Some e \<Rightarrow> (True, restart_io was (q\<lparr>discovered_endpoint := e\<rparr>)))"

text \<open>
  A response of the wrong type: a second server is tried if the first was the relay's. Of its
  failures, the wrong type of the second response returns without starting the task.
\<close>

definition query_wrong_type :: "bool \<Rightarrow> string \<Rightarrow> exchange \<Rightarrow> stun_query \<Rightarrow> bool \<times> stun_query" where
  "query_wrong_type was host x q =
     (if derp_host q \<noteq> [] \<and> host = derp_host q then
        if \<not> resolves x then (False, restart_io was q)
        else let q = query_send (google, 19302) x q in
          if \<not> send_ok x then (False, restart_io was q)
          else if \<not> readable x then (False, restart_io was q)
          else if received x < 20 then (False, restart_io was q)
          else if be16_of (response x) 0 \<noteq> STUN_BINDING_RESPONSE then (False, q)
          else query_parse was x q
      else (False, q))"

definition query_response :: "bool \<Rightarrow> string \<Rightarrow> exchange \<Rightarrow> exchange \<Rightarrow> stun_query \<Rightarrow> bool \<times> stun_query" where
  "query_response was host x y q =
     (if received x < 20 then (False, restart_io was q)
      else if be16_of (response x) 0 \<noteq> STUN_BINDING_RESPONSE then query_wrong_type was host y q
      else query_parse was x q)"

text \<open>
  The whole query: \<open>x1\<close> with the first server, \<open>x2\<close> with the second after a timeout, \<open>x3\<close>
  with the second after a response of the wrong type.
\<close>

definition perform_stun_query :: "exchange \<Rightarrow> exchange \<Rightarrow> exchange \<Rightarrow> stun_query \<Rightarrow> bool \<times> stun_query" where
  "perform_stun_query x1 x2 x3 q =
     (if \<not> unified_socket_open q then (False, q)
      else let was = io_running q; q = q\<lparr>io_running := False\<rparr>; srv = stun_server q in
        if \<not> resolves x1 then (False, q)
        else let q = query_send srv x1 q in
          if \<not> send_ok x1 then (False, q)
          else if readable x1 then query_response was (fst srv) x1 x3 q
          else if derp_host q \<noteq> [] \<and> fst srv = derp_host q then
            if \<not> resolves x2 then (False, restart_io was q)
            else let q = query_send (google, 19302) x2 q in
              if \<not> send_ok x2 then (False, restart_io was q)
              else if \<not> readable x2 then (False, restart_io was q)
              else query_response was google x2 x3 q
          else (False, restart_io was q))"

section \<open>NAT-PMP\<close>

definition natpmp_request :: "u16 \<Rightarrow> bytes" where
  "natpmp_request port = [0, 1, 0, 0] @ put_be16 port @ put_be16 port @ [0, 0, 0x1C, 0x20]"

record natpmp =
  nm_discovered :: string
  nm_external_port :: u16
  nm_endpoint :: string

text \<open>A response in a buffer of 16 bytes; negative when nothing was there.\<close>

definition check_natpmp_response :: "int \<Rightarrow> bytes \<Rightarrow> natpmp \<Rightarrow> bool \<times> natpmp" where
  "check_natpmp_response n r p =
     (if n \<noteq> 16 then (False, p)
      else if r ! 0 \<noteq> 0 \<or> r ! 1 \<noteq> 129 then (False, p)
      else if get_be16 (r ! 2) (r ! 3) \<noteq> 0 then (False, p)
      else let port = get_be16 (r ! 10) (r ! 11); p = p\<lparr>nm_external_port := port\<rparr> in
        if CHR '':'' \<in> set (nm_discovered p)
        then (True, p\<lparr>nm_endpoint := takeWhile (\<lambda>c. c \<noteq> CHR '':'') (nm_discovered p) @ '':'' @ show_nat (unat port)\<rparr>)
        else (True, p))"

section \<open>The endpoints to advertise\<close>

text \<open>The interface's address, when there is one, and the best external endpoint, if it differs.\<close>

definition local_endpoints :: "bytes option \<Rightarrow> u16 \<Rightarrow> string \<Rightarrow> string \<Rightarrow> string \<Rightarrow> string list" where
  "local_endpoints ip port natpmp ttl stun =
     (case ip of None \<Rightarrow> [] | Some a \<Rightarrow>
        if a = [0, 0, 0, 0] then []
        else let loc = ntop a @ '':'' @ show_nat (unat port);
                 ext = (if natpmp \<noteq> [] then natpmp else if ttl \<noteq> [] then ttl else stun)
             in loc # (if ext \<noteq> [] \<and> ext \<noteq> loc then [ext] else []))"

end
