(* ===== verification/Stun_Check.thy ===== *)
theory Stun_Check
  imports Stun
begin

text \<open>
  Correctness of \<open>Stun\<close>: the endpoint of a well-formed response is found behind any other
  attributes; the program's own answers carry the address in the wrong byte order; and a query
  that fails at the first server's name stops the receiving task for good.
\<close>

section \<open>Responses\<close>

definition held :: "rxbuf \<Rightarrow> nat \<Rightarrow> bytes \<Rightarrow> bool" where
  "held m off bs \<longleftrightarrow> (\<forall>i < length bs. m (off + i) = bs ! i)"

lemma held_append: "held m off (a @ b) \<longleftrightarrow> held m off a \<and> held m (off + length a) b"
proof
  assume h: "held m off (a @ b)"
  have "m (off + i) = a ! i" if "i < length a" for i
    using h that by (auto simp: held_def nth_append dest: spec [of _ i])
  moreover have "m (off + length a + i) = b ! i" if "i < length b" for i
    using h that by (auto simp: held_def nth_append add.assoc dest: spec [of _ "length a + i"])
  ultimately show "held m off a \<and> held m (off + length a) b" by (simp add: held_def)
next
  assume h: "held m off a \<and> held m (off + length a) b"
  have "m (off + i) = (a @ b) ! i" if "i < length (a @ b)" for i
  proof (cases "i < length a")
    case False
    define j where "j = i - length a"
    have "i = length a + j" "j < length b" using False that by (auto simp: j_def)
    then show ?thesis using h by (simp add: held_def nth_append add.assoc)
  qed (use h in \<open>simp add: held_def nth_append\<close>)
  then show "held m off (a @ b)" by (simp add: held_def)
qed

lemma held_Cons: "held m off (x # b) \<longleftrightarrow> m off = x \<and> held m (Suc off) b"
  using held_append [of m off "[x]" b] by (simp add: held_def)

lemma heldD: "held m off bs \<Longrightarrow> i < length bs \<Longrightarrow> m (off + i) = bs ! i"
  by (simp add: held_def)

lemma held_Nil [simp]: "held m off []"
  by (simp add: held_def)

text \<open>An attribute on the wire, padded to four bytes, and the one that carries the address.\<close>

definition attr_bytes :: "u16 \<times> bytes \<Rightarrow> bytes" where
  "attr_bytes a = put_be16 (fst a) @ put_be16 (word_of_nat (length (snd a))) @ snd a
     @ replicate ((length (snd a) + 3) div 4 * 4 - length (snd a)) 0"

definition xor_mapped :: "u32 \<Rightarrow> u16 \<Rightarrow> bytes" where
  "xor_mapped addr port = attr_bytes (STUN_ATTR_XOR_MAPPED_ADDRESS,
     [0, 1] @ put_be16 (xor_port port) @ put_be32 (addr XOR STUN_MAGIC_COOKIE))"

definition other_attr :: "u16 \<times> bytes \<Rightarrow> bool" where
  "other_attr a \<longleftrightarrow> fst a \<noteq> STUN_ATTR_XOR_MAPPED_ADDRESS \<and> fst a \<noteq> STUN_ATTR_MAPPED_ADDRESS \<and> length (snd a) < 65536"

lemma be16_held: "held m off (put_be16 v @ r) \<Longrightarrow> be16_of m off = v"
  using heldD [of m off "put_be16 v @ r" 0] heldD [of m off "put_be16 v @ r" 1]
  by (simp add: put_be16_def be16_of_def codec_simps)

lemma be32_held: "held m off (put_be32 v @ r) \<Longrightarrow> be32_of m off = v"
  using heldD [of m off "put_be32 v @ r" 0] heldD [of m off "put_be32 v @ r" 1]
    heldD [of m off "put_be32 v @ r" 2] heldD [of m off "put_be32 v @ r" 3]
  by (simp add: put_be32_def be32_of_def codec_simps)

lemma length_attr: "length (attr_bytes a) = 4 + (length (snd a) + 3) div 4 * 4"
proof -
  have "length (snd a) \<le> (length (snd a) + 3) div 4 * 4" by simp
  then show ?thesis by (simp add: attr_bytes_def)
qed

lemma attr_head:
  assumes "held m off (attr_bytes a @ r)" "length (snd a) < 65536"
  shows "be16_of m off = fst a" "be16_of m (off + 2) = word_of_nat (length (snd a))" "next_attr m off = off + length (attr_bytes a)"
proof -
  show 1: "be16_of m off = fst a" using assms(1) be16_held by (simp add: attr_bytes_def)
  have "held m (off + 2) (put_be16 (word_of_nat (length (snd a))) @ snd a @ replicate ((length (snd a) + 3) div 4 * 4 - length (snd a)) 0 @ r)"
    using assms(1) by (simp add: attr_bytes_def held_append)
  then show 2: "be16_of m (off + 2) = word_of_nat (length (snd a))" by (rule be16_held)
  have "unat (word_of_nat (length (snd a)) :: u16) = length (snd a)"
    using assms(2) by (simp add: unat_of_nat take_bit_nat_eq_self)
  then show "next_attr m off = off + length (attr_bytes a)" unfolding next_attr_def 2 length_attr by simp
qed

lemma skip_attrs:
  assumes "list_all other_attr as" "held m off (concat (map attr_bytes as) @ r)" "off + length (concat (map attr_bytes as)) \<le> len"
  shows "stun_attrs m len off = stun_attrs m len (off + length (concat (map attr_bytes as)))"
  using assms
proof (induction as arbitrary: off)
  case (Cons a as)
  have o: "other_attr a" "length (snd a) < 65536" using Cons.prems(1) by (auto simp: other_attr_def)
  have h: "held m off (attr_bytes a @ concat (map attr_bytes as) @ r)" using Cons.prems(2) by simp
  note hd = attr_head [OF h o(2)]
  have "attr_endpoint m off = None" using o(1) hd(1) by (simp add: attr_endpoint_def Let_def other_attr_def)
  moreover have "off + 4 \<le> len" using Cons.prems(3) by (simp add: length_attr)
  ultimately have "stun_attrs m len off = stun_attrs m len (off + length (attr_bytes a))"
    using hd(3) by (subst stun_attrs.simps) simp
  also have "\<dots> = stun_attrs m len (off + length (attr_bytes a) + length (concat (map attr_bytes as)))"
    by (rule Cons.IH) (use Cons.prems h in \<open>auto simp: held_append\<close>)
  finally show ?case by (simp add: add.assoc)
qed simp

lemma xor_port_twice [simp]: "xor_port (xor_port p) = p"
  by (simp add: xor_port_def xor.assoc)

lemma xor_mapped_found:
  assumes "held m off (xor_mapped addr port @ r)" "off + 12 \<le> len"
  shows "stun_attrs m len off = Some (endpoint_of addr port)"
proof -
  let ?v = "[0, 1] @ put_be16 (xor_port port) @ put_be32 (addr XOR STUN_MAGIC_COOKIE)"
  have h: "held m off (attr_bytes (STUN_ATTR_XOR_MAPPED_ADDRESS, ?v) @ r)" using assms(1) by (simp add: xor_mapped_def)
  have hd: "be16_of m off = STUN_ATTR_XOR_MAPPED_ADDRESS" "be16_of m (off + 2) = 8" using attr_head [OF h] by simp_all
  have "held m off ((put_be16 STUN_ATTR_XOR_MAPPED_ADDRESS @ put_be16 8) @ ?v @ r)" using h by (simp add: attr_bytes_def)
  then have v: "held m (off + 4) (?v @ r)" by (subst (asm) held_append) simp
  have p: "held m (off + 4 + 2) (put_be16 (xor_port port) @ put_be32 (addr XOR STUN_MAGIC_COOKIE) @ r)"
    "m (off + 5) = 1"
    using v heldD [OF v, of 1] by (simp_all add: held_Cons numeral_2_eq_2 numeral_eq_Suc)
  have "held m (off + 4 + 2 + 2) (put_be32 (addr XOR STUN_MAGIC_COOKIE) @ r)" using p(1) by (simp add: held_append)
  moreover have "off + 4 + 2 + 2 = off + 8" by simp
  ultimately have "be32_of m (off + 8) = addr XOR STUN_MAGIC_COOKIE" by (metis be32_held)
  moreover have "off + 4 + 2 = off + 6" by simp
  then have "be16_of m (off + 6) = xor_port port" using be16_held [OF p(1)] by metis
  ultimately have "attr_endpoint m off = Some (endpoint_of addr port)"
    using hd p(2) by (simp add: attr_endpoint_def Let_def xor.assoc)
  then show ?thesis using assms(2) by (subst stun_attrs.simps) simp
qed

text \<open>
  From a binding response whose header and whatever attributes are followed by the mapped
  address, the handler learns exactly the address and the port the server saw.
\<close>

lemma stun_response_learned:
  assumes "list_all other_attr as" "length hdr = 18"
    and "held m 0 (put_be16 STUN_BINDING_RESPONSE @ hdr @ concat (map attr_bytes as) @ xor_mapped addr port)"
    and "len = 20 + length (concat (map attr_bytes as)) + 12"
  shows "handle_stun_packet so m len src sport known = (endpoint_of addr port, [])"
proof -
  let ?n = "length (concat (map attr_bytes as))"
  have "be16_of m 0 = STUN_BINDING_RESPONSE" using be16_held [OF assms(3)] .
  moreover have a: "held m 20 (concat (map attr_bytes as) @ xor_mapped addr port)"
    using assms(2,3) by (simp add: held_append)
  have "stun_attrs m len 20 = stun_attrs m len (20 + ?n)"
    using skip_attrs [OF assms(1) a, of len] assms(4) by simp
  moreover have "stun_attrs m len (20 + ?n) = Some (endpoint_of addr port)"
    by (rule xor_mapped_found [where r = "[]"]) (use a assms(4) in \<open>auto simp: held_append\<close>)
  ultimately show ?thesis using assms(4)
    by (simp add: handle_stun_packet_def STUN_BINDING_RESPONSE_def STUN_BINDING_REQUEST_def)
qed

lemma stun_response_learned_witness:
  "handle_stun_packet True (\<lambda>i. if i < 40 then (put_be16 STUN_BINDING_RESPONSE @ replicate 18 7 @ attr_bytes (0x8022, [1, 2, 3])
      @ xor_mapped 0xCB007101 41642) ! i else 0) 40 [1, 2, 3, 4] 3478 [] = (endpoint_of 0xCB007101 41642, [])"
proof (rule stun_response_learned [where as = "[(0x8022, [1, 2, 3])]" and hdr = "replicate 18 7"])
  show "list_all other_attr [(0x8022, [1, 2, 3])]"
    by (simp add: other_attr_def STUN_ATTR_XOR_MAPPED_ADDRESS_def STUN_ATTR_MAPPED_ADDRESS_def)
  have "length (put_be16 STUN_BINDING_RESPONSE @ replicate 18 7 @ attr_bytes (0x8022, [1, 2, 3]) @ xor_mapped 0xCB007101 41642) = 40"
    by (simp add: length_attr xor_mapped_def)
  then show "held (\<lambda>i. if i < 40 then (put_be16 STUN_BINDING_RESPONSE @ replicate 18 7 @ attr_bytes (0x8022, [1, 2, 3])
      @ xor_mapped 0xCB007101 41642) ! i else 0) 0 (put_be16 STUN_BINDING_RESPONSE @ replicate 18 7
      @ concat (map attr_bytes [(0x8022, [1, 2, 3])]) @ xor_mapped 0xCB007101 41642)"
    by (simp add: held_def)
qed (simp_all add: length_attr)

lemma map_upt_held: "held (\<lambda>i. bs ! i) 0 bs"
  by (simp add: held_def)

text \<open>
  The answers to peers are wrong: the address goes out byte-reversed, and a client, such as
  this program itself, that parses the answer to a request from \<open>a.b.c.d\<close> learns another
  address: \<open>d.c.b.a\<close> mixed with the cookie and its reverse.
\<close>

lemma stun_answer_reversed:
  assumes "length src = 4" "be32_of m 4 = STUN_MAGIC_COOKIE"
  shows "stun_attrs (\<lambda>i. stun_response m src port ! i) 32 20 = Some (endpoint_of (s_addr src XOR 0x63B6B663) port)"
proof -
  let ?r = "stun_response m src port"
  let ?addr = "s_addr src XOR htonl STUN_MAGIC_COOKIE XOR STUN_MAGIC_COOKIE"
  have r: "?r = (put_be16 STUN_BINDING_RESPONSE @ [0x00, 0x0C] @ map m [4..<8] @ map m [8..<20]) @ xor_mapped ?addr port"
    using assms(2) by (simp add: stun_response_def Let_def xor_mapped_def attr_bytes_def xor_port_def xor.assoc put_be16_def)
  have "held (\<lambda>i. ?r ! i) 20 (xor_mapped ?addr port)"
    using map_upt_held [of ?r] unfolding r held_append by simp
  then have "stun_attrs (\<lambda>i. ?r ! i) 32 20 = Some (endpoint_of ?addr port)"
    by (intro xor_mapped_found [where r = "[]"]) auto
  moreover have "htonl STUN_MAGIC_COOKIE XOR STUN_MAGIC_COOKIE = 0x63B6B663" by code_simp
  ultimately show ?thesis by (simp only: xor.assoc)
qed

lemma stun_answer_reversed_witness:
  "stun_attrs (\<lambda>i. stun_response (\<lambda>i. (stun_request (replicate 12 5)) ! i) [192, 168, 1, 7] 5000 ! i) 32 20
     = Some (endpoint_of (s_addr [192, 168, 1, 7] XOR 0x63B6B663) 5000)
   \<and> s_addr [192, 168, 1, 7] XOR 0x63B6B663 \<noteq> 0xC0A80107"
proof
  have "be32_of (\<lambda>i. (stun_request (replicate 12 5)) ! i) 4 = STUN_MAGIC_COOKIE"
    by (rule be32_held [where r = "replicate 12 5"]) (simp add: held_def stun_request_def)
  then show "stun_attrs (\<lambda>i. stun_response (\<lambda>i. (stun_request (replicate 12 5)) ! i) [192, 168, 1, 7] 5000 ! i) 32 20
     = Some (endpoint_of (s_addr [192, 168, 1, 7] XOR 0x63B6B663) 5000)"
    by (intro stun_answer_reversed) simp_all
  show "s_addr [192, 168, 1, 7] XOR 0x63B6B663 \<noteq> 0xC0A80107" by code_simp
qed

section \<open>The receiving task during a query\<close>

lemma restart_io_sel [simp]: "io_running (restart_io was q) = (was \<or> io_running q)"
  by (simp add: restart_io_def)

lemma query_send_sel [simp]: "io_running (query_send srv x q) = io_running q" "derp_host (query_send srv x q) = derp_host q"
  by (simp_all add: query_send_def)

lemma query_parse_io: "io_running (snd (query_parse was x q)) = (was \<or> io_running q)"
  by (simp add: query_parse_def split: option.splits)

lemma query_wrong_type_io:
  "\<not> io_running q \<Longrightarrow> io_running (snd (query_wrong_type was host x q)) \<Longrightarrow> was"
  "fst (query_wrong_type was host x q) \<Longrightarrow> was \<Longrightarrow> io_running (snd (query_wrong_type was host x q))"
  by (auto simp: query_wrong_type_def Let_def query_parse_io split: if_splits)

lemma query_response_io:
  "\<not> io_running q \<Longrightarrow> io_running (snd (query_response was host x y q)) \<Longrightarrow> was"
  "fst (query_response was host x y q) \<Longrightarrow> was \<Longrightarrow> io_running (snd (query_response was host x y q))"
  by (auto simp: query_response_def query_parse_io query_wrong_type_io(2) split: if_splits dest: query_wrong_type_io(1))

lemma query_not_running:
  "\<not> io_running q \<Longrightarrow> \<not> io_running (snd (perform_stun_query x1 x2 x3 q))"
proof -
  assume "\<not> io_running q"
  moreover have "\<not> io_running (snd (query_response False h x y r))" if "\<not> io_running r" for h x y r
    using query_response_io(1) [OF that] by blast
  ultimately show ?thesis by (simp add: perform_stun_query_def Let_def)
qed

text \<open>
  A successful query leaves the receiving task as it was. But when the first server's name
  does not resolve, the task that was stopped for the query is not started again, nor by any
  later query, successful or not: from then on nothing is received on the socket.
\<close>

lemma failed_query_stops_receiving:
  assumes "unified_socket_open q" "\<not> resolves x1"
  shows "perform_stun_query x1 x2 x3 q = (False, q\<lparr>io_running := False\<rparr>)
    \<and> \<not> io_running (fold (\<lambda>(a, b, c) q. snd (perform_stun_query a b c q)) later (q\<lparr>io_running := False\<rparr>))"
proof
  show "perform_stun_query x1 x2 x3 q = (False, q\<lparr>io_running := False\<rparr>)"
    using assms by (simp add: perform_stun_query_def Let_def)
  have "\<not> io_running r \<Longrightarrow> \<not> io_running (fold (\<lambda>(a, b, c) q. snd (perform_stun_query a b c q)) later r)" for r
  proof (induction later arbitrary: r)
    case (Cons x later)
    then show ?case using query_not_running [of r] by (cases x) simp
  qed simp
  then show "\<not> io_running (fold (\<lambda>(a, b, c) q. snd (perform_stun_query a b c q)) later (q\<lparr>io_running := False\<rparr>))" by simp
qed

lemma successful_query_restarts:
  "fst (perform_stun_query x1 x2 x3 q) \<Longrightarrow> io_running q \<Longrightarrow> io_running (snd (perform_stun_query x1 x2 x3 q))"
  by (auto simp: perform_stun_query_def Let_def query_response_io split: if_splits)

definition unresolved :: exchange where
  "unresolved = \<lparr>resolves = False, send_ok = True, readable = True, received = 0, response = (\<lambda>_. 0), txid = []\<rparr>"

definition query_state :: stun_query where
  "query_state = \<lparr>unified_socket_open = True, io_running = True, derp_host = ''derp'', stun_port = 0,
     discovered_endpoint = [], stun_sent = []\<rparr>"

lemma failed_query_stops_receiving_witness:
  "\<not> io_running (fold (\<lambda>(a, b, c) q. snd (perform_stun_query a b c q)) [(unresolved, unresolved, unresolved)] (query_state\<lparr>io_running := False\<rparr>))"
  using failed_query_stops_receiving [of query_state unresolved unresolved unresolved "[(unresolved, unresolved, unresolved)]"]
  by (simp add: query_state_def unresolved_def)

end
