(* ===== verification/Peer_Table.thy ===== *)
theory Peer_Table
  imports Map_Parser Ord_Map
begin

text \<open>
  From the parsed map to the peers' sessions: the conversion of \<^verbatim>\<open>StaticMapResponse\<close> to
  \<^verbatim>\<open>NodeConfig\<close> at the end of \<^verbatim>\<open>fetch_map_response_\<close>, and the filling of
  \<^verbatim>\<open>peer_sessions_\<close> and \<^verbatim>\<open>ip_to_peer_\<close> in \<^verbatim>\<open>handle_fetching_map_state_\<close>
  (\<^verbatim>\<open>tailscale.cpp\<close>). Binary keys are byte lists; counters that are only logged, and
  \<^verbatim>\<open>disco_key_to_peer_\<close>, which is only written, are left out.
\<close>

section \<open>State\<close>

record peer_info =
  p_public_key :: string
  p_disco_key :: string
  p_hostname :: string
  p_endpoint :: string
  p_port :: u16
  p_allowed_ips :: "string list"

record peer_session =
  s_node_key :: bytes
  s_disco_key :: bytes
  s_tailscale_ip :: string
  s_hostname :: string
  s_endpoint :: string
  s_endpoint_port :: u16
  last_endpoint_update :: u32
  last_wg_activity :: u32
  direct_path_confirmed :: bool
  derp_fallback_enabled :: bool

section \<open>From the map to the configuration\<close>

definition nodekey :: string where "nodekey = ''nodekey:''"
definition discokey :: string where "discokey = ''discokey:''"

text \<open>The split of an endpoint at its last colon; without one there is no endpoint.\<close>

definition split_endpoint :: "string \<Rightarrow> string \<times> u16" where
  "split_endpoint s =
     (if CHR '':'' \<in> set s
      then (rev (drop 1 (dropWhile (\<lambda>c. c \<noteq> CHR '':'') (rev s))),
            word_of_int (c_atoi (rev (takeWhile (\<lambda>c. c \<noteq> CHR '':'') (rev s)))))
      else ([], 0))"

definition convert_peer :: "peer \<Rightarrow> peer_info" where
  "convert_peer p =
     (let ep = split_endpoint (c_str (endpoint p)); ip = c_str (tailscale_ip p) in
      \<lparr>p_public_key = nodekey @ hex_of (node_key p), p_disco_key = discokey @ hex_of (disco_key p),
       p_hostname = c_str (hostname p), p_endpoint = fst ep, p_port = snd ep,
       p_allowed_ips = (if ip \<noteq> [] then [ip @ ''/32''] else [])\<rparr>)"

definition convert_peers :: "static_map \<Rightarrow> peer_info list" where
  "convert_peers m = map convert_peer (filter valid (take (peer_count m) (peers m)))"

section \<open>From the configuration to the sessions\<close>

fun hex_bytes :: "string \<Rightarrow> bytes option" where
  "hex_bytes (h # l # s) =
     (case (nibble h, nibble l) of
        (Some a, Some b) \<Rightarrow> map_option (Cons (push_bit 4 a OR b)) (hex_bytes s)
      | _ \<Rightarrow> None)"
| "hex_bytes s = Some []"

definition hex_decode :: "string \<Rightarrow> bytes" where
  "hex_decode s = (if length s mod 2 \<noteq> 0 then [] else case hex_bytes s of None \<Rightarrow> [] | Some bs \<Rightarrow> bs)"

definition strip_key_prefix :: "string \<Rightarrow> string \<Rightarrow> string" where
  "strip_key_prefix pre s = (if take (length pre) s = pre then drop (length pre) s else s)"

definition peer_ip :: "peer_info \<Rightarrow> string" where
  "peer_ip p = (case p_allowed_ips p of [] \<Rightarrow> [] | a # _ \<Rightarrow> takeWhile (\<lambda>c. c \<noteq> CHR ''/'') a)"

definition new_session :: "peer_info \<Rightarrow> peer_session" where
  "new_session p =
     \<lparr>s_node_key = hex_decode (strip_key_prefix nodekey (p_public_key p)),
      s_disco_key = (if p_disco_key p = [] then [] else hex_decode (strip_key_prefix discokey (p_disco_key p))),
      s_tailscale_ip = peer_ip p, s_hostname = p_hostname p, s_endpoint = p_endpoint p, s_endpoint_port = p_port p,
      last_endpoint_update = 0, last_wg_activity = 0, direct_path_confirmed = False, derp_fallback_enabled = False\<rparr>"

definition add_session :: "peer_info \<Rightarrow> peer_session list \<times> (string, nat) omap \<Rightarrow> peer_session list \<times> (string, nat) omap" where
  "add_session p = (\<lambda>(ss, ips).
     if peer_ip p = [] then (ss, ips)
     else let s = new_session p in
       if length (s_node_key s) \<noteq> 32 then (ss, ips) else (ss @ [s], om_put (peer_ip p) (length ss) ips))"

definition build_sessions :: "peer_info list \<Rightarrow> peer_session list \<times> (string, nat) omap" where
  "build_sessions ps = fold add_session ps ([], [])"

section \<open>Correctness\<close>

lemma hex_bytes_hex_of: "hex_bytes (hex_of bs) = Some bs"
  by (induction bs) (simp_all add: hex_of_def nibble_hex_digit high_nibble join_nibbles)

lemma hex_decode_hex_of [codec_simps]: "hex_decode (hex_of bs) = bs"
  by (simp add: hex_decode_def hex_bytes_hex_of)

lemma strip_key_prefix_append [simp]: "strip_key_prefix pre (pre @ s) = s"
  by (simp add: strip_key_prefix_def)

text \<open>The peers that get a session: valid ones with an address.\<close>

definition usable :: "peer \<Rightarrow> bool" where
  "usable p \<longleftrightarrow> valid p \<and> takeWhile (\<lambda>c. c \<noteq> CHR ''/'') (c_str (tailscale_ip p)) \<noteq> []"

definition session_of :: "peer \<Rightarrow> peer_session" where
  "session_of p =
     \<lparr>s_node_key = node_key p, s_disco_key = disco_key p,
      s_tailscale_ip = takeWhile (\<lambda>c. c \<noteq> CHR ''/'') (c_str (tailscale_ip p)), s_hostname = c_str (hostname p),
      s_endpoint = fst (split_endpoint (c_str (endpoint p))), s_endpoint_port = snd (split_endpoint (c_str (endpoint p))),
      last_endpoint_update = 0, last_wg_activity = 0, direct_path_confirmed = False, derp_fallback_enabled = False\<rparr>"

lemma takeWhile_slash: "takeWhile (\<lambda>c. c \<noteq> CHR ''/'') (s @ ''/32'') = takeWhile (\<lambda>c. c \<noteq> CHR ''/'') s"
  by (induction s) auto

lemma peer_ip_convert: "peer_ip (convert_peer p) = takeWhile (\<lambda>c. c \<noteq> CHR ''/'') (c_str (tailscale_ip p))"
  by (simp add: peer_ip_def convert_peer_def Let_def takeWhile_slash del: takeWhile_eq_Nil_iff)

lemma new_session_convert: "new_session (convert_peer p) = session_of p"
  by (simp add: new_session_def peer_ip_convert session_of_def)
     (simp add: convert_peer_def Let_def codec_simps, simp add: discokey_def)

text \<open>The address map points into the sessions, at one with that address.\<close>

definition ip_map_ok :: "peer_session list \<Rightarrow> (string, nat) omap \<Rightarrow> bool" where
  "ip_map_ok ss ips \<longleftrightarrow> om_wf ips
     \<and> list_all (\<lambda>(ip, i). i < length ss \<and> s_tailscale_ip (ss ! i) = ip) ips
     \<and> list_all (\<lambda>s. om_get (s_tailscale_ip s) ips \<noteq> None) ss"

lemma ip_map_add:
  assumes "ip_map_ok ss ips"
  shows "ip_map_ok (ss @ [s]) (om_put (s_tailscale_ip s) (length ss) ips)"
proof -
  have set_put: "x \<in> set (om_put k v m) \<Longrightarrow> x = (k, v) \<or> x \<in> set m" for x k v and m :: "(string, nat) omap"
    by (induction k v m rule: om_put.induct) (auto split: if_splits)
  show ?thesis using assms
    by (auto simp: ip_map_ok_def om_wf_put list_all_iff oms.get_put nth_append dest!: set_put)
qed

lemma fold_add_session:
  assumes "list_all (\<lambda>p. length (node_key p) = 32) ps"
  shows "fst (fold add_session (map convert_peer (filter valid ps)) (ss, ips)) = ss @ map session_of (filter usable ps)"
  using assms by (induction ps arbitrary: ss ips)
    (auto simp: add_session_def peer_ip_convert new_session_convert usable_def Let_def session_of_def split: if_splits)

lemma add_session_ok: "ip_map_ok ss ips \<Longrightarrow> (case add_session p (ss, ips) of (ss', ips') \<Rightarrow> ip_map_ok ss' ips')"
  using ip_map_add [of ss ips "new_session p"] by (auto simp: add_session_def Let_def new_session_def split: if_splits)

lemma fold_add_session_ok:
  "ip_map_ok (fst st) (snd st) \<Longrightarrow> ip_map_ok (fst (fold add_session ps st)) (snd (fold add_session ps st))"
proof (induction ps arbitrary: st)
  case (Cons p ps)
  then show ?case using add_session_ok [of "fst st" "snd st" p] by (simp add: split_beta)
qed simp

text \<open>
  C32. The sessions are the map's: every usable peer of the parsed map, and no other, gets a
  session, in the map's order, with its own binary keys, address, name and endpoint, whose keys
  went through hexadecimal and back.
\<close>

theorem sessions_of_map:
  assumes "list_all (\<lambda>p. length (node_key p) = 32) (peers m)"
  shows "fst (build_sessions (convert_peers m)) = map session_of (filter usable (take (peer_count m) (peers m)))"
proof -
  have "list_all (\<lambda>p. length (node_key p) = 32) (take (peer_count m) (peers m))"
    using assms by (auto simp: list_all_iff dest: in_set_takeD)
  from fold_add_session [OF this, of "[]" "[]"] show ?thesis by (simp add: build_sessions_def convert_peers_def)
qed

theorem sessions_of_map_witness:
  "fst (build_sessions (convert_peers (empty_map\<lparr>peers := [empty_peer\<lparr>valid := True, tailscale_ip := ''100.64.0.5''\<rparr>], peer_count := 1\<rparr>)))
    = map session_of (filter usable (take (peer_count (empty_map\<lparr>peers := [empty_peer\<lparr>valid := True, tailscale_ip := ''100.64.0.5''\<rparr>], peer_count := 1\<rparr>))
        (peers (empty_map\<lparr>peers := [empty_peer\<lparr>valid := True, tailscale_ip := ''100.64.0.5''\<rparr>], peer_count := 1\<rparr>))))"
  by (rule sessions_of_map) (simp add: empty_map_def empty_peer_def)

lemma build_sessions_ok: "ip_map_ok (fst (build_sessions ps)) (snd (build_sessions ps))"
  unfolding build_sessions_def by (rule fold_add_session_ok) (simp add: ip_map_ok_def om_wf_def)

end
