(* ===== verification/Disco.thy ===== *)
theory Disco
  imports Peer_Table Net_Addr Crypto_Box
begin

text \<open>
  The disco protocol of \<^verbatim>\<open>tailscale.cpp\<close>: pings, pongs and call-me-maybe in NaCl boxes.
  \<open>seal\<close> and \<open>unseal\<close> are the box functions (message or box, nonce, public key, private key),
  \<open>b64d\<close> and \<open>b64e\<close> the base64 library behind \<^verbatim>\<open>base64_decode\<close> and
  \<^verbatim>\<open>base64_encode\<close>, \<open>fill k n\<close> what the \<open>k\<close>-th call of the random generator gives for \<open>n\<close>
  bytes. \<open>udp_out\<close> is what is sent from the shared socket, with the four bytes of the address
  and the port; \<open>overrun\<close> records a decrypted payload larger than the buffer for it.
\<close>

section \<open>State\<close>

record disco =
  d_socket_open :: bool
  disco_key_private :: string
  disco_key_public :: string
  node_key_public :: string
  cfg_peers :: "peer_info list"
  peer_sessions :: "peer_session list"
  fills :: nat
  udp_out :: "(bytes \<times> u16 \<times> bytes) list"
  overrun :: bool

type_synonym box_fun = "bytes \<Rightarrow> bytes \<Rightarrow> bytes \<Rightarrow> bytes \<Rightarrow> bytes option"

definition DISCO_MAGIC :: bytes where "DISCO_MAGIC = [0x54, 0x53, 0xf0, 0x9f, 0x92, 0xac]"

section \<open>Keys\<close>

text \<open>\<^verbatim>\<open>strtoul\<close> in base 16 on two characters, cast to a byte.\<close>

definition strtoul16 :: "string \<Rightarrow> u8" where
  "strtoul16 s =
     (let s = dropWhile c_isspace s;
          neg = (take 1 s = ''-'');
          s = (if take 1 s = ''-'' \<or> take 1 s = ''+'' then drop 1 s else s);
          v = fold (\<lambda>c v. push_bit 4 v OR (case nibble c of None \<Rightarrow> 0 | Some n \<Rightarrow> n))
                (takeWhile (\<lambda>c. nibble c \<noteq> None) s) 0
      in if neg then - v else v)"

fun hex_pairs :: "string \<Rightarrow> bytes" where
  "hex_pairs (a # b # s) = strtoul16 [a, b] # hex_pairs s"
| "hex_pairs _ = []"

text \<open>The key of a peer: hexadecimal behind the prefix, base64 without it.\<close>

definition decode_peer_key :: "(string \<Rightarrow> bytes) \<Rightarrow> string \<Rightarrow> bytes option" where
  "decode_peer_key b64d k =
     (let raw = (if take 9 k = discokey then (if length (drop 9 k) = 64 then Some (hex_pairs (drop 9 k)) else None)
                 else Some (b64d k))
      in case raw of None \<Rightarrow> None | Some r \<Rightarrow> if length r = 32 then Some r else None)"

section \<open>Sending\<close>

definition disco_frame :: "bytes \<Rightarrow> bytes \<Rightarrow> bytes \<Rightarrow> bytes" where
  "disco_frame pub nonce c = DISCO_MAGIC @ pub @ nonce @ c"

definition ping_plain :: "bytes \<Rightarrow> bytes \<Rightarrow> bytes" where
  "ping_plain txid node = [1, 0] @ txid @ node"

definition udp_send :: "string \<Rightarrow> u16 \<Rightarrow> bytes \<Rightarrow> disco \<Rightarrow> disco" where
  "udp_send ip port msg d = (case pton ip of None \<Rightarrow> d | Some a \<Rightarrow> d\<lparr>udp_out := udp_out d @ [(a, port, msg)]\<rparr>)"

definition send_disco_ping ::
    "box_fun \<Rightarrow> (string \<Rightarrow> bytes) \<Rightarrow> (nat \<Rightarrow> nat \<Rightarrow> bytes) \<Rightarrow> string \<Rightarrow> u16 \<Rightarrow> string \<Rightarrow> disco \<Rightarrow> disco" where
  "send_disco_ping seal b64d fill ip port key d =
     (if \<not> d_socket_open d \<or> key = [] then d
      else let priv = b64d (disco_key_private d) in
        if length priv \<noteq> 32 then d
        else case decode_peer_key b64d key of None \<Rightarrow> d | Some pk \<Rightarrow>
          (let pub = b64d (disco_key_public d) in
           if length pub \<noteq> 32 then d
           else let nonce = fill (fills d) 24; txid = fill (fills d + 1) 12; d = d\<lparr>fills := fills d + 2\<rparr>;
                    node = b64d (node_key_public d)
                in if length node \<noteq> 32 then d
                   else case seal (ping_plain txid node) nonce pk priv of
                     None \<Rightarrow> d | Some c \<Rightarrow> udp_send ip port (disco_frame pub nonce c) d))"

text \<open>The address the ping came from, as an IPv4-mapped IPv6 address and a port.\<close>

definition mapped_src :: "bytes \<Rightarrow> u16 \<Rightarrow> bytes" where
  "mapped_src a port = replicate 10 0 @ [0xff, 0xff] @ a @ put_be16 port"

definition pong_plain :: "bytes \<Rightarrow> bytes \<Rightarrow> u16 \<Rightarrow> bytes" where
  "pong_plain txid a port = [2, 0] @ txid @ mapped_src a port"

definition send_disco_pong ::
    "box_fun \<Rightarrow> (string \<Rightarrow> bytes) \<Rightarrow> (nat \<Rightarrow> nat \<Rightarrow> bytes) \<Rightarrow> bytes \<Rightarrow> u16 \<Rightarrow> string \<Rightarrow> bytes \<Rightarrow> disco \<Rightarrow> disco" where
  "send_disco_pong seal b64d fill a port key txid d =
     (if \<not> d_socket_open d then d
      else let priv = b64d (disco_key_private d); pub = b64d (disco_key_public d) in
        if length priv \<noteq> 32 \<or> length pub \<noteq> 32 then d
        else case decode_peer_key b64d key of None \<Rightarrow> d | Some pk \<Rightarrow>
          (let nonce = fill (fills d) 24; d = d\<lparr>fills := fills d + 1\<rparr> in
           case seal (pong_plain txid a port) nonce pk priv of
             None \<Rightarrow> d | Some c \<Rightarrow> udp_send (ntop a) port (disco_frame pub nonce c) d))"

section \<open>Receiving\<close>

definition key_string :: "bytes \<Rightarrow> string" where
  "key_string pub = discokey @ hex_of pub"

text \<open>The first peer with a disco key, changed.\<close>

fun map_first :: "('a \<Rightarrow> bool) \<Rightarrow> ('a \<Rightarrow> 'a) \<Rightarrow> 'a list \<Rightarrow> 'a list" where
  "map_first P f [] = []"
| "map_first P f (x # xs) = (if P x then f x # xs else x # map_first P f xs)"

definition learn_endpoint :: "string \<Rightarrow> string \<Rightarrow> u16 \<Rightarrow> disco \<Rightarrow> disco" where
  "learn_endpoint key ip port d =
     d\<lparr>cfg_peers := map_first (\<lambda>p. p_disco_key p = key) (\<lambda>p. p\<lparr>p_endpoint := ip, p_port := port\<rparr>) (cfg_peers d)\<rparr>"

definition confirm_path :: "u32 \<Rightarrow> string \<Rightarrow> u16 \<Rightarrow> peer_session \<Rightarrow> peer_session" where
  "confirm_path now ip port s =
     (if s_endpoint s \<noteq> ip \<or> s_endpoint_port s \<noteq> port \<or> s_endpoint s = []
      then s\<lparr>s_endpoint := ip, s_endpoint_port := port, last_endpoint_update := now\<rparr> else s)\<lparr>direct_path_confirmed := True\<rparr>"

definition handle_disco_pong :: "u32 \<Rightarrow> string \<Rightarrow> u16 \<Rightarrow> string \<Rightarrow> disco \<Rightarrow> disco" where
  "handle_disco_pong now ip port key d =
     (case find (\<lambda>p. p_disco_key p = key) (cfg_peers d) of
        None \<Rightarrow> d
      | Some p \<Rightarrow> (learn_endpoint key ip port d)
          \<lparr>peer_sessions := map_first (\<lambda>s. s_hostname s = p_hostname p) (confirm_path now ip port) (peer_sessions d)\<rparr>)"

text \<open>The endpoints of a call-me-maybe: IPv4-mapped ones are pinged, others passed over.\<close>

definition mapped_ipv4 :: "bytes \<Rightarrow> bool" where
  "mapped_ipv4 e \<longleftrightarrow> list_all (\<lambda>b. b = 0) (take 10 e) \<and> e ! 10 = 0xff \<and> e ! 11 = 0xff"

definition ping_endpoint :: "box_fun \<Rightarrow> (string \<Rightarrow> bytes) \<Rightarrow> (nat \<Rightarrow> nat \<Rightarrow> bytes) \<Rightarrow> string \<Rightarrow> bytes \<Rightarrow> disco \<Rightarrow> disco" where
  "ping_endpoint seal b64d fill key e d =
     (if mapped_ipv4 e then send_disco_ping seal b64d fill (ntop (take 4 (drop 12 e))) (get_be16 (e ! 16) (e ! 17)) key d else d)"

fun endpoints18 :: "bytes \<Rightarrow> bytes list" where
  "endpoints18 bs = (if length bs < 18 then [] else take 18 bs # endpoints18 (drop 18 bs))"

declare endpoints18.simps [simp del]

definition call_me_maybe :: "box_fun \<Rightarrow> (string \<Rightarrow> bytes) \<Rightarrow> (nat \<Rightarrow> nat \<Rightarrow> bytes) \<Rightarrow> string \<Rightarrow> bytes \<Rightarrow> disco \<Rightarrow> disco" where
  "call_me_maybe seal b64d fill key eps d =
     (if length eps mod 18 \<noteq> 0 then d
      else if find (\<lambda>p. p_disco_key p = key) (cfg_peers d) = None then d
      else fold (ping_endpoint seal b64d fill key) (endpoints18 eps) d)"

text \<open>What is done with an opened message. The code decrypts into 64 bytes: what a longer message
  does to the stack behind them is only recorded, and the model goes on as if there were room.\<close>

definition handle_message ::
    "box_fun \<Rightarrow> (string \<Rightarrow> bytes) \<Rightarrow> (bytes \<Rightarrow> string) \<Rightarrow> (nat \<Rightarrow> nat \<Rightarrow> bytes) \<Rightarrow> u32 \<Rightarrow> bytes \<Rightarrow> bytes \<Rightarrow> bytes \<Rightarrow> u16 \<Rightarrow> disco \<Rightarrow> disco" where
  "handle_message seal b64d b64e fill now sender m a port d =
     (let d = (if length m > 64 then d\<lparr>overrun := True\<rparr> else d); key = key_string sender in
      if m ! 0 = 1 then
        (if length m < 14 then d
         else send_disco_pong seal b64d fill a port (b64e sender) (take 12 (drop 2 m)) (learn_endpoint key (ntop a) port d))
      else if m ! 0 = 2 then handle_disco_pong now (ntop a) port key d
      else if m ! 0 = 3 then call_me_maybe seal b64d fill key (drop 2 m) d
      else d)"

definition handle_disco_packet ::
    "box_fun \<Rightarrow> box_fun \<Rightarrow> (string \<Rightarrow> bytes) \<Rightarrow> (bytes \<Rightarrow> string) \<Rightarrow> (nat \<Rightarrow> nat \<Rightarrow> bytes) \<Rightarrow> u32 \<Rightarrow> bytes \<Rightarrow> bytes \<Rightarrow> u16 \<Rightarrow> disco \<Rightarrow> disco" where
  "handle_disco_packet seal unseal b64d b64e fill now buf a port d =
     (if length buf < 80 then d
      else let sender = take 32 (drop 6 buf); nonce = take 24 (drop 38 buf); enc = drop 62 buf;
               priv = b64d (disco_key_private d); pub = b64d (disco_key_public d) in
        if length priv \<noteq> 32 \<or> length pub \<noteq> 32 then d
        else if sender = pub then d
        else case unseal enc nonce sender priv of None \<Rightarrow> d
          | Some m \<Rightarrow> handle_message seal b64d b64e fill now sender m a port d)"

end
