(* ===== verification/Wg_Manager.thy ===== *)
theory Wg_Manager
  imports Ord_Map Ts_Interfaces
begin

text \<open>
  \<^verbatim>\<open>wireguard_device_manager.cpp\<close>: one device, one slot of it per peer, and the two
  maps that route by address and by receiver index. The WireGuard library behind it is the
  record \<open>wg_lib\<close> of the calls the manager makes, on a device state \<open>'d\<close> and slots numbered
  by position; what a lemma needs of it is among the lemma's hypotheses. \<open>sent\<close> and
  \<open>decrypted_out\<close> are the calls of the two callbacks.
\<close>

section \<open>State\<close>

record 'd wg_lib =
  device_init :: "bytes \<Rightarrow> 'd option"
  slot_alloc :: "'d \<Rightarrow> (nat \<times> 'd) option"
  slot_init :: "'d \<Rightarrow> nat \<Rightarrow> bytes \<Rightarrow> bytes \<Rightarrow> bool \<times> 'd"
  slot_free :: "nat \<Rightarrow> 'd \<Rightarrow> 'd"
  create_initiation :: "'d \<Rightarrow> nat \<Rightarrow> bytes option \<times> 'd"
  process_initiation :: "'d \<Rightarrow> bytes \<Rightarrow> nat option \<times> 'd"
  create_response :: "'d \<Rightarrow> nat \<Rightarrow> bytes option \<times> 'd"
  process_response :: "'d \<Rightarrow> nat \<Rightarrow> bytes \<Rightarrow> bool \<times> 'd"
  start_session :: "nat \<Rightarrow> bool \<Rightarrow> 'd \<Rightarrow> 'd"
  next_valid :: "'d \<Rightarrow> nat \<Rightarrow> bool"
  keypair_update :: "nat \<Rightarrow> 'd \<Rightarrow> 'd"
  curr_valid :: "'d \<Rightarrow> nat \<Rightarrow> bool"
  local_index :: "'d \<Rightarrow> nat \<Rightarrow> u32"
  remote_index :: "'d \<Rightarrow> nat \<Rightarrow> u32"
  sending_counter :: "'d \<Rightarrow> nat \<Rightarrow> u64"
  encrypt_packet :: "'d \<Rightarrow> nat \<Rightarrow> bytes \<Rightarrow> bytes \<times> 'd"
  decrypt_packet :: "'d \<Rightarrow> nat \<Rightarrow> u64 \<Rightarrow> bytes \<Rightarrow> bytes option \<times> 'd"

record peer_ctx =
  slot :: nat
  ctx_ip :: string
  receiver_index :: u32
  handshake_established :: bool

record 'd wgm =
  wg_device :: "'d option"
  our_private :: bytes
  wg_peers :: "(string, peer_ctx) omap"
  receiver_to_peer :: "(u32, string) omap"
  has_send_cb :: bool
  has_decrypt_cb :: bool
  sent :: "(string \<times> bytes) list"
  decrypted_out :: "(string \<times> bytes) list"

definition HANDSHAKE_INIT_SIZE :: nat where "HANDSHAKE_INIT_SIZE = 148"
definition HANDSHAKE_RESP_SIZE :: nat where "HANDSHAKE_RESP_SIZE = 92"
definition TRANSPORT_OVERHEAD :: nat where "TRANSPORT_OVERHEAD = 32"
definition MAX_IP_PACKET_SIZE :: nat where "MAX_IP_PACKET_SIZE = 1420"

definition put_le64 :: "u64 \<Rightarrow> bytes" where
  "put_le64 v = map (\<lambda>i. ucast (drop_bit (8 * i) v)) [0..<8]"

definition get_le64 :: "bytes \<Rightarrow> u64" where
  "get_le64 bs = foldr (\<lambda>b v. ucast b OR push_bit 8 v) (take 8 bs) 0"

section \<open>Peers\<close>

definition wg_init :: "'d wg_lib \<Rightarrow> bytes \<Rightarrow> 'd wgm \<Rightarrow> bool \<times> 'd wgm" where
  "wg_init lib key m =
     (if wg_device m \<noteq> None then (True, m)
      else let m = m\<lparr>our_private := key\<rparr> in
        case device_init lib key of None \<Rightarrow> (False, m) | Some dev \<Rightarrow> (True, m\<lparr>wg_device := Some dev\<rparr>))"

text \<open>A missing pre-shared key is the zero key.\<close>

definition add_peer :: "'d wg_lib \<Rightarrow> string \<Rightarrow> bytes \<Rightarrow> bytes option \<Rightarrow> 'd wgm \<Rightarrow> bool \<times> 'd wgm" where
  "add_peer lib ip key psk m =
     (case wg_device m of None \<Rightarrow> (False, m) | Some dev \<Rightarrow>
        (if om_get ip (wg_peers m) \<noteq> None then (True, m)
         else case slot_alloc lib dev of None \<Rightarrow> (False, m) | Some (n, dev) \<Rightarrow>
           (case slot_init lib dev n key (case psk of None \<Rightarrow> replicate 32 0 | Some k \<Rightarrow> k) of
              (False, dev) \<Rightarrow> (False, m\<lparr>wg_device := Some (slot_free lib n dev)\<rparr>)
            | (True, dev) \<Rightarrow> (True, m\<lparr>wg_device := Some dev,
                wg_peers := om_put ip \<lparr>slot = n, ctx_ip = ip, receiver_index = 0, handshake_established = False\<rparr> (wg_peers m)\<rparr>))))"

definition remove_peer :: "'d wg_lib \<Rightarrow> string \<Rightarrow> 'd wgm \<Rightarrow> 'd wgm" where
  "remove_peer lib ip m =
     (case om_get ip (wg_peers m) of None \<Rightarrow> m
      | Some c \<Rightarrow> m\<lparr>receiver_to_peer := (if receiver_index c \<noteq> 0 then om_del (receiver_index c) (receiver_to_peer m)
                                        else receiver_to_peer m),
                   wg_device := map_option (slot_free lib (slot c)) (wg_device m),
                   wg_peers := om_del ip (wg_peers m)\<rparr>)"

definition get_peer :: "string \<Rightarrow> 'd wgm \<Rightarrow> nat option" where
  "get_peer ip m = map_option slot (om_get ip (wg_peers m))"

definition is_handshake_established :: "string \<Rightarrow> 'd wgm \<Rightarrow> bool" where
  "is_handshake_established ip m = (case om_get ip (wg_peers m) of None \<Rightarrow> False | Some c \<Rightarrow> handshake_established c)"

definition get_peer_count :: "'d wgm \<Rightarrow> nat" where
  "get_peer_count m = length (wg_peers m)"

section \<open>Sending\<close>

definition wg_send :: "string \<Rightarrow> bytes \<Rightarrow> 'd wgm \<Rightarrow> 'd wgm" where
  "wg_send ip bs m = m\<lparr>sent := sent m @ [(ip, bs)]\<rparr>"

definition start_peer_handshake :: "'d wg_lib \<Rightarrow> string \<Rightarrow> 'd wgm \<Rightarrow> bool \<times> 'd wgm" where
  "start_peer_handshake lib ip m =
     (case om_get ip (wg_peers m) of None \<Rightarrow> (False, m) | Some c \<Rightarrow>
        (if \<not> has_send_cb m then (False, m)
         else case wg_device m of None \<Rightarrow> (False, m) | Some dev \<Rightarrow>
           (case create_initiation lib dev (slot c) of
              (None, dev) \<Rightarrow> (False, m\<lparr>wg_device := Some dev\<rparr>)
            | (Some msg, dev) \<Rightarrow> (True, wg_send ip msg (m\<lparr>wg_device := Some dev\<rparr>)))))"

definition transport_header :: "u32 \<Rightarrow> u64 \<Rightarrow> bytes" where
  "transport_header idx ctr = [0x04, 0, 0, 0] @ put_le32 idx @ put_le64 ctr"

definition padded_len :: "nat \<Rightarrow> nat" where
  "padded_len len = (len + 15) div 16 * 16"

definition pad16 :: "bytes \<Rightarrow> bytes" where
  "pad16 p = p @ replicate (padded_len (length p) - length p) 0"

definition transport_frame :: "'d wg_lib \<Rightarrow> nat \<Rightarrow> bytes \<Rightarrow> 'd \<Rightarrow> bytes \<times> 'd" where
  "transport_frame lib n plain dev =
     (case encrypt_packet lib dev n plain of
        (c, dev') \<Rightarrow> (transport_header (remote_index lib dev n) (sending_counter lib dev n) @ c, dev'))"

definition send_ip_packet :: "'d wg_lib \<Rightarrow> string \<Rightarrow> bytes \<Rightarrow> 'd wgm \<Rightarrow> bool \<times> 'd wgm" where
  "send_ip_packet lib ip p m =
     (case om_get ip (wg_peers m) of None \<Rightarrow> (False, m) | Some c \<Rightarrow>
        (if \<not> handshake_established c then (False, m)
         else if \<not> has_send_cb m then (False, m)
         else if p = [] \<or> length p > MAX_IP_PACKET_SIZE then (False, m)
         else case wg_device m of None \<Rightarrow> (False, m) | Some dev \<Rightarrow>
           (if \<not> curr_valid lib dev (slot c) then (False, m)
            else case transport_frame lib (slot c) (pad16 p) dev of
              (f, dev) \<Rightarrow> (True, wg_send ip f (m\<lparr>wg_device := Some dev\<rparr>)))))"

definition send_peer_keepalive :: "'d wg_lib \<Rightarrow> string \<Rightarrow> 'd wgm \<Rightarrow> bool \<times> 'd wgm" where
  "send_peer_keepalive lib ip m =
     (case om_get ip (wg_peers m) of None \<Rightarrow> (False, m) | Some c \<Rightarrow>
        (if \<not> handshake_established c then (False, m)
         else if \<not> has_send_cb m then (False, m)
         else case wg_device m of None \<Rightarrow> (False, m) | Some dev \<Rightarrow>
           (if \<not> curr_valid lib dev (slot c) then (False, m)
            else case transport_frame lib (slot c) [] dev of
              (f, dev) \<Rightarrow> (True, wg_send ip f (m\<lparr>wg_device := Some dev\<rparr>)))))"

section \<open>Receiving\<close>

text \<open>The address of the first peer, in the map's order, that holds a slot.\<close>

definition peer_of_slot :: "nat \<Rightarrow> 'd wgm \<Rightarrow> string option" where
  "peer_of_slot n m = map_option fst (find (\<lambda>(_, c). slot c = n) (wg_peers m))"

definition set_ctx :: "string \<Rightarrow> (peer_ctx \<Rightarrow> peer_ctx) \<Rightarrow> 'd wgm \<Rightarrow> 'd wgm" where
  "set_ctx ip f m = (case om_get ip (wg_peers m) of None \<Rightarrow> m | Some c \<Rightarrow> m\<lparr>wg_peers := om_put ip (f c) (wg_peers m)\<rparr>)"

definition route_index :: "u32 \<Rightarrow> string \<Rightarrow> 'd wgm \<Rightarrow> 'd wgm" where
  "route_index idx ip m =
     (let m = set_ctx ip (receiver_index_update (\<lambda>_. idx)) m in m\<lparr>receiver_to_peer := om_put idx ip (receiver_to_peer m)\<rparr>)"

definition le32_at :: "nat \<Rightarrow> bytes \<Rightarrow> u32" where
  "le32_at i bs = get_le32 (bs ! i) (bs ! (i + 1)) (bs ! (i + 2)) (bs ! (i + 3))"

text \<open>
  A response with a zero sender index gets a random one, at least 1, written over it:
  \<open>rnd\<close> is what the generator gives.
\<close>

definition fix_sender_index :: "u32 \<Rightarrow> bytes \<Rightarrow> u32 \<times> bytes" where
  "fix_sender_index rnd resp =
     (let i = le32_at 4 resp in
      if i \<noteq> 0 then (i, resp)
      else let j = (if rnd = 0 then 1 else rnd) in (j, take 4 resp @ put_le32 j @ drop 8 resp))"

definition handle_initiation :: "'d wg_lib \<Rightarrow> u32 \<Rightarrow> bytes \<Rightarrow> 'd wgm \<Rightarrow> bool \<times> 'd wgm" where
  "handle_initiation lib rnd msg m =
     (if length msg \<noteq> HANDSHAKE_INIT_SIZE then (False, m)
      else case wg_device m of None \<Rightarrow> (False, m) | Some dev \<Rightarrow>
      (case process_initiation lib dev msg of
         (None, dev) \<Rightarrow> (False, m\<lparr>wg_device := Some dev\<rparr>)
       | (Some n, dev) \<Rightarrow>
      (let m = m\<lparr>wg_device := Some dev\<rparr> in
       case peer_of_slot n m of None \<Rightarrow> (False, m) | Some ip \<Rightarrow>
       (if ip = [] then (False, m)
        else case create_response lib dev n of
          (None, dev) \<Rightarrow> (False, m\<lparr>wg_device := Some dev\<rparr>)
        | (Some resp, dev) \<Rightarrow>
       (let (idx, resp) = fix_sender_index rnd resp;
            m = route_index idx ip (m\<lparr>wg_device := Some dev\<rparr>)
        in if \<not> has_send_cb m then (False, m)
           else let dev = start_session lib n False dev;
                    dev = (if next_valid lib dev n then keypair_update lib n dev else dev);
                    m = set_ctx ip (handshake_established_update (\<lambda>_. True)) (wg_send ip resp (m\<lparr>wg_device := Some dev\<rparr>))
                in (True, snd (send_peer_keepalive lib ip m)))))))"

text \<open>The peers whose handshake is open try a response in turn, until one takes it.\<close>

fun try_response :: "'d wg_lib \<Rightarrow> bytes \<Rightarrow> (string \<times> peer_ctx) list \<Rightarrow> 'd \<Rightarrow> string option \<times> 'd" where
  "try_response lib msg [] dev = (None, dev)"
| "try_response lib msg ((ip, c) # cs) dev =
     (if handshake_established c then try_response lib msg cs dev
      else case process_response lib dev (slot c) msg of
        (True, dev) \<Rightarrow> (Some ip, dev)
      | (False, dev) \<Rightarrow> try_response lib msg cs dev)"

definition handle_response :: "'d wg_lib \<Rightarrow> bytes \<Rightarrow> 'd wgm \<Rightarrow> bool \<times> 'd wgm" where
  "handle_response lib msg m =
     (if length msg \<noteq> HANDSHAKE_RESP_SIZE then (False, m)
      else case wg_device m of None \<Rightarrow> (False, m) | Some dev \<Rightarrow>
      (case try_response lib msg (wg_peers m) dev of
         (None, dev) \<Rightarrow> (False, m\<lparr>wg_device := Some dev\<rparr>)
       | (Some ip, dev) \<Rightarrow>
           (case om_get ip (wg_peers m) of None \<Rightarrow> (False, m\<lparr>wg_device := Some dev\<rparr>) | Some c \<Rightarrow>
           (let m = route_index (le32_at 8 msg) ip (m\<lparr>wg_device := Some (start_session lib (slot c) True dev)\<rparr>);
                m = set_ctx ip (handshake_established_update (\<lambda>_. True)) m
            in (True, snd (send_peer_keepalive lib ip m))))))"

definition handle_transport :: "'d wg_lib \<Rightarrow> bytes \<Rightarrow> 'd wgm \<Rightarrow> bool \<times> 'd wgm" where
  "handle_transport lib msg m =
     (if length msg < TRANSPORT_OVERHEAD then (False, m)
      else let idx = le32_at 4 msg in
      case om_get idx (receiver_to_peer m) of None \<Rightarrow> (False, m) | Some ip \<Rightarrow>
      (case om_get ip (wg_peers m) of None \<Rightarrow> (False, m) | Some c \<Rightarrow>
      (case wg_device m of None \<Rightarrow> (False, m) | Some dev \<Rightarrow>
      (if \<not> curr_valid lib dev (slot c) then (False, m)
       else if idx \<noteq> local_index lib dev (slot c) then (False, m)
       else case decrypt_packet lib dev (slot c) (get_le64 (drop 8 msg)) (drop 16 msg) of
         (None, dev) \<Rightarrow> (False, m\<lparr>wg_device := Some dev\<rparr>)
       | (Some p, dev) \<Rightarrow>
           (True, m\<lparr>wg_device := Some dev,
                    decrypted_out := decrypted_out m @ (if has_decrypt_cb m then [(ip, p)] else [])\<rparr>)))))"

definition receive_wg_packet :: "'d wg_lib \<Rightarrow> u32 \<Rightarrow> bytes \<Rightarrow> 'd wgm \<Rightarrow> bool \<times> 'd wgm" where
  "receive_wg_packet lib rnd p m =
     (case p of [] \<Rightarrow> (False, m)
      | t # _ \<Rightarrow> if t = 0x01 then handle_initiation lib rnd p m
                 else if t = 0x02 then handle_response lib p m
                 else if t = 0x04 then handle_transport lib p m
                 else (False, m))"

end
