(* ===== verification/Packet_Router.thy ===== *)
theory Packet_Router
  imports Disco Stun Tcp_Stack Wg_Manager
begin

text \<open>
  The packet paths of \<^verbatim>\<open>tailscale.cpp\<close>, which join the components: the
  demultiplexer of the shared UDP socket, the handler of relayed packets (without
  \<^verbatim>\<open>USE_WIREGUARD\<close>), the two callbacks of the device manager, the activation of
  peers with its eviction, the buffer of early packets, and the queue from lwIP.

  A callback runs when the manager has finished the operation that calls it: \<open>drain\<close> hands the
  calls it recorded to the callbacks in their order. \<open>world\<close> is what is outside during
  one step: the libraries, the clock, random numbers, whether the socket takes a datagram, the
  stale bytes behind a packet in its buffer, and the uninitialised word an address is read from
  when \<^verbatim>\<open>inet_pton\<close> fails. \<open>derp_out\<close> is what is handed to
  \<^verbatim>\<open>DerpClient::send_packet\<close>, \<open>netif_in\<close> what is handed to lwIP.
\<close>

section \<open>State\<close>

record 'd world =
  w_lib :: "'d wg_lib"
  w_seal :: box_fun
  w_unseal :: box_fun
  w_b64d :: "string \<Rightarrow> bytes"
  w_b64e :: "bytes \<Rightarrow> string"
  w_fill :: "nat \<Rightarrow> nat \<Rightarrow> bytes"
  w_now :: u32
  w_rnd :: u32
  w_udp_ok :: bool
  w_stale :: rxbuf
  w_stack :: bytes
  w_sockets :: "nat \<Rightarrow> socket"

record 'd node =
  manager :: "'d wgm option"
  ds :: disco
  tcp :: tcp_stack
  ip_map :: "(string, nat) omap"
  last_rx_endpoint :: string
  last_rx_port :: u16
  prefer_direct_udp :: bool
  own_endpoint :: string
  derp_ready :: bool
  derp_out :: "(bytes \<times> bytes) list"
  netif_running :: bool
  netif_in :: "bytes list"
  wg_packet_buffer :: "(bytes \<times> u32) list"

definition MAX_ACTIVE_WIREGUARD_PEERS :: nat where "MAX_ACTIVE_WIREGUARD_PEERS = 1"
definition MAX_BUFFERED_PACKETS :: nat where "MAX_BUFFERED_PACKETS = 5"

abbreviation sessions :: "'d node \<Rightarrow> peer_session list" where "sessions n \<equiv> peer_sessions (ds n)"

definition set_session :: "nat \<Rightarrow> peer_session \<Rightarrow> 'd node \<Rightarrow> 'd node" where
  "set_session i s n = n\<lparr>ds := (ds n)\<lparr>peer_sessions := (sessions n)[i := s]\<rparr>\<rparr>"

section \<open>Active peers\<close>

text \<open>
  The active session with the smallest time of activity: the first such, and only one below
  the largest number.
\<close>

fun find_lru :: "peer_session list \<Rightarrow> nat \<Rightarrow> u32 \<Rightarrow> nat option \<Rightarrow> 'd wgm \<Rightarrow> nat option" where
  "find_lru [] i oldest best m = best"
| "find_lru (s # ss) i oldest best m =
     (if get_peer (s_tailscale_ip s) m \<noteq> None \<and> last_wg_activity s < oldest
      then find_lru ss (i + 1) (last_wg_activity s) (Some i) m
      else find_lru ss (i + 1) oldest best m)"

definition find_lru_active_wireguard_peer :: "peer_session list \<Rightarrow> 'd wgm \<Rightarrow> nat option" where
  "find_lru_active_wireguard_peer ss m = find_lru ss 0 0xFFFFFFFF None m"

definition deactivate_peer_wireguard :: "'d wg_lib \<Rightarrow> nat \<Rightarrow> peer_session list \<Rightarrow> 'd wgm \<Rightarrow> 'd wgm" where
  "deactivate_peer_wireguard lib i ss m = (if i \<ge> length ss then m else remove_peer lib (s_tailscale_ip (ss ! i)) m)"

definition activate_peer_wireguard :: "'d wg_lib \<Rightarrow> nat \<Rightarrow> peer_session list \<Rightarrow> 'd wgm \<Rightarrow> bool \<times> 'd wgm" where
  "activate_peer_wireguard lib i ss m =
     (if i \<ge> length ss then (False, m)
      else let s = ss ! i in
        if get_peer (s_tailscale_ip s) m \<noteq> None then (True, m)
        else let m = (if get_peer_count m \<ge> MAX_ACTIVE_WIREGUARD_PEERS
                      then (case find_lru_active_wireguard_peer ss m of None \<Rightarrow> m
                            | Some j \<Rightarrow> deactivate_peer_wireguard lib j ss m)
                      else m)
             in add_peer lib (s_tailscale_ip s) (s_node_key s) None m)"

section \<open>The callbacks of the manager\<close>

text \<open>A handshake response goes to where the last datagram came from, which becomes the direct path.\<close>

definition learn_from_handshake :: "bytes \<Rightarrow> 'd node \<Rightarrow> peer_session \<Rightarrow> peer_session" where
  "learn_from_handshake p n s =
     (if p \<noteq> [] \<and> hd p = 0x02 \<and> last_rx_endpoint n \<noteq> [] \<and> last_rx_port n > 0
         \<and> (s_endpoint s \<noteq> last_rx_endpoint n \<or> s_endpoint_port s \<noteq> last_rx_port n)
      then s\<lparr>s_endpoint := last_rx_endpoint n, s_endpoint_port := last_rx_port n, direct_path_confirmed := True\<rparr> else s)"

definition use_direct :: "'d node \<Rightarrow> peer_session \<Rightarrow> bool" where
  "use_direct n s \<longleftrightarrow> prefer_direct_udp n \<and> direct_path_confirmed s \<and> \<not> derp_fallback_enabled s
     \<and> s_endpoint s \<noteq> [] \<and> s_endpoint_port s > 0 \<and> d_socket_open (ds n)"

definition udp_emit :: "bytes \<Rightarrow> u16 \<Rightarrow> bytes \<Rightarrow> 'd node \<Rightarrow> 'd node" where
  "udp_emit a port p n = n\<lparr>ds := (ds n)\<lparr>udp_out := udp_out (ds n) @ [(a, port, p)]\<rparr>\<rparr>"

definition derp_emit :: "u32 \<Rightarrow> nat \<Rightarrow> bytes \<Rightarrow> 'd node \<Rightarrow> 'd node" where
  "derp_emit now i p n =
     (let s = sessions n ! i in
      (set_session i (s\<lparr>last_wg_activity := now\<rparr>) n)\<lparr>derp_out := derp_out n @ [(s_node_key s, p)]\<rparr>)"

definition wg_transmit :: "'d world \<Rightarrow> nat \<Rightarrow> bytes \<Rightarrow> 'd node \<Rightarrow> 'd node" where
  "wg_transmit w i p n =
     (let s = sessions n ! i in
      if use_direct n s then
        let a = (case pton (s_endpoint s) of Some a \<Rightarrow> a | None \<Rightarrow> w_stack w) in
        if w_udp_ok w then udp_emit a (s_endpoint_port s) p (set_session i (s\<lparr>last_wg_activity := w_now w\<rparr>) n)
        else if derp_ready n then derp_emit (w_now w) i p n else n
      else if derp_ready n then derp_emit (w_now w) i p n
      else n)"

definition wg_send_callback :: "'d world \<Rightarrow> string \<times> bytes \<Rightarrow> 'd node \<Rightarrow> 'd node" where
  "wg_send_callback w = (\<lambda>(ip, p) n.
     case om_get ip (ip_map n) of None \<Rightarrow> n | Some i \<Rightarrow>
       (if i \<ge> length (sessions n) then n
        else let s = learn_from_handshake p n (sessions n ! i); n = set_session i s n in
          case manager n of None \<Rightarrow> n | Some m \<Rightarrow>
            (if get_peer (s_tailscale_ip s) m = None then
               (case activate_peer_wireguard (w_lib w) i (sessions n) m of
                  (ok, m) \<Rightarrow> let n = n\<lparr>manager := Some m\<rparr> in if ok then wg_transmit w i p n else n)
             else wg_transmit w i p n)))"

definition wg_decrypt_callback :: "'d world \<Rightarrow> string \<times> bytes \<Rightarrow> 'd node \<Rightarrow> 'd node" where
  "wg_decrypt_callback w = (\<lambda>(ip, p) n.
     case om_get ip (ip_map n) of None \<Rightarrow> n | Some i \<Rightarrow>
       (if i \<ge> length (sessions n) then n
        else let n = set_session i ((sessions n ! i)\<lparr>last_wg_activity := w_now w\<rparr>) n in
          if netif_running n then n\<lparr>netif_in := netif_in n @ [p]\<rparr> else n))"

definition drain :: "'d world \<Rightarrow> 'd wgm \<Rightarrow> 'd node \<Rightarrow> 'd node" where
  "drain w m n = fold (wg_decrypt_callback w) (decrypted_out m)
     (fold (wg_send_callback w) (sent m) (n\<lparr>manager := Some (m\<lparr>sent := [], decrypted_out := []\<rparr>)\<rparr>))"

section \<open>Datagrams\<close>

text \<open>
  Recovery from a stale session: a handshake is started with the first peer whose endpoint is
  the source written as address, colon and port.
\<close>

definition recover_stale :: "'d world \<Rightarrow> bytes \<Rightarrow> u16 \<Rightarrow> 'd node \<Rightarrow> 'd node" where
  "recover_stale w a port n =
     (case manager n of None \<Rightarrow> n | Some m \<Rightarrow>
       (case find (\<lambda>s. s_endpoint s = ntop a @ '':'' @ show_nat (unat port)) (sessions n) of
          None \<Rightarrow> n
        | Some s \<Rightarrow> drain w (snd (start_peer_handshake (w_lib w) (s_tailscale_ip s) m)) n))"

definition receive_by_manager :: "'d world \<Rightarrow> bytes \<Rightarrow> 'd wgm \<Rightarrow> 'd node \<Rightarrow> bool \<times> 'd node" where
  "receive_by_manager w p m n =
     (case receive_wg_packet (w_lib w) (w_rnd w) p m of (ok, m) \<Rightarrow> (ok, drain w m n))"

definition wg_length_ok :: "bytes \<Rightarrow> bool" where
  "wg_length_ok p \<longleftrightarrow> (p ! 0 = 1 \<and> length p = 148) \<or> (p ! 0 = 2 \<and> length p = 92) \<or> (p ! 0 = 3 \<and> length p = 64)
     \<or> (p ! 0 = 4 \<and> length p \<ge> 32)"

definition wg_packet :: "bytes \<Rightarrow> bool" where
  "wg_packet p \<longleftrightarrow> 1 \<le> p ! 0 \<and> p ! 0 \<le> 4 \<and> length p \<ge> 4 \<and> p ! 1 = 0 \<and> p ! 2 = 0 \<and> p ! 3 = 0 \<and> wg_length_ok p"

definition stun_packet :: "bytes \<Rightarrow> bool" where
  "stun_packet p \<longleftrightarrow> length p \<ge> 20 \<and> (p ! 0 = 0 \<or> p ! 0 = 1) \<and> take 4 (drop 4 p) = [0x21, 0x12, 0xA4, 0x42]"

definition run_disco :: "'d world \<Rightarrow> bytes \<Rightarrow> bytes \<Rightarrow> u16 \<Rightarrow> 'd node \<Rightarrow> 'd node" where
  "run_disco w p a port n =
     n\<lparr>ds := handle_disco_packet (w_seal w) (w_unseal w) (w_b64d w) (w_b64e w) (w_fill w) (w_now w) p a port (ds n)\<rparr>"

definition run_stun :: "'d world \<Rightarrow> bytes \<Rightarrow> bytes \<Rightarrow> u16 \<Rightarrow> 'd node \<Rightarrow> 'd node" where
  "run_stun w p a port n =
     (case handle_stun_packet (d_socket_open (ds n)) (\<lambda>i. if i < length p then p ! i else w_stale w i) (length p) a port (own_endpoint n) of
        (e, rs) \<Rightarrow> fold (udp_emit a port) rs (n\<lparr>own_endpoint := e\<rparr>))"

definition route_wireguard :: "'d world \<Rightarrow> bytes \<Rightarrow> bytes \<Rightarrow> u16 \<Rightarrow> 'd node \<Rightarrow> 'd node" where
  "route_wireguard w p a port n =
     (case manager n of None \<Rightarrow> n | Some m \<Rightarrow>
       (if wg_device m = None then n
        else case receive_by_manager w p m n of
          (True, n) \<Rightarrow> n
        | (False, n) \<Rightarrow> if sessions n \<noteq> [] \<and> p ! 0 = 4 then recover_stale w a port n else n))"

definition route_incoming_packet :: "'d world \<Rightarrow> bytes \<Rightarrow> bytes \<Rightarrow> u16 \<Rightarrow> 'd node \<Rightarrow> 'd node" where
  "route_incoming_packet w p a port n =
     (let n = n\<lparr>last_rx_endpoint := ntop a, last_rx_port := port\<rparr> in
      if p = [] then n
      else if take 6 p = DISCO_MAGIC then run_disco w p a port n
      else if stun_packet p then run_stun w p a port n
      else if wg_packet p then route_wireguard w p a port n
      else n)"

section \<open>Relayed packets\<close>

definition run_tcp :: "'d world \<Rightarrow> bytes \<Rightarrow> 'd node \<Rightarrow> 'd node" where
  "run_tcp w p n =
     (let t = handle_tcp_packet (w_sockets w) (w_rnd w) (w_now w) p
                ((tcp n)\<lparr>ip_to_peer := ip_map n, peer_ips := map s_tailscale_ip (sessions n)\<rparr>)
      in fold (\<lambda>(ip, q) n. case manager n of None \<Rightarrow> n
                 | Some m \<Rightarrow> drain w (snd (send_ip_packet (w_lib w) ip q m)) n)
           (out_packets t) (n\<lparr>tcp := t\<lparr>out_packets := []\<rparr>\<rparr>))"

text \<open>The echo reply: addresses exchanged, the type cleared, and both checksums made again.\<close>

definition zero16 :: "nat \<Rightarrow> bytes \<Rightarrow> bytes" where
  "zero16 i bs = bs[i := 0, i + 1 := 0]"

definition echo_reply :: "bytes \<Rightarrow> bytes" where
  "echo_reply p =
     (let ihl = header_length p;
          r = (take 12 p @ take 4 (drop 16 p) @ take 4 (drop 12 p) @ drop 20 p)[ihl := 0];
          r = zero16 10 r;
          r = put_at 10 (checksum16 (sum16 0 (take ihl r))) r;
          r = zero16 (ihl + 2) r
      in put_at (ihl + 2) (checksum16 (sum16 0 (drop ihl r))) r)"

definition handle_plain_ip :: "'d world \<Rightarrow> bytes \<Rightarrow> bytes \<Rightarrow> 'd node \<Rightarrow> 'd node" where
  "handle_plain_ip w key p n =
     (if length p < 20 then n
      else if drop_bit 4 (p ! 0) \<noteq> 4 then n
      else if p ! 9 = 6 then run_tcp w p n
      else if p ! 9 \<noteq> 1 then n
      else if length p < header_length p + 8 then n
      else if p ! header_length p = 8 \<and> length p \<le> 1500 \<and> derp_ready n
      then n\<lparr>derp_out := derp_out n @ [(key, echo_reply p)]\<rparr>
      else n)"

text \<open>The sender of a relayed WireGuard packet is made active when its node key is known.\<close>

definition activate_sender :: "'d world \<Rightarrow> bytes \<Rightarrow> 'd node \<Rightarrow> 'd node" where
  "activate_sender w key n =
     (let i = length (takeWhile (\<lambda>s. s_node_key s \<noteq> key) (sessions n)) in
      if i \<ge> length (sessions n) then n
      else case manager n of None \<Rightarrow> n | Some m \<Rightarrow>
        (if get_peer (s_tailscale_ip (sessions n ! i)) m = None
         then n\<lparr>manager := Some (snd (activate_peer_wireguard (w_lib w) i (sessions n) m))\<rparr> else n))"

definition buffer_packet :: "u32 \<Rightarrow> bytes \<Rightarrow> 'd node \<Rightarrow> 'd node" where
  "buffer_packet now p n =
     (if length (wg_packet_buffer n) < MAX_BUFFERED_PACKETS \<and> length p \<le> 1500
      then n\<lparr>wg_packet_buffer := wg_packet_buffer n @ [(p, now)]\<rparr> else n)"

definition handle_derp_packet :: "'d world \<Rightarrow> bytes \<Rightarrow> bytes \<Rightarrow> 'd node \<Rightarrow> 'd node" where
  "handle_derp_packet w key p n =
     (if p \<noteq> [] \<and> 1 \<le> p ! 0 \<and> p ! 0 \<le> 4 then
        (let n = activate_sender w key n in
         case manager n of
           Some m \<Rightarrow> if wg_device m \<noteq> None then snd (receive_by_manager w p m n)
                     else if sessions n = [] then buffer_packet (w_now w) p n else n
         | None \<Rightarrow> if sessions n = [] then buffer_packet (w_now w) p n else n)
      else if length p \<ge> 6 \<and> take 4 p = [0x54, 0x53, 0xf0, 0x9f] then run_disco w p (take 4 key) 41641 n
      else handle_plain_ip w key p n)"

section \<open>The main loop's queues\<close>

text \<open>Packets of the last five seconds go to the manager, when there is one; the buffer is emptied.\<close>

definition process_buffered_wg_packets :: "'d world \<Rightarrow> 'd node \<Rightarrow> 'd node" where
  "process_buffered_wg_packets w n =
     (fold (\<lambda>(p, t) n. if w_now w - t > 5000 then n
              else case manager n of None \<Rightarrow> n
                | Some m \<Rightarrow> if wg_device m = None then n else snd (receive_by_manager w p m n))
        (wg_packet_buffer n) n)\<lparr>wg_packet_buffer := []\<rparr>"

definition process_tx_queue :: "'d world \<Rightarrow> (bytes \<times> u32) list \<Rightarrow> 'd node \<Rightarrow> 'd node" where
  "process_tx_queue w q n =
     fold (\<lambda>(p, dst) n. case manager n of None \<Rightarrow> n
             | Some m \<Rightarrow> drain w (snd (send_ip_packet (w_lib w) (dotted_ip (htonl dst)) p m)) n) q n"

section \<open>Start of the sessions\<close>

text \<open>
  The sessions are made anew from the configuration, on a new manager, and the first is
  activated; the flag is false on the way to the error state. Early packets are then processed.
\<close>

definition wgm_new :: "'d wgm" where
  "wgm_new = \<lparr>wg_device = None, our_private = [], wg_peers = [], receiver_to_peer = [], has_send_cb = False,
     has_decrypt_cb = False, sent = [], decrypted_out = []\<rparr>"

definition activate_first :: "'d wg_lib \<Rightarrow> peer_session list \<Rightarrow> 'd wgm \<Rightarrow> 'd wgm" where
  "activate_first lib ss m =
     fold (\<lambda>i m. snd (activate_peer_wireguard lib i ss m)) [0..<min (length ss) MAX_ACTIVE_WIREGUARD_PEERS] m"

definition init_sessions :: "'d world \<Rightarrow> string \<Rightarrow> 'd node \<Rightarrow> bool \<times> 'd node" where
  "init_sessions w priv n =
     (if cfg_peers (ds n) = [] then (True, n)
      else if length (w_b64d w priv) \<noteq> 32 then (False, n)
      else let n = n\<lparr>ds := (ds n)\<lparr>peer_sessions := []\<rparr>, ip_map := []\<rparr> in
        case wg_init (w_lib w) (w_b64d w priv) wgm_new of
          (False, m) \<Rightarrow> (False, n\<lparr>manager := Some m\<rparr>)
        | (True, m) \<Rightarrow>
          (let (ss, ips) = build_sessions (cfg_peers (ds n));
               m = activate_first (w_lib w) ss (m\<lparr>has_send_cb := True, has_decrypt_cb := True\<rparr>)
           in (True, process_buffered_wg_packets w
                       (n\<lparr>ds := (ds n)\<lparr>peer_sessions := ss\<rparr>, ip_map := ips, manager := Some m\<rparr>))))"

end
