(* ===== verification/Wg_Delivery.thy ===== *)
theory Wg_Delivery
  imports Wg_Manager
begin

text \<open>
  Correctness of \<open>Wg_Manager\<close>: what one manager sends the other delivers, nothing is delivered
  off its route, the manager's maps stay well formed, and a response to a second handshake is
  never taken.
\<close>

section \<open>Wire fields\<close>

lemma le64_lane:
  fixes v :: u64
  shows "foldr (\<lambda>b w. ucast b OR push_bit 8 w) (map (\<lambda>i. ucast (drop_bit (8 * i) v) :: u8) [k..<k + n]) 0
    = take_bit (8 * n) (drop_bit (8 * k) v)"
proof (induction n arbitrary: k)
  case (Suc n)
  have u: "[k..<k + Suc n] = k # [Suc k..<Suc k + n]" by (simp add: upt_rec)
  have "ucast (ucast (drop_bit (8 * k) v) :: u8) OR push_bit 8 (take_bit (8 * n) (drop_bit (8 * Suc k) v))
      = take_bit (8 * Suc n) (drop_bit (8 * k) v)" (is "?l = ?r")
  proof (rule bit_word_eqI)
    fix i assume i: "i < LENGTH(64)"
    show "bit ?l i = bit ?r i"
    proof (cases "i < 8")
      case True
      then show ?thesis using i by (auto simp: bit_simps)
    next
      case False
      then obtain j where "i = 8 + j" by (metis le_add_diff_inverse not_less)
      then show ?thesis using i by (auto simp: bit_simps algebra_simps)
    qed
  qed
  then show ?case using Suc [of "Suc k"] by (simp only: u list.map foldr_Cons o_apply)
qed simp

lemma get_put_le64 [codec_simps]: "get_le64 (put_le64 v @ r) = v"
proof -
  have "length (put_le64 v) = 8" by (simp add: put_le64_def)
  then have "get_le64 (put_le64 v @ r) = take_bit 64 v"
    using le64_lane [of v 0 8] by (simp add: get_le64_def put_le64_def)
  then show ?thesis by (simp add: take_bit_word_eq_self)
qed

lemma length_put_le64 [simp]: "length (put_le64 v) = 8"
  by (simp add: put_le64_def)

lemma length_transport_header [simp]: "length (transport_header i c) = 16"
  by (simp add: transport_header_def)

lemma transport_header_fields:
  "le32_at 4 (transport_header i c @ r) = i" "get_le64 (drop 8 (transport_header i c @ r)) = c"
  "drop 16 (transport_header i c @ r) = r"
  "get_le64 (drop 8 (transport_header i c) @ r) = c"
  by (simp_all add: transport_header_def le32_at_def put_le32_def codec_simps)

lemma receive_transport:
  "receive_wg_packet lib rnd (transport_header i c @ r) m = handle_transport lib (transport_header i c @ r) m"
  by (simp add: transport_header_def receive_wg_packet_def)

lemma padded_len_bounds: "n \<le> padded_len n" "padded_len n < n + 16" "16 dvd padded_len n"
  unfolding padded_len_def by simp_all

lemma length_pad16 [simp]: "length (pad16 p) = padded_len (length p)"
  using padded_len_bounds(1) [of "length p"] by (simp add: pad16_def)

section \<open>Delivery\<close>

lemma send_ip_packet_ok:
  assumes "om_get ip (wg_peers m) = Some c" "handshake_established c" "has_send_cb m" "p \<noteq> []" "length p \<le> 1420"
    and "wg_device m = Some dev" "curr_valid lib dev (slot c)"
  shows "send_ip_packet lib ip p m = (True, wg_send ip (fst (transport_frame lib (slot c) (pad16 p) dev))
      (m\<lparr>wg_device := Some (snd (transport_frame lib (slot c) (pad16 p) dev))\<rparr>))"
  using assms by (simp add: send_ip_packet_def MAX_IP_PACKET_SIZE_def split: prod.splits)

lemma receive_frame:
  assumes "om_get idx (receiver_to_peer m) = Some ip" "om_get ip (wg_peers m) = Some c" "wg_device m = Some dev"
    and "curr_valid lib dev (slot c)" "has_decrypt_cb m" "local_index lib dev (slot c) = idx"
    and "decrypt_packet lib dev (slot c) ctr ct = (Some pt, dev')" "16 \<le> length ct"
  shows "receive_wg_packet lib rnd (transport_header idx ctr @ ct) m
    = (True, m\<lparr>wg_device := Some dev', decrypted_out := decrypted_out m @ [(ip, pt)]\<rparr>)"
  unfolding receive_transport using assms
  by (simp add: handle_transport_def transport_header_fields TRANSPORT_OVERHEAD_def Let_def del: append_assoc)

text \<open>
  An IP packet sent to a peer reaches the peer's application: the frame that one manager
  hands to its send callback makes the other call its decrypt callback once, for the right peer,
  with the packet padded by zeros to a multiple of sixteen. The two libraries share a session:
  the sender's remote index is the receiver's local one, and decryption inverts encryption.
\<close>

lemma tunnel_delivers:
  assumes "om_get ip2 (wg_peers m1) = Some c1" "handshake_established c1" "has_send_cb m1"
    and "wg_device m1 = Some dev1" "curr_valid lib dev1 (slot c1)" "p \<noteq> []" "length p \<le> 1420"
    and "om_get (remote_index lib dev1 (slot c1)) (receiver_to_peer m2) = Some ip1"
    and "om_get ip1 (wg_peers m2) = Some c2" "wg_device m2 = Some dev2" "curr_valid lib dev2 (slot c2)" "has_decrypt_cb m2"
    and "local_index lib dev2 (slot c2) = remote_index lib dev1 (slot c1)"
    and "\<And>pt. fst (decrypt_packet lib dev2 (slot c2) (sending_counter lib dev1 (slot c1)) (fst (encrypt_packet lib dev1 (slot c1) pt))) = Some pt"
    and "\<And>pt. length (fst (encrypt_packet lib dev1 (slot c1) pt)) = length pt + 16"
  shows "\<exists>f. fst (send_ip_packet lib ip2 p m1) \<and> sent (snd (send_ip_packet lib ip2 p m1)) = sent m1 @ [(ip2, f)]
    \<and> fst (receive_wg_packet lib rnd f m2)
    \<and> decrypted_out (snd (receive_wg_packet lib rnd f m2)) = decrypted_out m2 @ [(ip1, p @ replicate (padded_len (length p) - length p) 0)]"
proof -
  let ?n = "slot c1"
  obtain ct dev1' where ct: "encrypt_packet lib dev1 ?n (pad16 p) = (ct, dev1')" by fastforce
  let ?f = "transport_header (remote_index lib dev1 ?n) (sending_counter lib dev1 ?n) @ ct"
  have f: "transport_frame lib ?n (pad16 p) dev1 = (?f, dev1')" by (simp add: transport_frame_def ct)
  have l: "length ct = padded_len (length p) + 16" using assms(15) [of "pad16 p"] ct by simp
  obtain dev2' where d: "decrypt_packet lib dev2 (slot c2) (sending_counter lib dev1 ?n) ct = (Some (pad16 p), dev2')"
    using assms(14) [of "pad16 p"] ct by (metis fst_conv prod.collapse)
  have "receive_wg_packet lib rnd ?f m2 = (True, m2\<lparr>wg_device := Some dev2', decrypted_out := decrypted_out m2 @ [(ip1, pad16 p)]\<rparr>)"
    using assms(8-13) d l by (intro receive_frame) simp_all
  then show ?thesis
    using send_ip_packet_ok [OF assms(1-3,6,7,4,5)] f by (intro exI [of _ ?f]) (simp add: wg_send_def pad16_def)
qed

lemma try_response_established:
  "list_all (\<lambda>(_, c). handshake_established c) cs \<Longrightarrow> try_response lib msg cs dev = (None, dev)"
  by (induction cs) auto

text \<open>
  A response that arrives while every peer's handshake counts as established is dropped: so
  the handshake that recovery from a stale session starts is never completed.
\<close>

lemma recovery_response_dropped:
  assumes "list_all (\<lambda>(_, c). handshake_established c) (wg_peers m)" "start_peer_handshake lib ip m = (True, m')"
    and "resp \<noteq> []" "hd resp = 0x02"
  shows "fst (receive_wg_packet lib rnd resp m') = False \<and> wg_peers (snd (receive_wg_packet lib rnd resp m')) = wg_peers m
    \<and> wg_device (snd (receive_wg_packet lib rnd resp m')) = wg_device m'"
proof -
  have p: "wg_peers m' = wg_peers m"
    using assms(2) by (auto simp: start_peer_handshake_def wg_send_def split: option.splits if_splits prod.splits)
  obtain r where r: "resp = 0x02 # r" using assms(3,4) by (cases resp) auto
  show ?thesis using assms(1) p
    by (auto simp: r receive_wg_packet_def handle_response_def try_response_established split: option.splits)
qed

section \<open>A library with one slot and a cipher that appends the tag\<close>

definition toy_lib :: "nat wg_lib" where
  "toy_lib = \<lparr>device_init = (\<lambda>_. Some 0), slot_alloc = (\<lambda>d. if d < 1 then Some (d, d + 1) else None),
     slot_init = (\<lambda>d n key psk. (True, d)), slot_free = (\<lambda>_ _. 0), create_initiation = (\<lambda>d n. (Some (1 # replicate 147 0), d)),
     process_initiation = (\<lambda>d _. (Some 0, d)), create_response = (\<lambda>d n. (Some (2 # replicate 91 0), d)),
     process_response = (\<lambda>d n _. (True, d)), start_session = (\<lambda>_ _ d. d), next_valid = (\<lambda>_ _. False), keypair_update = (\<lambda>_ d. d),
     curr_valid = (\<lambda>_ _. True), local_index = (\<lambda>_ _. 7), remote_index = (\<lambda>_ _. 7), sending_counter = (\<lambda>_ _. 3),
     encrypt_packet = (\<lambda>d n pt. (pt @ replicate 16 9, d)), decrypt_packet = (\<lambda>d n _ c. (Some (take (length c - 16) c), d))\<rparr>"

lemma toy_lib_sel [simp]:
  "curr_valid toy_lib d n" "local_index toy_lib d n = 7" "remote_index toy_lib d n = 7" "sending_counter toy_lib d n = 3"
  "encrypt_packet toy_lib d n pt = (pt @ replicate 16 9, d)" "decrypt_packet toy_lib d n k c = (Some (take (length c - 16) c), d)"
  "create_initiation toy_lib d n = (Some (1 # replicate 147 0), d)" "process_response toy_lib d n r = (True, d)"
  "slot_alloc toy_lib d = (if d < 1 then Some (d, d + 1) else None)" "slot_init toy_lib d n key psk = (True, d)"
  "slot_free toy_lib n d = 0" "device_init toy_lib key = Some 0"
  by (simp_all add: toy_lib_def)

text \<open>A manager with one peer, whose session is established on receiver index 7.\<close>

definition linked :: "string \<Rightarrow> nat wgm" where
  "linked ip = \<lparr>wg_device = Some 1, our_private = [], wg_peers = [(ip, \<lparr>slot = 0, ctx_ip = ip, receiver_index = 7, handshake_established = True\<rparr>)],
     receiver_to_peer = [(7, ip)], has_send_cb = True, has_decrypt_cb = True, sent = [], decrypted_out = []\<rparr>"

lemma tunnel_delivers_witness:
  "\<exists>f. fst (send_ip_packet toy_lib ''100.64.0.2'' [1, 2, 3] (linked ''100.64.0.2'')) \<and>
    sent (snd (send_ip_packet toy_lib ''100.64.0.2'' [1, 2, 3] (linked ''100.64.0.2''))) = [] @ [(''100.64.0.2'', f)]
    \<and> fst (receive_wg_packet toy_lib 5 f (linked ''100.64.0.1''))
    \<and> decrypted_out (snd (receive_wg_packet toy_lib 5 f (linked ''100.64.0.1''))) =
        [] @ [(''100.64.0.1'', [1, 2, 3] @ replicate (padded_len (length [1, 2, 3 :: u8]) - length [1, 2, 3 :: u8]) 0)]"
  using tunnel_delivers [of "''100.64.0.2''" "linked ''100.64.0.2''" _ 1 toy_lib "[1, 2, 3]" "linked ''100.64.0.1''" "''100.64.0.1''" _ 1 5]
  by (simp add: linked_def om_get_def)

lemma recovery_response_dropped_witness:
  "fst (receive_wg_packet toy_lib 5 (2 # replicate 91 0) (snd (start_peer_handshake toy_lib ''100.64.0.2'' (linked ''100.64.0.2'')))) = False"
  using recovery_response_dropped [of "linked ''100.64.0.2''" toy_lib "''100.64.0.2''"
      "snd (start_peer_handshake toy_lib ''100.64.0.2'' (linked ''100.64.0.2''))" "2 # replicate 91 0" 5]
  by (simp add: linked_def om_get_def start_peer_handshake_def)

section \<open>Routing\<close>

text \<open>
  C29. Nothing reaches the application that its route did not bring: when a packet adds a call of
  the decrypt callback, it is a transport packet of at least 32 bytes, the address it is
  delivered for is the one its receiver index maps to, the index is that peer's own current one,
  and the bytes are what the library decrypted with that peer's keys.
\<close>

theorem delivery_is_routed:
  assumes "decrypted_out (snd (receive_wg_packet lib rnd p m)) \<noteq> decrypted_out m"
  shows "\<exists>ip c dev plain. hd p = 0x04 \<and> 32 \<le> length p \<and> om_get (le32_at 4 p) (receiver_to_peer m) = Some ip
    \<and> om_get ip (wg_peers m) = Some c \<and> wg_device m = Some dev \<and> curr_valid lib dev (slot c)
    \<and> local_index lib dev (slot c) = le32_at 4 p
    \<and> fst (decrypt_packet lib dev (slot c) (get_le64 (drop 8 p)) (drop 16 p)) = Some plain
    \<and> decrypted_out (snd (receive_wg_packet lib rnd p m)) = decrypted_out m @ [(ip, plain)]"
proof -
  have k: "decrypted_out (snd (send_peer_keepalive lib ip m)) = decrypted_out m" for ip and m :: "'a wgm"
    by (auto simp: send_peer_keepalive_def wg_send_def split: option.splits prod.splits)
  have s: "decrypted_out (set_ctx ip f m) = decrypted_out m" for ip f and m :: "'a wgm"
    by (simp add: set_ctx_def split: option.splits)
  have r: "decrypted_out (route_index i ip m) = decrypted_out m" for i ip and m :: "'a wgm"
    by (simp add: route_index_def Let_def s)
  have i: "decrypted_out (snd (handle_initiation lib rnd p m)) = decrypted_out m"
    by (auto simp: handle_initiation_def Let_def wg_send_def k s r split: option.splits prod.splits)
  have h: "decrypted_out (snd (handle_response lib p m)) = decrypted_out m"
    by (auto simp: handle_response_def Let_def k s r split: option.splits prod.splits)
  have t: "hd p = 0x04" "receive_wg_packet lib rnd p m = handle_transport lib p m"
    using assms i h by (auto simp: receive_wg_packet_def split: list.splits if_splits)
  then have "decrypted_out (snd (handle_transport lib p m)) \<noteq> decrypted_out m" using assms by simp
  then show ?thesis unfolding t(2) using t(1)
    by (auto simp: handle_transport_def TRANSPORT_OVERHEAD_def Let_def not_less split: option.splits if_splits prod.splits)
qed

theorem delivery_is_routed_witness:
  "\<exists>ip c dev plain. hd (transport_header 7 3 @ replicate 32 1) = 0x04 \<and> 32 \<le> length (transport_header 7 3 @ replicate 32 1)
    \<and> om_get (le32_at 4 (transport_header 7 3 @ replicate 32 1)) (receiver_to_peer (linked ''a'')) = Some ip
    \<and> om_get ip (wg_peers (linked ''a'')) = Some c \<and> wg_device (linked ''a'') = Some dev \<and> curr_valid toy_lib dev (slot c)
    \<and> local_index toy_lib dev (slot c) = le32_at 4 (transport_header 7 3 @ replicate 32 1)
    \<and> fst (decrypt_packet toy_lib dev (slot c) (get_le64 (drop 8 (transport_header 7 3 @ replicate 32 1)))
        (drop 16 (transport_header 7 3 @ replicate 32 1))) = Some plain
    \<and> decrypted_out (snd (receive_wg_packet toy_lib 5 (transport_header 7 3 @ replicate 32 1) (linked ''a''))) =
        decrypted_out (linked ''a'') @ [(ip, plain)]"
proof (rule delivery_is_routed)
  show "decrypted_out (snd (receive_wg_packet toy_lib 5 (transport_header 7 3 @ replicate 32 1) (linked ''a'')))
      \<noteq> decrypted_out (linked ''a'')"
    unfolding receive_transport
    by (simp add: handle_transport_def transport_header_fields linked_def om_get_def TRANSPORT_OVERHEAD_def)
qed

section \<open>The maps\<close>

text \<open>Both maps are ordered, an entry carries its own address, and peers exist only on a device.\<close>

definition wgm_ok :: "'d wgm \<Rightarrow> bool" where
  "wgm_ok m \<longleftrightarrow> om_wf (wg_peers m) \<and> om_wf (receiver_to_peer m) \<and> list_all (\<lambda>(ip, c). ctx_ip c = ip) (wg_peers m)
     \<and> (wg_device m = None \<longrightarrow> wg_peers m = [])"

datatype wg_op = Init bytes | Add string bytes "bytes option" | Remove string | Start string
  | Send string bytes | Keepalive string | Receive u32 bytes

fun wg_step :: "'d wg_lib \<Rightarrow> wg_op \<Rightarrow> 'd wgm \<Rightarrow> 'd wgm" where
  "wg_step lib (Init key) m = snd (wg_init lib key m)"
| "wg_step lib (Add ip key psk) m = snd (add_peer lib ip key psk m)"
| "wg_step lib (Remove ip) m = remove_peer lib ip m"
| "wg_step lib (Start ip) m = snd (start_peer_handshake lib ip m)"
| "wg_step lib (Send ip p) m = snd (send_ip_packet lib ip p m)"
| "wg_step lib (Keepalive ip) m = snd (send_peer_keepalive lib ip m)"
| "wg_step lib (Receive rnd p) m = snd (receive_wg_packet lib rnd p m)"

lemma all_om_put: "list_all P m \<Longrightarrow> P (k, v) \<Longrightarrow> list_all P (om_put k v m)"
  by (induction k v m rule: om_put.induct) auto

lemma all_om_get: "list_all P m \<Longrightarrow> om_get k m = Some v \<Longrightarrow> P (k, v)"
  by (auto simp: om_get_def list_all_iff dest: map_of_SomeD)

lemma all_om_del: "list_all P m \<Longrightarrow> list_all P (om_del k m)"
  by (auto simp: om_del_def list_all_iff)

lemma om_put_not_Nil [simp]: "om_put k v m \<noteq> []"
  by (induction k v m rule: om_put.induct) auto

lemma wgm_ok_set_ctx [inv_intros]:
  assumes "wgm_ok m" "\<And>c. ctx_ip (f c) = ctx_ip c"
  shows "wgm_ok (set_ctx ip f m)"
  using assms by (auto simp: wgm_ok_def set_ctx_def om_wf_put om_get_def split: option.splits
      intro!: all_om_put dest: all_om_get [unfolded om_get_def])

lemma wgm_ok_route [inv_intros]: "wgm_ok m \<Longrightarrow> wgm_ok (route_index i ip m)"
proof -
  assume "wgm_ok m"
  then have "wgm_ok (set_ctx ip (receiver_index_update (\<lambda>_. i)) m)" by (rule wgm_ok_set_ctx) simp
  then show ?thesis by (simp add: route_index_def Let_def wgm_ok_def om_wf_put)
qed

lemma wgm_ok_dev [inv_intros]: "wgm_ok m \<Longrightarrow> wgm_ok (m\<lparr>wg_device := Some d\<rparr>)"
  by (simp add: wgm_ok_def)

lemma wgm_ok_out [inv_intros]: "wgm_ok m \<Longrightarrow> wgm_ok (wg_send ip f m)" "wgm_ok m \<Longrightarrow> wgm_ok (m\<lparr>decrypted_out := x\<rparr>)"
  by (simp_all add: wgm_ok_def wg_send_def)

lemma wgm_ok_keepalive [inv_intros]: "wgm_ok m \<Longrightarrow> wgm_ok (snd (send_peer_keepalive lib ip m))"
  by (auto simp: send_peer_keepalive_def split: option.splits prod.splits intro!: inv_intros)

lemma wgm_ok_initiation: "wgm_ok m \<Longrightarrow> wgm_ok (snd (handle_initiation lib rnd p m))"
  by (auto simp: handle_initiation_def Let_def split: option.splits prod.splits intro!: inv_intros)

lemma wgm_ok_response: "wgm_ok m \<Longrightarrow> wgm_ok (snd (handle_response lib p m))"
  by (auto simp: handle_response_def Let_def split: option.splits prod.splits intro!: inv_intros)

lemma wgm_ok_transport: "wgm_ok m \<Longrightarrow> wgm_ok (snd (handle_transport lib p m))"
  by (auto simp: handle_transport_def Let_def split: option.splits prod.splits intro!: inv_intros)

lemma wgm_ok_add: "wgm_ok m \<Longrightarrow> wgm_ok (snd (add_peer lib ip key psk m))"
  by (auto simp: add_peer_def wgm_ok_def om_wf_put split: option.splits prod.splits bool.splits intro!: all_om_put)

lemma wgm_ok_remove: "wgm_ok m \<Longrightarrow> wgm_ok (remove_peer lib ip m)"
  by (auto simp: remove_peer_def wgm_ok_def om_wf_del om_get_def split: option.splits intro!: all_om_del)

lemma wgm_ok_init: "wgm_ok m \<Longrightarrow> wgm_ok (snd (wg_init lib key m))"
  by (auto simp: wg_init_def wgm_ok_def Let_def split: option.splits)

lemma wgm_ok_step: "wgm_ok m \<Longrightarrow> wgm_ok (wg_step lib op m)"
  by (cases op)
     (auto simp: wgm_ok_init wgm_ok_add wgm_ok_remove wgm_ok_keepalive receive_wg_packet_def wgm_ok_initiation
        wgm_ok_response wgm_ok_transport start_peer_handshake_def send_ip_packet_def
      split: option.splits prod.splits list.splits intro!: inv_intros)

interpretation wgs: machine "wg_step lib" wgm_ok for lib
  by unfold_locales (rule wgm_ok_step)

definition wg_new :: "'d wgm" where
  "wg_new = \<lparr>wg_device = None, our_private = [], wg_peers = [], receiver_to_peer = [], has_send_cb = True,
     has_decrypt_cb = True, sent = [], decrypted_out = []\<rparr>"

text \<open>
  Over any sequence of the manager's operations, whatever the library answers, both maps stay
  ordered with one entry per key, an entry carries the address it is filed under, and there
  are peers only on a device.
\<close>

lemma manager_maps_ok: "wgm_ok (fold (wg_step lib) ops wg_new)"
  by (rule wgs.run_inv) (simp add: wgm_ok_def wg_new_def om_wf_def)

end
