(* ===== verification/Router_State.thy ===== *)
theory Router_State
  imports Packet_Router Wg_Delivery
begin

text \<open>
  The state of \<open>Packet_Router\<close>: at most one peer is active, active peers have sessions, the address
  map points to them, and the buffer of early packets is bounded, over any sequence of
  datagrams, relayed packets, queue runs and new configurations.
\<close>

section \<open>The manager\<close>

text \<open>At most one peer, and only with an address among \<open>ips\<close>.\<close>

definition mgr_ok :: "string list \<Rightarrow> 'd wgm \<Rightarrow> bool" where
  "mgr_ok ips m \<longleftrightarrow> wgm_ok m \<and> length (wg_peers m) \<le> MAX_ACTIVE_WIREGUARD_PEERS \<and> list_all (\<lambda>(ip, _). ip \<in> set ips) (wg_peers m)"

abbreviation mgr_keys :: "'d wgm \<Rightarrow> string list" where "mgr_keys m \<equiv> map fst (wg_peers m)"

lemma mgr_ok_keys: "mgr_ok ips m \<longleftrightarrow> wgm_ok m \<and> length (mgr_keys m) \<le> 1 \<and> set (mgr_keys m) \<subseteq> set ips"
  by (auto simp: mgr_ok_def MAX_ACTIVE_WIREGUARD_PEERS_def list_all_iff)

lemma keys_om_put: "om_wf m \<Longrightarrow> om_get k m \<noteq> None \<Longrightarrow> map fst (om_put k v m) = map fst m"
proof (induction k v m rule: om_put.induct)
  case (2 k v j w m)
  have "\<not> k < j" if "k \<noteq> j"
  proof
    assume "k < j"
    then have "k \<notin> fst ` set m" using "2.prems"(1) by (auto simp: om_wf_def)
    then show False using "2.prems"(2) that by (auto simp: om_get_def map_of_eq_None_iff)
  qed
  then show ?case using 2 by (auto simp: om_get_def om_wf_def)
qed (simp add: om_get_def)

lemma keys_set_ctx: "om_wf (wg_peers m) \<Longrightarrow> mgr_keys (set_ctx ip f m) = mgr_keys m"
  by (auto simp: set_ctx_def keys_om_put split: option.splits)

lemma keys_route: "om_wf (wg_peers m) \<Longrightarrow> mgr_keys (route_index i ip m) = mgr_keys m"
  by (simp add: route_index_def Let_def keys_set_ctx)

lemma keys_keepalive: "mgr_keys (snd (send_peer_keepalive lib ip m)) = mgr_keys m"
  by (auto simp: send_peer_keepalive_def wg_send_def split: option.splits prod.splits)

lemma wgm_ok_wf: "wgm_ok m \<Longrightarrow> om_wf (wg_peers m)"
  by (simp add: wgm_ok_def)

lemma keys_send [simp]: "wg_peers (wg_send ip p m) = wg_peers m"
  by (simp add: wg_send_def)

lemma wf_route: "om_wf (wg_peers m) \<Longrightarrow> om_wf (wg_peers (route_index i ip m))"
  by (auto simp: route_index_def Let_def set_ctx_def om_wf_put split: option.splits)

lemmas keys_simps = keys_keepalive keys_set_ctx keys_route wf_route

lemma keys_receive: "wgm_ok m \<Longrightarrow> mgr_keys (snd (receive_wg_packet lib rnd p m)) = mgr_keys m"
proof -
  assume ok: "wgm_ok m"
  note wf = wgm_ok_wf [OF ok]
  have "mgr_keys (snd (handle_initiation lib rnd p m)) = mgr_keys m"
    using wf by (auto simp: handle_initiation_def Let_def keys_simps split: option.splits prod.splits)
  moreover have "mgr_keys (snd (handle_response lib p m)) = mgr_keys m"
    using wf by (auto simp: handle_response_def Let_def keys_simps split: option.splits prod.splits)
  moreover have "mgr_keys (snd (handle_transport lib p m)) = mgr_keys m"
    by (auto simp: handle_transport_def Let_def split: option.splits prod.splits)
  ultimately show ?thesis by (simp add: receive_wg_packet_def split: list.splits)
qed

lemma mgr_ok_receive: "mgr_ok ips m \<Longrightarrow> mgr_ok ips (snd (receive_wg_packet lib rnd p m))"
  using wgm_ok_step [of m lib "Receive rnd p"] by (simp add: mgr_ok_keys keys_receive)

lemma mgr_ok_start: "mgr_ok ips m \<Longrightarrow> mgr_ok ips (snd (start_peer_handshake lib ip m))"
  using wgm_ok_step [of m lib "Start ip"]
  by (auto simp: mgr_ok_keys start_peer_handshake_def split: option.splits prod.splits)

lemma mgr_ok_send: "mgr_ok ips m \<Longrightarrow> mgr_ok ips (snd (send_ip_packet lib ip p m))"
  using wgm_ok_step [of m lib "Send ip p"]
  by (auto simp: mgr_ok_keys send_ip_packet_def split: option.splits prod.splits)

lemma mgr_ok_out [simp]:
  "mgr_ok ips (m\<lparr>sent := a, decrypted_out := b\<rparr>) = mgr_ok ips m" "mgr_ok ips (m\<lparr>has_send_cb := x, has_decrypt_cb := y\<rparr>) = mgr_ok ips m"
  by (simp_all add: mgr_ok_def wgm_ok_def)

section \<open>Eviction\<close>

abbreviation active :: "'d wgm \<Rightarrow> peer_session \<Rightarrow> bool" where "active m s \<equiv> get_peer (s_tailscale_ip s) m \<noteq> None"

text \<open>The peer found is active and has the smallest time of activity among the active ones.\<close>

definition least_active :: "'d wgm \<Rightarrow> peer_session list \<Rightarrow> u32 \<Rightarrow> bool" where
  "least_active m ss t \<longleftrightarrow> list_all (\<lambda>s. active m s \<longrightarrow> t \<le> last_wg_activity s) ss"

lemma find_lru_some:
  "find_lru ss i oldest best m = Some j \<Longrightarrow>
    best = Some j \<and> least_active m ss oldest
    \<or> (\<exists>k < length ss. j = i + k \<and> active m (ss ! k) \<and> last_wg_activity (ss ! k) < oldest
         \<and> least_active m ss (last_wg_activity (ss ! k)))"
proof (induction ss i oldest best m rule: find_lru.induct)
  case (2 s ss i oldest best m)
  let ?hit = "active m s \<and> last_wg_activity s < oldest"
  have skip: "least_active m (s # ss) t" if "least_active m ss t" "active m s \<Longrightarrow> t \<le> last_wg_activity s" for t
    using that by (simp add: least_active_def)
  have later: "\<exists>k < length (s # ss). j = i + k \<and> active m ((s # ss) ! k) \<and> last_wg_activity ((s # ss) ! k) < oldest
      \<and> least_active m (s # ss) (last_wg_activity ((s # ss) ! k))"
    if "k < length ss" "j = i + 1 + k" "active m (ss ! k)" "last_wg_activity (ss ! k) < oldest"
      "least_active m ss (last_wg_activity (ss ! k))" "active m s \<Longrightarrow> last_wg_activity (ss ! k) \<le> last_wg_activity s" for k
    using that by (intro exI [of _ "Suc k"]) (simp add: skip del: not_None_eq)
  show ?case
  proof (cases ?hit)
    case True
    then have f: "find_lru ss (i + 1) (last_wg_activity s) (Some i) m = Some j" using "2.prems" by (simp del: not_None_eq)
    from "2.IH"(1) [OF True f] show ?thesis
    proof (elim disjE exE conjE)
      assume "Some i = Some j" "least_active m ss (last_wg_activity s)"
      then show ?thesis using True by (intro disjI2 exI [of _ 0]) (simp add: skip del: not_None_eq)
    next
      fix k assume k: "k < length ss" "j = i + 1 + k" "active m (ss ! k)" "last_wg_activity (ss ! k) < last_wg_activity s"
        "least_active m ss (last_wg_activity (ss ! k))"
      then show ?thesis using True
        by (intro disjI2 later [of k]) (auto intro: order.strict_trans order.strict_implies_order)
    qed
  next
    case False
    then have f: "find_lru ss (i + 1) oldest best m = Some j" using "2.prems" by (auto simp del: not_None_eq)
    have out: "oldest \<le> last_wg_activity s" if "active m s" using False that by (simp add: not_less)
    from "2.IH"(2) [OF False f] show ?thesis
    proof (elim disjE exE conjE)
      assume "best = Some j" "least_active m ss oldest"
      then show ?thesis using out by (intro disjI1 conjI skip) auto
    next
      fix k assume k: "k < length ss" "j = i + 1 + k" "active m (ss ! k)" "last_wg_activity (ss ! k) < oldest"
        "least_active m ss (last_wg_activity (ss ! k))"
      then show ?thesis using out
        by (intro disjI2 later [of k]) (auto intro: order.trans [OF order.strict_implies_order])
    qed
  qed
qed (simp add: least_active_def)

lemma find_lru_best: "best \<noteq> None \<Longrightarrow> find_lru ss i oldest best m \<noteq> None"
  by (induction ss i oldest best m rule: find_lru.induct) simp_all

lemma find_lru_exists:
  "list_ex (\<lambda>s. active m s \<and> last_wg_activity s < oldest) ss \<Longrightarrow> find_lru ss i oldest best m \<noteq> None"
proof (induction ss i oldest best m rule: find_lru.induct)
  case (2 s ss i oldest best m)
  show ?case
  proof (cases "active m s \<and> last_wg_activity s < oldest")
    case True
    then show ?thesis using find_lru_best [of "Some i" ss "i + 1" "last_wg_activity s" m] by (simp del: not_None_eq)
  next
    case False
    then have "list_ex (\<lambda>s. active m s \<and> last_wg_activity s < oldest) ss" using "2.prems" by (simp del: not_None_eq) blast
    from "2.IH"(2) [OF False this] False show ?thesis by (auto simp del: not_None_eq)
  qed
qed simp

section \<open>Activation\<close>

lemma get_peer_mem: "om_wf (wg_peers m) \<Longrightarrow> get_peer ip m \<noteq> None \<longleftrightarrow> ip \<in> set (mgr_keys m)"
  by (auto simp: get_peer_def om_get_def map_of_eq_None_iff)

lemma get_peer_om: "get_peer ip m = map_option slot (om_get ip (wg_peers m))"
  by (simp add: get_peer_def)

lemma mgr_ok_remove: "mgr_ok ips m \<Longrightarrow> mgr_ok ips (remove_peer lib ip m)"
  using wgm_ok_remove [of m lib ip]
  by (auto simp: mgr_ok_def remove_peer_def om_del_def list_all_iff split: option.splits intro: order.trans [OF length_filter_le])

lemma mgr_ok_add:
  assumes "mgr_ok ips m" "wg_peers m = [] \<or> get_peer ip m \<noteq> None" "ip \<in> set ips"
  shows "mgr_ok ips (snd (add_peer lib ip key psk m))"
proof -
  have ok: "wgm_ok (snd (add_peer lib ip key psk m))" using assms(1) by (intro wgm_ok_add) (simp add: mgr_ok_def)
  have "mgr_keys (snd (add_peer lib ip key psk m)) = mgr_keys m \<or> mgr_keys (snd (add_peer lib ip key psk m)) = [ip]"
  proof (cases "om_get ip (wg_peers m)")
    case None
    then have "wg_peers m = []" using assms(2) by (simp add: get_peer_def)
    then show ?thesis by (auto simp: add_peer_def split: option.splits prod.splits bool.splits)
  next
    case (Some c)
    then show ?thesis by (simp add: add_peer_def split: option.splits)
  qed
  then show ?thesis
  proof
    assume "mgr_keys (snd (add_peer lib ip key psk m)) = mgr_keys m"
    then show ?thesis using ok assms(1) by (simp only: mgr_ok_keys)
  next
    assume "mgr_keys (snd (add_peer lib ip key psk m)) = [ip]"
    then show ?thesis using ok assms(3) by (simp only: mgr_ok_keys) simp
  qed
qed

text \<open>The times of activity, without the one value that eviction never picks.\<close>

definition times_ok :: "peer_session list \<Rightarrow> bool" where
  "times_ok ss \<longleftrightarrow> list_all (\<lambda>s. last_wg_activity s \<noteq> 0xFFFFFFFF) ss"

lemma word_max_less: "(t :: u32) \<noteq> 0xFFFFFFFF \<Longrightarrow> t < 0xFFFFFFFF"
proof -
  assume t: "t \<noteq> 0xFFFFFFFF"
  have "unat t \<noteq> 0xFFFFFFFF" using t by (simp add: word_eq_iff_unsigned [where 'a = nat])
  moreover have "unat t < 2 ^ 32" using unsigned_less [of t, where ?'a = nat] by simp
  ultimately show "t < 0xFFFFFFFF" by (simp add: word_less_nat_alt)
qed

abbreviation ips_of :: "peer_session list \<Rightarrow> string list" where "ips_of ss \<equiv> map s_tailscale_ip ss"

lemma find_lru_evicts:
  assumes "mgr_ok (ips_of ss) m" "times_ok ss" "wg_peers m \<noteq> []"
  shows "\<exists>j < length ss. find_lru_active_wireguard_peer ss m = Some j \<and> active m (ss ! j)"
proof -
  obtain ip c r where p: "wg_peers m = (ip, c) # r" using assms(3) by (cases "wg_peers m") auto
  then obtain s where s: "s \<in> set ss" "s_tailscale_ip s = ip" using assms(1) by (auto simp: mgr_ok_def)
  have "active m s" using s(2) p by (simp add: get_peer_def om_get_def)
  moreover have "last_wg_activity s < 0xFFFFFFFF" using assms(2) s(1) by (intro word_max_less) (auto simp: times_ok_def list_all_iff)
  ultimately have "list_ex (\<lambda>s. active m s \<and> last_wg_activity s < 0xFFFFFFFF) ss"
    using s(1) by (auto simp: list_ex_iff)
  from find_lru_exists [OF this, of 0 None] obtain j where j: "find_lru ss 0 0xFFFFFFFF None m = Some j" by blast
  then show ?thesis using find_lru_some [OF j] by (auto simp: find_lru_active_wireguard_peer_def simp del: not_None_eq)
qed

lemma mgr_ok_activate:
  assumes "mgr_ok (ips_of ss) m" "times_ok ss"
  shows "mgr_ok (ips_of ss) (snd (activate_peer_wireguard lib i ss m))"
proof (cases "i \<ge> length ss \<or> active m (ss ! i)")
  case True
  then show ?thesis using assms(1) by (auto simp: activate_peer_wireguard_def Let_def)
next
  case False
  let ?ip = "s_tailscale_ip (ss ! i)"
  let ?m = "if get_peer_count m \<ge> MAX_ACTIVE_WIREGUARD_PEERS
    then (case find_lru_active_wireguard_peer ss m of None \<Rightarrow> m | Some j \<Rightarrow> deactivate_peer_wireguard lib j ss m) else m"
  have e: "activate_peer_wireguard lib i ss m = add_peer lib ?ip (s_node_key (ss ! i)) None ?m"
    using False by (simp add: activate_peer_wireguard_def Let_def)
  have "?ip \<in> set (ips_of ss)" using False by (auto intro: nth_mem)
  moreover have "mgr_ok (ips_of ss) ?m \<and> wg_peers ?m = []"
  proof (cases "wg_peers m = []")
    case True
    then show ?thesis using assms(1) by (simp add: get_peer_count_def MAX_ACTIVE_WIREGUARD_PEERS_def)
  next
    case nonempty: False
    obtain j where j: "j < length ss" "find_lru_active_wireguard_peer ss m = Some j" "active m (ss ! j)"
      using find_lru_evicts [OF assms nonempty] by blast
    let ?jp = "s_tailscale_ip (ss ! j)"
    have c: "length (wg_peers m) = 1" "om_wf (wg_peers m)"
      using assms(1) nonempty by (auto simp: mgr_ok_def MAX_ACTIVE_WIREGUARD_PEERS_def wgm_ok_def le_Suc_eq)
    have g: "om_get ?jp (wg_peers m) \<noteq> None" using j(3) by (simp add: get_peer_def)
    then have "wg_peers (remove_peer lib ?jp m) = om_del ?jp (wg_peers m)"
      by (auto simp: remove_peer_def split: option.splits)
    moreover have "om_del ?jp (wg_peers m) = []" using length_om_del [OF g c(2)] c(1) by simp
    ultimately show ?thesis using j c(1) mgr_ok_remove [OF assms(1), of lib ?jp]
      by (simp add: get_peer_count_def MAX_ACTIVE_WIREGUARD_PEERS_def deactivate_peer_wireguard_def)
  qed
  ultimately show ?thesis unfolding e by (intro mgr_ok_add) auto
qed

text \<open>
  The peer that eviction picks is the least recently used one: it is active, and no active
  peer's last activity is earlier.
\<close>

lemma eviction_is_lru:
  assumes "find_lru_active_wireguard_peer ss m = Some j"
  shows "j < length ss \<and> get_peer (s_tailscale_ip (ss ! j)) m \<noteq> None
    \<and> list_all (\<lambda>s. get_peer (s_tailscale_ip s) m \<noteq> None \<longrightarrow> last_wg_activity (ss ! j) \<le> last_wg_activity s) ss"
  using find_lru_some [OF assms [unfolded find_lru_active_wireguard_peer_def]]
  by (auto simp: least_active_def simp del: not_None_eq)

section \<open>Nodes\<close>

definition router_ok :: "'d node \<Rightarrow> bool" where
  "router_ok n \<longleftrightarrow> ip_map_ok (sessions n) (ip_map n) \<and> times_ok (sessions n)
     \<and> (case manager n of None \<Rightarrow> True | Some m \<Rightarrow> mgr_ok (ips_of (sessions n)) m)
     \<and> length (wg_packet_buffer n) \<le> MAX_BUFFERED_PACKETS \<and> list_all (\<lambda>(p, _). length p \<le> 1500) (wg_packet_buffer n)"

lemma ip_map_ok_cong: "ips_of ss = ips_of ss' \<Longrightarrow> ip_map_ok ss ips = ip_map_ok ss' ips"
proof -
  assume e: "ips_of ss = ips_of ss'"
  have l: "length ss = length ss'" using e by (rule map_eq_imp_length_eq)
  have n: "s_tailscale_ip (ss ! i) = s_tailscale_ip (ss' ! i)" if "i < length ss" for i
    using e l that by (metis nth_map)
  have "list_all (\<lambda>s. om_get (s_tailscale_ip s) ips \<noteq> None) ss = list_all (\<lambda>ip. om_get ip ips \<noteq> None) (ips_of ss)"
    "list_all (\<lambda>s. om_get (s_tailscale_ip s) ips \<noteq> None) ss' = list_all (\<lambda>ip. om_get ip ips \<noteq> None) (ips_of ss')"
    by (simp_all add: list_all_iff)
  then show ?thesis unfolding ip_map_ok_def using e l n by (auto simp: list_all_iff)
qed

text \<open>A node that differs in what the invariant does not look at.\<close>

lemma router_ok_same:
  assumes "router_ok n" "ips_of (sessions n') = ips_of (sessions n)" "times_ok (sessions n')" "ip_map n' = ip_map n"
    and "manager n' = manager n" "wg_packet_buffer n' = wg_packet_buffer n"
  shows "router_ok n'"
  using assms ip_map_ok_cong [OF assms(2), of "ip_map n"] by (simp add: router_ok_def split: option.splits)

lemma router_ok_manager:
  "router_ok n \<Longrightarrow> mgr_ok (ips_of (sessions n)) m \<Longrightarrow> router_ok (n\<lparr>manager := Some m\<rparr>)"
  by (simp add: router_ok_def)

lemma router_okD: "router_ok n \<Longrightarrow> manager n = Some m \<Longrightarrow> mgr_ok (ips_of (sessions n)) m"
  by (simp add: router_ok_def)

lemma router_ok_times: "router_ok n \<Longrightarrow> times_ok (sessions n)"
  by (simp add: router_ok_def)

lemma sessions_set_session [simp]: "sessions (set_session i s n) = (sessions n)[i := s]"
  by (simp add: set_session_def)

lemma set_session_sel [simp]:
  "manager (set_session i s n) = manager n" "ip_map (set_session i s n) = ip_map n"
  "wg_packet_buffer (set_session i s n) = wg_packet_buffer n" "derp_out (set_session i s n) = derp_out n"
  "netif_in (set_session i s n) = netif_in n" "tcp (set_session i s n) = tcp n" "derp_ready (set_session i s n) = derp_ready n"
  "netif_running (set_session i s n) = netif_running n" "udp_out (ds (set_session i s n)) = udp_out (ds n)"
  "last_rx_endpoint (set_session i s n) = last_rx_endpoint n" "last_rx_port (set_session i s n) = last_rx_port n"
  "prefer_direct_udp (set_session i s n) = prefer_direct_udp n" "d_socket_open (ds (set_session i s n)) = d_socket_open (ds n)"
  by (simp_all add: set_session_def)

lemma ips_update: "i < length ss \<Longrightarrow> s_tailscale_ip s = s_tailscale_ip (ss ! i) \<Longrightarrow> ips_of (ss[i := s]) = ips_of ss"
  by (rule nth_equalityI) (auto simp: nth_list_update)

lemma times_update: "times_ok ss \<Longrightarrow> last_wg_activity s \<noteq> 0xFFFFFFFF \<Longrightarrow> times_ok (ss[i := s])"
  by (auto simp: times_ok_def list_all_iff dest: set_update_subset_insert [THEN subsetD])

lemma router_ok_set_session:
  assumes "router_ok n" "i < length (sessions n)" "s_tailscale_ip s = s_tailscale_ip (sessions n ! i)"
    and "last_wg_activity s \<noteq> 0xFFFFFFFF"
  shows "router_ok (set_session i s n)"
  using assms by (intro router_ok_same [OF assms(1)])
    (simp_all add: ips_update times_update router_ok_def)

lemma time_ok_nth: "router_ok n \<Longrightarrow> i < length (sessions n) \<Longrightarrow> last_wg_activity (sessions n ! i) \<noteq> 0xFFFFFFFF"
  by (simp add: router_ok_def times_ok_def list_all_length)

lemma router_ok_udp_emit: "router_ok n \<Longrightarrow> router_ok (udp_emit a port p n)"
  by (rule router_ok_same) (simp_all add: udp_emit_def router_ok_def)

lemma router_ok_derp_emit:
  assumes "router_ok n" "i < length (sessions n)" "now \<noteq> 0xFFFFFFFF"
  shows "router_ok (derp_emit now i p n)"
  by (rule router_ok_same [OF router_ok_set_session [OF assms(1,2), of "(sessions n ! i)\<lparr>last_wg_activity := now\<rparr>"]])
     (use assms in \<open>simp_all add: derp_emit_def Let_def router_ok_def times_update\<close>)

lemma router_ok_transmit:
  assumes "router_ok n" "i < length (sessions n)" "w_now w \<noteq> 0xFFFFFFFF"
  shows "router_ok (wg_transmit w i p n)"
  using assms by (auto simp: wg_transmit_def Let_def router_ok_derp_emit intro!: router_ok_udp_emit router_ok_set_session)

lemma learn_keeps_ip [simp]:
  "s_tailscale_ip (learn_from_handshake p n s) = s_tailscale_ip s" "last_wg_activity (learn_from_handshake p n s) = last_wg_activity s"
  by (simp_all add: learn_from_handshake_def)

lemma router_ok_send_callback:
  assumes "router_ok n" "w_now w \<noteq> 0xFFFFFFFF"
  shows "router_ok (wg_send_callback w (ip, p) n)"
proof (cases "om_get ip (ip_map n)")
  case (Some i)
  show ?thesis
  proof (cases "i < length (sessions n)")
    case True
    let ?s = "learn_from_handshake p n (sessions n ! i)"
    let ?n = "set_session i ?s n"
    have ok: "router_ok ?n" using assms(1) True time_ok_nth [OF assms(1) True] by (intro router_ok_set_session) auto
    have l: "i < length (sessions ?n)" using True by simp
    have act: "router_ok (?n\<lparr>manager := Some (snd (activate_peer_wireguard lib i (sessions ?n) m))\<rparr>)" if "manager n = Some m" for m lib
      using ok that by (intro router_ok_manager mgr_ok_activate) (auto simp: router_ok_def)
    show ?thesis
    proof (cases "manager n")
      case None
      then show ?thesis using Some True ok by (simp add: wg_send_callback_def Let_def)
    next
      case m: (Some m)
      obtain b m' where am: "activate_peer_wireguard (w_lib w) i ((sessions n)[i := ?s]) m = (b, m')" by (rule prod.exhaust)
      then have "router_ok (?n\<lparr>manager := Some m'\<rparr>)" using act [OF m, of "w_lib w"] by simp
      then have "router_ok (wg_transmit w i p (?n\<lparr>manager := Some m'\<rparr>))" "router_ok (?n\<lparr>manager := Some m'\<rparr>)"
        using assms(2) l by (auto intro: router_ok_transmit)
      then show ?thesis using Some True m am router_ok_transmit [OF ok l assms(2)]
        by (simp add: wg_send_callback_def Let_def)
    qed
  qed (simp add: wg_send_callback_def Some assms)
qed (simp add: wg_send_callback_def assms)

lemma router_ok_decrypt_callback:
  assumes "router_ok n" "w_now w \<noteq> 0xFFFFFFFF"
  shows "router_ok (wg_decrypt_callback w (ip, p) n)"
proof -
  have "router_ok (set_session i ((sessions n ! i)\<lparr>last_wg_activity := w_now w\<rparr>) n)" if "i < length (sessions n)" for i
    using assms that by (intro router_ok_set_session) auto
  moreover have "router_ok (n'\<lparr>netif_in := x\<rparr>)" if "router_ok n'" for n' :: "'a node" and x
    using that by (simp add: router_ok_def split: option.splits)
  ultimately show ?thesis using assms(1) by (auto simp: wg_decrypt_callback_def Let_def split: option.splits)
qed

lemma router_ok_fold:
  assumes "router_ok n" "\<And>x n. router_ok n \<Longrightarrow> router_ok (f x n)"
  shows "router_ok (fold f xs n)"
  using assms(1) by (induction xs arbitrary: n) (auto intro: assms(2))

lemma router_ok_drain:
  assumes "router_ok n" "mgr_ok (ips_of (sessions n)) m" "w_now w \<noteq> 0xFFFFFFFF"
  shows "router_ok (drain w m n)"
  unfolding drain_def using assms
  by (intro router_ok_fold router_ok_manager)
     (auto intro: router_ok_send_callback router_ok_decrypt_callback simp: split_paired_all)

section \<open>Every step\<close>

text \<open>Disco changes neither the addresses of the sessions nor their times of activity.\<close>

abbreviation ids :: "disco \<Rightarrow> (string \<times> u32) list" where
  "ids d \<equiv> map (\<lambda>s. (s_tailscale_ip s, last_wg_activity s)) (peer_sessions d)"

lemma map_map_first: "(\<And>x. g (f x) = g x) \<Longrightarrow> map g (map_first P f xs) = map g xs"
  by (induction xs) auto

lemma ids_send [simp]:
  "ids (udp_send ip port msg d) = ids d" "ids (send_disco_ping seal b64d fill ip port key d) = ids d"
  "ids (send_disco_pong seal b64d fill a port key tx d) = ids d" "ids (ping_endpoint seal b64d fill key e d) = ids d"
proof -
  have u: "ids (udp_send ip port msg d) = ids d" for ip port msg d by (simp add: udp_send_def split: option.split)
  show "ids (udp_send ip port msg d) = ids d" by (rule u)
  have p: "ids (send_disco_ping seal b64d fill ip port key d) = ids d" for ip port key d
    by (simp add: send_disco_ping_def Let_def u split: option.split)
  show "ids (send_disco_ping seal b64d fill ip port key d) = ids d" by (rule p)
  show "ids (send_disco_pong seal b64d fill a port key tx d) = ids d"
    by (simp add: send_disco_pong_def Let_def u split: option.split)
  show "ids (ping_endpoint seal b64d fill key e d) = ids d" by (simp add: ping_endpoint_def p)
qed

lemma ids_disco: "ids (handle_disco_packet seal unseal b64d b64e fill now buf a port d) = ids d"
proof -
  have l: "ids (learn_endpoint key ip port d) = ids d" for key ip port d by (simp add: learn_endpoint_def)
  have p: "ids (handle_disco_pong now ip port key d) = ids d" for ip port key d
    by (simp add: handle_disco_pong_def learn_endpoint_def map_map_first confirm_path_def split: option.split)
  have f: "ids (fold (ping_endpoint seal b64d fill key) es d) = ids d" for key es d
    by (induction es arbitrary: d) simp_all
  have c: "ids (call_me_maybe seal b64d fill key eps d) = ids d" for key eps d
    by (simp add: call_me_maybe_def f)
  have m: "ids (handle_message seal b64d b64e fill now sender m a port d) = ids d" for sender m d
    by (simp add: handle_message_def Let_def l p c)
  show ?thesis by (simp add: handle_disco_packet_def Let_def m split: option.split)
qed

lemma ids_eqD:
  assumes "ids d' = ids d"
  shows "ips_of (peer_sessions d') = ips_of (peer_sessions d)" "times_ok (peer_sessions d') = times_ok (peer_sessions d)"
proof -
  have "map fst (ids d') = map fst (ids d)" "map snd (ids d') = map snd (ids d)" using assms by simp_all
  then have i: "ips_of (peer_sessions d') = ips_of (peer_sessions d)"
    and t: "map last_wg_activity (peer_sessions d') = map last_wg_activity (peer_sessions d)" by (simp_all add: o_def)
  show "ips_of (peer_sessions d') = ips_of (peer_sessions d)" by (rule i)
  have "times_ok ss = list_all (\<lambda>t. t \<noteq> 0xFFFFFFFF) (map last_wg_activity ss)" for ss by (simp add: times_ok_def list.pred_map o_def)
  then show "times_ok (peer_sessions d') = times_ok (peer_sessions d)" using t by simp
qed

lemma router_ok_disco: "router_ok n \<Longrightarrow> router_ok (run_disco w p a port n)"
  by (rule router_ok_same)
     (simp_all add: run_disco_def ids_eqD [OF ids_disco] router_ok_def)

lemma router_ok_stun: "router_ok n \<Longrightarrow> router_ok (run_stun w p a port n)"
proof -
  assume "router_ok n"
  then have "router_ok (n\<lparr>own_endpoint := e\<rparr>)" for e by (rule router_ok_same) (use \<open>router_ok n\<close> in \<open>simp_all add: router_ok_def\<close>)
  then show ?thesis by (auto simp: run_stun_def split: prod.splits intro!: router_ok_fold router_ok_udp_emit)
qed

lemma router_ok_receive:
  assumes "router_ok n" "manager n = Some m" "w_now w \<noteq> 0xFFFFFFFF"
  shows "router_ok (snd (receive_by_manager w p m n))"
  using router_ok_drain [OF assms(1) mgr_ok_receive [OF router_okD [OF assms(1,2)]] assms(3)]
  by (simp add: receive_by_manager_def split_beta)

lemma router_ok_recover: "router_ok n \<Longrightarrow> w_now w \<noteq> 0xFFFFFFFF \<Longrightarrow> router_ok (recover_stale w a port n)"
  by (auto simp: recover_stale_def split: option.splits intro!: router_ok_drain mgr_ok_start router_okD)

lemma router_ok_route_wireguard:
  assumes "router_ok n" "w_now w \<noteq> 0xFFFFFFFF"
  shows "router_ok (route_wireguard w p a port n)"
proof (cases "manager n")
  case (Some m)
  obtain b n' where r: "receive_by_manager w p m n = (b, n')" by (rule prod.exhaust)
  then have "router_ok n'" using router_ok_receive [OF assms(1) Some assms(2), of p] by simp
  then show ?thesis using assms Some r by (auto simp: route_wireguard_def split: bool.split intro: router_ok_recover)
qed (simp add: route_wireguard_def assms)

lemma router_ok_route: "router_ok n \<Longrightarrow> w_now w \<noteq> 0xFFFFFFFF \<Longrightarrow> router_ok (route_incoming_packet w p a port n)"
proof -
  assume ok: "router_ok n" and now: "w_now w \<noteq> 0xFFFFFFFF"
  have "router_ok (n\<lparr>last_rx_endpoint := ntop a, last_rx_port := port\<rparr>)"
    using ok by (rule router_ok_same) (use ok in \<open>simp_all add: router_ok_def\<close>)
  then show ?thesis using now
    by (auto simp: route_incoming_packet_def Let_def intro: router_ok_disco router_ok_stun router_ok_route_wireguard)
qed

lemma router_ok_send_out:
  assumes "router_ok n" "w_now w \<noteq> 0xFFFFFFFF"
  shows "router_ok (case manager n of None \<Rightarrow> n | Some m \<Rightarrow> drain w (snd (send_ip_packet (w_lib w) ip q m)) n)"
  using assms by (auto split: option.split intro!: router_ok_drain mgr_ok_send router_okD)

lemma router_ok_tcp: "router_ok n \<Longrightarrow> w_now w \<noteq> 0xFFFFFFFF \<Longrightarrow> router_ok (run_tcp w p n)"
proof -
  assume ok: "router_ok n" and now: "w_now w \<noteq> 0xFFFFFFFF"
  have "router_ok (n\<lparr>tcp := t\<rparr>)" for t using ok by (rule router_ok_same) (use ok in \<open>simp_all add: router_ok_def\<close>)
  then show ?thesis unfolding run_tcp_def Let_def
    by (intro router_ok_fold) (auto simp: split_beta intro: router_ok_send_out [OF _ now])
qed

lemma router_ok_activate_sender: "router_ok n \<Longrightarrow> router_ok (activate_sender w key n)"
  by (auto simp: activate_sender_def Let_def split: option.splits
      intro!: router_ok_manager mgr_ok_activate router_ok_times intro: router_okD)

lemma router_ok_buffer: "router_ok n \<Longrightarrow> router_ok (buffer_packet now p n)"
  by (auto simp: buffer_packet_def router_ok_def split: option.splits)

lemma router_ok_plain: "router_ok n \<Longrightarrow> w_now w \<noteq> 0xFFFFFFFF \<Longrightarrow> router_ok (handle_plain_ip w key p n)"
proof -
  assume ok: "router_ok n" and now: "w_now w \<noteq> 0xFFFFFFFF"
  have "router_ok (n\<lparr>derp_out := x\<rparr>)" for x using ok by (rule router_ok_same) (use ok in \<open>simp_all add: router_ok_def\<close>)
  then show ?thesis using ok now by (simp add: handle_plain_ip_def router_ok_tcp)
qed

lemma router_ok_derp:
  assumes "router_ok n" "w_now w \<noteq> 0xFFFFFFFF"
  shows "router_ok (handle_derp_packet w key p n)"
proof -
  have a: "router_ok (activate_sender w key n)" using assms(1) by (rule router_ok_activate_sender)
  show ?thesis using assms a
    by (auto simp: handle_derp_packet_def Let_def split: option.split
        intro: router_ok_receive router_ok_buffer router_ok_disco router_ok_plain)
qed

lemma router_ok_buffered:
  assumes "router_ok n" "w_now w \<noteq> 0xFFFFFFFF"
  shows "router_ok (process_buffered_wg_packets w n)"
proof -
  have clear: "router_ok (n\<lparr>wg_packet_buffer := []\<rparr>)" if "router_ok n" for n :: "'a node"
    using that by (simp add: router_ok_def split: option.splits)
  show ?thesis unfolding process_buffered_wg_packets_def
    by (intro clear router_ok_fold assms(1))
       (auto split: option.split intro: router_ok_receive [OF _ _ assms(2)])
qed

lemma router_ok_tx: "router_ok n \<Longrightarrow> w_now w \<noteq> 0xFFFFFFFF \<Longrightarrow> router_ok (process_tx_queue w q n)"
  unfolding process_tx_queue_def by (intro router_ok_fold) (auto simp: split_beta intro: router_ok_send_out)

lemma mgr_ok_new:
  assumes "wg_init lib key wgm_new = (b, m)"
  shows "mgr_ok ips m"
proof -
  have "wgm_ok (wgm_new :: 'a wgm)" by (simp add: wgm_ok_def wgm_new_def om_wf_def)
  then have "wgm_ok m" using wgm_ok_init [of wgm_new lib key] assms by simp
  moreover have "wg_peers m = []" using assms by (auto simp: wg_init_def wgm_new_def Let_def split: option.splits)
  ultimately show ?thesis by (simp add: mgr_ok_def)
qed

lemma mgr_ok_first: "mgr_ok (ips_of ss) m \<Longrightarrow> times_ok ss \<Longrightarrow> mgr_ok (ips_of ss) (activate_first lib ss m)"
  using mgr_ok_activate [of ss m lib 0] by (cases ss) (simp_all add: activate_first_def MAX_ACTIVE_WIREGUARD_PEERS_def)

lemma build_sessions_times: "times_ok (fst (build_sessions ps))"
proof -
  have "times_ok (fst (fold add_session ps st))" if "times_ok (fst st)" for st
    using that by (induction ps arbitrary: st)
      (auto simp: add_session_def new_session_def times_ok_def Let_def split: prod.splits)
  then show ?thesis by (simp add: build_sessions_def times_ok_def)
qed

lemma router_ok_init:
  assumes "router_ok n" "w_now w \<noteq> 0xFFFFFFFF"
  shows "router_ok (snd (init_sessions w priv n))"
proof -
  obtain b m where m: "wg_init (w_lib w) (w_b64d w priv) wgm_new = (b, m)" by (rule prod.exhaust)
  obtain ss ips where bs: "build_sessions (cfg_peers (ds n)) = (ss, ips)" by (rule prod.exhaust)
  have ss: "ip_map_ok ss ips" "times_ok ss"
    using build_sessions_ok [of "cfg_peers (ds n)"] build_sessions_times [of "cfg_peers (ds n)"] bs by simp_all
  let ?m = "activate_first (w_lib w) ss (m\<lparr>has_send_cb := True, has_decrypt_cb := True\<rparr>)"
  have "mgr_ok (ips_of ss) ?m" by (rule mgr_ok_first) (simp_all add: mgr_ok_new [OF m] ss(2))
  then have on: "router_ok (n\<lparr>ds := (ds n)\<lparr>peer_sessions := ss\<rparr>, ip_map := ips, manager := Some ?m\<rparr>)"
    using assms(1) ss by (simp add: router_ok_def)
  have off: "router_ok (n\<lparr>ds := (ds n)\<lparr>peer_sessions := []\<rparr>, ip_map := [], manager := Some m\<rparr>)"
    using assms(1) mgr_ok_new [OF m, of "[]"] by (simp add: router_ok_def ip_map_ok_def om_wf_def times_ok_def)
  show ?thesis using assms(1) router_ok_buffered [OF on assms(2)] off
    by (simp add: init_sessions_def Let_def m bs split: bool.split)
qed

section \<open>Reachable nodes\<close>

text \<open>
  A node that starts without a manager, with whatever keys and configuration, and then takes steps
  in any order: a datagram, a relayed packet, a run of the queues, a start of the sessions, and a
  new configuration from the control server. Time is not the last millisecond before the clock
  wraps, which eviction could not tell from no activity at all.
\<close>

inductive reachable :: "'d node \<Rightarrow> bool" where
  start: "manager n = None \<Longrightarrow> sessions n = [] \<Longrightarrow> ip_map n = [] \<Longrightarrow> wg_packet_buffer n = [] \<Longrightarrow> reachable n"
| datagram: "reachable n \<Longrightarrow> w_now w \<noteq> 0xFFFFFFFF \<Longrightarrow> reachable (route_incoming_packet w p a port n)"
| relayed: "reachable n \<Longrightarrow> w_now w \<noteq> 0xFFFFFFFF \<Longrightarrow> reachable (handle_derp_packet w key p n)"
| buffered: "reachable n \<Longrightarrow> w_now w \<noteq> 0xFFFFFFFF \<Longrightarrow> reachable (process_buffered_wg_packets w n)"
| outgoing: "reachable n \<Longrightarrow> w_now w \<noteq> 0xFFFFFFFF \<Longrightarrow> reachable (process_tx_queue w q n)"
| init: "reachable n \<Longrightarrow> w_now w \<noteq> 0xFFFFFFFF \<Longrightarrow> reachable (snd (init_sessions w priv n))"
| configured: "reachable n \<Longrightarrow> reachable (n\<lparr>ds := (ds n)\<lparr>cfg_peers := ps\<rparr>\<rparr>)"

lemma reachable_router_ok: "reachable n \<Longrightarrow> router_ok n"
proof (induction rule: reachable.induct)
  case (start n)
  then show ?case by (simp add: router_ok_def ip_map_ok_def om_wf_def times_ok_def)
next
  case (configured n ps)
  show ?case by (rule router_ok_same [OF configured.IH]) (use configured.IH in \<open>simp_all add: router_ok_def\<close>)
qed (auto intro: router_ok_route router_ok_derp router_ok_buffered router_ok_tx router_ok_init)

text \<open>
  C6. In every reachable node at most one WireGuard peer is active, and it is one of the sessions';
  the address map leads to a session with that address; and at most five early packets, none
  beyond 1500 bytes, are buffered.
\<close>

theorem one_active_peer:
  assumes "reachable n"
  shows "(case manager n of None \<Rightarrow> True
      | Some m \<Rightarrow> get_peer_count m \<le> 1 \<and> list_all (\<lambda>(ip, _). ip \<in> s_tailscale_ip ` set (sessions n)) (wg_peers m))
    \<and> list_all (\<lambda>(ip, i). i < length (sessions n) \<and> s_tailscale_ip (sessions n ! i) = ip) (ip_map n)
    \<and> length (wg_packet_buffer n) \<le> 5 \<and> list_all (\<lambda>(p, _). length p \<le> 1500) (wg_packet_buffer n)"
  using reachable_router_ok [OF assms]
  by (simp add: router_ok_def mgr_ok_def get_peer_count_def ip_map_ok_def MAX_BUFFERED_PACKETS_def
      MAX_ACTIVE_WIREGUARD_PEERS_def split: option.splits)

section \<open>A node for the witnesses\<close>

definition toy_sock :: socket where
  "toy_sock = \<lparr>on_connect = (\<lambda>_. []), on_data = (\<lambda>_ _. (0, [])), on_disconnect = (\<lambda>_. [])\<rparr>"

definition toy_world :: "nat world" where
  "toy_world = \<lparr>w_lib = toy_lib, w_seal = (\<lambda>m n pk sk. Some (m @ replicate 16 0)),
     w_unseal = (\<lambda>c n pk sk. Some (take (length c - 16) c)), w_b64d = (\<lambda>_. replicate 32 1), w_b64e = (\<lambda>_. []),
     w_fill = (\<lambda>i n. replicate n 0), w_now = 1000, w_rnd = 5, w_udp_ok = True, w_stale = (\<lambda>_. 0), w_stack = replicate 4 0,
     w_sockets = (\<lambda>_. toy_sock)\<rparr>"

definition toy_config :: "u8 \<Rightarrow> string \<Rightarrow> peer_info" where
  "toy_config k ip = \<lparr>p_public_key = nodekey @ hex_of (replicate 32 k), p_disco_key = discokey @ hex_of (replicate 32 k),
     p_hostname = ''peer'', p_endpoint = [], p_port = 0, p_allowed_ips = [ip @ ''/32'']\<rparr>"

definition toy_fresh :: "peer_info list \<Rightarrow> nat node" where
  "toy_fresh ps = \<lparr>manager = None,
     ds = \<lparr>d_socket_open = True, disco_key_private = [], disco_key_public = [], node_key_public = [], cfg_peers = ps,
           peer_sessions = [], fills = 0, udp_out = [], overrun = False\<rparr>,
     tcp = \<lparr>ipv4_address = ''100.64.0.1'', uninit = replicate 4 0, tcp_connections = [], bound_sockets = [],
            ip_to_peer = [], peer_ips = [], out_packets = [], overread = False\<rparr>,
     ip_map = [], last_rx_endpoint = [], last_rx_port = 0, prefer_direct_udp = True, own_endpoint = [], derp_ready = True,
     derp_out = [], netif_running = True, netif_in = [], wg_packet_buffer = []\<rparr>"

definition toy_started :: "nat node" where
  "toy_started = snd (init_sessions toy_world [] (toy_fresh [toy_config 2 ''100.64.0.2'', toy_config 3 ''100.64.0.3'']))"

lemma toy_started_reachable: "reachable toy_started"
  unfolding toy_started_def by (intro reachable.init reachable.start) (simp_all add: toy_fresh_def toy_world_def)

theorem one_active_peer_witness:
  "(case manager (handle_derp_packet toy_world (replicate 32 3) [4, 0, 0, 0] toy_started) of None \<Rightarrow> True
      | Some m \<Rightarrow> get_peer_count m \<le> 1 \<and> list_all (\<lambda>(ip, _). ip \<in> s_tailscale_ip ` set (sessions
          (handle_derp_packet toy_world (replicate 32 3) [4, 0, 0, 0] toy_started))) (wg_peers m))
    \<and> list_all (\<lambda>(ip, i). i < length (sessions (handle_derp_packet toy_world (replicate 32 3) [4, 0, 0, 0] toy_started))
          \<and> s_tailscale_ip (sessions (handle_derp_packet toy_world (replicate 32 3) [4, 0, 0, 0] toy_started) ! i) = ip)
        (ip_map (handle_derp_packet toy_world (replicate 32 3) [4, 0, 0, 0] toy_started))
    \<and> length (wg_packet_buffer (handle_derp_packet toy_world (replicate 32 3) [4, 0, 0, 0] toy_started)) \<le> 5
    \<and> list_all (\<lambda>(p, _). length p \<le> 1500) (wg_packet_buffer (handle_derp_packet toy_world (replicate 32 3) [4, 0, 0, 0] toy_started))"
  by (rule one_active_peer, rule reachable.relayed [OF toy_started_reachable]) (simp add: toy_world_def)

lemma toy_session_fields:
  "build_sessions [toy_config 2 ''100.64.0.2'', toy_config 3 ''100.64.0.3'']
     = ([new_session (toy_config 2 ''100.64.0.2''), new_session (toy_config 3 ''100.64.0.3'')],
        [(''100.64.0.2'', 0), (''100.64.0.3'', 1)])"
  by (simp add: build_sessions_def add_session_def peer_ip_def toy_config_def new_session_def codec_simps Let_def)

lemma eviction_is_lru_witness:
  "0 < length [new_session (toy_config 2 ''a'')] \<and> get_peer (s_tailscale_ip ([new_session (toy_config 2 ''a'')] ! 0)) (linked ''a'') \<noteq> None
    \<and> list_all (\<lambda>s. get_peer (s_tailscale_ip s) (linked ''a'') \<noteq> None \<longrightarrow>
        last_wg_activity ([new_session (toy_config 2 ''a'')] ! 0) \<le> last_wg_activity s) [new_session (toy_config 2 ''a'')]"
  by (rule eviction_is_lru)
     (simp add: find_lru_active_wireguard_peer_def get_peer_def om_get_def linked_def new_session_def toy_config_def peer_ip_def)

end
