(* ===== verification/Disco_Exchange.thy ===== *)
theory Disco_Exchange
  imports Disco
begin

text \<open>
  Correctness of \<open>Disco\<close>: a ping and its pong between two nodes confirm the path, a
  call-me-maybe pings the endpoints it lists, and what the receiver does not check: the size of
  a message and the transaction of a pong.
\<close>

section \<open>Keys and frames\<close>

lemma hex_digit_plain:
  assumes "n < 16"
  shows "\<not> c_isspace (hex_digit n) \<and> hex_digit n \<noteq> CHR ''-'' \<and> hex_digit n \<noteq> CHR ''+''"
proof -
  have "list_all (\<lambda>n. \<not> c_isspace (hex_digit n) \<and> hex_digit n \<noteq> CHR ''-'' \<and> hex_digit n \<noteq> CHR ''+'') [0..<16]"
    by code_simp
  then show ?thesis using assms by (auto simp: list_all_iff)
qed

lemma strtoul16_hex: "strtoul16 [hex_digit (unat b div 16), hex_digit (unat b mod 16)] = b"
  using hex_digit_plain [OF high_nibble [of b]]
  by (simp add: strtoul16_def nibble_hex_digit high_nibble join_nibbles)

lemma hex_pairs_hex_of: "hex_pairs (hex_of bs) = bs"
  by (induction bs) (simp_all add: hex_of_def strtoul16_hex)

lemma decode_key_string: "length k = 32 \<Longrightarrow> decode_peer_key b64d (key_string k) = Some k"
  by (simp add: decode_peer_key_def key_string_def discokey_def hex_pairs_hex_of)

lemma length_disco_frame [simp]: "length (disco_frame pub nonce c) = 6 + length pub + length nonce + length c"
  by (simp add: disco_frame_def DISCO_MAGIC_def)

lemma disco_frame_fields:
  assumes "length pub = 32" "length nonce = 24"
  shows "take 32 (drop 6 (disco_frame pub nonce c)) = pub" "take 24 (drop 38 (disco_frame pub nonce c)) = nonce"
    and "drop 62 (disco_frame pub nonce c) = c"
  using assms by (simp_all add: disco_frame_def DISCO_MAGIC_def)

lemma pton_ntop4: "length a = 4 \<Longrightarrow> pton (ntop a) = Some a"
  by (auto simp: numeral_eq_Suc length_Suc_conv pton_ntop)

text \<open>A node with its keys in place and the socket open.\<close>

definition keyed :: "(string \<Rightarrow> bytes) \<Rightarrow> bytes \<Rightarrow> bytes \<Rightarrow> disco \<Rightarrow> bool" where
  "keyed b64d priv pub d \<longleftrightarrow> d_socket_open d \<and> b64d (disco_key_private d) = priv \<and> b64d (disco_key_public d) = pub
     \<and> length priv = 32 \<and> length pub = 32 \<and> length (b64d (node_key_public d)) = 32"

lemma keyed_fills [simp]:
  "keyed b64d priv pub (d\<lparr>fills := n\<rparr>) = keyed b64d priv pub d"
  "keyed b64d priv pub (d\<lparr>udp_out := u\<rparr>) = keyed b64d priv pub d"
  "keyed b64d priv pub (d\<lparr>overrun := o'\<rparr>) = keyed b64d priv pub d"
  "keyed b64d priv pub (learn_endpoint k ip port d) = keyed b64d priv pub d"
  by (simp_all add: keyed_def learn_endpoint_def)

lemma send_disco_ping_out:
  assumes "keyed b64d priv pub d" "length pk = 32" "pton ip = Some a"
    and "seal (ping_plain (fill (fills d + 1) 12) (b64d (node_key_public d))) (fill (fills d) 24) pk priv = Some c"
  shows "send_disco_ping seal b64d fill ip port (key_string pk) d =
    d\<lparr>fills := fills d + 2, udp_out := udp_out d @ [(a, port, disco_frame pub (fill (fills d) 24) c)]\<rparr>"
  using assms by (simp add: send_disco_ping_def keyed_def decode_key_string udp_send_def Let_def)
    (simp add: key_string_def discokey_def)

lemma send_disco_pong_out:
  assumes "keyed b64d priv pub d" "decode_peer_key b64d key = Some pk" "length a = 4"
    and "seal (pong_plain txid a port) (fill (fills d) 24) pk priv = Some c"
  shows "send_disco_pong seal b64d fill a port key txid d =
    d\<lparr>fills := fills d + 1, udp_out := udp_out d @ [(a, port, disco_frame pub (fill (fills d) 24) c)]\<rparr>"
  using assms by (simp add: send_disco_pong_def keyed_def udp_send_def Let_def pton_ntop4)

lemma handle_frame:
  assumes "keyed b64d priv pub d" "length sender = 32" "length nonce = 24" "sender \<noteq> pub"
    and "unseal c nonce sender priv = Some m" "18 \<le> length c"
  shows "handle_disco_packet seal unseal b64d b64e fill now (disco_frame sender nonce c) a port d =
    handle_message seal b64d b64e fill now sender m a port d"
  using assms by (simp add: handle_disco_packet_def keyed_def disco_frame_fields Let_def del: drop_drop)

section \<open>Peers and sessions\<close>

lemma find_map_first:
  assumes "find P xs = Some x" "P (f x)"
  shows "find P (map_first P f xs) = Some (f x)"
  using assms by (induction xs) (auto split: if_splits)

lemma pong_confirms:
  assumes "find (\<lambda>p. p_disco_key p = key) (cfg_peers d) = Some p"
    and "find (\<lambda>s. s_hostname s = p_hostname p) (peer_sessions d) = Some s" "ip \<noteq> []"
  shows "\<exists>s'. find (\<lambda>s. s_hostname s = p_hostname p) (peer_sessions (handle_disco_pong now ip port key d)) = Some s'
    \<and> s_endpoint s' = ip \<and> s_endpoint_port s' = port \<and> direct_path_confirmed s'"
proof -
  have "s_hostname s = p_hostname p" using assms(2) by (auto simp: find_Some_iff)
  then have "s_hostname (confirm_path now ip port s) = p_hostname p" by (simp add: confirm_path_def)
  from find_map_first [where P = "\<lambda>s. s_hostname s = p_hostname p" and f = "confirm_path now ip port", OF assms(2) this] show ?thesis
    using assms(1,3) by (auto simp: handle_disco_pong_def confirm_path_def learn_endpoint_def)
qed

lemma ntop_not_Nil [simp]: "ntop a \<noteq> []"
  by (simp add: ntop_def dotted_def)

section \<open>A ping and its answer\<close>

lemma learn_keeps [simp]:
  "fills (learn_endpoint key ip port d) = fills d" "udp_out (learn_endpoint key ip port d) = udp_out d"
  by (simp_all add: learn_endpoint_def)

lemma find_learned:
  assumes "find (\<lambda>p. p_disco_key p = key) (cfg_peers d) = Some p"
  shows "find (\<lambda>p. p_disco_key p = key) (cfg_peers (learn_endpoint key ip port d)) = Some (p\<lparr>p_endpoint := ip, p_port := port\<rparr>)"
  using assms find_map_first [where P = "\<lambda>p. p_disco_key p = key" and f = "\<lambda>p. p\<lparr>p_endpoint := ip, p_port := port\<rparr>"]
  by (auto simp: learn_endpoint_def find_Some_iff)

text \<open>
  C24. A disco ping confirms the path. The ping that one node sends to an address makes the other
  learn the sender's endpoint and answer with one packet to the address the ping came from; that
  packet makes the first node prefer the direct path to the address it pinged.
\<close>

theorem disco_ping_confirms:
  fixes fillA fillB :: "nat \<Rightarrow> nat \<Rightarrow> bytes"
  assumes seal_def: "seal = crypto_box_easy_simple sm ota" and unseal_def: "unseal = crypto_box_open_easy_simple sm ver"
    and "sm privA pubB = Some k" "sm privB pubA = Some k"
    and "\<And>t m k. ver t m k = (t = ota m k)" "\<And>m k. length (ota m k) = 16"
    and "keyed b64d privA pubA dA" "keyed b64d privB pubB dB" "pubA \<noteq> pubB"
    and "\<And>i n. length (fillA i n) = n" "\<And>i n. length (fillB i n) = n"
    and "b64d (b64e pubA) = pubA" "take 9 (b64e pubA) \<noteq> discokey"
    and "length addrA = 4" "length addrB = 4"
    and "find (\<lambda>p. p_disco_key p = key_string pubA) (cfg_peers dB) = Some pA"
    and "find (\<lambda>p. p_disco_key p = key_string pubB) (cfg_peers dA) = Some pB"
    and "find (\<lambda>s. s_hostname s = p_hostname pB) (peer_sessions dA) = Some s"
  shows "\<exists>ping pong dA' dB' sB.
      dA' = send_disco_ping seal b64d fillA (ntop addrB) portB (key_string pubB) dA
    \<and> udp_out dA' = udp_out dA @ [(addrB, portB, ping)]
    \<and> dB' = handle_disco_packet seal unseal b64d b64e fillB nowB ping addrA portA dB
    \<and> udp_out dB' = udp_out dB @ [(addrA, portA, pong)]
    \<and> find (\<lambda>p. p_disco_key p = key_string pubA) (cfg_peers dB') = Some (pA\<lparr>p_endpoint := ntop addrA, p_port := portA\<rparr>)
    \<and> find (\<lambda>s. s_hostname s = p_hostname pB)
        (peer_sessions (handle_disco_packet seal unseal b64d b64e fillA nowA pong addrB portB dA')) = Some sB
    \<and> s_endpoint sB = ntop addrB \<and> s_endpoint_port sB = portB \<and> direct_path_confirmed sB"
proof -
  let ?ping = "ping_plain (fillA (fills dA + 1) 12) (b64d (node_key_public dA))"
  let ?nA = "fillA (fills dA) 24" and ?nB = "fillB (fills dB) 24"
  let ?txid = "take 12 (drop 2 ?ping)"
  let ?pong = "pong_plain ?txid addrA portA"
  have len: "length pubA = 32" "length pubB = 32" "length (b64d (node_key_public dA)) = 32"
    using assms(7,8) by (simp_all add: keyed_def)
  have seals: "\<exists>c. seal m n pubB privA = Some c" "\<exists>c. seal m n pubA privB = Some c" for m n
    using assms(3,4) by (simp_all add: seal_def crypto_box_easy_simple_def box_beforenm_def)
  obtain c where c: "seal ?ping ?nA pubB privA = Some c" using seals(1) by blast
  obtain c' where c': "seal ?pong ?nB pubA privB = Some c'" using seals(2) by blast
  have oc: "unseal c ?nA pubA privB = Some ?ping \<and> length c = length ?ping + 16"
    unfolding unseal_def by (rule sealed_box_opens [OF _ assms(5,6) c [unfolded seal_def]]) (simp add: assms(3,4))
  have oc': "unseal c' ?nB pubB privA = Some ?pong \<and> length c' = length ?pong + 16"
    unfolding unseal_def by (rule sealed_box_opens [OF _ assms(5,6) c' [unfolded seal_def]]) (simp add: assms(3,4))
  let ?dA = "dA\<lparr>fills := fills dA + 2, udp_out := udp_out dA @ [(addrB, portB, disco_frame pubA ?nA c)]\<rparr>"
  let ?lB = "learn_endpoint (key_string pubA) (ntop addrA) portA dB"
  let ?dB = "?lB\<lparr>fills := fills dB + 1, udp_out := udp_out dB @ [(addrA, portA, disco_frame pubB ?nB c')]\<rparr>"
  have pton: "pton (ntop addrB) = Some addrB"
    by (rule pton_ntop4 [OF assms(15)])
  have sent: "send_disco_ping seal b64d fillA (ntop addrB) portB (key_string pubB) dA = ?dA"
    using send_disco_ping_out [where a = addrB and ip = "ntop addrB"] assms(7) len(2) pton c by simp
  have lp: "length ?ping = 46" using len(3) assms(10) by (simp add: ping_plain_def)
  have lq: "length ?pong = 32"
    using assms(10,14) by (simp add: ping_plain_def pong_plain_def mapped_src_def put_be16_def)
  have "handle_disco_packet seal unseal b64d b64e fillB nowB (disco_frame pubA ?nA c) addrA portA dB
      = handle_message seal b64d b64e fillB nowB pubA ?ping addrA portA dB"
    using assms(8-11) len oc lp by (intro handle_frame [where priv = privB and pub = pubB]) auto
  also have "\<dots> = send_disco_pong seal b64d fillB addrA portA (b64e pubA) ?txid ?lB"
    using lp by (simp add: handle_message_def ping_plain_def)
  also have "\<dots> = ?dB"
    using send_disco_pong_out [where d = ?lB and pub = pubB and priv = privB and pk = pubA and key = "b64e pubA" and a = addrA]
      assms(8,12-14) len c' learn_keeps [of "key_string pubA" "ntop addrA" portA dB] by (simp add: decode_peer_key_def)
  finally have answered: "handle_disco_packet seal unseal b64d b64e fillB nowB (disco_frame pubA ?nA c) addrA portA dB = ?dB" .
  have confirmed: "handle_disco_packet seal unseal b64d b64e fillA nowA (disco_frame pubB ?nB c') addrB portB ?dA
      = handle_disco_pong nowA (ntop addrB) portB (key_string pubB) ?dA"
    using assms(7-11) len oc' lq
    by (subst handle_frame [where priv = privA and pub = pubA]) (auto simp: handle_message_def pong_plain_def)
  show ?thesis
    using pong_confirms [where d = ?dA and ip = "ntop addrB" and p = pB and s = s and now = nowA and port = portB and key = "key_string pubB"]
      assms(17,18) find_learned [OF assms(16)] sent answered confirmed
    by (intro exI [of _ "disco_frame pubA ?nA c"] exI [of _ "disco_frame pubB ?nB c'"] exI [of _ ?dA] exI [of _ ?dB]) auto
qed

text \<open>Two nodes for the witnesses: base64 stands as the identity, a key as a repeated byte.\<close>

definition raw_bytes :: "string \<Rightarrow> bytes" where "raw_bytes = map (\<lambda>c. word_of_nat (of_char c))"
definition raw_chars :: "bytes \<Rightarrow> string" where "raw_chars = map (\<lambda>b. char_of (unat b))"
definition toy_mult :: "bytes \<Rightarrow> bytes \<Rightarrow> bytes option" where "toy_mult sk pk = Some (replicate 32 (sk ! 0 + pk ! 0))"
definition toy_auth :: "bytes \<Rightarrow> bytes \<Rightarrow> bytes" where "toy_auth m k = replicate 16 (k ! 0 + (if m = [] then 0 else m ! 0))"
definition key_of :: "u8 \<Rightarrow> bytes" where "key_of n = replicate 32 n"

definition toy_node :: "u8 \<Rightarrow> u8 \<Rightarrow> disco" where
  "toy_node n other =
     \<lparr>d_socket_open = True, disco_key_private = raw_chars (key_of n), disco_key_public = raw_chars (key_of n),
      node_key_public = raw_chars (key_of 9),
      cfg_peers = [\<lparr>p_public_key = [], p_disco_key = key_string (key_of other), p_hostname = ''peer'', p_endpoint = [], p_port = 0,
                    p_allowed_ips = []\<rparr>],
      peer_sessions = [\<lparr>s_node_key = key_of other, s_disco_key = key_of other, s_tailscale_ip = ''100.64.0.2'', s_hostname = ''peer'',
                        s_endpoint = [], s_endpoint_port = 0, last_endpoint_update = 0, last_wg_activity = 0,
                        direct_path_confirmed = False, derp_fallback_enabled = False\<rparr>],
      fills = 0, udp_out = [], overrun = False\<rparr>"

definition toy_fill :: "nat \<Rightarrow> nat \<Rightarrow> bytes" where "toy_fill i n = replicate n (word_of_nat i)"

lemma raw_bytes_chars: "raw_bytes (raw_chars bs) = bs"
proof -
  have "word_of_nat (unat b mod 256) = b" for b :: u8 using unat_u8_less [of b] by simp
  then show ?thesis by (simp add: raw_bytes_def raw_chars_def o_def)
qed

lemma toy_keyed: "keyed raw_bytes (key_of n) (key_of n) (toy_node n m)"
  by (simp add: keyed_def toy_node_def raw_bytes_chars key_of_def)

lemma toy_peers:
  "find (\<lambda>p. p_disco_key p = key_string (key_of m)) (cfg_peers (toy_node n m)) = Some (cfg_peers (toy_node n m) ! 0)"
  "find (\<lambda>s. s_hostname s = p_hostname (cfg_peers (toy_node n m) ! 0)) (peer_sessions (toy_node n m))
     = Some (peer_sessions (toy_node n m) ! 0)"
  by (simp_all add: toy_node_def)

lemma toy_keys:
  "key_of 1 \<noteq> key_of 2" "key_of 2 \<noteq> key_of 1" "take 9 (raw_chars (key_of 1)) \<noteq> discokey" "toy_mult (key_of 1) (key_of 2) = Some (key_of 3)"
  "toy_mult (key_of 2) (key_of 1) = Some (key_of 3)" "length (toy_auth x y) = 16" "length (toy_fill i n) = n"
  "length (key_of n') = 32"
  by (simp_all add: key_of_def toy_mult_def toy_auth_def toy_fill_def) code_simp

theorem disco_ping_confirms_witness:
  "\<exists>ping pong dA' dB' sB.
      dA' = send_disco_ping (crypto_box_easy_simple toy_mult toy_auth) raw_bytes toy_fill (ntop [10, 0, 0, 2]) 41641
              (key_string (key_of 2)) (toy_node 1 2)
    \<and> udp_out dA' = udp_out (toy_node 1 2) @ [([10, 0, 0, 2], 41641, ping)]
    \<and> dB' = handle_disco_packet (crypto_box_easy_simple toy_mult toy_auth)
              (crypto_box_open_easy_simple toy_mult (\<lambda>t m k. t = toy_auth m k)) raw_bytes raw_chars toy_fill 7 ping [10, 0, 0, 1] 500
              (toy_node 2 1)
    \<and> udp_out dB' = udp_out (toy_node 2 1) @ [([10, 0, 0, 1], 500, pong)]
    \<and> find (\<lambda>p. p_disco_key p = key_string (key_of 1)) (cfg_peers dB')
        = Some ((cfg_peers (toy_node 2 1) ! 0)\<lparr>p_endpoint := ntop [10, 0, 0, 1], p_port := 500\<rparr>)
    \<and> find (\<lambda>s. s_hostname s = p_hostname (cfg_peers (toy_node 1 2) ! 0))
        (peer_sessions (handle_disco_packet (crypto_box_easy_simple toy_mult toy_auth)
              (crypto_box_open_easy_simple toy_mult (\<lambda>t m k. t = toy_auth m k)) raw_bytes raw_chars toy_fill 8 pong [10, 0, 0, 2] 41641 dA'))
        = Some sB
    \<and> s_endpoint sB = ntop [10, 0, 0, 2] \<and> s_endpoint_port sB = 41641 \<and> direct_path_confirmed sB"
  by (rule disco_ping_confirms [where sm = toy_mult and ota = toy_auth and ver = "\<lambda>t m k. t = toy_auth m k"
        and privA = "key_of 1" and privB = "key_of 2" and k = "key_of 3"
        and s = "peer_sessions (toy_node 1 2) ! 0"])
     (simp_all only: toy_keyed raw_bytes_chars toy_keys toy_peers list.size, simp_all)

section \<open>What is not checked\<close>

text \<open>
  The transaction of a pong is not compared with any ping's: a pong that a peer seals for us,
  whatever it carries after its type and whether or not a ping was sent, makes the address it
  arrives from the peer's confirmed direct path.
\<close>

lemma any_pong_moves_path:
  assumes "seal = crypto_box_easy_simple sm ota" "unseal = crypto_box_open_easy_simple sm ver"
    and "sm priv sender = sm priv' pub" "\<And>t m k. ver t m k = (t = ota m k)" "\<And>m k. length (ota m k) = 16"
    and "keyed b64d priv pub d" "length sender = 32" "length nonce = 24" "sender \<noteq> pub" "rest \<noteq> []"
    and "seal (2 # rest) nonce pub priv' = Some c"
    and "find (\<lambda>p. p_disco_key p = key_string sender) (cfg_peers d) = Some p"
    and "find (\<lambda>s. s_hostname s = p_hostname p) (peer_sessions d) = Some s"
  shows "\<exists>s'. find (\<lambda>s. s_hostname s = p_hostname p)
      (peer_sessions (handle_disco_packet seal' unseal b64d b64e fill now (disco_frame sender nonce c) a port d)) = Some s'
    \<and> s_endpoint s' = ntop a \<and> s_endpoint_port s' = port \<and> direct_path_confirmed s'"
proof -
  have o: "unseal c nonce sender priv = Some (2 # rest) \<and> length c = length (2 # rest) + 16"
    unfolding assms(2) by (rule sealed_box_opens [OF _ assms(4,5) assms(11) [unfolded assms(1)]]) (simp add: assms(3))
  have l: "18 \<le> length c" using o assms(10) by (cases rest) auto
  have "handle_disco_packet seal' unseal b64d b64e fill now (disco_frame sender nonce c) a port d
      = handle_disco_pong now (ntop a) port (key_string sender) (if length (2 # rest) > 64 then d\<lparr>overrun := True\<rparr> else d)"
    using assms(6-9) o l by (subst handle_frame [where priv = priv and pub = pub]) (auto simp: handle_message_def)
  then show ?thesis
    using pong_confirms [where d = "if length (2 # rest) > 64 then d\<lparr>overrun := True\<rparr> else d" and ip = "ntop a"
        and p = p and s = s and now = now and port = port and key = "key_string sender"] assms(12,13)
    by (auto split: if_splits)
qed

definition toy_seal :: box_fun where "toy_seal = crypto_box_easy_simple toy_mult toy_auth"
definition toy_box :: "bytes \<Rightarrow> bytes" where
  "toy_box m = the (toy_seal m (replicate 24 5) (key_of 1) (key_of 2))"

lemma toy_seal_box: "toy_seal m (replicate 24 5) (key_of 1) (key_of 2) = Some (toy_box m)"
  by (simp add: toy_box_def toy_seal_def crypto_box_easy_simple_def box_beforenm_def toy_mult_def)

lemma any_pong_moves_path_witness:
  "\<exists>s'. find (\<lambda>s. s_hostname s = p_hostname (cfg_peers (toy_node 1 2) ! 0))
      (peer_sessions (handle_disco_packet toy_seal (crypto_box_open_easy_simple toy_mult (\<lambda>t m k. t = toy_auth m k))
         raw_bytes raw_chars toy_fill 7 (disco_frame (key_of 2) (replicate 24 5) (toy_box (2 # [0])))
         [10, 0, 0, 66] 666 (toy_node 1 2))) = Some s'
    \<and> s_endpoint s' = ntop [10, 0, 0, 66] \<and> s_endpoint_port s' = 666 \<and> direct_path_confirmed s'"
  by (rule any_pong_moves_path [where sm = toy_mult and ota = toy_auth and ver = "\<lambda>t m k. t = toy_auth m k"
        and priv = "key_of 1" and pub = "key_of 1" and priv' = "key_of 2" and seal = toy_seal
        and s = "peer_sessions (toy_node 1 2) ! 0" and rest = "[0]"])
     (simp_all only: toy_keyed toy_keys toy_peers toy_seal_box length_replicate, simp_all add: toy_seal_def toy_keys [symmetric])

text \<open>
  An opened message is decrypted into 64 bytes of stack whatever its size: a call-me-maybe
  overruns them exactly from four endpoints on.
\<close>

lemma call_me_maybe_overruns:
  assumes "seal = crypto_box_easy_simple sm ota" "unseal = crypto_box_open_easy_simple sm ver"
    and "sm priv sender = sm priv' pub" "\<And>t m k. ver t m k = (t = ota m k)" "\<And>m k. length (ota m k) = 16"
    and "keyed b64d priv pub d" "length sender = 32" "length nonce = 24" "sender \<noteq> pub" "\<not> overrun d"
    and "list_all (\<lambda>e. length e = 18) eps" "seal ([3, 0] @ concat eps) nonce pub priv' = Some c"
  shows "overrun (handle_disco_packet seal' unseal b64d b64e fill now (disco_frame sender nonce c) a port d) = (4 \<le> length eps)"
proof -
  let ?m = "[3, 0] @ concat eps"
  have o: "unseal c nonce sender priv = Some ?m \<and> length c = length ?m + 16"
    unfolding assms(2) by (rule sealed_box_opens [OF _ assms(4,5) assms(12) [unfolded assms(1)]]) (simp add: assms(3))
  have l: "length (concat eps) = 18 * length eps" using assms(11) by (induction eps) auto
  have ping: "overrun (ping_endpoint seal' b64d fill k e d) = overrun d" for e k d
    by (simp add: ping_endpoint_def send_disco_ping_def udp_send_def Let_def split: option.split)
  have pings: "overrun (fold (ping_endpoint seal' b64d fill k) es d) = overrun d" for es k d
    by (induction es arbitrary: d) (simp_all add: ping)
  have "handle_disco_packet seal' unseal b64d b64e fill now (disco_frame sender nonce c) a port d
      = call_me_maybe seal' b64d fill (key_string sender) (concat eps) (if length ?m > 64 then d\<lparr>overrun := True\<rparr> else d)"
    using assms(6-9) o l by (subst handle_frame [where priv = priv and pub = pub]) (auto simp: handle_message_def)
  then show ?thesis using l assms(10) by (auto simp: call_me_maybe_def pings)
qed

lemma call_me_maybe_overruns_witness:
  "overrun (handle_disco_packet toy_seal (crypto_box_open_easy_simple toy_mult (\<lambda>t m k. t = toy_auth m k))
      raw_bytes raw_chars toy_fill 7 (disco_frame (key_of 2) (replicate 24 5) (toy_box ([3, 0] @ concat (replicate 4 (replicate 18 0)))))
      [10, 0, 0, 2] 41641 (toy_node 1 2)) = (4 \<le> length (replicate 4 (replicate 18 (0 :: u8))))"
  by (rule call_me_maybe_overruns [where sm = toy_mult and ota = toy_auth and ver = "\<lambda>t m k. t = toy_auth m k"
        and priv = "key_of 1" and pub = "key_of 1" and priv' = "key_of 2" and seal = toy_seal])
     (simp_all only: toy_keyed toy_keys toy_seal_box length_replicate, simp_all add: toy_seal_def toy_node_def list_all_iff)

text \<open>
  A call-me-maybe from a known peer is answered by one ping to each IPv4-mapped endpoint it
  lists, in order, at the address and port the endpoint gives; other endpoints are passed over.
\<close>

definition ping_target :: "bytes \<Rightarrow> bytes \<times> u16" where
  "ping_target e = (take 4 (drop 12 e), get_be16 (e ! 16) (e ! 17))"

lemma endpoints18_concat:
  assumes "list_all (\<lambda>e. length e = 18) eps"
  shows "endpoints18 (concat eps) = eps"
  using assms by (induction eps) (simp_all add: endpoints18.simps)

lemma ping_endpoint_target:
  assumes "keyed b64d priv pub d" "length pk = 32" "length e = 18" "\<And>m n. seal m n pk priv \<noteq> None"
  shows "map (\<lambda>(a, p, _). (a, p)) (udp_out (ping_endpoint seal b64d fill (key_string pk) e d))
    = map (\<lambda>(a, p, _). (a, p)) (udp_out d) @ (if mapped_ipv4 e then [ping_target e] else [])
    \<and> keyed b64d priv pub (ping_endpoint seal b64d fill (key_string pk) e d)"
proof (cases "mapped_ipv4 e")
  case True
  let ?a = "take 4 (drop 12 e)"
  obtain c where c: "seal (ping_plain (fill (fills d + 1) 12) (b64d (node_key_public d))) (fill (fills d) 24) pk priv = Some c"
    using assms(4) by blast
  have "length ?a = 4" using assms(3) by simp
  then have "pton (ntop ?a) = Some ?a" by (rule pton_ntop4)
  then have "send_disco_ping seal b64d fill (ntop ?a) port (key_string pk) d =
      d\<lparr>fills := fills d + 2, udp_out := udp_out d @ [(?a, port, disco_frame pub (fill (fills d) 24) c)]\<rparr>" for port
    using assms(1,2) c by (intro send_disco_ping_out)
  then show ?thesis
    using True assms(1) by (simp add: ping_endpoint_def ping_target_def)
qed (simp add: ping_endpoint_def assms(1))

lemma call_me_maybe_pings:
  assumes "keyed b64d priv pub d" "length sender = 32" "\<And>m n. seal m n sender priv \<noteq> None"
    and "find (\<lambda>p. p_disco_key p = key_string sender) (cfg_peers d) \<noteq> None"
    and "list_all (\<lambda>e. length e = 18) eps" "eps \<noteq> []"
  shows "map (\<lambda>(a, p, _). (a, p)) (udp_out (handle_message seal b64d b64e fill now sender ([3, 0] @ concat eps) a port d))
    = map (\<lambda>(a, p, _). (a, p)) (udp_out d) @ map ping_target (filter mapped_ipv4 eps)"
proof -
  have step: "keyed b64d priv pub d \<Longrightarrow> length e = 18 \<Longrightarrow>
      map (\<lambda>(a, p, _). (a, p)) (udp_out (ping_endpoint seal b64d fill (key_string sender) e d))
      = map (\<lambda>(a, p, _). (a, p)) (udp_out d) @ (if mapped_ipv4 e then [ping_target e] else [])
      \<and> keyed b64d priv pub (ping_endpoint seal b64d fill (key_string sender) e d)" for e d
    by (rule ping_endpoint_target) (use assms in auto)
  have pings: "keyed b64d priv pub d \<Longrightarrow> list_all (\<lambda>e. length e = 18) es \<Longrightarrow>
      map (\<lambda>(a, p, _). (a, p)) (udp_out (fold (ping_endpoint seal b64d fill (key_string sender)) es d))
      = map (\<lambda>(a, p, _). (a, p)) (udp_out d) @ map ping_target (filter mapped_ipv4 es)" for es d
    by (induction es arbitrary: d) (simp_all add: step)
  have l: "length (concat eps) = 18 * length eps" using assms(5) by (induction eps) auto
  show ?thesis using assms l
    by (auto simp: handle_message_def call_me_maybe_def endpoints18_concat pings)
qed

lemma call_me_maybe_pings_witness:
  "map (\<lambda>(a, p, _). (a, p)) (udp_out (handle_message toy_seal raw_bytes raw_chars toy_fill 7 (key_of 2)
      ([3, 0] @ concat [mapped_src [10, 0, 0, 9] 41641, replicate 18 1]) [10, 0, 0, 2] 500 (toy_node 1 2)))
    = map (\<lambda>(a, p, _). (a, p)) (udp_out (toy_node 1 2))
      @ map ping_target (filter mapped_ipv4 [mapped_src [10, 0, 0, 9] 41641, replicate 18 1])"
  by (rule call_me_maybe_pings [where priv = "key_of 1" and pub = "key_of 1"])
     (simp_all only: toy_keyed toy_keys toy_peers length_replicate,
      simp_all add: toy_seal_def crypto_box_easy_simple_def box_beforenm_def toy_mult_def mapped_src_def put_be16_def)

end
