(* ===== verification/Router_Paths.thy ===== *)
theory Router_Paths
  imports Router_State Disco_Exchange
begin

text \<open>
  What \<open>Packet_Router\<close> makes of its components: an IP packet that crosses the tunnel between
  two nodes over the relay, the echo reply, and what relayed packets can do without the tunnel.
\<close>

section \<open>Through the tunnel over the relay\<close>

lemma drain_one_send:
  assumes "sent m = [(ip, f)]" "decrypted_out m = []" "om_get ip (ip_map n) = Some i" "i < length (sessions n)"
    and "get_peer (s_tailscale_ip (sessions n ! i)) m \<noteq> None" "f \<noteq> []" "hd f \<noteq> 0x02" "derp_ready n"
    and "\<not> use_direct n (sessions n ! i)"
  shows "derp_out (drain w m n) = derp_out n @ [(s_node_key (sessions n ! i), f)]"
proof -
  have g: "get_peer ip (m\<lparr>sent := x, decrypted_out := y\<rparr>) = get_peer ip m" for ip x y by (simp add: get_peer_def)
  have u: "use_direct (set_session i s (n\<lparr>manager := x\<rparr>)) s = use_direct n s" for s x by (simp add: use_direct_def)
  have l: "learn_from_handshake f n' s = s" for n' :: "'a node" and s using assms(7) by (simp add: learn_from_handshake_def)
  show ?thesis using assms
    by (simp add: drain_def wg_send_callback_def l Let_def g wg_transmit_def u derp_emit_def del: not_None_eq)
qed

lemma drain_one_delivery:
  assumes "sent m = []" "decrypted_out m = [(ip, p)]" "om_get ip (ip_map n) = Some i" "i < length (sessions n)" "netif_running n"
  shows "netif_in (drain w m n) = netif_in n @ [p]"
  using assms by (simp add: drain_def wg_decrypt_callback_def Let_def)

text \<open>
  C5. An IP packet that lwIP queues for a peer crosses the relay: the sender hands one frame to
  its relay client, for the peer's node key, and the peer's node, given that frame with the
  sender's key, hands the packet, padded to a multiple of sixteen, to its own lwIP.
\<close>

theorem packet_crosses_relay:
  assumes A: "manager nA = Some mA" "sent mA = []" "decrypted_out mA = []" "wg_device mA = Some devA"
      "om_get ipB (wg_peers mA) = Some cB" "handshake_established cB" "has_send_cb mA" "curr_valid lib devA (slot cB)"
      "om_get ipB (ip_map nA) = Some iB" "iB < length (sessions nA)" "s_tailscale_ip (sessions nA ! iB) = ipB"
      "derp_ready nA" "\<not> use_direct nA (sessions nA ! iB)"
    and B: "manager nB = Some mB" "sent mB = []" "decrypted_out mB = []" "wg_device mB = Some devB"
      "om_get idx (receiver_to_peer mB) = Some ipA" "om_get ipA (wg_peers mB) = Some cA" "curr_valid lib devB (slot cA)"
      "has_decrypt_cb mB" "om_get ipA (ip_map nB) = Some iA" "iA < length (sessions nB)" "netif_running nB"
      "list_all (\<lambda>s. s_node_key s = keyA \<longrightarrow> s_tailscale_ip s = ipA) (sessions nB)"
    and crypto: "remote_index lib devA (slot cB) = idx" "local_index lib devB (slot cA) = idx"
      "\<And>pt. fst (decrypt_packet lib devB (slot cA) (sending_counter lib devA (slot cB)) (fst (encrypt_packet lib devA (slot cB) pt))) = Some pt"
      "\<And>pt. length (fst (encrypt_packet lib devA (slot cB) pt)) = length pt + 16"
    and p: "p \<noteq> []" "length p \<le> 1420" and dst: "dotted_ip (htonl dst) = ipB" and lib: "w_lib wA = lib" "w_lib wB = lib"
  shows "\<exists>f. derp_out (process_tx_queue wA [(p, dst)] nA) = derp_out nA @ [(s_node_key (sessions nA ! iB), f)]
    \<and> netif_in (handle_derp_packet wB keyA f nB) = netif_in nB @ [p @ replicate (padded_len (length p) - length p) 0]"
proof -
  obtain ct devA' where ct: "encrypt_packet lib devA (slot cB) (pad16 p) = (ct, devA')" by (rule prod.exhaust)
  let ?f = "transport_header idx (sending_counter lib devA (slot cB)) @ ct"
  let ?mA = "wg_send ipB ?f (mA\<lparr>wg_device := Some devA'\<rparr>)"
  have f: "transport_frame lib (slot cB) (pad16 p) devA = (?f, devA')" by (simp add: transport_frame_def ct crypto(1))
  have "send_ip_packet lib ipB p mA = (True, ?mA)"
    using send_ip_packet_ok [OF A(5-7) p A(4,8)] f by simp
  then have "process_tx_queue wA [(p, dst)] nA = drain wA ?mA nA"
    by (simp add: process_tx_queue_def A(1) dst lib)
  moreover have "derp_out (drain wA ?mA nA) = derp_out nA @ [(s_node_key (sessions nA ! iB), ?f)]"
    using A by (intro drain_one_send [where ip = ipB]) (simp_all add: wg_send_def get_peer_def transport_header_def)
  moreover have "netif_in (handle_derp_packet wB keyA ?f nB) = netif_in nB @ [pad16 p]"
  proof -
    let ?i = "length (takeWhile (\<lambda>s. s_node_key s \<noteq> keyA) (sessions nB))"
    have act: "activate_sender wB keyA nB = nB"
    proof (cases "?i < length (sessions nB)")
      case True
      then have "s_node_key (sessions nB ! ?i) = keyA" using nth_length_takeWhile [of "\<lambda>s. s_node_key s \<noteq> keyA" "sessions nB"] by simp
      then have "s_tailscale_ip (sessions nB ! ?i) = ipA" using B(12) True by (simp add: list_all_length)
      then show ?thesis by (simp add: activate_sender_def Let_def B(1) get_peer_def B(6))
    qed (simp add: activate_sender_def Let_def)
    obtain devB' where d: "decrypt_packet lib devB (slot cA) (sending_counter lib devA (slot cB)) ct = (Some (pad16 p), devB')"
      using crypto(3) [of "pad16 p"] ct by (metis fst_conv prod.collapse)
    have "length ct = padded_len (length p) + 16" using crypto(4) [of "pad16 p"] ct by simp
    then have "receive_wg_packet lib (w_rnd wB) ?f mB = (True, mB\<lparr>wg_device := Some devB', decrypted_out := decrypted_out mB @ [(ipA, pad16 p)]\<rparr>)"
      using B d crypto(2) by (intro receive_frame) simp_all
    then have "handle_derp_packet wB keyA ?f nB
        = drain wB (mB\<lparr>wg_device := Some devB', decrypted_out := decrypted_out mB @ [(ipA, pad16 p)]\<rparr>) nB"
      using B(4) by (simp add: handle_derp_packet_def act B(1) receive_by_manager_def lib(2)) (simp add: transport_header_def)
    then show ?thesis using B by (simp add: drain_one_delivery)
  qed
  ultimately show ?thesis by (intro exI [of _ ?f]) (simp add: pad16_def)
qed

definition toy_linked :: "u8 \<Rightarrow> string \<Rightarrow> nat node" where
  "toy_linked k ip = (let n = toy_fresh [toy_config k ip] in
     n\<lparr>manager := Some (linked ip), ds := (ds n)\<lparr>peer_sessions := [new_session (toy_config k ip)]\<rparr>, ip_map := [(ip, 0)]\<rparr>)"

lemma toy_linked_sel:
  "manager (toy_linked k ip) = Some (linked ip)" "sessions (toy_linked k ip) = [new_session (toy_config k ip)]"
  "ip_map (toy_linked k ip) = [(ip, 0)]" "derp_ready (toy_linked k ip)" "netif_running (toy_linked k ip)"
  "derp_out (toy_linked k ip) = []" "netif_in (toy_linked k ip) = []"
  by (simp_all add: toy_linked_def toy_fresh_def Let_def)

lemma toy_session_sel:
  "s_tailscale_ip (new_session (toy_config k ip)) = takeWhile (\<lambda>c. c \<noteq> CHR ''/'') (ip @ ''/32'')"
  "direct_path_confirmed (new_session (toy_config k ip)) = False" "s_endpoint (new_session (toy_config k ip)) = []"
  by (simp_all add: new_session_def toy_config_def peer_ip_def)

lemma linked_sel:
  "sent (linked ip) = []" "decrypted_out (linked ip) = []" "wg_device (linked ip) = Some 1" "has_send_cb (linked ip)"
  "has_decrypt_cb (linked ip)" "om_get ip (wg_peers (linked ip)) = Some \<lparr>slot = 0, ctx_ip = ip, receiver_index = 7, handshake_established = True\<rparr>"
  "om_get 7 (receiver_to_peer (linked ip)) = Some ip"
  by (simp_all add: linked_def om_get_def)

theorem packet_crosses_relay_witness:
  "\<exists>f. derp_out (process_tx_queue toy_world [([1, 2, 3], 0x02004064)] (toy_linked 2 ''100.64.0.2''))
      = derp_out (toy_linked 2 ''100.64.0.2'') @ [(s_node_key (sessions (toy_linked 2 ''100.64.0.2'') ! 0), f)]
    \<and> netif_in (handle_derp_packet toy_world (replicate 32 1) f (toy_linked 1 ''100.64.0.1''))
      = netif_in (toy_linked 1 ''100.64.0.1'') @ [[1, 2, 3] @ replicate (padded_len (length [1, 2, 3 :: u8]) - length [1, 2, 3 :: u8]) 0]"
proof (rule packet_crosses_relay [where lib = toy_lib and idx = 7 and ipB = "''100.64.0.2''" and ipA = "''100.64.0.1''" and iA = 0
      and mA = "linked ''100.64.0.2''" and mB = "linked ''100.64.0.1''" and devA = 1 and devB = 1
      and cB = "\<lparr>slot = 0, ctx_ip = ''100.64.0.2'', receiver_index = 7, handshake_established = True\<rparr>"
      and cA = "\<lparr>slot = 0, ctx_ip = ''100.64.0.1'', receiver_index = 7, handshake_established = True\<rparr>"])
  show "dotted_ip (htonl 0x02004064) = ''100.64.0.2''" by code_simp
qed (simp_all only: toy_linked_sel linked_sel, simp_all add: om_get_def use_direct_def toy_session_sel toy_world_def)

section \<open>Outside the tunnel\<close>

lemma tcp_drain [simp]: "tcp (drain w m n) = tcp n"
proof -
  have t: "tcp (wg_transmit w i p n) = tcp n" for i p and n :: "'a node"
    by (simp add: wg_transmit_def Let_def udp_emit_def derp_emit_def)
  have s: "tcp (wg_send_callback w x n) = tcp n" for x and n :: "'a node"
    by (cases x) (simp add: wg_send_callback_def Let_def t split: option.split prod.split)
  have d: "tcp (wg_decrypt_callback w x n) = tcp n" for x and n :: "'a node"
    by (cases x) (simp add: wg_decrypt_callback_def Let_def split: option.split)
  have fs: "tcp (fold (wg_send_callback w) xs n) = tcp n" for xs and n :: "'a node"
    by (induction xs arbitrary: n) (simp_all add: s)
  have fd: "tcp (fold (wg_decrypt_callback w) xs n) = tcp n" for xs and n :: "'a node"
    by (induction xs arbitrary: n) (simp_all add: d)
  show ?thesis by (simp add: drain_def fs fd)
qed

lemma small_first: "b \<le> (4 :: u8) \<Longrightarrow> drop_bit 4 b = 0"
proof -
  assume "b \<le> 4"
  then have "unat b \<le> 4" by (simp add: word_le_nat_alt)
  then have "unat (drop_bit 4 b) = 0" by (simp add: unsigned_drop_bit_eq) (simp add: drop_bit_eq_div take_bit_eq_mod)
  then show ?thesis by (simp add: unat_eq_zero)
qed

lemma ipv4_first:
  assumes "20 \<le> length p" "drop_bit 4 (p ! 0) = 4"
  shows "handle_derp_packet w key p n = handle_plain_ip w key p n"
proof -
  obtain b r where p: "p = b # r" using assms(1) by (cases p) auto
  have b: "\<not> b \<le> 4" using assms(2) p small_first [of b] by auto
  have b2: "b \<noteq> 0x54" using assms(2) p by (auto simp: drop_bit_eq_div)
  show ?thesis using p b b2 by (auto simp: handle_derp_packet_def)
qed

text \<open>
  The TCP endpoint takes unencrypted packets from anyone the relay serves: an IPv4 packet of
  protocol 6 that arrives over the relay goes to it as it is, whatever key it comes from and
  whether or not that key belongs to a peer.
\<close>

lemma relayed_plain_tcp_accepted:
  assumes "20 \<le> length p" "drop_bit 4 (p ! 0) = 4" "p ! 9 = 6"
  shows "tcp (handle_derp_packet w key p n) =
    (handle_tcp_packet (w_sockets w) (w_rnd w) (w_now w) p
       ((tcp n)\<lparr>ip_to_peer := ip_map n, peer_ips := map s_tailscale_ip (sessions n)\<rparr>))\<lparr>out_packets := []\<rparr>"
proof -
  have fold_tcp: "tcp (fold (\<lambda>(ip, q) n. case manager n of None \<Rightarrow> n | Some m \<Rightarrow> drain w (snd (send_ip_packet (w_lib w) ip q m)) n) xs n) = tcp n"
    for xs and n :: "'a node"
    by (induction xs arbitrary: n) (simp_all add: split_beta split: option.split)
  have "handle_derp_packet w key p n = run_tcp w p n"
    using assms by (simp add: ipv4_first handle_plain_ip_def)
  then show ?thesis by (simp add: run_tcp_def Let_def fold_tcp)
qed

lemma relayed_plain_tcp_accepted_witness:
  "tcp (handle_derp_packet toy_world [] ([0x45] @ replicate 8 0 @ [6] @ replicate 30 0) toy_started) =
    (handle_tcp_packet (w_sockets toy_world) (w_rnd toy_world) (w_now toy_world) ([0x45] @ replicate 8 0 @ [6] @ replicate 30 0)
       ((tcp toy_started)\<lparr>ip_to_peer := ip_map toy_started, peer_ips := map s_tailscale_ip (sessions toy_started)\<rparr>))\<lparr>out_packets := []\<rparr>"
  by (rule relayed_plain_tcp_accepted) (simp_all add: nth_append)

section \<open>Echo\<close>

lemma length_zero16 [simp]: "length (zero16 i bs) = length bs"
  by (simp add: zero16_def)

lemma take_put_at: "i + 1 < k \<Longrightarrow> take k (put_at i c bs) = put_at i c (take k bs)"
  by (simp add: put_at_def take_update_swap)

lemma take_before: "k \<le> i \<Longrightarrow> take k (put_at i c bs) = take k bs" "k \<le> i \<Longrightarrow> take k (zero16 i bs) = take k bs"
  by (simp_all add: put_at_def zero16_def)

lemma drop_put_at_shift: "k \<le> i \<Longrightarrow> drop k (put_at i c bs) = put_at (i - k) c (drop k bs)"
  by (simp add: put_at_def drop_update_swap Suc_diff_le)

lemma drop_behind: "i + 1 < k \<Longrightarrow> drop k (put_at i c bs) = drop k bs" "i + 1 < k \<Longrightarrow> drop k (zero16 i bs) = drop k bs"
  by (simp_all add: put_at_def zero16_def)

lemma nth_zero16: "j \<noteq> i \<Longrightarrow> j \<noteq> i + 1 \<Longrightarrow> zero16 i bs ! j = bs ! j"
  "i + 1 < length bs \<Longrightarrow> zero16 i bs ! i = 0" "i + 1 < length bs \<Longrightarrow> zero16 i bs ! (i + 1) = 0"
  by (simp_all add: zero16_def)

text \<open>What an echo reply is to its request.\<close>

definition answers_echo :: "bytes \<Rightarrow> bytes \<Rightarrow> bool" where
  "answers_echo p r \<longleftrightarrow> (let ihl = header_length p in
     length r = length p \<and> take 10 r = take 10 p
   \<and> take 4 (drop 12 r) = take 4 (drop 16 p) \<and> take 4 (drop 16 r) = take 4 (drop 12 p)
   \<and> r ! ihl = 0 \<and> r ! (ihl + 1) = p ! (ihl + 1) \<and> drop (ihl + 4) r = drop (ihl + 4) p
   \<and> calculate_ip_checksum (take ihl r) = 0 \<and> checksum16 (sum16 0 (drop ihl r)) = 0)"

lemma echo_reply_answers:
  assumes "20 \<le> header_length p" "header_length p + 8 \<le> length p" "length p \<le> 1500"
  shows "answers_echo p (echo_reply p)"
proof -
  let ?h = "header_length p"
  define s where "s = take 12 p @ take 4 (drop 16 p) @ take 4 (drop 12 p) @ drop 20 p"
  let ?r1 = "zero16 10 (s[?h := 0])"
  let ?c1 = "checksum16 (sum16 0 (take ?h ?r1))"
  let ?r2 = "put_at 10 ?c1 ?r1"
  let ?r3 = "zero16 (?h + 2) ?r2"
  let ?c2 = "checksum16 (sum16 0 (drop ?h ?r3))"
  let ?r = "put_at (?h + 2) ?c2 ?r3"
  have e: "echo_reply p = ?r" by (simp add: echo_reply_def Let_def s_def)
  have even: "even ?h" by (simp add: header_length_def)
  have l: "length s = length p" using assms by (simp add: s_def)
  have small: "nsum bs + 65535 < 2 ^ 32" if "length bs \<le> 1500" for bs using nsum_bound [of bs] that by simp
  have t12: "take 10 s = take 10 p" "take 4 (drop 12 s) = take 4 (drop 16 p)" "take 4 (drop 16 s) = take 4 (drop 12 p)"
    "drop 20 s = drop 20 p" using assms by (simp_all add: s_def)
  have cut: "take n (drop k (take ?h x)) = take n (drop k x)" if "k + n \<le> ?h" for n k and x :: bytes
    using that by (simp add: take_drop min_def)
  have head: "take ?h ?r = put_at 10 ?c1 (take ?h ?r1)"
    using assms(1) by (simp add: take_before take_put_at)
  have tk: "take 10 ?r = take 10 p"
    using assms t12(1) by (simp add: take_before)
  have dr: "drop 12 (take ?h ?r) = drop 12 (take ?h s)"
    using assms(1,2) l unfolding head by (simp add: drop_behind take_update_cancel zero16_def drop_update_swap take_update_swap list_update_beyond)
  have "take 4 (drop 12 ?r) = take 4 (drop 12 (take ?h ?r))" by (rule cut [symmetric]) (use assms(1) in simp)
  also have "\<dots> = take 4 (drop 12 (take ?h s))" by (simp only: dr)
  also have "\<dots> = take 4 (drop 12 s)" by (rule cut) (use assms(1) in simp)
  finally have ad1: "take 4 (drop 12 ?r) = take 4 (drop 16 p)" by (simp only: t12(2))
  have d16: "drop 16 (take ?h x) = drop 4 (drop 12 (take ?h x))" for x :: bytes by simp
  have "take 4 (drop 16 ?r) = take 4 (drop 16 (take ?h ?r))" by (rule cut [symmetric]) (use assms(1) in simp)
  also have "\<dots> = take 4 (drop 16 (take ?h s))" by (simp only: d16 dr)
  also have "\<dots> = take 4 (drop 16 s)" by (rule cut) (use assms(1) in simp)
  finally have ad2: "take 4 (drop 16 ?r) = take 4 (drop 12 p)" by (simp only: t12(3))
  have ty: "?r ! ?h = 0" using assms l by (simp add: nth_put_at nth_zero16)
  have s20: "s ! (?h + 1) = p ! (?h + 1)"
  proof -
    have "s ! (?h + 1) = drop 20 s ! (?h - 19)" using assms l by (subst nth_drop) simp_all
    also have "\<dots> = drop 20 p ! (?h - 19)" by (simp only: t12(4))
    also have "\<dots> = p ! (?h + 1)" using assms by (subst nth_drop) simp_all
    finally show ?thesis .
  qed
  then have co: "?r ! (?h + 1) = p ! (?h + 1)" using assms l by (simp add: nth_put_at nth_zero16)
  have "drop (?h + 4) ?r = drop (?h + 4) s" using assms(1) by (simp add: drop_behind)
  also have "\<dots> = drop (?h - 16) (drop 20 s)" using assms(1) by (simp add: drop_drop add.commute del: drop_append)
  also have "\<dots> = drop (?h + 4) p" using assms(1) t12(4) by (simp add: drop_drop add.commute del: drop_append)
  finally have da: "drop (?h + 4) ?r = drop (?h + 4) p" .
  have ip: "calculate_ip_checksum (take ?h ?r) = 0"
    unfolding head calculate_ip_checksum_def using assms l small [of "take ?h ?r1"]
    by (intro checksum_verifies) (simp_all add: nth_zero16 nth_zero16(3) [of 10, simplified])
  have dz: "drop ?h ?r = put_at 2 ?c2 (drop ?h ?r3)" by (simp add: drop_put_at_shift)
  have z: "drop ?h ?r3 ! 2 = 0" "drop ?h ?r3 ! (2 + 1) = 0"
    using assms l nth_zero16(2,3) [of "?h + 2" ?r2] by (simp_all add: numeral_3_eq_3)
  have ic: "checksum16 (sum16 0 (drop ?h ?r)) = 0"
    unfolding dz by (rule checksum_verifies [OF _ _ z]) (use assms l small [of "drop ?h ?r3"] in simp_all)
  show ?thesis unfolding answers_echo_def Let_def e
    using l tk ad1 ad2 ty co da ip ic by simp
qed

text \<open>
  An ICMP echo request that arrives over the relay, in the clear and from any key, is
  answered to that key by its echo reply: addresses exchanged, type cleared, code, identifier,
  sequence number and data kept, and both checksums valid.
\<close>

lemma relayed_echo_answered:
  assumes "20 \<le> header_length p" "header_length p + 8 \<le> length p" "length p \<le> 1500"
    and "drop_bit 4 (p ! 0) = 4" "p ! 9 = 1" "p ! header_length p = 8" "derp_ready n"
  shows "\<exists>r. derp_out (handle_derp_packet w key p n) = derp_out n @ [(key, r)] \<and> answers_echo p r"
proof -
  have "handle_derp_packet w key p n = handle_plain_ip w key p n" using assms by (intro ipv4_first) auto
  then show ?thesis using assms echo_reply_answers [OF assms(1-3)]
    by (intro exI [of _ "echo_reply p"]) (simp add: handle_plain_ip_def)
qed

definition toy_echo :: bytes where
  "toy_echo = [0x45, 0, 0, 28, 0, 0, 0, 0, 64, 1, 0, 0, 100, 64, 0, 2, 100, 64, 0, 1, 8, 0, 0, 0, 0, 1, 0, 2]"

lemma relayed_echo_answered_witness:
  "\<exists>r. derp_out (handle_derp_packet toy_world (replicate 32 9) toy_echo (toy_linked 2 ''100.64.0.2''))
      = derp_out (toy_linked 2 ''100.64.0.2'') @ [(replicate 32 9, r)] \<and> answers_echo toy_echo r"
proof (rule relayed_echo_answered)
  have "header_length toy_echo = 20" by code_simp
  then show "20 \<le> header_length toy_echo" "header_length toy_echo + 8 \<le> length toy_echo" "toy_echo ! header_length toy_echo = 8"
    by (simp_all add: toy_echo_def)
  show "drop_bit 4 (toy_echo ! 0) = 4" by code_simp
qed (simp_all add: toy_echo_def toy_linked_sel)

section \<open>Recovery\<close>

lemma endpoint_colon: "CHR '':'' \<notin> set e \<Longrightarrow> e \<noteq> ntop a @ '':'' @ show_nat k"
  by auto

text \<open>
  Recovery from a stale session never starts a handshake: the endpoint of a session is an
  address without its port, the source it is compared with is an address, a colon and the port.
  A transport packet that the manager refuses is only dropped.
\<close>

lemma stale_recovery_never_matches:
  assumes "manager n = Some m" "wg_device m \<noteq> None" "wg_packet p"
    and "receive_by_manager w p m (n\<lparr>last_rx_endpoint := ntop a, last_rx_port := port\<rparr>) = (ok, n')"
    and "list_all (\<lambda>s. CHR '':'' \<notin> set (s_endpoint s)) (sessions n')" "\<not> stun_packet p"
  shows "route_incoming_packet w p a port n = n'"
proof -
  have f: "find (\<lambda>s. s_endpoint s = ntop a @ '':'' @ show_nat (unat port)) (sessions n') = None"
    using assms(5) endpoint_colon [of _ a] by (auto simp: find_None_iff list_all_iff)
  have r: "recover_stale w a port n' = n'" unfolding recover_stale_def f by (simp split: option.split)
  have "p \<noteq> []" using assms(3) by (auto simp: wg_packet_def)
  moreover have "take 6 p \<noteq> DISCO_MAGIC"
  proof
    assume "take 6 p = DISCO_MAGIC"
    then have "p ! 0 = 0x54" by (cases p) (auto simp: DISCO_MAGIC_def)
    then show False using assms(3) by (simp add: wg_packet_def)
  qed
  ultimately show ?thesis using assms
    by (auto simp: route_incoming_packet_def Let_def route_wireguard_def r split: bool.split)
qed

lemma stale_recovery_never_matches_witness:
  "route_incoming_packet toy_world ([4, 0, 0, 0] @ replicate 28 9) [10, 0, 0, 2] 41641 (toy_linked 2 ''100.64.0.2'')
     = snd (receive_by_manager toy_world ([4, 0, 0, 0] @ replicate 28 9) (linked ''100.64.0.2'')
         ((toy_linked 2 ''100.64.0.2'')\<lparr>last_rx_endpoint := ntop [10, 0, 0, 2], last_rx_port := 41641\<rparr>))"
proof (rule stale_recovery_never_matches [where ok = False])
  have "receive_wg_packet toy_lib 5 ([4, 0, 0, 0] @ replicate 28 9) (linked ''100.64.0.2'') = (False, linked ''100.64.0.2'')" by code_simp
  then have r: "receive_by_manager toy_world ([4, 0, 0, 0] @ replicate 28 9) (linked ''100.64.0.2'') n
      = (False, n\<lparr>manager := Some (linked ''100.64.0.2'')\<rparr>)" for n
    by (simp add: receive_by_manager_def toy_world_def drain_def) (simp add: linked_def)
  show "receive_by_manager toy_world ([4, 0, 0, 0] @ replicate 28 9) (linked ''100.64.0.2'')
      ((toy_linked 2 ''100.64.0.2'')\<lparr>last_rx_endpoint := ntop [10, 0, 0, 2], last_rx_port := 41641\<rparr>)
    = (False, snd (receive_by_manager toy_world ([4, 0, 0, 0] @ replicate 28 9) (linked ''100.64.0.2'')
         ((toy_linked 2 ''100.64.0.2'')\<lparr>last_rx_endpoint := ntop [10, 0, 0, 2], last_rx_port := 41641\<rparr>)))"
    by (simp only: r snd_conv)
  show "list_all (\<lambda>s. CHR '':'' \<notin> set (s_endpoint s)) (sessions (snd (receive_by_manager toy_world ([4, 0, 0, 0] @ replicate 28 9)
     (linked ''100.64.0.2'') ((toy_linked 2 ''100.64.0.2'')\<lparr>last_rx_endpoint := ntop [10, 0, 0, 2], last_rx_port := 41641\<rparr>))))"
    by (simp only: r snd_conv) (simp add: toy_linked_sel toy_session_sel)
qed (simp_all add: toy_linked_sel linked_sel wg_packet_def wg_length_ok_def stun_packet_def)

section \<open>Disco over the relay\<close>

text \<open>
  C33. A pong that comes over the relay makes a false path: the relay's handler stands in the first
  four bytes of the sender's node key for a source address, so that address, with port 41641,
  becomes the peer's confirmed endpoint, and a node that prefers direct paths sends the next
  tunnel packet there and not to the relay.
\<close>

theorem relayed_pong_misroutes:
  assumes "w_unseal w = crypto_box_open_easy_simple sm ver" "sm priv sender = sm priv' pub"
    and "\<And>t m k. ver t m k = (t = ota m k)" "\<And>m k. length (ota m k) = 16"
    and "keyed (w_b64d w) priv pub (ds n)" "length sender = 32" "length nonce = 24" "sender \<noteq> pub" "rest \<noteq> []"
    and "crypto_box_easy_simple sm ota (2 # rest) nonce pub priv' = Some c"
    and "find (\<lambda>p. p_disco_key p = key_string sender) (cfg_peers (ds n)) = Some pr"
    and "i < length (sessions n)" "\<And>j. j < i \<Longrightarrow> s_hostname (sessions n ! j) \<noteq> p_hostname pr" "s_hostname (sessions n ! i) = p_hostname pr"
    and "4 \<le> length key" "prefer_direct_udp n" "\<not> derp_fallback_enabled (sessions n ! i)" "w_udp_ok w'"
  shows "let n' = handle_derp_packet w key (disco_frame sender nonce c) n in
    udp_out (ds (wg_transmit w' i q n')) = udp_out (ds n) @ [(take 4 key, 41641, q)] \<and> derp_out (wg_transmit w' i q n') = derp_out n"
proof -
  let ?f = "disco_frame sender nonce c"
  let ?d = "if length (2 # rest) > 64 then (ds n)\<lparr>overrun := True\<rparr> else ds n"
  have o: "w_unseal w c nonce sender priv = Some (2 # rest) \<and> length c = length (2 # rest) + 16"
    unfolding assms(1) by (rule sealed_box_opens [OF _ assms(3,4,10)]) (simp add: assms(2))
  have l: "18 \<le> length c" using o assms(9) by (cases rest) auto
  have "handle_derp_packet w key ?f n = run_disco w ?f (take 4 key) 41641 n"
    by (simp add: handle_derp_packet_def disco_frame_def DISCO_MAGIC_def)
  moreover have "handle_disco_packet (w_seal w) (w_unseal w) (w_b64d w) (w_b64e w) (w_fill w) (w_now w) ?f (take 4 key) 41641 (ds n)
      = handle_disco_pong (w_now w) (ntop (take 4 key)) 41641 (key_string sender) ?d"
    using assms(5-8) o l by (subst handle_frame [where priv = priv and pub = pub]) (auto simp: handle_message_def)
  moreover have mf: "map_first (\<lambda>s. s_hostname s = h) f ss = ss[k := f (ss ! k)]"
    if "k < length ss" "\<And>j. j < k \<Longrightarrow> s_hostname (ss ! j) \<noteq> h" "s_hostname (ss ! k) = h" for h f k and ss :: "peer_session list"
    using that
  proof (induction ss arbitrary: k)
    case (Cons s ss)
    show ?case
    proof (cases k)
      case (Suc k')
      have "s_hostname (ss ! j) \<noteq> h" if "j < k'" for j using Cons.prems(2) [of "Suc j"] Suc that by simp
      then have "map_first (\<lambda>s. s_hostname s = h) f ss = ss[k' := f (ss ! k')]"
        using Cons.prems(1,3) Suc by (intro Cons.IH) auto
      then show ?thesis using Cons.prems(2) [of 0] Suc by simp
    qed (use Cons.prems in simp)
  qed simp
  ultimately have d: "handle_derp_packet w key ?f n = n\<lparr>ds := (learn_endpoint (key_string sender) (ntop (take 4 key)) 41641 ?d)
      \<lparr>peer_sessions := (sessions n)[i := confirm_path (w_now w) (ntop (take 4 key)) 41641 (sessions n ! i)]\<rparr>\<rparr>"
    using assms(11-14) by (simp add: run_disco_def handle_disco_pong_def learn_endpoint_def)
  have p: "pton (ntop (take 4 key)) = Some (take 4 key)" using assms(15) by (intro pton_ntop4) simp
  have so: "d_socket_open (ds n)" using assms(5) by (simp add: keyed_def)
  show ?thesis unfolding d Let_def
    using assms(12,16-18) p so
    by (simp add: wg_transmit_def use_direct_def confirm_path_def udp_emit_def learn_endpoint_def Let_def)
qed

definition disco_world :: "nat world" where
  "disco_world = toy_world\<lparr>w_seal := toy_seal, w_unseal := crypto_box_open_easy_simple toy_mult (\<lambda>t m k. t = toy_auth m k),
     w_b64d := raw_bytes, w_b64e := raw_chars\<rparr>"

definition disco_node :: "nat node" where
  "disco_node = (toy_linked 2 ''100.64.0.2'')\<lparr>ds := toy_node 1 2\<rparr>"

theorem relayed_pong_misroutes_witness:
  "let n' = handle_derp_packet disco_world (key_of 66) (disco_frame (key_of 2) (replicate 24 5) (toy_box (2 # [0]))) disco_node in
    udp_out (ds (wg_transmit toy_world 0 [4] n')) = udp_out (ds disco_node) @ [(take 4 (key_of 66), 41641, [4])]
    \<and> derp_out (wg_transmit toy_world 0 [4] n') = derp_out disco_node"
proof (rule relayed_pong_misroutes [where sm = toy_mult and ota = toy_auth and ver = "\<lambda>t m k. t = toy_auth m k"
      and priv = "key_of 1" and pub = "key_of 1" and priv' = "key_of 2" and rest = "[0]" and pr = "cfg_peers (toy_node 1 2) ! 0"])
  show "keyed (w_b64d disco_world) (key_of 1) (key_of 1) (ds disco_node)"
    using toy_keyed [of 1 2] by (simp add: disco_world_def disco_node_def)
  show "crypto_box_easy_simple toy_mult toy_auth (2 # [0]) (replicate 24 5) (key_of 1) (key_of 2) = Some (toy_box (2 # [0]))"
    using toy_seal_box [of "2 # [0]"] by (simp add: toy_seal_def)
  show "find (\<lambda>p. p_disco_key p = key_string (key_of 2)) (cfg_peers (ds disco_node)) = Some (cfg_peers (toy_node 1 2) ! 0)"
    using toy_peers(1) [of 2 1] by (simp add: disco_node_def)
qed (simp_all add: disco_world_def disco_node_def toy_keys toy_world_def, simp_all add: toy_node_def toy_linked_def toy_fresh_def Let_def)

section \<open>The last datagram's source\<close>



end
