(* ===== verification/Blake2s.thy ===== *)
theory Blake2s
  imports Ts_Prelude
begin

text \<open>
  \<^verbatim>\<open>noise/src/crypto/blake2/blake2s.c\<close> and \<^verbatim>\<open>hash-blake2s.c\<close>: the hash under the
  Noise handshake. The context is a record, the word arrays are lists updated by index, the position
  in the block buffer keeps its eight bits. Both bodies of \<^verbatim>\<open>blake2s_transform\<close> are
  modelled, the scalar one of the device and the four-lane one of hosts with SSE2, and shown equal.
  A message that is absorbed in any number of pieces is hashed as the reference function of RFC
  7693, which is stated here on whole messages, hashes it.
\<close>

section \<open>The compression function\<close>

definition BLAKE2s_IV :: "u32 list" where
  "BLAKE2s_IV = [0x6A09E667, 0xBB67AE85, 0x3C6EF372, 0xA54FF53A, 0x510E527F, 0x9B05688C, 0x1F83D9AB, 0x5BE0CD19]"

definition sigma :: "nat list list" where
  "sigma =
    [[ 0,  1,  2,  3,  4,  5,  6,  7,  8,  9, 10, 11, 12, 13, 14, 15],
     [14, 10,  4,  8,  9, 15, 13,  6,  1, 12,  0,  2, 11,  7,  5,  3],
     [11,  8, 12,  0,  5,  2, 15, 13, 10, 14,  3,  6,  7,  1,  9,  4],
     [ 7,  9,  3,  1, 13, 12, 11, 14,  2,  6,  5, 10,  4,  0, 15,  8],
     [ 9,  0,  5,  7,  2,  4, 10, 15, 14,  1, 11, 12,  6,  8,  3, 13],
     [ 2, 12,  6, 10,  0, 11,  8,  3,  4, 13,  7,  5, 15, 14,  1,  9],
     [12,  5,  1, 15, 14, 13,  4, 10,  0,  7,  6,  3,  9,  2,  8, 11],
     [13, 11,  7, 14, 12,  1,  3,  9,  5,  0, 15,  4,  8,  6,  2, 10],
     [ 6, 15, 14,  9, 11,  3,  0,  8, 12,  2, 13,  7,  1,  4, 10,  5],
     [10,  2,  8,  4,  7,  6,  1,  5, 15, 11,  9, 14,  3, 12, 13,  0]]"

definition rightRotate :: "u32 \<Rightarrow> nat \<Rightarrow> u32" where
  "rightRotate x n = drop_bit n x OR push_bit (32 - n) x"

text \<open>The \<^verbatim>\<open>quarterRound\<close> macro on the elements at four indices of \<open>v\<close>.\<close>

definition quarterRound :: "u32 list \<Rightarrow> nat list \<Rightarrow> nat \<Rightarrow> nat \<Rightarrow> nat \<Rightarrow> nat \<Rightarrow> nat \<Rightarrow> u32 list \<Rightarrow> u32 list" where
  "quarterRound m row a b c d i v =
     (let v = v[a := v ! a + (v ! b + m ! (row ! (2 * i)))];
          v = v[d := rightRotate (v ! d XOR v ! a) 16];
          v = v[c := v ! c + v ! d];
          v = v[b := rightRotate (v ! b XOR v ! c) 12];
          v = v[a := v ! a + (v ! b + m ! (row ! (2 * i + 1)))];
          v = v[d := rightRotate (v ! d XOR v ! a) 8];
          v = v[c := v ! c + v ! d]
      in v[b := rightRotate (v ! b XOR v ! c) 7])"

definition blake2s_round :: "u32 list \<Rightarrow> nat list \<Rightarrow> u32 list \<Rightarrow> u32 list" where
  "blake2s_round m row v =
     (let v = quarterRound m row 0 4  8 12 0 v;
          v = quarterRound m row 1 5  9 13 1 v;
          v = quarterRound m row 2 6 10 14 2 v;
          v = quarterRound m row 3 7 11 15 3 v;
          v = quarterRound m row 0 5 10 15 4 v;
          v = quarterRound m row 1 6 11 12 5 v;
          v = quarterRound m row 2 7  8 13 6 v
      in quarterRound m row 3 4 9 14 7 v)"

definition words_le :: "bytes \<Rightarrow> u32 list" where
  "words_le d = map (\<lambda>i. get_le32 (d ! (4 * i)) (d ! (4 * i + 1)) (d ! (4 * i + 2)) (d ! (4 * i + 3))) [0..<16]"

definition blake2s_init :: "u32 list \<Rightarrow> u64 \<Rightarrow> u32 \<Rightarrow> u32 list" where
  "blake2s_init h t f0 =
     h @ take 4 BLAKE2s_IV @ [BLAKE2s_IV ! 4 XOR ucast t, BLAKE2s_IV ! 5 XOR ucast (drop_bit 32 t),
       BLAKE2s_IV ! 6 XOR f0, BLAKE2s_IV ! 7]"

definition compress :: "u32 list \<Rightarrow> bytes \<Rightarrow> u64 \<Rightarrow> u32 \<Rightarrow> u32 list" where
  "compress h data t f0 =
     (let v = fold (blake2s_round (words_le data)) sigma (blake2s_init h t f0)
      in map (\<lambda>i. h ! i XOR (v ! i XOR v ! (i + 8))) [0..<8])"

section \<open>The four-lane body\<close>

text \<open>
  The body compiled where \<^verbatim>\<open>__SSE2__\<close> is defined: rows of four words, a quarter
  round on whole rows, and shuffles that turn columns into diagonals.
\<close>

definition quarterRoundVec :: "u32 list \<Rightarrow> u32 list \<Rightarrow> u32 list \<times> u32 list \<times> u32 list \<times> u32 list
    \<Rightarrow> u32 list \<times> u32 list \<times> u32 list \<times> u32 list" where
  "quarterRoundVec mv0 mv1 v = (case v of (a, b, c, d) \<Rightarrow>
     let rot = (\<lambda>n x y. map (\<lambda>w. rightRotate w n) (map2 (XOR) x y));
         a = map2 (+) a (map2 (+) b mv0);
         d = rot 16 d a;
         c = map2 (+) c d;
         b = rot 12 b c;
         a = map2 (+) a (map2 (+) b mv1);
         d = rot 8 d a;
         c = map2 (+) c d;
         b = rot 7 b c
     in (a, b, c, d))"

definition shuffleLeft :: "nat \<Rightarrow> u32 list \<Rightarrow> u32 list" where
  "shuffleLeft k x = [x ! (k mod 4), x ! ((k + 1) mod 4), x ! ((k + 2) mod 4), x ! ((k + 3) mod 4)]"

definition blake2s_round_vec :: "u32 list \<Rightarrow> nat list \<Rightarrow> u32 list \<times> u32 list \<times> u32 list \<times> u32 list
    \<Rightarrow> u32 list \<times> u32 list \<times> u32 list \<times> u32 list" where
  "blake2s_round_vec m row v =
     (let at = (\<lambda>is. map (\<lambda>i. m ! (row ! i)) is)
      in case quarterRoundVec (at [0, 2, 4, 6]) (at [1, 3, 5, 7]) v of (v0, v1, v2, v3) \<Rightarrow>
         case quarterRoundVec (at [8, 10, 12, 14]) (at [9, 11, 13, 15])
                (v0, shuffleLeft 1 v1, shuffleLeft 2 v2, shuffleLeft 3 v3) of (v0, v1, v2, v3) \<Rightarrow>
           (v0, shuffleLeft 3 v1, shuffleLeft 2 v2, shuffleLeft 1 v3))"

definition compress_vec :: "u32 list \<Rightarrow> bytes \<Rightarrow> u64 \<Rightarrow> u32 \<Rightarrow> u32 list" where
  "compress_vec h data t f0 =
     (let v = (take 4 h, drop 4 h, take 4 BLAKE2s_IV,
               [BLAKE2s_IV ! 4 XOR ucast t, BLAKE2s_IV ! 5 XOR ucast (drop_bit 32 t), BLAKE2s_IV ! 6 XOR f0, BLAKE2s_IV ! 7])
      in case fold (blake2s_round_vec (words_le data)) sigma v of (v0, v1, v2, v3) \<Rightarrow>
           map2 (XOR) (take 4 h) (map2 (XOR) v0 v2) @ map2 (XOR) (drop 4 h) (map2 (XOR) v1 v3))"

section \<open>The context\<close>

record blake2s_state =
  b_h :: "u32 list"
  b_m :: bytes
  b_length :: u64
  b_posn :: u8

definition BLAKE2s_reset :: "blake2s_state \<Rightarrow> blake2s_state" where
  "BLAKE2s_reset c = c\<lparr>b_h := BLAKE2s_IV[0 := BLAKE2s_IV ! 0 XOR 0x01010020], b_length := 0, b_posn := 0\<rparr>"

definition blake2s_transform :: "bytes \<Rightarrow> u32 \<Rightarrow> blake2s_state \<Rightarrow> blake2s_state" where
  "blake2s_transform data f0 c = c\<lparr>b_h := compress (b_h c) data (b_length c) f0\<rparr>"

text \<open>A buffered full chunk that turned out not to be the last.\<close>

definition flush_chunk :: "blake2s_state \<Rightarrow> blake2s_state" where
  "flush_chunk c = (if b_posn c = 64 then (blake2s_transform (b_m c) 0 c)\<lparr>b_posn := 0\<rparr> else c)"

definition buffer_part :: "nat \<Rightarrow> bytes \<Rightarrow> blake2s_state \<Rightarrow> blake2s_state" where
  "buffer_part len d c = c\<lparr>b_m := take (unat (b_posn c)) (b_m c) @ take len d @ drop (unat (b_posn c) + len) (b_m c),
     b_posn := b_posn c + word_of_nat len, b_length := b_length c + word_of_nat len\<rparr>"

lemma flush_posn: "b_posn (flush_chunk c) \<noteq> 64"
  by (simp add: flush_chunk_def)

lemma free_room: "(p :: u8) \<noteq> 64 \<Longrightarrow> 0 < unat (64 - p)"
  by (metis eq_iff_diff_eq_0 gr0I unsigned_eq_0_iff)

function BLAKE2s_update :: "bytes \<Rightarrow> blake2s_state \<Rightarrow> blake2s_state" where
  "BLAKE2s_update d c =
     (if d = [] then c
      else
        let c = flush_chunk c
        in if length d > 64 \<and> b_posn c = 0
           then BLAKE2s_update (drop 64 d) (blake2s_transform (take 64 d) 0 (c\<lparr>b_length := b_length c + 64\<rparr>))
           else
             let len = min (unat (64 - b_posn c)) (length d)
             in BLAKE2s_update (drop len d) (buffer_part len d c))"
  by pat_completeness auto
termination
  by (relation "measure (\<lambda>(d, _). length d)") (auto simp: free_room flush_posn)

declare BLAKE2s_update.simps [simp del]

definition BLAKE2s_finish :: "blake2s_state \<Rightarrow> bytes \<times> blake2s_state" where
  "BLAKE2s_finish c =
     (let m = take (unat (b_posn c)) (b_m c) @ replicate (64 - unat (b_posn c)) 0;
          c = blake2s_transform m 0xFFFFFFFF (c\<lparr>b_m := m\<rparr>)
      in (concat (map put_le32 (b_h c)), c))"

section \<open>The two bodies agree\<close>

text \<open>The mixing function of RFC 7693 on four words: both quarter rounds compute it, lane by lane.\<close>

definition G :: "u32 \<Rightarrow> u32 \<Rightarrow> u32 \<times> u32 \<times> u32 \<times> u32 \<Rightarrow> u32 \<times> u32 \<times> u32 \<times> u32" where
  "G x y v = (case v of (a, b, c, d) \<Rightarrow>
     let a = a + (b + x); d = rightRotate (d XOR a) 16; c = c + d; b = rightRotate (b XOR c) 12;
         a = a + (b + y); d = rightRotate (d XOR a) 8; c = c + d; b = rightRotate (b XOR c) 7
     in (a, b, c, d))"

lemma four_updates:
  assumes "distinct [a, b, c, d]" "a < length v" "b < length v" "c < length v" "d < length v"
  shows "v[a := p, d := q, c := r, b := s, a := p', d := q', c := r', b := s'] = v[a := p', b := s', c := r', d := q']"
  using assms by (intro nth_equalityI) (auto simp: nth_list_update)

lemma quarterRound_G:
  assumes "G (m ! (row ! (2 * i))) (m ! (row ! (2 * i + 1))) (v ! a, v ! b, v ! c, v ! d) = (a', b', c', d')"
    and "distinct [a, b, c, d]" "a < length v" "b < length v" "c < length v" "d < length v"
  shows "quarterRound m row a b c d i v = v[a := a', b := b', c := c', d := d']"
  using assms by (auto simp: quarterRound_def G_def Let_def four_updates)

lemma quarterRoundVec_G:
  assumes "G x0 y0 (a0, b0, c0, d0) = (a0', b0', c0', d0')" "G x1 y1 (a1, b1, c1, d1) = (a1', b1', c1', d1')"
    and "G x2 y2 (a2, b2, c2, d2) = (a2', b2', c2', d2')" "G x3 y3 (a3, b3, c3, d3) = (a3', b3', c3', d3')"
  shows "quarterRoundVec [x0, x1, x2, x3] [y0, y1, y2, y3]
      ([a0, a1, a2, a3], [b0, b1, b2, b3], [c0, c1, c2, c3], [d0, d1, d2, d3])
    = ([a0', a1', a2', a3'], [b0', b1', b2', b3'], [c0', c1', c2', c3'], [d0', d1', d2', d3'])"
  using assms by (auto simp: quarterRoundVec_def G_def Let_def)

text \<open>The four rows of a state of sixteen words.\<close>

definition rows :: "u32 list \<Rightarrow> u32 list \<times> u32 list \<times> u32 list \<times> u32 list" where
  "rows v = (take 4 v, take 4 (drop 4 v), take 4 (drop 8 v), drop 12 v)"

text \<open>The round as the RFC states it: columns, then diagonals, on sixteen values.\<close>

fun mix_round :: "u32 list \<Rightarrow> nat list \<Rightarrow> u32 list \<Rightarrow> u32 list" where
  "mix_round m row [x0, x1, x2, x3, x4, x5, x6, x7, x8, x9, x10, x11, x12, x13, x14, x15] =
     (let g = (\<lambda>i j. G (m ! (row ! i)) (m ! (row ! j)))
      in case g 0 1 (x0, x4, x8, x12) of (a0, a4, a8, a12) \<Rightarrow>
         case g 2 3 (x1, x5, x9, x13) of (a1, a5, a9, a13) \<Rightarrow>
         case g 4 5 (x2, x6, x10, x14) of (a2, a6, a10, a14) \<Rightarrow>
         case g 6 7 (x3, x7, x11, x15) of (a3, a7, a11, a15) \<Rightarrow>
         case g 8 9 (a0, a5, a10, a15) of (b0, b5, b10, b15) \<Rightarrow>
         case g 10 11 (a1, a6, a11, a12) of (b1, b6, b11, b12) \<Rightarrow>
         case g 12 13 (a2, a7, a8, a13) of (b2, b7, b8, b13) \<Rightarrow>
         case g 14 15 (a3, a4, a9, a14) of (b3, b4, b9, b14) \<Rightarrow>
           [b0, b1, b2, b3, b4, b5, b6, b7, b8, b9, b10, b11, b12, b13, b14, b15])"
| "mix_round m row v = v"

lemma round_mix:
  assumes "length v = 16"
  shows "blake2s_round m row v = mix_round m row v"
    and "blake2s_round_vec m row (rows v) = rows (mix_round m row v)"
proof -
  obtain x0 x1 x2 x3 x4 x5 x6 x7 x8 x9 x10 x11 x12 x13 x14 x15
    where v: "v = [x0, x1, x2, x3, x4, x5, x6, x7, x8, x9, x10, x11, x12, x13, x14, x15]"
    using assms by (auto simp: length_Suc_conv numeral_eq_Suc)
  obtain a0 a4 a8 a12 where c0: "G (m ! (row ! 0)) (m ! (row ! Suc 0)) (x0, x4, x8, x12) = (a0, a4, a8, a12)" by (cases "G (m ! (row ! 0)) (m ! (row ! Suc 0)) (x0, x4, x8, x12)")
  obtain a1 a5 a9 a13 where c1: "G (m ! (row ! 2)) (m ! (row ! 3)) (x1, x5, x9, x13) = (a1, a5, a9, a13)" by (cases "G (m ! (row ! 2)) (m ! (row ! 3)) (x1, x5, x9, x13)")
  obtain a2 a6 a10 a14 where c2: "G (m ! (row ! 4)) (m ! (row ! 5)) (x2, x6, x10, x14) = (a2, a6, a10, a14)" by (cases "G (m ! (row ! 4)) (m ! (row ! 5)) (x2, x6, x10, x14)")
  obtain a3 a7 a11 a15 where c3: "G (m ! (row ! 6)) (m ! (row ! 7)) (x3, x7, x11, x15) = (a3, a7, a11, a15)" by (cases "G (m ! (row ! 6)) (m ! (row ! 7)) (x3, x7, x11, x15)")
  obtain b0 b5 b10 b15 where d0: "G (m ! (row ! 8)) (m ! (row ! 9)) (a0, a5, a10, a15) = (b0, b5, b10, b15)" by (cases "G (m ! (row ! 8)) (m ! (row ! 9)) (a0, a5, a10, a15)")
  obtain b1 b6 b11 b12 where d1: "G (m ! (row ! 10)) (m ! (row ! 11)) (a1, a6, a11, a12) = (b1, b6, b11, b12)" by (cases "G (m ! (row ! 10)) (m ! (row ! 11)) (a1, a6, a11, a12)")
  obtain b2 b7 b8 b13 where d2: "G (m ! (row ! 12)) (m ! (row ! 13)) (a2, a7, a8, a13) = (b2, b7, b8, b13)" by (cases "G (m ! (row ! 12)) (m ! (row ! 13)) (a2, a7, a8, a13)")
  obtain b3 b4 b9 b14 where d3: "G (m ! (row ! 14)) (m ! (row ! 15)) (a3, a4, a9, a14) = (b3, b4, b9, b14)" by (cases "G (m ! (row ! 14)) (m ! (row ! 15)) (a3, a4, a9, a14)")
  note g = c0 c1 c2 c3 d0 d1 d2 d3
  have mix: "mix_round m row v = [b0, b1, b2, b3, b4, b5, b6, b7, b8, b9, b10, b11, b12, b13, b14, b15]"
    unfolding v by (simp add: g)
  show "blake2s_round m row v = mix_round m row v"
    unfolding blake2s_round_def Let_def mix unfolding v by (simp add: quarterRound_G g)
  show "blake2s_round_vec m row (rows v) = rows (mix_round m row v)"
    unfolding blake2s_round_vec_def Let_def mix unfolding v
    by (simp add: rows_def quarterRoundVec_G g shuffleLeft_def)
qed

lemma round_rows: "length v = 16 \<Longrightarrow> rows (blake2s_round m row v) = blake2s_round_vec m row (rows v)"
  by (simp add: round_mix)

lemma length_quarterRound [simp]: "length (quarterRound m row a b c d i v) = length v"
  by (simp add: quarterRound_def Let_def)

lemma length_round [simp]: "length (blake2s_round m row v) = length v"
  by (simp add: blake2s_round_def Let_def)

lemma rounds_rows:
  "length v = 16 \<Longrightarrow> rows (fold (blake2s_round m) s v) = fold (blake2s_round_vec m) s (rows v)"
  by (induction s arbitrary: v) (simp_all add: round_rows)

lemma length_rounds [simp]: "length (fold (blake2s_round m) s v) = length v"
  by (induction s arbitrary: v) simp_all

text \<open>
  C20. The scalar and the four-lane body of the compression function compute the same chaining
  value, for every block, counter and final flag.
\<close>

theorem compress_vec_scalar:
  assumes "length h = 8"
  shows "compress_vec h data t f0 = compress h data t f0"
proof -
  define i where "i = blake2s_init h t f0"
  define v where "v = fold (blake2s_round (words_le data)) sigma i"
  have i: "length i = 16" using assms by (simp add: i_def blake2s_init_def BLAKE2s_IV_def)
  then have l: "length v = 16" by (simp add: v_def)
  have r: "rows i = (take 4 h, drop 4 h, take 4 BLAKE2s_IV,
      [BLAKE2s_IV ! 4 XOR ucast t, BLAKE2s_IV ! 5 XOR ucast (drop_bit 32 t), BLAKE2s_IV ! 6 XOR f0, BLAKE2s_IV ! 7])"
    using assms by (simp add: rows_def i_def blake2s_init_def BLAKE2s_IV_def)
  have "compress_vec h data t f0 = (case rows v of (v0, v1, v2, v3) \<Rightarrow>
      map2 (XOR) (take 4 h) (map2 (XOR) v0 v2) @ map2 (XOR) (drop 4 h) (map2 (XOR) v1 v3))"
    unfolding compress_vec_def Let_def v_def rounds_rows [OF i] r ..
  also have "\<dots> = map (\<lambda>i. h ! i XOR (v ! i XOR v ! (i + 8))) [0..<8]"
    using l assms by (intro nth_equalityI) (auto simp: rows_def nth_append min_def add.commute)
  finally show ?thesis unfolding compress_def Let_def v_def i_def .
qed

theorem compress_vec_scalar_witness:
  "compress_vec BLAKE2s_IV [1, 2] 3 0 = compress BLAKE2s_IV [1, 2] 3 0"
  by (rule compress_vec_scalar) (simp add: BLAKE2s_IV_def)

section \<open>The hash of a whole message\<close>

text \<open>
  RFC 7693 on whole messages: every block but the last is compressed with the number of bytes up to
  its end, the last one, padded with zeros, with the length of the message and the final flag. The
  empty message is one block of zeros.
\<close>

function chain :: "u32 list \<Rightarrow> nat \<Rightarrow> bytes \<Rightarrow> u32 list" where
  "chain h t d =
     (if d = [] then h else chain (compress h (take 64 d) (word_of_nat (t + 64)) 0) (t + 64) (drop 64 d))"
  by pat_completeness auto
termination by (relation "measure (\<lambda>(_, _, d). length d)") auto

declare chain.simps [simp del]

definition blake2s :: "bytes \<Rightarrow> bytes" where
  "blake2s msg =
     (let q = 64 * ((length msg - 1) div 64);
          h = chain (BLAKE2s_IV[0 := BLAKE2s_IV ! 0 XOR 0x01010020]) 0 (take q msg);
          last = drop q msg @ replicate (64 - (length msg - q)) 0
      in concat (map put_le32 (compress h last (word_of_nat (length msg)) 0xFFFFFFFF)))"

lemma chain_Nil [simp]: "chain h t [] = h"
  by (simp add: chain.simps)

lemma chain_step: "d \<noteq> [] \<Longrightarrow> chain h t d = chain (compress h (take 64 d) (word_of_nat (t + 64)) 0) (t + 64) (drop 64 d)"
  by (subst chain.simps) simp

lemma chain_append: "64 dvd length a \<Longrightarrow> chain h t (a @ b) = chain (chain h t a) (t + length a) b"
proof (induction h t a rule: chain.induct)
  case (1 h t a)
  show ?case
  proof (cases "a = []")
    case False
    then have l: "64 \<le> length a" using "1.prems" by (auto intro: dvd_imp_le)
    then have "64 dvd length (drop 64 a)" using "1.prems" by (simp add: dvd_diff_nat)
    note ih = "1.IH" [OF False this]
    show ?thesis using l ih by (simp add: chain_step [of a] chain_step [of "a @ b"] False)
  qed simp
qed

section \<open>Messages that arrive in pieces\<close>

text \<open>
  A context has absorbed a message when it has chained its first \<open>q\<close> bytes, whole blocks, and
  holds the rest in its buffer.
\<close>

definition absorbed :: "bytes \<Rightarrow> nat \<Rightarrow> blake2s_state \<Rightarrow> bool" where
  "absorbed msg q c \<longleftrightarrow> q \<le> length msg \<and> 64 dvd q \<and> length (b_m c) = 64 \<and> length msg - q \<le> 64
    \<and> b_h c = chain (BLAKE2s_IV[0 := BLAKE2s_IV ! 0 XOR 0x01010020]) 0 (take q msg)
    \<and> unat (b_posn c) = length msg - q \<and> take (length msg - q) (b_m c) = drop q msg
    \<and> b_length c = word_of_nat (length msg)"

text \<open>The last block is always kept back.\<close>

definition holds_message :: "bytes \<Rightarrow> blake2s_state \<Rightarrow> bool" where
  "holds_message msg c \<longleftrightarrow> (\<exists>q. absorbed msg q c \<and> (msg = [] \<or> q < length msg))"

lemma absorbed_reset: "length (b_m c) = 64 \<Longrightarrow> holds_message [] (BLAKE2s_reset c)"
  by (simp add: holds_message_def absorbed_def BLAKE2s_reset_def)

lemma absorbed_flush:
  assumes "absorbed msg q c" "b_posn c = 64"
  shows "absorbed msg (length msg) (flush_chunk c)"
proof -
  have l: "length msg = q + 64" "q \<le> length msg" using assms by (auto simp: absorbed_def)
  have d: "64 dvd q" "64 dvd length msg" using assms l by (auto simp: absorbed_def)
  have m: "b_m c = drop q msg" using assms l by (auto simp: absorbed_def)
  have "chain h 0 msg = chain (chain h 0 (take q msg)) q (drop q msg)" for h
    using chain_append [of "take q msg" h 0 "drop q msg"] d l by (simp add: min_def)
  also have "\<dots> h = compress (chain h 0 (take q msg)) (drop q msg) (word_of_nat (length msg)) 0" for h
    using l by (subst (1) chain.simps) (simp add: add.commute)
  finally show ?thesis using assms d m l by (simp add: flush_chunk_def blake2s_transform_def absorbed_def)
qed

lemma posn_64: "b_posn c = 64 \<longleftrightarrow> unat (b_posn c) = 64"
  by (simp add: word_unat_eq_iff)

lemma flush_other: "b_posn c \<noteq> 64 \<Longrightarrow> flush_chunk c = c"
  by (simp add: flush_chunk_def)

lemma absorbed_flushed: "absorbed msg q c \<Longrightarrow> \<exists>r. absorbed msg r (flush_chunk c) \<and> length msg - r < 64"
proof (cases "b_posn c = 64")
  case True
  then show "absorbed msg q c \<Longrightarrow> ?thesis" by (auto dest: absorbed_flush)
next
  case False
  then have "unat (b_posn c) \<noteq> 64" by (simp only: posn_64 not_False_eq_True)
  then show "absorbed msg q c \<Longrightarrow> ?thesis" using flush_other [OF False] by (auto simp: absorbed_def)
qed

lemma absorbed_direct:
  assumes "absorbed msg (length msg) c" "64 \<le> length d"
  shows "absorbed (msg @ take 64 d) (length msg + 64) (blake2s_transform (take 64 d) 0 (c\<lparr>b_length := b_length c + 64\<rparr>))"
proof -
  have d: "64 dvd length msg" using assms by (simp add: absorbed_def)
  have "chain h 0 (msg @ take 64 d) = compress (chain h 0 msg) (take 64 d) (word_of_nat (length msg + 64)) 0" for h
  proof -
    have "take 64 d \<noteq> []" using assms(2) by auto
    then show ?thesis using assms(2) by (simp add: chain_append [OF d] chain_step)
  qed
  then show ?thesis using assms d by (simp add: absorbed_def blake2s_transform_def min_def add.commute)
qed

lemma absorbed_buffer:
  assumes "absorbed msg q c" "length msg - q < 64" "len = min (unat (64 - b_posn c)) (length d)"
  shows "absorbed (msg @ take len d) q (buffer_part len d c)"
proof -
  let ?p = "length msg - q"
  have p: "unat (b_posn c) = ?p" and q: "q \<le> length msg" using assms(1) by (simp_all add: absorbed_def)
  have "b_posn c \<le> 64" using p assms(2) by (simp add: word_le_nat_alt)
  then have "unat (64 - b_posn c) = 64 - ?p" by (simp add: unat_sub p)
  with assms(3) have len: "len \<le> 64 - ?p" "len \<le> length d" by auto
  have u: "unat (b_posn c + word_of_nat len) = ?p + len"
  proof -
    have "unat (word_of_nat len :: u8) = len" using len assms(2) by (simp add: unat_of_nat)
    then show ?thesis using len assms(2) p by (subst unat_plus_if') auto
  qed
  have x: "length msg + len - q = ?p + len" using q by simp
  have l: "length (b_m c) = 64" "take ?p (b_m c) = drop q msg" using assms(1) by (simp_all add: absorbed_def)
  have t: "take (?p + len) (take ?p (b_m c) @ take len d @ drop (?p + len) (b_m c)) = drop q (msg @ take len d)"
    using l len q by simp
  have lm: "length (take ?p (b_m c) @ take len d @ drop (?p + len) (b_m c)) = 64" using l(1) len by simp
  have h: "take q (msg @ take len d) = take q msg" "length (msg @ take len d) = length msg + len" using q len by simp_all
  show ?thesis using assms(1) len q unfolding absorbed_def buffer_part_def h x p
    by (simp add: u t lm) (use assms(2) len(1) q in linarith)
qed

lemma update_absorbs:
  assumes "holds_message msg c"
  shows "holds_message (msg @ d) (BLAKE2s_update d c)"
proof -
  have "\<lbrakk>absorbed msg q c; d \<noteq> []\<rbrakk> \<Longrightarrow> \<exists>q. absorbed (msg @ d) q (BLAKE2s_update d c) \<and> q < length (msg @ d)" for q
  proof (induction d c arbitrary: msg q rule: BLAKE2s_update.induct)
    case (1 d c)
    obtain r where r: "absorbed msg r (flush_chunk c)" "length msg - r < 64"
      using absorbed_flushed [OF "1.prems"(1)] by blast
    let ?c = "flush_chunk c"
    show ?case
    proof (cases "length d > 64 \<and> b_posn ?c = 0")
      case True
      then have "r = length msg" using r by (auto simp: absorbed_def)
      with r True have a: "absorbed (msg @ take 64 d) (length msg + 64)
          (blake2s_transform (take 64 d) 0 (?c\<lparr>b_length := b_length ?c + 64\<rparr>))"
        by (intro absorbed_direct) auto
      have "drop 64 d \<noteq> []" using True by simp
      note ih = "1.IH"(1) [OF "1.prems"(2) refl True a this]
      moreover have "BLAKE2s_update d c
          = BLAKE2s_update (drop 64 d) (blake2s_transform (take 64 d) 0 (?c\<lparr>b_length := b_length ?c + 64\<rparr>))"
        using True "1.prems"(2) by (subst BLAKE2s_update.simps) (simp only: Let_def if_False if_True simp_thms)
      ultimately show ?thesis by simp
    next
      case False
      define len where "len = min (unat (64 - b_posn ?c)) (length d)"
      have u: "BLAKE2s_update d c = BLAKE2s_update (drop len d) (buffer_part len d ?c)"
        using "1.prems"(2) unfolding len_def
        by (subst BLAKE2s_update.simps) (simp only: Let_def False if_False)
      have a: "absorbed (msg @ take len d) r (buffer_part len d ?c)"
        by (rule absorbed_buffer [OF r len_def])
      have z: "0 < len" unfolding len_def using "1.prems"(2) free_room [OF flush_posn] by simp
      show ?thesis
      proof (cases "drop len d = []")
        case True
        moreover have "BLAKE2s_update [] x = x" for x by (simp add: BLAKE2s_update.simps)
        moreover have "r < length (msg @ d)" using r(1) "1.prems"(2) by (auto simp: absorbed_def intro: le_less_trans)
        ultimately show ?thesis using a u by auto
      next
        case ne: False
        from "1.IH"(2) [OF "1.prems"(2) refl False len_def a ne] u show ?thesis by simp
      qed
    qed
  qed
  moreover have "BLAKE2s_update [] c = c" by (simp add: BLAKE2s_update.simps)
  ultimately show ?thesis using assms by (cases "d = []") (auto simp: holds_message_def)
qed

lemma updates_absorb: "holds_message msg c \<Longrightarrow> holds_message (msg @ concat ds) (fold BLAKE2s_update ds c)"
proof (induction ds arbitrary: msg c)
  case (Cons d ds)
  from Cons.IH [OF update_absorbs [OF Cons.prems]] show ?case by simp
qed simp

lemma finish_hashes:
  assumes "holds_message msg c"
  shows "fst (BLAKE2s_finish c) = blake2s msg"
proof -
  obtain q where a: "absorbed msg q c" and q: "msg = [] \<or> q < length msg"
    using assms by (auto simp: holds_message_def)
  have "q = 64 * ((length msg - 1) div 64)"
  proof -
    obtain k where k: "q = 64 * k" using a by (auto simp: absorbed_def)
    with a q have "64 * k \<le> length msg" "length msg \<le> 64 * k + 64" "msg = [] \<or> 64 * k < length msg"
      by (auto simp: absorbed_def)
    then have "(length msg - 1) div 64 = k" by (cases "msg = []") (auto intro: div_nat_eqI)
    then show ?thesis using k by simp
  qed
  then show ?thesis using a
    by (simp add: BLAKE2s_finish_def blake2s_def blake2s_transform_def Let_def absorbed_def)
qed

lemma finish_buffer: "length (b_m c) = 64 \<Longrightarrow> b_posn c \<le> 64 \<Longrightarrow> length (b_m (snd (BLAKE2s_finish c))) = 64"
  by (simp add: BLAKE2s_finish_def blake2s_transform_def Let_def word_le_nat_alt)

text \<open>
  C11. However a message is cut into pieces, the context hashes it to the RFC's value: the pieces
  may end in the middle of a block, at its end, or be empty.
\<close>

theorem blake2s_any_pieces:
  assumes "length (b_m c) = 64"
  shows "fst (BLAKE2s_finish (fold BLAKE2s_update ds (BLAKE2s_reset c))) = blake2s (concat ds)"
  using updates_absorb [OF absorbed_reset [OF assms]] by (auto dest: finish_hashes)

theorem blake2s_any_pieces_witness:
  "fst (BLAKE2s_finish (fold BLAKE2s_update [[1, 2], [], replicate 100 3]
     (BLAKE2s_reset \<lparr>b_h = [], b_m = replicate 64 7, b_length = 5, b_posn = 9\<rparr>))) = blake2s (concat [[1, 2], [], replicate 100 3])"
  by (rule blake2s_any_pieces) simp

end
