(* ===== verification/Blake2s_Check.thy ===== *)
theory Blake2s_Check
  imports Blake2s
begin

text \<open>
  The hash model on the example of RFC 7693, appendix B, evaluated round by round: it shows that the
  constants, the message schedule and the order of the statements were copied right.
\<close>

text \<open>The ten rounds of the example in appendix B of RFC 7693, the hash of \<^verbatim>\<open>abc\<close>.\<close>

lemma G_numbers:
  "G x y (a, b, c, d) = (let a = a + (b + x); d = rightRotate (d XOR a) 16; c = c + d; b = rightRotate (b XOR c) 12;
     a = a + (b + y); d = rightRotate (d XOR a) 8; c = c + d; b = rightRotate (b XOR c) 7 in (a, b, c, d))"
  by (simp add: G_def)

text \<open>Rotation of a literal, on integers, so that the simplifier can evaluate it.\<close>

lemma rotate_literal:
  "rightRotate (numeral w) n =
     word_of_int (drop_bit n (take_bit 32 (numeral w)) OR take_bit 32 (push_bit (32 - n) (take_bit 32 (numeral w))))"
proof -
  have "rightRotate x n = word_of_int (drop_bit n (uint x) OR take_bit 32 (push_bit (32 - n) (uint x)))" for x
    by (rule bit_word_eqI) (auto simp: rightRotate_def bit_simps)
  moreover have "uint (word_of_int (numeral w) :: u32) = take_bit 32 (numeral w)"
    by (simp only: uint_word_of_int_eq) simp
  ultimately show ?thesis by (simp only: of_int_numeral)
qed

definition abc_block :: "u32 list" where
  "abc_block = 0x00636261 # replicate 15 0"

lemma abc_block_nth: "abc_block ! 0 = 0x00636261" "0 < i \<Longrightarrow> i < 16 \<Longrightarrow> abc_block ! i = 0"
  by (auto simp: abc_block_def nth_Cons')

lemma abc_round_1:
  "mix_round abc_block [0, 1, 2, 3, 4, 5, 6, 7, 8, 9, 10, 11, 12, 13, 14, 15]
   [0x6b08e647, 0xbb67ae85, 0x3c6ef372, 0xa54ff53a, 0x510e527f, 0x9b05688c, 0x1f83d9ab, 0x5be0cd19,
    0x6a09e667, 0xbb67ae85, 0x3c6ef372, 0xa54ff53a, 0x510e527c, 0x9b05688c, 0xe07c2654, 0x5be0cd19] =
   [0x16a3242e, 0xd7b5e238, 0xce8ce24b, 0x927aede1, 0xa7b430d9, 0x93a4a14e, 0xa44e7c31, 0x41d4759b,
    0x95bf33d3, 0x9a99c181, 0x608a3a6b, 0xb666383e, 0x7a8dd50f, 0xbe378ed7, 0x353d1ee6, 0x3bb44c6b]"
  by (simp add: G_numbers Let_def rotate_literal abc_block_nth)

lemma abc_round_2:
  "mix_round abc_block [14, 10, 4, 8, 9, 15, 13, 6, 1, 12, 0, 2, 11, 7, 5, 3]
   [0x16a3242e, 0xd7b5e238, 0xce8ce24b, 0x927aede1, 0xa7b430d9, 0x93a4a14e, 0xa44e7c31, 0x41d4759b,
    0x95bf33d3, 0x9a99c181, 0x608a3a6b, 0xb666383e, 0x7a8dd50f, 0xbe378ed7, 0x353d1ee6, 0x3bb44c6b] =
   [0x3ae30fe3, 0x0982a96b, 0xe88185b4, 0x3e339b16, 0xf24338cd, 0x0e66d326, 0xe005ed0c, 0xd591a277,
    0x180b1f3a, 0xfcf43914, 0x30db62d6, 0x4847831c, 0x7f00c58e, 0xfb847886, 0xc544e836, 0x524ab0e2]"
  by (simp add: G_numbers Let_def rotate_literal abc_block_nth)

lemma abc_round_3:
  "mix_round abc_block [11, 8, 12, 0, 5, 2, 15, 13, 10, 14, 3, 6, 7, 1, 9, 4]
   [0x3ae30fe3, 0x0982a96b, 0xe88185b4, 0x3e339b16, 0xf24338cd, 0x0e66d326, 0xe005ed0c, 0xd591a277,
    0x180b1f3a, 0xfcf43914, 0x30db62d6, 0x4847831c, 0x7f00c58e, 0xfb847886, 0xc544e836, 0x524ab0e2] =
   [0x7a3be783, 0x997546c1, 0xd45246df, 0xedb5f821, 0x7f98a742, 0x10e864e2, 0xd4ab70d0, 0xc63cb1ab,
    0x6038da9e, 0x414594b0, 0xf2c218b5, 0x8da0dcb7, 0xd7cd7af5, 0xab4909df, 0x85031a52, 0xc4edfc98]"
  by (simp add: G_numbers Let_def rotate_literal abc_block_nth)

lemma abc_round_4:
  "mix_round abc_block [7, 9, 3, 1, 13, 12, 11, 14, 2, 6, 5, 10, 4, 0, 15, 8]
   [0x7a3be783, 0x997546c1, 0xd45246df, 0xedb5f821, 0x7f98a742, 0x10e864e2, 0xd4ab70d0, 0xc63cb1ab,
    0x6038da9e, 0x414594b0, 0xf2c218b5, 0x8da0dcb7, 0xd7cd7af5, 0xab4909df, 0x85031a52, 0xc4edfc98] =
   [0x2a8b8cb7, 0x1aca82b2, 0x14045d7f, 0xcc7258ed, 0x383cf67c, 0xe090e7f9, 0x3025d276, 0x57d04de4,
    0x994bacf0, 0xf0982759, 0xf17ee300, 0xd48fc2d5, 0xdc854c10, 0x523898a9, 0xc03a0f89, 0x47d6cd88]"
  by (simp add: G_numbers Let_def rotate_literal abc_block_nth)

lemma abc_round_5:
  "mix_round abc_block [9, 0, 5, 7, 2, 4, 10, 15, 14, 1, 11, 12, 6, 8, 3, 13]
   [0x2a8b8cb7, 0x1aca82b2, 0x14045d7f, 0xcc7258ed, 0x383cf67c, 0xe090e7f9, 0x3025d276, 0x57d04de4,
    0x994bacf0, 0xf0982759, 0xf17ee300, 0xd48fc2d5, 0xdc854c10, 0x523898a9, 0xc03a0f89, 0x47d6cd88] =
   [0xc4aa2ddb, 0x111343a3, 0xd54a700a, 0x574a00a9, 0x857d5a48, 0xb1e11989, 0x6f5c52df, 0xdd2c53a3,
    0x678e5f8e, 0x9718d4e9, 0x622cb684, 0x92976076, 0x0e41a517, 0x359dc2be, 0x87a87ddd, 0x643f9cec]"
  by (simp add: G_numbers Let_def rotate_literal abc_block_nth)

lemma abc_round_6:
  "mix_round abc_block [2, 12, 6, 10, 0, 11, 8, 3, 4, 13, 7, 5, 15, 14, 1, 9]
   [0xc4aa2ddb, 0x111343a3, 0xd54a700a, 0x574a00a9, 0x857d5a48, 0xb1e11989, 0x6f5c52df, 0xdd2c53a3,
    0x678e5f8e, 0x9718d4e9, 0x622cb684, 0x92976076, 0x0e41a517, 0x359dc2be, 0x87a87ddd, 0x643f9cec] =
   [0x3453921c, 0xd7595ee1, 0x592e776d, 0x3ed6a974, 0x4d997cb3, 0xde9212c3, 0x35adf5c9, 0x9916fd65,
    0x96562e89, 0x4ead0792, 0xebfc2712, 0x2385f5b2, 0xf34600fb, 0xd7bc20fb, 0xeb452a7b, 0xece1aa40]"
  by (simp add: G_numbers Let_def rotate_literal abc_block_nth)

lemma abc_round_7:
  "mix_round abc_block [12, 5, 1, 15, 14, 13, 4, 10, 0, 7, 6, 3, 9, 2, 8, 11]
   [0x3453921c, 0xd7595ee1, 0x592e776d, 0x3ed6a974, 0x4d997cb3, 0xde9212c3, 0x35adf5c9, 0x9916fd65,
    0x96562e89, 0x4ead0792, 0xebfc2712, 0x2385f5b2, 0xf34600fb, 0xd7bc20fb, 0xeb452a7b, 0xece1aa40] =
   [0xbe851b2d, 0xa85f6358, 0x81e6fc3b, 0x0bb28000, 0xfa55a33a, 0x87be1fad, 0x4119370f, 0x1e2261aa,
    0xa1318fd3, 0xf4329816, 0x071783c2, 0x6e536a8d, 0x9a81a601, 0xe7ec80f1, 0xacc09948, 0xf849a584]"
  by (simp add: G_numbers Let_def rotate_literal abc_block_nth)

lemma abc_round_8:
  "mix_round abc_block [13, 11, 7, 14, 12, 1, 3, 9, 5, 0, 15, 4, 8, 6, 2, 10]
   [0xbe851b2d, 0xa85f6358, 0x81e6fc3b, 0x0bb28000, 0xfa55a33a, 0x87be1fad, 0x4119370f, 0x1e2261aa,
    0xa1318fd3, 0xf4329816, 0x071783c2, 0x6e536a8d, 0x9a81a601, 0xe7ec80f1, 0xacc09948, 0xf849a584] =
   [0x07e5b85a, 0x069cc164, 0xf9de3141, 0xa56f4680, 0x9e440ad2, 0x9ab659ea, 0x3c84b971, 0x21dbd9cf,
    0x46699f8c, 0x765257ec, 0xaf1d998c, 0x75e4c3b6, 0x523878dc, 0x30715015, 0x397fee81, 0x4f1fa799]"
  by (simp add: G_numbers Let_def rotate_literal abc_block_nth)

lemma abc_round_9:
  "mix_round abc_block [6, 15, 14, 9, 11, 3, 0, 8, 12, 2, 13, 7, 1, 4, 10, 5]
   [0x07e5b85a, 0x069cc164, 0xf9de3141, 0xa56f4680, 0x9e440ad2, 0x9ab659ea, 0x3c84b971, 0x21dbd9cf,
    0x46699f8c, 0x765257ec, 0xaf1d998c, 0x75e4c3b6, 0x523878dc, 0x30715015, 0x397fee81, 0x4f1fa799] =
   [0x435148c4, 0xa5aa2d11, 0x4b354173, 0xd543bc9e, 0xbda2591c, 0xbf1d2569, 0x4fcb3120, 0x707ada48,
    0x565b3fde, 0x32c9c916, 0xeaf4a1ab, 0xb1018f28, 0x8078d978, 0x68ade4b5, 0x9778fda3, 0x2863b92e]"
  by (simp add: G_numbers Let_def rotate_literal abc_block_nth)

lemma abc_round_10:
  "mix_round abc_block [10, 2, 8, 4, 7, 6, 1, 5, 15, 11, 9, 14, 3, 12, 13, 0]
   [0x435148c4, 0xa5aa2d11, 0x4b354173, 0xd543bc9e, 0xbda2591c, 0xbf1d2569, 0x4fcb3120, 0x707ada48,
    0x565b3fde, 0x32c9c916, 0xeaf4a1ab, 0xb1018f28, 0x8078d978, 0x68ade4b5, 0x9778fda3, 0x2863b92e] =
   [0xd9c994aa, 0xcfec3aa6, 0x700d0ab2, 0x2c38670e, 0xaf6a1f66, 0x1d023ef3, 0x1d9ec27d, 0x945357a5,
    0x3e9ffebd, 0x969fe811, 0xef485e21, 0xa632797a, 0xdeef082e, 0xaf3d80e1, 0x4e86829b, 0x4deafd3a]"
  by (simp add: G_numbers Let_def rotate_literal abc_block_nth)

lemmas abc_rounds = abc_round_1 abc_round_2 abc_round_3 abc_round_4 abc_round_5
  abc_round_6 abc_round_7 abc_round_8 abc_round_9 abc_round_10

lemma words_le_abc: "words_le ([97, 98, 99] @ replicate 61 0) = abc_block"
proof (rule nth_equalityI)
  fix i assume "i < length (words_le ([97, 98, 99] @ replicate 61 0))"
  then have i: "i < 16" by (simp add: words_le_def)
  show "words_le ([97, 98, 99] @ replicate 61 0) ! i = abc_block ! i"
  proof (cases "i = 0")
    case True
    then show ?thesis by (simp add: words_le_def abc_block_def get_le32_def)
  next
    case False
    then show ?thesis using i by (simp add: words_le_def abc_block_def get_le32_def nth_append nth_Cons')
  qed
qed (simp add: words_le_def abc_block_def)

lemma upt_8: "[0..<8] = [0, 1, 2, 3, 4, 5, 6, 7 :: nat]"
  by (simp add: upt_rec)

lemma blake2s_abc:
  "blake2s [97, 98, 99] =
   [0x50, 0x8c, 0x5e, 0x8c, 0x32, 0x7c, 0x14, 0xe2, 0xe1, 0xa7, 0x2b, 0xa3, 0x4e, 0xeb, 0x45, 0x2f,
    0x37, 0x45, 0x8b, 0x20, 0x9e, 0xd6, 0x3a, 0x29, 0x4d, 0x99, 0x9b, 0x4c, 0x86, 0x67, 0x59, 0x82]"
proof -
  have i: "blake2s_init (BLAKE2s_IV[0 := BLAKE2s_IV ! 0 XOR 0x01010020]) 3 0xFFFFFFFF =
   [0x6b08e647, 0xbb67ae85, 0x3c6ef372, 0xa54ff53a, 0x510e527f, 0x9b05688c, 0x1f83d9ab, 0x5be0cd19,
    0x6a09e667, 0xbb67ae85, 0x3c6ef372, 0xa54ff53a, 0x510e527c, 0x9b05688c, 0xe07c2654, 0x5be0cd19]"
    by (simp add: blake2s_init_def BLAKE2s_IV_def)
  have "fold (blake2s_round abc_block) sigma (blake2s_init (BLAKE2s_IV[0 := BLAKE2s_IV ! 0 XOR 0x01010020]) 3 0xFFFFFFFF) =
   [0xd9c994aa, 0xcfec3aa6, 0x700d0ab2, 0x2c38670e, 0xaf6a1f66, 0x1d023ef3, 0x1d9ec27d, 0x945357a5,
    0x3e9ffebd, 0x969fe811, 0xef485e21, 0xa632797a, 0xdeef082e, 0xaf3d80e1, 0x4e86829b, 0x4deafd3a]"
    unfolding i sigma_def by (simp add: round_mix(1) abc_rounds del: mix_round.simps One_nat_def)
  then have "compress (BLAKE2s_IV[0 := BLAKE2s_IV ! 0 XOR 0x01010020]) ([97, 98, 99] @ replicate 61 0) 3 0xFFFFFFFF = [0x8c5e8c50, 0xe2147c32, 0xa32ba7e1, 0x2f45eb4e, 0x208b4537, 0x293ad69e, 0x4c9b994d, 0x82596786]"
    unfolding compress_def words_le_abc Let_def by (simp only: upt_8 list.map) (simp add: BLAKE2s_IV_def)
  then show ?thesis
    by (simp add: blake2s_def Let_def put_le32_def)
qed

end
