(* ===== verification/Noise_Hash.thy ===== *)
theory Noise_Hash
  imports Blake2s
begin

text \<open>
  \<^verbatim>\<open>noise/src/protocol/hashstate.c\<close>: hashing in one or two pieces, HMAC, and the
  two and three output key derivations, over the one hash that is compiled in
  (\<^verbatim>\<open>hash-blake2s.c\<close>: hash length 32, block length 64). The hash object is the
  BLAKE2s context, which every operation resets before use, and the results are shown to be
  functions of the data alone. Null arguments, which the callers of this program never pass, are not
  modelled; the wiping of temporaries is left out.
\<close>

text \<open>
  The error codes of \<^verbatim>\<open>constants.h\<close>, and one more for a step on which the code would read
  through a null pointer.
\<close>

datatype noise_error =
    NOISE_ERROR_NONE
  | NOISE_ERROR_NO_MEMORY
  | NOISE_ERROR_UNKNOWN_ID
  | NOISE_ERROR_UNKNOWN_NAME
  | NOISE_ERROR_MAC_FAILURE
  | NOISE_ERROR_NOT_APPLICABLE
  | NOISE_ERROR_REMOTE_KEY_REQUIRED
  | NOISE_ERROR_LOCAL_KEY_REQUIRED
  | NOISE_ERROR_PSK_REQUIRED
  | NOISE_ERROR_INVALID_LENGTH
  | NOISE_ERROR_INVALID_PARAM
  | NOISE_ERROR_INVALID_STATE
  | NOISE_ERROR_INVALID_NONCE
  | NOISE_ERROR_INVALID_PRIVATE_KEY
  | NOISE_ERROR_INVALID_PUBLIC_KEY
  | NULL_DEREFERENCE

definition HASH_LEN :: nat where "HASH_LEN = 32"
definition BLOCK_LEN :: nat where "BLOCK_LEN = 64"

text \<open>\<^verbatim>\<open>reset\<close>, some \<^verbatim>\<open>update\<close>s and \<^verbatim>\<open>finalize\<close> of the hash object.\<close>

definition hash_pieces :: "bytes list \<Rightarrow> blake2s_state \<Rightarrow> bytes \<times> blake2s_state" where
  "hash_pieces ds c = BLAKE2s_finish (fold BLAKE2s_update ds (BLAKE2s_reset c))"

definition noise_hashstate_hash_one :: "bytes \<Rightarrow> nat \<Rightarrow> blake2s_state \<Rightarrow> noise_error + bytes \<times> blake2s_state" where
  "noise_hashstate_hash_one data hash_len c =
     (if hash_len \<noteq> HASH_LEN then Inl NOISE_ERROR_INVALID_LENGTH else Inr (hash_pieces [data] c))"

definition noise_hashstate_hash_two :: "bytes \<Rightarrow> bytes \<Rightarrow> nat \<Rightarrow> blake2s_state \<Rightarrow> noise_error + bytes \<times> blake2s_state" where
  "noise_hashstate_hash_two data1 data2 hash_len c =
     (if hash_len \<noteq> HASH_LEN then Inl NOISE_ERROR_INVALID_LENGTH else Inr (hash_pieces [data1, data2] c))"

definition HMAC_IPAD :: u8 where "HMAC_IPAD = 0x36"
definition HMAC_OPAD :: u8 where "HMAC_OPAD = 0x5C"

definition xor_key :: "u8 \<Rightarrow> bytes \<Rightarrow> bytes" where
  "xor_key value key = map (\<lambda>b. b XOR value) key"

definition noise_hashstate_hmac :: "bytes \<Rightarrow> bytes \<Rightarrow> bytes option \<Rightarrow> blake2s_state \<Rightarrow> bytes \<times> blake2s_state" where
  "noise_hashstate_hmac key data1 data2 c =
     (let (key_block, c) =
            (if length key \<le> BLOCK_LEN then (key @ replicate (BLOCK_LEN - length key) 0, c)
             else case hash_pieces [key] c of (k, c) \<Rightarrow> (k @ replicate (BLOCK_LEN - HASH_LEN) 0, c));
          key_block = xor_key HMAC_IPAD key_block;
          (hash, c) = hash_pieces ([key_block, data1] @ (case data2 of None \<Rightarrow> [] | Some d \<Rightarrow> [d])) c;
          key_block = xor_key (HMAC_IPAD XOR HMAC_OPAD) key_block
      in hash_pieces [key_block, hash] c)"

definition noise_hashstate_hkdf :: "bytes \<Rightarrow> bytes \<Rightarrow> nat \<Rightarrow> nat \<Rightarrow> blake2s_state \<Rightarrow> noise_error + (bytes \<times> bytes) \<times> blake2s_state" where
  "noise_hashstate_hkdf key data len1 len2 c =
     (if len1 > HASH_LEN \<or> len2 > HASH_LEN then Inl NOISE_ERROR_INVALID_LENGTH
      else
        let (temp_key, c) = noise_hashstate_hmac key data None c;
            (hash1, c) = noise_hashstate_hmac temp_key [0x01] None c;
            (hash2, c) = noise_hashstate_hmac temp_key (hash1 @ [0x02]) None c
        in Inr ((take len1 hash1, take len2 hash2), c))"

definition noise_hashstate_hkdf3 ::
    "bytes \<Rightarrow> bytes \<Rightarrow> nat \<Rightarrow> nat \<Rightarrow> nat \<Rightarrow> blake2s_state \<Rightarrow> noise_error + (bytes \<times> bytes \<times> bytes) \<times> blake2s_state" where
  "noise_hashstate_hkdf3 key data len1 len2 len3 c =
     (if len1 > HASH_LEN \<or> len2 > HASH_LEN \<or> len3 > HASH_LEN then Inl NOISE_ERROR_INVALID_LENGTH
      else
        let (temp_key, c) = noise_hashstate_hmac key data None c;
            (hash1, c) = noise_hashstate_hmac temp_key [0x01] None c;
            (hash2, c) = noise_hashstate_hmac temp_key (hash1 @ [0x02]) None c;
            (hash3, c) = noise_hashstate_hmac temp_key (hash2 @ [0x03]) None c
        in Inr ((take len1 hash1, take len2 hash2, take len3 hash3), c))"

section \<open>Functions of the data\<close>

text \<open>A hash object between two calls: nothing of its past matters but the size of its buffer.\<close>

definition hash_ok :: "blake2s_state \<Rightarrow> bool" where
  "hash_ok c \<longleftrightarrow> length (b_m c) = 64"

lemma finish_ok:
  assumes "holds_message msg c"
  shows "hash_ok (snd (BLAKE2s_finish c))"
proof -
  have "b_posn c \<le> 64" "length (b_m c) = 64"
    using assms by (auto simp: holds_message_def absorbed_def word_le_nat_alt)
  then show ?thesis by (simp add: finish_buffer hash_ok_def)
qed

lemma length_put_le32s: "length (concat (map put_le32 ws)) = 4 * length ws"
  by (induction ws) simp_all

lemma length_blake2s [simp]: "length (blake2s msg) = HASH_LEN"
  unfolding blake2s_def Let_def length_put_le32s by (simp add: compress_def Let_def HASH_LEN_def)

lemma hash_pieces_ok:
  assumes "hash_ok c"
  obtains c' where "hash_pieces ds c = (blake2s (concat ds), c')" "hash_ok c'"
proof -
  have "holds_message ([] @ concat ds) (fold BLAKE2s_update ds (BLAKE2s_reset c))"
    by (rule updates_absorb, rule absorbed_reset) (use assms in \<open>simp add: hash_ok_def\<close>)
  then have "fst (hash_pieces ds c) = blake2s (concat ds)" "hash_ok (snd (hash_pieces ds c))"
    by (auto simp: hash_pieces_def dest: finish_hashes finish_ok)
  then show thesis by (intro that [of "snd (hash_pieces ds c)"]) (auto simp: prod_eq_iff)
qed

text \<open>HMAC and the key derivation of the Noise specification, on whole messages.\<close>

definition hmac :: "bytes \<Rightarrow> bytes \<Rightarrow> bytes" where
  "hmac key data =
     (let k = (if length key \<le> BLOCK_LEN then key else blake2s key);
          block = k @ replicate (BLOCK_LEN - length k) 0
      in blake2s (xor_key HMAC_OPAD block @ blake2s (xor_key HMAC_IPAD block @ data)))"

definition hkdf :: "bytes \<Rightarrow> bytes \<Rightarrow> bytes \<times> bytes" where
  "hkdf key data =
     (let t = hmac key data; o1 = hmac t [1] in (o1, hmac t (o1 @ [2])))"

definition hkdf3 :: "bytes \<Rightarrow> bytes \<Rightarrow> bytes \<times> bytes \<times> bytes" where
  "hkdf3 key data =
     (let t = hmac key data; o1 = hmac t [1]; o2 = hmac t (o1 @ [2]) in (o1, o2, hmac t (o2 @ [3])))"

lemma xor_key_pads: "xor_key (HMAC_IPAD XOR HMAC_OPAD) (xor_key HMAC_IPAD b) = xor_key HMAC_OPAD b"
  by (simp add: xor_key_def xor.assoc [symmetric]) (simp add: xor.assoc xor.left_commute)

lemma length_hmac [simp]: "length (hmac k d) = HASH_LEN"
  by (simp add: hmac_def Let_def)

lemma hmac_ok:
  assumes "hash_ok c"
  obtains c' where "noise_hashstate_hmac key d1 d2 c = (hmac key (d1 @ (case d2 of None \<Rightarrow> [] | Some d \<Rightarrow> d)), c')" "hash_ok c'"
proof -
  let ?k = "if length key \<le> BLOCK_LEN then key else blake2s key"
  let ?block = "?k @ replicate (BLOCK_LEN - length ?k) 0"
  let ?ds = "[xor_key HMAC_IPAD ?block, d1] @ (case d2 of None \<Rightarrow> [] | Some d \<Rightarrow> [d])"
  obtain c1 where c1: "hash_pieces [key] c = (blake2s key, c1)" "hash_ok c1"
    using hash_pieces_ok [OF assms, of "[key]"] by auto
  let ?c = "if length key \<le> BLOCK_LEN then c else c1"
  have ok: "hash_ok ?c" using assms c1(2) by simp
  obtain c2 where c2: "hash_pieces ?ds ?c = (blake2s (concat ?ds), c2)" "hash_ok c2"
    using hash_pieces_ok [OF ok, of ?ds] by blast
  obtain c3 where c3: "hash_pieces [xor_key HMAC_OPAD ?block, blake2s (concat ?ds)] c2
      = (blake2s (concat [xor_key HMAC_OPAD ?block, blake2s (concat ?ds)]), c3)" "hash_ok c3"
    using hash_pieces_ok [OF c2(2)] by blast
  have b: "(if length key \<le> BLOCK_LEN then (key @ replicate (BLOCK_LEN - length key) 0, c)
      else case hash_pieces [key] c of (k, c) \<Rightarrow> (k @ replicate (BLOCK_LEN - HASH_LEN) 0, c)) = (?block, ?c)"
    using c1 by simp
  have "noise_hashstate_hmac key d1 d2 c = (blake2s (concat [xor_key HMAC_OPAD ?block, blake2s (concat ?ds)]), c3)"
    unfolding noise_hashstate_hmac_def b Let_def prod.case c2(1) xor_key_pads by (rule c3(1))
  moreover have "concat ?ds = xor_key HMAC_IPAD ?block @ d1 @ (case d2 of None \<Rightarrow> [] | Some d \<Rightarrow> d)"
    by (cases d2) simp_all
  ultimately show thesis using c3(2) by (intro that [of c3]) (simp_all add: hmac_def Let_def)
qed

lemma hash_two_ok:
  assumes "hash_ok c"
  obtains c' where "noise_hashstate_hash_two d1 d2 HASH_LEN c = Inr (blake2s (d1 @ d2), c')" "hash_ok c'"
  using hash_pieces_ok [OF assms, of "[d1, d2]"] by (auto simp: noise_hashstate_hash_two_def)

lemma hkdf_ok:
  assumes "hash_ok c" "len1 \<le> HASH_LEN" "len2 \<le> HASH_LEN"
  obtains c' where "noise_hashstate_hkdf key d len1 len2 c
      = Inr ((take len1 (fst (hkdf key d)), take len2 (snd (hkdf key d))), c')" "hash_ok c'"
proof -
  obtain c1 where c1: "noise_hashstate_hmac key d None c = (hmac key d, c1)" "hash_ok c1"
    using hmac_ok [OF assms(1), of key d None] by auto
  let ?t = "hmac key d"
  obtain c2 where c2: "noise_hashstate_hmac ?t [1] None c1 = (hmac ?t [1], c2)" "hash_ok c2"
    using hmac_ok [OF c1(2), of ?t "[1]" None] by auto
  obtain c3 where c3: "noise_hashstate_hmac ?t (hmac ?t [1] @ [2]) None c2 = (hmac ?t (hmac ?t [1] @ [2]), c3)" "hash_ok c3"
    using hmac_ok [OF c2(2), of ?t "hmac ?t [1] @ [2]" None] by auto
  show thesis using assms c1 c2 c3
    by (intro that [of c3]) (simp_all add: noise_hashstate_hkdf_def hkdf_def Let_def)
qed

lemma hkdf3_ok:
  assumes "hash_ok c" "len1 \<le> HASH_LEN" "len2 \<le> HASH_LEN" "len3 \<le> HASH_LEN"
  obtains c' where "noise_hashstate_hkdf3 key d len1 len2 len3 c
      = Inr (case hkdf3 key d of (a, b, e) \<Rightarrow> (take len1 a, take len2 b, take len3 e), c')" "hash_ok c'"
proof -
  let ?t = "hmac key d"
  let ?o1 = "hmac ?t [1]"
  let ?o2 = "hmac ?t (?o1 @ [2])"
  obtain c1 where c1: "noise_hashstate_hmac key d None c = (?t, c1)" "hash_ok c1"
    using hmac_ok [OF assms(1), of key d None] by auto
  obtain c2 where c2: "noise_hashstate_hmac ?t [1] None c1 = (?o1, c2)" "hash_ok c2"
    using hmac_ok [OF c1(2), of ?t "[1]" None] by auto
  obtain c3 where c3: "noise_hashstate_hmac ?t (?o1 @ [2]) None c2 = (?o2, c3)" "hash_ok c3"
    using hmac_ok [OF c2(2), of ?t "?o1 @ [2]" None] by auto
  obtain c4 where c4: "noise_hashstate_hmac ?t (?o2 @ [3]) None c3 = (hmac ?t (?o2 @ [3]), c4)" "hash_ok c4"
    using hmac_ok [OF c3(2), of ?t "?o2 @ [3]" None] by auto
  show thesis using assms c1 c2 c3 c4
    by (intro that [of c4]) (simp_all add: noise_hashstate_hkdf3_def hkdf3_def Let_def)
qed

end
