(* ===== verification/Noise_Cipher.thy ===== *)
theory Noise_Cipher
  imports Noise_Hash
begin

text \<open>
  \<^verbatim>\<open>noise/src/backend/sodium/cipher-chachapoly.c\<close>,
  \<^verbatim>\<open>protocol/cipherstate.c\<close> and the comparisons of \<^verbatim>\<open>protocol/util.c\<close>:
  the authenticated cipher with its nonce counter. The stream cipher and the one-time authenticator
  are libsodium's and parameters (\<open>sodium\<close>); the incremental authenticator is used as libsodium
  documents it, its value depends on the concatenation of the updates. The nonce block, the key block
  and the authenticator's state inside the object are scratch that every call sets up anew, so the
  model's object keeps the key, whether there is one, and the nonce. A \<^verbatim>\<open>NoiseBuffer\<close>
  is its used bytes and its capacity.
\<close>

record sodium =
  stream_xor :: "bytes \<Rightarrow> u32 \<Rightarrow> bytes \<Rightarrow> bytes \<Rightarrow> bytes"
  poly1305 :: "bytes \<Rightarrow> bytes \<Rightarrow> bytes"
  scalarmult :: "bytes \<Rightarrow> bytes \<Rightarrow> bytes option"
  scalarmult_base :: "bytes \<Rightarrow> bytes"
  rand_bytes :: "nat \<Rightarrow> bytes"
  uninit :: bytes

text \<open>
  \<^verbatim>\<open>stream_xor n ic k\<close> is \<^verbatim>\<open>crypto_stream_chacha20_ietf_xor_ic\<close> and
  \<^verbatim>\<open>rand_bytes i\<close> the result of the \<open>i\<close>-th draw of random bytes; \<open>uninit\<close>
  are the bytes that a buffer on the stack happens to hold.
\<close>

section \<open>Comparisons\<close>

definition noise_is_equal :: "bytes \<Rightarrow> bytes \<Rightarrow> nat \<Rightarrow> bool" where
  "noise_is_equal s1 s2 len = (fold (\<lambda>i temp. temp OR (s1 ! i XOR s2 ! i)) [0..<len] (0 :: u8) = 0)"

definition noise_is_zero :: "bytes \<Rightarrow> nat \<Rightarrow> bool" where
  "noise_is_zero data len = (fold (\<lambda>i temp. temp OR data ! i) [0..<len] (0 :: u8) = 0)"

lemma or_eq_0_u8: "(a :: u8) OR b = 0 \<longleftrightarrow> a = 0 \<and> b = 0"
  by (auto simp: bit_eq_iff bit_simps)

lemma xor_eq_0_u8: "(a :: u8) XOR b = 0 \<longleftrightarrow> a = b"
proof
  assume "a XOR b = 0"
  then have "(a XOR b) XOR b = b" by simp
  then show "a = b" by (simp add: xor.assoc)
qed simp

lemma fold_or_0: "(fold (\<lambda>i temp. temp OR f i) is (t :: u8) = 0) \<longleftrightarrow> t = 0 \<and> list_all (\<lambda>i. f i = 0) is"
  by (induction "is" arbitrary: t) (auto simp: or_eq_0_u8)

lemma noise_is_equal_iff: "length a = n \<Longrightarrow> length b = n \<Longrightarrow> noise_is_equal a b n \<longleftrightarrow> a = b"
  unfolding noise_is_equal_def fold_or_0 xor_eq_0_u8 list_eq_iff_nth_eq [of a b]
  by (simp add: list_all_iff atLeast0LessThan lessThan_iff Ball_def)

lemma noise_is_zero_iff: "noise_is_zero a (length a) \<longleftrightarrow> list_all (\<lambda>b. b = 0) a"
  unfolding noise_is_zero_def fold_or_0 by (simp add: list_all_length list_all_iff)

section \<open>ChaCha20-Poly1305\<close>

record cipherstate =
  chacha_k :: bytes
  has_key :: bool
  nonce_ctr :: u64

definition MAC_LEN :: nat where "MAC_LEN = 16"
definition KEY_LEN :: nat where "KEY_LEN = 32"
definition NOISE_MAX_PAYLOAD_LEN :: nat where "NOISE_MAX_PAYLOAD_LEN = 65535"

definition noise_chachapoly_new :: cipherstate where
  "noise_chachapoly_new = \<lparr>chacha_k = replicate KEY_LEN 0, has_key = False, nonce_ctr = 0\<rparr>"

definition put_uint64_be :: "u64 \<Rightarrow> bytes" where
  "put_uint64_be v = [ucast (drop_bit 56 v), ucast (drop_bit 48 v), ucast (drop_bit 40 v), ucast (drop_bit 32 v),
     ucast (drop_bit 24 v), ucast (drop_bit 16 v), ucast (drop_bit 8 v), ucast v]"

definition put_uint64_le :: "u64 \<Rightarrow> bytes" where
  "put_uint64_le v = [ucast v, ucast (drop_bit 8 v), ucast (drop_bit 16 v), ucast (drop_bit 24 v),
     ucast (drop_bit 32 v), ucast (drop_bit 40 v), ucast (drop_bit 48 v), ucast (drop_bit 56 v)]"

definition chachapoly_nonce :: "u64 \<Rightarrow> bytes" where
  "chachapoly_nonce n = replicate 4 0 @ put_uint64_be n"

text \<open>The setup of a block: the authenticator's key is the head of the stream's block zero.\<close>

definition noise_chachapoly_setup :: "sodium \<Rightarrow> u64 \<Rightarrow> bytes \<Rightarrow> bytes" where
  "noise_chachapoly_setup lib n k = take 32 (stream_xor lib (chachapoly_nonce n) 0 k (replicate 64 0))"

definition pad_auth :: "nat \<Rightarrow> bytes" where
  "pad_auth len = (if len mod 16 = 0 then [] else replicate (16 - len mod 16) 0)"

definition auth_lengths :: "nat \<Rightarrow> nat \<Rightarrow> bytes" where
  "auth_lengths ad_len data_len = put_uint64_le (word_of_nat ad_len) @ put_uint64_le (word_of_nat data_len)"

definition chachapoly_mac :: "sodium \<Rightarrow> bytes \<Rightarrow> bytes \<Rightarrow> bytes \<Rightarrow> bytes" where
  "chachapoly_mac lib mac_key ad ct =
     poly1305 lib mac_key ((if ad = [] then [] else ad @ pad_auth (length ad)) @ ct @ pad_auth (length ct)
       @ auth_lengths (length ad) (length ct))"

definition noise_chachapoly_encrypt :: "sodium \<Rightarrow> bytes \<Rightarrow> bytes \<Rightarrow> cipherstate \<Rightarrow> bytes" where
  "noise_chachapoly_encrypt lib ad data s =
     (let mac_key = noise_chachapoly_setup lib (nonce_ctr s) (chacha_k s);
          ct = stream_xor lib (chachapoly_nonce (nonce_ctr s)) 1 (chacha_k s) data
      in ct @ chachapoly_mac lib mac_key ad ct)"

text \<open>\<open>data\<close> is the ciphertext, \<open>mac\<close> the bytes behind it.\<close>

definition noise_chachapoly_decrypt :: "sodium \<Rightarrow> bytes \<Rightarrow> bytes \<Rightarrow> bytes \<Rightarrow> cipherstate \<Rightarrow> noise_error \<times> bytes" where
  "noise_chachapoly_decrypt lib ad data mac s =
     (let mac_key = noise_chachapoly_setup lib (nonce_ctr s) (chacha_k s)
      in if \<not> noise_is_equal (chachapoly_mac lib mac_key ad data) mac 16 then (NOISE_ERROR_MAC_FAILURE, data @ mac)
         else (NOISE_ERROR_NONE, stream_xor lib (chachapoly_nonce (nonce_ctr s)) 1 (chacha_k s) data))"

section \<open>The cipher object\<close>

definition noise_cipherstate_init_key :: "bytes \<Rightarrow> cipherstate \<Rightarrow> noise_error \<times> cipherstate" where
  "noise_cipherstate_init_key key s =
     (if length key \<noteq> KEY_LEN then (NOISE_ERROR_INVALID_LENGTH, s)
      else (NOISE_ERROR_NONE, s\<lparr>chacha_k := key, has_key := True, nonce_ctr := 0\<rparr>))"

text \<open>The nonce 2^64 - 1 is reserved.\<close>

definition NONCE_END :: u64 where "NONCE_END = 0xFFFFFFFFFFFFFFFF"

definition noise_cipherstate_encrypt_with_ad ::
    "sodium \<Rightarrow> bytes \<Rightarrow> bytes \<Rightarrow> nat \<Rightarrow> cipherstate \<Rightarrow> noise_error \<times> bytes \<times> cipherstate" where
  "noise_cipherstate_encrypt_with_ad lib ad buf max_size s =
     (if length buf > max_size then (NOISE_ERROR_INVALID_LENGTH, buf, s)
      else if \<not> has_key s
      then (if length buf > NOISE_MAX_PAYLOAD_LEN then (NOISE_ERROR_INVALID_LENGTH, buf, s) else (NOISE_ERROR_NONE, buf, s))
      else if length buf > NOISE_MAX_PAYLOAD_LEN - MAC_LEN then (NOISE_ERROR_INVALID_LENGTH, buf, s)
      else if max_size - length buf < MAC_LEN then (NOISE_ERROR_INVALID_LENGTH, buf, s)
      else if nonce_ctr s = NONCE_END then (NOISE_ERROR_INVALID_NONCE, buf, s)
      else (NOISE_ERROR_NONE, noise_chachapoly_encrypt lib ad buf s, s\<lparr>nonce_ctr := nonce_ctr s + 1\<rparr>))"

definition noise_cipherstate_decrypt_with_ad ::
    "sodium \<Rightarrow> bytes \<Rightarrow> bytes \<Rightarrow> nat \<Rightarrow> cipherstate \<Rightarrow> noise_error \<times> bytes \<times> cipherstate" where
  "noise_cipherstate_decrypt_with_ad lib ad buf max_size s =
     (if length buf > max_size \<or> length buf > NOISE_MAX_PAYLOAD_LEN then (NOISE_ERROR_INVALID_LENGTH, buf, s)
      else if \<not> has_key s then (NOISE_ERROR_NONE, buf, s)
      else if length buf < MAC_LEN then (NOISE_ERROR_INVALID_LENGTH, buf, s)
      else if nonce_ctr s = NONCE_END then (NOISE_ERROR_INVALID_NONCE, buf, s)
      else
        let len = length buf - MAC_LEN
        in case noise_chachapoly_decrypt lib ad (take len buf) (drop len buf) s of (err, out) \<Rightarrow>
             if err \<noteq> NOISE_ERROR_NONE then (err, out, s) else (NOISE_ERROR_NONE, out, s\<lparr>nonce_ctr := nonce_ctr s + 1\<rparr>))"

definition noise_cipherstate_encrypt :: "sodium \<Rightarrow> bytes \<Rightarrow> nat \<Rightarrow> cipherstate \<Rightarrow> noise_error \<times> bytes \<times> cipherstate" where
  "noise_cipherstate_encrypt lib buf max_size s = noise_cipherstate_encrypt_with_ad lib [] buf max_size s"

definition noise_cipherstate_decrypt :: "sodium \<Rightarrow> bytes \<Rightarrow> nat \<Rightarrow> cipherstate \<Rightarrow> noise_error \<times> bytes \<times> cipherstate" where
  "noise_cipherstate_decrypt lib buf max_size s = noise_cipherstate_decrypt_with_ad lib [] buf max_size s"

definition noise_cipherstate_set_nonce :: "u64 \<Rightarrow> cipherstate \<Rightarrow> noise_error \<times> cipherstate" where
  "noise_cipherstate_set_nonce nonce s =
     (if \<not> has_key s then (NOISE_ERROR_INVALID_STATE, s)
      else if nonce_ctr s > nonce then (NOISE_ERROR_INVALID_NONCE, s)
      else (NOISE_ERROR_NONE, s\<lparr>nonce_ctr := nonce\<rparr>))"

definition noise_cipherstate_rekey :: "sodium \<Rightarrow> cipherstate \<Rightarrow> noise_error \<times> cipherstate" where
  "noise_cipherstate_rekey lib s =
     (if \<not> has_key s then (NOISE_ERROR_INVALID_STATE, s)
      else
        let buffer = noise_chachapoly_encrypt lib [] (replicate KEY_LEN 0) (s\<lparr>nonce_ctr := NONCE_END\<rparr>)
        in (NOISE_ERROR_NONE, s\<lparr>chacha_k := take KEY_LEN buffer\<rparr>))"

section \<open>Opening what was sealed\<close>

text \<open>
  The documented behaviour of the two primitives: the stream cipher is an involution that keeps the
  length, the tag has sixteen bytes.
\<close>

definition aead_lib :: "sodium \<Rightarrow> bool" where
  "aead_lib lib \<longleftrightarrow> (\<forall>n ic k d. stream_xor lib n ic k (stream_xor lib n ic k d) = d \<and> length (stream_xor lib n ic k d) = length d)
     \<and> (\<forall>k m. length (poly1305 lib k m) = 16)"

lemma aead_libD:
  assumes "aead_lib lib"
  shows "stream_xor lib n ic k (stream_xor lib n ic k d) = d" "length (stream_xor lib n ic k d) = length d"
    "length (poly1305 lib k m) = 16"
  using assms by (auto simp: aead_lib_def)

lemma length_chachapoly_encrypt:
  "aead_lib lib \<Longrightarrow> length (noise_chachapoly_encrypt lib ad p s) = length p + MAC_LEN"
  by (simp add: noise_chachapoly_encrypt_def chachapoly_mac_def aead_libD MAC_LEN_def Let_def)

lemma chachapoly_decrypt_encrypt:
  assumes "aead_lib lib" "nonce_ctr r = nonce_ctr s" "chacha_k r = chacha_k s"
    and "c = noise_chachapoly_encrypt lib ad p s"
  shows "noise_chachapoly_decrypt lib ad (take (length p) c) (drop (length p) c) r = (NOISE_ERROR_NONE, p)"
  using assms(2-4) aead_libD [OF assms(1)]
  by (simp add: noise_chachapoly_encrypt_def noise_chachapoly_decrypt_def chachapoly_mac_def Let_def noise_is_equal_iff)

text \<open>Two ciphers that are in step: the same key and the same nonce.\<close>

definition in_step :: "cipherstate \<Rightarrow> cipherstate \<Rightarrow> bool" where
  "in_step s r \<longleftrightarrow> has_key s \<and> has_key r \<and> chacha_k r = chacha_k s \<and> nonce_ctr r = nonce_ctr s"

lemma encrypt_ok:
  assumes "has_key s" "length p + MAC_LEN \<le> max_size" "length p + MAC_LEN \<le> NOISE_MAX_PAYLOAD_LEN" "nonce_ctr s \<noteq> NONCE_END"
  shows "noise_cipherstate_encrypt_with_ad lib ad p max_size s
    = (NOISE_ERROR_NONE, noise_chachapoly_encrypt lib ad p s, s\<lparr>nonce_ctr := nonce_ctr s + 1\<rparr>)"
  using assms by (auto simp: noise_cipherstate_encrypt_with_ad_def)

lemma decrypt_encrypted:
  assumes "aead_lib lib" "in_step s r" "length p + MAC_LEN \<le> max_size" "length p + MAC_LEN \<le> NOISE_MAX_PAYLOAD_LEN"
    and "nonce_ctr s \<noteq> NONCE_END"
  shows "noise_cipherstate_decrypt_with_ad lib ad (noise_chachapoly_encrypt lib ad p s) max_size r
    = (NOISE_ERROR_NONE, p, r\<lparr>nonce_ctr := nonce_ctr r + 1\<rparr>)"
  using assms chachapoly_decrypt_encrypt [OF assms(1) _ _ refl, of r s ad p]
  by (auto simp: noise_cipherstate_decrypt_with_ad_def in_step_def length_chachapoly_encrypt Let_def)

lemma in_step_next: "in_step s r \<Longrightarrow> in_step (s\<lparr>nonce_ctr := nonce_ctr s + 1\<rparr>) (r\<lparr>nonce_ctr := nonce_ctr r + 1\<rparr>)"
  by (simp add: in_step_def)

text \<open>A message whose tag does not verify changes nothing: the next nonce stays the next nonce.\<close>

lemma decrypt_rejects:
  assumes "has_key s" "fst (noise_cipherstate_decrypt_with_ad lib ad buf max_size s) \<noteq> NOISE_ERROR_NONE"
  shows "snd (snd (noise_cipherstate_decrypt_with_ad lib ad buf max_size s)) = s"
  using assms by (auto simp: noise_cipherstate_decrypt_with_ad_def Let_def split: prod.splits if_splits)

text \<open>Nothing is accepted but under a tag that the key, the nonce and the associated data give.\<close>

lemma decrypt_authentic:
  assumes "aead_lib lib" "has_key s" "noise_cipherstate_decrypt_with_ad lib ad buf max_size s = (NOISE_ERROR_NONE, out, s')"
  shows "drop (length buf - 16) buf = chachapoly_mac lib (noise_chachapoly_setup lib (nonce_ctr s) (chacha_k s)) ad (take (length buf - 16) buf)
    \<and> nonce_ctr s \<noteq> NONCE_END \<and> s' = s\<lparr>nonce_ctr := nonce_ctr s + 1\<rparr>"
proof -
  let ?len = "length buf - MAC_LEN"
  have l: "MAC_LEN \<le> length buf" "nonce_ctr s \<noteq> NONCE_END"
    and d: "fst (noise_chachapoly_decrypt lib ad (take ?len buf) (drop ?len buf) s) = NOISE_ERROR_NONE"
    and s: "s' = s\<lparr>nonce_ctr := nonce_ctr s + 1\<rparr>"
    using assms(2,3) by (auto simp: noise_cipherstate_decrypt_with_ad_def Let_def split: prod.splits if_splits)
  have "length (drop ?len buf) = 16" using l by (simp add: MAC_LEN_def)
  with d show ?thesis using l s aead_libD(3) [OF assms(1)]
    by (auto simp: noise_chachapoly_decrypt_def Let_def noise_is_equal_iff chachapoly_mac_def MAC_LEN_def split: if_splits)
qed

end
