(* ===== verification/Noise_Symmetric.thy ===== *)
theory Noise_Symmetric
  imports Noise_Cipher
begin

text \<open>
  \<^verbatim>\<open>noise/src/protocol/symmetricstate.c\<close>, \<^verbatim>\<open>dhstate.c\<close> and
  \<^verbatim>\<open>backend/sodium/dh-curve25519.c\<close>: the chaining key, the transcript hash and the
  cipher they key, and Diffie-Hellman objects over the one curve that is compiled in (all key lengths
  are 32, null public keys are allowed). A split takes the cipher out of the symmetric state, which is
  useless afterwards. Two symmetric states that went through the same operations on the same data are
  equal up to their hash object, which is scratch.
\<close>

section \<open>The symmetric state\<close>

record symmetric =
  sy_cipher :: "cipherstate option"
  sy_hash :: blake2s_state
  sy_ck :: bytes
  sy_h :: bytes

definition noise_symmetricstate_new :: "string \<Rightarrow> blake2s_state \<Rightarrow> symmetric" where
  "noise_symmetricstate_new name c =
     (let (h, c) = (if length name \<le> HASH_LEN then (bytes_of name @ replicate (HASH_LEN - length name) 0, c)
                    else case noise_hashstate_hash_one (bytes_of name) HASH_LEN c of
                           Inr r \<Rightarrow> r | Inl _ \<Rightarrow> (replicate HASH_LEN 0, c))
      in \<lparr>sy_cipher = Some noise_chachapoly_new, sy_hash = c, sy_ck = h, sy_h = h\<rparr>)"

definition noise_symmetricstate_mix_key :: "bytes \<Rightarrow> symmetric \<Rightarrow> noise_error \<times> symmetric" where
  "noise_symmetricstate_mix_key input st =
     (case sy_cipher st of None \<Rightarrow> (NOISE_ERROR_INVALID_STATE, st)
      | Some cipher \<Rightarrow>
          (case noise_hashstate_hkdf (sy_ck st) input HASH_LEN KEY_LEN (sy_hash st) of
             Inl e \<Rightarrow> (NOISE_ERROR_NONE, st)
           | Inr ((ck, temp_k), c) \<Rightarrow>
               (NOISE_ERROR_NONE, st\<lparr>sy_ck := ck, sy_hash := c, sy_cipher := Some (snd (noise_cipherstate_init_key temp_k cipher))\<rparr>)))"

definition noise_symmetricstate_mix_hash :: "bytes \<Rightarrow> symmetric \<Rightarrow> noise_error \<times> symmetric" where
  "noise_symmetricstate_mix_hash input st =
     (case sy_cipher st of None \<Rightarrow> (NOISE_ERROR_INVALID_STATE, st)
      | Some _ \<Rightarrow>
          (case noise_hashstate_hash_two (sy_h st) input HASH_LEN (sy_hash st) of
             Inl e \<Rightarrow> (NOISE_ERROR_NONE, st)
           | Inr (h, c) \<Rightarrow> (NOISE_ERROR_NONE, st\<lparr>sy_h := h, sy_hash := c\<rparr>)))"

definition noise_symmetricstate_mix_key_and_hash :: "bytes \<Rightarrow> symmetric \<Rightarrow> noise_error \<times> symmetric" where
  "noise_symmetricstate_mix_key_and_hash input st =
     (case sy_cipher st of None \<Rightarrow> (NOISE_ERROR_INVALID_STATE, st)
      | Some cipher \<Rightarrow>
          (case noise_hashstate_hkdf3 (sy_ck st) input HASH_LEN HASH_LEN KEY_LEN (sy_hash st) of
             Inl e \<Rightarrow> (NOISE_ERROR_NONE, st)
           | Inr ((ck, temp_h, temp_k), c) \<Rightarrow>
               (case noise_hashstate_hash_two (sy_h st) temp_h HASH_LEN c of
                  Inl e \<Rightarrow> (NOISE_ERROR_NONE, st)
                | Inr (h, c) \<Rightarrow>
                    (NOISE_ERROR_NONE, st\<lparr>sy_ck := ck, sy_h := h, sy_hash := c,
                       sy_cipher := Some (snd (noise_cipherstate_init_key temp_k cipher))\<rparr>))))"

definition noise_symmetricstate_encrypt_and_hash ::
    "sodium \<Rightarrow> bytes \<Rightarrow> nat \<Rightarrow> symmetric \<Rightarrow> noise_error \<times> bytes \<times> symmetric" where
  "noise_symmetricstate_encrypt_and_hash lib buf max_size st =
     (case sy_cipher st of None \<Rightarrow> (NOISE_ERROR_INVALID_STATE, buf, st)
      | Some cipher \<Rightarrow>
          (case noise_cipherstate_encrypt_with_ad lib (sy_h st) buf max_size cipher of (err, out, cipher) \<Rightarrow>
             if err \<noteq> NOISE_ERROR_NONE then (err, out, st\<lparr>sy_cipher := Some cipher\<rparr>)
             else (NOISE_ERROR_NONE, out, snd (noise_symmetricstate_mix_hash out (st\<lparr>sy_cipher := Some cipher\<rparr>)))))"

text \<open>The transcript of the ciphertext is computed before the bytes are decrypted in place.\<close>

definition noise_symmetricstate_decrypt_and_hash ::
    "sodium \<Rightarrow> bytes \<Rightarrow> nat \<Rightarrow> symmetric \<Rightarrow> noise_error \<times> bytes \<times> symmetric" where
  "noise_symmetricstate_decrypt_and_hash lib buf max_size st =
     (case sy_cipher st of None \<Rightarrow> (NOISE_ERROR_INVALID_STATE, buf, st)
      | Some cipher \<Rightarrow>
          if length buf > NOISE_MAX_PAYLOAD_LEN then (NOISE_ERROR_INVALID_LENGTH, buf, st)
          else if has_key cipher \<and> length buf < MAC_LEN then (NOISE_ERROR_INVALID_LENGTH, buf, st)
          else
            (case noise_hashstate_hash_two (sy_h st) buf HASH_LEN (sy_hash st) of
               Inl e \<Rightarrow> (e, buf, st)
             | Inr (temp, c) \<Rightarrow>
                 (case noise_cipherstate_decrypt_with_ad lib (sy_h st) buf max_size cipher of (err, out, cipher) \<Rightarrow>
                    if err \<noteq> NOISE_ERROR_NONE then (err, out, st\<lparr>sy_hash := c, sy_cipher := Some cipher\<rparr>)
                    else (NOISE_ERROR_NONE, out, st\<lparr>sy_hash := c, sy_cipher := Some cipher, sy_h := temp\<rparr>))))"

definition noise_symmetricstate_get_mac_length :: "symmetric \<Rightarrow> nat" where
  "noise_symmetricstate_get_mac_length st =
     (case sy_cipher st of None \<Rightarrow> 0 | Some cipher \<Rightarrow> if has_key cipher then MAC_LEN else 0)"

text \<open>Both cipher objects are asked for, as the client asks.\<close>

definition noise_symmetricstate_split :: "symmetric \<Rightarrow> noise_error \<times> (cipherstate \<times> cipherstate) option \<times> symmetric" where
  "noise_symmetricstate_split st =
     (case sy_cipher st of None \<Rightarrow> (NOISE_ERROR_INVALID_STATE, None, st)
      | Some cipher \<Rightarrow>
          (case noise_hashstate_hkdf (sy_ck st) [] KEY_LEN KEY_LEN (sy_hash st) of
             Inl e \<Rightarrow> (NOISE_ERROR_NONE, None, st)
           | Inr ((temp_k1, temp_k2), c) \<Rightarrow>
               (NOISE_ERROR_NONE,
                Some (snd (noise_cipherstate_init_key temp_k1 cipher), snd (noise_cipherstate_init_key temp_k2 noise_chachapoly_new)),
                st\<lparr>sy_hash := c, sy_cipher := None\<rparr>)))"

section \<open>Diffie-Hellman objects\<close>

datatype key_type = KEY_TYPE_NO_KEY | KEY_TYPE_KEYPAIR | KEY_TYPE_PUBLIC
datatype noise_role = NOISE_ROLE_INITIATOR | NOISE_ROLE_RESPONDER

record dhstate =
  key_kind :: key_type
  private_key :: bytes
  public_key :: bytes
  dh_role :: "noise_role option"

definition DH_LEN :: nat where "DH_LEN = 32"

definition noise_curve25519_new :: "noise_role option \<Rightarrow> dhstate" where
  "noise_curve25519_new r = \<lparr>key_kind = KEY_TYPE_NO_KEY, private_key = replicate DH_LEN 0, public_key = replicate DH_LEN 0, dh_role = r\<rparr>"

definition noise_dhstate_has_keypair :: "dhstate option \<Rightarrow> bool" where
  "noise_dhstate_has_keypair d = (case d of None \<Rightarrow> False | Some d \<Rightarrow> key_kind d = KEY_TYPE_KEYPAIR)"

definition noise_dhstate_has_public_key :: "dhstate option \<Rightarrow> bool" where
  "noise_dhstate_has_public_key d = (case d of None \<Rightarrow> False | Some d \<Rightarrow> key_kind d \<noteq> KEY_TYPE_NO_KEY)"

definition clamp :: "bytes \<Rightarrow> bytes" where
  "clamp k = (let k = k[0 := k ! 0 AND 0xF8] in k[31 := (k ! 31 AND 0x7F) OR 0x40])"

definition noise_dhstate_generate_keypair :: "sodium \<Rightarrow> bytes \<Rightarrow> dhstate \<Rightarrow> dhstate" where
  "noise_dhstate_generate_keypair lib rand d =
     (let k = clamp rand in d\<lparr>private_key := k, public_key := scalarmult_base lib k, key_kind := KEY_TYPE_KEYPAIR\<rparr>)"

definition noise_dhstate_clear_key :: "dhstate \<Rightarrow> dhstate" where
  "noise_dhstate_clear_key d = d\<lparr>public_key := replicate DH_LEN 0, private_key := replicate DH_LEN 0, key_kind := KEY_TYPE_NO_KEY\<rparr>"

definition noise_dhstate_set_keypair :: "sodium \<Rightarrow> bytes \<Rightarrow> bytes \<Rightarrow> dhstate \<Rightarrow> noise_error \<times> dhstate" where
  "noise_dhstate_set_keypair lib priv pub d =
     (if length priv \<noteq> DH_LEN \<or> length pub \<noteq> DH_LEN then (NOISE_ERROR_INVALID_LENGTH, d)
      else if \<not> noise_is_equal (scalarmult_base lib priv) pub 32 then (NOISE_ERROR_INVALID_PUBLIC_KEY, noise_dhstate_clear_key d)
      else (NOISE_ERROR_NONE, d\<lparr>private_key := priv, public_key := pub, key_kind := KEY_TYPE_KEYPAIR\<rparr>))"

definition noise_dhstate_set_keypair_private :: "sodium \<Rightarrow> bytes \<Rightarrow> dhstate \<Rightarrow> noise_error \<times> dhstate" where
  "noise_dhstate_set_keypair_private lib priv d =
     (if length priv \<noteq> DH_LEN then (NOISE_ERROR_INVALID_LENGTH, d)
      else (NOISE_ERROR_NONE, d\<lparr>private_key := priv, public_key := scalarmult_base lib priv, key_kind := KEY_TYPE_KEYPAIR\<rparr>))"

definition noise_dhstate_set_public_key :: "bytes \<Rightarrow> dhstate \<Rightarrow> noise_error \<times> dhstate" where
  "noise_dhstate_set_public_key pub d =
     (if length pub \<noteq> DH_LEN then (NOISE_ERROR_INVALID_LENGTH, d)
      else (NOISE_ERROR_NONE, d\<lparr>private_key := replicate DH_LEN 0, public_key := pub, key_kind := KEY_TYPE_PUBLIC\<rparr>))"

definition noise_dhstate_is_null_public_key :: "dhstate \<Rightarrow> bool" where
  "noise_dhstate_is_null_public_key d \<longleftrightarrow> key_kind d \<noteq> KEY_TYPE_NO_KEY \<and> noise_is_zero (public_key d) DH_LEN"

text \<open>
  A null public key gives a null secret and no error; libsodium reports other keys of small order,
  for which it computes nothing.
\<close>

definition noise_dhstate_calculate :: "sodium \<Rightarrow> dhstate \<Rightarrow> dhstate \<Rightarrow> noise_error \<times> bytes" where
  "noise_dhstate_calculate lib priv pub =
     (if key_kind priv \<noteq> KEY_TYPE_KEYPAIR then (NOISE_ERROR_INVALID_PRIVATE_KEY, uninit lib)
      else
        let is_null = noise_is_zero (public_key pub) DH_LEN
        in case scalarmult lib (private_key priv) (public_key pub) of
             None \<Rightarrow> if is_null then (NOISE_ERROR_NONE, replicate DH_LEN 0) else (NOISE_ERROR_INVALID_PARAM, uninit lib)
           | Some shared \<Rightarrow> (NOISE_ERROR_NONE, if is_null then replicate DH_LEN 0 else shared))"

section \<open>Functions of the data\<close>

text \<open>A symmetric state before the split, and what it is beside its hash object.\<close>

definition sym_ok :: "symmetric \<Rightarrow> bool" where
  "sym_ok st \<longleftrightarrow> hash_ok (sy_hash st) \<and> sy_cipher st \<noteq> None"

definition sym_view :: "symmetric \<Rightarrow> cipherstate option \<times> bytes \<times> bytes" where
  "sym_view st = (sy_cipher st, sy_ck st, sy_h st)"

lemma mix_hash_ok:
  assumes "sym_ok st"
  shows "fst (noise_symmetricstate_mix_hash d st) = NOISE_ERROR_NONE"
    and "sym_ok (snd (noise_symmetricstate_mix_hash d st))"
    and "sym_view (snd (noise_symmetricstate_mix_hash d st)) = (sy_cipher st, sy_ck st, blake2s (sy_h st @ d))"
proof -
  obtain ci where ci: "sy_cipher st = Some ci" using assms by (auto simp: sym_ok_def)
  have "hash_ok (sy_hash st)" using assms by (simp add: sym_ok_def)
  then obtain c' where "noise_hashstate_hash_two (sy_h st) d HASH_LEN (sy_hash st) = Inr (blake2s (sy_h st @ d), c')" "hash_ok c'"
    by (rule hash_two_ok)
  then show "fst (noise_symmetricstate_mix_hash d st) = NOISE_ERROR_NONE"
    and "sym_ok (snd (noise_symmetricstate_mix_hash d st))"
    and "sym_view (snd (noise_symmetricstate_mix_hash d st)) = (sy_cipher st, sy_ck st, blake2s (sy_h st @ d))"
    by (simp_all add: noise_symmetricstate_mix_hash_def sym_ok_def sym_view_def ci)
qed

lemma length_hkdf [simp]: "length (fst (hkdf k d)) = HASH_LEN" "length (snd (hkdf k d)) = HASH_LEN"
  by (simp_all add: hkdf_def Let_def)

definition keyed :: "bytes \<Rightarrow> cipherstate" where
  "keyed k = \<lparr>chacha_k = k, has_key = True, nonce_ctr = 0\<rparr>"

lemma init_key_keyed: "length k = KEY_LEN \<Longrightarrow> snd (noise_cipherstate_init_key k ci) = keyed k"
  by (cases ci) (simp add: noise_cipherstate_init_key_def keyed_def)

lemma mix_key_ok:
  assumes "sym_ok st"
  shows "fst (noise_symmetricstate_mix_key d st) = NOISE_ERROR_NONE"
    and "sym_ok (snd (noise_symmetricstate_mix_key d st))"
    and "sym_view (snd (noise_symmetricstate_mix_key d st)) = (Some (keyed (snd (hkdf (sy_ck st) d))), fst (hkdf (sy_ck st) d), sy_h st)"
proof -
  obtain ci where ci: "sy_cipher st = Some ci" using assms by (auto simp: sym_ok_def)
  have "hash_ok (sy_hash st)" using assms by (simp add: sym_ok_def)
  then obtain c' where "noise_hashstate_hkdf (sy_ck st) d HASH_LEN KEY_LEN (sy_hash st)
      = Inr ((take HASH_LEN (fst (hkdf (sy_ck st) d)), take KEY_LEN (snd (hkdf (sy_ck st) d))), c')" "hash_ok c'"
    by (rule hkdf_ok [where ?len1.0 = HASH_LEN and ?len2.0 = KEY_LEN and key = "sy_ck st" and d = d]) (simp_all add: KEY_LEN_def HASH_LEN_def)
  then show "fst (noise_symmetricstate_mix_key d st) = NOISE_ERROR_NONE"
    and "sym_ok (snd (noise_symmetricstate_mix_key d st))"
    and "sym_view (snd (noise_symmetricstate_mix_key d st)) = (Some (keyed (snd (hkdf (sy_ck st) d))), fst (hkdf (sy_ck st) d), sy_h st)"
    by (simp_all add: noise_symmetricstate_mix_key_def sym_ok_def sym_view_def ci init_key_keyed split_beta KEY_LEN_def HASH_LEN_def)
qed

lemma encrypt_and_hash_ok:
  assumes "sym_ok st" "sy_cipher st = Some ci" "has_key ci" "nonce_ctr ci \<noteq> NONCE_END"
    and "length p + MAC_LEN \<le> max_size" "length p + MAC_LEN \<le> NOISE_MAX_PAYLOAD_LEN"
  shows "\<exists>st'. noise_symmetricstate_encrypt_and_hash lib p max_size st
      = (NOISE_ERROR_NONE, noise_chachapoly_encrypt lib (sy_h st) p ci, st') \<and> sym_ok st'
    \<and> sym_view st' = (Some (ci\<lparr>nonce_ctr := nonce_ctr ci + 1\<rparr>), sy_ck st,
        blake2s (sy_h st @ noise_chachapoly_encrypt lib (sy_h st) p ci))"
proof -
  let ?st = "st\<lparr>sy_cipher := Some (ci\<lparr>nonce_ctr := nonce_ctr ci + 1\<rparr>)\<rparr>"
  have "sym_ok ?st" using assms(1) by (simp add: sym_ok_def)
  note m = mix_hash_ok [OF this, of "noise_chachapoly_encrypt lib (sy_h st) p ci"]
  show ?thesis using m assms encrypt_ok [OF assms(3,5,6,4), of lib "sy_h st"]
    by (simp add: noise_symmetricstate_encrypt_and_hash_def)
qed

lemma decrypt_and_hash_ok:
  assumes "aead_lib lib" "sym_ok st" "sy_cipher st = Some ci" "has_key ci" "nonce_ctr ci \<noteq> NONCE_END"
    and "length p + MAC_LEN \<le> max_size" "length p + MAC_LEN \<le> NOISE_MAX_PAYLOAD_LEN"
    and c: "c = noise_chachapoly_encrypt lib (sy_h st) p ci"
  shows "\<exists>st'. noise_symmetricstate_decrypt_and_hash lib c max_size st = (NOISE_ERROR_NONE, p, st') \<and> sym_ok st'
    \<and> sym_view st' = (Some (ci\<lparr>nonce_ctr := nonce_ctr ci + 1\<rparr>), sy_ck st, blake2s (sy_h st @ c))"
proof -
  have "hash_ok (sy_hash st)" using assms(2) by (simp add: sym_ok_def)
  then obtain c' where h: "noise_hashstate_hash_two (sy_h st) c HASH_LEN (sy_hash st) = Inr (blake2s (sy_h st @ c), c')" "hash_ok c'"
    by (rule hash_two_ok)
  have d: "noise_cipherstate_decrypt_with_ad lib (sy_h st) c max_size ci = (NOISE_ERROR_NONE, p, ci\<lparr>nonce_ctr := nonce_ctr ci + 1\<rparr>)"
    unfolding c using assms(1,4-7) by (intro decrypt_encrypted) (simp_all add: in_step_def)
  have "length c = length p + MAC_LEN" using assms(1) by (simp add: c length_chachapoly_encrypt)
  then show ?thesis using assms(2-4,7) h d
    by (simp add: noise_symmetricstate_decrypt_and_hash_def sym_ok_def sym_view_def)
qed

lemma split_ok:
  assumes "sym_ok st"
  shows "\<exists>st'. noise_symmetricstate_split st = (NOISE_ERROR_NONE,
      Some (keyed (fst (hkdf (sy_ck st) [])), keyed (snd (hkdf (sy_ck st) []))), st') \<and> sy_cipher st' = None"
proof -
  obtain ci where ci: "sy_cipher st = Some ci" using assms by (auto simp: sym_ok_def)
  have "hash_ok (sy_hash st)" using assms by (simp add: sym_ok_def)
  then obtain c' where "noise_hashstate_hkdf (sy_ck st) [] KEY_LEN KEY_LEN (sy_hash st)
      = Inr ((take KEY_LEN (fst (hkdf (sy_ck st) [])), take KEY_LEN (snd (hkdf (sy_ck st) []))), c')"
    by (rule hkdf_ok [where ?len1.0 = KEY_LEN and ?len2.0 = KEY_LEN and key = "sy_ck st" and d = "[]"]) (simp_all add: KEY_LEN_def HASH_LEN_def)
  then show ?thesis by (simp add: noise_symmetricstate_split_def ci init_key_keyed split_beta KEY_LEN_def HASH_LEN_def)
qed

end
