(* ===== verification/Noise_Pattern.thy ===== *)
theory Noise_Pattern
  imports Noise_Hash
begin

text \<open>
  \<^verbatim>\<open>noise/src/protocol/patterns.c\<close> and the parsing side of
  \<^verbatim>\<open>names.c\<close>: the table of handshake patterns with their flags, the modifiers
  that rewrite a pattern, and the reading of a protocol name such as the one the client asks for. A
  pattern is its flags and the tokens behind the two header bytes, up to and with the end token; an
  identifier is a number, category letter and index.
\<close>

section \<open>Identifiers and names\<close>

definition NOISE_ID :: "char \<Rightarrow> nat \<Rightarrow> nat" where
  "NOISE_ID ch num = of_char ch * 256 + num"

definition NOISE_CIPHER_CATEGORY :: nat where "NOISE_CIPHER_CATEGORY = NOISE_ID CHR ''C'' 0"
definition NOISE_HASH_CATEGORY :: nat where "NOISE_HASH_CATEGORY = NOISE_ID CHR ''H'' 0"
definition NOISE_DH_CATEGORY :: nat where "NOISE_DH_CATEGORY = NOISE_ID CHR ''D'' 0"
definition NOISE_PATTERN_CATEGORY :: nat where "NOISE_PATTERN_CATEGORY = NOISE_ID CHR ''P'' 0"
definition NOISE_MODIFIER_CATEGORY :: nat where "NOISE_MODIFIER_CATEGORY = NOISE_ID CHR ''M'' 0"
definition NOISE_PREFIX_CATEGORY :: nat where "NOISE_PREFIX_CATEGORY = NOISE_ID CHR ''N'' 0"

text \<open>The names compiled in: one cipher, one hash, one curve, the fifteen patterns, the modifiers.\<close>

definition algorithm_names :: "(nat \<times> string) list" where
  "algorithm_names =
    [(NOISE_ID CHR ''C'' 1, ''ChaChaPoly''), (NOISE_ID CHR ''H'' 1, ''BLAKE2s''), (NOISE_ID CHR ''D'' 1, ''25519''),
     (NOISE_ID CHR ''P'' 1, ''N''), (NOISE_ID CHR ''P'' 2, ''X''), (NOISE_ID CHR ''P'' 3, ''K''),
     (NOISE_ID CHR ''P'' 4, ''NN''), (NOISE_ID CHR ''P'' 5, ''NK''), (NOISE_ID CHR ''P'' 6, ''NX''),
     (NOISE_ID CHR ''P'' 7, ''XN''), (NOISE_ID CHR ''P'' 8, ''XK''), (NOISE_ID CHR ''P'' 9, ''XX''),
     (NOISE_ID CHR ''P'' 10, ''KN''), (NOISE_ID CHR ''P'' 11, ''KK''), (NOISE_ID CHR ''P'' 12, ''KX''),
     (NOISE_ID CHR ''P'' 13, ''IN''), (NOISE_ID CHR ''P'' 14, ''IK''), (NOISE_ID CHR ''P'' 15, ''IX''),
     (NOISE_ID CHR ''M'' 1, ''fallback''), (NOISE_ID CHR ''M'' 2, ''hfs''),
     (NOISE_ID CHR ''M'' 20, ''psk0''), (NOISE_ID CHR ''M'' 21, ''psk1''),
     (NOISE_ID CHR ''M'' 22, ''psk2''), (NOISE_ID CHR ''M'' 23, ''psk3''),
     (NOISE_ID CHR ''N'' 1, ''Noise'')]"

text \<open>The identifier of a name in a category, 0 when there is none; category 0 is any.\<close>

definition noise_name_to_id :: "nat \<Rightarrow> string \<Rightarrow> nat" where
  "noise_name_to_id category name =
     (case find (\<lambda>(i, n). (category = 0 \<or> i div 256 * 256 = category) \<and> n = name) algorithm_names of
        None \<Rightarrow> 0 | Some (i, _) \<Rightarrow> i)"

lemma length_tl_dropWhile:
  assumes "name \<noteq> []"
  shows "length (tl (dropWhile P name)) < length name"
proof -
  have "length (tl (dropWhile P name)) \<le> length name - 1"
    unfolding length_tl by (rule diff_le_mono, rule length_dropWhile_le)
  moreover have "length name - 1 < length name" using assms by simp
  ultimately show ?thesis by (rule le_less_trans)
qed

text \<open>The names joined by plus signs in the second and later places of a list.\<close>

function noise_later_names :: "nat \<Rightarrow> string \<Rightarrow> nat \<Rightarrow> (noise_error + nat list)" where
  "noise_later_names category name room =
     (if name = [] then Inr []
      else
        let field = takeWhile (\<lambda>c. c \<noteq> CHR ''+'') name;
            rest = dropWhile (\<lambda>c. c \<noteq> CHR ''+'') name;
            i = noise_name_to_id category field
        in if i = 0 then Inl NOISE_ERROR_UNKNOWN_NAME
           else if rest \<noteq> [] \<and> tl rest = [] then Inl NOISE_ERROR_UNKNOWN_NAME
           else if room = 0 then Inl NOISE_ERROR_INVALID_LENGTH
           else case noise_later_names category (tl rest) (room - 1) of Inl e \<Rightarrow> Inl e | Inr ids \<Rightarrow> Inr (i # ids))"
  by pat_completeness auto
termination
  by (relation "measure (\<lambda>(_, name, _). length name)")
     (auto simp del: length_tl intro: length_tl_dropWhile)

declare noise_later_names.simps [simp del]

definition noise_name_list_to_ids :: "nat \<Rightarrow> string \<Rightarrow> nat \<Rightarrow> nat \<Rightarrow> (noise_error + nat list)" where
  "noise_name_list_to_ids ids_len name category1 category2 =
     (let category2 = (if category2 = 0 then category1 else category2);
          upper = (\<lambda>c. (65 :: nat) \<le> of_char c \<and> of_char c \<le> (90 :: nat));
          first =
            (if category1 = NOISE_PATTERN_CATEGORY \<and> category2 = NOISE_MODIFIER_CATEGORY
             then let rest = dropWhile upper name
                  in if rest \<noteq> [] \<and> hd rest = CHR ''+'' then None
                     else Some (noise_name_to_id category1 (takeWhile upper name), rest)
             else let field = takeWhile (\<lambda>c. c \<noteq> CHR ''+'') name; rest = dropWhile (\<lambda>c. c \<noteq> CHR ''+'') name
                  in if rest \<noteq> [] \<and> tl rest = [] then None
                     else Some (noise_name_to_id category1 field, tl rest))
      in case first of None \<Rightarrow> Inl NOISE_ERROR_UNKNOWN_NAME
         | Some (i, rest) \<Rightarrow>
             if i = 0 then Inl NOISE_ERROR_UNKNOWN_NAME
             else if ids_len = 0 then Inl NOISE_ERROR_INVALID_LENGTH
             else case noise_later_names category2 rest (ids_len - 1) of Inl e \<Rightarrow> Inl e | Inr ids \<Rightarrow> Inr (i # ids))"

record protocol_id =
  prefix_id :: nat
  pattern_id :: nat
  modifier_ids :: "nat list"
  dh_id :: nat
  hybrid_id :: nat
  cipher_id :: nat
  hash_id :: nat

definition NOISE_MAX_MODIFIER_IDS :: nat where "NOISE_MAX_MODIFIER_IDS = 16"

text \<open>
  The fields of a name, each up to the next underscore; \<^verbatim>\<open>posn\<close> is the rest of the
  name and \<^verbatim>\<open>ok\<close> turns false at the first error.
\<close>

definition field_of :: "string \<Rightarrow> string" where "field_of name = takeWhile (\<lambda>c. c \<noteq> CHR ''_'') name"
definition behind_field :: "string \<Rightarrow> string" where "behind_field name = dropWhile (\<lambda>c. c \<noteq> CHR ''_'') name"

definition noise_protocol_parse_field :: "nat \<Rightarrow> bool \<Rightarrow> string \<times> bool \<Rightarrow> nat \<times> string \<times> bool" where
  "noise_protocol_parse_field category is_last p = (case p of (name, ok) \<Rightarrow>
     if \<not> ok then (0, name, False)
     else if is_last \<and> behind_field name \<noteq> [] \<or> \<not> is_last \<and> behind_field name = [] then (0, behind_field name, False)
     else let i = noise_name_to_id category (field_of name)
          in (i, (if is_last then [] else tl (behind_field name)), i \<noteq> 0))"

definition noise_protocol_parse_pattern_field :: "string \<times> bool \<Rightarrow> (nat \<times> nat list) \<times> string \<times> bool" where
  "noise_protocol_parse_pattern_field p = (case p of (name, ok) \<Rightarrow>
     if \<not> ok then ((0, []), name, False)
     else if behind_field name = [] then ((0, []), [], False)
     else case noise_name_list_to_ids (NOISE_MAX_MODIFIER_IDS + 1) (field_of name) NOISE_PATTERN_CATEGORY NOISE_MODIFIER_CATEGORY of
            Inl _ \<Rightarrow> ((0, []), tl (behind_field name), False)
          | Inr ids \<Rightarrow> ((hd ids, tl ids), tl (behind_field name), True))"

definition noise_protocol_parse_dual_field :: "nat \<Rightarrow> string \<times> bool \<Rightarrow> (nat \<times> nat) \<times> string \<times> bool" where
  "noise_protocol_parse_dual_field category p = (case p of (name, ok) \<Rightarrow>
     if \<not> ok then ((0, 0), name, False)
     else if behind_field name = [] then ((0, 0), [], False)
     else case noise_name_list_to_ids 2 (field_of name) category category of
            Inl _ \<Rightarrow> ((0, 0), tl (behind_field name), False)
          | Inr ids \<Rightarrow> ((hd ids, if length ids \<ge> 2 then ids ! 1 else 0), tl (behind_field name), True))"

definition noise_protocol_name_to_id :: "string \<Rightarrow> noise_error + protocol_id" where
  "noise_protocol_name_to_id name =
     (let (prefix, p) = noise_protocol_parse_field NOISE_PREFIX_CATEGORY False (name, True);
          ((pat, mods), p) = noise_protocol_parse_pattern_field p;
          ((dh, hybrid), p) = noise_protocol_parse_dual_field NOISE_DH_CATEGORY p;
          (cipher, p) = noise_protocol_parse_field NOISE_CIPHER_CATEGORY False p;
          (hash, _, ok) = noise_protocol_parse_field NOISE_HASH_CATEGORY True p
      in if \<not> ok then Inl NOISE_ERROR_UNKNOWN_NAME
         else Inr \<lparr>prefix_id = prefix, pattern_id = pat, modifier_ids = mods, dh_id = dh, hybrid_id = hybrid,
                cipher_id = cipher, hash_id = hash\<rparr>)"

section \<open>The patterns\<close>

definition TOKEN_END :: u8 where "TOKEN_END = 0"
definition TOKEN_S :: u8 where "TOKEN_S = 1"
definition TOKEN_E :: u8 where "TOKEN_E = 2"
definition TOKEN_EE :: u8 where "TOKEN_EE = 3"
definition TOKEN_ES :: u8 where "TOKEN_ES = 4"
definition TOKEN_SE :: u8 where "TOKEN_SE = 5"
definition TOKEN_SS :: u8 where "TOKEN_SS = 6"
definition TOKEN_F :: u8 where "TOKEN_F = 7"
definition TOKEN_FF :: u8 where "TOKEN_FF = 8"
definition TOKEN_PSK :: u8 where "TOKEN_PSK = 9"
definition TOKEN_FLIP_DIR :: u8 where "TOKEN_FLIP_DIR = 255"

lemmas token_defs = TOKEN_END_def TOKEN_S_def TOKEN_E_def TOKEN_EE_def TOKEN_ES_def TOKEN_SE_def TOKEN_SS_def
  TOKEN_F_def TOKEN_FF_def TOKEN_PSK_def TOKEN_FLIP_DIR_def

definition FLAG_LOCAL_STATIC :: u16 where "FLAG_LOCAL_STATIC = 0x0001"
definition FLAG_LOCAL_EPHEMERAL :: u16 where "FLAG_LOCAL_EPHEMERAL = 0x0002"
definition FLAG_LOCAL_REQUIRED :: u16 where "FLAG_LOCAL_REQUIRED = 0x0004"
definition FLAG_LOCAL_EPHEM_REQ :: u16 where "FLAG_LOCAL_EPHEM_REQ = 0x0008"
definition FLAG_LOCAL_HYBRID :: u16 where "FLAG_LOCAL_HYBRID = 0x0010"
definition FLAG_REMOTE_STATIC :: u16 where "FLAG_REMOTE_STATIC = 0x0100"
definition FLAG_REMOTE_EPHEMERAL :: u16 where "FLAG_REMOTE_EPHEMERAL = 0x0200"
definition FLAG_REMOTE_REQUIRED :: u16 where "FLAG_REMOTE_REQUIRED = 0x0400"
definition FLAG_REMOTE_EPHEM_REQ :: u16 where "FLAG_REMOTE_EPHEM_REQ = 0x0800"
definition FLAG_REMOTE_HYBRID :: u16 where "FLAG_REMOTE_HYBRID = 0x1000"
definition FLAG_REMOTE_HYBRID_REQ :: u16 where "FLAG_REMOTE_HYBRID_REQ = 0x2000"

lemmas flag_defs = FLAG_LOCAL_STATIC_def FLAG_LOCAL_EPHEMERAL_def FLAG_LOCAL_REQUIRED_def FLAG_LOCAL_EPHEM_REQ_def
  FLAG_LOCAL_HYBRID_def FLAG_REMOTE_STATIC_def FLAG_REMOTE_EPHEMERAL_def FLAG_REMOTE_REQUIRED_def
  FLAG_REMOTE_EPHEM_REQ_def FLAG_REMOTE_HYBRID_def FLAG_REMOTE_HYBRID_REQ_def

definition noise_pattern_N :: "u16 \<times> u8 list" where
  "noise_pattern_N = (FLAG_LOCAL_EPHEMERAL OR FLAG_REMOTE_STATIC OR FLAG_REMOTE_REQUIRED,
     [TOKEN_E, TOKEN_ES, TOKEN_END])"

definition noise_pattern_K :: "u16 \<times> u8 list" where
  "noise_pattern_K = (FLAG_LOCAL_STATIC OR FLAG_LOCAL_EPHEMERAL OR FLAG_LOCAL_REQUIRED OR FLAG_REMOTE_STATIC OR FLAG_REMOTE_REQUIRED,
     [TOKEN_E, TOKEN_ES, TOKEN_SS, TOKEN_END])"

definition noise_pattern_X :: "u16 \<times> u8 list" where
  "noise_pattern_X = (FLAG_LOCAL_STATIC OR FLAG_LOCAL_EPHEMERAL OR FLAG_REMOTE_STATIC OR FLAG_REMOTE_REQUIRED,
     [TOKEN_E, TOKEN_ES, TOKEN_S, TOKEN_SS, TOKEN_END])"

definition noise_pattern_NN :: "u16 \<times> u8 list" where
  "noise_pattern_NN = (FLAG_LOCAL_EPHEMERAL OR FLAG_REMOTE_EPHEMERAL,
     [TOKEN_E, TOKEN_FLIP_DIR, TOKEN_E, TOKEN_EE, TOKEN_END])"

definition noise_pattern_NK :: "u16 \<times> u8 list" where
  "noise_pattern_NK = (FLAG_LOCAL_EPHEMERAL OR FLAG_REMOTE_STATIC OR FLAG_REMOTE_EPHEMERAL OR FLAG_REMOTE_REQUIRED,
     [TOKEN_E, TOKEN_ES, TOKEN_FLIP_DIR, TOKEN_E, TOKEN_EE, TOKEN_END])"

definition noise_pattern_NX :: "u16 \<times> u8 list" where
  "noise_pattern_NX = (FLAG_LOCAL_EPHEMERAL OR FLAG_REMOTE_STATIC OR FLAG_REMOTE_EPHEMERAL,
     [TOKEN_E, TOKEN_FLIP_DIR, TOKEN_E, TOKEN_EE, TOKEN_S, TOKEN_ES, TOKEN_END])"

definition noise_pattern_XN :: "u16 \<times> u8 list" where
  "noise_pattern_XN = (FLAG_LOCAL_STATIC OR FLAG_LOCAL_EPHEMERAL OR FLAG_REMOTE_EPHEMERAL,
     [TOKEN_E, TOKEN_FLIP_DIR, TOKEN_E, TOKEN_EE, TOKEN_FLIP_DIR, TOKEN_S, TOKEN_SE, TOKEN_END])"

definition noise_pattern_XK :: "u16 \<times> u8 list" where
  "noise_pattern_XK = (FLAG_LOCAL_STATIC OR FLAG_LOCAL_EPHEMERAL OR FLAG_REMOTE_STATIC OR FLAG_REMOTE_EPHEMERAL OR FLAG_REMOTE_REQUIRED,
     [TOKEN_E, TOKEN_ES, TOKEN_FLIP_DIR, TOKEN_E, TOKEN_EE, TOKEN_FLIP_DIR, TOKEN_S, TOKEN_SE, TOKEN_END])"

definition noise_pattern_XX :: "u16 \<times> u8 list" where
  "noise_pattern_XX = (FLAG_LOCAL_STATIC OR FLAG_LOCAL_EPHEMERAL OR FLAG_REMOTE_STATIC OR FLAG_REMOTE_EPHEMERAL,
     [TOKEN_E, TOKEN_FLIP_DIR, TOKEN_E, TOKEN_EE, TOKEN_S, TOKEN_ES, TOKEN_FLIP_DIR, TOKEN_S, TOKEN_SE, TOKEN_END])"

definition noise_pattern_KN :: "u16 \<times> u8 list" where
  "noise_pattern_KN = (FLAG_LOCAL_STATIC OR FLAG_LOCAL_EPHEMERAL OR FLAG_LOCAL_REQUIRED OR FLAG_REMOTE_EPHEMERAL,
     [TOKEN_E, TOKEN_FLIP_DIR, TOKEN_E, TOKEN_EE, TOKEN_SE, TOKEN_END])"

definition noise_pattern_KK :: "u16 \<times> u8 list" where
  "noise_pattern_KK = (FLAG_LOCAL_STATIC OR FLAG_LOCAL_EPHEMERAL OR FLAG_LOCAL_REQUIRED OR FLAG_REMOTE_STATIC OR FLAG_REMOTE_EPHEMERAL OR FLAG_REMOTE_REQUIRED,
     [TOKEN_E, TOKEN_ES, TOKEN_SS, TOKEN_FLIP_DIR, TOKEN_E, TOKEN_EE, TOKEN_SE, TOKEN_END])"

definition noise_pattern_KX :: "u16 \<times> u8 list" where
  "noise_pattern_KX = (FLAG_LOCAL_STATIC OR FLAG_LOCAL_EPHEMERAL OR FLAG_LOCAL_REQUIRED OR FLAG_REMOTE_STATIC OR FLAG_REMOTE_EPHEMERAL,
     [TOKEN_E, TOKEN_FLIP_DIR, TOKEN_E, TOKEN_EE, TOKEN_SE, TOKEN_S, TOKEN_ES, TOKEN_END])"

definition noise_pattern_IN :: "u16 \<times> u8 list" where
  "noise_pattern_IN = (FLAG_LOCAL_STATIC OR FLAG_LOCAL_EPHEMERAL OR FLAG_REMOTE_EPHEMERAL,
     [TOKEN_E, TOKEN_S, TOKEN_FLIP_DIR, TOKEN_E, TOKEN_EE, TOKEN_SE, TOKEN_END])"

definition noise_pattern_IK :: "u16 \<times> u8 list" where
  "noise_pattern_IK = (FLAG_LOCAL_STATIC OR FLAG_LOCAL_EPHEMERAL OR FLAG_REMOTE_STATIC OR FLAG_REMOTE_EPHEMERAL OR FLAG_REMOTE_REQUIRED,
     [TOKEN_E, TOKEN_ES, TOKEN_S, TOKEN_SS, TOKEN_FLIP_DIR, TOKEN_E, TOKEN_EE, TOKEN_SE, TOKEN_END])"

definition noise_pattern_IX :: "u16 \<times> u8 list" where
  "noise_pattern_IX = (FLAG_LOCAL_STATIC OR FLAG_LOCAL_EPHEMERAL OR FLAG_REMOTE_STATIC OR FLAG_REMOTE_EPHEMERAL,
     [TOKEN_E, TOKEN_S, TOKEN_FLIP_DIR, TOKEN_E, TOKEN_EE, TOKEN_SE, TOKEN_S, TOKEN_ES, TOKEN_END])"

lemmas noise_pattern_defs = noise_pattern_N_def noise_pattern_X_def noise_pattern_K_def noise_pattern_NN_def noise_pattern_NK_def noise_pattern_NX_def noise_pattern_XN_def noise_pattern_XK_def noise_pattern_XX_def noise_pattern_KN_def noise_pattern_KK_def noise_pattern_KX_def noise_pattern_IN_def noise_pattern_IK_def noise_pattern_IX_def

definition noise_patterns :: "(nat \<times> u16 \<times> u8 list) list" where
  "noise_patterns =
    [(NOISE_ID CHR ''P'' 1, noise_pattern_N), (NOISE_ID CHR ''P'' 3, noise_pattern_K), (NOISE_ID CHR ''P'' 2, noise_pattern_X),
     (NOISE_ID CHR ''P'' 4, noise_pattern_NN), (NOISE_ID CHR ''P'' 5, noise_pattern_NK), (NOISE_ID CHR ''P'' 6, noise_pattern_NX),
     (NOISE_ID CHR ''P'' 7, noise_pattern_XN), (NOISE_ID CHR ''P'' 8, noise_pattern_XK), (NOISE_ID CHR ''P'' 9, noise_pattern_XX),
     (NOISE_ID CHR ''P'' 10, noise_pattern_KN), (NOISE_ID CHR ''P'' 11, noise_pattern_KK), (NOISE_ID CHR ''P'' 12, noise_pattern_KX),
     (NOISE_ID CHR ''P'' 13, noise_pattern_IN), (NOISE_ID CHR ''P'' 14, noise_pattern_IK), (NOISE_ID CHR ''P'' 15, noise_pattern_IX)]"

definition noise_pattern_lookup :: "nat \<Rightarrow> (u16 \<times> u8 list) option" where
  "noise_pattern_lookup pat = map_of noise_patterns pat"

definition noise_pattern_reverse_flags :: "u16 \<Rightarrow> u16" where
  "noise_pattern_reverse_flags flags = (drop_bit 8 flags AND 0x00FF) OR (push_bit 8 flags AND 0xFF00)"

section \<open>Modifiers\<close>

definition NOISE_MAX_TOKENS :: nat where "NOISE_MAX_TOKENS = 64"

text \<open>The output array counts the two header bytes.\<close>

definition noise_pattern_put_token :: "u8 \<Rightarrow> noise_error \<times> u8 list \<Rightarrow> noise_error \<times> u8 list" where
  "noise_pattern_put_token token p = (case p of (err, out) \<Rightarrow>
     if err \<noteq> NOISE_ERROR_NONE then (err, out)
     else if 2 + length out \<ge> NOISE_MAX_TOKENS then (NOISE_ERROR_INVALID_LENGTH, out)
     else (NOISE_ERROR_NONE, out @ [token]))"

text \<open>The first message becomes pre-messages of the other side; the rest is copied mirrored.\<close>

fun fallback_premessages :: "u8 list \<Rightarrow> u16 \<Rightarrow> (u8 list \<times> u16) option" where
  "fallback_premessages [] flags = Some ([], flags)"
| "fallback_premessages (t # ts) flags =
     (if t = TOKEN_END then Some (t # ts, flags)
      else if t = TOKEN_FLIP_DIR then Some (ts, flags)
      else if t = TOKEN_E then fallback_premessages ts (flags OR FLAG_REMOTE_EPHEM_REQ)
      else if t = TOKEN_F then fallback_premessages ts (flags OR FLAG_REMOTE_HYBRID_REQ)
      else if t = TOKEN_S then fallback_premessages ts (flags OR (FLAG_REMOTE_STATIC OR FLAG_REMOTE_REQUIRED))
      else None)"

definition noise_pattern_expand_fallback :: "u8 list \<Rightarrow> u16 \<Rightarrow> noise_error \<times> u8 list \<times> u16" where
  "noise_pattern_expand_fallback input flags =
     (if flags AND FLAG_REMOTE_EPHEM_REQ \<noteq> 0 then (NOISE_ERROR_UNKNOWN_NAME, [], flags)
      else if flags AND FLAG_REMOTE_EPHEMERAL = 0 then (NOISE_ERROR_UNKNOWN_NAME, [], flags)
      else
        let flags = noise_pattern_reverse_flags flags
        in case fallback_premessages input flags of
             None \<Rightarrow> (NOISE_ERROR_UNKNOWN_NAME, [], flags)
           | Some (rest, flags) \<Rightarrow>
               let mirror = (\<lambda>t. if t = TOKEN_ES then TOKEN_SE else if t = TOKEN_SE then TOKEN_ES else t);
                   (err, out) = fold (\<lambda>t. noise_pattern_put_token (mirror t))
                     (takeWhile (\<lambda>t. t \<noteq> TOKEN_END) rest @ [TOKEN_END]) (NOISE_ERROR_NONE, [])
               in (err, out, flags))"

definition noise_pattern_expand_hfs :: "u8 list \<Rightarrow> u16 \<Rightarrow> noise_error \<times> u8 list \<times> u16" where
  "noise_pattern_expand_hfs input flags =
     (if flags AND FLAG_LOCAL_HYBRID \<noteq> 0 then (NOISE_ERROR_UNKNOWN_NAME, [], flags)
      else if flags AND FLAG_REMOTE_EPHEMERAL = 0 then (NOISE_ERROR_UNKNOWN_NAME, [], flags)
      else
        let double = (\<lambda>t. if t = TOKEN_E then [TOKEN_E, TOKEN_F] else if t = TOKEN_EE then [TOKEN_EE, TOKEN_FF] else [t]);
            (err, out) = fold noise_pattern_put_token
              (concat (map double (takeWhile (\<lambda>t. t \<noteq> TOKEN_END) input)) @ [TOKEN_END]) (NOISE_ERROR_NONE, []);
            flags = flags OR (FLAG_LOCAL_HYBRID OR FLAG_REMOTE_HYBRID)
        in (err, out, if flags AND FLAG_REMOTE_EPHEM_REQ \<noteq> 0 then flags OR FLAG_REMOTE_HYBRID_REQ else flags))"

fun psk_loop :: "u8 list \<Rightarrow> nat \<Rightarrow> u8 \<Rightarrow> nat \<Rightarrow> noise_error \<times> u8 list \<Rightarrow> (noise_error \<times> u8 list \<times> nat)" where
  "psk_loop [] psk_number prev_token message_index (err, out) = (err, out, message_index)"
| "psk_loop (t # ts) psk_number prev_token message_index (err, out) =
     (if t = TOKEN_FLIP_DIR \<or> t = TOKEN_END
      then if message_index = psk_number \<and> prev_token = TOKEN_PSK then (NOISE_ERROR_UNKNOWN_NAME, out, message_index)
           else
             let p = (if message_index = psk_number then noise_pattern_put_token TOKEN_PSK (err, out) else (err, out))
             in if t = TOKEN_END then (fst p, snd p, message_index + 1)
                else psk_loop ts psk_number t (message_index + 1) (noise_pattern_put_token t p)
      else psk_loop ts psk_number t message_index (noise_pattern_put_token t (err, out)))"

definition noise_pattern_expand_psk :: "nat \<Rightarrow> u8 list \<Rightarrow> u16 \<Rightarrow> noise_error \<times> u8 list \<times> u16" where
  "noise_pattern_expand_psk psk_number input flags =
     (if psk_number = 0 \<and> hd input = TOKEN_PSK then (NOISE_ERROR_UNKNOWN_NAME, [], flags)
      else
        let p = (if psk_number = 0 then noise_pattern_put_token TOKEN_PSK (NOISE_ERROR_NONE, []) else (NOISE_ERROR_NONE, []));
            (err, out, message_index) = psk_loop input psk_number TOKEN_END 1 p;
            (err, out) = noise_pattern_put_token TOKEN_END (err, out)
        in (if message_index \<le> psk_number then NOISE_ERROR_UNKNOWN_NAME else err, out, flags))"

fun expand_modifiers :: "nat list \<Rightarrow> u8 list \<Rightarrow> u16 \<Rightarrow> noise_error + u16 \<times> u8 list" where
  "expand_modifiers [] tokens flags = Inr (flags, tokens)"
| "expand_modifiers (m # ms) tokens flags =
     (let r = (if m = NOISE_ID CHR ''M'' 1 then Some (noise_pattern_expand_fallback tokens flags)
               else if m = NOISE_ID CHR ''M'' 2 then Some (noise_pattern_expand_hfs tokens flags)
               else if NOISE_ID CHR ''M'' 20 \<le> m \<and> m \<le> NOISE_ID CHR ''M'' 23
               then Some (noise_pattern_expand_psk (m - NOISE_ID CHR ''M'' 20) tokens flags) else None)
      in case r of None \<Rightarrow> Inl NOISE_ERROR_UNKNOWN_NAME
         | Some (err, tokens, flags) \<Rightarrow>
             if err \<noteq> NOISE_ERROR_NONE then Inl err else expand_modifiers ms tokens flags)"

definition noise_pattern_expand :: "nat \<Rightarrow> nat list \<Rightarrow> noise_error + u16 \<times> u8 list" where
  "noise_pattern_expand pat modifiers =
     (case noise_pattern_lookup pat of
        None \<Rightarrow> Inl NOISE_ERROR_UNKNOWN_NAME
      | Some (flags, tokens) \<Rightarrow> expand_modifiers modifiers tokens flags)"

section \<open>The client's protocol\<close>

definition IK_NAME :: string where
  "IK_NAME = ''Noise_IK_25519_ChaChaPoly_BLAKE2s''"

lemma ik_name_parses:
  "noise_protocol_name_to_id IK_NAME = Inr \<lparr>prefix_id = NOISE_ID CHR ''N'' 1, pattern_id = NOISE_ID CHR ''P'' 14,
     modifier_ids = [], dh_id = NOISE_ID CHR ''D'' 1, hybrid_id = 0, cipher_id = NOISE_ID CHR ''C'' 1, hash_id = NOISE_ID CHR ''H'' 1\<rparr>"
  by (simp add: noise_protocol_name_to_id_def IK_NAME_def noise_protocol_parse_field_def noise_protocol_parse_pattern_field_def
      noise_protocol_parse_dual_field_def behind_field_def field_of_def noise_name_list_to_ids_def noise_later_names.simps
      noise_name_to_id_def algorithm_names_def NOISE_ID_def NOISE_CIPHER_CATEGORY_def NOISE_HASH_CATEGORY_def
      NOISE_DH_CATEGORY_def NOISE_PATTERN_CATEGORY_def NOISE_MODIFIER_CATEGORY_def NOISE_PREFIX_CATEGORY_def
      NOISE_MAX_MODIFIER_IDS_def Let_def)

lemma ik_pattern:
  "noise_pattern_expand (NOISE_ID CHR ''P'' 14) [] = Inr (0x0703,
     [TOKEN_E, TOKEN_ES, TOKEN_S, TOKEN_SS, TOKEN_FLIP_DIR, TOKEN_E, TOKEN_EE, TOKEN_SE, TOKEN_END])"
  by (simp add: noise_pattern_expand_def noise_pattern_lookup_def noise_patterns_def noise_pattern_defs NOISE_ID_def Let_def flag_defs)

end
