(* ===== verification/Noise_Handshake.thy ===== *)
theory Noise_Handshake
  imports Noise_Symmetric Noise_Pattern
begin

text \<open>
  \<^verbatim>\<open>noise/src/protocol/handshakestate.c\<close>: the interpreter of handshake patterns. The
  token pointer is the list of tokens from it on; a message under construction is its bytes so far and
  its capacity. Random draws are numbered in the state. The Diffie-Hellman objects are options, as the
  pointers may be null; reading through a null one is the outcome \<open>NULL_DEREFERENCE\<close>. Left
  out are the hooks for fixed ephemeral keys and pre-shared keys, which this program never sets, and the
  fallback to another pattern, which it never asks for; allocation succeeds.
\<close>

section \<open>The state\<close>

datatype noise_action =
    NOISE_ACTION_NONE
  | NOISE_ACTION_WRITE_MESSAGE
  | NOISE_ACTION_READ_MESSAGE
  | NOISE_ACTION_FAILED
  | NOISE_ACTION_SPLIT
  | NOISE_ACTION_COMPLETE

record handshake =
  symmetric :: symmetric
  hs_role :: noise_role
  requirements :: u16
  action :: noise_action
  tokens :: "u8 list"
  local_static :: "dhstate option"
  local_ephemeral :: "dhstate option"
  local_hybrid :: "dhstate option"
  remote_static :: "dhstate option"
  remote_ephemeral :: "dhstate option"
  remote_hybrid :: "dhstate option"
  prologue :: bytes
  pre_shared_key :: bytes
  draws :: nat

definition REQ_LOCAL_REQUIRED :: u16 where "REQ_LOCAL_REQUIRED = 0x01"
definition REQ_REMOTE_REQUIRED :: u16 where "REQ_REMOTE_REQUIRED = 0x02"
definition REQ_PSK :: u16 where "REQ_PSK = 0x04"
definition REQ_FALLBACK_PREMSG :: u16 where "REQ_FALLBACK_PREMSG = 0x08"
definition REQ_LOCAL_PREMSG :: u16 where "REQ_LOCAL_PREMSG = 0x10"
definition REQ_REMOTE_PREMSG :: u16 where "REQ_REMOTE_PREMSG = 0x20"
definition REQ_FALLBACK_POSSIBLE :: u16 where "REQ_FALLBACK_POSSIBLE = 0x40"

lemmas req_defs = REQ_LOCAL_REQUIRED_def REQ_REMOTE_REQUIRED_def REQ_PSK_def REQ_FALLBACK_PREMSG_def
  REQ_LOCAL_PREMSG_def REQ_REMOTE_PREMSG_def REQ_FALLBACK_POSSIBLE_def

definition noise_handshakestate_requirements :: "u16 \<Rightarrow> bool \<Rightarrow> u16" where
  "noise_handshakestate_requirements flags is_fallback =
     (let r = (if flags AND FLAG_LOCAL_STATIC \<noteq> 0 then REQ_LOCAL_REQUIRED else 0);
          r = (if flags AND FLAG_LOCAL_REQUIRED \<noteq> 0 then r OR REQ_LOCAL_REQUIRED OR REQ_LOCAL_PREMSG else r);
          r = (if flags AND FLAG_REMOTE_REQUIRED \<noteq> 0 then r OR REQ_REMOTE_REQUIRED OR REQ_REMOTE_PREMSG else r)
      in if flags AND (FLAG_REMOTE_EPHEM_REQ OR FLAG_LOCAL_EPHEM_REQ) \<noteq> 0 \<and> is_fallback
         then r OR REQ_FALLBACK_PREMSG else r)"

definition other_role :: "noise_role \<Rightarrow> noise_role" where
  "other_role r = (case r of NOISE_ROLE_INITIATOR \<Rightarrow> NOISE_ROLE_RESPONDER | NOISE_ROLE_RESPONDER \<Rightarrow> NOISE_ROLE_INITIATOR)"

definition noise_handshakestate_new :: "protocol_id \<Rightarrow> symmetric \<Rightarrow> noise_role \<Rightarrow> noise_error + handshake" where
  "noise_handshakestate_new pid syst role =
     (let psk = list_ex (\<lambda>m. NOISE_ID CHR ''M'' 20 \<le> m \<and> m \<le> NOISE_ID CHR ''M'' 23) (modifier_ids pid);
          extra = (if psk then REQ_PSK else 0)
      in case noise_pattern_expand (pattern_id pid) (modifier_ids pid) of
           Inl _ \<Rightarrow> Inl NOISE_ERROR_UNKNOWN_ID
         | Inr (flags, toks) \<Rightarrow>
             let extra = (if flags AND FLAG_REMOTE_REQUIRED \<noteq> 0 then extra OR REQ_FALLBACK_POSSIBLE else extra);
                 flags = (if role = NOISE_ROLE_RESPONDER then noise_pattern_reverse_flags flags else flags);
                 local_role = (if flags AND FLAG_REMOTE_EPHEM_REQ \<noteq> 0 then other_role role else role);
                 new = (\<lambda>flag r. if flags AND flag \<noteq> 0 then Some (noise_curve25519_new r) else None);
                 hybrid_bad = (\<lambda>flag. (flags AND flag \<noteq> 0) \<noteq> (hybrid_id pid \<noteq> 0))
             in if hybrid_bad FLAG_LOCAL_HYBRID \<or> hybrid_bad FLAG_REMOTE_HYBRID then Inl NOISE_ERROR_NOT_APPLICABLE
                else Inr \<lparr>symmetric = syst, hs_role = role,
                  requirements = extra OR noise_handshakestate_requirements flags False,
                  action = NOISE_ACTION_NONE, tokens = toks,
                  local_static = new FLAG_LOCAL_STATIC (Some local_role),
                  local_ephemeral = new FLAG_LOCAL_EPHEMERAL (Some local_role),
                  local_hybrid = new FLAG_LOCAL_HYBRID None,
                  remote_static = new FLAG_REMOTE_STATIC (Some (other_role local_role)),
                  remote_ephemeral = new FLAG_REMOTE_EPHEMERAL (Some (other_role local_role)),
                  remote_hybrid = new FLAG_REMOTE_HYBRID None,
                  prologue = [], pre_shared_key = [], draws = 0\<rparr>)"

definition noise_handshakestate_new_by_name :: "string \<Rightarrow> noise_role \<Rightarrow> blake2s_state \<Rightarrow> noise_error + handshake" where
  "noise_handshakestate_new_by_name name role c =
     (case noise_protocol_name_to_id name of Inl e \<Rightarrow> Inl e
      | Inr pid \<Rightarrow> noise_handshakestate_new pid (noise_symmetricstate_new name c) role)"

section \<open>Keys and prologue\<close>

definition NOISE_PSK_LEN :: nat where "NOISE_PSK_LEN = 32"

definition noise_handshakestate_set_pre_shared_key :: "bytes \<Rightarrow> handshake \<Rightarrow> noise_error \<times> handshake" where
  "noise_handshakestate_set_pre_shared_key key st =
     (if length key \<noteq> NOISE_PSK_LEN then (NOISE_ERROR_INVALID_LENGTH, st)
      else (NOISE_ERROR_NONE, st\<lparr>pre_shared_key := key\<rparr>))"

definition noise_handshakestate_needs_pre_shared_key :: "handshake \<Rightarrow> bool" where
  "noise_handshakestate_needs_pre_shared_key st \<longleftrightarrow> pre_shared_key st = [] \<and> requirements st AND REQ_PSK \<noteq> 0"

definition noise_handshakestate_needs_local_keypair :: "handshake \<Rightarrow> bool" where
  "noise_handshakestate_needs_local_keypair st \<longleftrightarrow>
     requirements st AND REQ_LOCAL_REQUIRED \<noteq> 0 \<and> \<not> noise_dhstate_has_keypair (local_static st)"

definition noise_handshakestate_needs_remote_public_key :: "handshake \<Rightarrow> bool" where
  "noise_handshakestate_needs_remote_public_key st \<longleftrightarrow>
     requirements st AND REQ_REMOTE_REQUIRED \<noteq> 0 \<and> \<not> noise_dhstate_has_public_key (remote_static st)"

definition noise_handshakestate_set_prologue :: "bytes \<Rightarrow> handshake \<Rightarrow> noise_error \<times> handshake" where
  "noise_handshakestate_set_prologue p st =
     (if action st \<noteq> NOISE_ACTION_NONE then (NOISE_ERROR_INVALID_STATE, st)
      else (NOISE_ERROR_NONE, st\<lparr>prologue := p\<rparr>))"

definition hs_mix_hash :: "bytes \<Rightarrow> handshake \<Rightarrow> handshake" where
  "hs_mix_hash d st = st\<lparr>symmetric := snd (noise_symmetricstate_mix_hash d (symmetric st))\<rparr>"

definition hs_mix_key :: "bytes \<Rightarrow> handshake \<Rightarrow> handshake" where
  "hs_mix_key d st = st\<lparr>symmetric := snd (noise_symmetricstate_mix_key d (symmetric st))\<rparr>"

definition noise_handshakestate_mix_public_key :: "dhstate option \<Rightarrow> handshake \<Rightarrow> handshake" where
  "noise_handshakestate_mix_public_key d st =
     (case d of None \<Rightarrow> st | Some k \<Rightarrow> if noise_dhstate_has_public_key d then hs_mix_hash (public_key k) st else st)"

definition noise_handshakestate_start :: "handshake \<Rightarrow> noise_error \<times> handshake" where
  "noise_handshakestate_start st =
     (if action st \<noteq> NOISE_ACTION_NONE then (NOISE_ERROR_INVALID_STATE, st)
      else if requirements st AND REQ_LOCAL_REQUIRED \<noteq> 0 \<and> \<not> noise_dhstate_has_keypair (local_static st)
      then (NOISE_ERROR_LOCAL_KEY_REQUIRED, st)
      else if requirements st AND REQ_REMOTE_REQUIRED \<noteq> 0 \<and> \<not> noise_dhstate_has_public_key (remote_static st)
      then (NOISE_ERROR_REMOTE_KEY_REQUIRED, st)
      else
        let req = requirements st;
            mix = (\<lambda>flag d st. if req AND flag \<noteq> 0 then noise_handshakestate_mix_public_key d st else st);
            st = hs_mix_hash (prologue st) st
        in (NOISE_ERROR_NONE,
            case hs_role st of
              NOISE_ROLE_INITIATOR \<Rightarrow>
                (mix REQ_REMOTE_PREMSG (remote_static st)
                  (mix REQ_FALLBACK_PREMSG (remote_hybrid st) (mix REQ_FALLBACK_PREMSG (remote_ephemeral st)
                    (mix REQ_LOCAL_PREMSG (local_static st) st))))\<lparr>action := NOISE_ACTION_WRITE_MESSAGE\<rparr>
            | NOISE_ROLE_RESPONDER \<Rightarrow>
                (mix REQ_LOCAL_PREMSG (local_static st)
                  (mix REQ_FALLBACK_PREMSG (local_hybrid st) (mix REQ_FALLBACK_PREMSG (local_ephemeral st)
                    (mix REQ_REMOTE_PREMSG (remote_static st) st))))\<lparr>action := NOISE_ACTION_READ_MESSAGE\<rparr>))"

section \<open>Writing a message\<close>

definition noise_handshake_mix_dh :: "sodium \<Rightarrow> dhstate option \<Rightarrow> dhstate option \<Rightarrow> handshake \<Rightarrow> noise_error \<times> handshake" where
  "noise_handshake_mix_dh lib priv pub st =
     (case priv of None \<Rightarrow> (NULL_DEREFERENCE, st)
      | Some k \<Rightarrow>
          (case (case pub of None \<Rightarrow> (NOISE_ERROR_INVALID_PARAM, uninit lib) | Some p \<Rightarrow> noise_dhstate_calculate lib k p) of
             (err, shared) \<Rightarrow> (err, hs_mix_key shared st)))"

text \<open>The four tokens of static and ephemeral keys, which writing and reading share.\<close>

definition dh_token :: "sodium \<Rightarrow> u8 \<Rightarrow> handshake \<Rightarrow> noise_error \<times> handshake" where
  "dh_token lib t st =
     (let init = (hs_role st = NOISE_ROLE_INITIATOR)
      in if t = TOKEN_EE then noise_handshake_mix_dh lib (local_ephemeral st) (remote_ephemeral st) st
         else if t = TOKEN_ES
         then (if init then noise_handshake_mix_dh lib (local_ephemeral st) (remote_static st) st
               else noise_handshake_mix_dh lib (local_static st) (remote_ephemeral st) st)
         else if t = TOKEN_SE
         then (if init then noise_handshake_mix_dh lib (local_static st) (remote_ephemeral st) st
               else noise_handshake_mix_dh lib (local_ephemeral st) (remote_static st) st)
         else if t = TOKEN_SS then noise_handshake_mix_dh lib (local_static st) (remote_static st) st
         else if t = TOKEN_FF then noise_handshake_mix_dh lib (local_hybrid st) (remote_hybrid st) st
         else if t = TOKEN_PSK
         then (if pre_shared_key st = [] then (NOISE_ERROR_PSK_REQUIRED, st)
               else case noise_symmetricstate_mix_key_and_hash (pre_shared_key st) (symmetric st) of
                      (err, syst) \<Rightarrow> (err, st\<lparr>symmetric := syst\<rparr>))
         else (NOISE_ERROR_INVALID_STATE, st))"

definition write_key :: "sodium \<Rightarrow> nat \<Rightarrow> bytes \<Rightarrow> handshake \<Rightarrow> noise_error \<times> bytes \<times> handshake" where
  "write_key lib room key st =
     (if room < length key + noise_symmetricstate_get_mac_length (symmetric st) then (NOISE_ERROR_INVALID_LENGTH, [], st)
      else case noise_symmetricstate_encrypt_and_hash lib key room (symmetric st) of
             (err, out, syst) \<Rightarrow> (err, out, st\<lparr>symmetric := syst\<rparr>))"

definition write_token :: "sodium \<Rightarrow> nat \<Rightarrow> u8 \<Rightarrow> handshake \<Rightarrow> noise_error \<times> bytes \<times> handshake" where
  "write_token lib room t st =
     (if t = TOKEN_E
      then (case local_ephemeral st of None \<Rightarrow> (NOISE_ERROR_INVALID_STATE, [], st)
            | Some e \<Rightarrow>
                let e = noise_dhstate_generate_keypair lib (rand_bytes lib (draws st)) e;
                    st = st\<lparr>local_ephemeral := Some e, draws := draws st + 1\<rparr>
                in if room < DH_LEN then (NOISE_ERROR_INVALID_LENGTH, [], st)
                   else
                     let st = hs_mix_hash (public_key e) st
                     in (NOISE_ERROR_NONE, public_key e,
                         if requirements st AND REQ_PSK \<noteq> 0 then hs_mix_key (public_key e) st else st))
      else if t = TOKEN_S
      then (case local_static st of None \<Rightarrow> (NOISE_ERROR_INVALID_STATE, [], st)
            | Some s \<Rightarrow> write_key lib room (public_key s) st)
      else if t = TOKEN_F
      then (case (local_hybrid st, remote_hybrid st) of
              (Some l, Some r) \<Rightarrow>
                let l = l\<lparr>dh_role := Some (if key_kind r = KEY_TYPE_NO_KEY then NOISE_ROLE_INITIATOR else NOISE_ROLE_RESPONDER)\<rparr>;
                    l = noise_dhstate_generate_keypair lib (rand_bytes lib (draws st)) l
                in write_key lib room (public_key l) (st\<lparr>local_hybrid := Some l, draws := draws st + 1\<rparr>)
            | _ \<Rightarrow> (NOISE_ERROR_INVALID_STATE, [], st))
      else case dh_token lib t st of (err, st) \<Rightarrow> (err, [], st))"

fun write_tokens :: "sodium \<Rightarrow> nat \<Rightarrow> u8 list \<Rightarrow> bytes \<Rightarrow> handshake \<Rightarrow> noise_error \<times> bytes \<times> handshake" where
  "write_tokens lib max_size [] msg st = (NOISE_ERROR_INVALID_STATE, msg, st)"
| "write_tokens lib max_size (t # ts) msg st =
     (if t = TOKEN_END then (NOISE_ERROR_NONE, msg, st\<lparr>tokens := t # ts, action := NOISE_ACTION_SPLIT\<rparr>)
      else if t = TOKEN_FLIP_DIR then (NOISE_ERROR_NONE, msg, st\<lparr>tokens := ts, action := NOISE_ACTION_READ_MESSAGE\<rparr>)
      else case write_token lib (max_size - length msg) t st of (err, out, st) \<Rightarrow>
             if err \<noteq> NOISE_ERROR_NONE then (err, msg, st)
             else write_tokens lib max_size ts (msg @ out) (st\<lparr>tokens := ts\<rparr>))"

definition noise_handshakestate_write ::
    "sodium \<Rightarrow> nat \<Rightarrow> bytes option \<Rightarrow> handshake \<Rightarrow> noise_error \<times> bytes \<times> handshake" where
  "noise_handshakestate_write lib max_size payload st =
     (case write_tokens lib max_size (tokens st) [] st of (err, msg, st) \<Rightarrow>
        if err \<noteq> NOISE_ERROR_NONE then (err, msg, st)
        else
          let mac_len = noise_symmetricstate_get_mac_length (symmetric st);
              room = max_size - length msg;
              body = (case payload of None \<Rightarrow> [] | Some p \<Rightarrow> p)
          in if room < mac_len \<or> room - mac_len < length body then (NOISE_ERROR_INVALID_LENGTH, msg, st)
             else case noise_symmetricstate_encrypt_and_hash lib body room (symmetric st) of (err, out, syst) \<Rightarrow>
                    if err \<noteq> NOISE_ERROR_NONE then (err, msg, st\<lparr>symmetric := syst\<rparr>)
                    else (NOISE_ERROR_NONE, msg @ out, st\<lparr>symmetric := syst\<rparr>))"

definition noise_handshakestate_write_message ::
    "sodium \<Rightarrow> nat \<Rightarrow> bytes option \<Rightarrow> handshake \<Rightarrow> noise_error \<times> bytes \<times> handshake" where
  "noise_handshakestate_write_message lib max_size payload st =
     (if action st \<noteq> NOISE_ACTION_WRITE_MESSAGE then (NOISE_ERROR_INVALID_STATE, [], st)
      else case noise_handshakestate_write lib max_size payload st of (err, msg, st) \<Rightarrow>
             if err \<noteq> NOISE_ERROR_NONE then (err, [], st\<lparr>action := NOISE_ACTION_FAILED\<rparr>) else (err, msg, st))"

section \<open>Reading a message\<close>

definition read_key :: "sodium \<Rightarrow> bytes \<Rightarrow> dhstate \<Rightarrow> handshake \<Rightarrow> noise_error \<times> dhstate \<times> bytes \<times> handshake" where
  "read_key lib msg d st =
     (let len = DH_LEN + noise_symmetricstate_get_mac_length (symmetric st)
      in if length msg < len then (NOISE_ERROR_INVALID_LENGTH, d, msg, st)
         else case noise_symmetricstate_decrypt_and_hash lib (take len msg) len (symmetric st) of (err, out, syst) \<Rightarrow>
                let st = st\<lparr>symmetric := syst\<rparr>
                in if err \<noteq> NOISE_ERROR_NONE then (err, d, msg, st)
                   else case noise_dhstate_set_public_key out d of (err, d) \<Rightarrow>
                          if err \<noteq> NOISE_ERROR_NONE then (err, d, msg, st) else (err, d, drop len msg, st))"

definition read_token :: "sodium \<Rightarrow> u8 \<Rightarrow> bytes \<Rightarrow> handshake \<Rightarrow> noise_error \<times> bytes \<times> handshake" where
  "read_token lib t msg st =
     (if t = TOKEN_E
      then (case remote_ephemeral st of None \<Rightarrow> (NOISE_ERROR_INVALID_STATE, msg, st)
            | Some e \<Rightarrow>
                if length msg < DH_LEN then (NOISE_ERROR_INVALID_LENGTH, msg, st)
                else
                  let key = take DH_LEN msg;
                      (err, syst) = noise_symmetricstate_mix_hash key (symmetric st);
                      st = st\<lparr>symmetric := syst\<rparr>;
                      (err, st) = (if err = NOISE_ERROR_NONE \<and> requirements st AND REQ_PSK \<noteq> 0
                                   then (case noise_symmetricstate_mix_key key (symmetric st) of (err, syst) \<Rightarrow> (err, st\<lparr>symmetric := syst\<rparr>))
                                   else (err, st))
                  in if err \<noteq> NOISE_ERROR_NONE then (err, msg, st)
                     else case noise_dhstate_set_public_key key e of (err, e) \<Rightarrow>
                            let st = st\<lparr>remote_ephemeral := Some e\<rparr>
                            in if err \<noteq> NOISE_ERROR_NONE then (err, msg, st)
                               else if noise_dhstate_is_null_public_key e then (NOISE_ERROR_INVALID_PUBLIC_KEY, msg, st)
                               else (NOISE_ERROR_NONE, drop DH_LEN msg, st))
      else if t = TOKEN_S
      then (case remote_static st of None \<Rightarrow> (NOISE_ERROR_INVALID_STATE, msg, st)
            | Some s \<Rightarrow>
                case read_key lib msg s st of (err, s, rest, st) \<Rightarrow> (err, rest, st\<lparr>remote_static := Some s\<rparr>))
      else if t = TOKEN_F
      then (case (local_hybrid st, remote_hybrid st) of
              (Some l, Some r) \<Rightarrow>
                let r = r\<lparr>dh_role := Some (if key_kind l = KEY_TYPE_NO_KEY then NOISE_ROLE_INITIATOR else NOISE_ROLE_RESPONDER)\<rparr>
                in case read_key lib msg r st of (err, r, rest, st) \<Rightarrow>
                     let st = st\<lparr>remote_hybrid := Some r\<rparr>
                     in if err \<noteq> NOISE_ERROR_NONE then (err, rest, st)
                        else if noise_dhstate_is_null_public_key r then (NOISE_ERROR_INVALID_PUBLIC_KEY, rest, st)
                        else (err, rest, st)
            | _ \<Rightarrow> (NOISE_ERROR_INVALID_STATE, msg, st))
      else case dh_token lib t st of (err, st) \<Rightarrow> (err, msg, st))"

fun read_tokens :: "sodium \<Rightarrow> u8 list \<Rightarrow> bytes \<Rightarrow> handshake \<Rightarrow> noise_error \<times> bytes \<times> handshake" where
  "read_tokens lib [] msg st = (NOISE_ERROR_INVALID_STATE, msg, st)"
| "read_tokens lib (t # ts) msg st =
     (if t = TOKEN_END then (NOISE_ERROR_NONE, msg, st\<lparr>tokens := t # ts, action := NOISE_ACTION_SPLIT\<rparr>)
      else if t = TOKEN_FLIP_DIR then (NOISE_ERROR_NONE, msg, st\<lparr>tokens := ts, action := NOISE_ACTION_WRITE_MESSAGE\<rparr>)
      else case read_token lib t msg st of (err, rest, st) \<Rightarrow>
             if err \<noteq> NOISE_ERROR_NONE then (err, rest, st)
             else read_tokens lib ts rest (st\<lparr>tokens := ts\<rparr>))"

text \<open>The payload goes to a buffer of the given size, when the caller passes one.\<close>

definition noise_handshakestate_read ::
    "sodium \<Rightarrow> bytes \<Rightarrow> nat option \<Rightarrow> handshake \<Rightarrow> noise_error \<times> bytes \<times> handshake" where
  "noise_handshakestate_read lib message payload_max st =
     (case read_tokens lib (tokens st) message st of (err, rest, st) \<Rightarrow>
        if err \<noteq> NOISE_ERROR_NONE then (err, [], st)
        else case noise_symmetricstate_decrypt_and_hash lib rest (length rest) (symmetric st) of (err, out, syst) \<Rightarrow>
               let st = st\<lparr>symmetric := syst\<rparr>
               in if err \<noteq> NOISE_ERROR_NONE then (err, [], st)
                  else case payload_max of
                         None \<Rightarrow> (NOISE_ERROR_NONE, [], st)
                       | Some m \<Rightarrow> if length out > m then (NOISE_ERROR_INVALID_LENGTH, [], st) else (NOISE_ERROR_NONE, out, st))"

definition noise_handshakestate_read_message ::
    "sodium \<Rightarrow> bytes \<Rightarrow> nat option \<Rightarrow> handshake \<Rightarrow> noise_error \<times> bytes \<times> handshake" where
  "noise_handshakestate_read_message lib message payload_max st =
     (if action st \<noteq> NOISE_ACTION_READ_MESSAGE then (NOISE_ERROR_INVALID_STATE, [], st)
      else case noise_handshakestate_read lib message payload_max st of (err, out, st) \<Rightarrow>
             (err, out, if err \<noteq> NOISE_ERROR_NONE then st\<lparr>action := NOISE_ACTION_FAILED\<rparr> else st))"

section \<open>The split\<close>

definition noise_handshakestate_split ::
    "handshake \<Rightarrow> noise_error \<times> (cipherstate \<times> cipherstate) option \<times> handshake" where
  "noise_handshakestate_split st =
     (if action st \<noteq> NOISE_ACTION_SPLIT then (NOISE_ERROR_INVALID_STATE, None, st)
      else if sy_cipher (symmetric st) = None then (NOISE_ERROR_INVALID_STATE, None, st)
      else case noise_symmetricstate_split (symmetric st) of (err, cs, syst) \<Rightarrow>
             (err,
              (if hs_role st = NOISE_ROLE_RESPONDER then map_option (\<lambda>(c1, c2). (c2, c1)) cs else cs),
              st\<lparr>symmetric := syst, action := (if err = NOISE_ERROR_NONE then NOISE_ACTION_COMPLETE else action st)\<rparr>))"

definition noise_handshakestate_get_handshake_hash :: "nat \<Rightarrow> handshake \<Rightarrow> noise_error + bytes" where
  "noise_handshakestate_get_handshake_hash max_len st =
     (if action st \<noteq> NOISE_ACTION_SPLIT \<and> action st \<noteq> NOISE_ACTION_COMPLETE then Inl NOISE_ERROR_INVALID_STATE
      else if HASH_LEN \<le> max_len then Inr (sy_h (symmetric st) @ replicate (max_len - HASH_LEN) 0)
      else Inr (take max_len (sy_h (symmetric st))))"

end
