(* ===== verification/Noise_Agreement.thy ===== *)
theory Noise_Agreement
  imports Noise_Handshake
begin

text \<open>
  The handshake of the two sides against each other. The responder of these lemmas is the same code
  in its other role, which speaks the protocol of the control server. Both sides are followed token by
  token with symmetric states that agree (\<open>same_sym\<close>): what one encrypts the other decrypts, and
  the split hands both the same two ciphers, crossed over.
\<close>

section \<open>Agreeing states\<close>

definition same_sym :: "symmetric \<Rightarrow> symmetric \<Rightarrow> bool" where
  "same_sym y z \<longleftrightarrow> sym_ok y \<and> sym_ok z \<and> sym_view y = sym_view z"

definition fresh_key :: "symmetric \<Rightarrow> bool" where
  "fresh_key y \<longleftrightarrow> (\<exists>k. sy_cipher y = Some (keyed k))"

lemma same_hash: "same_sym y z \<Longrightarrow> same_sym (snd (noise_symmetricstate_mix_hash d y)) (snd (noise_symmetricstate_mix_hash d z))"
  unfolding same_sym_def by (simp add: mix_hash_ok) (simp add: sym_view_def)

lemma mix_hash_ok_fst: "same_sym y z \<Longrightarrow> noise_symmetricstate_mix_hash d z = (NOISE_ERROR_NONE, snd (noise_symmetricstate_mix_hash d z))"
  using mix_hash_ok(1) [of z d] by (auto simp: same_sym_def prod_eq_iff)

lemma same_key:
  assumes "same_sym y z"
  shows "same_sym (snd (noise_symmetricstate_mix_key d y)) (snd (noise_symmetricstate_mix_key d z))"
    and "fresh_key (snd (noise_symmetricstate_mix_key d y))"
proof -
  from assms have ok: "sym_ok y" "sym_ok z" "sy_ck y = sy_ck z" "sy_h y = sy_h z" by (auto simp: same_sym_def sym_view_def)
  show "same_sym (snd (noise_symmetricstate_mix_key d y)) (snd (noise_symmetricstate_mix_key d z))"
    unfolding same_sym_def using ok by (simp add: mix_key_ok)
  show "fresh_key (snd (noise_symmetricstate_mix_key d y))"
    using mix_key_ok(3) [OF ok(1), of d] by (auto simp: fresh_key_def sym_view_def)
qed

lemma fresh_mac_length: "fresh_key y \<Longrightarrow> noise_symmetricstate_get_mac_length y = 16"
  by (auto simp: fresh_key_def noise_symmetricstate_get_mac_length_def keyed_def MAC_LEN_def)

lemma same_fresh: "same_sym y z \<Longrightarrow> fresh_key z = fresh_key y"
  by (auto simp: same_sym_def sym_view_def fresh_key_def)

lemma same_crypt:
  assumes lib: "aead_lib lib" and s: "same_sym y z" and f: "fresh_key y" and l: "length p + 16 \<le> room" "length p \<le> 1000"
  obtains c y' z' where "noise_symmetricstate_encrypt_and_hash lib p room y = (NOISE_ERROR_NONE, c, y')"
    "noise_symmetricstate_decrypt_and_hash lib c (length p + 16) z = (NOISE_ERROR_NONE, p, z')"
    "same_sym y' z'" "length c = length p + 16"
proof -
  obtain k where k: "sy_cipher y = Some (keyed k)" using f by (auto simp: fresh_key_def)
  let ?c = "noise_chachapoly_encrypt lib (sy_h y) p (keyed k)"
  have z: "sy_cipher z = Some (keyed k)" "sy_h z = sy_h y" "sym_ok y" "sym_ok z" "sy_ck z = sy_ck y"
    using s k by (auto simp: same_sym_def sym_view_def)
  have n: "nonce_ctr (keyed k) \<noteq> NONCE_END" "has_key (keyed k)" by (simp_all add: keyed_def NONCE_END_def)
  obtain y' where y': "noise_symmetricstate_encrypt_and_hash lib p room y = (NOISE_ERROR_NONE, ?c, y')" "sym_ok y'"
      "sym_view y' = (Some ((keyed k)\<lparr>nonce_ctr := nonce_ctr (keyed k) + 1\<rparr>), sy_ck y, blake2s (sy_h y @ ?c))"
    using encrypt_and_hash_ok [OF z(3) k n(2,1), of p room lib] l by (auto simp: MAC_LEN_def NOISE_MAX_PAYLOAD_LEN_def)
  obtain z' where z': "noise_symmetricstate_decrypt_and_hash lib ?c (length p + 16) z = (NOISE_ERROR_NONE, p, z')" "sym_ok z'"
      "sym_view z' = (Some ((keyed k)\<lparr>nonce_ctr := nonce_ctr (keyed k) + 1\<rparr>), sy_ck z, blake2s (sy_h z @ ?c))"
    using decrypt_and_hash_ok [OF lib z(4,1) n(2,1), of p "length p + 16" ?c] l z(2) by (auto simp: MAC_LEN_def NOISE_MAX_PAYLOAD_LEN_def)
  show thesis
    by (rule that [OF y'(1) z'(1)]) (use y' z' z lib in \<open>simp_all add: same_sym_def length_chachapoly_encrypt MAC_LEN_def\<close>)
qed

section \<open>Key agreement\<close>

text \<open>
  X25519 as libsodium documents it: the secrets of two key pairs agree, and public keys are 32 bytes
  that are not all zero.
\<close>

definition dh_lib :: "sodium \<Rightarrow> bool" where
  "dh_lib lib \<longleftrightarrow> (\<forall>a b. scalarmult lib a (scalarmult_base lib b) = scalarmult lib b (scalarmult_base lib a)
      \<and> scalarmult lib a (scalarmult_base lib b) \<noteq> None)
     \<and> (\<forall>a. length (scalarmult_base lib a) = 32 \<and> \<not> list_all (\<lambda>b. b = 0) (scalarmult_base lib a))"

definition secret :: "sodium \<Rightarrow> bytes \<Rightarrow> bytes \<Rightarrow> bytes" where
  "secret lib a b = the (scalarmult lib a (scalarmult_base lib b))"

lemma secret_commute: "dh_lib lib \<Longrightarrow> secret lib a b = secret lib b a"
  by (simp add: dh_lib_def secret_def)

definition keypair :: "sodium \<Rightarrow> bytes \<Rightarrow> noise_role option \<Rightarrow> dhstate" where
  "keypair lib a r = \<lparr>key_kind = KEY_TYPE_KEYPAIR, private_key = a, public_key = scalarmult_base lib a, dh_role = r\<rparr>"

definition peer_key :: "sodium \<Rightarrow> bytes \<Rightarrow> noise_role option \<Rightarrow> dhstate" where
  "peer_key lib a r = \<lparr>key_kind = KEY_TYPE_PUBLIC, private_key = replicate DH_LEN 0, public_key = scalarmult_base lib a, dh_role = r\<rparr>"

lemma base_facts:
  assumes "dh_lib lib"
  shows "length (scalarmult_base lib a) = 32" "\<not> noise_is_zero (scalarmult_base lib a) DH_LEN"
proof -
  show l: "length (scalarmult_base lib a) = 32" using assms by (simp add: dh_lib_def)
  have "\<not> noise_is_zero (scalarmult_base lib a) (length (scalarmult_base lib a))"
    unfolding noise_is_zero_iff using assms by (simp add: dh_lib_def)
  then show "\<not> noise_is_zero (scalarmult_base lib a) DH_LEN" by (simp add: l DH_LEN_def)
qed

lemma mix_dh_keys:
  assumes "dh_lib lib" "public_key p = scalarmult_base lib b"
  shows "noise_handshake_mix_dh lib (Some (keypair lib a r)) (Some p) st
    = (NOISE_ERROR_NONE, st\<lparr>symmetric := snd (noise_symmetricstate_mix_key (secret lib a b) (symmetric st))\<rparr>)"
proof -
  obtain s where "scalarmult lib a (scalarmult_base lib b) = Some s"
    using assms(1) unfolding dh_lib_def by blast
  then show ?thesis using assms base_facts [OF assms(1), of b]
    by (simp add: noise_handshake_mix_dh_def noise_dhstate_calculate_def keypair_def hs_mix_key_def secret_def)
qed

lemma public_keys [simp]:
  "public_key (keypair lib a r) = scalarmult_base lib a" "public_key (peer_key lib a r) = scalarmult_base lib a"
  "noise_dhstate_has_keypair (Some (keypair lib a r))" "noise_dhstate_has_public_key (Some (keypair lib a r))"
  "noise_dhstate_has_public_key (Some (peer_key lib a r))"
  by (simp_all add: keypair_def peer_key_def noise_dhstate_has_keypair_def noise_dhstate_has_public_key_def)

lemma set_public: "dh_lib lib \<Longrightarrow> noise_dhstate_set_public_key (scalarmult_base lib a) d = (NOISE_ERROR_NONE, peer_key lib a (dh_role d))"
  by (cases d) (simp add: noise_dhstate_set_public_key_def peer_key_def base_facts DH_LEN_def)

lemma generate: "noise_dhstate_generate_keypair lib rand d = keypair lib (clamp rand) (dh_role d)"
  by (cases d) (simp add: noise_dhstate_generate_keypair_def keypair_def Let_def)

section \<open>The IK pattern\<close>

text \<open>
  A state of the pattern IK, with what stays fixed left to the arguments: the role and its
  requirements.
\<close>

definition ik_requirements :: "noise_role \<Rightarrow> u16" where
  "ik_requirements r = (case r of NOISE_ROLE_INITIATOR \<Rightarrow> 0x63 | NOISE_ROLE_RESPONDER \<Rightarrow> 0x51)"

definition ik_state :: "noise_role \<Rightarrow> bytes \<Rightarrow> noise_action \<Rightarrow> u8 list \<Rightarrow> symmetric \<Rightarrow> dhstate \<Rightarrow> dhstate \<Rightarrow> dhstate \<Rightarrow> dhstate \<Rightarrow> nat \<Rightarrow> handshake" where
  "ik_state r p act toks y ls le rs re d = \<lparr>symmetric = y, hs_role = r, requirements = ik_requirements r, action = act, tokens = toks,
     local_static = Some ls, local_ephemeral = Some le, local_hybrid = None, remote_static = Some rs, remote_ephemeral = Some re,
     remote_hybrid = None, prologue = p, pre_shared_key = [], draws = d\<rparr>"

definition IK_FIRST :: "u8 list" where "IK_FIRST = [TOKEN_E, TOKEN_ES, TOKEN_S, TOKEN_SS, TOKEN_FLIP_DIR, TOKEN_E, TOKEN_EE, TOKEN_SE, TOKEN_END]"
definition IK_SECOND :: "u8 list" where "IK_SECOND = [TOKEN_E, TOKEN_EE, TOKEN_SE, TOKEN_END]"

definition IK_SYMMETRIC :: "blake2s_state \<Rightarrow> symmetric" where
  "IK_SYMMETRIC c = noise_symmetricstate_new IK_NAME c"

definition no_key :: "noise_role \<Rightarrow> dhstate" where
  "no_key r = noise_curve25519_new (Some r)"

lemma ik_new:
  "noise_handshakestate_new_by_name IK_NAME r c
    = Inr (ik_state r [] NOISE_ACTION_NONE IK_FIRST (IK_SYMMETRIC c) (no_key r) (no_key r) (no_key (other_role r)) (no_key (other_role r)) 0)"
  by (cases r) (simp_all add: noise_handshakestate_new_by_name_def ik_name_parses noise_handshakestate_new_def ik_pattern
      ik_state_def flag_defs noise_handshakestate_requirements_def req_defs ik_requirements_def no_key_def
      noise_pattern_reverse_flags_def IK_SYMMETRIC_def IK_FIRST_def Let_def)

lemma ik_symmetric_same:
  assumes "hash_ok c" "hash_ok c'"
  shows "same_sym (IK_SYMMETRIC c) (IK_SYMMETRIC c')"
proof -
  obtain d where d: "hash_pieces [bytes_of IK_NAME] c = (blake2s (bytes_of IK_NAME), d)" "hash_ok d"
    using hash_pieces_ok [OF assms(1), of "[bytes_of IK_NAME]"] by auto
  obtain d' where d': "hash_pieces [bytes_of IK_NAME] c' = (blake2s (bytes_of IK_NAME), d')" "hash_ok d'"
    using hash_pieces_ok [OF assms(2), of "[bytes_of IK_NAME]"] by auto
  have "length IK_NAME = 33" by (simp add: IK_NAME_def)
  then show ?thesis using d d'
    by (simp add: IK_SYMMETRIC_def noise_symmetricstate_new_def noise_hashstate_hash_one_def same_sym_def sym_ok_def sym_view_def
        Let_def HASH_LEN_def)
qed

section \<open>The two messages\<close>

lemma ik_req_no_psk: "ik_requirements r AND REQ_PSK = 0"
  by (cases r) (simp_all add: ik_requirements_def REQ_PSK_def)

lemma token_neqs [simp]:
  "TOKEN_E \<noteq> TOKEN_END" "TOKEN_ES \<noteq> TOKEN_END" "TOKEN_S \<noteq> TOKEN_END" "TOKEN_SS \<noteq> TOKEN_END" "TOKEN_EE \<noteq> TOKEN_END"
  "TOKEN_SE \<noteq> TOKEN_END" "TOKEN_FLIP_DIR \<noteq> TOKEN_END" "TOKEN_E \<noteq> TOKEN_FLIP_DIR" "TOKEN_ES \<noteq> TOKEN_FLIP_DIR"
  "TOKEN_S \<noteq> TOKEN_FLIP_DIR" "TOKEN_SS \<noteq> TOKEN_FLIP_DIR" "TOKEN_EE \<noteq> TOKEN_FLIP_DIR" "TOKEN_SE \<noteq> TOKEN_FLIP_DIR"
  by (simp_all add: token_defs)

lemma write_e:
  assumes "local_ephemeral st = Some le" "dh_lib lib" "32 \<le> room" "requirements st AND REQ_PSK = 0"
    and "e = clamp (rand_bytes lib (draws st))"
  shows "write_token lib room TOKEN_E st = (NOISE_ERROR_NONE, scalarmult_base lib e,
    st\<lparr>symmetric := snd (noise_symmetricstate_mix_hash (scalarmult_base lib e) (symmetric st)),
       local_ephemeral := Some (keypair lib e (dh_role le)), draws := draws st + 1\<rparr>)"
  using assms by (simp add: write_token_def generate hs_mix_hash_def Let_def DH_LEN_def)

lemma write_s:
  assumes "local_static st = Some (keypair lib a r)" "dh_lib lib" "fresh_key (symmetric st)" "48 \<le> room"
    and "noise_symmetricstate_encrypt_and_hash lib (scalarmult_base lib a) room (symmetric st) = (NOISE_ERROR_NONE, c, y)"
  shows "write_token lib room TOKEN_S st = (NOISE_ERROR_NONE, c, st\<lparr>symmetric := y\<rparr>)"
  using assms base_facts [OF assms(2)] fresh_mac_length [OF assms(3)]
  by (simp add: write_token_def write_key_def token_defs)

lemma read_e:
  assumes "remote_ephemeral st = Some re" "dh_lib lib" "requirements st AND REQ_PSK = 0"
    and "same_sym y (symmetric st)"
  shows "read_token lib TOKEN_E (scalarmult_base lib e @ rest) st = (NOISE_ERROR_NONE, rest,
    st\<lparr>symmetric := snd (noise_symmetricstate_mix_hash (scalarmult_base lib e) (symmetric st)), remote_ephemeral := Some (peer_key lib e (dh_role re))\<rparr>)"
proof -
  have "\<not> noise_dhstate_is_null_public_key (peer_key lib e (dh_role re))"
    using base_facts [OF assms(2), of e] by (simp add: noise_dhstate_is_null_public_key_def)
  moreover obtain z where "noise_symmetricstate_mix_hash (scalarmult_base lib e) (symmetric st) = (NOISE_ERROR_NONE, z)"
    using mix_hash_ok_fst [OF assms(4), of "scalarmult_base lib e"] by metis
  ultimately show ?thesis using assms(1-3) base_facts [OF assms(2), of e] set_public [OF assms(2), of e re]
    by (simp add: read_token_def Let_def DH_LEN_def)
qed

lemma read_s:
  assumes "remote_static st = Some rs" "dh_lib lib" "fresh_key (symmetric st)" "length c = 48"
    and "noise_symmetricstate_decrypt_and_hash lib c 48 (symmetric st) = (NOISE_ERROR_NONE, scalarmult_base lib a, z)"
  shows "read_token lib TOKEN_S (c @ rest) st = (NOISE_ERROR_NONE, rest,
    st\<lparr>symmetric := z, remote_static := Some (peer_key lib a (dh_role rs))\<rparr>)"
  using assms fresh_mac_length [OF assms(3)] set_public [OF assms(2), of a rs]
  by (simp add: read_token_def read_key_def token_defs Let_def DH_LEN_def)

text \<open>A Diffie-Hellman token on a state of the pattern, on the writing and on the reading side.\<close>

lemma dh_tokens:
  "t \<in> {TOKEN_EE, TOKEN_ES, TOKEN_SE, TOKEN_SS} \<Longrightarrow> write_token lib room t st = (case dh_token lib t st of (err, st) \<Rightarrow> (err, [], st))"
  "t \<in> {TOKEN_EE, TOKEN_ES, TOKEN_SE, TOKEN_SS} \<Longrightarrow> read_token lib t msg st = (case dh_token lib t st of (err, st) \<Rightarrow> (err, msg, st))"
  by (auto simp: write_token_def read_token_def token_defs)

lemma dh_token_pairs:
  "dh_token lib TOKEN_EE st = noise_handshake_mix_dh lib (local_ephemeral st) (remote_ephemeral st) st"
  "dh_token lib TOKEN_SS st = noise_handshake_mix_dh lib (local_static st) (remote_static st) st"
  "dh_token lib TOKEN_ES st = (if hs_role st = NOISE_ROLE_INITIATOR
     then noise_handshake_mix_dh lib (local_ephemeral st) (remote_static st) st
     else noise_handshake_mix_dh lib (local_static st) (remote_ephemeral st) st)"
  "dh_token lib TOKEN_SE st = (if hs_role st = NOISE_ROLE_INITIATOR
     then noise_handshake_mix_dh lib (local_static st) (remote_ephemeral st) st
     else noise_handshake_mix_dh lib (local_ephemeral st) (remote_static st) st)"
  by (simp_all add: dh_token_def token_defs)

lemma first_message:
  fixes lib :: sodium and d :: nat
  assumes lib: "aead_lib lib" "dh_lib lib" and s: "same_sym y z"
  defines "e \<equiv> clamp (rand_bytes lib d)"
  obtains m y' z' where
    "noise_handshakestate_write_message lib 512 None (ik_state NOISE_ROLE_INITIATOR p NOISE_ACTION_WRITE_MESSAGE IK_FIRST y
        (keypair lib ska rl) le (peer_key lib skb rr) re d)
      = (NOISE_ERROR_NONE, m, ik_state NOISE_ROLE_INITIATOR p NOISE_ACTION_READ_MESSAGE IK_SECOND y'
          (keypair lib ska rl) (keypair lib e (dh_role le)) (peer_key lib skb rr) re (d + 1))"
    "noise_handshakestate_read_message lib m None (ik_state NOISE_ROLE_RESPONDER p' NOISE_ACTION_READ_MESSAGE IK_FIRST z
        (keypair lib skb rl') le' rs' re' d')
      = (NOISE_ERROR_NONE, [], ik_state NOISE_ROLE_RESPONDER p' NOISE_ACTION_WRITE_MESSAGE IK_SECOND z'
          (keypair lib skb rl') le' (peer_key lib ska (dh_role rs')) (peer_key lib e (dh_role re')) d')"
    "same_sym y' z'" "length m = 96"
proof -
  let ?E = "scalarmult_base lib e"
  let ?mh = "\<lambda>d y. snd (noise_symmetricstate_mix_hash d y)"
  let ?mk = "\<lambda>d y. snd (noise_symmetricstate_mix_key d y)"
  define y1 z1 where yz1: "y1 = ?mk (secret lib e skb) (?mh ?E y)" "z1 = ?mk (secret lib skb e) (?mh ?E z)"
  have s1: "same_sym y1 z1" "fresh_key y1"
    unfolding yz1 secret_commute [OF lib(2), of skb e] using same_key [OF same_hash [OF s]] by auto
  obtain c1 y2 z2 where c1: "noise_symmetricstate_encrypt_and_hash lib (scalarmult_base lib ska) 480 y1 = (NOISE_ERROR_NONE, c1, y2)"
    "noise_symmetricstate_decrypt_and_hash lib c1 48 z1 = (NOISE_ERROR_NONE, scalarmult_base lib ska, z2)"
    "same_sym y2 z2" "length c1 = 48"
    using same_crypt [OF lib(1) s1, of "scalarmult_base lib ska" 480] base_facts [OF lib(2), of ska] by auto
  define y3 z3 where yz3: "y3 = ?mk (secret lib ska skb) y2" "z3 = ?mk (secret lib skb ska) z2"
  have s3: "same_sym y3 z3" "fresh_key y3"
    unfolding yz3 secret_commute [OF lib(2), of skb ska] using same_key [OF c1(3)] by auto
  obtain c2 y4 z4 where c2: "noise_symmetricstate_encrypt_and_hash lib [] 432 y3 = (NOISE_ERROR_NONE, c2, y4)"
    "noise_symmetricstate_decrypt_and_hash lib c2 16 z3 = (NOISE_ERROR_NONE, [], z4)"
    "same_sym y4 z4" "length c2 = 16"
    using same_crypt [OF lib(1) s3, of "[]" 432] by auto
  have f: "fresh_key z1" "fresh_key z3" using s1 s3 same_fresh by auto
  note defs = ik_state_def IK_FIRST_def IK_SECOND_def ik_req_no_psk dh_tokens dh_token_pairs mix_dh_keys [OF lib(2)]
    base_facts [OF lib(2)] yz1 [symmetric] yz3 [symmetric] e_def [symmetric]
  have w: "write_tokens lib 512 IK_FIRST [] (ik_state NOISE_ROLE_INITIATOR p NOISE_ACTION_WRITE_MESSAGE IK_FIRST y
        (keypair lib ska rl) le (peer_key lib skb rr) re d)
      = (NOISE_ERROR_NONE, ?E @ c1, ik_state NOISE_ROLE_INITIATOR p NOISE_ACTION_READ_MESSAGE IK_SECOND y3
          (keypair lib ska rl) (keypair lib e (dh_role le)) (peer_key lib skb rr) re (d + 1))"
    using c1(1) s1(2) by (simp add: defs write_e [OF _ lib(2) _ _ refl] write_s [OF _ lib(2)])
  have r: "read_tokens lib IK_FIRST (?E @ c1 @ c2) (ik_state NOISE_ROLE_RESPONDER p' NOISE_ACTION_READ_MESSAGE IK_FIRST z
        (keypair lib skb rl') le' rs' re' d')
      = (NOISE_ERROR_NONE, c2, ik_state NOISE_ROLE_RESPONDER p' NOISE_ACTION_WRITE_MESSAGE IK_SECOND z3
          (keypair lib skb rl') le' (peer_key lib ska (dh_role rs')) (peer_key lib e (dh_role re')) d')"
    using c1(2,4) f by (simp add: defs read_e [OF _ lib(2), where y = y] s read_s [OF _ lib(2)])
  note mac = fresh_mac_length [OF s3(2)]
  show thesis
  proof (rule that [of "?E @ c1 @ c2" y4 z4])
    show "length (?E @ c1 @ c2) = 96" using c1 c2 base_facts [OF lib(2)] by simp
  qed (use w r c1 c2 mac base_facts [OF lib(2), of e] in
      \<open>simp_all add: noise_handshakestate_write_message_def noise_handshakestate_read_message_def
        noise_handshakestate_write_def noise_handshakestate_read_def ik_state_def Let_def\<close>)
qed

lemma second_message:
  fixes lib :: sodium and d' :: nat
  assumes lib: "aead_lib lib" "dh_lib lib" and s: "same_sym z y"
  defines "f \<equiv> clamp (rand_bytes lib d')"
  obtains m y' z' where
    "noise_handshakestate_write_message lib 512 None (ik_state NOISE_ROLE_RESPONDER p' NOISE_ACTION_WRITE_MESSAGE IK_SECOND z
        (keypair lib skb rl') le' (peer_key lib ska rs') (peer_key lib e re') d')
      = (NOISE_ERROR_NONE, m, ik_state NOISE_ROLE_RESPONDER p' NOISE_ACTION_SPLIT [TOKEN_END] z'
          (keypair lib skb rl') (keypair lib f (dh_role le')) (peer_key lib ska rs') (peer_key lib e re') (d' + 1))"
    "noise_handshakestate_read_message lib m None (ik_state NOISE_ROLE_INITIATOR p NOISE_ACTION_READ_MESSAGE IK_SECOND y
        (keypair lib ska rl) (keypair lib e le) rs re d)
      = (NOISE_ERROR_NONE, [], ik_state NOISE_ROLE_INITIATOR p NOISE_ACTION_SPLIT [TOKEN_END] y'
          (keypair lib ska rl) (keypair lib e le) rs (peer_key lib f (dh_role re)) d)"
    "same_sym z' y'" "length m = 48"
proof -
  let ?F = "scalarmult_base lib f"
  let ?mh = "\<lambda>d y. snd (noise_symmetricstate_mix_hash d y)"
  let ?mk = "\<lambda>d y. snd (noise_symmetricstate_mix_key d y)"
  define z1 y1 where zy1: "z1 = ?mk (secret lib f ska) (?mk (secret lib f e) (?mh ?F z))"
    "y1 = ?mk (secret lib ska f) (?mk (secret lib e f) (?mh ?F y))"
  have s1: "same_sym z1 y1" "fresh_key z1"
    unfolding zy1 secret_commute [OF lib(2), of ska f] secret_commute [OF lib(2), of e f]
    using same_key [OF same_key(1) [OF same_hash [OF s]]] by auto
  obtain c z2 y2 where c: "noise_symmetricstate_encrypt_and_hash lib [] 480 z1 = (NOISE_ERROR_NONE, c, z2)"
    "noise_symmetricstate_decrypt_and_hash lib c 16 y1 = (NOISE_ERROR_NONE, [], y2)"
    "same_sym z2 y2" "length c = 16"
    using same_crypt [OF lib(1) s1, of "[]" 480] by auto
  note defs = ik_state_def IK_SECOND_def ik_req_no_psk dh_tokens dh_token_pairs mix_dh_keys [OF lib(2)]
    base_facts [OF lib(2)] zy1 [symmetric] f_def [symmetric]
  have w: "write_tokens lib 512 IK_SECOND [] (ik_state NOISE_ROLE_RESPONDER p' NOISE_ACTION_WRITE_MESSAGE IK_SECOND z
        (keypair lib skb rl') le' (peer_key lib ska rs') (peer_key lib e re') d')
      = (NOISE_ERROR_NONE, ?F, ik_state NOISE_ROLE_RESPONDER p' NOISE_ACTION_SPLIT [TOKEN_END] z1
          (keypair lib skb rl') (keypair lib f (dh_role le')) (peer_key lib ska rs') (peer_key lib e re') (d' + 1))"
    by (simp add: defs write_e [OF _ lib(2) _ _ refl])
  have r: "read_tokens lib IK_SECOND (?F @ c) (ik_state NOISE_ROLE_INITIATOR p NOISE_ACTION_READ_MESSAGE IK_SECOND y
        (keypair lib ska rl) (keypair lib e le) rs re d)
      = (NOISE_ERROR_NONE, c, ik_state NOISE_ROLE_INITIATOR p NOISE_ACTION_SPLIT [TOKEN_END] y1
          (keypair lib ska rl) (keypair lib e le) rs (peer_key lib f (dh_role re)) d)"
    by (simp add: defs read_e [OF _ lib(2), where y = z] s)
  note mac = fresh_mac_length [OF s1(2)]
  show thesis
  proof (rule that [of "?F @ c" z2 y2])
    show "length (?F @ c) = 48" using c base_facts [OF lib(2)] by simp
  qed (use w r c mac base_facts [OF lib(2), of f] in
      \<open>simp_all add: noise_handshakestate_write_message_def noise_handshakestate_read_message_def
        noise_handshakestate_write_def noise_handshakestate_read_def ik_state_def Let_def\<close>)
qed

section \<open>From the keys to the ciphers\<close>

definition IK_START :: "bytes \<Rightarrow> bytes \<Rightarrow> blake2s_state \<Rightarrow> symmetric" where
  "IK_START p pkb c = snd (noise_symmetricstate_mix_hash pkb (snd (noise_symmetricstate_mix_hash p (IK_SYMMETRIC c))))"

lemma start_initiator:
  "noise_handshakestate_start (ik_state NOISE_ROLE_INITIATOR p NOISE_ACTION_NONE IK_FIRST (IK_SYMMETRIC c)
      (keypair lib ska rl) le (peer_key lib skb rr) re d)
    = (NOISE_ERROR_NONE, ik_state NOISE_ROLE_INITIATOR p NOISE_ACTION_WRITE_MESSAGE IK_FIRST (IK_START p (scalarmult_base lib skb) c)
      (keypair lib ska rl) le (peer_key lib skb rr) re d)"
  by (simp add: noise_handshakestate_start_def ik_state_def ik_requirements_def req_defs hs_mix_hash_def
      noise_handshakestate_mix_public_key_def IK_START_def Let_def)

lemma start_responder:
  "noise_handshakestate_start (ik_state NOISE_ROLE_RESPONDER p NOISE_ACTION_NONE IK_FIRST (IK_SYMMETRIC c)
      (keypair lib skb rl) le rs re d)
    = (NOISE_ERROR_NONE, ik_state NOISE_ROLE_RESPONDER p NOISE_ACTION_READ_MESSAGE IK_FIRST (IK_START p (scalarmult_base lib skb) c)
      (keypair lib skb rl) le rs re d)"
  by (simp add: noise_handshakestate_start_def ik_state_def ik_requirements_def req_defs hs_mix_hash_def
      noise_handshakestate_mix_public_key_def IK_START_def Let_def)

lemma split_state:
  assumes "sym_ok y"
  obtains y' where
    "noise_handshakestate_split (ik_state r p NOISE_ACTION_SPLIT toks y ls le rs re d)
      = (NOISE_ERROR_NONE, Some (case r of
            NOISE_ROLE_INITIATOR \<Rightarrow> (keyed (fst (hkdf (sy_ck y) [])), keyed (snd (hkdf (sy_ck y) [])))
          | NOISE_ROLE_RESPONDER \<Rightarrow> (keyed (snd (hkdf (sy_ck y) [])), keyed (fst (hkdf (sy_ck y) [])))),
         ik_state r p NOISE_ACTION_COMPLETE toks y' ls le rs re d)"
proof -
  obtain y' where "noise_symmetricstate_split y = (NOISE_ERROR_NONE,
      Some (keyed (fst (hkdf (sy_ck y) [])), keyed (snd (hkdf (sy_ck y) []))), y')"
    using split_ok [OF assms] by blast
  moreover have "sy_cipher y \<noteq> None" using assms by (simp add: sym_ok_def)
  ultimately show thesis
    by (intro that [of y']) (cases r; simp add: noise_handshakestate_split_def ik_state_def)
qed

end
