(* ===== verification/Noise_Session.thy ===== *)
theory Noise_Session
  imports Noise_Agreement
begin

text \<open>
  \<^verbatim>\<open>noise_session.cpp\<close>: the client's handshake state and the two ciphers it splits
  into. Pointers that may be null are options. Random draws are numbered over the life of the device:
  a new handshake state takes up the count. The trial allocations of the constructor, whose results are
  only logged, are left out, as are the key dumps.
\<close>

record noise_session =
  handshake_state :: "handshake option"
  send_cipher :: "cipherstate option"
  recv_cipher :: "cipherstate option"

definition noise_session_new :: noise_session where
  "noise_session_new = \<lparr>handshake_state = None, send_cipher = None, recv_cipher = None\<rparr>"

text \<open>The hash object of a new handshake state is zeroed.\<close>

definition zero_blake2s :: blake2s_state where
  "zero_blake2s = \<lparr>b_h = replicate 8 0, b_m = replicate 64 0, b_length = 0, b_posn = 0\<rparr>"

lemma zero_blake2s_ok [simp]: "hash_ok zero_blake2s"
  by (simp add: hash_ok_def zero_blake2s_def)

definition NOISE_PROLOGUE :: string where "NOISE_PROLOGUE = ''Tailscale Control Protocol v1''"

definition reset_ciphers :: "noise_session \<Rightarrow> noise_session" where
  "reset_ciphers s = s\<lparr>send_cipher := None, recv_cipher := None\<rparr>"

definition reset_noise :: "noise_session \<Rightarrow> noise_session" where
  "reset_noise s = (reset_ciphers s)\<lparr>handshake_state := None\<rparr>"

definition initialize_ik :: "nat \<Rightarrow> noise_session \<Rightarrow> bool \<times> noise_session" where
  "initialize_ik n s =
     (let s = reset_noise s
      in case noise_handshakestate_new_by_name IK_NAME NOISE_ROLE_INITIATOR zero_blake2s of
           Inl _ \<Rightarrow> (False, s)
         | Inr hs \<Rightarrow>
             case noise_handshakestate_set_prologue (bytes_of NOISE_PROLOGUE) (hs\<lparr>draws := n\<rparr>) of (err, hs) \<Rightarrow>
               if err \<noteq> NOISE_ERROR_NONE then (False, reset_noise s) else (True, s\<lparr>handshake_state := Some hs\<rparr>))"

definition set_local_static :: "sodium \<Rightarrow> bytes \<Rightarrow> bytes \<Rightarrow> noise_session \<Rightarrow> bool \<times> noise_session" where
  "set_local_static lib priv pub s =
     (case handshake_state s of None \<Rightarrow> (False, s)
      | Some hs \<Rightarrow>
          case local_static hs of None \<Rightarrow> (False, s)
          | Some dh \<Rightarrow>
              case noise_dhstate_set_keypair lib priv pub dh of (err, dh) \<Rightarrow>
                (err = NOISE_ERROR_NONE, s\<lparr>handshake_state := Some (hs\<lparr>local_static := Some dh\<rparr>)\<rparr>))"

definition set_remote_static :: "bytes \<Rightarrow> noise_session \<Rightarrow> bool \<times> noise_session" where
  "set_remote_static pub s =
     (case handshake_state s of None \<Rightarrow> (False, s)
      | Some hs \<Rightarrow>
          case remote_static hs of None \<Rightarrow> (False, s)
          | Some dh \<Rightarrow>
              case noise_dhstate_set_public_key pub dh of (err, dh) \<Rightarrow>
                (err = NOISE_ERROR_NONE, s\<lparr>handshake_state := Some (hs\<lparr>remote_static := Some dh\<rparr>)\<rparr>))"

definition set_psk :: "bytes \<Rightarrow> noise_session \<Rightarrow> bool \<times> noise_session" where
  "set_psk psk s =
     (case handshake_state s of None \<Rightarrow> (False, s)
      | Some hs \<Rightarrow>
          case noise_handshakestate_set_pre_shared_key psk hs of (err, hs) \<Rightarrow>
            (err = NOISE_ERROR_NONE, s\<lparr>handshake_state := Some hs\<rparr>))"

definition split_transport :: "noise_session \<Rightarrow> bool \<times> noise_session" where
  "split_transport s =
     (case handshake_state s of None \<Rightarrow> (False, s)
      | Some hs \<Rightarrow>
          case noise_handshakestate_split hs of (err, cs, hs) \<Rightarrow>
            let s = (reset_ciphers s)\<lparr>handshake_state := Some hs\<rparr>
            in if err \<noteq> NOISE_ERROR_NONE then (False, s)
               else (True, s\<lparr>send_cipher := map_option fst cs, recv_cipher := map_option snd cs\<rparr>))"

section \<open>The other side\<close>

text \<open>
  A server that runs the same library in the responder's role: it answers the first message, learns
  the client's key and has its ciphers, the sending one first.
\<close>

definition serve_handshake ::
    "sodium \<Rightarrow> bytes \<Rightarrow> nat \<Rightarrow> bytes \<Rightarrow> noise_error + (bytes \<times> bytes \<times> cipherstate \<times> cipherstate)" where
  "serve_handshake lib skb n m =
     (case noise_handshakestate_new_by_name IK_NAME NOISE_ROLE_RESPONDER zero_blake2s of Inl e \<Rightarrow> Inl e
      | Inr hs \<Rightarrow>
          case local_static hs of None \<Rightarrow> Inl NOISE_ERROR_LOCAL_KEY_REQUIRED
          | Some dh \<Rightarrow>
              let hs = hs\<lparr>draws := n, prologue := bytes_of NOISE_PROLOGUE, local_static := Some (snd (noise_dhstate_set_keypair_private lib skb dh))\<rparr>;
                  (err, hs) = noise_handshakestate_start hs
              in if err \<noteq> NOISE_ERROR_NONE then Inl err
                 else case noise_handshakestate_read_message lib m None hs of (err, _, hs) \<Rightarrow>
                   if err \<noteq> NOISE_ERROR_NONE then Inl err
                   else case noise_handshakestate_write_message lib 512 None hs of (err, answer, hs) \<Rightarrow>
                     if err \<noteq> NOISE_ERROR_NONE then Inl err
                     else case (noise_handshakestate_split hs, remote_static hs) of
                            ((_, Some (send, recv), _), Some dh) \<Rightarrow> Inr (answer, public_key dh, send, recv)
                          | _ \<Rightarrow> Inl NOISE_ERROR_INVALID_STATE)"

section \<open>A client ready to start\<close>

definition client_start :: "sodium \<Rightarrow> bytes \<Rightarrow> bytes \<Rightarrow> nat \<Rightarrow> handshake" where
  "client_start lib ska skb n = ik_state NOISE_ROLE_INITIATOR (bytes_of NOISE_PROLOGUE) NOISE_ACTION_NONE IK_FIRST (IK_SYMMETRIC zero_blake2s)
     (keypair lib ska (Some NOISE_ROLE_INITIATOR)) (no_key NOISE_ROLE_INITIATOR) (peer_key lib skb (Some NOISE_ROLE_RESPONDER)) (no_key NOISE_ROLE_RESPONDER) n"

lemma dh_role_no_key [simp]: "dh_role (no_key r) = Some r"
  by (simp add: no_key_def noise_curve25519_new_def)

lemma set_keypair_base: "dh_lib lib \<Longrightarrow> length ska = 32 \<Longrightarrow>
  noise_dhstate_set_keypair lib ska (scalarmult_base lib ska) d = (NOISE_ERROR_NONE, keypair lib ska (dh_role d))"
  by (cases d) (simp add: noise_dhstate_set_keypair_def keypair_def base_facts DH_LEN_def noise_is_equal_iff)

lemma set_keypair_private: "length skb = 32 \<Longrightarrow> noise_dhstate_set_keypair_private lib skb d = (NOISE_ERROR_NONE, keypair lib skb (dh_role d))"
  by (cases d) (simp add: noise_dhstate_set_keypair_private_def keypair_def DH_LEN_def)

text \<open>The calls of the component: initialise, the server's key, the machine's own.\<close>

lemma client_start_session:
  fixes s :: noise_session and n :: nat and skb :: bytes
  assumes "dh_lib lib" "length ska = 32"
  defines "s1 \<equiv> snd (initialize_ik n s)"
  defines "s2 \<equiv> snd (set_remote_static (scalarmult_base lib skb) s1)"
  shows "fst (initialize_ik n s)" "fst (set_remote_static (scalarmult_base lib skb) s1)"
    "set_local_static lib ska (scalarmult_base lib ska) s2
      = (True, \<lparr>handshake_state = Some (client_start lib ska skb n), send_cipher = None, recv_cipher = None\<rparr>)"
proof -
  have i: "initialize_ik n s = (True, \<lparr>handshake_state = Some (ik_state NOISE_ROLE_INITIATOR (bytes_of NOISE_PROLOGUE) NOISE_ACTION_NONE IK_FIRST
      (IK_SYMMETRIC zero_blake2s) (no_key NOISE_ROLE_INITIATOR) (no_key NOISE_ROLE_INITIATOR) (no_key NOISE_ROLE_RESPONDER) (no_key NOISE_ROLE_RESPONDER) n),
      send_cipher = None, recv_cipher = None\<rparr>)"
    by (simp add: initialize_ik_def ik_new noise_handshakestate_set_prologue_def ik_state_def reset_noise_def reset_ciphers_def other_role_def Let_def)
  show "fst (initialize_ik n s)" "fst (set_remote_static (scalarmult_base lib skb) s1)"
    by (simp_all add: s1_def i set_remote_static_def ik_state_def set_public [OF assms(1)])
  show "set_local_static lib ska (scalarmult_base lib ska) s2
      = (True, \<lparr>handshake_state = Some (client_start lib ska skb n), send_cipher = None, recv_cipher = None\<rparr>)"
    by (simp add: s2_def s1_def i set_remote_static_def set_local_static_def ik_state_def set_public [OF assms(1)]
        set_keypair_base [OF assms(1,2)] client_start_def)
qed

lemma ik_state_fields:
  "action (ik_state r p act toks y ls le rs re d) = act" "local_static (ik_state r p act toks y ls le rs re d) = Some ls"
  "remote_static (ik_state r p act toks y ls le rs re d) = Some rs"
  by (simp_all add: ik_state_def)

section \<open>Both sides together\<close>

text \<open>
  The whole handshake between a client that is ready to start and the server whose key it was given:
  both messages are accepted, the server learns the client's key, and what one side sends with the other
  receives with.
\<close>

lemma handshake_agrees:
  assumes lib: "aead_lib lib" "dh_lib lib" and len: "length skb = 32"
  obtains st0 m st1 answer st2 k1 k2 st3 where
    "noise_handshakestate_start (client_start lib ska skb n) = (NOISE_ERROR_NONE, st0)" "action st0 = NOISE_ACTION_WRITE_MESSAGE"
    "noise_handshakestate_write_message lib 512 None st0 = (NOISE_ERROR_NONE, m, st1)" "action st1 = NOISE_ACTION_READ_MESSAGE" "length m = 96"
    "serve_handshake lib skb n' m = Inr (answer, scalarmult_base lib ska, keyed k2, keyed k1)" "length answer = 48"
    "noise_handshakestate_read_message lib answer None st1 = (NOISE_ERROR_NONE, [], st2)" "action st2 = NOISE_ACTION_SPLIT"
    "noise_handshakestate_split st2 = (NOISE_ERROR_NONE, Some (keyed k1, keyed k2), st3)" "length k1 = 32" "length k2 = 32"
proof -
  let ?p = "bytes_of NOISE_PROLOGUE" and ?I = NOISE_ROLE_INITIATOR and ?R = NOISE_ROLE_RESPONDER
  let ?y = "IK_START ?p (scalarmult_base lib skb) zero_blake2s"
  have s: "same_sym ?y ?y"
    unfolding IK_START_def by (intro same_hash ik_symmetric_same) simp_all
  obtain m y1 z1 where m: "noise_handshakestate_write_message lib 512 None (ik_state ?I ?p NOISE_ACTION_WRITE_MESSAGE IK_FIRST ?y
        (keypair lib ska (Some ?I)) (no_key ?I) (peer_key lib skb (Some ?R)) (no_key ?R) n)
      = (NOISE_ERROR_NONE, m, ik_state ?I ?p NOISE_ACTION_READ_MESSAGE IK_SECOND y1
          (keypair lib ska (Some ?I)) (keypair lib (clamp (rand_bytes lib n)) (Some ?I)) (peer_key lib skb (Some ?R)) (no_key ?R) (n + 1))"
    "noise_handshakestate_read_message lib m None (ik_state ?R ?p NOISE_ACTION_READ_MESSAGE IK_FIRST ?y
        (keypair lib skb (Some ?R)) (no_key ?R) (no_key ?I) (no_key ?I) n')
      = (NOISE_ERROR_NONE, [], ik_state ?R ?p NOISE_ACTION_WRITE_MESSAGE IK_SECOND z1
          (keypair lib skb (Some ?R)) (no_key ?R) (peer_key lib ska (Some ?I)) (peer_key lib (clamp (rand_bytes lib n)) (Some ?I)) n')"
    "same_sym y1 z1" "length m = 96"
    by (rule first_message [OF lib s, where d = n and d' = n' and p = ?p and p' = ?p and ska = ska and skb = skb
        and rl = "Some ?I" and le = "no_key ?I" and rr = "Some ?R" and re = "no_key ?R"
        and rl' = "Some ?R" and le' = "no_key ?R" and rs' = "no_key ?I" and re' = "no_key ?I", unfolded dh_role_no_key])
  have s1: "same_sym z1 y1" using m(3) by (auto simp: same_sym_def)
  obtain a z2 y2 where a: "noise_handshakestate_write_message lib 512 None (ik_state ?R ?p NOISE_ACTION_WRITE_MESSAGE IK_SECOND z1
          (keypair lib skb (Some ?R)) (no_key ?R) (peer_key lib ska (Some ?I)) (peer_key lib (clamp (rand_bytes lib n)) (Some ?I)) n')
      = (NOISE_ERROR_NONE, a, ik_state ?R ?p NOISE_ACTION_SPLIT [TOKEN_END] z2 (keypair lib skb (Some ?R))
          (keypair lib (clamp (rand_bytes lib n')) (Some ?R)) (peer_key lib ska (Some ?I)) (peer_key lib (clamp (rand_bytes lib n)) (Some ?I)) (n' + 1))"
    "noise_handshakestate_read_message lib a None (ik_state ?I ?p NOISE_ACTION_READ_MESSAGE IK_SECOND y1
          (keypair lib ska (Some ?I)) (keypair lib (clamp (rand_bytes lib n)) (Some ?I)) (peer_key lib skb (Some ?R)) (no_key ?R) (n + 1))
      = (NOISE_ERROR_NONE, [], ik_state ?I ?p NOISE_ACTION_SPLIT [TOKEN_END] y2 (keypair lib ska (Some ?I))
          (keypair lib (clamp (rand_bytes lib n)) (Some ?I)) (peer_key lib skb (Some ?R)) (peer_key lib (clamp (rand_bytes lib n')) (Some ?R)) (n + 1))"
    "same_sym z2 y2" "length a = 48"
    by (rule second_message [OF lib s1, where d' = n' and d = "n + 1" and p = ?p and p' = ?p and ska = ska and skb = skb
        and rl' = "Some ?R" and le' = "no_key ?R" and rs' = "Some ?I" and re' = "Some ?I" and e = "clamp (rand_bytes lib n)"
        and rl = "Some ?I" and le = "Some ?I" and rs = "peer_key lib skb (Some ?R)" and re = "no_key ?R", unfolded dh_role_no_key])
  have ok: "sym_ok y2" "sym_ok z2" "sy_ck z2 = sy_ck y2" using a(3) by (auto simp: same_sym_def sym_view_def)
  let ?k = "hkdf (sy_ck y2) []"
  obtain y3 where c: "noise_handshakestate_split (ik_state ?I ?p NOISE_ACTION_SPLIT [TOKEN_END] y2 (keypair lib ska (Some ?I))
          (keypair lib (clamp (rand_bytes lib n)) (Some ?I)) (peer_key lib skb (Some ?R)) (peer_key lib (clamp (rand_bytes lib n')) (Some ?R)) (n + 1))
      = (NOISE_ERROR_NONE, Some (keyed (fst ?k), keyed (snd ?k)), ik_state ?I ?p NOISE_ACTION_COMPLETE [TOKEN_END] y3 (keypair lib ska (Some ?I))
          (keypair lib (clamp (rand_bytes lib n)) (Some ?I)) (peer_key lib skb (Some ?R)) (peer_key lib (clamp (rand_bytes lib n')) (Some ?R)) (n + 1))"
    by (rule split_state [OF ok(1), where r = ?I, unfolded noise_role.case])
  obtain z3 where r: "noise_handshakestate_split (ik_state ?R ?p NOISE_ACTION_SPLIT [TOKEN_END] z2 (keypair lib skb (Some ?R))
          (keypair lib (clamp (rand_bytes lib n')) (Some ?R)) (peer_key lib ska (Some ?I)) (peer_key lib (clamp (rand_bytes lib n)) (Some ?I)) (n' + 1))
      = (NOISE_ERROR_NONE, Some (keyed (snd ?k), keyed (fst ?k)), ik_state ?R ?p NOISE_ACTION_COMPLETE [TOKEN_END] z3 (keypair lib skb (Some ?R))
          (keypair lib (clamp (rand_bytes lib n')) (Some ?R)) (peer_key lib ska (Some ?I)) (peer_key lib (clamp (rand_bytes lib n)) (Some ?I)) (n' + 1))"
    by (rule split_state [OF ok(2), where r = ?R, unfolded noise_role.case ok(3)])
  have new: "hs\<lparr>draws := n', prologue := ?p, local_static := Some ls\<rparr>
      = ik_state ?R ?p NOISE_ACTION_NONE IK_FIRST (IK_SYMMETRIC zero_blake2s) ls (no_key ?R) (no_key ?I) (no_key ?I) n'"
    if "hs = ik_state ?R [] NOISE_ACTION_NONE IK_FIRST (IK_SYMMETRIC zero_blake2s) (no_key ?R) (no_key ?R) (no_key ?I) (no_key ?I) 0" for hs ls
    using that by (simp add: ik_state_def)
  have v: "serve_handshake lib skb n' m = Inr (a, scalarmult_base lib ska, keyed (snd ?k), keyed (fst ?k))"
    using m(2) a(1) r
    by (simp add: serve_handshake_def ik_new other_role_def Let_def set_keypair_private [OF len] new [OF refl] start_responder
        ik_state_fields)
  show thesis
    by (rule that [OF _ _ m(1) _ m(4) v a(4,2) _ c]) (simp_all add: client_start_def start_initiator ik_state_fields HASH_LEN_def)
qed

section \<open>An example of a library\<close>

text \<open>A library with the documented laws: the public key is a function of the private one, secrets are sums.\<close>

definition toy_base :: "bytes \<Rightarrow> bytes" where
  "toy_base a = 1 # take 31 (a @ replicate 31 0)"

definition toy_sodium :: sodium where
  "toy_sodium = \<lparr>stream_xor = (\<lambda>n ic k d. map (\<lambda>b. b XOR k ! 0) d), poly1305 = (\<lambda>k m. take 16 (m @ replicate 16 0)),
     scalarmult = (\<lambda>a p. Some (map2 (XOR) (toy_base a) p)), scalarmult_base = toy_base,
     rand_bytes = (\<lambda>i. replicate 32 (word_of_nat i)), uninit = []\<rparr>"

lemma toy_aead: "aead_lib toy_sodium"
  by (auto simp: aead_lib_def toy_sodium_def comp_def xor.assoc min_def)

lemma toy_dh: "dh_lib toy_sodium"
proof -
  have "map2 (XOR) a b = map2 (XOR) b a" if "length a = length b" for a b :: bytes
    using that by (intro nth_equalityI) (simp_all add: xor.commute)
  moreover have "length (toy_base a) = 32" for a by (simp add: toy_base_def min_def)
  moreover have "\<not> list_all (\<lambda>b. b = 0) (toy_base a)" for a by (simp add: toy_base_def)
  ultimately show ?thesis by (simp add: dh_lib_def toy_sodium_def)
qed

section \<open>Nonces\<close>

text \<open>Messages sealed one after the other, each with the capacity of its buffer: the nonce and the ciphertext of those that were.\<close>

fun seals :: "sodium \<Rightarrow> (bytes \<times> nat) list \<Rightarrow> cipherstate \<Rightarrow> (u64 \<times> bytes) list" where
  "seals lib [] s = []"
| "seals lib ((p, max_size) # ms) s =
     (case noise_cipherstate_encrypt lib p max_size s of (err, out, s') \<Rightarrow>
        (if err = NOISE_ERROR_NONE then [(nonce_ctr s, out)] else []) @ seals lib ms s')"

lemma encrypt_cases:
  assumes "has_key s"
  obtains "noise_cipherstate_encrypt lib p n s = (NOISE_ERROR_NONE, noise_chachapoly_encrypt lib [] p s, s\<lparr>nonce_ctr := nonce_ctr s + 1\<rparr>)" "nonce_ctr s \<noteq> NONCE_END"
    | err where "noise_cipherstate_encrypt lib p n s = (err, p, s)" "err \<noteq> NOISE_ERROR_NONE"
proof (cases "length p \<le> n \<and> length p \<le> NOISE_MAX_PAYLOAD_LEN - MAC_LEN \<and> MAC_LEN \<le> n - length p \<and> nonce_ctr s \<noteq> NONCE_END")
  case True
  then show ?thesis using assms
    by (intro that(1)) (simp_all add: noise_cipherstate_encrypt_def noise_cipherstate_encrypt_with_ad_def)
next
  case False
  then have "snd (noise_cipherstate_encrypt lib p n s) = (p, s)" "fst (noise_cipherstate_encrypt lib p n s) \<noteq> NOISE_ERROR_NONE"
    using assms by (simp_all add: noise_cipherstate_encrypt_def noise_cipherstate_encrypt_with_ad_def)
  then show ?thesis by (intro that(2) [of "fst (noise_cipherstate_encrypt lib p n s)"]) (simp_all add: prod_eq_iff)
qed

lemma nonce_less: "(n :: u64) \<noteq> NONCE_END \<Longrightarrow> n < n + 1"
proof -
  assume "n \<noteq> NONCE_END"
  moreover have "NONCE_END + 1 = 0" by (simp add: NONCE_END_def)
  ultimately have "n + 1 \<noteq> 0" by (metis add_right_cancel)
  then show ?thesis using unatSuc [of n] by (simp add: word_less_nat_alt add.commute)
qed

lemma seals_sorted:
  assumes "has_key s"
  shows "sorted_wrt (<) (map fst (seals lib ms s)) \<and> list_all (\<lambda>(n, _). nonce_ctr s \<le> n \<and> n \<noteq> NONCE_END) (seals lib ms s)"
  using assms
proof (induction lib ms s rule: seals.induct)
  case (2 lib p n ms s)
  show ?case
  proof (cases rule: encrypt_cases [OF "2.prems", of lib p n])
    case 1
    let ?s = "s\<lparr>nonce_ctr := nonce_ctr s + 1\<rparr>"
    have "sorted_wrt (<) (map fst (seals lib ms ?s)) \<and> list_all (\<lambda>(n, _). nonce_ctr ?s \<le> n \<and> n \<noteq> NONCE_END) (seals lib ms ?s)"
      using "2.IH" [OF 1(1) [symmetric] refl] "2.prems" by simp
    then show ?thesis using 1 nonce_less [OF 1(2)] by (auto simp: list_all_iff)
  next
    case (2 err)
    then show ?thesis using "2.IH" "2.prems" by simp
  qed
qed simp

text \<open>
  C21. No nonce seals two messages under one key, whatever is sent and whichever calls fail, and the last
  nonce is never used.
\<close>

theorem nonces_never_repeat:
  assumes "has_key s"
  shows "distinct (map fst (seals lib ms s)) \<and> list_all (\<lambda>(n, _). n \<noteq> NONCE_END) (seals lib ms s)"
  using seals_sorted [OF assms, of lib ms] by (auto simp: strict_sorted_iff list_all_iff)

theorem nonces_never_repeat_witness:
  "distinct (map fst (seals toy_sodium [([1], 17), ([2], 3), ([], 16)] (keyed (replicate 32 8))))
   \<and> list_all (\<lambda>(n, _). n \<noteq> NONCE_END) (seals toy_sodium [([1], 17), ([2], 3), ([], 16)] (keyed (replicate 32 8)))"
  by (rule nonces_never_repeat) (simp add: keyed_def)

end
