(* ===== verification/Noise_Types.thy ===== *)
theory Noise_Types
  imports Noise_Session Ts_Interfaces
begin

text \<open>
  The tokens of a pattern against the objects its flags allocate: a handshake state is well typed when
  every token that is still to be run finds its private key object. The fifteen patterns are well typed
  in both roles, every operation keeps it, and so the interpreter never reads through a null pointer.
\<close>

section \<open>Typing\<close>

definition token_typed :: "noise_role \<times> bool \<times> bool \<times> bool \<Rightarrow> u8 \<Rightarrow> bool" where
  "token_typed sh t = (case sh of (role, ls, le, lh) \<Rightarrow>
     (if t = TOKEN_EE then le
      else if t = TOKEN_ES then (if role = NOISE_ROLE_INITIATOR then le else ls)
      else if t = TOKEN_SE then (if role = NOISE_ROLE_INITIATOR then ls else le)
      else if t = TOKEN_SS then ls
      else if t = TOKEN_FF then lh
      else True))"

text \<open>The role and which private key objects there are.\<close>

definition shape :: "handshake \<Rightarrow> noise_role \<times> bool \<times> bool \<times> bool" where
  "shape st = (hs_role st, local_static st \<noteq> None, local_ephemeral st \<noteq> None, local_hybrid st \<noteq> None)"

definition well_typed :: "handshake \<Rightarrow> bool" where
  "well_typed st \<longleftrightarrow> list_all (token_typed (shape st)) (tokens st)"

text \<open>What an operation may do: the shape stays, tokens are only used up.\<close>

definition advances :: "handshake \<Rightarrow> handshake \<Rightarrow> bool" where
  "advances st st' \<longleftrightarrow> shape st' = shape st \<and> suffix (tokens st') (tokens st)"

lemma advances_typed: "advances st st' \<Longrightarrow> well_typed st \<Longrightarrow> well_typed st'"
  by (auto simp: advances_def well_typed_def suffix_def)

lemma advances_refl [simp]: "advances st st"
  by (simp add: advances_def)

lemma advances_trans: "advances a b \<Longrightarrow> advances b c \<Longrightarrow> advances a c"
  by (auto simp: advances_def)

lemma advances_same [simp]:
  "advances st (st\<lparr>symmetric := y\<rparr>)" "advances st (st\<lparr>action := a\<rparr>)" "advances st (st\<lparr>prologue := p\<rparr>)"
  "advances st (st\<lparr>pre_shared_key := p\<rparr>)" "advances st (st\<lparr>remote_static := d\<rparr>)" "advances st (st\<lparr>remote_ephemeral := d\<rparr>)"
  "advances st (st\<lparr>remote_hybrid := d\<rparr>)" "advances st (hs_mix_hash x st)" "advances st (hs_mix_key x st)"
  by (simp_all add: advances_def shape_def hs_mix_hash_def hs_mix_key_def)

section \<open>The errors below\<close>

lemma chachapoly_decrypt_err: "fst (noise_chachapoly_decrypt lib ad d m s) \<noteq> NULL_DEREFERENCE"
  by (simp add: noise_chachapoly_decrypt_def Let_def)

lemma crypt_errs:
  "fst (noise_cipherstate_encrypt_with_ad lib ad b n s) \<noteq> NULL_DEREFERENCE"
  "fst (noise_cipherstate_decrypt_with_ad lib ad b n s) \<noteq> NULL_DEREFERENCE"
  using chachapoly_decrypt_err
  by (auto simp: noise_cipherstate_encrypt_with_ad_def noise_cipherstate_decrypt_with_ad_def Let_def split: prod.split)
     (metis fst_conv)

lemma symmetric_errs:
  "fst (noise_symmetricstate_mix_hash d y) \<noteq> NULL_DEREFERENCE" "fst (noise_symmetricstate_mix_key d y) \<noteq> NULL_DEREFERENCE"
  "fst (noise_symmetricstate_mix_key_and_hash d y) \<noteq> NULL_DEREFERENCE"
  "fst (noise_symmetricstate_encrypt_and_hash lib b n y) \<noteq> NULL_DEREFERENCE"
  "fst (noise_symmetricstate_decrypt_and_hash lib b n y) \<noteq> NULL_DEREFERENCE"
  using crypt_errs
  by (auto simp: noise_symmetricstate_mix_hash_def noise_symmetricstate_mix_key_def noise_symmetricstate_mix_key_and_hash_def
      noise_symmetricstate_encrypt_and_hash_def noise_symmetricstate_decrypt_and_hash_def noise_hashstate_hash_two_def
      split: option.splits sum.splits prod.splits) (metis fst_conv)+

lemma dh_errs: "fst (noise_dhstate_calculate lib k p) \<noteq> NULL_DEREFERENCE" "fst (noise_dhstate_set_public_key b d) \<noteq> NULL_DEREFERENCE"
  by (auto simp: noise_dhstate_calculate_def noise_dhstate_set_public_key_def Let_def split: option.split)

section \<open>Tokens\<close>

lemma mix_dh_ok:
  assumes "noise_handshake_mix_dh lib priv pub st = (err, st')"
  shows "advances st st' \<and> tokens st' = tokens st \<and> (priv \<noteq> None \<longrightarrow> err \<noteq> NULL_DEREFERENCE)"
  using assms dh_errs(1) [of lib]
  by (auto simp: noise_handshake_mix_dh_def hs_mix_key_def advances_def shape_def split: option.splits prod.splits)
     (metis fst_conv)

lemma dh_token_ok:
  assumes "dh_token lib t st = (err, st')"
  shows "advances st st' \<and> tokens st' = tokens st \<and> (token_typed (shape st) t \<longrightarrow> err \<noteq> NULL_DEREFERENCE)"
proof -
  have psk: "noise_symmetricstate_mix_key_and_hash d y = (e, z) \<Longrightarrow> e \<noteq> NULL_DEREFERENCE" for d y e z
    using symmetric_errs(3) [of d y] by auto
  show ?thesis using assms
    by (auto simp: dh_token_def Let_def token_typed_def shape_def token_defs split: if_splits prod.splits
        dest!: mix_dh_ok psk)
qed

lemma symmetric_result:
  "noise_symmetricstate_encrypt_and_hash lib b n y = (e, out, z) \<Longrightarrow> e \<noteq> NULL_DEREFERENCE"
  "noise_symmetricstate_decrypt_and_hash lib b n y = (e, out, z) \<Longrightarrow> e \<noteq> NULL_DEREFERENCE"
  "noise_symmetricstate_mix_hash d y = (e, z) \<Longrightarrow> e \<noteq> NULL_DEREFERENCE"
  "noise_symmetricstate_mix_key d y = (e, z) \<Longrightarrow> e \<noteq> NULL_DEREFERENCE"
  "noise_dhstate_set_public_key b dh = (e, dh') \<Longrightarrow> e \<noteq> NULL_DEREFERENCE"
  using symmetric_errs dh_errs by (metis fst_conv)+

lemma write_key_ok: "write_key lib n key st = (err, out, st') \<Longrightarrow> advances st st' \<and> tokens st' = tokens st \<and> err \<noteq> NULL_DEREFERENCE"
  by (auto simp: write_key_def split: if_splits prod.splits dest: symmetric_result)

lemma advances_ephemeral:
  "local_ephemeral st = Some e \<Longrightarrow> advances st (st\<lparr>local_ephemeral := Some e', draws := d\<rparr>)"
  "local_hybrid st = Some e \<Longrightarrow> advances st (st\<lparr>local_hybrid := Some e', draws := d\<rparr>)"
  by (simp_all add: advances_def shape_def)

lemma write_token_ok:
  assumes "write_token lib n t st = (err, out, st')"
  shows "advances st st' \<and> tokens st' = tokens st \<and> (token_typed (shape st) t \<longrightarrow> err \<noteq> NULL_DEREFERENCE)"
proof -
  have same: "tokens (hs_mix_hash x s) = tokens s" "tokens (hs_mix_key x s) = tokens s" for x s
    by (simp_all add: hs_mix_hash_def hs_mix_key_def)
  consider "t = TOKEN_E" | "t = TOKEN_S" | "t = TOKEN_F" | "t \<notin> {TOKEN_E, TOKEN_S, TOKEN_F}" by blast
  then show ?thesis
  proof cases
    case 1
    then show ?thesis using assms
      by (auto simp: write_token_def Let_def same advances_def shape_def hs_mix_hash_def hs_mix_key_def split: option.splits if_splits)
  next
    case 2
    then show ?thesis using assms by (auto simp: write_token_def token_defs split: option.splits dest: write_key_ok)
  next
    case 3
    then show ?thesis using assms
      by (auto simp: write_token_def token_defs Let_def split: option.splits dest!: write_key_ok
          intro: advances_trans [OF advances_ephemeral(2)])
  next
    case 4
    then show ?thesis using assms by (auto simp: write_token_def split: prod.splits dest!: dh_token_ok)
  qed
qed

lemma read_key_ok: "read_key lib msg d st = (err, d', rest, st') \<Longrightarrow> advances st st' \<and> tokens st' = tokens st \<and> err \<noteq> NULL_DEREFERENCE"
  by (auto simp: read_key_def Let_def split: if_splits prod.splits dest: symmetric_result)

lemma read_token_ok:
  assumes "read_token lib t msg st = (err, rest, st')"
  shows "advances st st' \<and> tokens st' = tokens st \<and> (token_typed (shape st) t \<longrightarrow> err \<noteq> NULL_DEREFERENCE)"
proof -
  consider "t = TOKEN_E" | "t = TOKEN_S" | "t = TOKEN_F" | "t \<notin> {TOKEN_E, TOKEN_S, TOKEN_F}" by blast
  then show ?thesis
  proof cases
    case 1
    then show ?thesis using assms
      by (auto simp: read_token_def Let_def advances_def shape_def split: option.splits if_splits prod.splits dest: symmetric_result)
  next
    case 2
    then show ?thesis using assms
      by (auto simp: read_token_def token_defs split: option.splits prod.splits dest!: read_key_ok
          intro: advances_trans [OF _ advances_same(5)])
  next
    case 3
    then show ?thesis using assms
      by (auto simp: read_token_def token_defs Let_def split: option.splits prod.splits if_splits dest!: read_key_ok
          intro: advances_trans [OF _ advances_same(7)])
  next
    case 4
    then show ?thesis using assms by (auto simp: read_token_def split: prod.splits dest!: dh_token_ok)
  qed
qed

section \<open>Messages\<close>

lemma advances_token: "advances st st' \<Longrightarrow> tokens st' = tokens st \<Longrightarrow> tokens st = t # ts \<Longrightarrow> advances st (st'\<lparr>tokens := ts\<rparr>)"
  by (simp add: advances_def shape_def suffix_ConsI)

lemma advances_tokens: "suffix ts (tokens st) \<Longrightarrow> advances st (st\<lparr>tokens := ts, action := a\<rparr>)"
  by (simp add: advances_def shape_def)

lemma write_tokens_ok:
  assumes "tokens st = ts" "well_typed st" "write_tokens lib n ts msg st = (err, out, st')"
  shows "advances st st' \<and> err \<noteq> NULL_DEREFERENCE"
  using assms
proof (induction ts arbitrary: msg st)
  case Nil
  then show ?case by auto
next
  case (Cons t ts)
  show ?case
  proof (cases "t = TOKEN_END \<or> t = TOKEN_FLIP_DIR")
    case True
    then show ?thesis using Cons.prems by (auto intro!: advances_tokens simp: suffix_ConsI split: if_splits)
  next
    case False
    obtain e o1 st1 where w: "write_token lib (n - length msg) t st = (e, o1, st1)" by (metis prod_cases3)
    have typed: "token_typed (shape st) t" using Cons.prems(1,2) by (simp add: well_typed_def)
    note ok = write_token_ok [OF w]
    show ?thesis
    proof (cases "e = NOISE_ERROR_NONE")
      case True
      have a: "advances st (st1\<lparr>tokens := ts\<rparr>)" using ok Cons.prems(1) by (intro advances_token) auto
      have "write_tokens lib n ts (msg @ o1) (st1\<lparr>tokens := ts\<rparr>) = (err, out, st')"
        using Cons.prems(3) False w True by simp
      then have "advances (st1\<lparr>tokens := ts\<rparr>) st' \<and> err \<noteq> NULL_DEREFERENCE"
        using advances_typed [OF a Cons.prems(2)] by (intro Cons.IH) simp_all
      then show ?thesis using advances_trans [OF a] by blast
    next
      case False
      then show ?thesis using Cons.prems(3) \<open>\<not> (t = TOKEN_END \<or> t = TOKEN_FLIP_DIR)\<close> w ok typed by auto
    qed
  qed
qed

lemma read_tokens_ok:
  assumes "tokens st = ts" "well_typed st" "read_tokens lib ts msg st = (err, out, st')"
  shows "advances st st' \<and> err \<noteq> NULL_DEREFERENCE"
  using assms
proof (induction ts arbitrary: msg st)
  case Nil
  then show ?case by auto
next
  case (Cons t ts)
  show ?case
  proof (cases "t = TOKEN_END \<or> t = TOKEN_FLIP_DIR")
    case True
    then show ?thesis using Cons.prems by (auto intro!: advances_tokens simp: suffix_ConsI split: if_splits)
  next
    case False
    obtain e o1 st1 where w: "read_token lib t msg st = (e, o1, st1)" by (metis prod_cases3)
    have typed: "token_typed (shape st) t" using Cons.prems(1,2) by (simp add: well_typed_def)
    note ok = read_token_ok [OF w]
    show ?thesis
    proof (cases "e = NOISE_ERROR_NONE")
      case True
      have a: "advances st (st1\<lparr>tokens := ts\<rparr>)" using ok Cons.prems(1) by (intro advances_token) auto
      have "read_tokens lib ts o1 (st1\<lparr>tokens := ts\<rparr>) = (err, out, st')"
        using Cons.prems(3) False w True by simp
      then have "advances (st1\<lparr>tokens := ts\<rparr>) st' \<and> err \<noteq> NULL_DEREFERENCE"
        using advances_typed [OF a Cons.prems(2)] by (intro Cons.IH) simp_all
      then show ?thesis using advances_trans [OF a] by blast
    next
      case False
      then show ?thesis using Cons.prems(3) \<open>\<not> (t = TOKEN_END \<or> t = TOKEN_FLIP_DIR)\<close> w ok typed by auto
    qed
  qed
qed

lemma advances_into [simp]:
  "advances st (st'\<lparr>symmetric := y\<rparr>) = advances st st'" "advances st (st'\<lparr>action := a\<rparr>) = advances st st'"
  "advances st (st'\<lparr>symmetric := y, action := a\<rparr>) = advances st st'"
  by (simp_all add: advances_def shape_def)

lemma write_message_ok:
  assumes "well_typed st" "noise_handshakestate_write_message lib n payload st = (err, out, st')"
  shows "advances st st' \<and> err \<noteq> NULL_DEREFERENCE"
proof (cases "action st = NOISE_ACTION_WRITE_MESSAGE")
  case True
  obtain e m st1 where w: "write_tokens lib n (tokens st) [] st = (e, m, st1)" by (metis prod_cases3)
  note ok = write_tokens_ok [OF refl assms(1) w]
  show ?thesis using assms(2) True ok
    by (auto simp: noise_handshakestate_write_message_def noise_handshakestate_write_def w Let_def
        split: if_splits prod.splits dest: symmetric_result intro: advances_trans)
next
  case False
  then show ?thesis using assms(2) by (auto simp: noise_handshakestate_write_message_def)
qed

lemma read_message_ok:
  assumes "well_typed st" "noise_handshakestate_read_message lib msg n st = (err, out, st')"
  shows "advances st st' \<and> err \<noteq> NULL_DEREFERENCE"
proof (cases "action st = NOISE_ACTION_READ_MESSAGE")
  case True
  obtain e m st1 where r: "read_tokens lib (tokens st) msg st = (e, m, st1)" by (metis prod_cases3)
  note ok = read_tokens_ok [OF refl assms(1) r]
  show ?thesis using assms(2) True ok
    by (auto simp: noise_handshakestate_read_message_def noise_handshakestate_read_def r Let_def
        split: if_splits prod.splits option.splits dest: symmetric_result intro: advances_trans)
next
  case False
  then show ?thesis using assms(2) by (auto simp: noise_handshakestate_read_message_def)
qed

lemma shape_mix [simp]: "shape (hs_mix_hash x st) = shape st" "tokens (hs_mix_hash x st) = tokens st"
  "shape (noise_handshakestate_mix_public_key d st) = shape st" "tokens (noise_handshakestate_mix_public_key d st) = tokens st"
  by (simp_all add: shape_def hs_mix_hash_def noise_handshakestate_mix_public_key_def split: option.split)

lemma shape_action [simp]: "shape (st\<lparr>action := a\<rparr>) = shape st"
  by (simp add: shape_def)

lemma start_ok: "noise_handshakestate_start st = (err, st') \<Longrightarrow> advances st st' \<and> err \<noteq> NULL_DEREFERENCE"
  by (auto simp: noise_handshakestate_start_def advances_def Let_def split: if_splits noise_role.splits)

lemma split_never_null: "noise_handshakestate_split st = (err, cs, st') \<Longrightarrow> advances st st' \<and> err \<noteq> NULL_DEREFERENCE"
  by (auto simp: noise_handshakestate_split_def noise_symmetricstate_split_def advances_def shape_def
      split: if_splits option.splits sum.splits prod.splits)

section \<open>Sequences of calls\<close>

datatype hs_call = CallStart | CallPrologue bytes | CallPsk bytes | CallLocalKey bytes bytes | CallRemoteKey bytes
  | CallWrite nat "bytes option" | CallRead bytes "nat option" | CallSplit

definition hs_call_step :: "sodium \<Rightarrow> hs_call \<Rightarrow> handshake \<Rightarrow> noise_error \<times> handshake" where
  "hs_call_step lib call st = (case call of
     CallStart \<Rightarrow> noise_handshakestate_start st
   | CallPrologue p \<Rightarrow> noise_handshakestate_set_prologue p st
   | CallPsk k \<Rightarrow> noise_handshakestate_set_pre_shared_key k st
   | CallLocalKey priv pub \<Rightarrow>
       (case local_static st of None \<Rightarrow> (NOISE_ERROR_INVALID_STATE, st)
        | Some d \<Rightarrow> (case noise_dhstate_set_keypair lib priv pub d of (err, d) \<Rightarrow> (err, st\<lparr>local_static := Some d\<rparr>)))
   | CallRemoteKey pub \<Rightarrow>
       (case remote_static st of None \<Rightarrow> (NOISE_ERROR_INVALID_STATE, st)
        | Some d \<Rightarrow> (case noise_dhstate_set_public_key pub d of (err, d) \<Rightarrow> (err, st\<lparr>remote_static := Some d\<rparr>)))
   | CallWrite n payload \<Rightarrow> (case noise_handshakestate_write_message lib n payload st of (err, _, st) \<Rightarrow> (err, st))
   | CallRead msg n \<Rightarrow> (case noise_handshakestate_read_message lib msg n st of (err, _, st) \<Rightarrow> (err, st))
   | CallSplit \<Rightarrow> (case noise_handshakestate_split st of (err, _, st) \<Rightarrow> (err, st)))"

lemma call_step_ok:
  assumes "well_typed st" "hs_call_step lib call st = (err, st')"
  shows "advances st st' \<and> err \<noteq> NULL_DEREFERENCE"
proof -
  have key: "noise_dhstate_set_keypair lib priv pub d = (e, d') \<Longrightarrow> e \<noteq> NULL_DEREFERENCE" for priv pub d e d'
    by (auto simp: noise_dhstate_set_keypair_def split: if_splits)
  have ls: "local_static st = Some d \<Longrightarrow> advances st (st\<lparr>local_static := Some d'\<rparr>)" for d d'
    by (simp add: advances_def shape_def)
  show ?thesis using assms
    by (cases call)
       (auto simp: hs_call_step_def noise_handshakestate_set_prologue_def noise_handshakestate_set_pre_shared_key_def ls
         split: if_splits option.splits prod.splits
         dest: start_ok split_never_null write_message_ok [OF assms(1)] read_message_ok [OF assms(1)] symmetric_result key)
qed

definition hs_call_state :: "sodium \<Rightarrow> hs_call \<Rightarrow> handshake \<Rightarrow> handshake" where
  "hs_call_state lib call st = snd (hs_call_step lib call st)"

interpretation handshake_calls: machine "hs_call_state lib" well_typed
proof (unfold_locales, goal_cases)
  case (1 st call)
  then show ?case using call_step_ok [OF 1, of lib call "fst (hs_call_step lib call st)" "snd (hs_call_step lib call st)"]
    by (auto simp: hs_call_state_def intro: advances_typed)
qed

definition flags_shape :: "noise_role \<Rightarrow> u16 \<Rightarrow> noise_role \<times> bool \<times> bool \<times> bool" where
  "flags_shape role flags =
     (let f = (if role = NOISE_ROLE_RESPONDER then noise_pattern_reverse_flags flags else flags)
      in (role, f AND FLAG_LOCAL_STATIC \<noteq> 0, f AND FLAG_LOCAL_EPHEMERAL \<noteq> 0, f AND FLAG_LOCAL_HYBRID \<noteq> 0))"

lemma flag_bits:
  fixes w :: u16
  shows "w AND 1 \<noteq> 0 \<longleftrightarrow> bit w 0" "w AND 2 \<noteq> 0 \<longleftrightarrow> bit w 1" "w AND 16 \<noteq> 0 \<longleftrightarrow> bit w 4"
    "w AND 0x100 \<noteq> 0 \<longleftrightarrow> bit w 8" "w AND 0x200 \<noteq> 0 \<longleftrightarrow> bit w 9" "w AND 0x1000 \<noteq> 0 \<longleftrightarrow> bit w 12"
  using and_exp_eq_0_iff_not_bit [of w 0] and_exp_eq_0_iff_not_bit [of w 1] and_exp_eq_0_iff_not_bit [of w 4]
    and_exp_eq_0_iff_not_bit [of w 8] and_exp_eq_0_iff_not_bit [of w 9] and_exp_eq_0_iff_not_bit [of w 12]
  by simp_all

lemma reversed_bits:
  "bit (noise_pattern_reverse_flags f) 0 = bit f 8" "bit (noise_pattern_reverse_flags f) 1 = bit f 9"
  "bit (noise_pattern_reverse_flags f) 4 = bit f 12"
  by (simp_all add: noise_pattern_reverse_flags_def bit_simps)

lemma patterns_typed: "list_all (\<lambda>(_, flags, toks). list_all (token_typed (flags_shape role flags)) toks) noise_patterns"
proof -
  have "flags_shape NOISE_ROLE_INITIATOR f = (NOISE_ROLE_INITIATOR, f AND 1 \<noteq> 0, f AND 2 \<noteq> 0, f AND 16 \<noteq> 0)" for f
    by (simp add: flags_shape_def flag_defs)
  moreover have "flags_shape NOISE_ROLE_RESPONDER f = (NOISE_ROLE_RESPONDER, f AND 0x100 \<noteq> 0, f AND 0x200 \<noteq> 0, f AND 0x1000 \<noteq> 0)" for f
    unfolding flags_shape_def flag_defs Let_def by (simp only: flag_bits) (simp add: reversed_bits [unfolded One_nat_def])
  ultimately show ?thesis
    by (cases role) (simp_all add: noise_patterns_def noise_pattern_defs flag_defs token_typed_def token_defs)
qed

lemma if_InrD: "(if b then Inl e else Inr r) = Inr st \<Longrightarrow> r = st"
  by (simp split: if_splits)

lemma fresh_typed:
  assumes "noise_handshakestate_new pid y role = Inr st" "modifier_ids pid = []"
  shows "well_typed st"
proof -
  obtain flags toks where e: "noise_pattern_lookup (pattern_id pid) = Some (flags, toks)"
  proof (cases "noise_pattern_lookup (pattern_id pid)")
    case None
    then show thesis using assms by (simp add: noise_handshakestate_new_def noise_pattern_expand_def)
  next
    case (Some p)
    then show thesis using that by (cases p) simp
  qed
  then have ex: "noise_pattern_expand (pattern_id pid) [] = Inr (flags, toks)" by (simp add: noise_pattern_expand_def)
  note r = if_InrD [OF assms(1) [unfolded noise_handshakestate_new_def Let_def assms(2) ex sum.case prod.case]]
  have "tokens st = toks" "shape st = flags_shape role flags"
    unfolding r [symmetric] shape_def flags_shape_def Let_def by simp_all
  moreover have "list_all (token_typed (flags_shape role flags)) toks"
    using patterns_typed [of role] map_of_SomeD [OF e [unfolded noise_pattern_lookup_def]] by (auto simp: list_all_iff)
  ultimately show ?thesis by (simp add: well_typed_def)
qed

text \<open>
  C4. Every handshake state that is made for the name of a pattern without modifiers is well typed, and
  stays so: no call of any sequence reads through a null object pointer, whatever bytes arrive.
\<close>

theorem handshake_never_null:
  assumes "noise_protocol_name_to_id name = Inr pid" "modifier_ids pid = []" "noise_handshakestate_new_by_name name role c = Inr st"
  shows "well_typed (fold (hs_call_state lib) calls st) \<and> fst (hs_call_step lib call (fold (hs_call_state lib) calls st)) \<noteq> NULL_DEREFERENCE"
proof -
  have "noise_handshakestate_new pid (noise_symmetricstate_new name c) role = Inr st"
    using assms(1,3) by (simp add: noise_handshakestate_new_by_name_def)
  then have "well_typed st" using assms(2) by (rule fresh_typed)
  then have t: "well_typed (fold (hs_call_state lib) calls st)" by (rule handshake_calls.run_inv)
  then show ?thesis
    using call_step_ok [OF t, of lib call "fst (hs_call_step lib call (fold (hs_call_state lib) calls st))"
        "snd (hs_call_step lib call (fold (hs_call_state lib) calls st))"] by simp
qed

theorem handshake_never_null_witness:
  "case noise_handshakestate_new_by_name IK_NAME NOISE_ROLE_RESPONDER zero_blake2s of Inl _ \<Rightarrow> False
   | Inr st \<Rightarrow> well_typed (fold (hs_call_state toy_sodium) [CallRead [] None, CallStart, CallWrite 512 None] st)
       \<and> fst (hs_call_step toy_sodium CallSplit (fold (hs_call_state toy_sodium) [CallRead [] None, CallStart, CallWrite 512 None] st)) \<noteq> NULL_DEREFERENCE"
  unfolding ik_new sum.case
  by (rule handshake_never_null [OF ik_name_parses _ ik_new]) simp

end
