(* ===== verification/Ws_Upgrade.thy ===== *)
theory Ws_Upgrade
  imports Http2_Codec Ts_Interfaces
begin

text \<open>
  \<^verbatim>\<open>ts2021_upgrade.cpp\<close>: the websocket under the control connection. The state
  is the class with the TLS socket's world in it: \<open>tls_reads\<close> scripts what successive reads
  give, \<open>tls_writes\<close> how many bytes successive writes take (\<open>None\<close> is an error, which
  a non-blocking socket also reports when it would block), and \<open>tls_sent\<close> is what went out.
  A read takes at most the chunk that is asked for, the rest of the record stays for the next one. Time
  is the entry \<open>Expired\<close> of the script: the deadline has passed when the loop looks.
  \<open>rnd\<close> numbers the draws of \<^verbatim>\<open>esp_random\<close>; base64 is mbedTLS's and a
  parameter, as is the opening of a connection. The 8 KB scratch buffer, which every use fills before it
  reads, is left out, as are logs and watchdog calls.
\<close>

section \<open>Frames\<close>

definition mask_bytes :: "bytes \<Rightarrow> bytes \<Rightarrow> bytes" where
  "mask_bytes m data = map (\<lambda>i. data ! i XOR m ! (i mod 4)) [0..<length data]"

text \<open>
  \<^verbatim>\<open>size_t\<close> has 32 bits on the device, so the shifts by up to 56 bits that write a
  length from 65536 on are undefined: no value.
\<close>

definition encode_websocket_frame :: "bytes \<Rightarrow> bytes \<Rightarrow> bool \<Rightarrow> bytes option" where
  "encode_websocket_frame data m binary =
     (let len = length data;
          frame = [0x80 OR (if binary then 0x02 else 0x01)]
      in if len < 126 then Some (frame @ [0x80 OR word_of_nat len] @ m @ mask_bytes m data)
         else if len < 65536 then Some (frame @ [0x80 OR 126] @ put_be16 (word_of_nat len) @ m @ mask_bytes m data)
         else None)"

definition kPayloadMax :: nat where "kPayloadMax = 8192"

definition get_be :: "bytes \<Rightarrow> nat" where
  "get_be bs = fold (\<lambda>b n. n * 256 + unat b) bs 0"

text \<open>
  The payload and how many bytes it took; none taken is an incomplete frame, or one too large. Sums of
  a 64-bit length wrap. A close frame whose length wraps is copied into a string of nearly four
  gigabytes, which aborts: no value.
\<close>

definition frame_lengths :: "bytes \<Rightarrow> (nat \<times> nat) option" where
  "frame_lengths data =
     (let l = unat (data ! 1 AND 0x7F)
      in if l = 126 then (if length data < 4 then None else Some (get_be (take 2 (drop 2 data)), 4))
         else if l = 127 then (if length data < 10 then None else Some (get_be (take 8 (drop 2 data)), 10))
         else Some (l, 2))"

definition decode_websocket_frame :: "bytes \<Rightarrow> (bytes \<times> nat) option" where
  "decode_websocket_frame data =
     (if length data < 2 then Some ([], 0)
      else case frame_lengths data of None \<Rightarrow> Some ([], 0)
      | Some (payload_len, header_len) \<Rightarrow>
          let opcode = data ! 0 AND 0x0F;
              masked = (data ! 1 AND 0x80 \<noteq> 0);
              header_len = (if masked then header_len + 4 else header_len)
          in if length data < (header_len + payload_len) mod 2 ^ 64 then Some ([], 0)
             else if opcode = 0x8 then (if header_len + payload_len \<ge> 2 ^ 64 then None else Some ([], header_len + payload_len))
             else if payload_len > kPayloadMax then Some ([], 0)
             else
               let body = take payload_len (drop header_len data)
               in Some (if masked then mask_bytes (take 4 (drop (header_len - 4) data)) body else body, header_len + payload_len))"

section \<open>The connection\<close>

datatype tls_event = Received bytes | Want | Expired | Failed

record upgrade =
  raw_url :: string
  u_scheme :: string
  authority :: string
  u_host :: string
  u_port :: nat
  u_path :: string
  tls_open :: bool
  upgrade_complete :: bool
  http2_negotiated :: bool
  handshake_init :: bytes
  ws_buffer :: bytes
  tls_reads :: "tls_event list"
  tls_writes :: "nat option list"
  tls_sent :: bytes
  ws_draws :: nat

definition upgrade_new :: "tls_event list \<Rightarrow> nat option list \<Rightarrow> upgrade" where
  "upgrade_new reads writes = \<lparr>raw_url = [], u_scheme = [], authority = [], u_host = [], u_port = 443, u_path = [], tls_open = False,
     upgrade_complete = False, http2_negotiated = False, handshake_init = [], ws_buffer = [], tls_reads = reads, tls_writes = writes,
     tls_sent = [], ws_draws = 0\<rparr>"

definition ws_close :: "upgrade \<Rightarrow> upgrade" where
  "ws_close u = u\<lparr>tls_open := False, upgrade_complete := False, u_host := [], authority := [], ws_buffer := []\<rparr>"

definition clear_receive_buffer :: "upgrade \<Rightarrow> upgrade" where
  "clear_receive_buffer u = u\<lparr>ws_buffer := []\<rparr>"

definition set_handshake_bytes :: "bytes \<Rightarrow> upgrade \<Rightarrow> upgrade" where
  "set_handshake_bytes b u = u\<lparr>handshake_init := b\<rparr>"

definition rand8 :: "(nat \<Rightarrow> u32) \<Rightarrow> nat \<Rightarrow> nat \<Rightarrow> bytes" where
  "rand8 rnd from n = map (\<lambda>i. ucast (rnd (from + i))) [0..<n]"

section \<open>Writing\<close>

text \<open>
  \<^verbatim>\<open>while (written < send_len)\<close>: a write takes at least one byte or fails; an
  exhausted script fails. The state keeps what has gone out already.
\<close>

function tls_write_all :: "bytes \<Rightarrow> upgrade \<Rightarrow> bool \<times> upgrade" where
  "tls_write_all data u =
     (if data = [] then (True, u)
      else case tls_writes u of
             [] \<Rightarrow> (False, u)
           | None # r \<Rightarrow> (False, u\<lparr>tls_writes := r\<rparr>)
           | Some 0 # r \<Rightarrow> (False, u\<lparr>tls_writes := r\<rparr>)
           | Some (Suc n) # r \<Rightarrow>
               tls_write_all (drop (Suc n) data) (u\<lparr>tls_writes := r, tls_sent := tls_sent u @ take (Suc n) data\<rparr>))"
  by pat_completeness auto
termination by (relation "measure (\<lambda>(d, u). length d)") auto

declare tls_write_all.simps [simp del]

definition write_raw :: "(nat \<Rightarrow> u32) \<Rightarrow> bytes \<Rightarrow> upgrade \<Rightarrow> (bool \<times> upgrade) option" where
  "write_raw rnd data u =
     (if \<not> tls_open u \<or> data = [] then Some (False, u)
      else if upgrade_complete u
      then (case encode_websocket_frame data (rand8 rnd (ws_draws u) 4) True of
              None \<Rightarrow> None
            | Some frame \<Rightarrow> Some (tls_write_all frame (u\<lparr>ws_draws := ws_draws u + 4\<rparr>)))
      else Some (tls_write_all data u))"

section \<open>Reading\<close>

fun reads_left :: "tls_event list \<Rightarrow> nat" where
  "reads_left [] = 0"
| "reads_left (Received d # es) = Suc (length d + reads_left es)"
| "reads_left (_ # es) = Suc (reads_left es)"

text \<open>One read of at most \<open>n\<close> bytes; an empty one is the end of the stream.\<close>

definition tls_read :: "nat \<Rightarrow> upgrade \<Rightarrow> tls_event \<times> upgrade" where
  "tls_read n u =
     (case tls_reads u of
        [] \<Rightarrow> (Expired, u)
      | Received d # r \<Rightarrow>
          if length d > n then (Received (take n d), u\<lparr>tls_reads := Received (drop n d) # r\<rparr>) else (Received d, u\<lparr>tls_reads := r\<rparr>)
      | e # r \<Rightarrow> (e, u\<lparr>tls_reads := r\<rparr>))"

lemma tls_read_less:
  assumes "tls_read n u = (e, u')" "tls_reads u \<noteq> []" "0 < n" "e \<noteq> Received []"
  shows "reads_left (tls_reads u') < reads_left (tls_reads u)"
  using assms by (cases "tls_reads u" rule: reads_left.cases) (auto simp: tls_read_def split: if_splits)

lemma tls_read_nothing: "tls_reads u = [] \<Longrightarrow> tls_read n u = (Expired, u)"
  by (simp add: tls_read_def)

text \<open>
  What the loop of \<^verbatim>\<open>read_raw\<close> serves from its buffer before it reads: a whole frame
  once the connection is upgraded, raw bytes before. \<open>None\<close> is nothing to serve.
\<close>

definition serve_buffered :: "nat \<Rightarrow> upgrade \<Rightarrow> (bool \<times> bytes \<times> upgrade) option option" where
  "serve_buffered max_len u =
     (if ws_buffer u = [] then None
      else if upgrade_complete u
      then (case decode_websocket_frame (ws_buffer u) of
              None \<Rightarrow> Some None
            | Some (payload, consumed) \<Rightarrow>
                if consumed > 0 then Some (Some (payload \<noteq> [], payload, u\<lparr>ws_buffer := drop consumed (ws_buffer u)\<rparr>)) else None)
      else Some (Some (True, take max_len (ws_buffer u), u\<lparr>ws_buffer := drop max_len (ws_buffer u)\<rparr>)))"

definition chunk_size :: "nat \<Rightarrow> nat" where
  "chunk_size max_len = (if kPayloadMax > max_len \<and> max_len > 0 then max_len else kPayloadMax)"

lemma chunk_size_pos [simp]: "0 < chunk_size max_len"
  by (simp add: chunk_size_def kPayloadMax_def)

text \<open>With no timeout the deadline never passes.\<close>

function read_loop :: "nat \<Rightarrow> nat \<Rightarrow> upgrade \<Rightarrow> (bool \<times> bytes \<times> upgrade) option" where
  "read_loop max_len timeout u =
     (case serve_buffered max_len u of Some r \<Rightarrow> r
      | None \<Rightarrow>
          (case tls_read (chunk_size max_len) u of (e, u') \<Rightarrow>
             (case e of
                Received d \<Rightarrow>
                  if d = [] then Some (False, [], u') else read_loop max_len timeout (u'\<lparr>ws_buffer := ws_buffer u' @ d\<rparr>)
              | Want \<Rightarrow> if timeout \<le> 5 then Some (False, [], u') else read_loop max_len timeout u'
              | Expired \<Rightarrow> if timeout > 0 \<or> tls_reads u = [] then Some (False, [], u') else read_loop max_len timeout u'
              | Failed \<Rightarrow> Some (False, [], u'))))"
  by pat_completeness auto
termination
proof (relation "measure (\<lambda>(m, t, u). reads_left (tls_reads u))", goal_cases)
  case (2 m t u e u' d)
  then have "tls_reads u \<noteq> []" using tls_read_nothing [of u "chunk_size m"] by auto
  then show ?case using tls_read_less [of "chunk_size m" u e u'] 2 by simp
next
  case (3 m t u e u')
  then have "tls_reads u \<noteq> []" using tls_read_nothing [of u "chunk_size m"] by auto
  then show ?case using tls_read_less [of "chunk_size m" u e u'] 3 by simp
next
  case (4 m t u e u')
  then show ?case using tls_read_less [of "chunk_size m" u e u'] by simp
qed simp

declare read_loop.simps [simp del]

definition read_raw :: "nat \<Rightarrow> nat \<Rightarrow> upgrade \<Rightarrow> (bool \<times> bytes \<times> upgrade) option" where
  "read_raw max_len timeout u =
     (if \<not> tls_open u \<or> max_len = 0 then Some (False, [], u) else read_loop max_len timeout u)"

section \<open>Opening a connection\<close>

fun find_in :: "string \<Rightarrow> string \<Rightarrow> nat option" where
  "find_in p [] = (if p = [] then Some 0 else None)"
| "find_in p (c # s) = (if take (length p) (c # s) = p then Some 0 else map_option Suc (find_in p s))"

definition parse_host_port :: "string \<Rightarrow> upgrade \<Rightarrow> bool \<times> upgrade" where
  "parse_host_port a u =
     (case find_in '':'' a of None \<Rightarrow> (True, u\<lparr>u_host := a\<rparr>)
      | Some i \<Rightarrow>
          let u = u\<lparr>u_host := take i a\<rparr>;
              port_str = drop (i + 1) a;
              port_long = c_atoi port_str
          in if port_str = [] then (False, u)
             else if port_long \<le> 0 \<or> port_long > 65535 then (False, u)
             else (True, u\<lparr>u_port := nat port_long\<rparr>))"

definition parse_url :: "string \<Rightarrow> upgrade \<Rightarrow> bool \<times> upgrade" where
  "parse_url url u =
     (let u = u\<lparr>raw_url := url\<rparr>
      in case find_in ''//'' url of None \<Rightarrow> (False, u)
         | Some i \<Rightarrow>
             let rest = drop (i + 2) url;
                 u = u\<lparr>u_scheme := take (i + 2) url\<rparr>;
                 u = (case find_in ''/'' rest of
                        None \<Rightarrow> u\<lparr>authority := rest, u_path := ''/ts2021''\<rparr>
                      | Some j \<Rightarrow> u\<lparr>authority := take j rest, u_path := (if drop j rest = [] then ''/ts2021'' else drop j rest)\<rparr>)
             in case parse_host_port (authority u) u of (False, u) \<Rightarrow> (False, u)
                | (True, u) \<Rightarrow> (True, if u_port u = 0 then u\<lparr>u_port := (if u_scheme u = ''http://'' then 80 else 443)\<rparr> else u))"

datatype verification = AcceptAny | CertificateBundle | SkipCommonName

definition is_local_server :: "string \<Rightarrow> bool" where
  "is_local_server url \<longleftrightarrow>
     list_ex (\<lambda>p. find_in p url \<noteq> None) [''://192.168.'', ''://10.'', ''://172.'', ''://localhost'', ''://127.0.0.1'']"

text \<open>
  \<open>dial\<close> opens a TLS connection: \<open>None\<close> is a failure, otherwise whether HTTP/2 was
  negotiated. \<open>has_bundle\<close> is the build's \<^verbatim>\<open>CONFIG_MBEDTLS_CERTIFICATE_BUNDLE\<close>.
\<close>

definition ensure_connection :: "(string \<Rightarrow> verification \<Rightarrow> bool option) \<Rightarrow> bool \<Rightarrow> upgrade \<Rightarrow> bool \<times> upgrade" where
  "ensure_connection dial has_bundle u =
     (let verify = (if is_local_server (raw_url u) then AcceptAny else if has_bundle then CertificateBundle else SkipCommonName)
      in case dial (u_scheme u @ authority u @ u_path u) verify of
           None \<Rightarrow> (False, u\<lparr>tls_open := False\<rparr>)
         | Some h2 \<Rightarrow> (True, u\<lparr>tls_open := True, http2_negotiated := http2_negotiated u \<or> h2\<rparr>))"

section \<open>The upgrade request\<close>

definition hex_upper :: "u8 \<Rightarrow> string" where
  "hex_upper b = [''0123456789ABCDEF'' ! (unat b div 16), ''0123456789ABCDEF'' ! (unat b mod 16)]"

definition is_alnum :: "char \<Rightarrow> bool" where
  "is_alnum c \<longleftrightarrow> is_digit c \<or> (65 \<le> (of_char c :: nat) \<and> (of_char c :: nat) \<le> 90) \<or> (97 \<le> (of_char c :: nat) \<and> (of_char c :: nat) \<le> 122)"

definition url_encode :: "string \<Rightarrow> string" where
  "url_encode v = concat (map (\<lambda>c. if is_alnum c \<or> c \<in> {CHR ''-'', CHR ''_'', CHR ''.'', CHR ''~''} then [c]
     else CHR ''%'' # hex_upper (ord8 c)) v)"

definition random_websocket_key :: "(bytes \<Rightarrow> string option) \<Rightarrow> bytes \<Rightarrow> string" where
  "random_websocket_key b64 r = (case b64 r of None \<Rightarrow> ''dGhpcy1pcy10cy1rZXk='' | Some s \<Rightarrow> s)"

definition base64_encode :: "(bytes \<Rightarrow> string option) \<Rightarrow> bytes \<Rightarrow> string" where
  "base64_encode b64 d = (if d = [] then [] else case b64 d of None \<Rightarrow> [] | Some s \<Rightarrow> s)"

definition ws_crlf :: string where "ws_crlf = [CHR 0x0D, CHR 0x0A]"

definition ws_request :: "(bytes \<Rightarrow> string option) \<Rightarrow> bytes \<Rightarrow> upgrade \<Rightarrow> string" where
  "ws_request b64 r u =
     (let hs = base64_encode b64 (handshake_init u);
          request_path = u_path u @ (if handshake_init u \<noteq> [] \<and> hs \<noteq> [] then ''?X-Tailscale-Handshake='' @ url_encode hs else [])
      in ''GET '' @ request_path @ '' HTTP/1.1'' @ ws_crlf
         @ ''Host: '' @ authority u @ ws_crlf
         @ ''Connection: Upgrade'' @ ws_crlf
         @ ''Upgrade: websocket'' @ ws_crlf
         @ ''Sec-WebSocket-Version: 13'' @ ws_crlf
         @ ''Sec-WebSocket-Key: '' @ random_websocket_key b64 r @ ws_crlf
         @ ''Sec-WebSocket-Protocol: tailscale-control-protocol'' @ ws_crlf
         @ ''User-Agent: esp-ts2021/0.1'' @ ws_crlf @ ws_crlf)"

definition response_ok :: "string \<Rightarrow> bool" where
  "response_ok r \<longleftrightarrow>
     (case find_in ''HTTP/'' r of None \<Rightarrow> True
      | Some p \<Rightarrow> (case find_in ws_crlf (drop p r) of None \<Rightarrow> True
                 | Some e \<Rightarrow> find_in '' 101 '' (take e (drop p r)) \<noteq> None))
     \<and> find_in ''101'' r \<noteq> None"

definition kDefaultTimeoutMs :: nat where "kDefaultTimeoutMs = 500"

definition perform_http_upgrade :: "(bytes \<Rightarrow> string option) \<Rightarrow> (nat \<Rightarrow> u32) \<Rightarrow> upgrade \<Rightarrow> (bool \<times> upgrade) option" where
  "perform_http_upgrade b64 rnd u =
     (if \<not> tls_open u then Some (False, u)
      else
        let request = ws_request b64 (rand8 rnd (ws_draws u) 16) u
        in case write_raw rnd (bytes_of request) (u\<lparr>ws_draws := ws_draws u + 16\<rparr>) of None \<Rightarrow> None
           | Some (False, u) \<Rightarrow> Some (False, u)
           | Some (True, u) \<Rightarrow>
               (case read_raw 1024 kDefaultTimeoutMs u of None \<Rightarrow> None
                | Some (False, _, u) \<Rightarrow> Some (False, u)
                | Some (True, answer, u) \<Rightarrow>
                    if \<not> response_ok (string_of answer) then Some (False, u)
                    else case find_in (ws_crlf @ ws_crlf) (string_of answer) of None \<Rightarrow> Some (True, u)
                         | Some h \<Rightarrow> Some (True, u\<lparr>ws_buffer := ws_buffer u @ drop (h + 4) answer\<rparr>)))"

definition ws_connect ::
    "(string \<Rightarrow> verification \<Rightarrow> bool option) \<Rightarrow> bool \<Rightarrow> (bytes \<Rightarrow> string option) \<Rightarrow> (nat \<Rightarrow> u32) \<Rightarrow> string \<Rightarrow> upgrade \<Rightarrow> (bool \<times> upgrade) option" where
  "ws_connect dial has_bundle b64 rnd url u =
     (case parse_url url (ws_close u) of (False, u) \<Rightarrow> Some (False, u)
      | (True, u) \<Rightarrow>
          (case ensure_connection dial has_bundle u of (False, u) \<Rightarrow> Some (False, u)
           | (True, u) \<Rightarrow>
               (case perform_http_upgrade b64 rnd u of None \<Rightarrow> None
                | Some (False, u) \<Rightarrow> Some (False, ws_close u)
                | Some (True, u) \<Rightarrow> Some (True, u\<lparr>upgrade_complete := True\<rparr>))))"

section \<open>Frames on the wire\<close>

text \<open>A binary frame of the protocol, masked by a client and plain from a server.\<close>

definition ws_length :: "u8 \<Rightarrow> nat \<Rightarrow> bytes" where
  "ws_length mbit len = (if len < 126 then [mbit OR word_of_nat len] else (mbit OR 126) # put_be16 (word_of_nat len))"

definition ws_frame :: "bytes option \<Rightarrow> bytes \<Rightarrow> bytes" where
  "ws_frame m p = (case m of None \<Rightarrow> 0x82 # ws_length 0 (length p) @ p
     | Some k \<Rightarrow> 0x82 # ws_length 0x80 (length p) @ k @ mask_bytes k p)"

definition mask_len :: "bytes option \<Rightarrow> nat" where
  "mask_len m = (case m of None \<Rightarrow> 0 | Some _ \<Rightarrow> 4)"

definition mask_ok :: "bytes option \<Rightarrow> bool" where
  "mask_ok m = (case m of None \<Rightarrow> True | Some k \<Rightarrow> length k = 4)"

lemma length_mask_bytes [simp]: "length (mask_bytes m d) = length d"
  by (simp add: mask_bytes_def)

lemma mask_bytes_twice [simp]: "mask_bytes m (mask_bytes m d) = d"
  by (rule nth_equalityI) (simp_all add: mask_bytes_def xor.assoc)

lemma encode_is_frame: "length p < 65536 \<Longrightarrow> encode_websocket_frame p k True = Some (ws_frame (Some k) p)"
  by (simp add: encode_websocket_frame_def ws_frame_def ws_length_def Let_def)

lemma length_ws_frame: "mask_ok m \<Longrightarrow> length (ws_frame m p) = (if length p < 126 then 2 else 4) + mask_len m + length p"
  by (auto simp: ws_frame_def ws_length_def mask_len_def mask_ok_def codec_simps split: option.splits)

lemma low7: "((mb OR w) :: u8) AND 0x7F = take_bit 7 w" if "mb = 0 \<or> mb = 0x80"
proof -
  have "w AND 0x7F = take_bit 7 w" by (simp add: take_bit_eq_mask mask_eq_exp_minus_1)
  with that show ?thesis by (auto simp: bit.conj_disj_distrib2)
qed

lemma high1_set: "((0x80 OR w) :: u8) AND 0x80 \<noteq> 0"
  by (simp add: bit.conj_disj_distrib2)

lemma unat_low7: "n < 128 \<Longrightarrow> unat (take_bit 7 (word_of_nat n :: u8)) = n"
  by (simp add: unsigned_take_bit_eq unat_of_nat take_bit_nat_def)

lemma high1_clear: "n < 128 \<Longrightarrow> (word_of_nat n :: u8) AND 0x80 = 0"
proof -
  assume "n < 128"
  then have "unat (take_bit 7 (word_of_nat n :: u8)) = unat (word_of_nat n :: u8)" by (simp only: unat_low7) (simp add: unat_of_nat)
  then have "word_of_nat n = (take_bit 7 (word_of_nat n) :: u8)" by (simp only: unat_arith_simps)
  moreover have "take_bit 7 (word_of_nat n :: u8) AND push_bit k 1 = 0" if "7 \<le> k" for k
    by (rule bit_word_eqI) (use that in \<open>auto simp: bit_simps\<close>)
  from this [of 7] have "take_bit 7 (word_of_nat n :: u8) AND 0x80 = 0" by simp
  ultimately show ?thesis by simp
qed

lemma get_be_put_be16: "n < 65536 \<Longrightarrow> get_be (put_be16 (word_of_nat n)) = n"
proof -
  assume n: "n < 65536"
  have w: "unat (word_of_nat n :: u16) = n" using n by (simp add: unat_of_nat)
  have "unat (ucast (drop_bit 8 (word_of_nat n :: u16)) :: u8) = n div 256"
    using n by (simp only: unsigned_ucast_eq unsigned_drop_bit_eq w) (simp add: take_bit_eq_mod drop_bit_eq_div)
  moreover have "unat (ucast (word_of_nat n :: u16) :: u8) = n mod 256"
    using n by (simp only: unsigned_ucast_eq w) (simp add: take_bit_eq_mod)
  ultimately show ?thesis by (simp add: get_be_def put_be16_def)
qed

lemma length_word: "length (ws_length mbit n) = (if n < 126 then 1 else 3)"
  by (simp add: ws_length_def)

text \<open>What the decoder reads of the head of a frame, however much of the frame is there.\<close>

lemma frame_head:
  assumes d: "data = take k (0x82 # ws_length mbit n @ r)" "2 \<le> length data" and n: "n < 65536" and mb: "mbit = 0 \<or> mbit = 0x80"
  shows "data ! 0 AND 0x0F = 2" "(data ! 1 AND 0x80 \<noteq> 0) = (mbit = 0x80)"
    "frame_lengths data = (if n < 126 then Some (n, 2) else if length data < 4 then None else Some (n, 4))"
proof -
  have k: "2 \<le> k" using d by simp
  then obtain j where kj: "k = Suc (Suc j)" by (metis Suc_le_D numeral_2_eq_2 Suc_le_mono)
  show "data ! 0 AND 0x0F = 2" using kj by (simp add: d)
  let ?l = "if n < 126 then n else 126"
  have h: "data ! 1 = mbit OR word_of_nat ?l" using kj by (auto simp: d ws_length_def)
  have l: "?l < 128" by simp
  show "(data ! 1 AND 0x80 \<noteq> 0) = (mbit = 0x80)"
    unfolding h using mb high1_set [of "word_of_nat ?l"] high1_clear [OF l] by auto
  have v: "unat (data ! 1 AND 0x7F) = ?l" unfolding h low7 [OF mb] by (rule unat_low7 [OF l])
  show "frame_lengths data = (if n < 126 then Some (n, 2) else if length data < 4 then None else Some (n, 4))"
  proof (cases "n < 126 \<or> length data < 4")
    case True
    then show ?thesis using v by (auto simp: frame_lengths_def)
  next
    case False
    then have "4 \<le> length data" by simp
    then have "4 \<le> k" by (simp add: d)
    then have "take 2 (drop 2 data) = put_be16 (word_of_nat n)"
      using False by (simp add: d ws_length_def drop_take numeral_2_eq_2 take_Cons' put_be16_def)
    then show ?thesis using v False by (simp add: frame_lengths_def get_be_put_be16 [OF n])
  qed
qed

definition ws_body :: "bytes option \<Rightarrow> bytes \<Rightarrow> bytes" where
  "ws_body m p = (case m of None \<Rightarrow> p | Some k \<Rightarrow> k @ mask_bytes k p)"

lemma ws_frame_split: "ws_frame m p = 0x82 # ws_length (if m = None then 0 else 0x80) (length p) @ ws_body m p"
  by (simp add: ws_frame_def ws_body_def split: option.splits)

lemma decode_whole:
  assumes "mask_ok m" "length p \<le> kPayloadMax"
  shows "decode_websocket_frame (ws_frame m p @ r) = Some (p, length (ws_frame m p))"
proof -
  have n: "length p < 65536" using assms(2) by (simp add: kPayloadMax_def)
  let ?data = "ws_frame m p @ r" and ?h = "if length p < 126 then 2 else 4 :: nat"
  have l: "length ?data = ?h + mask_len m + length p + length r" by (simp add: length_ws_frame [OF assms(1)])
  have "?data = take (length ?data) (0x82 # ws_length (if m = None then 0 else 0x80) (length p) @ ws_body m p @ r)"
    by (simp add: ws_frame_split)
  from frame_head [OF this _ n] have f: "?data ! 0 AND 0x0F = 2" "(?data ! 1 AND 0x80 \<noteq> 0) = (m \<noteq> None)"
    "frame_lengths ?data = Some (length p, ?h)"
    using l by (auto split: if_splits)
  have head: "drop ?h ?data = ws_body m p @ r"
    by (simp add: ws_frame_split ws_length_def put_be16_def)
  have small: "(?h + mask_len m + length p) mod 2 ^ 64 = ?h + mask_len m + length p"
    using n by (intro mod_less) (auto simp: mask_len_def split: option.split)
  show ?thesis
  proof (cases m)
    case None
    then show ?thesis using f l head small assms(2)
      by (simp add: decode_websocket_frame_def mask_len_def ws_body_def length_ws_frame)
  next
    case (Some k)
    then have k: "length k = 4" using assms(1) by (simp add: mask_ok_def)
    have "drop (?h + 4) ?data = mask_bytes k p @ r" using head Some k
      by (metis (no_types, lifting) add.commute append.assoc append_eq_conv_conj drop_drop option.simps(5) ws_body_def)
    then show ?thesis using f l head small assms(2) Some k
      by (simp add: decode_websocket_frame_def mask_len_def ws_body_def length_ws_frame mask_ok_def)
  qed
qed

lemma decode_partial:
  assumes "mask_ok m" "length p < 65536" and d: "data = take k (ws_frame m p)" "k < length (ws_frame m p)"
  shows "decode_websocket_frame data = Some ([], 0)"
proof (cases "length data < 2")
  case True
  then show ?thesis by (simp add: decode_websocket_frame_def)
next
  case False
  let ?h = "if length p < 126 then 2 else 4 :: nat"
  have l: "length data < ?h + mask_len m + length p" using d length_ws_frame [OF assms(1), of p] by simp
  have "data = take k (0x82 # ws_length (if m = None then 0 else 0x80) (length p) @ ws_body m p)"
    by (simp add: d(1) ws_frame_split)
  from frame_head [OF this _ assms(2)] False
  have f: "(data ! 1 AND 0x80 \<noteq> 0) = (m \<noteq> None)"
    "frame_lengths data = (if length p < 126 then Some (length p, 2) else if length data < 4 then None else Some (length p, 4))"
    by (auto split: if_splits)
  have small: "(?h + mask_len m + length p) mod 2 ^ 64 = ?h + mask_len m + length p"
    using assms(2) by (intro mod_less) (auto simp: mask_len_def split: option.split)
  show ?thesis
    using False f l small by (cases m) (auto simp: decode_websocket_frame_def mask_len_def split: if_splits)
qed

section \<open>The stream of frames\<close>

definition ws_pending :: "upgrade \<Rightarrow> bytes" where
  "ws_pending u = ws_buffer u @ concat (map (\<lambda>e. case e of Received d \<Rightarrow> d | _ \<Rightarrow> []) (tls_reads u))"

text \<open>Nothing ends the wait: data comes, or the socket would block and the caller has time.\<close>

definition flowing :: "nat \<Rightarrow> upgrade \<Rightarrow> bool" where
  "flowing timeout u \<longleftrightarrow> tls_open u \<and> upgrade_complete u
     \<and> list_all (\<lambda>e. case e of Received d \<Rightarrow> d \<noteq> [] | Want \<Rightarrow> timeout > 5 | _ \<Rightarrow> False) (tls_reads u)"

definition same_but_input :: "upgrade \<Rightarrow> upgrade \<Rightarrow> bool" where
  "same_but_input u u' \<longleftrightarrow> u' = u\<lparr>ws_buffer := ws_buffer u', tls_reads := tls_reads u'\<rparr>"

lemma same_but_input_trans: "same_but_input a b \<Longrightarrow> same_but_input b c \<Longrightarrow> same_but_input a c"
  unfolding same_but_input_def by (cases a; cases b; cases c) simp

lemma same_but_inputI [intro, simp]: "same_but_input u (u\<lparr>ws_buffer := b\<rparr>)" "same_but_input u (u\<lparr>tls_reads := e\<rparr>)" "same_but_input u u"
  by (simp_all add: same_but_input_def)

text \<open>One read of a flowing connection.\<close>

lemma flowing_read:
  assumes "flowing t u" "tls_reads u \<noteq> []" "tls_read n u = (e, u')" "0 < n"
  shows "flowing t u' \<and> same_but_input u u' \<and> ws_buffer u' = ws_buffer u
    \<and> ((\<exists>d. e = Received d \<and> d \<noteq> [] \<and> ws_pending (u'\<lparr>ws_buffer := ws_buffer u' @ d\<rparr>) = ws_pending u)
       \<or> e = Want \<and> t > 5 \<and> ws_pending u' = ws_pending u)"
  using assms by (cases "tls_reads u" rule: reads_left.cases)
     (auto simp: tls_read_def flowing_def ws_pending_def split: if_splits)

lemma flowing_buffer [simp]: "flowing t (u\<lparr>ws_buffer := b\<rparr>) = flowing t u"
  by (simp add: flowing_def)

lemma buffered_frame:
  assumes "mask_ok m" "p \<noteq> []" "length p \<le> kPayloadMax" "ws_buffer u = ws_frame m p @ r" "upgrade_complete u"
  shows "serve_buffered max_len u = Some (Some (True, p, u\<lparr>ws_buffer := r\<rparr>))"
proof -
  have "ws_frame m p \<noteq> []" by (simp add: ws_frame_split)
  then show ?thesis using assms decode_whole [OF assms(1,3), of r] by (simp add: serve_buffered_def)
qed

lemma partial_frame:
  assumes "mask_ok m" "length p \<le> kPayloadMax" "ws_buffer u = take k (ws_frame m p)" "k < length (ws_frame m p)" "upgrade_complete u"
  shows "serve_buffered max_len u = None"
  using assms decode_partial [OF assms(1) _ assms(3,4)] by (simp add: serve_buffered_def kPayloadMax_def)

lemma read_loop_frame:
  assumes "flowing t u" "mask_ok m" "p \<noteq> []" "length p \<le> kPayloadMax" "ws_pending u = ws_frame m p @ r"
  shows "\<exists>u'. read_loop max_len t u = Some (True, p, u') \<and> ws_pending u' = r \<and> flowing t u' \<and> same_but_input u u'"
  using assms
proof (induction max_len t u rule: read_loop.induct)
  case (1 max_len t u)
  have up: "upgrade_complete u" using "1.prems"(1) by (simp add: flowing_def)
  show ?case
  proof (cases "length (ws_frame m p) \<le> length (ws_buffer u)")
    case True
    have "take (length (ws_frame m p)) (ws_buffer u) = ws_frame m p"
      using True arg_cong [OF "1.prems"(5), of "take (length (ws_frame m p))"] by (simp add: ws_pending_def)
    then obtain s where s: "ws_buffer u = ws_frame m p @ s" by (metis append_take_drop_id)
    have "read_loop max_len t u = Some (True, p, u\<lparr>ws_buffer := s\<rparr>)"
      by (subst read_loop.simps) (simp add: buffered_frame [OF "1.prems"(2-4) s up])
    then show ?thesis using "1.prems"(1,5) s by (simp add: ws_pending_def)
  next
    case False
    then have b: "ws_buffer u = take (length (ws_buffer u)) (ws_frame m p)" "length (ws_buffer u) < length (ws_frame m p)"
      using "1.prems"(5) by (auto simp: ws_pending_def append_eq_append_conv_if)
    note none = partial_frame [OF "1.prems"(2,4) b up, of max_len]
    have reads: "tls_reads u \<noteq> []" using False "1.prems"(5) by (auto simp: ws_pending_def)
    obtain e u' where e: "tls_read (chunk_size max_len) u = (e, u')" by fastforce
    from flowing_read [OF "1.prems"(1) reads e] consider
      (data) d where "e = Received d" "d \<noteq> []" "ws_pending (u'\<lparr>ws_buffer := ws_buffer u' @ d\<rparr>) = ws_pending u"
      | (want) "e = Want" "t > 5" "ws_pending u' = ws_pending u" by auto
    then show ?thesis
    proof cases
      case data
      let ?u = "u'\<lparr>ws_buffer := ws_buffer u' @ d\<rparr>"
      have s: "same_but_input u ?u" "flowing t ?u"
        using flowing_read [OF "1.prems"(1) reads e] same_but_input_trans [OF _ same_but_inputI(1)] by auto
      have "\<exists>v. read_loop max_len t ?u = Some (True, p, v) \<and> ws_pending v = r \<and> flowing t v \<and> same_but_input ?u v"
        using "1.IH"(1) [OF none e [symmetric]] data s "1.prems" by auto
      moreover have "read_loop max_len t u = read_loop max_len t ?u"
        by (subst read_loop.simps) (simp add: none e data)
      ultimately show ?thesis using same_but_input_trans [OF s(1)] by auto
    next
      case want
      have s: "same_but_input u u'" "flowing t u'" using flowing_read [OF "1.prems"(1) reads e] by auto
      have "\<exists>v. read_loop max_len t u' = Some (True, p, v) \<and> ws_pending v = r \<and> flowing t v \<and> same_but_input u' v"
        using "1.IH"(2) [OF none e [symmetric]] want s "1.prems" by auto
      moreover have "read_loop max_len t u = read_loop max_len t u'"
        using want by (subst read_loop.simps) (simp add: none e)
      ultimately show ?thesis using same_but_input_trans [OF s(1)] by auto
    qed
  qed
qed

section \<open>Writing a frame\<close>

text \<open>The socket takes bytes, as often as it could be asked to for \<open>n\<close> of them.\<close>

definition writable :: "nat \<Rightarrow> upgrade \<Rightarrow> bool" where
  "writable n u \<longleftrightarrow> n \<le> length (tls_writes u) \<and> list_all (\<lambda>w. w \<noteq> None \<and> w \<noteq> Some 0) (tls_writes u)"

lemma write_all_ok:
  assumes "writable (length data + n) u"
  shows "\<exists>ws. tls_write_all data u = (True, u\<lparr>tls_writes := ws, tls_sent := tls_sent u @ data\<rparr>)
    \<and> writable n (u\<lparr>tls_writes := ws, tls_sent := tls_sent u @ data\<rparr>)"
  using assms
proof (induction data u rule: tls_write_all.induct)
  case (1 data u)
  show ?case
  proof (cases "data = []")
    case True
    then show ?thesis using "1.prems" by (intro exI [of _ "tls_writes u"]) (simp add: tls_write_all.simps)
  next
    case False
    then obtain w r where w: "tls_writes u = w # r" using "1.prems" by (cases "tls_writes u") (auto simp: writable_def)
    then obtain k where k: "w = Some (Suc k)" using "1.prems" by (cases w) (auto simp: writable_def gr0_conv_Suc)
    let ?u = "u\<lparr>tls_writes := r, tls_sent := tls_sent u @ take (Suc k) data\<rparr>"
    have "writable (length (drop (Suc k) data) + n) ?u"
      using "1.prems" w False by (cases data) (auto simp: writable_def)
    from "1.IH" [OF False w k refl this] obtain ws where
      "tls_write_all (drop (Suc k) data) ?u = (True, ?u\<lparr>tls_writes := ws, tls_sent := tls_sent ?u @ drop (Suc k) data\<rparr>)"
      "writable n (?u\<lparr>tls_writes := ws, tls_sent := tls_sent ?u @ drop (Suc k) data\<rparr>)" by blast
    then show ?thesis using False w k
      by (intro exI [of _ ws]) (simp add: tls_write_all.simps [of data u] writable_def)
  qed
qed

lemma length_rand8 [simp]: "length (rand8 rnd i n) = n"
  by (simp add: rand8_def)

lemma write_raw_frame:
  assumes "tls_open u" "upgrade_complete u" "data \<noteq> []" "length data < 65536" "writable (length data + 8 + n) u"
  shows "\<exists>u'. write_raw rnd data u = Some (True, u') \<and> tls_sent u' = tls_sent u @ ws_frame (Some (rand8 rnd (ws_draws u) 4)) data
    \<and> ws_draws u' = ws_draws u + 4 \<and> writable n u'
    \<and> u' = u\<lparr>ws_draws := ws_draws u', tls_writes := tls_writes u', tls_sent := tls_sent u'\<rparr>"
proof -
  let ?f = "ws_frame (Some (rand8 rnd (ws_draws u) 4)) data" and ?u = "u\<lparr>ws_draws := ws_draws u + 4\<rparr>"
  have "length ?f \<le> length data + 8" by (simp add: length_ws_frame mask_ok_def mask_len_def)
  then have "writable (length ?f + n) ?u" using assms(5) by (simp add: writable_def)
  from write_all_ok [OF this] show ?thesis using assms(1-3)
    by (auto simp: write_raw_def encode_is_frame [OF assms(4)] writable_def)
qed

section \<open>A frame too large\<close>

lemma decode_large:
  assumes "kPayloadMax < length p" "length p < 65536" "data = take k (ws_frame None p @ r)"
  shows "decode_websocket_frame data = Some ([], 0)"
proof (cases "length data < 2")
  case True
  then show ?thesis by (simp add: decode_websocket_frame_def)
next
  case False
  have "data = take k (0x82 # ws_length 0 (length p) @ p @ r)"
    by (simp add: assms(3) ws_frame_def)
  from frame_head [OF this _ assms(2)] False
  have f: "data ! 0 AND 0x0F = 2" "data ! 1 AND 0x80 = 0" "frame_lengths data = (if length data < 4 then None else Some (length p, 4))"
    using assms(1) by (auto simp: kPayloadMax_def)
  have "(4 + length p) mod 2 ^ 64 = 4 + length p" using assms(2) by (intro mod_less) simp
  then show ?thesis using False f assms(1) by (auto simp: decode_websocket_frame_def)
qed

lemma large_not_served:
  assumes "kPayloadMax < length p" "length p < 65536" "upgrade_complete u" "ws_pending u = ws_frame None p @ r"
  shows "serve_buffered max_len u = None"
proof -
  have "ws_buffer u = take (length (ws_buffer u)) (ws_frame None p @ r)"
    unfolding assms(4) [symmetric] by (simp add: ws_pending_def)
  from decode_large [OF assms(1,2) this] show ?thesis using assms(3) by (simp add: serve_buffered_def)
qed

lemma tls_read_pending:
  assumes "tls_read n u = (e, u')"
  shows "upgrade_complete u' = upgrade_complete u" "\<forall>d. e \<noteq> Received d \<Longrightarrow> ws_pending u' = ws_pending u"
    "e = Received d \<Longrightarrow> ws_pending (u'\<lparr>ws_buffer := ws_buffer u' @ d\<rparr>) = ws_pending u"
  using assms by (cases "tls_reads u" rule: reads_left.cases; auto simp: tls_read_def ws_pending_def split: if_splits)+

lemma read_loop_large:
  assumes "kPayloadMax < length p" "length p < 65536" "upgrade_complete u" "ws_pending u = ws_frame None p @ r"
  shows "\<exists>u'. read_loop max_len t u = Some (False, [], u') \<and> ws_pending u' = ws_frame None p @ r"
  using assms
proof (induction max_len t u rule: read_loop.induct)
  case (1 max_len t u)
  note none = large_not_served [OF "1.prems", of max_len]
  obtain e u' where e: "tls_read (chunk_size max_len) u = (e, u')" by fastforce
  note pend = tls_read_pending [OF e]
  have step: "read_loop max_len t u = (case e of
        Received d \<Rightarrow> if d = [] then Some (False, [], u') else read_loop max_len t (u'\<lparr>ws_buffer := ws_buffer u' @ d\<rparr>)
      | Want \<Rightarrow> if t \<le> 5 then Some (False, [], u') else read_loop max_len t u'
      | Expired \<Rightarrow> if t > 0 \<or> tls_reads u = [] then Some (False, [], u') else read_loop max_len t u'
      | Failed \<Rightarrow> Some (False, [], u'))"
    by (subst read_loop.simps) (simp add: none e)
  show ?case
  proof (cases e)
    case (Received d)
    have p: "ws_pending (u'\<lparr>ws_buffer := ws_buffer u' @ d\<rparr>) = ws_frame None p @ r"
      using pend(3) [OF Received] "1.prems"(4) by simp
    show ?thesis
    proof (cases "d = []")
      case True
      then show ?thesis using p Received by (simp add: step)
    next
      case False
      show ?thesis using "1.IH"(1) [OF none e [symmetric] Received False "1.prems"(1,2) _ p] "1.prems"(3) pend(1) Received False
        by (simp add: step)
    qed
  next
    case Want
    have p: "ws_pending u' = ws_frame None p @ r" using pend(2) Want "1.prems"(4) by simp
    then show ?thesis using "1.IH"(2) [OF none e [symmetric] Want _ "1.prems"(1,2) _ p] "1.prems"(3) pend(1) Want
      by (auto simp: step)
  next
    case Expired
    have p: "ws_pending u' = ws_frame None p @ r" using pend(2) Expired "1.prems"(4) by simp
    then show ?thesis using "1.IH"(3) [OF none e [symmetric] Expired _ "1.prems"(1,2) _ p] "1.prems"(3) pend(1) Expired
      by (auto simp: step)
  next
    case Failed
    then show ?thesis using pend(2) "1.prems"(4) by (simp add: step)
  qed
qed

section \<open>Properties\<close>

lemma first_read:
  assumes "tls_open u" "\<not> upgrade_complete u" "ws_buffer u = []" "tls_reads u = Received d # es" "d \<noteq> []" "length d \<le> max_len" "max_len \<le> kPayloadMax"
  shows "read_raw max_len t u = Some (True, d, u\<lparr>tls_reads := es\<rparr>)"
proof -
  have "chunk_size max_len = max_len" using assms(5-7) by (cases d) (auto simp: chunk_size_def)
  then have "tls_read (chunk_size max_len) u = (Received d, u\<lparr>tls_reads := es\<rparr>)" using assms(4,6) by (simp add: tls_read_def)
  moreover have "0 < max_len" using assms(5,6) by (cases d) auto
  ultimately show ?thesis using assms by (cases u) (auto simp: read_raw_def read_loop.simps serve_buffered_def)
qed

lemma connect_ok:
  assumes "parse_url url (ws_close u) = (True, v)" "dial (u_scheme v @ authority v @ u_path v) verify = Some h2"
    and "verify = (if is_local_server (raw_url v) then AcceptAny else if has_bundle then CertificateBundle else SkipCommonName)"
    and "request = ws_request b64 (rand8 rnd (ws_draws v) 16) v" "writable (length request + n) v"
    and "tls_reads v = Received answer # es" "length answer \<le> 1024" "ws_buffer v = []" "\<not> upgrade_complete v"
    and "response_ok (string_of answer)" "find_in (ws_crlf @ ws_crlf) (string_of answer) = Some h"
  shows "\<exists>u'. ws_connect dial has_bundle b64 rnd url u = Some (True, u') \<and> tls_open u' \<and> upgrade_complete u'
    \<and> tls_sent u' = tls_sent v @ bytes_of request \<and> writable n u' \<and> ws_buffer u' = drop (h + 4) answer \<and> tls_reads u' = es
    \<and> authority u' = authority v"
proof -
  let ?v = "v\<lparr>tls_open := True, http2_negotiated := http2_negotiated v \<or> h2\<rparr>"
  let ?w = "?v\<lparr>ws_draws := ws_draws v + 16\<rparr>"
  have c: "ensure_connection dial has_bundle v = (True, ?v)" using assms(2,3) by (simp add: ensure_connection_def)
  have q: "ws_request b64 (rand8 rnd (ws_draws ?v) 16) ?v = request" using assms(4) by (simp add: ws_request_def)
  have req: "bytes_of request \<noteq> []" using assms(4) by (simp add: ws_request_def Let_def)
  have "writable (length (bytes_of request) + n) ?w" using assms(5) by (simp add: writable_def)
  from write_all_ok [OF this] obtain ws where
    w: "tls_write_all (bytes_of request) ?w = (True, ?w\<lparr>tls_writes := ws, tls_sent := tls_sent v @ bytes_of request\<rparr>)"
      "writable n (?w\<lparr>tls_writes := ws, tls_sent := tls_sent v @ bytes_of request\<rparr>)" by auto
  let ?x = "?w\<lparr>tls_writes := ws, tls_sent := tls_sent v @ bytes_of request\<rparr>"
  have "answer \<noteq> []" using assms(10) by (auto simp: response_ok_def)
  then have r: "read_raw 1024 kDefaultTimeoutMs ?x = Some (True, answer, ?x\<lparr>tls_reads := es\<rparr>)"
    using assms(6-9) by (intro first_read) (simp_all add: kPayloadMax_def)
  have "perform_http_upgrade b64 rnd ?v = Some (True, ?x\<lparr>tls_reads := es, ws_buffer := drop (h + 4) answer\<rparr>)"
    using assms(8-11) req q w(1) r by (simp add: perform_http_upgrade_def write_raw_def Let_def)
  then show ?thesis using assms(1) c w(2) by (simp add: ws_connect_def writable_def)
qed

text \<open>
  \<open>connect\<close> sends the upgrade request of the parsed URL and succeeds when the one read it
  waits with brings a response of status 101 with the end of its header; what came behind the header,
  and what comes later, is the stream of websocket frames.
\<close>

lemma connect_upgrades:
  assumes "parse_url url (ws_close u) = (True, v)" "dial (u_scheme v @ authority v @ u_path v) verify = Some h2"
    and "verify = (if is_local_server (raw_url v) then AcceptAny else if has_bundle then CertificateBundle else SkipCommonName)"
    and "request = ws_request b64 (rand8 rnd (ws_draws v) 16) v" "writable (length request + n) v"
    and "tls_reads v = Received answer # es" "length answer \<le> 1024" "ws_buffer v = []" "\<not> upgrade_complete v"
    and "response_ok (string_of answer)" "find_in (ws_crlf @ ws_crlf) (string_of answer) = Some h"
  shows "\<exists>u'. ws_connect dial has_bundle b64 rnd url u = Some (True, u') \<and> tls_open u' \<and> upgrade_complete u'
    \<and> tls_sent u' = tls_sent v @ bytes_of request \<and> writable n u' \<and> ws_buffer u' = drop (h + 4) answer \<and> tls_reads u' = es"
  using connect_ok [where dial = dial and verify = verify and rnd = rnd, OF assms] by blast

definition switching_answer :: bytes where
  "switching_answer = bytes_of (''HTTP/1.1 101 Switching Protocols'' @ ws_crlf @ ''Upgrade: websocket'' @ ws_crlf @ ws_crlf)"

lemma connect_upgrades_witness:
  "\<exists>u'. ws_connect (\<lambda>_ _. Some False) True (\<lambda>_. None) (\<lambda>_. 0) ''https://control.example:8443/ts2021''
      (upgrade_new [Received (switching_answer @ [0x82, 0x01, 0x2A])] (replicate 400 (Some 1))) = Some (True, u')
    \<and> tls_open u' \<and> upgrade_complete u' \<and> ws_buffer u' = [0x82, 0x01, 0x2A] \<and> tls_reads u' = []"
proof -
  let ?url = "''https://control.example:8443/ts2021''" and ?answer = "switching_answer @ [0x82, 0x01, 0x2A]"
  let ?u = "upgrade_new [Received ?answer] (replicate 400 (Some 1))"
  define v where "v = snd (parse_url ?url (ws_close ?u))"
  let ?request = "ws_request (\<lambda>_. None) (rand8 (\<lambda>_. 0) (ws_draws v) 16) v"
  have p: "parse_url ?url (ws_close ?u) = (True, v)" "u_scheme v = ''https://''" "authority v = ''control.example:8443''" "raw_url v = ?url"
    "u_path v = ''/ts2021''" "tls_reads v = tls_reads ?u" "tls_writes v = tls_writes ?u" "ws_buffer v = []" "\<not> upgrade_complete v"
    "handshake_init v = []"
    by (simp_all add: v_def parse_url_def parse_host_port_def ws_close_def upgrade_new_def c_atoi_def c_isspace_def is_digit_def digit_val_def Let_def)
  have w: "writable (length ?request + 1) v"
    by (simp add: writable_def p ws_request_def random_websocket_key_def ws_crlf_def Let_def) (simp add: upgrade_new_def list_all_iff)
  have r: "response_ok (string_of ?answer)" "find_in (ws_crlf @ ws_crlf) (string_of ?answer) = Some 52"
    "length ?answer \<le> 1024" "drop (52 + 4) ?answer = [0x82, 0x01, 0x2A]" by code_simp+
  show ?thesis
    using connect_upgrades [OF p(1) _ refl refl w _ r(3) p(8,9) r(1,2), where dial = "\<lambda>_ _. Some False" and ?h2.0 = False and es = "[]" and has_bundle = True] r(4) p(6)
    by (auto simp: upgrade_new_def)
qed


definition cut_stream :: upgrade where
  "cut_stream = (upgrade_new [Received [0x82], Want, Received [2, 104], Received [105, 0x82]] [])\<lparr>tls_open := True, upgrade_complete := True\<rparr>"


text \<open>
  What \<open>write_raw\<close> puts on the wire for a payload of at most 8192 bytes is one frame, and
  the decoder gives back the payload and takes exactly the frame.
\<close>

lemma written_frame_decodes:
  assumes "tls_open u" "upgrade_complete u" "p \<noteq> []" "length p \<le> kPayloadMax" "writable (length p + 8) u"
  shows "\<exists>u' f. write_raw rnd p u = Some (True, u') \<and> tls_sent u' = tls_sent u @ f \<and> decode_websocket_frame (f @ r) = Some (p, length f)"
proof -
  let ?m = "Some (rand8 rnd (ws_draws u) 4)"
  have "length p < 65536" using assms(4) by (simp add: kPayloadMax_def)
  from write_raw_frame [OF assms(1-3) this, of 0 rnd] assms(5) obtain u' where
    "write_raw rnd p u = Some (True, u')" "tls_sent u' = tls_sent u @ ws_frame ?m p" by auto
  moreover have "decode_websocket_frame (ws_frame ?m p @ r) = Some (p, length (ws_frame ?m p))"
    by (rule decode_whole) (simp_all add: mask_ok_def assms(4))
  ultimately show ?thesis by blast
qed

lemma written_frame_decodes_witness:
  "\<exists>u' f. write_raw (\<lambda>i. word_of_nat (7 * i)) [1, 2, 3] (cut_stream\<lparr>tls_writes := replicate 11 (Some 2)\<rparr>) = Some (True, u')
    \<and> tls_sent u' = tls_sent (cut_stream\<lparr>tls_writes := replicate 11 (Some 2)\<rparr>) @ f \<and> decode_websocket_frame (f @ [9]) = Some ([1, 2, 3], length f)"
  by (rule written_frame_decodes) (simp_all add: cut_stream_def upgrade_new_def kPayloadMax_def writable_def list_all_iff)

text \<open>
  A frame of more than 8192 bytes is never taken from the stream: every read comes back empty and
  leaves it where it is, whatever is behind it and whatever the socket does.
\<close>

lemma large_frame_stalls:
  assumes "kPayloadMax < length p" "length p < 65536" "upgrade_complete u" "ws_pending u = ws_frame None p @ r"
  shows "\<exists>u'. read_raw max_len t u = Some (False, [], u') \<and> ws_pending u' = ws_frame None p @ r"
  using read_loop_large [OF assms] assms(4) by (auto simp: read_raw_def)

lemma large_frame_stalls_witness:
  "\<exists>u'. read_raw 8192 500 ((upgrade_new [Received (ws_frame None (replicate 8193 7))] [])\<lparr>tls_open := True, upgrade_complete := True\<rparr>)
      = Some (False, [], u') \<and> ws_pending u' = ws_frame None (replicate 8193 7) @ []"
  by (rule large_frame_stalls) (simp_all add: kPayloadMax_def upgrade_new_def ws_pending_def)

text \<open>
  Two further deviations: any host whose name starts like a private address is served without
  verifying its certificate, and a response whose header ends in a second TLS record leaves the rest of
  the header in the stream of frames, of which nothing is ever read.
\<close>

lemma foreign_host_unverified: "is_local_server ''https://10.attacker.example''"
  by code_simp

end
