(* ===== verification/Ts2021_Transport.thy ===== *)
theory Ts2021_Transport
  imports Noise_Session Ws_Upgrade Http2_Session
begin

text \<open>
  \<^verbatim>\<open>ts2021_transport.cpp\<close>: the control connection, Noise messages in records in
  websocket frames. The state is the class with the objects its pointers lead to; null pointers are
  \<open>None\<close>. The two callbacks that \<^verbatim>\<open>start_http2_session\<close> hands to the HTTP/2
  session call \<open>send_plaintext\<close> and \<open>receive_plaintext\<close>; in the session they are its
  log and its script (\<^verbatim>\<open>Http2_Session\<close>), and \<open>receive_all\<close> is the script that this
  transport gives. A result \<open>None\<close> is the abort or undefined behaviour of the websocket layer.
  Logs, hex dumps and watchdog calls are left out.
\<close>

section \<open>State\<close>

datatype stage = kIdle | kClientInit | kAwaitingServerResponse | kTransportReady | kFailed

record transport =
  tr_stage :: stage
  session :: "noise_session option"
  upgrade_channel :: "upgrade option"
  http2 :: "h2 option"
  next_stream_id :: u32
  persistent_stream_id :: u32
  tx_count :: u64
  rx_count :: u64

definition transport_reset :: "transport \<Rightarrow> transport" where
  "transport_reset t = t\<lparr>tr_stage := kIdle, session := None, upgrade_channel := None, http2 := None, next_stream_id := 1\<rparr>"

definition transport_new :: transport where
  "transport_new = transport_reset \<lparr>tr_stage = kIdle, session = None, upgrade_channel = None, http2 = None, next_stream_id = 1,
     persistent_stream_id = 0, tx_count = 0, rx_count = 0\<rparr>"

definition mark_failed :: "transport \<Rightarrow> transport" where
  "mark_failed t = t\<lparr>tr_stage := kFailed\<rparr>"

definition attach_upgrade :: "upgrade option \<Rightarrow> transport \<Rightarrow> transport" where
  "attach_upgrade u t = t\<lparr>upgrade_channel := u\<rparr>"

definition handshake_complete :: "transport \<Rightarrow> bool" where
  "handshake_complete t \<longleftrightarrow> tr_stage t = kTransportReady"

section \<open>The handshake\<close>

definition begin_handshake :: "noise_session \<Rightarrow> transport \<Rightarrow> bool \<times> transport" where
  "begin_handshake s t =
     (if handshake_state s = None then (False, mark_failed t)
      else (True, t\<lparr>session := Some s, tr_stage := kClientInit\<rparr>))"

definition set_handshake :: "handshake \<Rightarrow> noise_session \<Rightarrow> transport \<Rightarrow> transport" where
  "set_handshake hs s t = t\<lparr>session := Some (s\<lparr>handshake_state := Some hs\<rparr>)\<rparr>"

text \<open>Splitting the ciphers off, when a message was the last.\<close>

definition split_session :: "noise_session \<Rightarrow> transport \<Rightarrow> bool \<times> transport" where
  "split_session s t =
     (case split_transport s of
        (False, s) \<Rightarrow> (False, mark_failed (t\<lparr>session := Some s\<rparr>))
      | (True, s) \<Rightarrow> (True, t\<lparr>session := Some s, tr_stage := kTransportReady\<rparr>))"

definition build_handshake_message :: "sodium \<Rightarrow> transport \<Rightarrow> bool \<times> bytes \<times> transport" where
  "build_handshake_message lib t =
     (if tr_stage t \<noteq> kClientInit then (False, [], t)
      else case session t of None \<Rightarrow> (False, [], t)
      | Some s \<Rightarrow>
          (case handshake_state s of None \<Rightarrow> (False, [], mark_failed t)
           | Some hs \<Rightarrow>
               let (err, hs) = (if action hs = NOISE_ACTION_NONE then noise_handshakestate_start hs else (NOISE_ERROR_NONE, hs));
                   t = set_handshake hs s t
               in if err \<noteq> NOISE_ERROR_NONE \<and> err \<noteq> NOISE_ERROR_INVALID_STATE then (False, [], mark_failed t)
                  else if action hs \<noteq> NOISE_ACTION_WRITE_MESSAGE then (False, [], mark_failed t)
                  else case noise_handshakestate_write_message lib 512 None hs of (err, m, hs) \<Rightarrow>
                    let t = set_handshake hs s t;
                        out = [0x00, 0x01, 0x01] @ put_be16 (word_of_nat (length m)) @ m
                    in if err \<noteq> NOISE_ERROR_NONE then (False, [], mark_failed t)
                       else if action hs = NOISE_ACTION_SPLIT
                       then (case split_session (s\<lparr>handshake_state := Some hs\<rparr>) t of (ok, t) \<Rightarrow> (ok, out, t))
                       else (True, out, t\<lparr>tr_stage := kAwaitingServerResponse\<rparr>)))"

text \<open>An error message of the server (type 3) ends the handshake as any other type does.\<close>

definition accept_handshake_message :: "sodium \<Rightarrow> bytes \<Rightarrow> transport \<Rightarrow> bool \<times> transport" where
  "accept_handshake_message lib data t =
     (if tr_stage t \<noteq> kAwaitingServerResponse then (False, t)
      else case session t of None \<Rightarrow> (False, t)
      | Some s \<Rightarrow>
          if length data < 3 then (False, mark_failed t)
          else
            let payload_len = unat (get_be16 (data ! 1) (data ! 2))
            in if data ! 0 \<noteq> 0x02 then (False, mark_failed t)
               else if length data < 3 + payload_len then (False, mark_failed t)
               else case handshake_state s of None \<Rightarrow> (False, mark_failed t)
               | Some hs \<Rightarrow>
                   (case noise_handshakestate_read_message lib (take payload_len (drop 3 data)) None hs of (err, _, hs) \<Rightarrow>
                      let t = set_handshake hs s t
                      in if err \<noteq> NOISE_ERROR_NONE then (False, mark_failed t)
                         else if action hs = NOISE_ACTION_WRITE_MESSAGE then (True, t\<lparr>tr_stage := kClientInit\<rparr>)
                         else if action hs = NOISE_ACTION_SPLIT then split_session (s\<lparr>handshake_state := Some hs\<rparr>) t
                         else (False, mark_failed t)))"

definition send_handshake_bytes :: "(nat \<Rightarrow> u32) \<Rightarrow> bytes \<Rightarrow> transport \<Rightarrow> (bool \<times> transport) option" where
  "send_handshake_bytes rnd payload t =
     (case upgrade_channel t of None \<Rightarrow> Some (False, t)
      | Some u \<Rightarrow> map_option (\<lambda>(ok, u). (ok, t\<lparr>upgrade_channel := Some u\<rparr>)) (write_raw rnd payload u))"

definition read_handshake_bytes :: "nat \<Rightarrow> nat \<Rightarrow> transport \<Rightarrow> (bool \<times> bytes \<times> transport) option" where
  "read_handshake_bytes max_len timeout t =
     (case upgrade_channel t of None \<Rightarrow> Some (False, [], t)
      | Some u \<Rightarrow> map_option (\<lambda>(ok, out, u). (ok, out, t\<lparr>upgrade_channel := Some u\<rparr>)) (read_raw max_len timeout u))"

section \<open>Records\<close>

definition encrypt_payload :: "sodium \<Rightarrow> bytes \<Rightarrow> transport \<Rightarrow> bool \<times> bytes \<times> transport" where
  "encrypt_payload lib p t =
     (if tr_stage t \<noteq> kTransportReady then (False, [], t)
      else case session t of None \<Rightarrow> (False, [], t)
      | Some s \<Rightarrow>
          (case send_cipher s of None \<Rightarrow> (False, [], mark_failed t)
           | Some c \<Rightarrow>
               let t = t\<lparr>tx_count := tx_count t + 1\<rparr>
               in case noise_cipherstate_encrypt lib p (length p + MAC_LEN) c of (err, ct, c) \<Rightarrow>
                    let t = t\<lparr>session := Some (s\<lparr>send_cipher := Some c\<rparr>)\<rparr>
                    in if err \<noteq> NOISE_ERROR_NONE then (False, [], mark_failed t) else (True, ct, t)))"

definition decrypt_payload :: "sodium \<Rightarrow> bytes \<Rightarrow> transport \<Rightarrow> bool \<times> bytes \<times> transport" where
  "decrypt_payload lib ct t =
     (if tr_stage t \<noteq> kTransportReady then (False, [], t)
      else case session t of None \<Rightarrow> (False, [], t)
      | Some s \<Rightarrow>
          (case recv_cipher s of None \<Rightarrow> (False, [], mark_failed t)
           | Some c \<Rightarrow>
               (case noise_cipherstate_decrypt lib ct (length ct) c of (err, p, c) \<Rightarrow>
                  let t = t\<lparr>session := Some (s\<lparr>recv_cipher := Some c\<rparr>)\<rparr>
                  in if err \<noteq> NOISE_ERROR_NONE then (False, p, mark_failed t) else (True, p, t\<lparr>rx_count := rx_count t + 1\<rparr>))))"

definition msgTypeRecord :: u8 where "msgTypeRecord = 0x04"

definition control_record :: "bytes \<Rightarrow> bytes" where
  "control_record ct = msgTypeRecord # put_be16 (word_of_nat (length ct)) @ ct"

definition send_plaintext :: "sodium \<Rightarrow> (nat \<Rightarrow> u32) \<Rightarrow> bytes \<Rightarrow> transport \<Rightarrow> (bool \<times> transport) option" where
  "send_plaintext lib rnd data t =
     (case upgrade_channel t of None \<Rightarrow> Some (False, t)
      | Some u \<Rightarrow>
          if data = [] then Some (False, t)
          else case encrypt_payload lib data t of
                 (False, _, t) \<Rightarrow> Some (False, t)
               | (True, ct, t) \<Rightarrow> map_option (\<lambda>(ok, u). (ok, t\<lparr>upgrade_channel := Some u\<rparr>)) (write_raw rnd (control_record ct) u))"

definition receive_plaintext :: "sodium \<Rightarrow> nat \<Rightarrow> transport \<Rightarrow> (bool \<times> bytes \<times> transport) option" where
  "receive_plaintext lib timeout t =
     (case upgrade_channel t of None \<Rightarrow> Some (False, [], t)
      | Some u \<Rightarrow>
          (case read_raw 8192 timeout u of None \<Rightarrow> None
           | Some (ok, framed, u) \<Rightarrow>
               let t = t\<lparr>upgrade_channel := Some u\<rparr>
               in Some (if \<not> ok then (False, [], t)
                        else if framed = [] then (False, [], t)
                        else if length framed < 3 then (False, [], mark_failed t)
                        else
                          let ciphertext_len = unat (get_be16 (framed ! 1) (framed ! 2))
                          in if framed ! 0 \<noteq> msgTypeRecord then (False, [], mark_failed t)
                             else if length framed < 3 + ciphertext_len then (False, [], mark_failed t)
                             else decrypt_payload lib (take ciphertext_len (drop 3 framed)) t)))"

section \<open>The HTTP/2 session on top\<close>

definition kPreface :: bytes where
  "kPreface = bytes_of (''PRI * HTTP/2.0'' @ ws_crlf @ ws_crlf @ ''SM'' @ ws_crlf @ ws_crlf)"

text \<open>\<open>fresh\<close> is the new session object, with the world its callbacks see.\<close>

definition start_http2_session :: "sodium \<Rightarrow> (nat \<Rightarrow> u32) \<Rightarrow> h2 \<Rightarrow> transport \<Rightarrow> (bool \<times> transport) option" where
  "start_http2_session lib rnd fresh t =
     (if \<not> handshake_complete t then Some (False, t)
      else if http2 t \<noteq> None then Some (True, t)
      else case send_plaintext lib rnd kPreface t of None \<Rightarrow> None
      | Some (False, t) \<Rightarrow> Some (False, t)
      | Some (True, t) \<Rightarrow>
          (case h2_init fresh of
             (False, _) \<Rightarrow> Some (False, t\<lparr>http2 := None\<rparr>)
           | (True, h) \<Rightarrow> Some (True, t\<lparr>http2 := Some h\<rparr>)))"

definition http2_post_json ::
    "string \<Rightarrow> string \<Rightarrow> string \<Rightarrow> string \<Rightarrow> u16 \<Rightarrow> bool \<Rightarrow> bool \<Rightarrow> transport \<Rightarrow> string option \<times> u16 \<times> transport" where
  "http2_post_json scheme auth path payload status close_stream filtering t =
     (case http2 t of None \<Rightarrow> (None, status, t)
      | Some h \<Rightarrow>
          if upgrade_channel t = None then (None, status, t)
          else
            let sid = next_stream_id t;
                t = t\<lparr>next_stream_id := sid + 2\<rparr>;
                t = (if close_stream then t else t\<lparr>persistent_stream_id := sid\<rparr>);
                h = snd (process_control_frames h)
            in case post_json sid scheme auth path payload status close_stream filtering h of (r, st, h) \<Rightarrow>
                 (r, st, t\<lparr>http2 := Some h\<rparr>))"

definition http2_read_next_message ::
    "u32 \<Rightarrow> u32 \<Rightarrow> u32 list \<Rightarrow> transport \<Rightarrow> string option option \<times> transport" where
  "http2_read_next_message start timeout clock t =
     (case http2 t of None \<Rightarrow> (Some None, t)
      | Some h \<Rightarrow>
          if persistent_stream_id t = 0 then (Some None, t)
          else case read_next_message (persistent_stream_id t) start timeout clock h of (r, h) \<Rightarrow> (r, t\<lparr>http2 := Some h\<rparr>))"

definition http2_send_on_persistent_stream :: "string \<Rightarrow> transport \<Rightarrow> bool \<times> transport" where
  "http2_send_on_persistent_stream data t =
     (case http2 t of None \<Rightarrow> (False, t)
      | Some h \<Rightarrow>
          if persistent_stream_id t = 0 then (False, t)
          else case send_data_on_stream (persistent_stream_id t) data h of (ok, h) \<Rightarrow> (ok, t\<lparr>http2 := Some h\<rparr>))"

text \<open>What successive calls of the receiving callback give.\<close>

fun receive_all :: "sodium \<Rightarrow> nat \<Rightarrow> nat \<Rightarrow> transport \<Rightarrow> (bytes option list \<times> transport) option" where
  "receive_all lib timeout 0 t = Some ([], t)"
| "receive_all lib timeout (Suc n) t =
     (case receive_plaintext lib timeout t of None \<Rightarrow> None
      | Some (ok, out, t) \<Rightarrow>
          map_option (\<lambda>(rs, t). ((if ok then Some out else None) # rs, t)) (receive_all lib timeout n t))"

fun send_all :: "sodium \<Rightarrow> (nat \<Rightarrow> u32) \<Rightarrow> bytes list \<Rightarrow> transport \<Rightarrow> (bool list \<times> transport) option" where
  "send_all lib rnd [] t = Some ([], t)"
| "send_all lib rnd (d # ds) t =
     (case send_plaintext lib rnd d t of None \<Rightarrow> None
      | Some (ok, t) \<Rightarrow> map_option (\<lambda>(oks, t). (ok # oks, t)) (send_all lib rnd ds t))"

end
