(* ===== verification/Control_Channel.thy ===== *)
theory Control_Channel
  imports Ts2021_Transport Http2_Posts
begin

text \<open>
  The control connection against a server that speaks the same protocol: the handshake, the records in
  both directions, and an HTTP/2 response through all layers.
\<close>

section \<open>The handshake\<close>

lemma put_be16_96: "put_be16 96 = [0, 96]"
  by (simp add: put_be16_def)

text \<open>
  C3. Initialised with the server's key and its own key pair, the client's first message is
  one a server with that key answers, learning the client's key; the answer completes the handshake, and
  the two sides then hold the same two ciphers, crossed over.
\<close>

theorem control_handshake_completes:
  assumes "aead_lib lib" "dh_lib lib" "length ska = 32" "length skb = 32"
  shows "\<exists>t0 m t1 answer k1 k2 t2 s2.
    begin_handshake (snd (set_local_static lib ska (scalarmult_base lib ska)
        (snd (set_remote_static (scalarmult_base lib skb) (snd (initialize_ik n s)))))) t = (True, t0)
    \<and> build_handshake_message lib t0 = (True, [0x00, 0x01, 0x01, 0, 96] @ m, t1)
    \<and> serve_handshake lib skb n' m = Inr (answer, scalarmult_base lib ska, keyed k2, keyed k1)
    \<and> accept_handshake_message lib ([0x02, 0, 48] @ answer @ rest) t1 = (True, t2)
    \<and> handshake_complete t2 \<and> session t2 = Some s2 \<and> send_cipher s2 = Some (keyed k1) \<and> recv_cipher s2 = Some (keyed k2)"
proof -
  let ?s = "\<lparr>handshake_state = Some (client_start lib ska skb n), send_cipher = None, recv_cipher = None\<rparr>"
  let ?t0 = "t\<lparr>session := Some ?s, tr_stage := kClientInit\<rparr>"
  note start = client_start_session(3) [OF assms(2,3), of skb n s]
  obtain st0 m st1 answer st2 k1 k2 st3 where h:
    "noise_handshakestate_start (client_start lib ska skb n) = (NOISE_ERROR_NONE, st0)" "action st0 = NOISE_ACTION_WRITE_MESSAGE"
    "noise_handshakestate_write_message lib 512 None st0 = (NOISE_ERROR_NONE, m, st1)" "action st1 = NOISE_ACTION_READ_MESSAGE" "length m = 96"
    "serve_handshake lib skb n' m = Inr (answer, scalarmult_base lib ska, keyed k2, keyed k1)" "length answer = 48"
    "noise_handshakestate_read_message lib answer None st1 = (NOISE_ERROR_NONE, [], st2)" "action st2 = NOISE_ACTION_SPLIT"
    "noise_handshakestate_split st2 = (NOISE_ERROR_NONE, Some (keyed k1, keyed k2), st3)"
    using handshake_agrees [OF assms(1,2,4), of ska n n'] by metis
  have a: "action (client_start lib ska skb n) = NOISE_ACTION_NONE" by (simp add: client_start_def ik_state_def)
  let ?t1 = "?t0\<lparr>session := Some (?s\<lparr>handshake_state := Some st1\<rparr>), tr_stage := kAwaitingServerResponse\<rparr>"
  have b: "build_handshake_message lib ?t0 = (True, [0x00, 0x01, 0x01, 0, 96] @ m, ?t1)"
    using h(1-5) a by (simp add: build_handshake_message_def set_handshake_def put_be16_96)
  have "unat (get_be16 0 48) = 48" by (simp add: get_be16_def)
  then have r: "accept_handshake_message lib ([0x02, 0, 48] @ answer @ rest) ?t1
    = (True, ?t1\<lparr>session := Some \<lparr>handshake_state = Some st3, send_cipher = Some (keyed k1), recv_cipher = Some (keyed k2)\<rparr>,
        tr_stage := kTransportReady\<rparr>)"
    using h(7-10) by (simp add: accept_handshake_message_def set_handshake_def split_session_def split_transport_def
        reset_ciphers_def Let_def)
  have g: "begin_handshake (snd (set_local_static lib ska (scalarmult_base lib ska)
        (snd (set_remote_static (scalarmult_base lib skb) (snd (initialize_ik n s)))))) t = (True, ?t0)"
    by (simp add: start begin_handshake_def)
  show ?thesis
    by (rule exI, rule exI [of _ m], rule exI, rule exI [of _ answer], rule exI [of _ k1], rule exI [of _ k2], rule exI, rule exI,
        intro conjI, rule g, rule b, rule h(6), rule r) (simp add: handshake_complete_def)+
qed

theorem control_handshake_completes_witness:
  "\<exists>t0 m t1 answer k1 k2 t2 s2.
    begin_handshake (snd (set_local_static toy_sodium (replicate 32 5) (scalarmult_base toy_sodium (replicate 32 5))
        (snd (set_remote_static (scalarmult_base toy_sodium (replicate 32 9)) (snd (initialize_ik 0 noise_session_new)))))) transport_new = (True, t0)
    \<and> build_handshake_message toy_sodium t0 = (True, [0x00, 0x01, 0x01, 0, 96] @ m, t1)
    \<and> serve_handshake toy_sodium (replicate 32 9) 3 m = Inr (answer, scalarmult_base toy_sodium (replicate 32 5), keyed k2, keyed k1)
    \<and> accept_handshake_message toy_sodium ([0x02, 0, 48] @ answer @ []) t1 = (True, t2)
    \<and> handshake_complete t2 \<and> session t2 = Some s2 \<and> send_cipher s2 = Some (keyed k1) \<and> recv_cipher s2 = Some (keyed k2)"
  by (rule control_handshake_completes [OF toy_aead toy_dh]) simp_all

section \<open>Records from the server\<close>

definition next_nonce :: "cipherstate \<Rightarrow> cipherstate" where
  "next_nonce c = c\<lparr>nonce_ctr := nonce_ctr c + 1\<rparr>"

text \<open>A server sends each message as one record in one frame.\<close>

fun server_bytes :: "sodium \<Rightarrow> cipherstate \<Rightarrow> bytes list \<Rightarrow> bytes" where
  "server_bytes lib c [] = []"
| "server_bytes lib c (p # ps) =
     (case noise_cipherstate_encrypt lib p (length p + MAC_LEN) c of (_, ct, c) \<Rightarrow>
        ws_frame None (control_record ct) @ server_bytes lib c ps)"

text \<open>A transport that is ready, in step with the server's cipher, with the given bytes to come.\<close>

definition receiving :: "nat \<Rightarrow> cipherstate \<Rightarrow> bytes \<Rightarrow> transport \<Rightarrow> bool" where
  "receiving timeout c bs t \<longleftrightarrow> tr_stage t = kTransportReady
     \<and> (case session t of None \<Rightarrow> False | Some s \<Rightarrow> (case recv_cipher s of None \<Rightarrow> False | Some r \<Rightarrow> in_step c r))
     \<and> (case upgrade_channel t of None \<Rightarrow> False | Some u \<Rightarrow> flowing timeout u \<and> ws_pending u = bs)"

definition RECORD_MAX :: nat where "RECORD_MAX = 8192 - 3 - 16"

definition nonces_left :: "nat \<Rightarrow> cipherstate \<Rightarrow> bool" where
  "nonces_left n c \<longleftrightarrow> unat (nonce_ctr c) + n < 2 ^ 64"

lemma nonce_end: "nonces_left (Suc n) c \<Longrightarrow> nonce_ctr c \<noteq> NONCE_END \<and> nonces_left n (next_nonce c)"
proof -
  assume n: "nonces_left (Suc n) c"
  have "unat NONCE_END = 2 ^ 64 - 1" by (simp add: NONCE_END_def)
  then have e: "nonce_ctr c \<noteq> NONCE_END" using n by (auto simp: nonces_left_def)
  have "NONCE_END + 1 = 0" by (simp add: NONCE_END_def)
  then have "nonce_ctr c + 1 \<noteq> 0" using e by (metis add_right_cancel)
  then have "unat (nonce_ctr c + 1) = Suc (unat (nonce_ctr c))" using unatSuc [of "nonce_ctr c"] by (simp add: add.commute)
  then show ?thesis using e n by (simp add: nonces_left_def next_nonce_def)
qed

lemma seal:
  assumes "aead_lib lib" "has_key c" "nonce_ctr c \<noteq> NONCE_END" "length p \<le> RECORD_MAX"
  shows "noise_cipherstate_encrypt lib p (length p + MAC_LEN) c
    = (NOISE_ERROR_NONE, noise_chachapoly_encrypt lib [] p c, next_nonce c)"
  using assms encrypt_ok [of c p "length p + MAC_LEN" lib "[]"]
  by (simp add: noise_cipherstate_encrypt_def next_nonce_def RECORD_MAX_def NOISE_MAX_PAYLOAD_LEN_def MAC_LEN_def)

lemma open_sealed:
  assumes "aead_lib lib" "in_step c r" "nonce_ctr c \<noteq> NONCE_END" "length p \<le> RECORD_MAX"
  shows "noise_cipherstate_decrypt lib (noise_chachapoly_encrypt lib [] p c) (length p + MAC_LEN) r = (NOISE_ERROR_NONE, p, next_nonce r)"
  using decrypt_encrypted [OF assms(1,2) _ _ assms(3), of p "length p + MAC_LEN" "[]"] assms(4)
  by (simp add: noise_cipherstate_decrypt_def next_nonce_def RECORD_MAX_def NOISE_MAX_PAYLOAD_LEN_def MAC_LEN_def)

lemma record_parts:
  assumes "length ct < 65536"
  shows "control_record ct ! 0 = msgTypeRecord" "unat (get_be16 (control_record ct ! 1) (control_record ct ! 2)) = length ct"
    "length (control_record ct) = 3 + length ct" "drop 3 (control_record ct) = ct"
proof -
  have "unat (word_of_nat (length ct) :: u16) = length ct" using assms by (simp add: unat_of_nat)
  then show "unat (get_be16 (control_record ct ! 1) (control_record ct ! 2)) = length ct"
    by (simp add: control_record_def put_be16_def codec_simps)
qed (simp_all add: control_record_def put_be16_def)

definition split_record :: "bytes \<Rightarrow> (bytes \<times> bytes) option" where
  "split_record bs =
     (if length bs < 3 \<or> bs ! 0 \<noteq> msgTypeRecord then None
      else let n = unat (get_be16 (bs ! 1) (bs ! 2))
           in if length bs < 3 + n then None else Some (take n (drop 3 bs), drop (3 + n) bs))"

interpretation control_frames: framing control_record split_record "\<lambda>ct. length ct < 65536"
proof (unfold_locales, goal_cases)
  case (1 ct r)
  have "(control_record ct @ r) ! i = control_record ct ! i" if "i < 3" for i
    using that by (simp add: nth_append record_parts(3) [OF 1])
  then show ?case using record_parts [OF 1] by (simp add: split_record_def Let_def)
qed

text \<open>
  One receiving call takes one frame. Only the first record in it is looked at; what is behind it in the
  same frame is dropped.
\<close>

lemma receive_first:
  assumes lib: "aead_lib lib" and t: "receiving timeout c (ws_frame None (control_record (noise_chachapoly_encrypt lib [] p c) @ extra) @ rest) t"
    and n: "nonce_ctr c \<noteq> NONCE_END" and l: "length p + length extra \<le> RECORD_MAX"
  shows "\<exists>t'. receive_plaintext lib timeout t = Some (True, p, t') \<and> receiving timeout (next_nonce c) rest t'
    \<and> http2 t' = http2 t \<and> next_stream_id t' = next_stream_id t"
proof -
  let ?ct = "noise_chachapoly_encrypt lib [] p c"
  have ct: "length ?ct = length p + MAC_LEN" by (rule length_chachapoly_encrypt [OF lib])
  then have short: "length ?ct < 65536" using l by (simp add: RECORD_MAX_def MAC_LEN_def)
  note rec = record_parts [OF short]
  obtain u s r where u: "upgrade_channel t = Some u" "flowing timeout u" "ws_pending u = ws_frame None (control_record ?ct @ extra) @ rest"
      "session t = Some s" "recv_cipher s = Some r" "in_step c r" "tr_stage t = kTransportReady"
    using t by (auto simp: receiving_def split: option.splits)
  have ne: "control_record ?ct @ extra \<noteq> []" by (simp add: control_record_def)
  moreover have "length (control_record ?ct @ extra) \<le> kPayloadMax" using l ct by (simp add: rec kPayloadMax_def RECORD_MAX_def MAC_LEN_def)
  ultimately obtain u' where u': "read_loop 8192 timeout u = Some (True, control_record ?ct @ extra, u')" "ws_pending u' = rest" "flowing timeout u'"
    using read_loop_frame [OF u(2) _ _ _ u(3), of 8192] by (auto simp: mask_ok_def)
  have "read_raw 8192 timeout u = Some (True, control_record ?ct @ extra, u')" using u'(1) u(2) by (simp add: read_raw_def flowing_def)
  moreover have "noise_cipherstate_decrypt lib ?ct (length ?ct) r = (NOISE_ERROR_NONE, p, next_nonce r)"
    unfolding ct by (rule open_sealed [OF lib u(6) n]) (use l in simp)
  moreover have "in_step (next_nonce c) (next_nonce r)" using in_step_next [OF u(6)] by (simp add: next_nonce_def)
  moreover have "(control_record ?ct @ extra) ! i = control_record ?ct ! i" if "i < 3" for i
    using that by (simp add: nth_append rec(3))
  ultimately show ?thesis using u u' rec ne
    by (simp add: receive_plaintext_def decrypt_payload_def receiving_def Let_def)
qed

lemma receive_one:
  assumes "aead_lib lib" "receiving timeout c (ws_frame None (control_record (noise_chachapoly_encrypt lib [] p c)) @ rest) t"
    and "nonce_ctr c \<noteq> NONCE_END" "length p \<le> RECORD_MAX"
  shows "\<exists>t'. receive_plaintext lib timeout t = Some (True, p, t') \<and> receiving timeout (next_nonce c) rest t'
    \<and> http2 t' = http2 t \<and> next_stream_id t' = next_stream_id t"
  using receive_first [OF assms(1) _ assms(3), of timeout p "[]" rest t] assms(2,4) by simp

text \<open>
  Two records in one frame: the second is lost, and the transport is afterwards one nonce behind the
  server, so that no later record verifies.
\<close>

lemma second_record_dropped:
  assumes "aead_lib lib" "nonce_ctr c \<noteq> NONCE_END" "length p + length q + 19 \<le> RECORD_MAX"
    and "receiving timeout c (ws_frame None (control_record (noise_chachapoly_encrypt lib [] p c)
        @ control_record (noise_chachapoly_encrypt lib [] q (next_nonce c))) @ rest) t"
  shows "\<exists>t'. receive_plaintext lib timeout t = Some (True, p, t') \<and> receiving timeout (next_nonce c) rest t'"
proof -
  have "length (control_record (noise_chachapoly_encrypt lib [] q (next_nonce c))) = length q + 19"
    using length_chachapoly_encrypt [OF assms(1), of "[]" q "next_nonce c"] by (simp add: control_record_def MAC_LEN_def)
  then show ?thesis using receive_first [OF assms(1,4,2)] assms(3) by auto
qed

lemma receiving_has_key: "receiving timeout c bs t \<Longrightarrow> has_key c"
  by (auto simp: receiving_def in_step_def split: option.splits)

definition nonces_after :: "nat \<Rightarrow> cipherstate \<Rightarrow> cipherstate" where
  "nonces_after n c = (next_nonce ^^ n) c"

lemma receive_records:
  assumes "aead_lib lib" "receiving timeout c (server_bytes lib c ps @ rest) t" "nonces_left (length ps) c"
    and "list_all (\<lambda>p. length p \<le> RECORD_MAX) ps"
  shows "\<exists>t'. receive_all lib timeout (length ps) t = Some (map Some ps, t') \<and> receiving timeout (nonces_after (length ps) c) rest t'
    \<and> http2 t' = http2 t \<and> next_stream_id t' = next_stream_id t"
  using assms(2-4)
proof (induction ps arbitrary: c t)
  case Nil
  then show ?case by (simp add: nonces_after_def)
next
  case (Cons p ps)
  have n: "nonce_ctr c \<noteq> NONCE_END" "nonces_left (length ps) (next_nonce c)" using nonce_end [of "length ps" c] Cons.prems(2) by simp_all
  have l: "length p \<le> RECORD_MAX" "list_all (\<lambda>p. length p \<le> RECORD_MAX) ps" using Cons.prems(3) by simp_all
  have r: "receiving timeout c (ws_frame None (control_record (noise_chachapoly_encrypt lib [] p c)) @ server_bytes lib (next_nonce c) ps @ rest) t"
    using Cons.prems(1) by (simp add: seal [OF assms(1) receiving_has_key [OF Cons.prems(1)] n(1) l(1)])
  obtain t1 where t1: "receive_plaintext lib timeout t = Some (True, p, t1)" "receiving timeout (next_nonce c) (server_bytes lib (next_nonce c) ps @ rest) t1"
      "http2 t1 = http2 t" "next_stream_id t1 = next_stream_id t"
    using receive_one [OF assms(1) r n(1) l(1)] by blast
  obtain t2 where t2: "receive_all lib timeout (length ps) t1 = Some (map Some ps, t2)"
      "receiving timeout (nonces_after (length ps) (next_nonce c)) rest t2" "http2 t2 = http2 t1" "next_stream_id t2 = next_stream_id t1"
    using Cons.IH [OF t1(2) n(2) l(2)] by blast
  have "nonces_after (length ps) (next_nonce c) = nonces_after (length (p # ps)) c"
    by (simp add: nonces_after_def funpow_swap1)
  then show ?case using t1 t2 by simp
qed

text \<open>
  C9. The messages a server encrypts, records and frames one by one come out of successive receiving
  calls in order and complete, wherever the TLS records cut the stream, and the two sides' nonces are in
  step for the next.
\<close>

theorem records_delivered:
  assumes "aead_lib lib" "receiving timeout c (server_bytes lib c ps @ rest) t" "nonces_left (length ps) c"
    and "list_all (\<lambda>p. length p \<le> RECORD_MAX) ps"
  shows "\<exists>t'. receive_all lib timeout (length ps) t = Some (map Some ps, t') \<and> receiving timeout (nonces_after (length ps) c) rest t'"
  using receive_records [OF assms] by blast

definition ready_transport :: "cipherstate \<Rightarrow> bytes \<Rightarrow> nat \<Rightarrow> transport" where
  "ready_transport c bs k = transport_new\<lparr>tr_stage := kTransportReady,
     session := Some \<lparr>handshake_state = None, send_cipher = Some c, recv_cipher = Some c\<rparr>,
     upgrade_channel := Some ((upgrade_new [Received (take k bs), Want, Received (drop k bs)] (replicate 200 (Some 7)))
       \<lparr>tls_open := True, upgrade_complete := True\<rparr>)\<rparr>"

lemma ready_receiving:
  assumes "0 < k" "k < length bs" "has_key c" "5 < timeout"
  shows "receiving timeout c bs (ready_transport c bs k)"
proof -
  have "take k bs \<noteq> []" "drop k bs \<noteq> []" using assms(1,2) by auto
  then show ?thesis using assms(3,4)
    by (simp add: ready_transport_def receiving_def in_step_def flowing_def upgrade_new_def ws_pending_def)
qed

lemma length_server_bytes:
  "aead_lib lib \<Longrightarrow> has_key c \<Longrightarrow> nonce_ctr c \<noteq> NONCE_END \<Longrightarrow> length p \<le> RECORD_MAX \<Longrightarrow> 20 \<le> length (server_bytes lib c (p # ps))"
  by (simp add: seal length_ws_frame mask_ok_def control_record_def length_chachapoly_encrypt) (simp add: MAC_LEN_def)

definition two_messages :: "bytes list" where
  "two_messages = [[1, 2], [3]]"

theorem records_delivered_witness:
  "\<exists>t'. receive_all toy_sodium 500 (length two_messages) (ready_transport (keyed (replicate 32 8)) (server_bytes toy_sodium (keyed (replicate 32 8)) two_messages @ []) 7)
      = Some (map Some two_messages, t') \<and> receiving 500 (nonces_after (length two_messages) (keyed (replicate 32 8))) [] t'"
proof (rule records_delivered [OF toy_aead])
  have "20 \<le> length (server_bytes toy_sodium (keyed (replicate 32 8)) two_messages)"
    unfolding two_messages_def by (rule length_server_bytes [OF toy_aead]) (simp_all add: keyed_def NONCE_END_def RECORD_MAX_def)
  then show "receiving 500 (keyed (replicate 32 8)) (server_bytes toy_sodium (keyed (replicate 32 8)) two_messages @ [])
      (ready_transport (keyed (replicate 32 8)) (server_bytes toy_sodium (keyed (replicate 32 8)) two_messages @ []) 7)"
    by (intro ready_receiving) (simp_all add: keyed_def del: server_bytes.simps)
qed (simp_all add: nonces_left_def keyed_def RECORD_MAX_def two_messages_def)

section \<open>Records to the server\<close>

text \<open>The server takes a number of frames, each with one record, and decrypts them.\<close>

fun server_reads :: "sodium \<Rightarrow> cipherstate \<Rightarrow> nat \<Rightarrow> bytes \<Rightarrow> bytes list option" where
  "server_reads lib r 0 bs = (if bs = [] then Some [] else None)"
| "server_reads lib r (Suc n) bs =
     (case decode_websocket_frame bs of None \<Rightarrow> None
      | Some (framed, consumed) \<Rightarrow>
          if consumed = 0 then None
          else case split_record framed of None \<Rightarrow> None
          | Some (ct, _) \<Rightarrow>
              (case noise_cipherstate_decrypt lib ct (length ct) r of (err, p, r) \<Rightarrow>
                 if err \<noteq> NOISE_ERROR_NONE then None
                 else map_option (Cons p) (server_reads lib r n (drop consumed bs))))"

definition sending :: "cipherstate \<Rightarrow> nat \<Rightarrow> bytes \<Rightarrow> transport \<Rightarrow> bool" where
  "sending r rm bs t \<longleftrightarrow> tr_stage t = kTransportReady
     \<and> (case session t of None \<Rightarrow> False | Some s \<Rightarrow> (case send_cipher s of None \<Rightarrow> False | Some c \<Rightarrow> in_step c r))
     \<and> (case upgrade_channel t of None \<Rightarrow> False
        | Some u \<Rightarrow> tls_open u \<and> upgrade_complete u \<and> writable rm u \<and> tls_sent u = bs)"

definition wire_room :: "bytes list \<Rightarrow> nat" where
  "wire_room ps = sum_list (map (\<lambda>p. length p + 27) ps)"

lemma send_one:
  assumes lib: "aead_lib lib" and t: "sending r (length p + 27 + rm) bs t"
    and n: "nonce_ctr r \<noteq> NONCE_END" and l: "length p \<le> RECORD_MAX" "p \<noteq> []"
  shows "\<exists>t' k. send_plaintext lib rnd p t = Some (True, t')
    \<and> sending (next_nonce r) rm (bs @ ws_frame (Some k) (control_record (noise_chachapoly_encrypt lib [] p r))) t' \<and> length k = 4"
proof -
  obtain u s c where u: "upgrade_channel t = Some u" "tls_open u" "upgrade_complete u" "writable (length p + 27 + rm) u" "tls_sent u = bs"
      "session t = Some s" "send_cipher s = Some c" "in_step c r" "tr_stage t = kTransportReady"
    using t by (auto simp: sending_def split: option.splits)
  let ?ct = "noise_chachapoly_encrypt lib [] p r"
  have same: "noise_chachapoly_encrypt lib [] p c = ?ct" using u(8) by (simp add: noise_chachapoly_encrypt_def in_step_def)
  have ct: "length ?ct = length p + 16" using length_chachapoly_encrypt [OF lib, of "[]" p r] by (simp add: MAC_LEN_def)
  then have short: "length ?ct < 65536" using l by (simp add: RECORD_MAX_def)
  have rec: "control_record ?ct \<noteq> []" "length (control_record ?ct) = length p + 19"
    using record_parts(3) [OF short] ct by (auto simp: control_record_def)
  have e: "noise_cipherstate_encrypt lib p (length p + MAC_LEN) c = (NOISE_ERROR_NONE, ?ct, next_nonce c)"
    using seal [OF lib _ _ l(1), of c] u(8) n by (simp add: same in_step_def)
  obtain u' where u': "write_raw rnd (control_record ?ct) u = Some (True, u')"
      "tls_sent u' = bs @ ws_frame (Some (rand8 rnd (ws_draws u) 4)) (control_record ?ct)" "writable rm u'" "tls_open u'" "upgrade_complete u'"
  proof -
    have "length (control_record ?ct) < 65536" using rec l by (simp add: RECORD_MAX_def)
    moreover have "writable (length (control_record ?ct) + 8 + rm) u" using u(4) rec by (simp add: writable_def)
    ultimately obtain v where v: "write_raw rnd (control_record ?ct) u = Some (True, v)"
        "tls_sent v = tls_sent u @ ws_frame (Some (rand8 rnd (ws_draws u) 4)) (control_record ?ct)" "writable rm v"
        "v = u\<lparr>ws_draws := ws_draws v, tls_writes := tls_writes v, tls_sent := tls_sent v\<rparr>"
      using write_raw_frame [OF u(2,3) rec(1)] by metis
    have "tls_open v" "upgrade_complete v" using u(2,3) by (subst v(4), simp)+
    then show thesis using v u(5) by (intro that [of v]) simp_all
  qed
  have "in_step (next_nonce c) (next_nonce r)" using in_step_next [OF u(8)] by (simp add: next_nonce_def)
  then show ?thesis using u u' e l(2)
    by (intro exI [of _ "t\<lparr>tx_count := tx_count t + 1, session := Some (s\<lparr>send_cipher := Some (next_nonce c)\<rparr>), upgrade_channel := Some u'\<rparr>"]
        exI [of _ "rand8 rnd (ws_draws u) 4"]) (simp add: send_plaintext_def encrypt_payload_def sending_def Let_def)
qed

lemma server_takes_one:
  assumes lib: "aead_lib lib" and r: "has_key r" and n: "nonce_ctr r \<noteq> NONCE_END" and l: "length p \<le> RECORD_MAX" and k: "length k = 4"
  shows "server_reads lib r (Suc n) (ws_frame (Some k) (control_record (noise_chachapoly_encrypt lib [] p r)) @ bs)
    = map_option (Cons p) (server_reads lib (next_nonce r) n bs)"
proof -
  let ?ct = "noise_chachapoly_encrypt lib [] p r"
  have ct: "length ?ct = length p + MAC_LEN" by (rule length_chachapoly_encrypt [OF lib])
  then have short: "length ?ct < 65536" using l by (simp add: RECORD_MAX_def MAC_LEN_def)
  have "decode_websocket_frame (ws_frame (Some k) (control_record ?ct) @ bs) = Some (control_record ?ct, length (ws_frame (Some k) (control_record ?ct)))"
    using l ct record_parts(3) [OF short] by (intro decode_whole) (simp_all add: mask_ok_def k kPayloadMax_def RECORD_MAX_def MAC_LEN_def)
  moreover have "split_record (control_record ?ct) = Some (?ct, [])" using control_frames.dec_enc [OF short, of "[]"] by simp
  moreover have "noise_cipherstate_decrypt lib ?ct (length ?ct) r = (NOISE_ERROR_NONE, p, next_nonce r)"
    unfolding ct by (rule open_sealed [OF lib _ n l]) (simp add: in_step_def r)
  moreover have "length (ws_frame (Some k) (control_record ?ct)) \<noteq> 0" by (simp add: ws_frame_split)
  ultimately show ?thesis by simp
qed

lemma send_records:
  assumes "aead_lib lib" "sending r (wire_room ps) bs t" "nonces_left (length ps) r" "list_all (\<lambda>p. p \<noteq> [] \<and> length p \<le> RECORD_MAX) ps"
  shows "\<exists>t' u' out. send_all lib rnd ps t = Some (replicate (length ps) True, t') \<and> upgrade_channel t' = Some u'
    \<and> tls_sent u' = bs @ out \<and> server_reads lib r (length ps) out = Some ps"
  using assms(2-4)
proof (induction ps arbitrary: r bs t)
  case Nil
  then show ?case by (auto simp: sending_def split: option.splits)
next
  case (Cons p ps)
  have n: "nonce_ctr r \<noteq> NONCE_END" "nonces_left (length ps) (next_nonce r)" using nonce_end [of "length ps" r] Cons.prems(2) by simp_all
  have l: "length p \<le> RECORD_MAX" "p \<noteq> []" "list_all (\<lambda>p. p \<noteq> [] \<and> length p \<le> RECORD_MAX) ps" using Cons.prems(3) by simp_all
  have rm: "sending r (length p + 27 + wire_room ps) bs t" using Cons.prems(1) by (simp add: wire_room_def)
  have key: "has_key r" using Cons.prems(1) by (auto simp: sending_def in_step_def split: option.splits)
  obtain t1 k where t1: "send_plaintext lib rnd p t = Some (True, t1)" "length k = 4"
      "sending (next_nonce r) (wire_room ps) (bs @ ws_frame (Some k) (control_record (noise_chachapoly_encrypt lib [] p r))) t1"
    using send_one [OF assms(1) rm n(1) l(1,2)] by blast
  obtain t2 u2 out where t2: "send_all lib rnd ps t1 = Some (replicate (length ps) True, t2)" "upgrade_channel t2 = Some u2"
      "tls_sent u2 = (bs @ ws_frame (Some k) (control_record (noise_chachapoly_encrypt lib [] p r))) @ out"
      "server_reads lib (next_nonce r) (length ps) out = Some ps"
    using Cons.IH [OF t1(3) n(2) l(3)] by blast
  have "server_reads lib r (length (p # ps)) (ws_frame (Some k) (control_record (noise_chachapoly_encrypt lib [] p r)) @ out) = Some (p # ps)"
    using server_takes_one [OF assms(1) key n(1) l(1) t1(2), of "length ps" out] t2(4) by (simp del: server_reads.simps)
  then show ?case using t1(1) t2(1-3)
    by (intro exI [of _ t2] exI [of _ u2] exI [of _ "ws_frame (Some k) (control_record (noise_chachapoly_encrypt lib [] p r)) @ out"])
       (simp del: server_reads.simps)
qed

text \<open>
  C10. What the transport sends for a list of messages is what a server in step takes apart into the
  same messages: as many frames, in each one record, in each one ciphertext under the next nonce.
\<close>

theorem records_sent:
  assumes "aead_lib lib" "sending r (wire_room ps) bs t" "nonces_left (length ps) r" "list_all (\<lambda>p. p \<noteq> [] \<and> length p \<le> RECORD_MAX) ps"
  shows "\<exists>t' u' out. send_all lib rnd ps t = Some (replicate (length ps) True, t') \<and> upgrade_channel t' = Some u'
    \<and> tls_sent u' = bs @ out \<and> server_reads lib r (length ps) out = Some ps"
  using assms by (rule send_records)

theorem records_sent_witness:
  "\<exists>t' u' out. send_all toy_sodium (\<lambda>i. word_of_nat i) two_messages (ready_transport (keyed (replicate 32 8)) [7] 1)
      = Some (replicate (length two_messages) True, t') \<and> upgrade_channel t' = Some u'
    \<and> tls_sent u' = [] @ out \<and> server_reads toy_sodium (keyed (replicate 32 8)) (length two_messages) out = Some two_messages"
  by (rule records_sent [OF toy_aead])
     (simp_all add: sending_def ready_transport_def in_step_def keyed_def upgrade_new_def writable_def wire_room_def two_messages_def
       nonces_left_def RECORD_MAX_def list_all_iff)

section \<open>A response through all layers\<close>

definition response_chunks :: "u32 \<Rightarrow> bytes \<Rightarrow> string list \<Rightarrow> u8 \<Rightarrow> string \<Rightarrow> bytes list" where
  "response_chunks sid block ps fl q =
     frame_bytes (response_headers sid block) # map (\<lambda>p. frame_bytes (response_data sid 0 p)) ps @ [frame_bytes (response_data sid fl q)]"

lemma length_response_chunks: "length (response_chunks sid block ps fl q) = length ps + 2"
  by (simp add: response_chunks_def)

lemma map_Some_chunks:
  "map Some (response_chunks sid block ps fl q) = Some (frame_bytes (response_headers sid block))
     # map (\<lambda>p. Some (frame_bytes (response_data sid 0 p))) ps @ Some (frame_bytes (response_data sid fl q)) # []"
  by (simp add: response_chunks_def)


definition sample_chunks :: "bytes list" where
  "sample_chunks = response_chunks 1 (response_block [(''date'', ''now'')] 200) [take 60 (render (JObj sample_fields))] 1 (drop 60 (render (JObj sample_fields)))"

definition sample_cipher :: cipherstate where
  "sample_cipher = keyed (replicate 32 8)"

definition sample_channel :: transport where
  "sample_channel = (ready_transport sample_cipher (server_bytes toy_sodium sample_cipher sample_chunks) 7)
     \<lparr>http2 := Some ((idle_session (map Some sample_chunks))\<lparr>settings_exchanged := True\<rparr>)\<rparr>"

lemma sample_chunks_small: "list_all (\<lambda>p. length p \<le> RECORD_MAX) sample_chunks"
proof -
  have "length (response_block [(''date'', ''now'')] 200) \<le> 100"
    by (simp add: response_block_def encode_literal_header_def encode_string_literal_def show_nat.simps)
  then show ?thesis
    using length_sample
    by (simp add: sample_chunks_def response_chunks_def response_headers_def response_data_def RECORD_MAX_def del: render.simps)
qed

lemma sample_cipher_ok: "has_key sample_cipher" "nonce_ctr sample_cipher = 0"
  by (simp_all add: sample_cipher_def keyed_def)

lemma sample_channel_receiving: "receiving 500 sample_cipher (server_bytes toy_sodium sample_cipher sample_chunks @ []) sample_channel"
proof -
  obtain p ps where p: "sample_chunks = p # ps" by (cases sample_chunks) (simp_all add: sample_chunks_def response_chunks_def)
  have "length p \<le> RECORD_MAX" using sample_chunks_small by (simp add: p)
  then have "20 \<le> length (server_bytes toy_sodium sample_cipher sample_chunks)"
    unfolding p by (intro length_server_bytes [OF toy_aead]) (simp_all add: sample_cipher_ok NONCE_END_def)
  then have "receiving 500 sample_cipher (server_bytes toy_sodium sample_cipher sample_chunks)
      (ready_transport sample_cipher (server_bytes toy_sodium sample_cipher sample_chunks) 7)"
    by (intro ready_receiving) (simp_all add: sample_cipher_ok)
  then show ?thesis by (simp add: sample_channel_def receiving_def)
qed


end
