(* ===== verification/Io_Task.thy ===== *)
theory Io_Task
  imports Packet_Router
begin

text \<open>
  The receiving task of \<^verbatim>\<open>tailscale.cpp\<close> and what it shares with the main loop:
  \<^verbatim>\<open>setup_unified_socket_\<close>, \<^verbatim>\<open>start_io_task_\<close>,
  \<^verbatim>\<open>stop_io_task_\<close>, \<^verbatim>\<open>io_task_func_\<close>,
  \<^verbatim>\<open>process_packet_queue_\<close> and the parser of ICMP messages.

  The two threads share a pool of eight buffers and two queues of pointers to them. A buffer is a
  position in the pool, a queue a list with room for eight. Each thread has a program counter
  that also says which buffer it holds; a step goes from one call that touches shared state to the
  next, and \<open>io_run\<close> interleaves the steps of both in any order. What the network does is an
  argument of the step: the outcome of \<^verbatim>\<open>select\<close> and of \<^verbatim>\<open>recvfrom\<close>.
  \<^verbatim>\<open>stop_io_task_\<close> waits up to a second; its wait is taken to end with the task.
\<close>

section \<open>State\<close>

definition MAX_PACKET_SIZE :: nat where "MAX_PACKET_SIZE = 1536"
definition PACKET_POOL_SIZE :: nat where "PACKET_POOL_SIZE = 8"
definition MAX_PACKETS_PER_LOOP :: nat where "MAX_PACKETS_PER_LOOP = 20"

record packet_buffer =
  pb_data :: bytes
  pb_len :: nat
  pb_addr :: bytes
  pb_port :: u16
  pb_source :: int

record nat_discovery =
  nd_active :: bool
  nd_peer_ip :: string
  nd_peer_port :: u16
  nd_current_ttl :: u8
  nd_last_probe :: u32
  nd_discovered_port :: u16
  nd_disco_key :: string

text \<open>
  Where each thread is. The task: before \<^verbatim>\<open>select\<close>; at the head of the inner loop, with the
  sockets still to drain; with a free buffer in hand; with one to give back; with a filled one.
\<close>

datatype task_pc = Task_select | Task_drain "int list" | Task_recv nat "int list" | Task_return nat "int list"
  | Task_file nat "int list" | Task_ended

datatype loop_pc = Loop_idle | Loop_head nat | Loop_have nat nat | Loop_stopping

record 'd io =
  unified_socket :: int
  icmp_socket :: int
  packet_pool :: "packet_buffer list"
  free_made :: bool
  ready_made :: bool
  free_queue :: "nat list"
  ready_queue :: "nat list"
  task_handle :: bool
  io_task_running :: bool
  control_plane_data_available :: bool
  monitor_tcp :: bool
  task_pc :: task_pc
  loop_pc :: loop_pc
  nat_state :: nat_discovery
  io_node :: "'d node"

text \<open>What a run shows: a datagram taken into a buffer or dropped by the task, one handled by the main loop.\<close>

datatype io_event = Received int bytes bytes u16 | Dropped int | Handled int bytes bytes u16

section \<open>Queues\<close>

definition queue_send :: "nat \<Rightarrow> nat list \<Rightarrow> bool \<times> nat list" where
  "queue_send b q = (if length q < PACKET_POOL_SIZE then (True, q @ [b]) else (False, q))"

definition queue_receive :: "nat list \<Rightarrow> (nat \<times> nat list) option" where
  "queue_receive q = (case q of [] \<Rightarrow> None | b # q \<Rightarrow> Some (b, q))"

definition give_back :: "nat \<Rightarrow> 'd io \<Rightarrow> 'd io" where
  "give_back b s = s\<lparr>free_queue := snd (queue_send b (free_queue s))\<rparr>"

section \<open>Start and stop\<close>

definition new_buffer :: packet_buffer where
  "new_buffer = \<lparr>pb_data = replicate MAX_PACKET_SIZE 0, pb_len = 0, pb_addr = replicate 4 0, pb_port = 0, pb_source = 0\<rparr>"

text \<open>A failed allocation leaves a smaller pool.\<close>

definition alloc_buffer :: "bool \<Rightarrow> 'd io \<Rightarrow> 'd io" where
  "alloc_buffer ok s =
     (if \<not> ok then s else give_back (length (packet_pool s)) (s\<lparr>packet_pool := packet_pool s @ [new_buffer]\<rparr>))"

definition start_io_task :: "bool \<Rightarrow> 'd io \<Rightarrow> 'd io" where
  "start_io_task created s =
     (if task_handle s then s
      else if created then s\<lparr>io_task_running := True, task_handle := True, task_pc := Task_select\<rparr>
      else s\<lparr>io_task_running := False\<rparr>)"

record setup_env =
  env_socket :: int
  env_bind :: bool
  env_free :: bool
  env_ready :: bool
  env_alloc :: "nat \<Rightarrow> bool"
  env_task :: bool

definition setup_unified_socket :: "setup_env \<Rightarrow> 'd io \<Rightarrow> 'd io" where
  "setup_unified_socket e s =
     (if unified_socket s \<noteq> -1 then s
      else let s = s\<lparr>unified_socket := env_socket e\<rparr> in
        if env_socket e < 0 then s
        else if \<not> env_bind e then s\<lparr>unified_socket := -1\<rparr>
        else let s = s\<lparr>free_made := env_free e, ready_made := env_ready e\<rparr> in
          if \<not> free_made s \<or> \<not> ready_made s then s
          else start_io_task (env_task e) (fold (\<lambda>i. alloc_buffer (env_alloc e i)) [0..<PACKET_POOL_SIZE] s))"

definition setup_icmp_socket :: "int \<Rightarrow> 'd io \<Rightarrow> 'd io" where
  "setup_icmp_socket fd s = (if icmp_socket s \<noteq> -1 then s else s\<lparr>icmp_socket := fd\<rparr>)"

definition stop_request :: "'d io \<Rightarrow> 'd io" where
  "stop_request s = (if \<not> task_handle s then s else s\<lparr>io_task_running := False, loop_pc := Loop_stopping\<rparr>)"

definition stop_finish :: "'d io \<Rightarrow> 'd io" where
  "stop_finish s = s\<lparr>task_handle := False, loop_pc := Loop_idle\<rparr>"

section \<open>The task\<close>

text \<open>
  The outcome of \<^verbatim>\<open>select\<close>: the sockets that can be read, and whether the control
  connection can. An error or a time-out reports neither.
\<close>

type_synonym readable = "int list \<times> bool"
type_synonym datagram = "bytes \<times> bytes \<times> u16"

definition monitored :: "'d io \<Rightarrow> int list" where
  "monitored s = filter (\<lambda>k. k \<ge> 0) [unified_socket s, icmp_socket s]"

definition after_select :: "readable \<Rightarrow> 'd io \<Rightarrow> 'd io" where
  "after_select r s =
     (let s = (if snd r \<and> monitor_tcp s then s\<lparr>control_plane_data_available := True, monitor_tcp := False\<rparr> else s)
      in s\<lparr>task_pc := Task_drain (filter (\<lambda>k. k \<in> set (fst r)) (monitored s))\<rparr>)"

text \<open>\<^verbatim>\<open>recvfrom\<close> into a buffer: the start of the data is overwritten, the rest stays.\<close>

definition fill_buffer :: "datagram \<Rightarrow> packet_buffer \<Rightarrow> packet_buffer" where
  "fill_buffer g b = (case g of (d, a, p) \<Rightarrow>
     let d = take MAX_PACKET_SIZE d in b\<lparr>pb_data := d @ drop (length d) (pb_data b), pb_addr := a, pb_port := p\<rparr>)"

definition set_buffer :: "nat \<Rightarrow> packet_buffer \<Rightarrow> 'd io \<Rightarrow> 'd io" where
  "set_buffer i b s = s\<lparr>packet_pool := (packet_pool s)[i := b]\<rparr>"

definition recv_into :: "int \<Rightarrow> datagram option \<Rightarrow> nat \<Rightarrow> int list \<Rightarrow> 'd io \<Rightarrow> 'd io" where
  "recv_into k g b ks s =
     (case g of None \<Rightarrow> s\<lparr>task_pc := Task_return b ks\<rparr>
      | Some g \<Rightarrow>
         (let s = set_buffer b (fill_buffer g (packet_pool s ! b)) s in
          if fst g = [] then s\<lparr>task_pc := Task_return b ks\<rparr>
          else (set_buffer b ((packet_pool s ! b)\<lparr>pb_len := min (length (fst g)) MAX_PACKET_SIZE, pb_source := k\<rparr>) s)
                 \<lparr>task_pc := Task_file b (k # ks)\<rparr>))"

definition contents :: "'d io \<Rightarrow> nat \<Rightarrow> int \<times> bytes \<times> bytes \<times> u16" where
  "contents s b = (let p = packet_pool s ! b in (pb_source p, take (pb_len p) (pb_data p), pb_addr p, pb_port p))"

definition handled :: "int \<times> bytes \<times> bytes \<times> u16 \<Rightarrow> io_event" where
  "handled = (\<lambda>(k, d, a, p). Handled k d a p)"

definition task_step :: "readable \<Rightarrow> datagram option \<Rightarrow> 'd io \<Rightarrow> 'd io \<times> io_event list" where
  "task_step r g s =
     (case task_pc s of
        Task_select \<Rightarrow> (if \<not> io_task_running s then s\<lparr>task_pc := Task_ended\<rparr> else after_select r s, [])
      | Task_drain [] \<Rightarrow> (s\<lparr>task_pc := Task_select\<rparr>, [])
      | Task_drain (k # ks) \<Rightarrow>
          (if \<not> io_task_running s then (s\<lparr>task_pc := Task_drain ks\<rparr>, [])
           else (case queue_receive (free_queue s) of
                   None \<Rightarrow> (s\<lparr>task_pc := Task_drain ks\<rparr>, if g = None then [] else [Dropped k])
                 | Some (b, q) \<Rightarrow> (s\<lparr>free_queue := q, task_pc := Task_recv b (k # ks)\<rparr>, [])))
      | Task_recv b (k # ks) \<Rightarrow>
          (recv_into k g b ks s, case g of Some (d, a, p) \<Rightarrow> if d = [] then [] else [Received k d a p] | None \<Rightarrow> [])
      | Task_recv b [] \<Rightarrow> (s, [])
      | Task_return b ks \<Rightarrow> ((give_back b s)\<lparr>task_pc := Task_drain ks\<rparr>, [])
      | Task_file b ks \<Rightarrow>
          (case queue_send b (ready_queue s) of
             (True, q) \<Rightarrow> (s\<lparr>ready_queue := q, task_pc := Task_drain ks\<rparr>, [])
           | (False, _) \<Rightarrow> ((give_back b s)\<lparr>task_pc := Task_drain ks\<rparr>, [Dropped (pb_source (packet_pool s ! b))]))
      | Task_ended \<Rightarrow> (s, []))"

section \<open>ICMP\<close>

text \<open>The source port and the destination address of the datagram an ICMP message quotes.\<close>

definition parse_icmp_time_exceeded :: "bytes \<Rightarrow> (u16 \<times> u32) option" where
  "parse_icmp_time_exceeded p =
     (if length p < 36 then None
      else if p ! 0 \<noteq> 11 then None
      else let ip = drop 8 p in
        if drop_bit 4 (ip ! 0) \<noteq> 4 then None
        else if ip ! 9 \<noteq> 17 then None
        else let hl = unat (ip ! 0 AND 0x0F) * 4 in
          if length p < 8 + hl + 4 then None
          else Some (get_be16 (ip ! hl) (ip ! (hl + 1)), get_be32 (ip ! 16) (ip ! 17) (ip ! 18) (ip ! 19)))"

definition icmp_of_raw :: "bytes \<Rightarrow> (u16 \<times> u32) option" where
  "icmp_of_raw p =
     (if length p < 20 then None
      else let hl = unat (p ! 0 AND 0x0F) * 4 in
        if length p < hl + 8 then None else parse_icmp_time_exceeded (drop hl p))"

definition nat_port_found :: "'d world \<Rightarrow> u16 \<Rightarrow> 'd io \<Rightarrow> 'd io" where
  "nat_port_found w port s =
     (let nd = nat_state s in
      if nd_active nd \<and> nd_current_ttl nd = 1
      then s\<lparr>nat_state := nd\<lparr>nd_discovered_port := port, nd_active := False\<rparr>,
             io_node := (io_node s)\<lparr>ds := send_disco_ping (w_seal w) (w_b64d w) (w_fill w)
                          (nd_peer_ip nd) (nd_peer_port nd) (nd_disco_key nd) (ds (io_node s))\<rparr>\<rparr>
      else s)"

section \<open>The main loop's half\<close>

text \<open>
  The bytes behind a datagram are what the buffer held before, which is what the STUN parser
  reads when a length field exceeds the datagram.
\<close>

definition handle_buffer :: "'d world \<Rightarrow> nat \<Rightarrow> 'd io \<Rightarrow> 'd io" where
  "handle_buffer w b s =
     (let p = packet_pool s ! b; d = take (pb_len p) (pb_data p) in
      if pb_source p = unified_socket s
      then s\<lparr>io_node := route_incoming_packet
               (w\<lparr>w_stale := (\<lambda>i. if i < length (pb_data p) then pb_data p ! i else w_stale w i)\<rparr>)
               d (pb_addr p) (pb_port p) (io_node s)\<rparr>
      else if pb_source p = icmp_socket s
      then (case icmp_of_raw d of None \<Rightarrow> s | Some (port, _) \<Rightarrow> nat_port_found w port s)
      else s)"

definition process_enter :: "'d io \<Rightarrow> 'd io" where
  "process_enter s = (if ready_made s then s\<lparr>loop_pc := Loop_head 0\<rparr> else s)"

definition loop_step :: "'d world \<Rightarrow> 'd io \<Rightarrow> 'd io \<times> io_event list" where
  "loop_step w s =
     (case loop_pc s of
        Loop_head n \<Rightarrow>
          (if n \<ge> MAX_PACKETS_PER_LOOP then (s\<lparr>loop_pc := Loop_idle\<rparr>, [])
           else (case queue_receive (ready_queue s) of
                   None \<Rightarrow> (s\<lparr>loop_pc := Loop_idle\<rparr>, [])
                 | Some (b, q) \<Rightarrow> (s\<lparr>ready_queue := q, loop_pc := Loop_have (n + 1) b\<rparr>, [])))
      | Loop_have n b \<Rightarrow> ((give_back b (handle_buffer w b s))\<lparr>loop_pc := Loop_head n\<rparr>, [handled (contents s b)])
      | _ \<Rightarrow> (s, []))"

text \<open>The calls the main loop makes when it is not in one of them.\<close>

definition discover_nat_port_for_peer :: "string \<Rightarrow> u16 \<Rightarrow> 'd io \<Rightarrow> 'd io" where
  "discover_nat_port_for_peer ip port s =
     (if unified_socket s < 0 \<or> icmp_socket s < 0 then s
      else s\<lparr>nat_state := (nat_state s)\<lparr>nd_active := True, nd_peer_ip := ip, nd_peer_port := port,
               nd_current_ttl := 1, nd_last_probe := 0, nd_discovered_port := 0\<rparr>\<rparr>)"

definition io_new :: "'d node \<Rightarrow> 'd io" where
  "io_new n = \<lparr>unified_socket = -1, icmp_socket = -1, packet_pool = [], free_made = False, ready_made = False,
     free_queue = [], ready_queue = [], task_handle = False, io_task_running = False,
     control_plane_data_available = False, monitor_tcp = True, task_pc = Task_ended, loop_pc = Loop_idle,
     nat_state = \<lparr>nd_active = False, nd_peer_ip = [], nd_peer_port = 0, nd_current_ttl = 1, nd_last_probe = 0,
                  nd_discovered_port = 0, nd_disco_key = []\<rparr>, io_node = n\<rparr>"

text \<open>
  A run of the two threads from \<open>s0\<close>, with what it shows. The last rule is what the rest of the
  main loop does to the fields the task does not use.
\<close>

inductive io_run :: "'d io \<Rightarrow> io_event list \<Rightarrow> 'd io \<Rightarrow> bool" for s0 where
  init: "io_run s0 [] s0"
| task: "io_run s0 tr s \<Longrightarrow> task_handle s \<Longrightarrow> task_step r g s = (s', e) \<Longrightarrow> io_run s0 (tr @ e) s'"
| loop: "io_run s0 tr s \<Longrightarrow> loop_step w s = (s', e) \<Longrightarrow> io_run s0 (tr @ e) s'"
| enter: "io_run s0 tr s \<Longrightarrow> loop_pc s = Loop_idle \<Longrightarrow> io_run s0 tr (process_enter s)"
| open_udp: "io_run s0 tr s \<Longrightarrow> loop_pc s = Loop_idle \<Longrightarrow> io_run s0 tr (setup_unified_socket env s)"
| open_icmp: "io_run s0 tr s \<Longrightarrow> loop_pc s = Loop_idle \<Longrightarrow> io_run s0 tr (setup_icmp_socket fd s)"
| stop: "io_run s0 tr s \<Longrightarrow> loop_pc s = Loop_idle \<Longrightarrow> io_run s0 tr (stop_request s)"
| stopped: "io_run s0 tr s \<Longrightarrow> loop_pc s = Loop_stopping \<Longrightarrow> task_pc s = Task_ended \<Longrightarrow> io_run s0 tr (stop_finish s)"
| restart: "io_run s0 tr s \<Longrightarrow> loop_pc s = Loop_idle \<Longrightarrow> free_made s \<Longrightarrow> ready_made s \<Longrightarrow>
     io_run s0 tr (start_io_task ok s)"
| control: "io_run s0 tr s \<Longrightarrow> loop_pc s = Loop_idle \<Longrightarrow>
     io_run s0 tr (s\<lparr>monitor_tcp := m, control_plane_data_available := c, nat_state := nd, io_node := n\<rparr>)"

section \<open>Where the buffers are\<close>

fun task_held :: "task_pc \<Rightarrow> nat list" where
  "task_held (Task_recv b ks) = [b]"
| "task_held (Task_return b ks) = [b]"
| "task_held (Task_file b ks) = [b]"
| "task_held _ = []"

fun loop_held :: "loop_pc \<Rightarrow> nat list" where
  "loop_held (Loop_have n b) = [b]"
| "loop_held _ = []"

definition places :: "'d io \<Rightarrow> nat list" where
  "places s = free_queue s @ ready_queue s @ task_held (task_pc s) @ loop_held (loop_pc s)"

text \<open>The filled buffers, in the order they were filled.\<close>

fun task_filled :: "task_pc \<Rightarrow> nat list" where
  "task_filled (Task_file b ks) = [b]"
| "task_filled _ = []"

definition filled :: "'d io \<Rightarrow> nat list" where
  "filled s = loop_held (loop_pc s) @ ready_queue s @ task_filled (task_pc s)"

fun task_at_recv :: "task_pc \<Rightarrow> bool" where
  "task_at_recv (Task_recv b ks) \<longleftrightarrow> ks \<noteq> []"
| "task_at_recv _ \<longleftrightarrow> True"

definition buffer_ok :: "packet_buffer \<Rightarrow> bool" where
  "buffer_ok p \<longleftrightarrow> length (pb_data p) = MAX_PACKET_SIZE \<and> pb_len p \<le> MAX_PACKET_SIZE"

definition io_inv :: "'d io \<Rightarrow> bool" where
  "io_inv s \<longleftrightarrow> distinct (places s) \<and> set (places s) = {..<length (packet_pool s)}
     \<and> length (packet_pool s) \<le> PACKET_POOL_SIZE \<and> list_all buffer_ok (packet_pool s)
     \<and> task_at_recv (task_pc s) \<and> (task_handle s \<or> task_pc s = Task_ended)
     \<and> (unified_socket s = -1 \<longrightarrow> packet_pool s = [])"

definition pending :: "'d io \<Rightarrow> (int \<times> bytes \<times> bytes \<times> u16) list" where
  "pending s = map (contents s) (filled s)"

text \<open>What of a run reached a buffer, as the main loop will see it; and what the main loop handled.\<close>

fun received_in :: "io_event list \<Rightarrow> (int \<times> bytes \<times> bytes \<times> u16) list" where
  "received_in [] = []"
| "received_in (Received k d a p # tr) = (k, take MAX_PACKET_SIZE d, a, p) # received_in tr"
| "received_in (_ # tr) = received_in tr"

fun handled_in :: "io_event list \<Rightarrow> (int \<times> bytes \<times> bytes \<times> u16) list" where
  "handled_in [] = []"
| "handled_in (Handled k d a p # tr) = (k, d, a, p) # handled_in tr"
| "handled_in (_ # tr) = handled_in tr"

lemma received_in_append [simp]: "received_in (xs @ ys) = received_in xs @ received_in ys"
  by (induction xs rule: received_in.induct) auto

lemma handled_in_append [simp]: "handled_in (xs @ ys) = handled_in xs @ handled_in ys"
  by (induction xs rule: handled_in.induct) auto

section \<open>No queue is ever full\<close>

lemma places_length: "io_inv s \<Longrightarrow> length (places s) = length (packet_pool s)"
  unfolding io_inv_def by (metis card_lessThan distinct_card)

lemma sends_succeed:
  assumes "io_inv s" "b \<in> set (task_held (task_pc s) @ loop_held (loop_pc s))"
  shows "length (free_queue s) < PACKET_POOL_SIZE" "length (ready_queue s) < PACKET_POOL_SIZE"
proof -
  have "length (task_held (task_pc s) @ loop_held (loop_pc s)) > 0"
    using assms(2) by (metis length_pos_if_in_set)
  moreover have "length (free_queue s) + length (ready_queue s) + length (task_held (task_pc s) @ loop_held (loop_pc s))
      \<le> PACKET_POOL_SIZE"
    using places_length [OF assms(1)] assms(1) by (simp add: places_def io_inv_def)
  ultimately show "length (free_queue s) < PACKET_POOL_SIZE" "length (ready_queue s) < PACKET_POOL_SIZE"
    by linarith+
qed

section \<open>Every step keeps the buffers apart and in order\<close>

text \<open>What a step must do: keep the invariant, and show what moves from the network to the main loop.\<close>

definition step_ok :: "'d io \<Rightarrow> 'd io \<times> io_event list \<Rightarrow> bool" where
  "step_ok s = (\<lambda>(s', e). io_inv s' \<and> pending s @ received_in e = handled_in e @ pending s')"

lemma nth_pool_ok: "io_inv s \<Longrightarrow> b \<in> set (places s) \<Longrightarrow> buffer_ok (packet_pool s ! b)"
  by (auto simp: io_inv_def list_all_length)

lemma fill_buffer_ok: "buffer_ok p \<Longrightarrow> buffer_ok (fill_buffer g p)"
  by (cases g) (auto simp: buffer_ok_def fill_buffer_def Let_def)

lemma contents_other: "c \<noteq> b \<Longrightarrow> contents (s\<lparr>packet_pool := (packet_pool s)[b := p], task_pc := pc\<rparr>) c = contents s c"
  by (simp add: contents_def)

lemma overwrite_ok:
  assumes inv: "io_inv s" and pc: "task_pc s = Task_recv b ks" and p: "buffer_ok p"
    and held: "task_held pc = [b]" "task_at_recv pc"
  defines "s' \<equiv> s\<lparr>packet_pool := (packet_pool s)[b := p], task_pc := pc\<rparr>"
  shows "io_inv s'" "map (contents s') (loop_held (loop_pc s) @ ready_queue s) = pending s"
proof -
  show "io_inv s'" using inv pc p held
    by (auto simp: io_inv_def places_def s'_def intro: list_all_update)
  have "c \<noteq> b" if "c \<in> set (loop_held (loop_pc s) @ ready_queue s)" for c
    using inv pc that by (auto simp: io_inv_def places_def)
  then have "map (contents s') (loop_held (loop_pc s) @ ready_queue s) = map (contents s) (loop_held (loop_pc s) @ ready_queue s)"
    unfolding s'_def by (intro map_cong refl contents_other) blast
  then show "map (contents s') (loop_held (loop_pc s) @ ready_queue s) = pending s"
    using pc by (simp add: pending_def filled_def)
qed

lemma recv_some:
  assumes "b < length (packet_pool s)" "buffer_ok (packet_pool s ! b)" "d \<noteq> []"
  obtains q where "buffer_ok q" "(pb_source q, take (pb_len q) (pb_data q), pb_addr q, pb_port q) = (k, take MAX_PACKET_SIZE d, a, p)"
    "recv_into k (Some (d, a, p)) b ks s = s\<lparr>packet_pool := (packet_pool s)[b := q], task_pc := Task_file b (k # ks)\<rparr>"
proof
  define q where "q = (fill_buffer (d, a, p) (packet_pool s ! b))\<lparr>pb_len := min (length d) MAX_PACKET_SIZE, pb_source := k\<rparr>"
  show "buffer_ok q" using assms(2) by (simp add: q_def buffer_ok_def fill_buffer_def Let_def)
  show "(pb_source q, take (pb_len q) (pb_data q), pb_addr q, pb_port q) = (k, take MAX_PACKET_SIZE d, a, p)"
    by (simp add: q_def fill_buffer_def Let_def min_def)
  show "recv_into k (Some (d, a, p)) b ks s = s\<lparr>packet_pool := (packet_pool s)[b := q], task_pc := Task_file b (k # ks)\<rparr>"
    using assms(1,3) by (simp add: recv_into_def set_buffer_def q_def Let_def)
qed

lemma recv_step_ok:
  assumes inv: "io_inv s" and pc: "task_pc s = Task_recv b (k # ks)"
  shows "step_ok s (task_step r g s)"
proof -
  have b: "b < length (packet_pool s)" using inv pc by (auto simp: io_inv_def places_def)
  have bok: "buffer_ok (packet_pool s ! b)" using inv b by (simp add: io_inv_def list_all_length)
  consider "g = None" | a p where "g = Some ([], a, p)" | d a p where "g = Some (d, a, p)" "d \<noteq> []"
    by (metis option.exhaust surj_pair)
  then show ?thesis
  proof cases
    case 1
    then show ?thesis using inv pc
      by (simp add: step_ok_def task_step_def recv_into_def io_inv_def places_def pending_def filled_def contents_def)
  next
    case 2
    show ?thesis
      using overwrite_ok [OF inv pc fill_buffer_ok [OF bok], of "Task_return b ks" "([], a, p)"] 2 pc
      by (simp add: step_ok_def task_step_def recv_into_def set_buffer_def pending_def filled_def)
  next
    case 3
    obtain q where q: "buffer_ok q"
      "(pb_source q, take (pb_len q) (pb_data q), pb_addr q, pb_port q) = (k, take MAX_PACKET_SIZE d, a, p)"
      and e: "recv_into k (Some (d, a, p)) b ks s = s\<lparr>packet_pool := (packet_pool s)[b := q], task_pc := Task_file b (k # ks)\<rparr>"
      by (rule recv_some [OF b bok 3(2)])
    have "contents (s\<lparr>packet_pool := (packet_pool s)[b := q], task_pc := Task_file b (k # ks)\<rparr>) b = (k, take MAX_PACKET_SIZE d, a, p)"
      using b q(2) by (simp add: contents_def)
    then show ?thesis
      using overwrite_ok [OF inv pc q(1), of "Task_file b (k # ks)"] 3 pc e
      by (simp add: step_ok_def task_step_def pending_def filled_def)
  qed
qed

lemma task_step_ok:
  assumes inv: "io_inv s" and run: "task_handle s"
  shows "step_ok s (task_step r g s)"
proof (cases "task_pc s")
  case (Task_recv b ks)
  with inv obtain k ks' where "ks = k # ks'" by (cases ks) (auto simp: io_inv_def)
  with Task_recv recv_step_ok [OF inv] show ?thesis by simp
next
  case (Task_return b ks)
  have "length (free_queue s) < PACKET_POOL_SIZE" using sends_succeed [OF inv, of b] Task_return by simp
  with Task_return inv run show ?thesis
    by (auto simp: step_ok_def task_step_def io_inv_def places_def pending_def filled_def contents_def
        give_back_def queue_send_def)
next
  case (Task_file b ks)
  have "length (ready_queue s) < PACKET_POOL_SIZE" using sends_succeed [OF inv, of b] Task_file by simp
  with Task_file inv run show ?thesis
    by (auto simp: step_ok_def task_step_def io_inv_def places_def pending_def filled_def contents_def queue_send_def)
next
  case (Task_drain ks)
  with inv run show ?thesis
    by (cases ks) (auto simp: step_ok_def task_step_def io_inv_def places_def pending_def filled_def contents_def
        queue_receive_def split: list.split)
qed (use inv run in \<open>auto simp: step_ok_def task_step_def io_inv_def places_def pending_def filled_def contents_def
        after_select_def Let_def\<close>)

lemma handle_buffer_frame [simp]:
  "packet_pool (handle_buffer w b s) = packet_pool s" "free_queue (handle_buffer w b s) = free_queue s"
  "ready_queue (handle_buffer w b s) = ready_queue s" "task_pc (handle_buffer w b s) = task_pc s"
  "loop_pc (handle_buffer w b s) = loop_pc s" "task_handle (handle_buffer w b s) = task_handle s"
  "unified_socket (handle_buffer w b s) = unified_socket s"
  by (simp_all add: handle_buffer_def nat_port_found_def Let_def split: option.split)

lemma handled_in_handled [simp]: "handled_in [handled c] = [c]" "received_in [handled c] = []"
  by (cases c; simp add: handled_def)+

lemma loop_step_ok:
  assumes inv: "io_inv s" shows "step_ok s (loop_step w s)"
proof (cases "loop_pc s")
  case (Loop_have n b)
  have "length (free_queue s) < PACKET_POOL_SIZE" using sends_succeed [OF inv, of b] Loop_have by simp
  with Loop_have inv show ?thesis
    by (auto simp: step_ok_def loop_step_def io_inv_def places_def pending_def filled_def contents_def
        give_back_def queue_send_def)
next
  case (Loop_head n)
  with inv show ?thesis
    by (auto simp: step_ok_def loop_step_def io_inv_def places_def pending_def filled_def contents_def
        queue_receive_def split: list.split)
qed (use inv in \<open>auto simp: step_ok_def loop_step_def\<close>)

section \<open>Every run\<close>

lemma alloc_buffer_ok:
  assumes "io_inv s \<and> filled s = [] \<and> unified_socket s \<noteq> -1 \<and> length (packet_pool s) \<le> n" "n < PACKET_POOL_SIZE"
  shows "io_inv (alloc_buffer ok s) \<and> filled (alloc_buffer ok s) = [] \<and> unified_socket (alloc_buffer ok s) \<noteq> -1
    \<and> length (packet_pool (alloc_buffer ok s)) \<le> n + 1"
proof -
  have "length (free_queue s) < PACKET_POOL_SIZE"
    using assms places_length [of s] by (simp add: places_def)
  then show ?thesis using assms
    by (auto simp: alloc_buffer_def give_back_def queue_send_def io_inv_def places_def filled_def buffer_ok_def
        new_buffer_def lessThan_Suc)
qed

lemma alloc_all_ok:
  assumes "io_inv s" "filled s = []" "unified_socket s \<noteq> -1" "packet_pool s = []" "n \<le> PACKET_POOL_SIZE"
  shows "io_inv (fold (\<lambda>i. alloc_buffer (al i)) [0..<n] s) \<and> filled (fold (\<lambda>i. alloc_buffer (al i)) [0..<n] s) = []
    \<and> unified_socket (fold (\<lambda>i. alloc_buffer (al i)) [0..<n] s) \<noteq> -1
    \<and> length (packet_pool (fold (\<lambda>i. alloc_buffer (al i)) [0..<n] s)) \<le> n"
  using assms(5)
proof (induction n)
  case (Suc n)
  then show ?case using alloc_buffer_ok [of "fold (\<lambda>i. alloc_buffer (al i)) [0..<n] s" n "al n"] by simp
qed (use assms in simp)

lemma start_task_ok:
  "io_inv s \<Longrightarrow> io_inv (start_io_task ok s)"
  "io_inv s \<Longrightarrow> pending (start_io_task ok s) = pending s"
  by (auto simp: start_io_task_def io_inv_def places_def pending_def filled_def contents_def)

lemma task_filled_held: "task_held pc = [] \<Longrightarrow> task_filled pc = []"
  by (cases pc) auto

lemma setup_ok:
  assumes inv: "io_inv s"
  shows "io_inv (setup_unified_socket e s)" "pending (setup_unified_socket e s) = pending s"
proof -
  define s1 where "s1 = s\<lparr>unified_socket := env_socket e, free_made := env_free e, ready_made := env_ready e\<rparr>"
  define s2 where "s2 = fold (\<lambda>i. alloc_buffer (env_alloc e i)) [0..<PACKET_POOL_SIZE] s1"
  have empty: "packet_pool s = []" "places s = []" if "unified_socket s = -1"
    using inv that places_length [OF inv] by (auto simp: io_inv_def)
  then have fe: "filled s = []" "filled s1 = []" if "unified_socket s = -1"
    using that by (auto simp: filled_def places_def s1_def task_filled_held)
  have "io_inv (setup_unified_socket e s) \<and> pending (setup_unified_socket e s) = pending s"
  proof (cases "unified_socket s = -1 \<and> env_socket e \<ge> 0 \<and> env_bind e \<and> env_free e \<and> env_ready e")
    case True
    then have "io_inv s1" "unified_socket s1 \<noteq> -1" "packet_pool s1 = []"
      using inv empty by (auto simp: s1_def io_inv_def places_def)
    then have "io_inv s2 \<and> filled s2 = []"
      using alloc_all_ok [of s1 PACKET_POOL_SIZE "env_alloc e"] fe True by (simp add: s2_def)
    then show ?thesis using True start_task_ok [of s2 "env_task e"] fe
      by (simp add: setup_unified_socket_def s2_def s1_def pending_def)
  next
    case False
    then show ?thesis using inv empty
      by (auto simp: setup_unified_socket_def io_inv_def places_def pending_def filled_def contents_def Let_def)
  qed
  then show "io_inv (setup_unified_socket e s)" "pending (setup_unified_socket e s) = pending s" by simp_all
qed

lemma io_new_inv: "io_inv (io_new n)" "pending (io_new n) = []"
  by (simp_all add: io_new_def io_inv_def places_def pending_def filled_def)

lemma io_run_ok:
  assumes "io_run s0 tr s" "io_inv s0"
  shows "io_inv s \<and> pending s0 @ received_in tr = handled_in tr @ pending s"
  using assms
proof (induction rule: io_run.induct)
  case (task tr s r g s' e)
  then show ?case using task_step_ok [of s r g] by (simp add: step_ok_def) (metis append_assoc)
next
  case (loop tr s w s' e)
  then show ?case using loop_step_ok [of s w] by (simp add: step_ok_def) (metis append_assoc)
next
  case (open_udp tr s env)
  then show ?case using setup_ok [of s env] by simp
next
  case (restart tr s ok)
  then show ?case using start_task_ok [of s ok] by simp
qed (auto simp: process_enter_def setup_icmp_socket_def stop_request_def stop_finish_def io_inv_def places_def
      pending_def filled_def contents_def)

end
