(* ===== verification/Io_Runs.thy ===== *)
theory Io_Runs
  imports Io_Task Router_State
begin

text \<open>
  What the runs of the receiving task and the main loop promise: the buffers are never shared, the
  datagrams reach the main loop complete and in order, one is dropped only when the other thread
  has every buffer, both loops end, and what the ICMP parser reads is inside the packet.
\<close>

section \<open>The buffers and the datagrams\<close>

text \<open>
  C12. In every run of the two threads, from the start of the component: each buffer of the pool is
  in exactly one place (free, ready, held by the task, held by the main loop), so no two holders
  share one and none is lost; and no queue is asked to hold more than it has room for.
\<close>

theorem buffers_never_shared:
  assumes "io_run (io_new n) tr s"
  shows "distinct (places s) \<and> set (places s) = {..<length (packet_pool s)}
    \<and> length (free_queue s) + length (ready_queue s) \<le> PACKET_POOL_SIZE"
  using io_run_ok [OF assms io_new_inv(1)] places_length [of s] by (auto simp: io_inv_def places_def)

text \<open>
  C13. The datagrams taken from the sockets, each cut to 1536 bytes, are those the main loop has
  handled followed by those in its hand, in the ready queue and in the task's hand: each is handled
  once, in the order of arrival, with the bytes, the source and the socket it came with, though its
  buffer is used again and again.
\<close>

theorem datagrams_in_order:
  assumes "io_run (io_new n) tr s"
  shows "received_in tr = handled_in tr @ pending s"
  using io_run_ok [OF assms io_new_inv(1)] by (simp add: io_new_inv(2))

text \<open>A run of one datagram: the setup, the task as far as the ready queue, the main loop.\<close>

definition toy_env :: setup_env where
  "toy_env = \<lparr>env_socket = 3, env_bind = True, env_free = True, env_ready = True, env_alloc = (\<lambda>i. i < 1), env_task = True\<rparr>"

definition toy_io :: "nat io" where "toy_io = setup_unified_socket toy_env (io_new toy_started)"

definition toy_filed :: "nat io" where
  "toy_filed = fst (task_step ([], False) None (fst (task_step ([], False) (Some ([9, 9], [10, 0, 0, 66], 666))
     (fst (task_step ([], False) None (fst (task_step ([3], False) None toy_io)))))))"

lemmas toy_io_defs = toy_filed_def toy_io_def toy_env_def io_new_def setup_unified_socket_def start_io_task_def
  alloc_buffer_def give_back_def queue_send_def queue_receive_def task_step_def after_select_def monitored_def
  recv_into_def set_buffer_def fill_buffer_def new_buffer_def PACKET_POOL_SIZE_def MAX_PACKET_SIZE_def upt_rec Let_def

lemma toy_io_run: "io_run (io_new toy_started) [] toy_io"
  unfolding toy_io_def by (intro io_run.open_udp io_run.init) (simp add: io_new_def)

lemma toy_filed_run: "io_run (io_new toy_started) [Received 3 [9, 9] [10, 0, 0, 66] 666] toy_filed"
proof -
  define s1 where "s1 = fst (task_step ([3], False) None toy_io)"
  define s2 where "s2 = fst (task_step ([], False) None s1)"
  define s3 where "s3 = fst (task_step ([], False) (Some ([9, 9], [10, 0, 0, 66], 666)) s2)"
  have "io_run (io_new toy_started) ([] @ []) s1"
    by (rule io_run.task [OF toy_io_run, where r = "([3], False)" and g = None])
       (simp_all add: s1_def, simp_all add: toy_io_defs)
  then have "io_run (io_new toy_started) (([] @ []) @ []) s2"
    by (rule io_run.task [where r = "([], False)" and g = None]) (simp_all add: s2_def, simp_all add: s1_def toy_io_defs)
  then have "io_run (io_new toy_started) ((([] @ []) @ []) @ [Received 3 [9, 9] [10, 0, 0, 66] 666]) s3"
    by (rule io_run.task [where r = "([], False)" and g = "Some ([9, 9], [10, 0, 0, 66], 666)"])
       (simp_all add: s3_def, simp_all add: s2_def s1_def toy_io_defs)
  then have "io_run (io_new toy_started) (((([] @ []) @ []) @ [Received 3 [9, 9] [10, 0, 0, 66] 666]) @ []) toy_filed"
    by (rule io_run.task [where r = "([], False)" and g = None])
       (simp_all add: toy_filed_def s3_def s2_def s1_def, simp_all add: toy_io_defs)
  then show ?thesis by simp
qed

theorem buffers_never_shared_witness:
  "distinct (places toy_filed) \<and> set (places toy_filed) = {..<length (packet_pool toy_filed)}
    \<and> length (free_queue toy_filed) + length (ready_queue toy_filed) \<le> PACKET_POOL_SIZE"
  by (rule buffers_never_shared [OF toy_filed_run])

theorem datagrams_in_order_witness:
  "received_in [Received 3 [9, 9] [10, 0, 0, 66] 666] = handled_in [Received 3 [9, 9] [10, 0, 0, 66] 666] @ pending toy_filed"
  by (rule datagrams_in_order [OF toy_filed_run])

section \<open>Dropped datagrams\<close>

lemma dropped_when_exhausted:
  assumes "io_run (io_new n) tr s" "task_handle s" "task_step r g s = (s', e)" "Dropped k \<in> set e"
  shows "length (loop_held (loop_pc s) @ ready_queue s) = length (packet_pool s)"
proof -
  have inv: "io_inv s" using io_run_ok [OF assms(1) io_new_inv(1)] by simp
  have "free_queue s = [] \<and> task_held (task_pc s) = []"
  proof (cases "task_pc s")
    case (Task_drain ks)
    then show ?thesis using assms(3,4)
      by (cases ks) (auto simp: task_step_def queue_receive_def split: if_splits list.splits)
  next
    case (Task_recv b ks)
    then show ?thesis using assms(3,4) by (cases ks) (auto simp: task_step_def split: option.splits prod.splits if_splits)
  next
    case (Task_file b ks)
    then have "length (ready_queue s) < PACKET_POOL_SIZE" using sends_succeed [OF inv, of b] by simp
    then show ?thesis using assms(3,4) Task_file by (auto simp: task_step_def queue_send_def)
  qed (use assms(3,4) in \<open>auto simp: task_step_def split: if_splits\<close>)
  then show ?thesis using places_length [OF inv] by (simp add: places_def)
qed

section \<open>The loops end\<close>

text \<open>
  What the task does while the main loop stands still. A free buffer lets the inner loop go round
  once more, a socket ends it; each place of the loop ranks below the one before.
\<close>

fun task_rank :: "task_pc \<Rightarrow> nat \<Rightarrow> nat" where
  "task_rank Task_select f = 0"
| "task_rank (Task_drain ks) f = 4 * f + 8 * length ks + 1"
| "task_rank (Task_recv b ks) f = 4 * f + 8 * length ks + 4"
| "task_rank (Task_return b ks) f = 4 * f + 8 * length ks + 6"
| "task_rank (Task_file b ks) f = 4 * f + 8 * length ks + 3"
| "task_rank Task_ended f = 0"

definition rank :: "'d io \<Rightarrow> nat" where "rank s = task_rank (task_pc s) (length (free_queue s))"

lemma recv_into_frame:
  "free_queue (recv_into k g b ks s) = free_queue s"
  "task_pc (recv_into k g b ks s) = Task_return b ks \<or> task_pc (recv_into k g b ks s) = Task_file b (k # ks)"
  by (auto simp: recv_into_def set_buffer_def Let_def split: option.split)

lemma task_step_rank:
  assumes inv: "io_inv s" and "task_pc s \<noteq> Task_select" "task_pc s \<noteq> Task_ended"
  shows "rank (fst (task_step r g s)) < rank s"
proof (cases "task_pc s")
  case (Task_recv b ks)
  with inv obtain k ks' where "ks = k # ks'" by (cases ks) (auto simp: io_inv_def)
  then show ?thesis using Task_recv recv_into_frame [of k g b ks' s] by (auto simp: rank_def task_step_def)
next
  case (Task_return b ks)
  then show ?thesis by (auto simp: rank_def task_step_def give_back_def queue_send_def)
next
  case (Task_file b ks)
  have "length (ready_queue s) < PACKET_POOL_SIZE" using sends_succeed [OF inv, of b] Task_file by simp
  then show ?thesis using Task_file by (auto simp: rank_def task_step_def queue_send_def)
next
  case (Task_drain ks)
  then show ?thesis by (cases ks) (auto simp: rank_def task_step_def queue_receive_def split: list.split)
qed (use assms in auto)

definition task_steps :: "(readable \<times> datagram option) list \<Rightarrow> 'd io \<Rightarrow> 'd io" where
  "task_steps es s = fold (\<lambda>(r, g) s. fst (task_step r g s)) es s"

definition at_select :: "'d io \<Rightarrow> bool" where
  "at_select s \<longleftrightarrow> task_pc s = Task_select \<or> task_pc s = Task_ended"

lemma task_steps_reach:
  assumes "io_inv s" "task_handle s" "rank s \<le> length es"
  shows "list_ex (\<lambda>k. at_select (task_steps (take k es) s)) [0..<Suc (length es)]"
  using assms
proof (induction es arbitrary: s)
  case Nil
  then show ?case by (cases "task_pc s") (auto simp: rank_def task_steps_def at_select_def)
next
  case (Cons x es)
  obtain r g where x: "x = (r, g)" by (cases x)
  show ?case
  proof (cases "at_select s")
    case True
    then show ?thesis by (auto simp: list_ex_iff task_steps_def intro!: bexI [of _ 0])
  next
    case False
    let ?s = "fst (task_step r g s)"
    have "io_inv ?s" using task_step_ok [OF Cons.prems(1,2), of r g] by (auto simp: step_ok_def)
    moreover have "task_handle ?s" using Cons.prems(2) recv_into_frame
      by (auto simp: task_step_def after_select_def recv_into_def set_buffer_def give_back_def queue_receive_def
          queue_send_def Let_def split: task_pc.split list.split option.split)
    moreover have "rank ?s \<le> length es"
      using task_step_rank [OF Cons.prems(1), of r g] False Cons.prems(3) by (auto simp: at_select_def)
    ultimately obtain k where k: "k \<le> length es" "at_select (task_steps (take k es) ?s)"
      using Cons.IH [of ?s] by (auto simp: list_ex_iff less_Suc_eq_le simp del: upt_Suc)
    have "at_select (task_steps (take (Suc k) (x # es)) s)" using k(2) by (simp add: task_steps_def x)
    moreover have "Suc k \<in> set [0..<Suc (length (x # es))]" using k(1) by (auto simp del: upt_Suc)
    ultimately show ?thesis unfolding list_ex_iff by blast
  qed
qed



text \<open>
  The main loop's half: each of its steps ranks below the one before, whatever the task does
  between them, so a call handles at most twenty buffers and returns.
\<close>

fun loop_rank :: "loop_pc \<Rightarrow> nat" where
  "loop_rank (Loop_head n) = 2 * (20 - n) + 1"
| "loop_rank (Loop_have n b) = 2 * (20 - n) + 2"
| "loop_rank _ = 0"

lemma loop_step_rank:
  "loop_pc s \<noteq> Loop_idle \<Longrightarrow> loop_pc s \<noteq> Loop_stopping \<Longrightarrow>
   loop_rank (loop_pc (fst (loop_step w s))) < loop_rank (loop_pc s)"
  by (cases "loop_pc s") (auto simp: loop_step_def queue_receive_def MAX_PACKETS_PER_LOOP_def give_back_def split: list.split)

lemma task_step_loop_pc: "loop_pc (fst (task_step r g s)) = loop_pc s"
  by (auto simp: task_step_def after_select_def recv_into_def set_buffer_def give_back_def queue_receive_def
      queue_send_def Let_def split: task_pc.split list.split option.split)

datatype 'd io_move = Task_moves readable "datagram option" | Loop_moves "'d world"

fun move_step :: "'d io_move \<Rightarrow> 'd io \<Rightarrow> 'd io" where
  "move_step (Task_moves r g) s = fst (task_step r g s)"
| "move_step (Loop_moves w) s = fst (loop_step w s)"

fun is_loop_move :: "'d io_move \<Rightarrow> bool" where
  "is_loop_move (Loop_moves w) = True"
| "is_loop_move (Task_moves r g) = False"

lemma loop_moves_reach:
  assumes "loop_rank (loop_pc s) \<le> length (filter is_loop_move ms)" "loop_pc s \<noteq> Loop_stopping"
  shows "list_ex (\<lambda>k. loop_pc (fold move_step (take k ms) s) = Loop_idle) [0..<Suc (length ms)]"
  using assms
proof (induction ms arbitrary: s)
  case Nil
  then show ?case by (cases "loop_pc s") auto
next
  case (Cons m ms)
  show ?case
  proof (cases "loop_pc s = Loop_idle")
    case True
    then show ?thesis by (auto simp: list_ex_iff intro!: bexI [of _ 0])
  next
    case False
    have "loop_rank (loop_pc (move_step m s)) \<le> length (filter is_loop_move ms)"
    proof (cases m)
      case (Task_moves r g)
      then show ?thesis using Cons.prems task_step_loop_pc [of r g s] by simp
    next
      case (Loop_moves w)
      then show ?thesis using Cons.prems loop_step_rank [OF False, of w] by simp
    qed
    moreover have "loop_pc (move_step m s) \<noteq> Loop_stopping"
      using Cons.prems(2) task_step_loop_pc [of _ _ s]
      by (cases m) (auto simp: loop_step_def split: loop_pc.split option.split)
    ultimately obtain k where k: "k \<le> length ms" "loop_pc (fold move_step (take k ms) (move_step m s)) = Loop_idle"
      using Cons.IH [of "move_step m s"] by (auto simp: list_ex_iff less_Suc_eq_le simp del: upt_Suc)
    have "loop_pc (fold move_step (take (Suc k) (m # ms)) s) = Loop_idle" using k(2) by simp
    moreover have "Suc k \<in> set [0..<Suc (length (m # ms))]" using k(1) by (auto simp del: upt_Suc)
    ultimately show ?thesis unfolding list_ex_iff by blast
  qed
qed

lemma process_returns:
  assumes "loop_pc s = Loop_idle" "length (filter is_loop_move ms) \<ge> 41"
  shows "list_ex (\<lambda>k. loop_pc (fold move_step (take k ms) (process_enter s)) = Loop_idle) [0..<Suc (length ms)]"
  by (rule loop_moves_reach) (use assms in \<open>auto simp: process_enter_def\<close>)

section \<open>ICMP messages\<close>

text \<open>
  The router's answer to a probe: the header of the message, then the datagram it dropped from its
  own header on. What the client takes from it is the source port in the quoted datagram.
\<close>

definition time_exceeded :: "u8 \<Rightarrow> bytes \<Rightarrow> bytes \<Rightarrow> bytes \<Rightarrow> u16 \<Rightarrow> bytes \<Rightarrow> bytes" where
  "time_exceeded code rest ip_start addrs port tail =
     [11, code] @ rest @ [0x45] @ ip_start @ [17] @ take 2 rest @ addrs @ put_be16 port @ tail"

lemma parse_time_exceeded:
  assumes "length rest = 6" "length ip_start = 8" "length addrs = 8" "length tail \<ge> 6"
  shows "parse_icmp_time_exceeded (time_exceeded code rest ip_start addrs port tail)
    = Some (port, get_be32 (addrs ! 4) (addrs ! 5) (addrs ! 6) (addrs ! 7))"
proof -
  obtain a b c d e f where r: "rest = [a, b, c, d, e, f]" using assms(1) by (auto simp: numeral_eq_Suc length_Suc_conv)
  obtain g h i j k l m n where p: "ip_start = [g, h, i, j, k, l, m, n]"
    using assms(2) by (auto simp: numeral_eq_Suc length_Suc_conv)
  obtain a1 a2 a3 a4 b1 b2 b3 b4 where q: "addrs = [a1, a2, a3, a4, b1, b2, b3, b4]"
    using assms(3) by (auto simp: numeral_eq_Suc length_Suc_conv)
  have "unat ((0x45 :: u8) AND 0x0F) = 5" by simp
  then show ?thesis using assms(4)
    by (simp add: parse_icmp_time_exceeded_def time_exceeded_def r p q put_be16_def get_put_be16 Let_def)
qed

text \<open>The quoted destination is not compared with the peer probed: any such message ends the discovery.\<close>

lemma any_time_exceeded_ends_discovery:
  assumes "nd_active (nat_state s)" "nd_current_ttl (nat_state s) = 1"
    and "unified_socket s \<noteq> icmp_socket s" "pb_source (packet_pool s ! b) = icmp_socket s"
    and "icmp_of_raw (take (pb_len (packet_pool s ! b)) (pb_data (packet_pool s ! b))) = Some (port, ip)"
  shows "\<not> nd_active (nat_state (handle_buffer w b s))" "nd_discovered_port (nat_state (handle_buffer w b s)) = port"
  using assms by (simp_all add: handle_buffer_def nat_port_found_def Let_def)

end
