(* ===== verification/Node_Keys.thy ===== *)
theory Node_Keys
  imports Noise_Session Disco_Exchange
begin

text \<open>
  The node's keys in \<^verbatim>\<open>tailscale.cpp\<close>: their generation with the Noise library,
  their storage in the flash's key-value store, and the control server's public key, which is
  fetched over HTTPS or configured.

  The store is a map from names to values; whether it opens, takes a value and commits is given by
  \<open>nvs_env\<close>. The base64 codec is a parameter, \<open>b64e\<close> and \<open>b64d\<close>, as it is of the
  other components: the empty text stands for a failure.
\<close>

section \<open>State\<close>

datatype nvs_value = NvsBlob bytes | NvsStr string

record nvs_env =
  nvs_opens_read :: bool
  nvs_opens_write :: bool
  nvs_takes :: "string \<Rightarrow> bool"
  nvs_commits :: bool

type_synonym nvs = "string \<rightharpoonup> nvs_value"

record node_keys =
  machine_key_raw :: bytes
  machine_pub_raw :: bytes
  machine_key :: string
  nk_node_private :: string
  nk_node_public :: string
  nk_disco_private :: string
  nk_disco_public :: string
  keys_loaded_from_nvs :: bool

section \<open>Storage\<close>

definition c_text :: "string \<Rightarrow> string" where
  "c_text s = takeWhile (\<lambda>c. c \<noteq> CHR 0x00) s"

definition nvs_get_blob32 :: "string \<Rightarrow> nvs \<Rightarrow> bytes option" where
  "nvs_get_blob32 k s = (case s k of Some (NvsBlob b) \<Rightarrow> if length b = 32 then Some b else None | _ \<Rightarrow> None)"

definition nvs_get_text :: "string \<Rightarrow> nvs \<Rightarrow> string option" where
  "nvs_get_text k s = (case s k of Some (NvsStr t) \<Rightarrow> Some t | _ \<Rightarrow> None)"

text \<open>The keys are read one after the other; a missing one ends the reading, with the earlier ones in place.\<close>

definition load_keys_from_nvs :: "(bytes \<Rightarrow> string) \<Rightarrow> nvs_env \<Rightarrow> nvs \<Rightarrow> node_keys \<Rightarrow> bool \<times> node_keys" where
  "load_keys_from_nvs b64e env s k =
     (if \<not> nvs_opens_read env then (False, k)
      else case nvs_get_blob32 ''machine_priv'' s of None \<Rightarrow> (False, k) | Some b \<Rightarrow>
        (let k = k\<lparr>machine_key_raw := b, machine_key := b64e b\<rparr> in
         case nvs_get_blob32 ''machine_pub'' s of None \<Rightarrow> (False, k) | Some b \<Rightarrow>
        (let k = k\<lparr>machine_pub_raw := b\<rparr> in
         case nvs_get_text ''node_priv'' s of None \<Rightarrow> (False, k) | Some t \<Rightarrow>
        (let k = k\<lparr>nk_node_private := c_text t\<rparr> in
         case nvs_get_text ''node_pub'' s of None \<Rightarrow> (False, k) | Some t \<Rightarrow>
        (let k = k\<lparr>nk_node_public := c_text t\<rparr> in
         case nvs_get_text ''disco_priv'' s of None \<Rightarrow> (False, k) | Some t \<Rightarrow>
        (let k = k\<lparr>nk_disco_private := c_text t\<rparr> in
         case nvs_get_text ''disco_pub'' s of None \<Rightarrow> (False, k) | Some t \<Rightarrow>
           (True, k\<lparr>nk_disco_public := c_text t\<rparr>)))))))"

text \<open>Each value is written whether or not the one before was.\<close>

definition nvs_set :: "nvs_env \<Rightarrow> string \<Rightarrow> nvs_value \<Rightarrow> bool \<times> nvs \<Rightarrow> bool \<times> nvs" where
  "nvs_set env k v = (\<lambda>(ok, s). if nvs_takes env k then (ok, s(k \<mapsto> v)) else (False, s))"

definition saved_values :: "node_keys \<Rightarrow> (string \<times> nvs_value) list" where
  "saved_values k =
     [(''machine_priv'', NvsBlob (take 32 (machine_key_raw k))), (''machine_pub'', NvsBlob (take 32 (machine_pub_raw k))),
      (''node_priv'', NvsStr (c_text (nk_node_private k))), (''node_pub'', NvsStr (c_text (nk_node_public k))),
      (''disco_priv'', NvsStr (c_text (nk_disco_private k))), (''disco_pub'', NvsStr (c_text (nk_disco_public k)))]"

definition save_keys_to_nvs :: "nvs_env \<Rightarrow> node_keys \<Rightarrow> nvs \<Rightarrow> bool \<times> nvs" where
  "save_keys_to_nvs env k s =
     (if \<not> nvs_opens_write env then (False, s)
      else case fold (\<lambda>(n, v). nvs_set env n v) (saved_values k) (True, s) of
        (ok, s) \<Rightarrow> (ok \<and> nvs_commits env, s))"

section \<open>Generation\<close>

definition fresh_pair :: "sodium \<Rightarrow> nat \<Rightarrow> bytes \<times> bytes" where
  "fresh_pair lib n = (let d = noise_dhstate_generate_keypair lib (rand_bytes lib n) (noise_curve25519_new None)
                       in (private_key d, public_key d))"

text \<open>
  Stored keys are taken when there are any; otherwise three pairs are drawn, the \<open>n\<close>-th
  draw first, and stored. A failed store is only logged.
\<close>

definition generate_node_keys ::
    "sodium \<Rightarrow> nat \<Rightarrow> (bytes \<Rightarrow> string) \<Rightarrow> nvs_env \<Rightarrow> nvs \<Rightarrow> node_keys \<Rightarrow> bool \<times> nvs \<times> node_keys" where
  "generate_node_keys lib n b64e env s k =
     (case load_keys_from_nvs b64e env s k of
        (True, k) \<Rightarrow> (True, s, k\<lparr>keys_loaded_from_nvs := True\<rparr>)
      | (False, k) \<Rightarrow>
         (let (priv, pub) = fresh_pair lib n; (npriv, npub) = fresh_pair lib (n + 1); (dpriv, dpub) = fresh_pair lib (n + 2);
              k = k\<lparr>keys_loaded_from_nvs := False, machine_key_raw := priv, machine_pub_raw := pub, machine_key := b64e priv,
                    nk_node_private := b64e npriv, nk_node_public := b64e npub,
                    nk_disco_private := b64e dpriv, nk_disco_public := b64e dpub\<rparr>
          in (True, snd (save_keys_to_nvs env k s), k)))"

section \<open>Key texts\<close>

definition base64_to_hex :: "(string \<Rightarrow> bytes) \<Rightarrow> string \<Rightarrow> string" where
  "base64_to_hex b64d s = hex_of (b64d s)"

definition mkey :: string where "mkey = ''mkey:''"

definition decode_remote_key :: "(string \<Rightarrow> bytes option) \<Rightarrow> string \<Rightarrow> bytes option" where
  "decode_remote_key b64 s =
     (let e = strip_key_prefix mkey s in
      if length e = 64 then Some (hex_pairs e) else b64 e)"

definition set_remote_key :: "(string \<Rightarrow> bytes option) \<Rightarrow> string \<Rightarrow> noise_session \<Rightarrow> bool \<times> noise_session" where
  "set_remote_key b64 s ns =
     (case decode_remote_key b64 s of None \<Rightarrow> (False, ns)
      | Some k \<Rightarrow> if length k \<noteq> 32 then (False, ns) else set_remote_static k ns)"

section \<open>Fetching the server's key\<close>

text \<open>
  The answer as the HTTP client gives it: whether it opens, the status, the announced length (0 for
  a chunked answer) and the reads, None for an error and the empty one for the end. \<open>json_key\<close>
  is the \<^verbatim>\<open>publicKey\<close> member of the document, as the JSON library finds it.
\<close>

record http_answer =
  ha_opens :: bool
  ha_status :: int
  ha_length :: int
  ha_reads :: "bytes option list"

text \<open>One read of at most \<open>n\<close> bytes; the script's end is the end of the answer.\<close>

fun http_read :: "nat \<Rightarrow> bytes option list \<Rightarrow> bytes option \<times> bytes option list" where
  "http_read n [] = (Some [], [])"
| "http_read n (None # rs) = (None, rs)"
| "http_read n (Some d # rs) = (if length d \<le> n then (Some d, rs) else (Some (take n d), Some (drop n d) # rs))"

fun reads_size :: "bytes option list \<Rightarrow> nat" where
  "reads_size [] = 0"
| "reads_size (None # rs) = Suc (reads_size rs)"
| "reads_size (Some d # rs) = Suc (length d + reads_size rs)"

lemma http_read_size: "(Some d, rs') = http_read n rs \<Longrightarrow> 0 < n \<Longrightarrow> d \<noteq> [] \<Longrightarrow> reads_size rs' < reads_size rs"
  by (cases "(n, rs)" rule: http_read.cases) (auto split: if_splits)

function read_chunked :: "bytes option list \<Rightarrow> bytes \<Rightarrow> bytes option" where
  "read_chunked rs got =
     (case http_read 511 rs of
        (None, _) \<Rightarrow> None
      | (Some d, rs') \<Rightarrow> (if d = [] then Some got
          else if length (got @ d) > 4096 then None else read_chunked rs' (got @ d)))"
  by pat_completeness auto

termination
  by (relation "measure (\<lambda>(rs, _). reads_size rs)") (auto intro: http_read_size)

function read_known :: "nat \<Rightarrow> bytes option list \<Rightarrow> bytes \<Rightarrow> bytes option" where
  "read_known len rs got =
     (if length got \<ge> len then Some got
      else case http_read (len - length got) rs of
        (None, _) \<Rightarrow> None
      | (Some d, rs') \<Rightarrow> (if d = [] then None else read_known len rs' (got @ d)))"
  by pat_completeness auto

termination
  by (relation "measure (\<lambda>(len, rs, _). reads_size rs)") (auto intro: http_read_size)

declare read_chunked.simps [simp del] read_known.simps [simp del]

definition fetch_control_key ::
    "(string \<Rightarrow> bytes option) \<Rightarrow> (string \<Rightarrow> string option) \<Rightarrow> http_answer \<Rightarrow> noise_session \<Rightarrow> bool \<times> noise_session" where
  "fetch_control_key b64 json_key a ns =
     (if \<not> ha_opens a \<or> ha_status a \<noteq> 200 \<or> ha_length a < 0 then (False, ns)
      else case (if ha_length a = 0 then read_chunked (ha_reads a) []
                 else if ha_length a > 4096 then None
                 else read_known (nat (ha_length a)) (ha_reads a) []) of
        None \<Rightarrow> (False, ns)
      | Some body \<Rightarrow>
          (if body = [] then (False, ns)
           else case json_key (c_text (string_of body)) of None \<Rightarrow> (False, ns)
             | Some k \<Rightarrow> set_remote_key b64 k ns))"

section \<open>Keys across a restart\<close>

definition env_works :: "nvs_env \<Rightarrow> bool" where
  "env_works env \<longleftrightarrow> nvs_opens_read env \<and> nvs_opens_write env \<and> nvs_commits env
     \<and> list_all (nvs_takes env) [''machine_priv'', ''machine_pub'', ''node_priv'', ''node_pub'', ''disco_priv'', ''disco_pub'']"

lemma save_store:
  assumes "env_works env"
  shows "save_keys_to_nvs env k s = (True, s ++ map_of (rev (saved_values k)))"
  using assms by (simp add: save_keys_to_nvs_def env_works_def saved_values_def nvs_set_def)

lemma load_saved:
  assumes "env_works env" "length (machine_key_raw k) = 32" "length (machine_pub_raw k) = 32"
    and "machine_key k = b64e (machine_key_raw k)"
    and "list_all (\<lambda>t. c_text t = t) [nk_node_private k, nk_node_public k, nk_disco_private k, nk_disco_public k]"
  shows "load_keys_from_nvs b64e env (snd (save_keys_to_nvs env k s)) k0
    = (True, k\<lparr>keys_loaded_from_nvs := keys_loaded_from_nvs k0\<rparr>)"
proof -
  have r: "nvs_opens_read env" using assms(1) by (simp add: env_works_def)
  show ?thesis using assms r
    by (simp add: save_store saved_values_def load_keys_from_nvs_def nvs_get_blob32_def nvs_get_text_def Let_def)
qed

text \<open>What a base64 codec gives: text without a zero, and it decodes to what was encoded.\<close>

definition codec :: "(bytes \<Rightarrow> string) \<Rightarrow> (string \<Rightarrow> bytes) \<Rightarrow> bool" where
  "codec b64e b64d \<longleftrightarrow> (\<forall>b. CHR 0x00 \<notin> set (b64e b) \<and> b64d (b64e b) = b)"

lemma c_text_id: "CHR 0x00 \<notin> set t \<Longrightarrow> c_text t = t"
  unfolding c_text_def by (induction t) auto

lemma fresh_pair_fields:
  "fresh_pair lib n = (clamp (rand_bytes lib n), scalarmult_base lib (clamp (rand_bytes lib n)))"
  by (simp add: fresh_pair_def noise_dhstate_generate_keypair_def Let_def)

lemma length_clamp [simp]: "length (clamp k) = length k"
  by (simp add: clamp_def Let_def)

text \<open>
  C18. The first start without stored keys draws three pairs, in each the public key is the private
  one's, and stores them; the next start reads exactly the same keys back, so the node keeps its
  identity.
\<close>

theorem keys_survive_restart:
  assumes "env_works env" "codec b64e b64d"
    and "length (rand_bytes lib n) = 32" "length (scalarmult_base lib (clamp (rand_bytes lib n))) = 32"
    and "s ''machine_priv'' = None"
    and "generate_node_keys lib n b64e env s k0 = (ok, s', k)"
  shows "ok \<and> machine_pub_raw k = scalarmult_base lib (machine_key_raw k)
    \<and> b64d (nk_node_public k) = scalarmult_base lib (b64d (nk_node_private k))
    \<and> b64d (nk_disco_public k) = scalarmult_base lib (b64d (nk_disco_private k))
    \<and> generate_node_keys lib m b64e env s' k1 = (True, s', k\<lparr>keys_loaded_from_nvs := True\<rparr>)"
proof -
  have e: "CHR 0x00 \<notin> set (b64e b)" "b64d (b64e b) = b" for b using assms(2) by (auto simp: codec_def)
  have l: "load_keys_from_nvs b64e env s k0 = (False, k0)"
    using assms(1,5) by (simp add: load_keys_from_nvs_def env_works_def nvs_get_blob32_def)
  have k: "ok" "s' = snd (save_keys_to_nvs env k s)"
    "k = k0\<lparr>keys_loaded_from_nvs := False, machine_key_raw := clamp (rand_bytes lib n),
        machine_pub_raw := scalarmult_base lib (clamp (rand_bytes lib n)), machine_key := b64e (clamp (rand_bytes lib n)),
        nk_node_private := b64e (clamp (rand_bytes lib (n + 1))),
        nk_node_public := b64e (scalarmult_base lib (clamp (rand_bytes lib (n + 1)))),
        nk_disco_private := b64e (clamp (rand_bytes lib (n + 2))),
        nk_disco_public := b64e (scalarmult_base lib (clamp (rand_bytes lib (n + 2))))\<rparr>"
    using assms(6) by (auto simp: generate_node_keys_def l fresh_pair_fields Let_def)
  have "load_keys_from_nvs b64e env s' k1 = (True, k\<lparr>keys_loaded_from_nvs := keys_loaded_from_nvs k1\<rparr>)"
    unfolding k(2) by (rule load_saved [OF assms(1)]) (simp_all add: k(3) assms(3,4) e c_text_id)
  then have "generate_node_keys lib m b64e env s' k1 = (True, s', k\<lparr>keys_loaded_from_nvs := True\<rparr>)"
    by (simp add: generate_node_keys_def)
  then show ?thesis using k(1) by (simp add: k(3) e)
qed

text \<open>A codec for the witness: two letters to a byte.\<close>

definition toy_nvs_env :: nvs_env where
  "toy_nvs_env = \<lparr>nvs_opens_read = True, nvs_opens_write = True, nvs_takes = (\<lambda>_. True), nvs_commits = True\<rparr>"

definition toy_keys :: node_keys where
  "toy_keys = \<lparr>machine_key_raw = [], machine_pub_raw = [], machine_key = [], nk_node_private = [], nk_node_public = [],
     nk_disco_private = [], nk_disco_public = [], keys_loaded_from_nvs = False\<rparr>"

lemma hex_codec: "codec hex_of hex_pairs"
proof -
  have "hex_digit n \<noteq> CHR 0x00" if "n < 16" for n
  proof -
    have "list_all (\<lambda>n. hex_digit n \<noteq> CHR 0x00) [0..<16]" by code_simp
    then show ?thesis using that by (auto simp: list_all_iff)
  qed
  then have "CHR 0x00 \<noteq> hex_digit (unat x div 16)" "CHR 0x00 \<noteq> hex_digit (unat x mod 16)" for x :: u8
    using high_nibble [of x] by (metis, metis mod_less_divisor zero_less_numeral)
  then have "CHR 0x00 \<notin> set (hex_of b)" for b
    by (auto simp: hex_of_def)
  then show ?thesis by (simp add: codec_def hex_pairs_hex_of)
qed

theorem keys_survive_restart_witness:
  "\<exists>s' k. generate_node_keys toy_sodium 7 hex_of toy_nvs_env Map.empty toy_keys = (True, s', k)
    \<and> machine_pub_raw k = scalarmult_base toy_sodium (machine_key_raw k)
    \<and> generate_node_keys toy_sodium 1 hex_of toy_nvs_env s' toy_keys = (True, s', k\<lparr>keys_loaded_from_nvs := True\<rparr>)"
proof -
  obtain ok s' k where g: "generate_node_keys toy_sodium 7 hex_of toy_nvs_env Map.empty toy_keys = (ok, s', k)"
    by (cases "generate_node_keys toy_sodium 7 hex_of toy_nvs_env Map.empty toy_keys") auto
  have "env_works toy_nvs_env" by (simp add: env_works_def toy_nvs_env_def)
  from keys_survive_restart [OF this hex_codec _ _ _ g, of 1 toy_keys] show ?thesis
    using g by (simp add: toy_sodium_def toy_base_def)
qed

text \<open>
  With keys in the store, generating keys again only reads them back: nothing new is drawn.
\<close>

lemma regenerate_reloads:
  assumes "load_keys_from_nvs b64e env s k = (True, k')"
  shows "generate_node_keys lib n b64e env s k = (True, s, k'\<lparr>keys_loaded_from_nvs := True\<rparr>)"
  using assms by (simp add: generate_node_keys_def)

section \<open>The server's key\<close>

lemma decode_remote_key_hex:
  assumes "length k = 32" shows "decode_remote_key b64 (mkey @ hex_of k) = Some k"
  using assms by (simp add: decode_remote_key_def hex_pairs_hex_of)

definition http_bytes :: "bytes option list \<Rightarrow> bytes" where
  "http_bytes rs = concat (map (case_option [] id) rs)"

definition data_only :: "bytes option list \<Rightarrow> bool" where
  "data_only rs = list_all (\<lambda>r. r \<noteq> None \<and> r \<noteq> Some []) rs"

lemma http_read_data:
  assumes "data_only rs" "0 < n"
  obtains d rs' where "http_read n rs = (Some d, rs')" "data_only rs'" "http_bytes rs = d @ http_bytes rs'" "length d \<le> n"
    "d = [] \<longrightarrow> http_bytes rs = []"
proof (cases rs)
  case Nil
  then show ?thesis using that [of "[]" "[]"] by (simp add: data_only_def http_bytes_def)
next
  case (Cons r rs'')
  then obtain e where e: "rs = Some e # rs''" "e \<noteq> []" "data_only rs''"
    using assms(1) by (cases r) (auto simp: data_only_def)
  show ?thesis
  proof (cases "length e \<le> n")
    case True
    then show ?thesis using that [of e rs''] e by (simp add: http_bytes_def)
  next
    case False
    then show ?thesis using that [of "take n e" "Some (drop n e) # rs''"] e assms(2)
      by (simp add: http_bytes_def data_only_def)
  qed
qed

lemma read_chunked_all:
  "data_only rs \<Longrightarrow> length (got @ http_bytes rs) \<le> 4096 \<Longrightarrow> read_chunked rs got = Some (got @ http_bytes rs)"
proof (induction rs got rule: read_chunked.induct)
  case (1 rs got)
  obtain d rs' where d: "http_read 511 rs = (Some d, rs')" "data_only rs'" "http_bytes rs = d @ http_bytes rs'"
    "d = [] \<longrightarrow> http_bytes rs = []"
    by (rule http_read_data [OF 1(2), of 511]) auto
  show ?case
  proof (cases "d = []")
    case True
    then show ?thesis using d by (simp add: read_chunked.simps [of rs])
  next
    case False
    have "read_chunked rs' (got @ d) = Some ((got @ d) @ http_bytes rs')"
      by (rule 1(1) [OF d(1) [symmetric] _ False]) (use 1(3) d in auto)
    then show ?thesis using d 1(3) False by (simp add: read_chunked.simps [of rs])
  qed
qed

lemma read_known_all:
  "data_only rs \<Longrightarrow> length (got @ http_bytes rs) = len \<Longrightarrow> read_known len rs got = Some (got @ http_bytes rs)"
proof (induction len rs got rule: read_known.induct)
  case (1 len rs got)
  show ?case
  proof (cases "length got \<ge> len")
    case True
    then have "length (http_bytes rs) = 0" using 1(3) unfolding length_append by linarith
    then show ?thesis using True by (simp add: read_known.simps [of len])
  next
    case False
    obtain d rs' where d: "http_read (len - length got) rs = (Some d, rs')" "data_only rs'" "http_bytes rs = d @ http_bytes rs'"
      "d = [] \<longrightarrow> http_bytes rs = []"
      by (rule http_read_data [OF 1(2), of "len - length got"]) (use False in auto)
    have ne: "d \<noteq> []" using d(4) False 1(3) by auto
    have "read_known len rs' (got @ d) = Some ((got @ d) @ http_bytes rs')"
      by (rule 1(1) [OF False d(1) [symmetric] _ ne]) (use 1(3) d in auto)
    then show ?thesis using d ne False by (simp add: read_known.simps [of len])
  qed
qed

text \<open>
  C19. The server's key is learned from its answer however the answer is cut into reads, with an
  announced length or chunked, up to 4096 bytes: the key given to the handshake is the one the
  document names.
\<close>

theorem control_key_any_reads:
  assumes "ha_opens a" "ha_status a = 200" "data_only (ha_reads a)" "http_bytes (ha_reads a) = bytes_of doc"
    and "ha_length a = 0 \<or> ha_length a = int (length doc)"
    and "doc \<noteq> []" "CHR 0x00 \<notin> set doc" "length doc \<le> 4096"
    and "json_key doc = Some (mkey @ hex_of k)" "length k = 32"
  shows "fetch_control_key b64 json_key a ns = set_remote_static k ns"
proof -
  have "read_chunked (ha_reads a) [] = Some (bytes_of doc)"
    using read_chunked_all [OF assms(3), of "[]"] assms(4,8) by simp
  moreover have "read_known (length doc) (ha_reads a) [] = Some (bytes_of doc)"
    using read_known_all [OF assms(3), of "[]" "length doc"] assms(4) by simp
  moreover have "bytes_of doc \<noteq> []" using assms(6) by (simp add: bytes_of_def)
  ultimately show ?thesis
    using assms(1,2,5-10) by (auto simp: fetch_control_key_def c_text_id set_remote_key_def decode_remote_key_hex)
qed

theorem control_key_any_reads_witness:
  "fetch_control_key (\<lambda>_. None) (\<lambda>_. Some (mkey @ hex_of (replicate 32 9)))
     \<lparr>ha_opens = True, ha_status = 200, ha_length = 0, ha_reads = [Some (bytes_of ''{a''), Some (bytes_of ''bc}'')]\<rparr> noise_session_new
   = set_remote_static (replicate 32 9) noise_session_new"
  by (rule control_key_any_reads [where doc = "''{abc}''"]) (simp_all add: data_only_def http_bytes_def)

end
