(* ===== verification/Payloads.thy ===== *)
theory Payloads
  imports Json_Spec
begin

text \<open>
  The request documents: \<^verbatim>\<open>hostinfo_builder.cpp\<close>,
  \<^verbatim>\<open>map_payload.cpp\<close> and \<^verbatim>\<open>register_payload.cpp\<close>, which write JSON
  text piece by piece, with no escaping, and the documents they are meant to write.
\<close>

section \<open>The builders\<close>

definition json_bool :: "bool \<Rightarrow> string" where
  "json_bool b = (if b then ''true'' else ''false'')"

definition key :: "string \<Rightarrow> string" where
  "key k = quoted k @ '':''"

text \<open>A field and its comma.\<close>

definition str_field :: "string \<Rightarrow> string \<Rightarrow> string" where
  "str_field k v = key k @ quoted v @ '',''"

definition lit_field :: "string \<Rightarrow> string \<Rightarrow> string" where
  "lit_field k v = key k @ v @ '',''"

record hostinfo_config =
  hi_hostname :: string
  hi_os :: string
  hi_os_version :: string
  hi_go_arch :: string
  hi_inherit :: bool
  hi_preferred_derp :: u32
  hi_include_netinfo :: bool

definition build_hostinfo_json :: "hostinfo_config \<Rightarrow> string" where
  "build_hostinfo_json c =
     ''{'' @ str_field ''Hostname'' (hi_hostname c) @ str_field ''OS'' (hi_os c)
     @ str_field ''OSVersion'' (hi_os_version c) @ str_field ''GoArch'' (hi_go_arch c)
     @ (if hi_include_netinfo c \<and> hi_preferred_derp c > 0
        then key ''NetInfo'' @ ''{'' @ lit_field ''MappingVariesByDestIP'' ''false'' @ lit_field ''HairPinning'' ''false''
          @ lit_field ''WorkingIPv4'' ''true'' @ lit_field ''WorkingIPv6'' ''false''
          @ lit_field ''PreferredDERP'' (show_nat (unat (hi_preferred_derp c)))
          @ key ''LinkType'' @ quoted ''wired'' @ ''},''
        else [])
     @ key ''InheritTailscaleNetfilter'' @ json_bool (hi_inherit c) @ ''}''"

text \<open>The items of an array, with a comma after each but the last, as the loop over an index writes them.\<close>

fun items :: "string list \<Rightarrow> string" where
  "items [] = []"
| "items (x # xs) = quoted x @ (if xs = [] then [] else '','') @ items xs"

record map_payload =
  mp_version :: u32
  mp_node_key :: string
  mp_disco_key :: string
  mp_hostinfo_json :: string
  mp_endpoints :: "string list"
  mp_preferred_derp :: u32
  mp_stream :: bool
  mp_keep_alive :: bool
  mp_read_only :: bool
  mp_omit_peers :: bool

definition render_map_request :: "map_payload \<Rightarrow> string" where
  "render_map_request p =
     ''{'' @ lit_field ''Version'' (show_nat (unat (mp_version p))) @ str_field ''NodeKey'' (mp_node_key p)
     @ (if mp_disco_key p \<noteq> [] then str_field ''DiscoKey'' (mp_disco_key p) else [])
     @ (if mp_endpoints p \<noteq> [] then key ''Endpoints'' @ ''['' @ items (mp_endpoints p) @ ''],'' else [])
     @ lit_field ''Hostinfo'' (mp_hostinfo_json p) @ lit_field ''Stream'' (json_bool (mp_stream p))
     @ (if mp_keep_alive p then lit_field ''KeepAlive'' (json_bool (mp_keep_alive p)) else [])
     @ lit_field ''ReadOnly'' (json_bool (mp_read_only p)) @ lit_field ''OmitPeers'' (json_bool (mp_omit_peers p))
     @ key ''Compress'' @ quoted [] @ ''}''"

record register_payload =
  rp_version :: u32
  rp_node_key :: string
  rp_old_node_key :: string
  rp_node_key_signature :: string
  rp_machine_key :: string
  rp_disco_key :: string
  rp_auth_key :: string
  rp_device_name :: string
  rp_hostinfo_json :: string
  rp_is_ephemeral :: bool
  rp_capabilities :: "string list"
  rp_endpoints :: "string list"

text \<open>The comma of this array comes before each item but the first.\<close>

fun later_items :: "string list \<Rightarrow> string" where
  "later_items [] = []"
| "later_items (x # xs) = '','' @ quoted x @ later_items xs"

definition items_after :: "string list \<Rightarrow> string" where
  "items_after xs = (case xs of [] \<Rightarrow> [] | x # xs \<Rightarrow> quoted x @ later_items xs)"

definition opt_field :: "string \<Rightarrow> string \<Rightarrow> string" where
  "opt_field k v = (if v \<noteq> [] then str_field k v else [])"

definition render_register_request :: "register_payload \<Rightarrow> string" where
  "render_register_request p =
     ''{'' @ lit_field ''Version'' (show_nat (unat (rp_version p))) @ str_field ''NodeKey'' (rp_node_key p)
     @ opt_field ''OldNodeKey'' (rp_old_node_key p) @ opt_field ''NodeKeySignature'' (rp_node_key_signature p)
     @ str_field ''MachineKey'' (rp_machine_key p) @ opt_field ''DiscoKey'' (rp_disco_key p)
     @ lit_field ''Hostinfo'' (if rp_hostinfo_json p = [] then ''{}'' else rp_hostinfo_json p)
     @ key ''Endpoints'' @ ''['' @ items (rp_endpoints p) @ ''],''
     @ key ''Capabilities'' @ ''['' @ items_after (rp_capabilities p) @ ''],''
     @ (if rp_auth_key p \<noteq> [] then key ''Auth'' @ ''{'' @ key ''AuthKey'' @ quoted (rp_auth_key p) @ ''},'' else [])
     @ opt_field ''DeviceName'' (rp_device_name p) @ key ''Ephemeral'' @ json_bool (rp_is_ephemeral p) @ ''}''"

section \<open>The documents\<close>

definition jbool :: "bool \<Rightarrow> json" where "jbool b = JLit (json_bool b)"
definition jnum :: "u32 \<Rightarrow> json" where "jnum n = JLit (show_nat (unat n))"
definition jstrs :: "string list \<Rightarrow> json" where "jstrs xs = JArr (map JStr xs)"

definition opt :: "bool \<Rightarrow> string \<Rightarrow> json \<Rightarrow> (string \<times> json) list" where
  "opt b k v = (if b then [(k, v)] else [])"

definition netinfo_doc :: "u32 \<Rightarrow> json" where
  "netinfo_doc derp = JObj [(''MappingVariesByDestIP'', jbool False), (''HairPinning'', jbool False),
     (''WorkingIPv4'', jbool True), (''WorkingIPv6'', jbool False), (''PreferredDERP'', jnum derp),
     (''LinkType'', JStr ''wired'')]"

definition hostinfo_doc :: "hostinfo_config \<Rightarrow> json" where
  "hostinfo_doc c = JObj ([(''Hostname'', JStr (hi_hostname c)), (''OS'', JStr (hi_os c)),
       (''OSVersion'', JStr (hi_os_version c)), (''GoArch'', JStr (hi_go_arch c))]
     @ opt (hi_include_netinfo c \<and> hi_preferred_derp c > 0) ''NetInfo'' (netinfo_doc (hi_preferred_derp c))
     @ [(''InheritTailscaleNetfilter'', jbool (hi_inherit c))])"

definition map_doc :: "json \<Rightarrow> map_payload \<Rightarrow> json" where
  "map_doc host p = JObj ([(''Version'', jnum (mp_version p)), (''NodeKey'', JStr (mp_node_key p))]
     @ opt (mp_disco_key p \<noteq> []) ''DiscoKey'' (JStr (mp_disco_key p))
     @ opt (mp_endpoints p \<noteq> []) ''Endpoints'' (jstrs (mp_endpoints p))
     @ [(''Hostinfo'', host), (''Stream'', jbool (mp_stream p))]
     @ opt (mp_keep_alive p) ''KeepAlive'' (jbool True)
     @ [(''ReadOnly'', jbool (mp_read_only p)), (''OmitPeers'', jbool (mp_omit_peers p)), (''Compress'', JStr [])])"

definition register_doc :: "json \<Rightarrow> register_payload \<Rightarrow> json" where
  "register_doc host p = JObj ([(''Version'', jnum (rp_version p)), (''NodeKey'', JStr (rp_node_key p))]
     @ opt (rp_old_node_key p \<noteq> []) ''OldNodeKey'' (JStr (rp_old_node_key p))
     @ opt (rp_node_key_signature p \<noteq> []) ''NodeKeySignature'' (JStr (rp_node_key_signature p))
     @ [(''MachineKey'', JStr (rp_machine_key p))]
     @ opt (rp_disco_key p \<noteq> []) ''DiscoKey'' (JStr (rp_disco_key p))
     @ [(''Hostinfo'', host), (''Endpoints'', jstrs (rp_endpoints p)), (''Capabilities'', jstrs (rp_capabilities p))]
     @ opt (rp_auth_key p \<noteq> []) ''Auth'' (JObj [(''AuthKey'', JStr (rp_auth_key p))])
     @ opt (rp_device_name p \<noteq> []) ''DeviceName'' (JStr (rp_device_name p))
     @ [(''Ephemeral'', jbool (rp_is_ephemeral p))])"

section \<open>The builders write the documents\<close>

lemma items_commas: "items xs = commas (map quoted xs)"
  by (induction xs) (auto simp: commas_Cons)

lemma items_after_commas: "items_after xs = commas (map quoted xs)"
proof -
  have "later_items ys = (if ys = [] then [] else '','' @ commas (map quoted ys))" for ys
    by (induction ys) (auto simp: commas_Cons)
  then show ?thesis by (cases xs) (auto simp: items_after_def commas_Cons)
qed

lemma render_jstrs: "render (jstrs xs) = ''['' @ items xs @ '']''"
proof -
  have "render \<circ> JStr = quoted" by (rule ext) simp
  then show ?thesis by (simp add: jstrs_def items_commas)
qed

lemma render_scalars [simp]:
  "render (jbool b) = json_bool b" "render (jnum n) = show_nat (unat n)"
  by (simp_all add: jbool_def jnum_def)

lemmas builder_defs = str_field_def lit_field_def opt_field_def key_def opt_def commas_Cons

lemma build_hostinfo_renders: "build_hostinfo_json c = render (hostinfo_doc c)"
  by (cases "hi_include_netinfo c \<and> hi_preferred_derp c > 0")
     (simp_all add: build_hostinfo_json_def hostinfo_doc_def netinfo_doc_def builder_defs json_bool_def)

lemma map_request_renders:
  assumes "mp_hostinfo_json p = render host"
  shows "render_map_request p = render (map_doc host p)"
  by (cases "mp_disco_key p = []"; cases "mp_endpoints p = []"; cases "mp_keep_alive p")
     (simp_all add: render_map_request_def map_doc_def builder_defs render_jstrs json_bool_def assms)

lemma register_request_renders:
  assumes "rp_hostinfo_json p = render host" "rp_hostinfo_json p \<noteq> []"
  shows "render_register_request p = render (register_doc host p)"
  using assms
  by (cases "rp_old_node_key p = []"; cases "rp_node_key_signature p = []"; cases "rp_disco_key p = []";
      cases "rp_auth_key p = []"; cases "rp_device_name p = []")
     (simp_all add: render_register_request_def register_doc_def builder_defs render_jstrs items_after_commas items_commas)

lemma wf_scalars [simp]: "wf_json (jbool b)" "wf_json (jnum n)" "wf_json (jstrs xs) \<longleftrightarrow> list_all raw_ok xs"
proof -
  show "wf_json (jbool b)" by (simp add: jbool_def json_bool_def lit_char_def)
  show "wf_json (jnum n)" unfolding jnum_def by (rule show_nat_lit)
  show "wf_json (jstrs xs) \<longleftrightarrow> list_all raw_ok xs" by (simp add: jstrs_def list_all_iff)
qed

lemma raw_ok_plain [simp]: "list_all plain_char s \<Longrightarrow> raw_ok s"
  using plain_raw_ok [of s] by (simp add: plain_def)

lemma wf_opt: "(\<forall>f \<in> set (opt b k v). raw_ok (fst f) \<and> wf_json (snd f)) \<longleftrightarrow> (b \<longrightarrow> raw_ok k \<and> wf_json v)"
  by (simp add: opt_def)

lemma hostinfo_wf:
  assumes "list_all raw_ok [hi_hostname c, hi_os c, hi_os_version c, hi_go_arch c]"
  shows "wf_json (hostinfo_doc c)"
  using assms by (simp add: hostinfo_doc_def netinfo_doc_def ball_Un wf_opt plain_char_def)


definition toy_host :: hostinfo_config where
  "toy_host = \<lparr>hi_hostname = ''esp'', hi_os = ''esphome'', hi_os_version = ''2025.6.1'', hi_go_arch = ''riscv32'',
     hi_inherit = False, hi_preferred_derp = 28, hi_include_netinfo = True\<rparr>"

definition toy_map_payload :: map_payload where
  "toy_map_payload = \<lparr>mp_version = 90, mp_node_key = ''nodekey:00'', mp_disco_key = [], mp_hostinfo_json = build_hostinfo_json toy_host,
     mp_endpoints = [''10.0.0.2:41642'', ''1.2.3.4:5''], mp_preferred_derp = 28, mp_stream = True, mp_keep_alive = False,
     mp_read_only = False, mp_omit_peers = False\<rparr>"

definition toy_register_payload :: "string \<Rightarrow> register_payload" where
  "toy_register_payload name = \<lparr>rp_version = 90, rp_node_key = ''nodekey:00'', rp_old_node_key = [], rp_node_key_signature = [],
     rp_machine_key = ''mkey:00'', rp_disco_key = [], rp_auth_key = ''tskey'', rp_device_name = name,
     rp_hostinfo_json = build_hostinfo_json toy_host, rp_is_ephemeral = False, rp_capabilities = [], rp_endpoints = []\<rparr>"


text \<open>
  Nothing is escaped: a device name with a quote in it ends its literal, and what follows becomes
  fields of the request, here a second \<open>Ephemeral\<close> before the real one.
\<close>

lemma device_name_injects:
  "render_register_request (toy_register_payload (''esp'' @ [dquote] @ '','' @ quoted ''Ephemeral'' @ '':true,'' @ quoted ''x'' @ '':'' @ [dquote]))
    = render (JObj [(''Version'', jnum 90), (''NodeKey'', JStr ''nodekey:00''), (''MachineKey'', JStr ''mkey:00''),
        (''Hostinfo'', hostinfo_doc toy_host), (''Endpoints'', jstrs []), (''Capabilities'', jstrs []),
        (''Auth'', JObj [(''AuthKey'', JStr ''tskey'')]), (''DeviceName'', JStr ''esp''), (''Ephemeral'', jbool True),
        (''x'', JStr []), (''Ephemeral'', jbool False)])"
  by (simp add: render_register_request_def toy_register_payload_def builder_defs json_bool_def items_after_def
      build_hostinfo_renders quoted_def render_jstrs) (simp add: hostinfo_doc_def)

end
