(* ===== verification/Led_Status.thy ===== *)
theory Led_Status
  imports Ts_Prelude
begin

text \<open>
  \<^verbatim>\<open>led_status.cpp\<close> and \<^verbatim>\<open>led_status.h\<close>: the colours of the status light
  and its blinking. The driver of the light is outside; \<open>led_sent\<close> is what is handed to it, in
  its order of green, red and blue. The pulse encoder, which only configures the driver, is left out.
\<close>

datatype led_state = LED_OFF | LED_CONNECTING | LED_CONNECTED | LED_ERROR
datatype blink_type = CONTROL_BLINK | DATA_BLINK

record led =
  led_now :: led_state
  led_initialized :: bool
  led_channel :: bool
  led_encoder :: bool
  blinking :: bool
  led_blink_type :: blink_type
  blink_start :: u32
  led_sent :: "bytes list"

definition led_new :: led where
  "led_new = \<lparr>led_now = LED_OFF, led_initialized = False, led_channel = False, led_encoder = False, blinking = False,
     led_blink_type = CONTROL_BLINK, blink_start = 0, led_sent = []\<rparr>"

definition BLINK_DURATION_MS :: u32 where "BLINK_DURATION_MS = 50"

type_synonym colour = "u8 \<times> u8 \<times> u8"

definition ORANGE :: colour where "ORANGE = (51, 33, 0)"
definition GREEN :: colour where "GREEN = (0, 51, 0)"
definition RED :: colour where "RED = (51, 0, 0)"
definition BLUE :: colour where "BLUE = (0, 0, 51)"

definition set_color :: "colour \<Rightarrow> led \<Rightarrow> led" where
  "set_color c s = (case c of (r, g, b) \<Rightarrow>
     if \<not> led_initialized s \<or> \<not> led_channel s \<or> \<not> led_encoder s then s else s\<lparr>led_sent := led_sent s @ [[g, r, b]]\<rparr>)"

fun state_color :: "led_state \<Rightarrow> colour" where
  "state_color LED_OFF = (0, 0, 0)"
| "state_color LED_CONNECTING = ORANGE"
| "state_color LED_CONNECTED = GREEN"
| "state_color LED_ERROR = RED"

text \<open>The three calls of the driver that can fail, each undoing those before.\<close>

definition led_initialize :: "bool \<Rightarrow> bool \<Rightarrow> bool \<Rightarrow> led \<Rightarrow> bool \<times> led" where
  "led_initialize channel encoder enable s =
     (if \<not> channel then (False, s)
      else if \<not> encoder then (False, s\<lparr>led_channel := False\<rparr>)
      else if \<not> enable then (False, s\<lparr>led_channel := False, led_encoder := False\<rparr>)
      else (True, set_color (0, 0, 0) (s\<lparr>led_channel := True, led_encoder := True, led_initialized := True\<rparr>)))"

definition led_set_state :: "led_state \<Rightarrow> led \<Rightarrow> led" where
  "led_set_state st s = (let s = s\<lparr>led_now := st\<rparr> in if blinking s then s else set_color (state_color st) s)"

definition blink :: "u32 \<Rightarrow> blink_type \<Rightarrow> led \<Rightarrow> led" where
  "blink now ty s =
     (if \<not> led_initialized s then s
      else set_color (case ty of CONTROL_BLINK \<Rightarrow> BLUE | DATA_BLINK \<Rightarrow> ORANGE)
             (s\<lparr>led_blink_type := ty, blinking := True, blink_start := now\<rparr>))"

definition led_update :: "u32 \<Rightarrow> led \<Rightarrow> led" where
  "led_update now s =
     (if \<not> led_initialized s \<or> \<not> blinking s then s
      else if now - blink_start s \<ge> BLINK_DURATION_MS
      then set_color (state_color (led_now s)) (s\<lparr>blinking := False\<rparr>) else s)"

section \<open>The light shows the state\<close>

datatype led_call = Set_state led_state | Blink u32 blink_type | Update u32

fun led_step :: "led_call \<Rightarrow> led \<Rightarrow> led" where
  "led_step (Set_state st) s = led_set_state st s"
| "led_step (Blink now ty) s = blink now ty s"
| "led_step (Update now) s = led_update now s"

definition grb :: "colour \<Rightarrow> bytes" where "grb c = (case c of (r, g, b) \<Rightarrow> [g, r, b])"

text \<open>When it does not blink, the last colour sent is that of the state.\<close>

definition led_ok :: "led \<Rightarrow> bool" where
  "led_ok s \<longleftrightarrow> led_initialized s \<and> led_channel s \<and> led_encoder s \<and> led_sent s \<noteq> []
     \<and> (\<not> blinking s \<longrightarrow> last (led_sent s) = grb (state_color (led_now s)))"

lemma set_color_sel [simp]:
  "led_now (set_color c s) = led_now s" "led_initialized (set_color c s) = led_initialized s"
  "led_channel (set_color c s) = led_channel s" "led_encoder (set_color c s) = led_encoder s" "blinking (set_color c s) = blinking s"
  by (simp_all add: set_color_def split: prod.split)

lemma set_color_sent:
  "led_initialized s \<Longrightarrow> led_channel s \<Longrightarrow> led_encoder s \<Longrightarrow> led_sent (set_color c s) = led_sent s @ [grb c]"
  by (simp add: set_color_def grb_def split: prod.split)

lemma led_call_ok: "led_ok s \<Longrightarrow> led_ok (led_step c s)"
  by (cases c) (simp_all add: led_ok_def led_set_state_def blink_def led_update_def Let_def set_color_sent)

lemma light_shows_state:
  assumes "led_initialize True True True led_new = (ok, s0)" "s = fold led_step cs s0" "\<not> blinking s"
  shows "last (led_sent s) = grb (state_color (led_now s))"
proof -
  have "led_ok s0" using assms(1)
    by (auto simp: led_initialize_def led_ok_def led_new_def set_color_def grb_def)
  then have "led_ok (fold led_step cs s0)" by (induction cs arbitrary: s0) (simp_all add: led_call_ok)
  then show ?thesis using assms(2,3) by (simp add: led_ok_def)
qed

text \<open>A blink lasts at most 50 ms of the clock after which the light is updated, also across its wrap.\<close>

lemma blink_ends:
  assumes "led_initialized s" "d \<ge> BLINK_DURATION_MS"
  shows "\<not> blinking (led_update (t + d) (blink t ty s))"
proof -
  have "blink_start (blink t ty s) = t" "blinking (blink t ty s)" "led_initialized (blink t ty s)"
    using assms(1) by (simp_all add: blink_def set_color_def split: prod.split)
  then show ?thesis using assms(2) by (simp add: led_update_def)
qed

end
