(* ===== verification/Control_Plane.thy ===== *)
theory Control_Plane
  imports Node_Keys Payloads Led_Status Ts2021_Transport Peer_Table Stun
begin

text \<open>
  The component's state machine in \<^verbatim>\<open>tailscale.cpp\<close>: \<^verbatim>\<open>setup\<close>, the
  handlers up to the fetching of the map, registration, the connection to the control server and the
  watchdog over it. A result \<open>None\<close> is a call through a null pointer, or the abort of a layer
  below. What the handlers call (keys, payloads, Noise session, websocket, transport, HTTP/2, map
  parser, peer table) is modelled in the theories imported here.

  The channel's object is shared by the component and the transport: operations of the transport
  leave their copy in \<open>ct_channel\<close>. \<open>control_world\<close> is what is outside during a handler: the
  libraries, the server's answers, the new objects' scripts, the clock at its start and at its end.
\<close>

section \<open>State\<close>

datatype ts_state = TS_IDLE | TS_INITIALIZING | TS_REGISTERING | TS_REGISTERED | TS_FETCHING_MAP | TS_CONNECTED | TS_ERROR

definition RETRY_DELAY_MS :: u32 where "RETRY_DELAY_MS = 5000"
definition SERVER_KEEPALIVE_WATCHDOG_MS :: u32 where "SERVER_KEEPALIVE_WATCHDOG_MS = 120000"

record control_world =
  cw_lib :: sodium
  cw_draw :: nat
  cw_b64e :: "bytes \<Rightarrow> string"
  cw_b64d :: "string \<Rightarrow> bytes"
  cw_b64 :: "string \<Rightarrow> bytes option"
  cw_b64_opt :: "bytes \<Rightarrow> string option"
  cw_env :: nvs_env
  cw_nvs_init :: bool
  cw_dial :: "string \<Rightarrow> verification \<Rightarrow> bool option"
  cw_bundle :: bool
  cw_rnd :: "nat \<Rightarrow> u32"
  cw_key_answer :: http_answer
  cw_json_key :: "string \<Rightarrow> string option"
  cw_channel :: upgrade
  cw_http2 :: h2
  cw_connected :: bool
  cw_stun :: "exchange \<times> exchange \<times> exchange"
  cw_wifi_ip :: "bytes option"
  cw_unified_port :: u16
  cw_now :: u32
  cw_later :: u32
  cw_clock :: "u32 list"

record control =
  ts_state :: ts_state
  last_update_time :: u32
  ct_led :: led
  cfg_control_url :: string
  cfg_control_key :: string
  cfg_auth_key :: string
  cfg_device_name :: string
  cfg_preferred_derp :: u32
  cfg_ping_targets :: "string list"
  ct_keys :: node_keys
  ct_nvs :: nvs
  ct_noise :: "noise_session option"
  ct_transport :: "transport option"
  ct_channel :: "upgrade option"
  control_authority :: string
  ct_stun :: stun_query
  ct_natpmp_endpoint :: string
  ct_ttl_endpoint :: string
  ct_endpoints :: "string list"
  ct_map :: static_map
  ct_ipv4 :: string
  ct_peers :: "peer_info list"
  last_server_message :: u32
  not_ready_since :: u32
  data_available :: bool
  tcp_monitored :: bool

section \<open>Transitions\<close>

fun led_of :: "ts_state \<Rightarrow> led_state" where
  "led_of TS_CONNECTED = LED_CONNECTED"
| "led_of TS_ERROR = LED_ERROR"
| "led_of _ = LED_CONNECTING"

definition update_led_state :: "control \<Rightarrow> control" where
  "update_led_state c = c\<lparr>ct_led := led_set_state (led_of (ts_state c)) (ct_led c)\<rparr>"

definition transition_to :: "u32 \<Rightarrow> ts_state \<Rightarrow> control \<Rightarrow> control" where
  "transition_to now st c =
     (if ts_state c \<noteq> st then update_led_state (c\<lparr>ts_state := st, last_update_time := now\<rparr>) else c)"

definition component_setup :: "control_world \<Rightarrow> control \<Rightarrow> control" where
  "component_setup w c =
     (if \<not> cw_nvs_init w then transition_to (cw_later w) TS_ERROR c
      else let c = c\<lparr>ct_noise := Some noise_session_new, ct_transport := Some transport_new\<rparr> in
        case generate_node_keys (cw_lib w) (cw_draw w) (cw_b64e w) (cw_env w) (ct_nvs c) (ct_keys c) of
          (False, s, k) \<Rightarrow> transition_to (cw_later w) TS_ERROR (c\<lparr>ct_nvs := s, ct_keys := k\<rparr>)
        | (True, s, k) \<Rightarrow> transition_to (cw_later w) TS_INITIALIZING (c\<lparr>ct_nvs := s, ct_keys := k, ts_state := TS_INITIALIZING\<rparr>))"

definition handle_idle_state :: "control_world \<Rightarrow> control \<Rightarrow> control" where
  "handle_idle_state w c = (if cw_connected w then transition_to (cw_later w) TS_INITIALIZING c else c)"

definition handle_initializing_state :: "control_world \<Rightarrow> control \<Rightarrow> control option" where
  "handle_initializing_state w c =
     (case ct_noise c of None \<Rightarrow> None
      | Some ns \<Rightarrow>
          (case initialize_ik (cw_draw w) ns of
             (False, ns) \<Rightarrow> Some (transition_to (cw_later w) TS_ERROR (c\<lparr>ct_noise := Some ns\<rparr>))
           | (True, ns) \<Rightarrow> Some (transition_to (cw_later w) TS_REGISTERING
               (c\<lparr>ct_noise := Some ns, ct_transport := Some transport_new, ct_channel := Some (cw_channel w)\<rparr>))))"

definition handle_error_state :: "control_world \<Rightarrow> control \<Rightarrow> control" where
  "handle_error_state w c =
     (if cw_now w - last_update_time c > RETRY_DELAY_MS then transition_to (cw_later w) TS_INITIALIZING c else c)"

section \<open>The connection to the control server\<close>

text \<open>The local and the remote key, before a handshake.\<close>

definition set_local_key :: "control_world \<Rightarrow> control \<Rightarrow> noise_session \<Rightarrow> bool \<times> noise_session" where
  "set_local_key w c ns =
     (if machine_key_raw (ct_keys c) \<noteq> [] \<and> machine_pub_raw (ct_keys c) \<noteq> []
      then set_local_static (cw_lib w) (machine_key_raw (ct_keys c)) (machine_pub_raw (ct_keys c)) ns
      else (False, ns))"

definition set_server_key :: "control_world \<Rightarrow> control \<Rightarrow> noise_session \<Rightarrow> bool \<times> noise_session" where
  "set_server_key w c ns =
     (if cfg_control_key c \<noteq> [] then set_remote_key (cw_b64 w) (cfg_control_key c) ns
      else fetch_control_key (cw_b64 w) (cw_json_key w) (cw_key_answer w) ns)"

definition start_handshake :: "control_world \<Rightarrow> control \<Rightarrow> noise_session \<Rightarrow> transport \<Rightarrow> bool \<times> noise_session \<times> transport" where
  "start_handshake w c ns t =
     (case set_local_key w c ns of (False, ns) \<Rightarrow> (False, ns, t)
      | (True, ns) \<Rightarrow>
          (case set_server_key w c ns of (False, ns) \<Rightarrow> (False, ns, t)
           | (True, ns) \<Rightarrow> (case begin_handshake ns t of (ok, t) \<Rightarrow> (ok, ns, t))))"

text \<open>At most six reads for the server's answer; the flag is false when a message failed the handshake.\<close>

fun handshake_rounds :: "nat \<Rightarrow> sodium \<Rightarrow> transport \<Rightarrow> (bool \<times> transport) option" where
  "handshake_rounds 0 lib t = Some (True, t)"
| "handshake_rounds (Suc n) lib t =
     (if handshake_complete t then Some (True, t)
      else case read_handshake_bytes 256 2000 t of None \<Rightarrow> None
      | Some (False, _, t) \<Rightarrow> handshake_rounds n lib t
      | Some (True, inbound, t) \<Rightarrow>
          (if inbound = [] then handshake_rounds n lib t
           else case accept_handshake_message lib inbound t of (ok, t) \<Rightarrow>
             (if \<not> ok \<and> tr_stage t = kFailed then Some (False, t) else handshake_rounds n lib t)))"

definition close_channel :: "transport \<Rightarrow> transport" where
  "close_channel t = t\<lparr>upgrade_channel := map_option ws_close (upgrade_channel t)\<rparr>"

text \<open>From an attached channel on: the answer, and the HTTP/2 session.\<close>

definition finish_handshake :: "control_world \<Rightarrow> transport \<Rightarrow> (bool \<times> transport) option" where
  "finish_handshake w t =
     (case handshake_rounds 6 (cw_lib w) t of None \<Rightarrow> None
      | Some (False, t) \<Rightarrow> Some (False, close_channel t)
      | Some (True, t) \<Rightarrow>
          (if \<not> handshake_complete t then Some (False, close_channel t)
           else case start_http2_session (cw_lib w) (cw_rnd w) (cw_http2 w) t of None \<Rightarrow> None
             | Some (False, t) \<Rightarrow> Some (False, close_channel (mark_failed t))
             | Some (True, t) \<Rightarrow> Some (True, t)))"

definition with_transport :: "control \<Rightarrow> bool \<times> transport \<Rightarrow> bool \<times> control" where
  "with_transport c = (\<lambda>(ok, t). (ok, c\<lparr>ct_transport := Some t, ct_channel := upgrade_channel t\<rparr>))"

text \<open>The channel is opened with the first message in its URL, unless it is open.\<close>

definition connect_channel :: "control_world \<Rightarrow> string \<Rightarrow> bytes \<Rightarrow> upgrade \<Rightarrow> (bool \<times> upgrade) option" where
  "connect_channel w url first u =
     (if tls_open u then Some (True, u)
      else ws_connect (cw_dial w) (cw_bundle w) (cw_b64_opt w) (cw_rnd w) url
             (if first \<noteq> [] then set_handshake_bytes first u else u))"

definition connect_transport :: "control_world \<Rightarrow> control \<Rightarrow> transport \<Rightarrow> upgrade \<Rightarrow> (bool \<times> control) option" where
  "connect_transport w c t u =
     (case (if tr_stage t = kClientInit then build_handshake_message (cw_lib w) t else (True, [], t)) of
        (False, _, t) \<Rightarrow> Some (False, c\<lparr>ct_transport := Some (mark_failed t)\<rparr>)
      | (True, first, t) \<Rightarrow>
          (case connect_channel w (cfg_control_url c @ ''/ts2021'') first u of None \<Rightarrow> None
           | Some (False, u) \<Rightarrow> Some (False, c\<lparr>ct_transport := Some (mark_failed t), ct_channel := Some u\<rparr>)
           | Some (True, u') \<Rightarrow>
               (let c = (if tls_open u then c else c\<lparr>control_authority := authority u'\<rparr>) in
                map_option (with_transport c) (finish_handshake w (attach_upgrade (Some u') t)))))"

definition ensure_ts2021_ready :: "control_world \<Rightarrow> control \<Rightarrow> (bool \<times> control) option" where
  "ensure_ts2021_ready w c =
     (case (ct_noise c, ct_transport c, ct_channel c) of
        (Some ns, Some t, Some u) \<Rightarrow>
          (if handshake_complete t
           then map_option (with_transport c) (start_http2_session (cw_lib w) (cw_rnd w) (cw_http2 w) t)
           else if tr_stage t = kIdle
           then (case start_handshake w c ns t of
                   (False, ns, t) \<Rightarrow> Some (False, c\<lparr>ct_noise := Some ns, ct_transport := Some t\<rparr>)
                 | (True, ns, t) \<Rightarrow> connect_transport w (c\<lparr>ct_noise := Some ns\<rparr>) t u)
           else connect_transport w c t u)
      | _ \<Rightarrow> Some (False, c))"

end
