(* ===== verification/Control_Fetch.thy ===== *)
theory Control_Fetch
  imports Control_Plane
begin

text \<open>
  The requests of \<^verbatim>\<open>tailscale.cpp\<close> to the control server: registration, the fetching
  of the network map, the periodic update of the endpoints, the messages of the persistent stream
  and the watchdog over it. Delays are left out.
\<close>

section \<open>Requests\<close>

definition hostinfo_of :: "control \<Rightarrow> hostinfo_config" where
  "hostinfo_of c = \<lparr>hi_hostname = cfg_device_name c, hi_os = ''esphome'', hi_os_version = ''2025.6.1'', hi_go_arch = ''riscv32'',
     hi_inherit = False, hi_preferred_derp = cfg_preferred_derp c, hi_include_netinfo = True\<rparr>"

definition register_payload_of :: "control_world \<Rightarrow> control \<Rightarrow> register_payload option" where
  "register_payload_of w c =
     (let mk = base64_to_hex (cw_b64d w) (cw_b64e w (machine_pub_raw (ct_keys c)));
          nk = base64_to_hex (cw_b64d w) (nk_node_public (ct_keys c));
          dk = base64_to_hex (cw_b64d w) (nk_disco_public (ct_keys c))
      in if mk = [] \<or> nk = [] \<or> dk = [] then None
         else Some \<lparr>rp_version = 90, rp_node_key = ''nodekey:'' @ nk, rp_old_node_key = [], rp_node_key_signature = [],
           rp_machine_key = ''mkey:'' @ mk, rp_disco_key = ''discokey:'' @ dk, rp_auth_key = cfg_auth_key c,
           rp_device_name = cfg_device_name c, rp_hostinfo_json = build_hostinfo_json (hostinfo_of c),
           rp_is_ephemeral = False, rp_capabilities = [], rp_endpoints = []\<rparr>)"

definition known_endpoints :: "control \<Rightarrow> string list" where
  "known_endpoints c = (if ct_endpoints c \<noteq> [] then ct_endpoints c
     else if discovered_endpoint (ct_stun c) \<noteq> [] then [discovered_endpoint (ct_stun c)] else [])"

definition map_payload_of :: "control_world \<Rightarrow> bool \<Rightarrow> control \<Rightarrow> map_payload option" where
  "map_payload_of w keep_alive c =
     (let nk = base64_to_hex (cw_b64d w) (nk_node_public (ct_keys c));
          dk = base64_to_hex (cw_b64d w) (nk_disco_public (ct_keys c))
      in if nk = [] \<or> dk = [] then None
         else Some \<lparr>mp_version = 90, mp_node_key = ''nodekey:'' @ nk, mp_disco_key = ''discokey:'' @ dk,
           mp_hostinfo_json = build_hostinfo_json (hostinfo_of c), mp_endpoints = known_endpoints c,
           mp_preferred_derp = cfg_preferred_derp c, mp_stream = True, mp_keep_alive = keep_alive, mp_read_only = False,
           mp_omit_peers = keep_alive\<rparr>)"

definition url_scheme :: "control \<Rightarrow> string" where
  "url_scheme c = (if take 7 (cfg_control_url c) = ''http://'' then ''http'' else ''https'')"

section \<open>Registration\<close>

definition abandon_transport :: "control \<Rightarrow> control" where
  "abandon_transport c =
     c\<lparr>ct_transport := map_option (\<lambda>t. close_channel (mark_failed t)) (ct_transport c), ct_channel := map_option ws_close (ct_channel c)\<rparr>"

text \<open>
  A refusal with stored keys closes the connection, asks for new keys and goes to the error state;
  any other refusal only fails.
\<close>

definition registration_refused :: "control_world \<Rightarrow> control \<Rightarrow> control" where
  "registration_refused w c =
     (if \<not> keys_loaded_from_nvs (ct_keys c) then c
      else let c = abandon_transport c; k = (ct_keys c)\<lparr>keys_loaded_from_nvs := False\<rparr> in
        case generate_node_keys (cw_lib w) (cw_draw w) (cw_b64e w) (cw_env w) (ct_nvs c) k of
          (False, s, k) \<Rightarrow> c\<lparr>ct_nvs := s, ct_keys := k\<rparr>
        | (True, s, k) \<Rightarrow> transition_to (cw_later w) TS_ERROR (c\<lparr>ct_nvs := s, ct_keys := k\<rparr>))"

definition perform_registration :: "control_world \<Rightarrow> control \<Rightarrow> (bool \<times> control) option" where
  "perform_registration w c =
     (case ensure_ts2021_ready w c of None \<Rightarrow> None
      | Some (False, c) \<Rightarrow> Some (False, c)
      | Some (True, c) \<Rightarrow>
          (case (register_payload_of w c, ct_transport c, ct_channel c) of
             (Some p, Some t, Some u) \<Rightarrow>
               (case http2_post_json (url_scheme c) (authority u) ''/machine/register'' (render_register_request p) 0 True False t of
                  (None, _, t) \<Rightarrow> Some (False, abandon_transport (c\<lparr>ct_transport := Some t\<rparr>))
                | (Some _, status, t) \<Rightarrow>
                    (let c = c\<lparr>ct_transport := Some t\<rparr> in
                     if status < 200 \<or> status \<ge> 300 then Some (False, registration_refused w c) else Some (True, c)))
           | (None, _, _) \<Rightarrow> Some (False, c)
           | _ \<Rightarrow> None))"

definition handle_registering_state :: "control_world \<Rightarrow> control \<Rightarrow> control option" where
  "handle_registering_state w c =
     map_option (\<lambda>(ok, c). transition_to (cw_later w) (if ok then TS_FETCHING_MAP else TS_ERROR) c) (perform_registration w c)"

section \<open>The network map\<close>

text \<open>The error texts are searched anywhere in the answer, up to a zero byte.\<close>

definition says_error :: "string \<Rightarrow> bool" where
  "says_error r = list_ex (\<lambda>n. find_str n (c_text r) \<noteq> None) [''node not found'', ''unauthorized'', ''forbidden'']"

text \<open>The four-byte length in front of the document; None when it exceeds what came.\<close>

definition strip_wire_prefix :: "string \<Rightarrow> string option" where
  "strip_wire_prefix r =
     (if length r \<ge> 5 \<and> r ! 0 \<noteq> CHR ''{'' \<and> r ! 4 = CHR ''{''
      then let n = unat (get_le32 (ord8 (r ! 0)) (ord8 (r ! 1)) (ord8 (r ! 2)) (ord8 (r ! 3))) in
        (if n > length r - 4 then None else Some (take n (drop 4 r)))
      else Some r)"

definition accept_map :: "control_world \<Rightarrow> string \<Rightarrow> control \<Rightarrow> bool \<times> control" where
  "accept_map w json c =
     (case parse_map_static json (if cfg_ping_targets c = [] then None else Some (cfg_ping_targets c)) (ct_map c) of
        (False, m) \<Rightarrow> (False, c\<lparr>ct_map := m\<rparr>)
      | (True, m) \<Rightarrow> (True, c\<lparr>ct_map := m, ct_ipv4 := (if node_ipv4 m ! 0 \<noteq> CHR 0x00 then c_str (node_ipv4 m) else ct_ipv4 c),
          ct_peers := convert_peers m, last_server_message := cw_later w\<rparr>))"

definition take_map_response :: "control_world \<Rightarrow> string \<Rightarrow> u16 \<Rightarrow> control \<Rightarrow> bool \<times> control" where
  "take_map_response w r status c =
     (if r \<noteq> [] \<and> says_error r then (False, c)
      else if status < 200 \<or> status \<ge> 300 then (False, c)
      else if r = [] then (False, c)
      else case strip_wire_prefix r of None \<Rightarrow> (False, c) | Some json \<Rightarrow> accept_map w json c)"

definition fetch_map_response :: "control_world \<Rightarrow> control \<Rightarrow> bool \<times> control" where
  "fetch_map_response w c =
     (case ct_transport c of None \<Rightarrow> (False, c)
      | Some t \<Rightarrow>
          (if \<not> handshake_complete t then (False, c)
           else case map_payload_of w False c of None \<Rightarrow> (False, c)
           | Some p \<Rightarrow>
               (case http2_post_json (url_scheme c) (control_authority c) ''/machine/map'' (render_map_request p) 0 False False t of
                  (None, _, t) \<Rightarrow> (False, c\<lparr>ct_transport := Some t\<rparr>)
                | (Some r, status, t) \<Rightarrow> take_map_response w r status (c\<lparr>ct_transport := Some t\<rparr>))))"

text \<open>
  The relay's address: from the map, or from the control server's URL without its first eight
  characters; a shorter URL makes \<^verbatim>\<open>substr\<close> throw.
\<close>

definition derp_url :: "control \<Rightarrow> string option" where
  "derp_url c =
     (let h = c_str (static_map.derp_host (ct_map c)); p = static_map.derp_port (ct_map c) in
      if h \<noteq> [] then Some (''https://'' @ h @ (if p \<noteq> 443 then '':'' @ show_nat (unat p) else []) @ ''/derp'')
      else if length (cfg_control_url c) < 8 then None
      else Some (''https://'' @ drop 8 (cfg_control_url c) @ ''/derp''))"

section \<open>The persistent stream\<close>

definition discover_local_endpoints :: "control_world \<Rightarrow> control \<Rightarrow> control" where
  "discover_local_endpoints w c =
     c\<lparr>ct_endpoints := local_endpoints (cw_wifi_ip w) (cw_unified_port w) (ct_natpmp_endpoint c) (ct_ttl_endpoint c)
        (discovered_endpoint (ct_stun c))\<rparr>"

definition stun_query_from_map :: "control_world \<Rightarrow> control \<Rightarrow> bool \<times> control" where
  "stun_query_from_map w c =
     (case cw_stun w of (x, y, z) \<Rightarrow>
        case perform_stun_query x y z ((ct_stun c)\<lparr>stun_query.derp_host := c_str (static_map.derp_host (ct_map c)),
               stun_query.stun_port := static_map.stun_port (ct_map c)\<rparr>) of
          (ok, q) \<Rightarrow> (ok, c\<lparr>ct_stun := q\<rparr>))"

text \<open>
  The periodic update: \<open>paths\<close> says of each peer whether its direct path is confirmed; when all
  are and an endpoint is known, the server for the endpoint is not asked again.
\<close>

definition refresh_endpoints :: "control_world \<Rightarrow> bool list \<Rightarrow> control \<Rightarrow> control" where
  "refresh_endpoints w paths c =
     discover_local_endpoints w
       (if list_all id paths \<and> discovered_endpoint (ct_stun c) \<noteq> [] then c else snd (stun_query_from_map w c))"

definition send_map_keepalive :: "control_world \<Rightarrow> bool list \<Rightarrow> control \<Rightarrow> (bool \<times> control) option" where
  "send_map_keepalive w paths c =
     (case (ct_transport c, ct_channel c) of
        (Some t, Some _) \<Rightarrow>
          (if \<not> handshake_complete t then Some (False, c)
           else case start_http2_session (cw_lib w) (cw_rnd w) (cw_http2 w) t of None \<Rightarrow> None
           | Some (False, t) \<Rightarrow> Some (with_transport c (False, t))
           | Some (True, t) \<Rightarrow>
               (let c = refresh_endpoints w paths (snd (with_transport c (True, t))) in
                case map_payload_of w True c of None \<Rightarrow> Some (False, c)
                | Some p \<Rightarrow> (case http2_send_on_persistent_stream (render_map_request p) t of
                    (ok, t) \<Rightarrow> Some (ok, c\<lparr>ct_transport := Some t\<rparr>))))
      | _ \<Rightarrow> Some (False, c))"

text \<open>
  The old update, a request of its own with the endpoint alone. Its name is not escaped either.
\<close>

definition send_endpoint_update :: "control \<Rightarrow> bool \<times> control" where
  "send_endpoint_update c =
     (let e = discovered_endpoint (ct_stun c) in
      case (ct_channel c, ct_transport c) of
        (Some u, Some t) \<Rightarrow>
          (if e = [] \<or> \<not> handshake_complete t then (False, c)
           else case http2_post_json (url_scheme c) (authority u) ''/machine/map''
                  (''{'' @ quoted ''Endpoints'' @ '':['' @ quoted e @ '']}'') 0 True False t of
             (None, _, t) \<Rightarrow> (False, c\<lparr>ct_transport := Some t\<rparr>)
           | (Some _, status, t) \<Rightarrow> (status = 200, c\<lparr>ct_transport := Some t\<rparr>))
      | _ \<Rightarrow> (False, c))"

definition drop_connection :: "control \<Rightarrow> control" where
  "drop_connection c =
     c\<lparr>last_server_message := 0, ct_transport := map_option transport_reset (ct_transport c), ct_channel := None\<rparr>"

definition transport_ready :: "control \<Rightarrow> bool" where
  "transport_ready c \<longleftrightarrow> (case ct_transport c of None \<Rightarrow> False | Some t \<Rightarrow> handshake_complete t)"

text \<open>
  The watchdog over a connection that is not ready. The time of the outage's start is a static
  variable of this branch; the branch for a ready connection resets another one of the same name.
\<close>

definition watch_not_ready :: "control_world \<Rightarrow> bool list \<Rightarrow> control \<Rightarrow> control" where
  "watch_not_ready w paths c =
     (let now = cw_now w; c = (if not_ready_since c = 0 then c\<lparr>not_ready_since := now\<rparr> else c) in
      if now - not_ready_since c \<ge> 30000
      then if list_ex id paths \<and> now - not_ready_since c < 300000 then c
           else transition_to (cw_later w) TS_REGISTERING (drop_connection (c\<lparr>not_ready_since := 0\<rparr>))
      else c)"

definition read_server_message :: "control_world \<Rightarrow> control \<Rightarrow> transport \<Rightarrow> control" where
  "read_server_message w c t =
     (case http2_read_next_message (cw_now w) 5 (cw_clock w) t of (r, t) \<Rightarrow>
        c\<lparr>ct_transport := Some t, last_server_message := (case r of Some (Some _) \<Rightarrow> cw_now w | _ \<Rightarrow> last_server_message c),
          data_available := False, tcp_monitored := True\<rparr>)"

definition check_server_keepalive :: "control_world \<Rightarrow> bool list \<Rightarrow> control \<Rightarrow> bool \<times> control" where
  "check_server_keepalive w paths c =
     (case ct_transport c of None \<Rightarrow> (False, watch_not_ready w paths c)
      | Some t \<Rightarrow>
          (if \<not> handshake_complete t then (False, watch_not_ready w paths c)
           else if last_server_message c > 0 \<and> cw_now w - last_server_message c > SERVER_KEEPALIVE_WATCHDOG_MS
           then (False, drop_connection c)
           else if \<not> data_available c then (False, c)
           else (True, read_server_message w c t)))"

end
