(* ===== verification/Control_Opening.thy ===== *)
theory Control_Opening
  imports Control_Fetch Control_Channel
begin

text \<open>
  The component's calls against a control server: the opening of the connection through every layer,
  what becomes of refused keys and of a silent server, and the failures the error state does not heal.
\<close>

section \<open>Opening the connection\<close>

text \<open>The client's first message and the server's answer to it.\<close>

definition client_first :: "sodium \<Rightarrow> bytes \<Rightarrow> bytes \<Rightarrow> nat \<Rightarrow> bytes" where
  "client_first lib ska skb n =
     fst (snd (noise_handshakestate_write_message lib 512 None (snd (noise_handshakestate_start (client_start lib ska skb n)))))"

definition server_answer :: "sodium \<Rightarrow> bytes \<Rightarrow> bytes \<Rightarrow> nat \<Rightarrow> nat \<Rightarrow> bytes" where
  "server_answer lib ska skb n n' =
     (case serve_handshake lib skb n' (client_first lib ska skb n) of Inr (answer, _) \<Rightarrow> answer | Inl _ \<Rightarrow> [])"

text \<open>The component sets its own key first.\<close>

lemma component_session:
  assumes "dh_lib lib" "length ska = 32"
  shows "set_local_static lib ska (scalarmult_base lib ska) (snd (initialize_ik n s))
      = (True, snd (set_local_static lib ska (scalarmult_base lib ska) (snd (initialize_ik n s))))"
    "set_remote_static (scalarmult_base lib skb) (snd (set_local_static lib ska (scalarmult_base lib ska) (snd (initialize_ik n s))))
      = (True, \<lparr>handshake_state = Some (client_start lib ska skb n), send_cipher = None, recv_cipher = None\<rparr>)"
proof -
  have i: "initialize_ik n s = (True, \<lparr>handshake_state = Some (ik_state NOISE_ROLE_INITIATOR (bytes_of NOISE_PROLOGUE) NOISE_ACTION_NONE IK_FIRST
      (IK_SYMMETRIC zero_blake2s) (no_key NOISE_ROLE_INITIATOR) (no_key NOISE_ROLE_INITIATOR) (no_key NOISE_ROLE_RESPONDER) (no_key NOISE_ROLE_RESPONDER) n),
      send_cipher = None, recv_cipher = None\<rparr>)"
    by (simp add: initialize_ik_def ik_new noise_handshakestate_set_prologue_def ik_state_def reset_noise_def reset_ciphers_def other_role_def Let_def)
  show "set_local_static lib ska (scalarmult_base lib ska) (snd (initialize_ik n s))
      = (True, snd (set_local_static lib ska (scalarmult_base lib ska) (snd (initialize_ik n s))))"
    by (simp add: i set_local_static_def ik_state_def set_keypair_base [OF assms])
  show "set_remote_static (scalarmult_base lib skb) (snd (set_local_static lib ska (scalarmult_base lib ska) (snd (initialize_ik n s))))
      = (True, \<lparr>handshake_state = Some (client_start lib ska skb n), send_cipher = None, recv_cipher = None\<rparr>)"
    by (simp add: i set_remote_static_def set_local_static_def ik_state_def set_public [OF assms(1)]
        set_keypair_base [OF assms] client_start_def)
qed

lemma transport_new_http2: "http2 transport_new = None" "tr_stage transport_new = kIdle" "\<not> handshake_complete transport_new"
  by (simp_all add: transport_new_def transport_reset_def handshake_complete_def)

text \<open>The handshake of the transport, both halves.\<close>

lemma transport_handshake:
  assumes "aead_lib lib" "dh_lib lib" "length skb = 32"
  obtains t1 t2 k1 k2 s2 where
    "build_handshake_message lib (t\<lparr>session := Some \<lparr>handshake_state = Some (client_start lib ska skb n), send_cipher = None, recv_cipher = None\<rparr>,
        tr_stage := kClientInit\<rparr>) = (True, [0x00, 0x01, 0x01, 0, 96] @ client_first lib ska skb n, t1)"
    "tr_stage t1 = kAwaitingServerResponse"
    "serve_handshake lib skb n' (client_first lib ska skb n) = Inr (server_answer lib ska skb n n', scalarmult_base lib ska, Noise_Symmetric.keyed k2, Noise_Symmetric.keyed k1)"
    "length (server_answer lib ska skb n n') = 48"
    "\<And>u. accept_handshake_message lib ([0x02, 0, 48] @ server_answer lib ska skb n n') (t1\<lparr>upgrade_channel := u\<rparr>) = (True, t2\<lparr>upgrade_channel := u\<rparr>)"
    "tr_stage t2 = kTransportReady" "session t2 = Some s2" "send_cipher s2 = Some (Noise_Symmetric.keyed k1)" "recv_cipher s2 = Some (Noise_Symmetric.keyed k2)"
    "http2 t2 = http2 t"
proof -
  let ?s = "\<lparr>handshake_state = Some (client_start lib ska skb n), send_cipher = None, recv_cipher = None\<rparr>"
  let ?t0 = "t\<lparr>session := Some ?s, tr_stage := kClientInit\<rparr>"
  obtain st0 m st1 answer st2 k1 k2 st3 where h:
    "noise_handshakestate_start (client_start lib ska skb n) = (NOISE_ERROR_NONE, st0)" "action st0 = NOISE_ACTION_WRITE_MESSAGE"
    "noise_handshakestate_write_message lib 512 None st0 = (NOISE_ERROR_NONE, m, st1)" "action st1 = NOISE_ACTION_READ_MESSAGE" "length m = 96"
    "serve_handshake lib skb n' m = Inr (answer, scalarmult_base lib ska, Noise_Symmetric.keyed k2, Noise_Symmetric.keyed k1)" "length answer = 48"
    "noise_handshakestate_read_message lib answer None st1 = (NOISE_ERROR_NONE, [], st2)" "action st2 = NOISE_ACTION_SPLIT"
    "noise_handshakestate_split st2 = (NOISE_ERROR_NONE, Some (Noise_Symmetric.keyed k1, Noise_Symmetric.keyed k2), st3)" "length k1 = 32" "length k2 = 32"
    using handshake_agrees [OF assms, of ska n n'] by metis
  have m: "client_first lib ska skb n = m" using h(1,3) by (simp add: client_first_def)
  then have an: "server_answer lib ska skb n n' = answer" using h(6) by (simp add: server_answer_def)
  have a: "action (client_start lib ska skb n) = NOISE_ACTION_NONE" by (simp add: client_start_def ik_state_def)
  let ?t1 = "?t0\<lparr>session := Some (?s\<lparr>handshake_state := Some st1\<rparr>), tr_stage := kAwaitingServerResponse\<rparr>"
  have b: "build_handshake_message lib ?t0 = (True, [0x00, 0x01, 0x01, 0, 96] @ m, ?t1)"
    using h(1-5) a by (simp add: build_handshake_message_def set_handshake_def put_be16_96)
  have "unat (get_be16 0 48) = 48" by (simp add: get_be16_def)
  let ?s2 = "\<lparr>handshake_state = Some st3, send_cipher = Some (Noise_Symmetric.keyed k1), recv_cipher = Some (Noise_Symmetric.keyed k2)\<rparr>"
  let ?t2 = "?t1\<lparr>tr_stage := kTransportReady, session := Some ?s2\<rparr>"
  have r: "accept_handshake_message lib ([0x02, 0, 48] @ answer) (?t1\<lparr>upgrade_channel := u\<rparr>) = (True, ?t2\<lparr>upgrade_channel := u\<rparr>)" for u
    using h(7-10) \<open>unat (get_be16 0 48) = 48\<close> by (cases t) (simp add: accept_handshake_message_def set_handshake_def split_session_def
        split_transport_def reset_ciphers_def Let_def)
  show thesis
    by (rule that [of ?t1 k2 k1 ?t2 ?s2, unfolded m an, OF b _ h(6,7) r]) simp_all
qed

text \<open>What a write leaves alone, and what sending does.\<close>

lemma same_but_input_writes: "same_but_input u u' \<Longrightarrow> tls_writes u' = tls_writes u \<and> tls_sent u' = tls_sent u"
  unfolding same_but_input_def by (cases u; cases u') simp

lemma write_all_keeps: "\<exists>ws out. snd (tls_write_all d u) = u\<lparr>tls_writes := ws, tls_sent := out\<rparr>"
proof (induction d u rule: tls_write_all.induct)
  case (1 d u)
  have same: "\<exists>ws out. u = u\<lparr>tls_writes := ws, tls_sent := out\<rparr>" "\<exists>ws out. u\<lparr>tls_writes := r\<rparr> = u\<lparr>tls_writes := ws, tls_sent := out\<rparr>" for r
    by (cases u; simp)+
  show ?case
  proof (cases "d = []")
    case False
    then show ?thesis
    proof (cases "tls_writes u")
      case (Cons w r)
      show ?thesis
      proof (cases "w = None \<or> w = Some 0")
        case True
        then have "snd (tls_write_all d u) = u\<lparr>tls_writes := r\<rparr>" using False Cons by (auto simp: tls_write_all.simps [of d u])
        then show ?thesis using same(2) [of r] by metis
      next
        case w: False
        then obtain n where n: "w = Some (Suc n)" by (cases w) (auto simp: gr0_conv_Suc)
        from "1.IH" [OF False Cons n refl] show ?thesis using False Cons n by (auto simp: tls_write_all.simps [of d u])
      qed
    next
      case Nil
      then show ?thesis using False same(1) by (simp add: tls_write_all.simps [of d u])
    qed
  next
    case True
    then show ?thesis using same(1) by (simp add: tls_write_all.simps [of "[]" u])
  qed
qed

lemma send_keeps:
  assumes "send_plaintext lib rnd p t = Some (True, t')" "receiving timeout c bs t"
  shows "receiving timeout c bs t' \<and> http2 t' = http2 t"
proof -
  obtain u s k err ct k' u' where u: "upgrade_channel t = Some u" "session t = Some s" "send_cipher s = Some k"
      "noise_cipherstate_encrypt lib p (length p + MAC_LEN) k = (err, ct, k')" "write_raw rnd (control_record ct) u = Some (True, u')"
      "t' = t\<lparr>tx_count := tx_count t + 1, session := Some (s\<lparr>send_cipher := Some k'\<rparr>), upgrade_channel := Some u'\<rparr>"
    using assms by (auto simp: send_plaintext_def encrypt_payload_def Let_def split: option.splits prod.splits if_splits bool.splits)
  obtain d v where v: "tls_write_all d v = (True, u')" "v = u\<lparr>ws_draws := ws_draws v\<rparr>"
    using u(5) that [of "control_record ct" u] that [of _ "u\<lparr>ws_draws := ws_draws u + 4\<rparr>"]
    by (auto simp: write_raw_def split: if_splits option.splits)
  obtain ws out where "u' = v\<lparr>tls_writes := ws, tls_sent := out\<rparr>" using write_all_keeps [of d v] v(1) by auto
  then have "u' = (u\<lparr>ws_draws := ws_draws v\<rparr>)\<lparr>tls_writes := ws, tls_sent := out\<rparr>" using v(2) by metis
  then show ?thesis using assms(2) u(1-3,6) by (simp add: receiving_def flowing_def ws_pending_def)
qed

text \<open>
  The component as \<open>handle_initializing_state\<close> leaves it: a handshake state, a new transport, a
  channel that is not open, the machine's keys, and the server's key in the configuration.
\<close>

definition ready_to_connect :: "control_world \<Rightarrow> bytes \<Rightarrow> bytes \<Rightarrow> nat \<Rightarrow> upgrade \<Rightarrow> control \<Rightarrow> bool" where
  "ready_to_connect w ska skb n u c \<longleftrightarrow>
     (\<exists>s. ct_noise c = Some (snd (initialize_ik n s))) \<and> ct_transport c = Some transport_new \<and> ct_channel c = Some u \<and> \<not> tls_open u
     \<and> machine_key_raw (ct_keys c) = ska \<and> machine_pub_raw (ct_keys c) = scalarmult_base (cw_lib w) ska
     \<and> cfg_control_key c \<noteq> [] \<and> decode_remote_key (cw_b64 w) (cfg_control_key c) = Some (scalarmult_base (cw_lib w) skb)"

lemma start_handshake_ready:
  assumes "dh_lib (cw_lib w)" "length ska = 32" "ready_to_connect w ska skb n u c"
  obtains ns where "ct_noise c = Some ns"
    "start_handshake w c ns transport_new = (True, \<lparr>handshake_state = Some (client_start (cw_lib w) ska skb n), send_cipher = None, recv_cipher = None\<rparr>,
       transport_new\<lparr>session := Some \<lparr>handshake_state = Some (client_start (cw_lib w) ska skb n), send_cipher = None, recv_cipher = None\<rparr>, tr_stage := kClientInit\<rparr>)"
proof -
  obtain s where s: "ct_noise c = Some (snd (initialize_ik n s))" using assms(3) by (auto simp: ready_to_connect_def)
  have l: "length (scalarmult_base (cw_lib w) k) = 32" for k using assms(1) by (simp add: dh_lib_def)
  then have ne: "scalarmult_base (cw_lib w) k \<noteq> []" for k by (metis list.size(3) zero_neq_numeral)
  have sk: "ska \<noteq> []" using assms(2) by auto
  let ?ns = "snd (initialize_ik n s)" and ?lib = "cw_lib w"
  let ?ns1 = "snd (set_local_static ?lib ska (scalarmult_base ?lib ska) ?ns)"
  let ?ns2 = "\<lparr>handshake_state = Some (client_start ?lib ska skb n), send_cipher = None, recv_cipher = None\<rparr>"
  have 1: "set_local_key w c ?ns = (True, ?ns1)"
    using component_session(1) [OF assms(1,2), of n s] assms(3) ne sk by (simp add: ready_to_connect_def set_local_key_def)
  have 2: "set_server_key w c ?ns1 = (True, ?ns2)"
    using component_session(2) [OF assms(1,2), where n = n and s = s and skb = skb] assms(3) l
    by (simp add: ready_to_connect_def set_server_key_def set_remote_key_def)
  show thesis by (rule that [OF s]) (simp add: start_handshake_def 1 2 begin_handshake_def)
qed

lemma answer_taken:
  assumes "flowing 2000 u" "ws_pending u = ws_frame None ([0x02, 0, 48] @ a) @ rest" "length a = 48" "upgrade_channel t = Some u" "\<not> handshake_complete t"
    and acc: "\<And>u'. accept_handshake_message lib ([0x02, 0, 48] @ a) (t\<lparr>upgrade_channel := u'\<rparr>) = (True, t'\<lparr>upgrade_channel := u'\<rparr>)"
    and "handshake_complete t'"
  obtains u' where "handshake_rounds 6 lib t = Some (True, t'\<lparr>upgrade_channel := Some u'\<rparr>)" "flowing 2000 u'" "ws_pending u' = rest" "same_but_input u u'"
proof -
  obtain u' where u': "read_loop 256 2000 u = Some (True, [0x02, 0, 48] @ a, u')" "ws_pending u' = rest" "flowing 2000 u'" "same_but_input u u'"
    using read_loop_frame [OF assms(1) _ _ _ assms(2), of 256] assms(3) by (auto simp: mask_ok_def kPayloadMax_def)
  have "read_handshake_bytes 256 2000 t = Some (True, [0x02, 0, 48] @ a, t\<lparr>upgrade_channel := Some u'\<rparr>)"
    using u'(1) assms(1,4) by (simp add: read_handshake_bytes_def read_raw_def flowing_def)
  then have "handshake_rounds (Suc 5) lib t = Some (True, t'\<lparr>upgrade_channel := Some u'\<rparr>)"
    using acc [of "Some u'"] assms(5,7) by (simp add: eval_nat_numeral handshake_complete_def)
  then show thesis using u' by (intro that) simp_all
qed

text \<open>
  A server that accepts the upgrade: it can be dialled, takes the request, switches protocols in its
  first record, and behind the header come the given frames, in whatever pieces. \<open>v\<close> is the channel with
  the parsed URL.
\<close>

definition opening_request :: "control_world \<Rightarrow> upgrade \<Rightarrow> string" where
  "opening_request w v = ws_request (cw_b64_opt w) (rand8 (cw_rnd w) (ws_draws v) 16) v"

definition accepts_upgrade :: "control_world \<Rightarrow> string \<Rightarrow> nat \<Rightarrow> bytes \<Rightarrow> upgrade \<Rightarrow> upgrade \<Rightarrow> bool" where
  "accepts_upgrade w url rm frames u v \<longleftrightarrow> parse_url url (ws_close u) = (True, v)
     \<and> cw_dial w (u_scheme v @ authority v @ u_path v)
         (if is_local_server (raw_url v) then AcceptAny else if cw_bundle w then CertificateBundle else SkipCommonName) \<noteq> None
     \<and> writable (length (opening_request w v) + rm) v \<and> ws_buffer v = [] \<and> \<not> upgrade_complete v
     \<and> (\<exists>answer es h. tls_reads v = Received answer # es \<and> length answer \<le> 1024 \<and> response_ok (string_of answer)
         \<and> find_in (ws_crlf @ ws_crlf) (string_of answer) = Some h
         \<and> list_all (\<lambda>e. case e of Received d \<Rightarrow> d \<noteq> [] | Want \<Rightarrow> True | _ \<Rightarrow> False) es
         \<and> drop (h + 4) answer @ concat (map (\<lambda>e. case e of Received d \<Rightarrow> d | _ \<Rightarrow> []) es) = frames)"

lemma connected:
  assumes "accepts_upgrade w url rm frames u v"
  obtains u' where "ws_connect (cw_dial w) (cw_bundle w) (cw_b64_opt w) (cw_rnd w) url u = Some (True, u')" "flowing 2000 u'"
    "ws_pending u' = frames" "writable rm u'" "tls_sent u' = tls_sent v @ bytes_of (opening_request w v)" "authority u' = authority v"
proof -
  obtain h2 answer es h where v: "parse_url url (ws_close u) = (True, v)"
      "cw_dial w (u_scheme v @ authority v @ u_path v)
         (if is_local_server (raw_url v) then AcceptAny else if cw_bundle w then CertificateBundle else SkipCommonName) = Some h2"
      "writable (length (opening_request w v) + rm) v" "ws_buffer v = []" "\<not> upgrade_complete v"
      "tls_reads v = Received answer # es" "length answer \<le> 1024" "response_ok (string_of answer)"
      "find_in (ws_crlf @ ws_crlf) (string_of answer) = Some h"
      "list_all (\<lambda>e. case e of Received d \<Rightarrow> d \<noteq> [] | Want \<Rightarrow> True | _ \<Rightarrow> False) es"
      "drop (h + 4) answer @ concat (map (\<lambda>e. case e of Received d \<Rightarrow> d | _ \<Rightarrow> []) es) = frames"
    using assms unfolding accepts_upgrade_def by blast
  have r: "opening_request w v = ws_request (cw_b64_opt w) (rand8 (cw_rnd w) (ws_draws v) 16) v" by (simp add: opening_request_def)
  from connect_ok [where dial = "cw_dial w" and ?b64.0 = "cw_b64_opt w" and rnd = "cw_rnd w", OF v(1,2) refl r v(3,6,7,4,5,8,9)]
  obtain u' where u': "ws_connect (cw_dial w) (cw_bundle w) (cw_b64_opt w) (cw_rnd w) url u = Some (True, u')" "tls_open u'" "upgrade_complete u'"
    "tls_sent u' = tls_sent v @ bytes_of (opening_request w v)" "writable rm u'" "ws_buffer u' = drop (h + 4) answer" "tls_reads u' = es"
    "authority u' = authority v"
    by blast
  have "flowing 2000 u'" using u'(2,3,7) v(10) by (auto simp: flowing_def elim!: list.pred_mono_strong split: tls_event.splits)
  then show thesis using u' v(11) by (intro that [of u']) (simp_all add: ws_pending_def)
qed


definition toy_h2 :: h2 where
  "toy_h2 = \<lparr>recv_buffer = [], settings_ack_sent = False, settings_exchanged = False, jparser = jp_reset, filtered_json_buffer = [],
     parsing_json = False, json_complete = False, filtered_json_size = 0, json_bytes_processed = 0, filter_node_only = False,
     response_buffer = [], response_buffer_used = 0, has_callbacks = False, inbox = [], tx_log = [], send_result = (\<lambda>_ _. True)\<rparr>"

definition toy_exchange :: exchange where
  "toy_exchange = \<lparr>resolves = False, send_ok = False, readable = False, received = 0, response = (\<lambda>_. 0), txid = replicate 12 0\<rparr>"

definition toy_cw :: "upgrade \<Rightarrow> control_world" where
  "toy_cw u = \<lparr>cw_lib = toy_sodium, cw_draw = 0, cw_b64e = string_of, cw_b64d = bytes_of, cw_b64 = (\<lambda>_. Some (scalarmult_base toy_sodium (replicate 32 9))),
     cw_b64_opt = (\<lambda>_. Some ''AA''), cw_env = toy_nvs_env, cw_nvs_init = True, cw_dial = (\<lambda>_ _. Some False), cw_bundle = True, cw_rnd = (\<lambda>_. 0),
     cw_key_answer = \<lparr>ha_opens = False, ha_status = 0, ha_length = 0, ha_reads = []\<rparr>, cw_json_key = (\<lambda>_. None), cw_channel = u,
     cw_http2 = toy_h2, cw_connected = True, cw_stun = (toy_exchange, toy_exchange, toy_exchange), cw_wifi_ip = None, cw_unified_port = 41642,
     cw_now = 1000, cw_later = 1100, cw_clock = []\<rparr>"

definition toy_control :: "noise_session option \<Rightarrow> upgrade option \<Rightarrow> control" where
  "toy_control ns u = \<lparr>ts_state = TS_REGISTERING, last_update_time = 0, ct_led = led_new, cfg_control_url = ''https://control.example:8443'',
     cfg_control_key = ''key'', cfg_auth_key = ''tskey'', cfg_device_name = ''esp'', cfg_preferred_derp = 28, cfg_ping_targets = [],
     ct_keys = toy_keys\<lparr>machine_key_raw := replicate 32 5, machine_pub_raw := scalarmult_base toy_sodium (replicate 32 5)\<rparr>, ct_nvs = Map.empty,
     ct_noise = ns, ct_transport = Some transport_new, ct_channel = u, control_authority = [],
     ct_stun = \<lparr>unified_socket_open = False, io_running = False, stun_query.derp_host = [], stun_query.stun_port = 0,
       discovered_endpoint = [], stun_sent = []\<rparr>,
     ct_natpmp_endpoint = [], ct_ttl_endpoint = [], ct_endpoints = [], ct_map = empty_map, ct_ipv4 = [], ct_peers = [],
     last_server_message = 0, not_ready_since = 0, data_available = False, tcp_monitored = True\<rparr>"

definition toy_channel :: upgrade where
  "toy_channel = upgrade_new [Received switching_answer,
     Received (ws_frame None ([0x02, 0, 48] @ server_answer toy_sodium (replicate 32 5) (replicate 32 9) 0 3))] (replicate 2000 (Some 1))"

definition toy_parsed :: upgrade where
  "toy_parsed = snd (parse_url (''https://control.example:8443'' @ ''/ts2021'')
     (ws_close (set_handshake_bytes ([0x00, 0x01, 0x01, 0, 96] @ client_first toy_sodium (replicate 32 5) (replicate 32 9) 0) toy_channel)))"

lemma toy_parsed:
  "parse_url (''https://control.example:8443'' @ ''/ts2021'')
     (ws_close (set_handshake_bytes ([0x00, 0x01, 0x01, 0, 96] @ client_first toy_sodium (replicate 32 5) (replicate 32 9) 0) toy_channel)) = (True, toy_parsed)"
  "authority toy_parsed = ''control.example:8443''" "u_path toy_parsed = ''/ts2021''" "tls_reads toy_parsed = tls_reads toy_channel"
  "tls_writes toy_parsed = tls_writes toy_channel" "ws_buffer toy_parsed = []" "\<not> upgrade_complete toy_parsed"
  "handshake_init toy_parsed = [0x00, 0x01, 0x01, 0, 96] @ client_first toy_sodium (replicate 32 5) (replicate 32 9) 0"
  by (simp_all add: toy_parsed_def parse_url_def parse_host_port_def ws_close_def set_handshake_bytes_def toy_channel_def upgrade_new_def
      c_atoi_def c_isspace_def is_digit_def digit_val_def Let_def)

lemma toy_accepts:
  "accepts_upgrade (toy_cw toy_channel) (''https://control.example:8443'' @ ''/ts2021'') 51
     (ws_frame None ([0x02, 0, 48] @ server_answer toy_sodium (replicate 32 5) (replicate 32 9) 0 3) @ [])
     (set_handshake_bytes ([0x00, 0x01, 0x01, 0, 96] @ client_first toy_sodium (replicate 32 5) (replicate 32 9) 0) toy_channel) toy_parsed"
proof -
  have w: "writable (length (opening_request (toy_cw toy_channel) toy_parsed) + 51) toy_parsed"
    by (simp add: writable_def toy_parsed opening_request_def ws_request_def base64_encode_def random_websocket_key_def url_encode_def is_alnum_def
        is_digit_def ws_crlf_def toy_cw_def Let_def) (simp add: toy_channel_def upgrade_new_def list_all_iff)
  have r: "response_ok (string_of switching_answer)" "find_in (ws_crlf @ ws_crlf) (string_of switching_answer) = Some 52"
    "length switching_answer \<le> 1024" "drop (52 + 4) switching_answer = []" by code_simp+
  have "ws_frame None ([0x02, 0, 48] @ server_answer toy_sodium (replicate 32 5) (replicate 32 9) 0 3) \<noteq> []" by (simp add: ws_frame_split)
  then show ?thesis unfolding accepts_upgrade_def using w r
    by (intro conjI exI [of _ switching_answer] exI [of _ "tl (tls_reads toy_channel)"] exI [of _ "52 :: nat"] toy_parsed)
       (simp_all add: toy_parsed toy_cw_def, simp_all add: toy_channel_def upgrade_new_def)
qed


end
