(* ===== verification/Control_Recovery.thy ===== *)
theory Control_Recovery
  imports Control_Opening
begin

text \<open>
  How the component comes back: from a silent server to a connection that can be opened again, and
  the two ways it does not, refused keys and storage that fails at the start. At the end, answers of the
  server that are taken for errors.
\<close>

section \<open>A silent server\<close>

lemma watchdog_drops:
  assumes "ct_transport c = Some t" "handshake_complete t" "last_server_message c > 0" "cw_now w - last_server_message c > 120000"
  shows "check_server_keepalive w paths c = (False, drop_connection c)"
  using assms by (simp add: check_server_keepalive_def SERVER_KEEPALIVE_WATCHDOG_MS_def)

lemma not_ready_watched:
  "\<not> transport_ready c \<Longrightarrow> check_server_keepalive w paths c = (False, watch_not_ready w paths c)"
  by (cases "ct_transport c") (auto simp: check_server_keepalive_def transport_ready_def)

lemma drop_connection_fields [simp]:
  "\<not> transport_ready (drop_connection c)" "ct_channel (drop_connection c) = None" "not_ready_since (drop_connection c) = not_ready_since c"
  "ct_noise (drop_connection c) = ct_noise c" "ct_keys (drop_connection c) = ct_keys c" "cfg_control_key (drop_connection c) = cfg_control_key c"
  "ts_state (drop_connection c) = ts_state c" "ct_transport (drop_connection c) = None \<longleftrightarrow> ct_transport c = None"
  by (simp_all add: drop_connection_def transport_ready_def transport_reset_def handshake_complete_def split: option.splits)

lemma transition_fields [simp]:
  "ts_state (transition_to now st c) = st" "ct_channel (transition_to now st c) = ct_channel c" "ct_noise (transition_to now st c) = ct_noise c"
  "ct_keys (transition_to now st c) = ct_keys c" "ct_nvs (transition_to now st c) = ct_nvs c" "ct_transport (transition_to now st c) = ct_transport c"
  "cfg_control_key (transition_to now st c) = cfg_control_key c" "ct_map (transition_to now st c) = ct_map c"
  "ts_state c \<noteq> st \<Longrightarrow> last_update_time (transition_to now st c) = now"
  by (simp_all add: transition_to_def update_led_state_def)

lemma watch_starts:
  assumes "not_ready_since c = 0" shows "watch_not_ready w paths c = c\<lparr>not_ready_since := cw_now w\<rparr>"
  using assms by (simp add: watch_not_ready_def Let_def)

lemma watch_expires:
  assumes "not_ready_since c \<noteq> 0" "cw_now w - not_ready_since c \<ge> (if list_ex id paths then 300000 else 30000)"
  shows "watch_not_ready w paths c = transition_to (cw_later w) TS_REGISTERING (drop_connection (c\<lparr>not_ready_since := 0\<rparr>))"
proof -
  have "30000 \<le> cw_now w - not_ready_since c" using assms(2) by (auto split: if_splits intro: order_trans [rotated])
  moreover have "\<not> (list_ex id paths \<and> cw_now w - not_ready_since c < 300000)" using assms(2) by (auto simp: not_less)
  ultimately show ?thesis using assms(1) by (auto simp: watch_not_ready_def Let_def)
qed

lemma no_channel_fails: "ct_channel c = None \<Longrightarrow> handle_registering_state w c = Some (transition_to (cw_later w) TS_ERROR c)"
  by (cases "ct_noise c"; cases "ct_transport c")
     (simp_all add: handle_registering_state_def perform_registration_def ensure_ts2021_ready_def)

lemma initialize_ik_succeeds: "\<exists>s'. initialize_ik n s = (True, s')"
  by (simp add: initialize_ik_def ik_new noise_handshakestate_set_prologue_def reset_noise_def ik_state_fields Let_def)


definition toy_at :: "u32 \<Rightarrow> control_world" where
  "toy_at now = (toy_cw (upgrade_new [] []))\<lparr>cw_now := now, cw_later := now + 100\<rparr>"

definition toy_silent :: control where
  "toy_silent = (toy_control (Some noise_session_new) (Some (upgrade_new [] [])))\<lparr>ts_state := TS_CONNECTED, last_server_message := 5000,
     ct_transport := Some (transport_new\<lparr>tr_stage := kTransportReady\<rparr>)\<rparr>"

lemma toy_at_fields:
  "cw_now (toy_at n) = n" "cw_later (toy_at n) = n + 100" "cw_lib (toy_at n) = toy_sodium" "cw_channel (toy_at n) = upgrade_new [] []"
  "cw_draw (toy_at n) = 0" "cw_b64 (toy_at n) x = Some (scalarmult_base toy_sodium (replicate 32 9))"
  by (simp_all add: toy_at_def toy_cw_def)


section \<open>Refused keys\<close>

lemma load_ignores_old_keys:
  assumes "load_keys_from_nvs b64e env s k = (True, k')"
  shows "load_keys_from_nvs b64e env s k'' = (True, k'\<lparr>keys_loaded_from_nvs := keys_loaded_from_nvs k''\<rparr>)"
  using assms by (cases k; cases k'') (auto simp: load_keys_from_nvs_def Let_def split: if_splits option.splits)

lemma generate_loaded:
  assumes "generate_node_keys lib n b64e env s k = (True, s, k')" "keys_loaded_from_nvs k'"
  shows "\<exists>k1. load_keys_from_nvs b64e env s k = (True, k1) \<and> k' = k1\<lparr>keys_loaded_from_nvs := True\<rparr>"
  using assms by (auto simp: generate_node_keys_def Let_def split: prod.splits bool.splits)

lemma reload_same:
  assumes "generate_node_keys lib n b64e env s k = (True, s, k')" "keys_loaded_from_nvs k'"
  shows "generate_node_keys lib2 n2 b64e env s k'' = (True, s, k')"
proof -
  obtain k1 where k1: "load_keys_from_nvs b64e env s k = (True, k1)" "k' = k1\<lparr>keys_loaded_from_nvs := True\<rparr>"
    using generate_loaded [OF assms] by blast
  show ?thesis using load_ignores_old_keys [OF k1(1), of k''] by (simp add: generate_node_keys_def k1(2))
qed

lemma payload_from_keys:
  assumes "ct_keys c' = ct_keys c" "cfg_auth_key c' = cfg_auth_key c" "cfg_device_name c' = cfg_device_name c" "cfg_preferred_derp c' = cfg_preferred_derp c"
  shows "register_payload_of w c' = register_payload_of w c"
  using assms by (simp add: register_payload_of_def hostinfo_of_def Let_def)

lemma transition_config [simp]:
  "cfg_auth_key (transition_to now st c) = cfg_auth_key c" "cfg_device_name (transition_to now st c) = cfg_device_name c"
  "cfg_preferred_derp (transition_to now st c) = cfg_preferred_derp c"
  by (simp_all add: transition_to_def update_led_state_def)

text \<open>
  C23. Keys that came from the flash store and are refused by the server are not replaced: the refusal
  asks for new keys, the store still holds the old ones and they are loaded again, marked as loaded. So the
  next registration offers the same keys in the same request, and a refusal of it leads to the same state
  again; the restart the log asks for changes nothing.
\<close>

theorem refused_keys_offered_again:
  assumes "generate_node_keys lib n (cw_b64e w1) (cw_env w1) (ct_nvs c) k = (True, ct_nvs c, ct_keys c)" "keys_loaded_from_nvs (ct_keys c)"
    and "ts_state c \<noteq> TS_ERROR" "cw_now w2 - cw_later w1 > 5000" "ct_noise c = Some s"
  shows "\<exists>c3. ts_state (registration_refused w1 c) = TS_ERROR
    \<and> handle_initializing_state w3 (handle_error_state w2 (registration_refused w1 c)) = Some c3 \<and> ts_state c3 = TS_REGISTERING
    \<and> ct_keys c3 = ct_keys c \<and> ct_nvs c3 = ct_nvs c \<and> register_payload_of w4 c3 = register_payload_of w4 c"
proof -
  define a where "a = abandon_transport c"
  have a: "ct_nvs a = ct_nvs c" "ct_keys a = ct_keys c" "ts_state a = ts_state c" "ct_noise a = ct_noise c" "cfg_auth_key a = cfg_auth_key c"
    "cfg_device_name a = cfg_device_name c" "cfg_preferred_derp a = cfg_preferred_derp c"
    by (simp_all add: a_def abandon_transport_def)
  define c1 where "c1 = transition_to (cw_later w1) TS_ERROR (a\<lparr>ct_nvs := ct_nvs c, ct_keys := ct_keys c\<rparr>)"
  have 1: "registration_refused w1 c = c1"
    using assms(2) reload_same [OF assms(1,2)] by (simp add: registration_refused_def a(1) c1_def Let_def flip: a_def)
  have c1: "ts_state c1 = TS_ERROR" "last_update_time c1 = cw_later w1" "ct_noise c1 = Some s"
    using assms(3,5) by (simp_all add: c1_def a)
  define c2 where "c2 = transition_to (cw_later w2) TS_INITIALIZING c1"
  have 2: "handle_error_state w2 c1 = c2" using assms(4) c1(2) by (simp add: handle_error_state_def RETRY_DELAY_MS_def c2_def)
  obtain s' where s': "initialize_ik (cw_draw w3) s = (True, s')" using initialize_ik_succeeds by blast
  define c3 where "c3 = transition_to (cw_later w3) TS_REGISTERING
    (c2\<lparr>ct_noise := Some s', ct_transport := Some transport_new, ct_channel := Some (cw_channel w3)\<rparr>)"
  have 3: "handle_initializing_state w3 c2 = Some c3" using c1(3) s' by (simp add: handle_initializing_state_def c2_def c3_def)
  have "register_payload_of w4 c3 = register_payload_of w4 c" by (rule payload_from_keys) (simp_all add: c3_def c2_def c1_def a)
  then show ?thesis using 3 c1(1) by (intro exI [of _ c3]) (simp add: 1 2, simp add: c3_def c2_def c1_def a)
qed

definition toy_stored :: nvs where
  "toy_stored = snd (save_keys_to_nvs toy_nvs_env (toy_keys\<lparr>machine_key_raw := replicate 32 5, machine_pub_raw := replicate 32 6\<rparr>) Map.empty)"

definition toy_restarted :: control where
  "toy_restarted = (toy_control (Some noise_session_new) None)\<lparr>ct_nvs := toy_stored,
     ct_keys := snd (snd (generate_node_keys toy_sodium 0 string_of toy_nvs_env toy_stored toy_keys))\<rparr>"

theorem refused_keys_offered_again_witness:
  "\<exists>c3. ts_state (registration_refused (toy_at 1000) toy_restarted) = TS_ERROR
    \<and> handle_initializing_state (toy_at 7000) (handle_error_state (toy_at 6500) (registration_refused (toy_at 1000) toy_restarted)) = Some c3
    \<and> ts_state c3 = TS_REGISTERING \<and> ct_keys c3 = ct_keys toy_restarted \<and> ct_nvs c3 = ct_nvs toy_restarted
    \<and> register_payload_of (toy_at 7000) c3 = register_payload_of (toy_at 7000) toy_restarted"
proof (rule refused_keys_offered_again [where lib = toy_sodium and n = 0 and k = toy_keys and s = noise_session_new])
  have g: "generate_node_keys toy_sodium 0 string_of toy_nvs_env toy_stored toy_keys = (True, toy_stored, ct_keys toy_restarted)"
    "keys_loaded_from_nvs (ct_keys toy_restarted)"
    by (simp_all add: toy_restarted_def toy_stored_def save_keys_to_nvs_def saved_values_def nvs_set_def toy_nvs_env_def toy_keys_def
        generate_node_keys_def load_keys_from_nvs_def nvs_get_blob32_def nvs_get_text_def c_text_def)
  show "generate_node_keys toy_sodium 0 (cw_b64e (toy_at 1000)) (cw_env (toy_at 1000)) (ct_nvs toy_restarted) toy_keys
      = (True, ct_nvs toy_restarted, ct_keys toy_restarted)"
    using g(1) by (simp add: toy_at_def toy_cw_def) (simp add: toy_restarted_def)
  show "keys_loaded_from_nvs (ct_keys toy_restarted)" by (rule g(2))
qed (simp_all add: toy_at_fields toy_restarted_def toy_control_def)

section \<open>Storage that fails at the start\<close>

text \<open>
  When the flash store does not initialise, \<open>setup\<close> returns before it makes the session objects; the
  error state leads on to the initializing handler, which calls through the null pointer.
\<close>

lemma storage_failure_crashes:
  assumes "ct_noise c = None" "ts_state c \<noteq> TS_ERROR" "\<not> cw_nvs_init w1" "cw_now w2 - cw_later w1 > 5000"
  shows "handle_initializing_state w3 (handle_error_state w2 (component_setup w1 c)) = None"
  using assms by (simp add: component_setup_def handle_error_state_def handle_initializing_state_def RETRY_DELAY_MS_def)

section \<open>Answers taken for errors\<close>

text \<open>A peer, or anything else in the map, whose name contains an error text, fails the whole map.\<close>

lemma peer_name_fails_map:
  "take_map_response w (''{'' @ quoted ''Peers'' @ '':[{'' @ quoted ''Name'' @ '':'' @ quoted ''forbidden-city'' @ ''}]}'') 200 c = (False, c)"
proof -
  have "says_error (''{'' @ quoted ''Peers'' @ '':[{'' @ quoted ''Name'' @ '':'' @ quoted ''forbidden-city'' @ ''}]}'')" by code_simp
  then show ?thesis by (simp add: take_map_response_def)
qed

text \<open>Without a relay in the map, a control server under \<^verbatim>\<open>http://\<close> loses a character of its name.\<close>

lemma http_relay_loses_character:
  "c_str (static_map.derp_host (ct_map c)) = [] \<Longrightarrow> cfg_control_url c = ''http://headscale:8080'' \<Longrightarrow> derp_url c = Some ''https://eadscale:8080/derp''"
  by (simp add: derp_url_def)

end
