(* ===== verification/Ts_Netif.thy ===== *)
theory Ts_Netif
  imports Net_Checksum
begin

text \<open>
  \<^verbatim>\<open>tailscale_netif.cpp\<close>: the network interface between lwIP and the tunnel. What
  lwIP sends is copied, in lwIP's thread, into one of four buffers, which the main loop empties: two
  queues of buffer numbers pass the buffers to and fro, and the threads interleave between any two
  queue operations. What the tunnel delivers gets new checksums and is handed to lwIP.

  lwIP and ESP-IDF are parameters: \<open>netif_env\<close> says which of their calls succeed, \<open>lwip_lib\<close> holds the
  two checksum functions, whose results are the number whose high byte goes first into the packet.
  Statistics other than the drops, logs and the flags of lwIP's interface are left out.
\<close>

section \<open>State\<close>

definition TX_POOL_SIZE :: nat where "TX_POOL_SIZE = 4"
definition TX_PACKET_MAX :: nat where "TX_PACKET_MAX = 1536"
definition TAILSCALE_MTU :: u16 where "TAILSCALE_MTU = 1280"

record tx_buffer =
  tx_data :: bytes
  tx_len :: nat
  tx_dst :: u32

record lwip_netif =
  ln_ip :: u32
  ln_netmask :: u32
  ln_gateway :: u32
  ln_mtu :: u16
  ln_num :: u8

text \<open>Where lwIP's thread and the main loop are in the calls that share the buffers.\<close>

datatype tx_pc = Tx_idle | Tx_have nat "bytes list" u32 | Tx_file nat
datatype get_pc = Get_idle | Get_have nat | Get_return nat

record netif =
  nf_pool :: "tx_buffer option list"
  nf_free :: "nat list option"
  nf_pending :: "nat list option"
  nf_esp :: bool
  nf_lwip :: "lwip_netif option"
  nf_global :: bool
  nf_ip :: string
  nf_running :: bool
  nf_initialized :: bool
  nf_drops :: u32
  nf_in :: "bytes list"
  nf_overread :: bool
  nf_tx_pc :: tx_pc
  nf_get_pc :: get_pc

definition netif_new :: netif where
  "netif_new = \<lparr>nf_pool = replicate TX_POOL_SIZE None, nf_free = None, nf_pending = None, nf_esp = False, nf_lwip = None, nf_global = False,
     nf_ip = [], nf_running = False, nf_initialized = False, nf_drops = 0, nf_in = [], nf_overread = False, nf_tx_pc = Tx_idle, nf_get_pc = Get_idle\<rparr>"

section \<open>Making the interface\<close>

record netif_env =
  ne_malloc :: "nat \<Rightarrow> bytes option"
  ne_queues :: "bool \<times> bool"
  ne_esp_new :: bool
  ne_aton :: "string \<Rightarrow> u32 option"
  ne_set_ip :: bool
  ne_impl :: bool
  ne_listed :: "u8 option"
  ne_others :: "(string \<times> u8) list"

definition alloc_tx_buffer :: "netif_env \<Rightarrow> nat \<Rightarrow> bool \<times> netif \<Rightarrow> bool \<times> netif" where
  "alloc_tx_buffer e i = (\<lambda>(ok, s).
     if \<not> ok then (ok, s)
     else case ne_malloc e i of None \<Rightarrow> (False, s\<lparr>nf_pool := (nf_pool s)[i := None]\<rparr>)
     | Some junk \<Rightarrow> (True, s\<lparr>nf_pool := (nf_pool s)[i := Some \<lparr>tx_data = junk, tx_len = 0, tx_dst = 0\<rparr>]\<rparr>))"

definition alloc_tx_pool :: "netif_env \<Rightarrow> netif \<Rightarrow> bool \<times> netif" where
  "alloc_tx_pool e s = fold (alloc_tx_buffer e) [0..<TX_POOL_SIZE] (True, s)"

definition free_tx_pool :: "netif \<Rightarrow> netif" where
  "free_tx_pool s = s\<lparr>nf_pool := map (\<lambda>_. None) (nf_pool s)\<rparr>"

definition tx_enqueue :: "nat \<Rightarrow> nat list \<Rightarrow> bool \<times> nat list" where
  "tx_enqueue b q = (if length q < TX_POOL_SIZE then (True, q @ [b]) else (False, q))"

text \<open>A number for the interface that none of the others of its name has, as long as 255 is not taken.\<close>

definition next_num :: "(string \<times> u8) list \<Rightarrow> u8" where
  "next_num others = fold (\<lambda>(name, k) n. if name = ''ts'' \<and> k \<ge> n then k + 1 else n) others 0"

definition configure_lwip :: "netif_env \<Rightarrow> u32 \<Rightarrow> lwip_netif" where
  "configure_lwip e ip = \<lparr>ln_ip = ip, ln_netmask = 0x000000FF, ln_gateway = 0, ln_mtu = TAILSCALE_MTU,
     ln_num = (case ne_listed e of Some n \<Rightarrow> n | None \<Rightarrow> next_num (ne_others e))\<rparr>"

text \<open>From the ESP-IDF object on; every failure frees the buffers and the object.\<close>

definition netif_attach :: "netif_env \<Rightarrow> netif \<Rightarrow> bool \<times> netif" where
  "netif_attach e s =
     (if \<not> ne_esp_new e then (False, free_tx_pool s)
      else case ne_aton e (nf_ip s) of None \<Rightarrow> (False, free_tx_pool (s\<lparr>nf_esp := False\<rparr>))
      | Some ip \<Rightarrow>
          if \<not> ne_set_ip e \<or> \<not> ne_impl e then (False, free_tx_pool (s\<lparr>nf_esp := False\<rparr>))
          else (True, s\<lparr>nf_esp := True, nf_lwip := Some (configure_lwip e ip), nf_initialized := True, nf_running := True\<rparr>))"

definition netif_init :: "netif_env \<Rightarrow> string \<Rightarrow> netif \<Rightarrow> bool \<times> netif" where
  "netif_init e ip s =
     (if nf_initialized s then (True, s)
      else case alloc_tx_pool e (s\<lparr>nf_ip := ip, nf_global := True\<rparr>) of
        (False, s) \<Rightarrow> (False, s)
      | (True, s) \<Rightarrow>
          (let s = s\<lparr>nf_free := (if fst (ne_queues e) then Some [] else None), nf_pending := (if snd (ne_queues e) then Some [] else None)\<rparr> in
           if nf_free s = None \<or> nf_pending s = None then (False, free_tx_pool s)
           else netif_attach e (s\<lparr>nf_free := Some (fold (\<lambda>b q. snd (tx_enqueue b q)) [0..<TX_POOL_SIZE] [])\<rparr>)))"

definition netif_start :: "netif \<Rightarrow> netif" where
  "netif_start s = (if \<not> nf_initialized s \<or> \<not> nf_esp s then s else s\<lparr>nf_running := True\<rparr>)"

definition netif_stop :: "netif \<Rightarrow> netif" where
  "netif_stop s = (if \<not> nf_running s \<or> \<not> nf_esp s then s else s\<lparr>nf_running := False\<rparr>)"

definition netif_destroy :: "netif \<Rightarrow> netif" where
  "netif_destroy s = (free_tx_pool ((netif_stop s)\<lparr>nf_esp := False\<rparr>))\<lparr>nf_pending := None, nf_free := None, nf_global := False, nf_initialized := False\<rparr>"

section \<open>Sending, in lwIP's thread\<close>

datatype tx_result = ERR_OK | ERR_IF | ERR_BUF | ERR_MEM

definition tx_drop :: "netif \<Rightarrow> netif" where
  "tx_drop s = s\<lparr>nf_drops := nf_drops s + 1\<rparr>"

text \<open>Up to the buffer in hand; \<open>segs\<close> is the chain of buffers lwIP gives.\<close>

definition tx_take :: "bytes list \<Rightarrow> u32 \<Rightarrow> netif \<Rightarrow> tx_result option \<times> netif" where
  "tx_take segs dst s =
     (if \<not> nf_global s \<or> \<not> nf_running s then (Some ERR_IF, s)
      else if sum_list (map length segs) > TX_PACKET_MAX then (Some ERR_BUF, tx_drop s)
      else case nf_free s of
             Some (b # q) \<Rightarrow> (None, s\<lparr>nf_free := Some q, nf_tx_pc := Tx_have b segs dst\<rparr>)
           | _ \<Rightarrow> (Some ERR_MEM, tx_drop s))"

text \<open>The segments are copied one behind the other.\<close>

definition tx_copy :: "bytes list \<Rightarrow> u32 \<Rightarrow> tx_buffer \<Rightarrow> tx_buffer" where
  "tx_copy segs dst b =
     (case fold (\<lambda>seg (off, d). (off + length seg, take off d @ seg @ drop (off + length seg) d)) segs (0, tx_data b) of
        (off, d) \<Rightarrow> b\<lparr>tx_data := d, tx_len := off, tx_dst := dst\<rparr>)"

definition tx_fill :: "netif \<Rightarrow> netif" where
  "tx_fill s = (case nf_tx_pc s of
     Tx_have b segs dst \<Rightarrow> s\<lparr>nf_pool := (nf_pool s)[b := map_option (tx_copy segs dst) (nf_pool s ! b)], nf_tx_pc := Tx_file b\<rparr> | _ \<Rightarrow> s)"

definition tx_queue_up :: "netif \<Rightarrow> tx_result option \<times> netif" where
  "tx_queue_up s = (case (nf_tx_pc s, nf_pending s, nf_free s) of
     (Tx_file b, Some p, Some f) \<Rightarrow>
       (case tx_enqueue b p of
          (True, p) \<Rightarrow> (Some ERR_OK, s\<lparr>nf_pending := Some p, nf_tx_pc := Tx_idle\<rparr>)
        | (False, _) \<Rightarrow> (Some ERR_MEM, tx_drop (s\<lparr>nf_free := Some (snd (tx_enqueue b f)), nf_tx_pc := Tx_idle\<rparr>)))
   | _ \<Rightarrow> (None, s))"

definition lwip_output_callback :: "bytes list \<Rightarrow> u32 option \<Rightarrow> netif \<Rightarrow> tx_result \<times> netif" where
  "lwip_output_callback segs ipaddr s =
     (case tx_take segs (case ipaddr of None \<Rightarrow> 0 | Some a \<Rightarrow> a) s of
        (Some r, s) \<Rightarrow> (r, s)
      | (None, s) \<Rightarrow> (case tx_queue_up (tx_fill s) of (r, s) \<Rightarrow> (case r of Some r \<Rightarrow> r | None \<Rightarrow> ERR_MEM, s)))"

text \<open>The driver's own call takes the destination from the IP header.\<close>

definition header_dst :: "bytes \<Rightarrow> u32" where
  "header_dst p = (if length p \<ge> 20 then get_le32 (p ! 16) (p ! 17) (p ! 18) (p ! 19) else 0)"

definition driver_transmit :: "bytes \<Rightarrow> netif \<Rightarrow> bool \<times> netif" where
  "driver_transmit p s = (case lwip_output_callback [p] (Some (header_dst p)) s of (r, s) \<Rightarrow> (r = ERR_OK, s))"

section \<open>Fetching, in the main loop\<close>

definition get_take :: "netif \<Rightarrow> netif" where
  "get_take s = (case nf_pending s of Some (b # q) \<Rightarrow> s\<lparr>nf_pending := Some q, nf_get_pc := Get_have b\<rparr> | _ \<Rightarrow> s)"

definition tx_contents :: "netif \<Rightarrow> nat \<Rightarrow> bytes \<times> u32" where
  "tx_contents s b = (case nf_pool s ! b of None \<Rightarrow> ([], 0) | Some t \<Rightarrow> (take (min (tx_len t) TX_PACKET_MAX) (tx_data t), tx_dst t))"

definition get_copy :: "netif \<Rightarrow> (bytes \<times> u32) option \<times> netif" where
  "get_copy s = (case nf_get_pc s of Get_have b \<Rightarrow> (Some (tx_contents s b), s\<lparr>nf_get_pc := Get_return b\<rparr>) | _ \<Rightarrow> (None, s))"

definition get_return :: "netif \<Rightarrow> netif" where
  "get_return s = (case (nf_get_pc s, nf_free s) of
     (Get_return b, Some f) \<Rightarrow> s\<lparr>nf_free := Some (snd (tx_enqueue b f)), nf_get_pc := Get_idle\<rparr> | _ \<Rightarrow> s)"

definition get_pending_tx :: "netif \<Rightarrow> (bytes \<times> u32) option \<times> netif" where
  "get_pending_tx s = (case get_copy (get_take s) of (r, s) \<Rightarrow> (r, get_return s))"

definition get_tx_queue_depth :: "netif \<Rightarrow> nat" where
  "get_tx_queue_depth s = (case nf_pending s of None \<Rightarrow> 0 | Some q \<Rightarrow> length q)"

section \<open>Receiving\<close>

record lwip_lib =
  inet_chksum :: "bytes \<Rightarrow> u16"
  inet_chksum_pseudo :: "bytes \<Rightarrow> u8 \<Rightarrow> u16 \<Rightarrow> bytes \<Rightarrow> bytes \<Rightarrow> u16"

definition src_of :: "bytes \<Rightarrow> bytes" where "src_of p = take 4 (drop 12 p)"
definition dst_of :: "bytes \<Rightarrow> bytes" where "dst_of p = take 4 (drop 16 p)"

definition header_len :: "bytes \<Rightarrow> nat" where "header_len p = unat (p ! 0 AND 0x0F) * 4"

text \<open>The length field, cut to what came.\<close>

definition total_len :: "bytes \<Rightarrow> nat" where
  "total_len p = min (unat (get_be16 (p ! 2) (p ! 3))) (length p)"

definition rechecksum_ip :: "lwip_lib \<Rightarrow> bytes \<Rightarrow> bytes \<Rightarrow> bytes" where
  "rechecksum_ip lw beyond p = (let q = put_at 10 0 p in put_at 10 (inet_chksum lw (take (header_len p) (q @ beyond))) q)"

text \<open>The transport checksum at offset \<open>off\<close>, over everything behind the IP header.\<close>

definition rechecksum_at :: "lwip_lib \<Rightarrow> nat \<Rightarrow> u8 \<Rightarrow> nat \<Rightarrow> bytes \<Rightarrow> u16" where
  "rechecksum_at lw off proto n q =
     inet_chksum_pseudo lw (drop off q) proto (word_of_nat n) (src_of q) (dst_of q)"

definition rechecksum_transport :: "lwip_lib \<Rightarrow> bytes \<Rightarrow> bytes" where
  "rechecksum_transport lw p =
     (let hl = header_len p; n = total_len p - hl; proto = p ! 9 in
      if total_len p \<le> hl then p
      else if proto = 6 \<and> n \<ge> 20
      then (let q = put_at (hl + 16) 0 p in put_at (hl + 16) (rechecksum_at lw hl 6 n q) q)
      else if proto = 17 \<and> n \<ge> 8 \<and> (p ! (hl + 6) \<noteq> 0 \<or> p ! (hl + 7) \<noteq> 0)
      then (let q = put_at (hl + 6) 0 p; c = rechecksum_at lw hl 17 n q in put_at (hl + 6) (if c = 0 then 0xFFFF else c) q)
      else p)"

text \<open>\<open>alloc\<close> and \<open>takes\<close>: lwIP has a buffer, and room in its mailbox; \<open>beyond\<close> is what lies behind the copy.\<close>

definition netif_receive :: "lwip_lib \<Rightarrow> bytes \<Rightarrow> bool \<Rightarrow> bool \<Rightarrow> bytes \<Rightarrow> netif \<Rightarrow> netif" where
  "netif_receive lw beyond alloc takes p s =
     (if \<not> nf_running s \<or> \<not> nf_esp s \<or> p = [] then s
      else if drop_bit 4 (p ! 0) \<noteq> 4 then s
      else if nf_lwip s = None \<or> \<not> alloc then s
      else
        let q = (if length p \<ge> 20 then rechecksum_transport lw (rechecksum_ip lw beyond p) else p);
            s = (if length p \<ge> 20 \<and> header_len p > length p then s\<lparr>nf_overread := True\<rparr> else s)
        in if takes then s\<lparr>nf_in := nf_in s @ [q]\<rparr> else s)"

end
