(* ===== verification/Netif_Runs.thy ===== *)
theory Netif_Runs
  imports Ts_Netif "HOL-Library.Multiset"
begin

text \<open>
  What \<open>Ts_Netif\<close> promises: packets go from lwIP's thread to the main loop complete and in order,
  whatever the interleaving, and are refused only for a reason; a failed start leaves nothing behind; and
  what is handed to lwIP carries checksums that verify.
\<close>

section \<open>Runs of the two threads\<close>

datatype netif_event = Taken bytes u32 | Fetched bytes u32

inductive netif_run :: "netif \<Rightarrow> netif_event list \<Rightarrow> netif \<Rightarrow> bool" for s0 where
  begun: "netif_run s0 [] s0"
| take_one: "netif_run s0 tr s \<Longrightarrow> nf_tx_pc s = Tx_idle \<Longrightarrow> tx_take segs dst s = (None, s') \<Longrightarrow> netif_run s0 (tr @ [Taken (concat segs) dst]) s'"
| refuse: "netif_run s0 tr s \<Longrightarrow> nf_tx_pc s = Tx_idle \<Longrightarrow> tx_take segs dst s = (Some r, s') \<Longrightarrow> netif_run s0 tr s'"
| fill: "netif_run s0 tr s \<Longrightarrow> netif_run s0 tr (tx_fill s)"
| queue_up: "netif_run s0 tr s \<Longrightarrow> netif_run s0 tr (snd (tx_queue_up s))"
| get_one: "netif_run s0 tr s \<Longrightarrow> nf_get_pc s = Get_idle \<Longrightarrow> netif_run s0 tr (get_take s)"
| copy_out: "netif_run s0 tr s \<Longrightarrow> get_copy s = (Some (d, a), s') \<Longrightarrow> netif_run s0 (tr @ [Fetched d a]) s'"
| put_back: "netif_run s0 tr s \<Longrightarrow> netif_run s0 tr (get_return s)"
| pause: "netif_run s0 tr s \<Longrightarrow> netif_run s0 tr (netif_stop s)"
| resume: "netif_run s0 tr s \<Longrightarrow> netif_run s0 tr (netif_start s)"
| deliver: "netif_run s0 tr s \<Longrightarrow> netif_run s0 tr (netif_receive lw beyond alloc takes p s)"

fun tx_held :: "tx_pc \<Rightarrow> nat list" where
  "tx_held Tx_idle = []" | "tx_held (Tx_have b _ _) = [b]" | "tx_held (Tx_file b) = [b]"

fun get_held :: "get_pc \<Rightarrow> nat list" where
  "get_held Get_idle = []" | "get_held (Get_have b) = [b]" | "get_held (Get_return b) = [b]"

definition netif_places :: "netif \<Rightarrow> nat list" where
  "netif_places s = the (nf_free s) @ the (nf_pending s) @ tx_held (nf_tx_pc s) @ get_held (nf_get_pc s)"

definition tx_ok :: "tx_buffer option \<Rightarrow> bool" where
  "tx_ok b \<longleftrightarrow> (case b of None \<Rightarrow> False | Some t \<Rightarrow> length (tx_data t) = TX_PACKET_MAX \<and> tx_len t \<le> TX_PACKET_MAX)"

definition netif_inv :: "netif \<Rightarrow> bool" where
  "netif_inv s \<longleftrightarrow> nf_free s \<noteq> None \<and> nf_pending s \<noteq> None \<and> length (nf_pool s) = TX_POOL_SIZE \<and> list_all tx_ok (nf_pool s)
     \<and> distinct (netif_places s) \<and> set (netif_places s) = {..<TX_POOL_SIZE}
     \<and> (case nf_tx_pc s of Tx_have b segs dst \<Rightarrow> sum_list (map length segs) \<le> TX_PACKET_MAX | _ \<Rightarrow> True)"

fun get_unread :: "get_pc \<Rightarrow> nat list" where
  "get_unread (Get_have b) = [b]" | "get_unread _ = []"

fun tx_unsent :: "(nat \<Rightarrow> bytes \<times> u32) \<Rightarrow> tx_pc \<Rightarrow> (bytes \<times> u32) list" where
  "tx_unsent h Tx_idle = []" | "tx_unsent h (Tx_have b segs dst) = [(concat segs, dst)]" | "tx_unsent h (Tx_file b) = [h b]"

text \<open>What has been taken and not yet fetched, the oldest first.\<close>

definition in_flight :: "netif \<Rightarrow> (bytes \<times> u32) list" where
  "in_flight s = map (tx_contents s) (get_unread (nf_get_pc s) @ the (nf_pending s)) @ tx_unsent (tx_contents s) (nf_tx_pc s)"

fun taken_in :: "netif_event list \<Rightarrow> (bytes \<times> u32) list" where
  "taken_in [] = []" | "taken_in (Taken d a # tr) = (d, a) # taken_in tr" | "taken_in (Fetched d a # tr) = taken_in tr"

fun fetched_in :: "netif_event list \<Rightarrow> (bytes \<times> u32) list" where
  "fetched_in [] = []" | "fetched_in (Fetched d a # tr) = (d, a) # fetched_in tr" | "fetched_in (Taken d a # tr) = fetched_in tr"

lemma taken_fetched_append [simp]:
  "taken_in (xs @ ys) = taken_in xs @ taken_in ys" "fetched_in (xs @ ys) = fetched_in xs @ fetched_in ys"
  by (induction xs rule: taken_in.induct) auto

section \<open>Copying\<close>

lemma copy_loop:
  assumes "length d = n" "off + sum_list (map length segs) \<le> n"
  shows "\<exists>d'. fold (\<lambda>seg (off, d). (off + length seg, take off d @ seg @ drop (off + length seg) d)) segs (off, d) = (off + sum_list (map length segs), d')
    \<and> length d' = n \<and> take (off + sum_list (map length segs)) d' = take off d @ concat segs"
  using assms
proof (induction segs arbitrary: off d)
  case (Cons seg segs)
  let ?d = "take off d @ seg @ drop (off + length seg) d"
  have l: "length ?d = n" using Cons.prems by simp
  have t: "take (off + length seg) ?d = take off d @ seg" using Cons.prems by simp
  obtain d' where "fold (\<lambda>seg (off, d). (off + length seg, take off d @ seg @ drop (off + length seg) d)) segs (off + length seg, ?d)
      = (off + length seg + sum_list (map length segs), d')" "length d' = n"
      "take (off + length seg + sum_list (map length segs)) d' = take (off + length seg) ?d @ concat segs"
    using Cons.IH [OF l, of "off + length seg"] Cons.prems by auto
  then show ?case unfolding t by (simp add: add.assoc)
qed simp

lemma tx_copy_ok:
  assumes "tx_ok (Some t)" "sum_list (map length segs) \<le> TX_PACKET_MAX"
  shows "tx_ok (Some (tx_copy segs dst t)) \<and> take (min (tx_len (tx_copy segs dst t)) TX_PACKET_MAX) (tx_data (tx_copy segs dst t)) = concat segs
    \<and> tx_dst (tx_copy segs dst t) = dst"
proof -
  obtain d' where "fold (\<lambda>seg (off, d). (off + length seg, take off d @ seg @ drop (off + length seg) d)) segs (0, tx_data t) = (sum_list (map length segs), d')"
      "length d' = TX_PACKET_MAX" "take (sum_list (map length segs)) d' = concat segs"
    using copy_loop [of "tx_data t" TX_PACKET_MAX 0 segs] assms by (auto simp: tx_ok_def)
  then show ?thesis using assms(2) by (simp add: tx_copy_def tx_ok_def min_absorb1)
qed

section \<open>Every step keeps the buffers apart and the packets in order\<close>

lemma netif_room:
  assumes "netif_inv s" "b \<in> set (tx_held (nf_tx_pc s) @ get_held (nf_get_pc s))"
  shows "length (the (nf_free s)) < TX_POOL_SIZE" "length (the (nf_pending s)) < TX_POOL_SIZE"
proof -
  have "length (netif_places s) = TX_POOL_SIZE" using assms(1) unfolding netif_inv_def by (metis card_lessThan distinct_card)
  moreover have "0 < length (tx_held (nf_tx_pc s) @ get_held (nf_get_pc s))" using assms(2) by (metis length_pos_if_in_set)
  ultimately show "length (the (nf_free s)) < TX_POOL_SIZE" "length (the (nf_pending s)) < TX_POOL_SIZE"
    unfolding netif_places_def length_append by linarith+
qed

lemma tx_contents_frame [simp]:
  "tx_contents (s\<lparr>nf_drops := x1\<rparr>) = tx_contents s" "tx_contents (s\<lparr>nf_pending := x2\<rparr>) = tx_contents s" "tx_contents (s\<lparr>nf_free := x2\<rparr>) = tx_contents s"
  "tx_contents (s\<lparr>nf_tx_pc := x3\<rparr>) = tx_contents s" "tx_contents (s\<lparr>nf_get_pc := x4\<rparr>) = tx_contents s" "tx_contents (s\<lparr>nf_running := x5\<rparr>) = tx_contents s"
  "tx_contents (s\<lparr>nf_in := x6\<rparr>) = tx_contents s" "tx_contents (s\<lparr>nf_overread := x5\<rparr>) = tx_contents s"
  by (simp_all add: tx_contents_def fun_eq_iff)

text \<open>A step that only moves a buffer from one place to another.\<close>

lemma netif_inv_moved:
  assumes "netif_inv s" "mset (netif_places s') = mset (netif_places s)" "nf_free s' \<noteq> None" "nf_pending s' \<noteq> None" "nf_pool s' = nf_pool s"
    and "case nf_tx_pc s' of Tx_have b segs dst \<Rightarrow> sum_list (map length segs) \<le> TX_PACKET_MAX | _ \<Rightarrow> True"
  shows "netif_inv s'"
  using assms mset_eq_imp_distinct_iff [OF assms(2)] mset_eq_setD [OF assms(2)] by (simp add: netif_inv_def)

lemma netif_queues:
  assumes "netif_inv s" obtains f p where "nf_free s = Some f" "nf_pending s = Some p"
  using assms by (auto simp: netif_inv_def)

lemma netif_tx_room: "netif_inv s \<Longrightarrow> case nf_tx_pc s of Tx_have b segs dst \<Rightarrow> sum_list (map length segs) \<le> TX_PACKET_MAX | _ \<Rightarrow> True"
  by (simp add: netif_inv_def)

lemma tx_drop_ok [simp]: "netif_inv (tx_drop s) = netif_inv s" "in_flight (tx_drop s) = in_flight s"
  by (simp_all add: tx_drop_def netif_inv_def netif_places_def in_flight_def)

lemma tx_take_ok:
  assumes "netif_inv s" "nf_tx_pc s = Tx_idle" "tx_take segs dst s = (r, s')"
  shows "netif_inv s' \<and> in_flight s' = in_flight s @ (if r = None then [(concat segs, dst)] else [])"
proof (cases "r = None")
  case False
  then have "s' = s \<or> s' = tx_drop s" using assms(3) by (auto simp: tx_take_def split: if_splits option.splits list.splits)
  then show ?thesis using False assms(1) by auto
next
  case True
  obtain f p where q: "nf_free s = Some f" "nf_pending s = Some p" using netif_queues [OF assms(1)] .
  obtain b f' where f: "f = b # f'" "s' = s\<lparr>nf_free := Some f', nf_tx_pc := Tx_have b segs dst\<rparr>" "sum_list (map length segs) \<le> TX_PACKET_MAX"
    using assms(3) True q by (auto simp: tx_take_def split: if_splits list.splits)
  have "netif_inv s'" by (rule netif_inv_moved [OF assms(1)]) (use q f assms(2) in \<open>simp_all add: netif_places_def\<close>)
  then show ?thesis using True q f assms(2) by (simp add: in_flight_def)
qed

lemma tx_fill_ok:
  assumes "netif_inv s"
  shows "netif_inv (tx_fill s) \<and> in_flight (tx_fill s) = in_flight s"
proof (cases "nf_tx_pc s")
  case (Tx_have b segs dst)
  have b: "b < TX_POOL_SIZE" "b < length (nf_pool s)" using assms Tx_have by (auto simp: netif_inv_def netif_places_def)
  then have ok: "tx_ok (nf_pool s ! b)" using assms by (simp add: netif_inv_def list_all_length)
  then obtain t where t: "nf_pool s ! b = Some t" by (auto simp: tx_ok_def split: option.splits)
  note c = tx_copy_ok [of t segs dst]
  have room: "sum_list (map length segs) \<le> TX_PACKET_MAX" using assms Tx_have by (simp add: netif_inv_def)
  let ?s = "tx_fill s"
  have s: "?s = s\<lparr>nf_pool := (nf_pool s)[b := Some (tx_copy segs dst t)], nf_tx_pc := Tx_file b\<rparr>" using Tx_have t by (simp add: tx_fill_def)
  have "netif_inv ?s" using assms Tx_have c ok t room b unfolding s
    by (auto simp: netif_inv_def netif_places_def intro: list_all_update)
  moreover have "tx_contents ?s b = (concat segs, dst)" using c ok t room b by (simp add: s tx_contents_def)
  moreover have "tx_contents ?s c = tx_contents s c" if "c \<in> set (get_unread (nf_get_pc s) @ the (nf_pending s))" for c
  proof -
    have "c \<noteq> b" using assms Tx_have that by (cases "nf_get_pc s") (auto simp: netif_inv_def netif_places_def)
    then show ?thesis by (simp add: s tx_contents_def)
  qed
  ultimately show ?thesis using Tx_have by (simp add: s in_flight_def)
qed (use assms in \<open>simp_all add: tx_fill_def\<close>)

lemma tx_queue_up_ok:
  assumes "netif_inv s"
  shows "netif_inv (snd (tx_queue_up s)) \<and> in_flight (snd (tx_queue_up s)) = in_flight s \<and> fst (tx_queue_up s) \<in> {None, Some ERR_OK}"
proof (cases "nf_tx_pc s")
  case (Tx_file b)
  obtain f p where q: "nf_free s = Some f" "nf_pending s = Some p" using netif_queues [OF assms] .
  have room: "length p < TX_POOL_SIZE" using netif_room(2) [OF assms, of b] Tx_file q by simp
  have s': "tx_queue_up s = (Some ERR_OK, s\<lparr>nf_pending := Some (p @ [b]), nf_tx_pc := Tx_idle\<rparr>)"
    using Tx_file q room by (simp add: tx_queue_up_def tx_enqueue_def)
  have "netif_inv (snd (tx_queue_up s))"
    by (rule netif_inv_moved [OF assms]) (use q Tx_file s' in \<open>simp_all add: netif_places_def\<close>)
  then show ?thesis using Tx_file q s' by (simp add: in_flight_def)
qed (use assms in \<open>auto simp: tx_queue_up_def\<close>)

lemma get_take_ok:
  assumes "netif_inv s" "nf_get_pc s = Get_idle"
  shows "netif_inv (get_take s) \<and> in_flight (get_take s) = in_flight s"
proof -
  obtain f p where q: "nf_free s = Some f" "nf_pending s = Some p" using netif_queues [OF assms(1)] .
  have "netif_inv (get_take s)"
    by (rule netif_inv_moved [OF assms(1)])
       (use q assms netif_tx_room [OF assms(1)] in \<open>cases p; simp add: netif_places_def get_take_def\<close>)+
  then show ?thesis using q assms(2) by (cases p) (simp_all add: in_flight_def get_take_def)
qed

lemma get_copy_ok:
  assumes "netif_inv s" "get_copy s = (Some (d, a), s')"
  shows "netif_inv s' \<and> in_flight s = (d, a) # in_flight s'"
proof -
  obtain b where b: "nf_get_pc s = Get_have b" "tx_contents s b = (d, a)" "s' = s\<lparr>nf_get_pc := Get_return b\<rparr>"
    using assms(2) by (cases "nf_get_pc s") (auto simp: get_copy_def)
  have "netif_inv s'"
    by (rule netif_inv_moved [OF assms(1)])
       (use b assms(1) netif_tx_room [OF assms(1)] in \<open>simp_all add: netif_places_def netif_inv_def\<close>)
  then show ?thesis using b by (simp add: in_flight_def)
qed

lemma get_return_ok:
  assumes "netif_inv s"
  shows "netif_inv (get_return s) \<and> in_flight (get_return s) = in_flight s"
proof (cases "nf_get_pc s")
  case (Get_return b)
  obtain f p where q: "nf_free s = Some f" "nf_pending s = Some p" using netif_queues [OF assms] .
  have room: "length f < TX_POOL_SIZE" using netif_room(1) [OF assms, of b] Get_return q by simp
  have s': "get_return s = s\<lparr>nf_free := Some (f @ [b]), nf_get_pc := Get_idle\<rparr>"
    using Get_return q room by (simp add: get_return_def tx_enqueue_def)
  have "netif_inv (get_return s)"
    by (rule netif_inv_moved [OF assms]) (use q Get_return s' netif_tx_room [OF assms] in \<open>simp_all add: netif_places_def\<close>)
  then show ?thesis using Get_return q s' by (simp add: in_flight_def)
qed (use assms in \<open>auto simp: get_return_def\<close>)

lemma netif_control_ok:
  "netif_inv (netif_stop s) = netif_inv s" "in_flight (netif_stop s) = in_flight s"
  "netif_inv (netif_start s) = netif_inv s" "in_flight (netif_start s) = in_flight s"
  "netif_inv (netif_receive lw beyond alloc takes p s) = netif_inv s" "in_flight (netif_receive lw beyond alloc takes p s) = in_flight s"
  by (simp_all add: netif_stop_def netif_start_def netif_receive_def netif_inv_def netif_places_def in_flight_def Let_def)

lemma netif_run_ok:
  assumes "netif_run s0 tr s" "netif_inv s0"
  shows "netif_inv s \<and> in_flight s0 @ taken_in tr = fetched_in tr @ in_flight s"
  using assms
proof (induction rule: netif_run.induct)
  case (take_one tr s segs dst s')
  then show ?case using tx_take_ok [of s segs dst None s'] by (simp add: append_assoc [symmetric] del: append_assoc)
next
  case (refuse tr s segs dst r s')
  then show ?case using tx_take_ok [of s segs dst "Some r" s'] by simp
next
  case (copy_out tr s d a s')
  then show ?case using get_copy_ok [of s d a s'] by simp
qed (simp_all add: tx_fill_ok tx_queue_up_ok get_take_ok get_return_ok netif_control_ok)

section \<open>The start\<close>

definition good_malloc :: "netif_env \<Rightarrow> bool" where
  "good_malloc e \<longleftrightarrow> list_all (\<lambda>i. case ne_malloc e i of None \<Rightarrow> True | Some junk \<Rightarrow> length junk = TX_PACKET_MAX) [0..<TX_POOL_SIZE]"

lemma four: "[0..<TX_POOL_SIZE] = [0, 1, 2, 3]"
  by (simp add: TX_POOL_SIZE_def upt_rec)

lemma alloc_tx_pool_cases:
  assumes "alloc_tx_pool e s = (True, s')" "length (nf_pool s) = TX_POOL_SIZE"
  shows "\<exists>j0 j1 j2 j3. ne_malloc e 0 = Some j0 \<and> ne_malloc e 1 = Some j1 \<and> ne_malloc e 2 = Some j2 \<and> ne_malloc e 3 = Some j3
    \<and> s' = s\<lparr>nf_pool := map (\<lambda>j. Some \<lparr>tx_data = j, tx_len = 0, tx_dst = 0\<rparr>) [j0, j1, j2, j3]\<rparr>"
proof -
  obtain a b c d where p: "nf_pool s = [a, b, c, d]" using assms(2) by (auto simp: TX_POOL_SIZE_def numeral_eq_Suc length_Suc_conv)
  show ?thesis using assms(1) p unfolding alloc_tx_pool_def four
    by (auto simp: alloc_tx_buffer_def numeral_eq_Suc split: option.splits if_splits prod.splits)
qed

lemma init_ok:
  assumes "netif_init e ip netif_new = (True, s)" "good_malloc e"
  shows "netif_inv s" "in_flight s = []" "nf_running s"
proof -
  obtain s1 where s1: "alloc_tx_pool e (netif_new\<lparr>nf_ip := ip, nf_global := True\<rparr>) = (True, s1)"
    using assms(1) by (auto simp: netif_init_def netif_new_def split: prod.splits bool.splits)
  obtain j0 j1 j2 j3 where j: "ne_malloc e 0 = Some j0" "ne_malloc e 1 = Some j1" "ne_malloc e 2 = Some j2" "ne_malloc e 3 = Some j3"
      "s1 = netif_new\<lparr>nf_ip := ip, nf_global := True, nf_pool := map (\<lambda>j. Some \<lparr>tx_data = j, tx_len = 0, tx_dst = 0\<rparr>) [j0, j1, j2, j3]\<rparr>"
    using alloc_tx_pool_cases [OF s1] by (auto simp: netif_new_def)
  have l: "length j0 = TX_PACKET_MAX" "length j1 = TX_PACKET_MAX" "length j2 = TX_PACKET_MAX" "length j3 = TX_PACKET_MAX"
    using assms(2) j(1-4) unfolding good_malloc_def four by simp_all
  have s: "nf_pool s = nf_pool s1 \<and> nf_free s = Some [0, 1, 2, 3] \<and> nf_pending s = Some [] \<and> nf_tx_pc s = Tx_idle \<and> nf_get_pc s = Get_idle \<and> nf_running s"
    using assms(1) s1 j(5)
    by (auto simp: netif_init_def netif_new_def netif_attach_def Let_def four tx_enqueue_def TX_POOL_SIZE_def upt_rec split: if_splits option.splits)
  have "{..<4 :: nat} = {0, 1, 2, 3}" by (auto simp: less_Suc_eq numeral_eq_Suc)
  then show "netif_inv s" using s j(5) l by (simp add: netif_inv_def netif_places_def tx_ok_def TX_POOL_SIZE_def)
  show "in_flight s = []" "nf_running s" using s by (simp_all add: in_flight_def)
qed

text \<open>Whatever fails, dropping the object afterwards frees every buffer and both queues.\<close>

lemma failed_init_leaks_nothing:
  "nf_pool (netif_destroy s) = map (\<lambda>_. None) (nf_pool s)" "nf_free (netif_destroy s) = None" "nf_pending (netif_destroy s) = None"
  "\<not> nf_global (netif_destroy s)" "\<not> nf_initialized (netif_destroy s)"
  by (simp_all add: netif_destroy_def free_tx_pool_def netif_stop_def)

text \<open>The number of the interface is not taken, as long as no other has 255.\<close>

lemma next_num_fold:
  assumes "list_all (\<lambda>(name, k). k \<noteq> 255) others"
  shows "n0 \<le> fold (\<lambda>(name, k) n. if name = ''ts'' \<and> k \<ge> n then k + 1 else n) others n0
    \<and> (\<forall>k. (''ts'', k) \<in> set others \<longrightarrow> k < fold (\<lambda>(name, k) n. if name = ''ts'' \<and> k \<ge> n then k + 1 else n) others (n0 :: u8))"
  using assms
proof (induction others arbitrary: n0)
  case (Cons x others)
  obtain name k where x: "x = (name, k)" by (cases x)
  have "k < k + 1" if "k \<noteq> 255"
  proof -
    have "1 + k \<noteq> 0"
    proof
      assume "1 + k = 0"
      then have "k = - 1" by (simp add: add_eq_0_iff)
      then show False using that by simp
    qed
    then show ?thesis using unatSuc [of k] by (simp add: word_less_nat_alt add.commute)
  qed
  then show ?case using Cons.IH [of "if name = ''ts'' \<and> k \<ge> n0 then k + 1 else n0"] Cons.prems x
    by (force simp: not_le split: if_splits)
qed simp

section \<open>Packets from lwIP\<close>

text \<open>
  C15. What lwIP sends reaches the main loop: in every run after a successful start, with both threads
  interleaved in any way, the packets lwIP's thread has taken on are those the main loop has fetched
  followed by those in flight, each once, in order, with the bytes of its segments joined and with its
  destination. No buffer is in two places, and none is refused once taken.
\<close>

theorem lwip_packets_in_order:
  assumes "netif_init e ip netif_new = (True, s0)" "good_malloc e" "netif_run s0 tr s"
  shows "taken_in tr = fetched_in tr @ in_flight s \<and> distinct (netif_places s) \<and> length (netif_places s) = TX_POOL_SIZE
    \<and> fst (tx_queue_up s) \<in> {None, Some ERR_OK}"
proof -
  have r: "netif_inv s \<and> in_flight s0 @ taken_in tr = fetched_in tr @ in_flight s"
    by (rule netif_run_ok [OF assms(3) init_ok(1) [OF assms(1,2)]])
  then have "length (netif_places s) = TX_POOL_SIZE" unfolding netif_inv_def by (metis card_lessThan distinct_card)
  then show ?thesis using r init_ok(2) [OF assms(1,2)] tx_queue_up_ok [of s] by (simp add: netif_inv_def)
qed

definition toy_netif_env :: netif_env where
  "toy_netif_env = \<lparr>ne_malloc = (\<lambda>_. Some (replicate TX_PACKET_MAX 7)), ne_queues = (True, True), ne_esp_new = True, ne_aton = (\<lambda>_. Some 0x02004064),
     ne_set_ip = True, ne_impl = True, ne_listed = None, ne_others = [(''st'', 1), (''ts'', 0)]\<rparr>"

definition toy_netif :: netif where
  "toy_netif = snd (netif_init toy_netif_env ''100.64.0.2'' netif_new)"

lemma toy_netif_init: "netif_init toy_netif_env ''100.64.0.2'' netif_new = (True, toy_netif)"
  by (simp add: toy_netif_def netif_init_def toy_netif_env_def netif_new_def alloc_tx_pool_def four alloc_tx_buffer_def netif_attach_def Let_def)

lemma toy_netif_run: "netif_run toy_netif [Taken (concat [[1, 2], [3]]) 9] (snd (tx_queue_up (tx_fill (snd (tx_take [[1, 2], [3]] 9 toy_netif)))))"
proof -
  have f: "nf_tx_pc toy_netif = Tx_idle" "tx_take [[1, 2], [3]] 9 toy_netif = (None, snd (tx_take [[1, 2], [3]] 9 toy_netif))"
    by (simp_all add: toy_netif_def netif_init_def toy_netif_env_def netif_new_def alloc_tx_pool_def four alloc_tx_buffer_def netif_attach_def Let_def
        tx_take_def TX_PACKET_MAX_def tx_enqueue_def) (simp_all add: TX_POOL_SIZE_def numeral_eq_Suc)
  show ?thesis using take_one [OF begun f] by (intro queue_up fill) simp
qed

theorem lwip_packets_in_order_witness:
  "taken_in [Taken (concat [[1, 2], [3]]) 9] = fetched_in [Taken (concat [[1, 2], [3]]) 9]
      @ in_flight (snd (tx_queue_up (tx_fill (snd (tx_take [[1, 2], [3]] 9 toy_netif)))))
    \<and> distinct (netif_places (snd (tx_queue_up (tx_fill (snd (tx_take [[1, 2], [3]] 9 toy_netif))))))
    \<and> length (netif_places (snd (tx_queue_up (tx_fill (snd (tx_take [[1, 2], [3]] 9 toy_netif)))))) = TX_POOL_SIZE
    \<and> fst (tx_queue_up (snd (tx_queue_up (tx_fill (snd (tx_take [[1, 2], [3]] 9 toy_netif)))))) \<in> {None, Some ERR_OK}"
  by (rule lwip_packets_in_order [OF toy_netif_init _ toy_netif_run]) (simp add: good_malloc_def toy_netif_env_def list_all_iff)

text \<open>A packet is refused only while the interface is down, when it is too large, or when no buffer is free.\<close>

lemma refused_for_a_reason:
  assumes "netif_inv s" "tx_take segs dst s = (Some r, s')"
  shows "r = ERR_IF \<and> (\<not> nf_global s \<or> \<not> nf_running s) \<or> r = ERR_BUF \<and> length (concat segs) > TX_PACKET_MAX \<or> r = ERR_MEM \<and> nf_free s = Some []"
  using assms by (auto simp: tx_take_def length_concat netif_inv_def split: if_splits option.splits list.splits)

section \<open>Packets for lwIP\<close>

text \<open>What lwIP documents of its checksum functions: the Internet checksum, over a pseudo-header and the whole buffer.\<close>

definition lwip_checksums :: "lwip_lib \<Rightarrow> bool" where
  "lwip_checksums lw \<longleftrightarrow> (\<forall>h. inet_chksum lw h = calculate_ip_checksum h)
     \<and> (\<forall>d proto n src dst. inet_chksum_pseudo lw d proto n src dst = checksum16 (sum16 (sum16 0 (src @ dst) + ucast proto + ucast n) d))"

lemma sum16_zeros: "sum16 s (replicate k 0) = s"
  by (induction k arbitrary: s rule: nat_induct2) auto

lemma sum16_padded: "sum16 s (d @ replicate k 0) = sum16 s d"
proof (induction s d rule: sum16.induct)
  case (2 s a)
  show ?case by (cases k) (simp_all add: sum16_zeros)
qed (simp_all add: sum16_zeros)

lemma put_at_untouched: "n \<le> i \<Longrightarrow> take n (put_at i c p) = take n p"
  by (simp add: put_at_def)

lemma take_put_at_inside: "i + 1 < n \<Longrightarrow> take n (put_at i c p) = put_at i c (take n p)"
  by (simp add: put_at_def take_update_swap)

lemma drop_put_at_inside: "n \<le> i \<Longrightarrow> drop n (put_at i c p) = put_at (i - n) c (drop n p)"
  by (simp add: put_at_def drop_update_swap Suc_diff_le)

lemma drop_put_at_before: "i + 1 < n \<Longrightarrow> drop n (put_at i c p) = drop n p"
  by (rule drop_put_at)

lemma put_at_zero: "i + 1 < length p \<Longrightarrow> put_at i 0 p ! i = 0 \<and> put_at i 0 p ! (i + 1) = 0"
  by (simp add: put_at_def)

text \<open>
  C22. Whatever checksums a TCP packet from the tunnel carries, zeroed by an offloading sender for
  instance, the packet handed to lwIP has an IP and a TCP checksum that verify, over the length its header
  announces, although the tunnel padded it with zeros; every other byte is as it came.
\<close>

theorem injected_checksums_verify:
  assumes "lwip_checksums lw" "nf_running s" "nf_esp s" "nf_lwip s \<noteq> None" "length p < 65536" "p ! 0 = 0x45" "p ! 9 = 6"
    and "unat (get_be16 (p ! 2) (p ! 3)) = 20 + n" "20 \<le> n" "p = take (20 + n) p @ replicate k 0" "20 + n + k = length p"
  shows "\<exists>q. nf_in (netif_receive lw beyond True True p s) = nf_in s @ [q] \<and> length q = length p
    \<and> calculate_ip_checksum (take 20 q) = 0 \<and> calculate_tcp_checksum (take 20 q) (take n (drop 20 q)) = 0
    \<and> (\<forall>i. i \<notin> {10, 11, 36, 37} \<longrightarrow> q ! i = p ! i)"
proof -
  have len: "40 \<le> length p" using assms(9,11) by simp
  define p0 where "p0 = put_at 10 0 p"
  define p1 where "p1 = put_at 10 (calculate_ip_checksum (take 20 p0)) p0"
  define q0 where "q0 = put_at 36 0 p1"
  define c where "c = rechecksum_at lw 20 6 n q0"
  define q where "q = put_at 36 c q0"
  have hl: "header_len p = 20" "header_len p1 = 20" using assms(6) by (simp_all add: header_len_def p1_def p0_def nth_put_at)
  have lens: "length p0 = length p" "length p1 = length p" "length q0 = length p" "length q = length p"
    by (simp_all add: p0_def p1_def q0_def q_def)
  have "take 20 (p0 @ beyond) = take 20 p0" using len lens by simp
  then have ip: "rechecksum_ip lw beyond p = p1"
    using assms(1) len by (simp add: rechecksum_ip_def hl lwip_checksums_def p1_def p0_def Let_def)
  have tl: "total_len p1 = 20 + n" using assms(8,11) lens by (simp add: total_len_def p1_def p0_def nth_put_at)
  have tr: "rechecksum_transport lw p1 = q"
    using assms(7,9) by (simp add: rechecksum_transport_def hl tl Let_def p1_def [symmetric] q_def c_def q0_def)
       (simp add: p1_def p0_def nth_put_at)
  have recv: "nf_in (netif_receive lw beyond True True p s) = nf_in s @ [q]"
    using assms(2-4,6) len by (simp add: netif_receive_def ip tr hl Let_def) auto
  have ip0: "calculate_ip_checksum (take 20 q) = 0"
  proof -
    have t: "take 20 q = put_at 10 (checksum16 (sum16 0 (take 20 p0))) (take 20 p0)"
      by (simp add: q_def q0_def p1_def put_at_untouched take_put_at_inside calculate_ip_checksum_def)
    have z: "take 20 p0 ! 10 = 0" "take 20 p0 ! (10 + 1) = 0" using put_at_zero [of 10 p] len by (simp_all add: p0_def)
    have b: "unat (0 :: u32) + nsum (take 20 p0) + 65535 < 2 ^ 32" using nsum_bound [of "take 20 p0"] by simp
    show ?thesis unfolding calculate_ip_checksum_def t by (rule checksum_verifies [OF _ _ z b]) (use len lens in simp_all)
  qed
  have seg: "drop 20 q = put_at 16 c (drop 20 q0)" "drop 20 q0 = put_at 16 0 (drop 20 p)"
    by (simp_all add: q_def q0_def p1_def p0_def drop_put_at_inside drop_put_at_before)
  have addrs: "take 8 (drop 12 (take 20 q)) = src_of q0 @ dst_of q0"
  proof -
    have "take 20 q = take 20 q0" by (simp add: q_def put_at_untouched)
    then have "take 8 (drop 12 (take 20 q)) = take 8 (drop 12 q0)" by (simp add: drop_take)
    also have "\<dots> = take 4 (drop 12 q0) @ take 4 (drop 16 q0)" using take_add [of 4 4 "drop 12 q0"] by simp
    finally show ?thesis by (simp add: src_of_def dst_of_def)
  qed
  let ?s = "pseudo_sum (take 20 q) n"
  have n16: "n < 65536" using assms(5,11) by simp
  have c: "c = checksum16 (sum16 ?s (drop 20 q0))"
  proof -
    have "ucast (word_of_nat n :: u16) = (word_of_nat n :: u32)" using n16 by (simp add: unsigned_ucast_eq word_eq_iff_unsigned [where 'a = nat] unat_of_nat take_bit_nat_eq_self)
    then show ?thesis using assms(1) by (simp add: c_def rechecksum_at_def lwip_checksums_def pseudo_sum_def addrs)
  qed
  have tcp: "checksum16 (sum16 ?s (drop 20 q)) = 0"
  proof -
    have z: "drop 20 q0 ! 16 = 0" "drop 20 q0 ! (16 + 1) = 0" using put_at_zero [of 16 "drop 20 p"] len unfolding seg(2) by simp_all
    have "nsum (take 8 (drop 12 (take 20 q))) \<le> 65535 * 8"
      using nsum_bound [of "take 8 (drop 12 (take 20 q))"] by (rule order_trans) simp
    then have "unat (sum16 0 (take 8 (drop 12 (take 20 q)))) \<le> 65535 * 8"
      using unat_sum16 [of 0 "take 8 (drop 12 (take 20 q))"] by simp
    moreover have "unat (sum16 0 (take 8 (drop 12 (take 20 q))) + 6 + word_of_nat n :: u32) \<le> unat (sum16 0 (take 8 (drop 12 (take 20 q)))) + 6 + n"
      using n16 by (simp add: unat_word_ariths unat_of_nat)
    ultimately have "unat ?s \<le> 65535 * 8 + 6 + n" by (simp add: pseudo_sum_def)
    moreover have "nsum (drop 20 q0) \<le> 65535 * 65515" using nsum_bound [of "drop 20 q0"] lens assms(5) by (simp add: order_trans [OF _ mult_le_mono2])
    ultimately have b: "unat ?s + nsum (drop 20 q0) + 65535 < 2 ^ 32" using n16 by simp
    show ?thesis unfolding seg(1) c by (rule checksum_verifies [OF _ _ z b]) (use len lens in simp_all)
  qed
  have "drop 20 q = take n (drop 20 q) @ replicate k 0"
  proof -
    have "drop (20 + n) q = drop (20 + n) p" using assms(9) by (simp add: q_def q0_def p1_def p0_def drop_put_at)
    also have "\<dots> = replicate k 0" using assms(10,11) by (metis append_eq_conv_conj length_take min.absorb2 le_add1)
    finally show ?thesis by (metis append_take_drop_id drop_drop add.commute)
  qed
  then have "sum16 ?s (take n (drop 20 q)) = sum16 ?s (drop 20 q)" by (metis sum16_padded)
  then have "calculate_tcp_checksum (take 20 q) (take n (drop 20 q)) = 0"
    using tcp lens assms(11) by (simp add: calculate_tcp_checksum_def min_absorb2)
  moreover have "q ! i = p ! i" if "i \<notin> {10, 11, 36, 37}" for i
    using that by (simp add: q_def q0_def p1_def p0_def nth_put_at)
  ultimately show ?thesis using recv lens(4) ip0 by blast
qed

definition toy_lwip :: lwip_lib where
  "toy_lwip = \<lparr>inet_chksum = calculate_ip_checksum,
     inet_chksum_pseudo = (\<lambda>d proto n src dst. checksum16 (sum16 (sum16 0 (src @ dst) + ucast proto + ucast n) d))\<rparr>"

definition toy_segment :: bytes where
  "toy_segment = [0x45, 0, 0, 42, 0, 1, 0x40, 0, 64, 6, 0, 0, 100, 64, 0, 3, 100, 64, 0, 2]
     @ [0x10, 0, 0x1F, 0x90, 0, 0, 0, 1, 0, 0, 0, 2, 0x50, 0x18, 0x10, 0, 0, 0, 0, 0, 104, 105] @ replicate 6 0"

theorem injected_checksums_verify_witness:
  "\<exists>q. nf_in (netif_receive toy_lwip [] True True toy_segment toy_netif) = nf_in toy_netif @ [q] \<and> length q = length toy_segment
    \<and> calculate_ip_checksum (take 20 q) = 0 \<and> calculate_tcp_checksum (take 20 q) (take 22 (drop 20 q)) = 0
    \<and> (\<forall>i. i \<notin> {10, 11, 36, 37} \<longrightarrow> q ! i = toy_segment ! i)"
proof (rule injected_checksums_verify [where k = 6])
  show "lwip_checksums toy_lwip" by (simp add: lwip_checksums_def toy_lwip_def)
  show "nf_running toy_netif" "nf_esp toy_netif" "nf_lwip toy_netif \<noteq> None"
    by (simp_all add: toy_netif_def netif_init_def toy_netif_env_def netif_new_def alloc_tx_pool_def four alloc_tx_buffer_def netif_attach_def Let_def)
  have l: "length toy_segment = 48" by (simp add: toy_segment_def)
  then show "length toy_segment < 65536" "20 + 22 + 6 = length toy_segment" by simp_all
  show "toy_segment ! 0 = 0x45" "toy_segment ! 9 = 6" by (simp_all add: toy_segment_def)
  have "toy_segment ! 2 = 0" "toy_segment ! 3 = 42" by (simp_all add: toy_segment_def)
  then show "unat (get_be16 (toy_segment ! 2) (toy_segment ! 3)) = 20 + 22" by (simp add: get_be16_def)
  show "toy_segment = take (20 + 22) toy_segment @ replicate 6 0" by (simp add: toy_segment_def)
qed simp

text \<open>A header length beyond the packet makes the checksum read behind the buffer.\<close>

lemma long_header_overreads:
  assumes "nf_running s" "nf_esp s" "nf_lwip s \<noteq> None" "drop_bit 4 (p ! 0) = 4" "20 \<le> length p" "length p < header_len p"
  shows "nf_overread (netif_receive lw beyond True takes p s)"
  using assms by (auto simp: netif_receive_def Let_def)

end
