(* ===== verification/Http_Server.thy ===== *)
theory Http_Server
  imports Control_Plane Tcp_Stack
begin

text \<open>
  \<^verbatim>\<open>http_server.cpp\<close>: the status page on port 8080 of the node's own TCP endpoint. The
  server keeps a buffer for each connection, by the connection's address; the callbacks of
  \<open>Tcp_Stack\<close> are snapshots of it (\<open>http_socket\<close>). What a handler sends is the list of its texts.
  The page reads the component through \<open>page_info\<close>, \<open>None\<close> when the server has no component.
\<close>

section \<open>Requests\<close>

record http_request =
  rq_method :: string
  rq_path :: string
  rq_version :: string
  rq_headers :: "string \<rightharpoonup> string"

abbreviation LF :: char where "LF \<equiv> CHR 0x0A"
abbreviation CR :: char where "CR \<equiv> CHR 0x0D"

text \<open>A line up to the next line feed, which is taken off, and the rest.\<close>

definition getline :: "string \<Rightarrow> string \<times> string" where
  "getline s = (takeWhile (\<lambda>c. c \<noteq> LF) s, drop 1 (dropWhile (\<lambda>c. c \<noteq> LF) s))"

definition pop_cr :: "string \<Rightarrow> string" where
  "pop_cr l = (if l \<noteq> [] \<and> last l = CR then butlast l else l)"

definition isspace :: "char \<Rightarrow> bool" where
  "isspace c \<longleftrightarrow> c \<in> {CHR '' '', CHR 0x09, CHR 0x0A, CHR 0x0B, CHR 0x0C, CHR 0x0D}"

definition read_word :: "string \<Rightarrow> string \<times> string" where
  "read_word s = (let s = dropWhile isspace s in (takeWhile (\<lambda>c. \<not> isspace c) s, dropWhile (\<lambda>c. \<not> isspace c) s))"

definition request_line :: "string \<Rightarrow> (string \<times> string \<times> string) option" where
  "request_line l =
     (case read_word l of (m, l) \<Rightarrow> case read_word l of (p, l) \<Rightarrow> case read_word l of (v, _) \<Rightarrow>
        if m = [] \<or> p = [] \<or> v = [] then None else Some (m, p, v))"

definition header_field :: "string \<Rightarrow> (string \<rightharpoonup> string) \<Rightarrow> (string \<rightharpoonup> string)" where
  "header_field l hs =
     (let l = pop_cr l in
      case find_in '':'' l of None \<Rightarrow> hs
      | Some i \<Rightarrow> (let v = drop (i + 1) l in hs(take i l \<mapsto> (if v \<noteq> [] \<and> hd v = CHR '' '' then tl v else v))))"

function parse_headers :: "string \<Rightarrow> (string \<rightharpoonup> string) \<Rightarrow> (string \<rightharpoonup> string)" where
  "parse_headers s hs =
     (if s = [] then hs
      else case getline s of (l, r) \<Rightarrow> if l = [] \<or> l = [CR] then hs else parse_headers r (header_field l hs))"
  by pat_completeness auto

termination
  by (relation "measure (\<lambda>(s, _). length s)") (auto simp: getline_def less_Suc_eq_le neq_Nil_conv le_imp_less_Suc length_dropWhile_le diff_le_self [THEN order_trans])

declare parse_headers.simps [simp del]

definition parse_request :: "string \<Rightarrow> http_request option" where
  "parse_request s =
     (if s = [] then None
      else case getline s of (l, r) \<Rightarrow>
        (case request_line (pop_cr l) of None \<Rightarrow> None
         | Some (m, p, v) \<Rightarrow> Some \<lparr>rq_method = m, rq_path = p, rq_version = v, rq_headers = parse_headers r Map.empty\<rparr>))"

section \<open>Responses\<close>

definition status_text :: "nat \<Rightarrow> string" where
  "status_text code =
     (if code = 200 then ''OK'' else if code = 201 then ''Created'' else if code = 204 then ''No Content''
      else if code = 400 then ''Bad Request'' else if code = 404 then ''Not Found''
      else if code = 405 then ''Method Not Allowed'' else if code = 500 then ''Internal Server Error'' else ''Unknown'')"

definition response_text :: "nat \<Rightarrow> string \<Rightarrow> string \<Rightarrow> string" where
  "response_text code body content_type =
     ''HTTP/1.1 '' @ show_nat code @ '' '' @ status_text code @ ws_crlf
     @ ''Content-Type: '' @ content_type @ ws_crlf
     @ ''Content-Length: '' @ show_nat (length body) @ ws_crlf
     @ ''Connection: close'' @ ws_crlf @ ws_crlf @ body"

definition send_json :: "nat \<Rightarrow> string \<Rightarrow> string" where
  "send_json code j = response_text code j ''application/json''"

definition send_html :: "nat \<Rightarrow> string \<Rightarrow> string" where
  "send_html code h = response_text code h ''text/html''"

section \<open>The pages\<close>

text \<open>A peer's node id and whether it is online come beside its entry of the peer table.\<close>

record page_info =
  pg_state :: ts_state
  pg_node_id :: u64
  pg_ipv4 :: string
  pg_ipv6 :: string
  pg_region :: string
  pg_peers :: "(u64 \<times> bool \<times> peer_info) list"

type_synonym page_handler = "page_info option \<Rightarrow> http_request \<Rightarrow> string list"

definition page_top :: string where
  "page_top = concat (map (\<lambda>l. l @ [LF])
     [''<!DOCTYPE html>'', ''<html>'', ''<head>'', ''<title>ESP32 Tailscale</title>'',
      ''<style>body{font-family:sans-serif;margin:40px;} h1{color:#333;}</style>'', ''</head>'', ''<body>'',
      ''<h1>ESP32 Tailscale Node</h1>'', ''<p>Welcome to the ESP32 Tailscale HTTP server!</p>'',
      ''<h2>Available Endpoints:</h2>'', ''<ul>'',
      ''<li><a href='' @ quoted ''/status'' @ ''>/status</a> - Connection status (JSON)</li>'',
      ''<li><a href='' @ quoted ''/info'' @ ''>/info</a> - Device information (JSON)</li>'', ''</ul>''])"

fun state_html :: "ts_state \<Rightarrow> string" where
  "state_html TS_IDLE = ''Idle''"
| "state_html TS_INITIALIZING = ''Initializing''"
| "state_html TS_REGISTERING = ''Registering''"
| "state_html TS_REGISTERED = ''Registered''"
| "state_html TS_FETCHING_MAP = ''Fetching Map''"
| "state_html TS_CONNECTED = ''<strong style='color:green;'>Connected</strong>''"
| "state_html TS_ERROR = ''<strong style='color:red;'>Error</strong>''"

fun state_name :: "ts_state \<Rightarrow> string" where
  "state_name TS_IDLE = ''idle''"
| "state_name TS_INITIALIZING = ''initializing''"
| "state_name TS_REGISTERING = ''registering''"
| "state_name TS_REGISTERED = ''registered''"
| "state_name TS_FETCHING_MAP = ''fetching_map''"
| "state_name TS_CONNECTED = ''connected''"
| "state_name TS_ERROR = ''error''"

definition handle_root :: page_handler where
  "handle_root n req = [send_html 200
     (page_top
      @ (case n of None \<Rightarrow> []
         | Some i \<Rightarrow> ''<h2>Current Status:</h2>'' @ [LF] @ ''<p>State: '' @ state_html (pg_state i) @ ''</p>'' @ [LF])
      @ ''</body>'' @ [LF] @ ''</html>'' @ [LF])]"

definition handle_status :: page_handler where
  "handle_status n req = [send_json 200
     (''{'' @ quoted ''connected'' @ '':''
      @ (case n of None \<Rightarrow> ''false,'' @ quoted ''state'' @ '':'' @ quoted ''unknown''
         | Some i \<Rightarrow> json_bool (pg_state i = TS_CONNECTED) @ '','' @ quoted ''state'' @ '':'' @ quoted (state_name (pg_state i)))
      @ ''}'')]"

definition page_peer :: "u64 \<times> bool \<times> peer_info \<Rightarrow> string" where
  "page_peer = (\<lambda>(nid, online, p).
     ''{'' @ quoted ''node_id'' @ '':'' @ show_nat (unat nid) @ '',''
     @ quoted ''hostname'' @ '':'' @ quoted (p_hostname p) @ '',''
     @ quoted ''endpoint'' @ '':'' @ quoted (p_endpoint p @ '':'' @ show_nat (unat (p_port p))) @ '',''
     @ quoted ''online'' @ '':'' @ json_bool online @ ''}'')"

fun peer_list :: "bool \<Rightarrow> (u64 \<times> bool \<times> peer_info) list \<Rightarrow> string" where
  "peer_list later [] = []"
| "peer_list later (p # ps) = (if later then '','' else []) @ page_peer p @ peer_list True ps"

definition handle_info :: page_handler where
  "handle_info n req = [send_json 200
     (''{''
      @ (case n of
           Some i \<Rightarrow>
             (if pg_state i = TS_CONNECTED then
                quoted ''node_id'' @ '':'' @ show_nat (unat (pg_node_id i)) @ '',''
                @ quoted ''ipv4'' @ '':'' @ quoted (pg_ipv4 i) @ '',''
                @ quoted ''ipv6'' @ '':'' @ quoted (pg_ipv6 i) @ '',''
                @ quoted ''derp_region'' @ '':'' @ quoted (pg_region i) @ '',''
                @ quoted ''peer_count'' @ '':'' @ show_nat (length (pg_peers i))
                @ '','' @ quoted ''peers'' @ '':['' @ peer_list False (pg_peers i) @ '']''
              else quoted ''error'' @ '':'' @ quoted ''Not connected to Tailscale network'')
         | None \<Rightarrow> quoted ''error'' @ '':'' @ quoted ''Not connected to Tailscale network'')
      @ ''}'')]"

definition handle_404 :: page_handler where
  "handle_404 n req = [send_json 404 (''{'' @ quoted ''error'' @ '':'' @ quoted ''Not Found'' @ '','' @ quoted ''path'' @ '':'' @ quoted (rq_path req) @ ''}'')]"

section \<open>The server\<close>

record connection_state =
  cs_buffer :: string
  request_complete :: bool

record http_server =
  routes :: "string \<rightharpoonup> page_handler"
  connection_states :: "nat \<rightharpoonup> connection_state"

definition http_on :: "string \<Rightarrow> page_handler \<Rightarrow> http_server \<Rightarrow> http_server" where
  "http_on path f h = h\<lparr>routes := (routes h)(path \<mapsto> f)\<rparr>"

definition http_new :: http_server where
  "http_new = http_on ''/info'' handle_info (http_on ''/status'' handle_status (http_on ''/'' handle_root
     \<lparr>routes = Map.empty, connection_states = Map.empty\<rparr>))"

definition handle_request :: "page_info option \<Rightarrow> http_server \<Rightarrow> http_request \<Rightarrow> string list" where
  "handle_request n h req =
     (if rq_method req \<noteq> ''GET'' then [send_json 405 (''{'' @ quoted ''error'' @ '':'' @ quoted ''Method Not Allowed'' @ ''}'')]
      else case routes h (rq_path req) of Some f \<Rightarrow> f n req | None \<Rightarrow> handle_404 n req)"

text \<open>The callbacks; \<open>a\<close> is the address of the connection's record.\<close>

definition new_connection_state :: connection_state where
  "new_connection_state = \<lparr>cs_buffer = [], request_complete = False\<rparr>"

definition http_on_connect :: "nat \<Rightarrow> http_server \<Rightarrow> http_server" where
  "http_on_connect a h = h\<lparr>connection_states := (connection_states h)(a \<mapsto> new_connection_state)\<rparr>"

definition answer :: "page_info option \<Rightarrow> http_server \<Rightarrow> string \<Rightarrow> string list" where
  "answer n h text = (case parse_request text of Some req \<Rightarrow> handle_request n h req
     | None \<Rightarrow> [send_json 400 (''{'' @ quoted ''error'' @ '':'' @ quoted ''Bad Request'' @ ''}'')])"

definition http_on_data :: "page_info option \<Rightarrow> nat \<Rightarrow> string \<Rightarrow> http_server \<Rightarrow> nat \<times> string list \<times> http_server" where
  "http_on_data n a data h =
     (let st = (case connection_states h a of None \<Rightarrow> new_connection_state | Some st \<Rightarrow> st); b = cs_buffer st @ data in
      case find_in (ws_crlf @ ws_crlf) b of
        None \<Rightarrow> (length data, [], h\<lparr>connection_states := (connection_states h)(a \<mapsto> st\<lparr>cs_buffer := b\<rparr>)\<rparr>)
      | Some i \<Rightarrow> (i + 4, answer n h (take (i + 4) b),
                  h\<lparr>connection_states := (connection_states h)(a \<mapsto> st\<lparr>cs_buffer := [], request_complete := True\<rparr>)\<rparr>))"

definition http_on_disconnect :: "nat \<Rightarrow> http_server \<Rightarrow> http_server" where
  "http_on_disconnect a h = h\<lparr>connection_states := (connection_states h)(a := None)\<rparr>"

text \<open>The server as a socket of the endpoint, in its present state; it sends nothing when it is told of a connection or of its end.\<close>

definition http_socket :: "page_info option \<Rightarrow> nat \<Rightarrow> http_server \<Rightarrow> socket" where
  "http_socket n a h = \<lparr>on_connect = (\<lambda>_. []),
     on_data = (\<lambda>_ bs. case http_on_data n a (string_of bs) h of (k, texts, _) \<Rightarrow> (k, map (\<lambda>t. SendData (bytes_of t)) texts)),
     on_disconnect = (\<lambda>_. [])\<rparr>"

text \<open>What the endpoint does with received data: it is handed over with what the server has left before.\<close>

definition http_segment :: "page_info option \<Rightarrow> nat \<Rightarrow> string \<Rightarrow> string \<times> http_server \<Rightarrow> string list \<times> string \<times> http_server" where
  "http_segment n a data = (\<lambda>(rx, h).
     let rx = rx @ data in
     case http_on_data n a rx h of (k, out, h) \<Rightarrow> (out, if 0 < k \<and> k \<le> length rx then drop k rx else rx, h))"

end
