(* ===== verification/Http_Pages.thy ===== *)
theory Http_Pages
  imports Http_Server Tcp_Delivery
begin

text \<open>
  What \<open>Http_Server\<close> serves: a request that comes in any number of segments is answered once, behind its
  last segment, over the endpoint of \<open>Tcp_Stack\<close>; the documents are well-formed JSON; and what goes
  wrong behind a request that came in pieces.
\<close>

section \<open>The end of a request\<close>

lemma find_in_append: "find_in p a = Some j \<Longrightarrow> find_in p (a @ b) = Some j \<and> j + length p \<le> length a"
proof (induction a arbitrary: j)
  case Nil
  then show ?case by (cases b) (auto split: if_splits)
next
  case (Cons x a)
  have "length p \<le> Suc (length a)" if "take (length p) (x # a) = p" using arg_cong [OF that, of length] by simp
  moreover have "take (length p) (x # a @ b) = p" if "take (length p) (x # a) = p"
    using calculation [OF that] that take_append [of "length p" "x # a" b] by simp
  moreover have "take (length p) (x # a) = p" if "length p \<le> Suc (length a)" "take (length p) (x # a @ b) = p"
    using that take_append [of "length p" "x # a" b] by simp
  ultimately show ?case using Cons by (auto split: if_splits)
qed

lemma find_in_prefix_None:
  assumes "find_in p (a @ b) = Some i" "length a < i + length p"
  shows "find_in p a = None"
  using assms find_in_append [of p a _ b] by (cases "find_in p a") auto

abbreviation break4 :: string where "break4 \<equiv> ws_crlf @ ws_crlf"

lemma length_ws_crlf [simp]: "length ws_crlf = 2"
  by (simp add: ws_crlf_def)

lemma find_break_skip: "c \<noteq> CR \<Longrightarrow> find_in break4 (c # s) = map_option Suc (find_in break4 s)"
  by (auto simp: ws_crlf_def)

lemma find_break_line:
  assumes "list_all (\<lambda>c. c \<noteq> CR) l"
  shows "find_in break4 (l @ ws_crlf @ r) = (if take 2 r = ws_crlf then Some (length l) else map_option (\<lambda>i. Suc (Suc (length l + i))) (find_in break4 r))"
  using assms
proof (induction l)
  case Nil
  have "take 2 r = ws_crlf \<longleftrightarrow> take (length break4) (ws_crlf @ r) = break4"
    by (simp add: ws_crlf_def eval_nat_numeral)
  then show ?case using find_break_skip [of LF r] by (auto simp: ws_crlf_def option.map_comp comp_def)
next
  case (Cons c l)
  then show ?case using find_break_skip [of c "l @ ws_crlf @ r"] by (auto simp: option.map_comp comp_def)
qed

text \<open>A request as clients send it: the lines hold no line breaks, the path no white space.\<close>

definition header_line :: "string \<times> string \<Rightarrow> string" where
  "header_line = (\<lambda>(k, v). k @ '': '' @ v @ ws_crlf)"

definition get_request :: "string \<Rightarrow> (string \<times> string) list \<Rightarrow> string" where
  "get_request path hdrs = ''GET '' @ path @ '' HTTP/1.1'' @ ws_crlf @ concat (map header_line hdrs) @ ws_crlf"

definition header_ok :: "string \<times> string \<Rightarrow> bool" where
  "header_ok = (\<lambda>(k, v). list_all (\<lambda>c. c \<noteq> CR \<and> c \<noteq> LF) (k @ v))"

definition path_ok :: "string \<Rightarrow> bool" where
  "path_ok p \<longleftrightarrow> p \<noteq> [] \<and> list_all (\<lambda>c. \<not> isspace c) p"

lemma headers_break: "list_all header_ok hdrs \<Longrightarrow> take 2 (concat (map header_line hdrs) @ ws_crlf) = ws_crlf \<longleftrightarrow> hdrs = []"
proof (cases hdrs)
  case (Cons y ys)
  obtain k v where y: "y = (k, v)" by (cases y)
  assume "list_all header_ok hdrs"
  then have "list_all (\<lambda>c. c \<noteq> CR) k" by (auto simp: y header_ok_def list_all_iff Cons)
  then show ?thesis by (cases k) (auto simp: Cons y header_line_def ws_crlf_def eval_nat_numeral)
qed (simp add: ws_crlf_def)

lemma find_break_headers:
  "list_all header_ok hdrs \<Longrightarrow> find_in break4 (concat (map header_line hdrs) @ ws_crlf) = (if hdrs = [] then None else Some (length (concat (map header_line hdrs)) - 2))"
proof (induction hdrs)
  case Nil
  show ?case by (simp add: ws_crlf_def)
next
  case (Cons x hdrs)
  obtain k v where x: "x = (k, v)" by (cases x)
  let ?r = "concat (map header_line hdrs) @ ws_crlf"
  have l: "list_all (\<lambda>c. c \<noteq> CR) (k @ '': '' @ v)" using Cons.prems by (auto simp: x header_ok_def list_all_iff)
  have "take 2 ?r = ws_crlf \<longleftrightarrow> hdrs = []" using headers_break [of hdrs] Cons.prems by simp
  then show ?case using find_break_line [OF l, of ?r] Cons by (cases hdrs) (auto simp: x header_line_def)
qed

lemma get_request_end:
  assumes "path_ok path" "list_all header_ok hdrs"
  shows "find_in break4 (get_request path hdrs) = Some (length (get_request path hdrs) - 4)" "4 \<le> length (get_request path hdrs)"
proof -
  let ?r = "concat (map header_line hdrs) @ ws_crlf"
  have l: "list_all (\<lambda>c. c \<noteq> CR) (''GET '' @ path @ '' HTTP/1.1'')" using assms(1) by (auto simp: path_ok_def isspace_def list_all_iff)
  have "take 2 ?r = ws_crlf \<longleftrightarrow> hdrs = []" by (rule headers_break [OF assms(2)])
  then show "find_in break4 (get_request path hdrs) = Some (length (get_request path hdrs) - 4)"
    using find_break_line [OF l, of ?r] find_break_headers [OF assms(2)]
    by (cases hdrs) (auto simp: get_request_def header_line_def)
  show "4 \<le> length (get_request path hdrs)" by (simp add: get_request_def)
qed

lemma getline_line: "list_all (\<lambda>c. c \<noteq> LF) l \<Longrightarrow> getline (l @ ws_crlf @ r) = (l @ [CR], r)"
  by (simp add: getline_def ws_crlf_def takeWhile_append2 dropWhile_append2 list_all_iff)

lemma read_word_space: "list_all (\<lambda>c. \<not> isspace c) w \<Longrightarrow> w \<noteq> [] \<Longrightarrow> s = [] \<or> isspace (hd s) \<Longrightarrow> read_word (w @ s) = (w, s)"
  by (cases w; cases s) (auto simp: read_word_def Let_def takeWhile_append2 dropWhile_append2 list_all_iff takeWhile_eq_all_conv dropWhile_eq_Nil_conv)

lemma read_word_skip: "isspace c \<Longrightarrow> read_word (c # s) = read_word s"
  by (simp add: read_word_def)

lemma parse_get_request:
  assumes "path_ok path"
  shows "\<exists>hs. parse_request (get_request path hdrs) = Some \<lparr>rq_method = ''GET'', rq_path = path, rq_version = ''HTTP/1.1'', rq_headers = hs\<rparr>"
proof -
  let ?l = "''GET '' @ path @ '' HTTP/1.1''" and ?r = "concat (map header_line hdrs) @ ws_crlf"
  have p: "path \<noteq> []" "list_all (\<lambda>c. \<not> isspace c) path" using assms by (simp_all add: path_ok_def)
  have sp: "isspace (CHR '' '')" by (simp add: isspace_def)
  have w: "list_all (\<lambda>c. \<not> isspace c) ''GET''" "list_all (\<lambda>c. \<not> isspace c) ''HTTP/1.1''" by (simp_all add: isspace_def)
  have g: "getline (get_request path hdrs) = (?l @ [CR], ?r)"
    using getline_line [of ?l ?r] p(2) by (auto simp: get_request_def isspace_def list_all_iff)
  have "request_line ?l = Some (''GET'', path, ''HTTP/1.1'')"
    using read_word_space [OF w(1), of "CHR '' '' # path @ '' HTTP/1.1''"] read_word_space [OF p(2,1), of "'' HTTP/1.1''"]
      read_word_space [OF w(2), of "[]"] p(1) sp by (simp add: request_line_def read_word_skip)
  moreover have "pop_cr (?l @ [CR]) = ?l" unfolding pop_cr_def by (simp only: butlast_snoc last_snoc) simp
  moreover have "get_request path hdrs \<noteq> []" by (simp add: get_request_def)
  ultimately show ?thesis by (simp add: parse_request_def g)
qed

section \<open>The documents\<close>

definition status_doc :: "page_info option \<Rightarrow> json" where
  "status_doc n = JObj [(''connected'', JLit (json_bool (case n of None \<Rightarrow> False | Some i \<Rightarrow> pg_state i = TS_CONNECTED))),
     (''state'', JStr (case n of None \<Rightarrow> ''unknown'' | Some i \<Rightarrow> state_name (pg_state i)))]"

definition peer_doc :: "u64 \<times> bool \<times> peer_info \<Rightarrow> json" where
  "peer_doc = (\<lambda>(nid, online, p). JObj [(''node_id'', JLit (show_nat (unat nid))), (''hostname'', JStr (p_hostname p)),
     (''endpoint'', JStr (p_endpoint p @ '':'' @ show_nat (unat (p_port p)))), (''online'', JLit (json_bool online))])"

definition info_doc :: "page_info \<Rightarrow> json" where
  "info_doc i = JObj [(''node_id'', JLit (show_nat (unat (pg_node_id i)))), (''ipv4'', JStr (pg_ipv4 i)), (''ipv6'', JStr (pg_ipv6 i)),
     (''derp_region'', JStr (pg_region i)), (''peer_count'', JLit (show_nat (length (pg_peers i)))), (''peers'', JArr (map peer_doc (pg_peers i)))]"

lemma status_is_json: "handle_status n req = [send_json 200 (render (status_doc n))]" "wf_json (status_doc n)"
proof -
  show "handle_status n req = [send_json 200 (render (status_doc n))]"
    by (cases n) (simp_all add: handle_status_def status_doc_def json_bool_def)
  have "raw_ok (state_name st)" for st by (cases st) (simp_all add: plain_raw_ok plain_def plain_char_def)
  moreover have "raw_ok ''connected''" "raw_ok ''state''" "raw_ok ''unknown''" by (simp_all add: plain_raw_ok plain_def plain_char_def)
  ultimately show "wf_json (status_doc n)" by (cases n) (auto simp: status_doc_def json_bool_def lit_char_def)
qed

lemma peer_list_commas: "peer_list later ps = (if later \<and> ps \<noteq> [] then '','' else []) @ commas (map (render \<circ> peer_doc) ps)"
  by (induction later ps rule: peer_list.induct) (auto simp: commas_Cons page_peer_def peer_doc_def)

text \<open>The device page is a JSON document as long as no name holds a quote; the names are not escaped.\<close>

lemma info_is_json:
  assumes "pg_state i = TS_CONNECTED"
  shows "handle_info (Some i) req = [send_json 200 (render (info_doc i))]"
  using assms by (simp add: handle_info_def info_doc_def peer_list_commas comp_def)

text \<open>The answer to a path without a page quotes it unescaped: a quote in the path ends the literal and adds a field.\<close>

lemma path_injects:
  "handle_404 n (req\<lparr>rq_path := ''/'' @ [dquote] @ '','' @ quoted ''admin'' @ '':'' @ [dquote]\<rparr>)
    = [send_json 404 (render (JObj [(''error'', JStr ''Not Found''), (''path'', JStr ''/''), (''admin'', JStr [])]))]"
  by (simp add: handle_404_def quoted_def)

section \<open>Requests in pieces\<close>

fun http_segments :: "page_info option \<Rightarrow> nat \<Rightarrow> string list \<Rightarrow> string \<times> http_server \<Rightarrow> string list \<times> string \<times> http_server" where
  "http_segments n a [] s = ([], s)"
| "http_segments n a (d # ds) s = (case http_segment n a d s of (out, s) \<Rightarrow> case http_segments n a ds s of (out', s) \<Rightarrow> (out @ out', s))"

definition buffered :: "nat \<Rightarrow> http_server \<Rightarrow> string" where
  "buffered a h = (case connection_states h a of None \<Rightarrow> [] | Some st \<Rightarrow> cs_buffer st)"

lemma on_data_partial:
  assumes "find_in break4 (buffered a h @ data) = None" "http_on_data n a data h = (k, out, h')"
  shows "k = length data \<and> out = [] \<and> buffered a h' = buffered a h @ data \<and> routes h' = routes h"
  using assms by (cases "connection_states h a") (auto simp: http_on_data_def buffered_def new_connection_state_def Let_def)

lemma on_data_whole:
  assumes "find_in break4 (buffered a h @ data) = Some (length (buffered a h @ data) - 4)" "4 \<le> length (buffered a h @ data)"
    and "http_on_data n a data h = (k, out, h')"
  shows "k = length (buffered a h @ data) \<and> out = answer n h (buffered a h @ data) \<and> buffered a h' = [] \<and> routes h' = routes h"
  using assms by (cases "connection_states h a") (auto simp: http_on_data_def buffered_def new_connection_state_def Let_def)

lemma answer_routes: "routes h' = routes h \<Longrightarrow> answer n h' t = answer n h t"
  by (simp add: answer_def handle_request_def split: option.splits)

text \<open>A request cut into segments: the server answers behind the last one, whatever the cuts.\<close>

lemma request_in_segments:
  assumes "find_in break4 (buffered a h @ concat ds) = Some (length (buffered a h @ concat ds) - 4)" "4 \<le> length (buffered a h @ concat ds)"
    and "ds \<noteq> []" "[] \<notin> set ds" "http_segments n a ds ([], h) = (out, rx, h')"
  shows "out = answer n h (buffered a h @ concat ds) \<and> buffered a h' = [] \<and> routes h' = routes h"
  using assms
proof (induction ds arbitrary: h out rx h')
  case (Cons d ds)
  let ?b = "buffered a h"
  obtain k o1 h1 where d: "http_on_data n a d h = (k, o1, h1)" by (metis prod_cases3)
  show ?case
  proof (cases "ds = []")
    case True
    have "k = length (?b @ d) \<and> o1 = answer n h (?b @ d) \<and> buffered a h1 = [] \<and> routes h1 = routes h"
      by (rule on_data_whole [OF _ _ d]) (use Cons.prems(1,2) True in simp_all)
    then show ?thesis using Cons.prems(5) True by (auto simp: http_segment_def d Let_def)
  next
    case False
    have "length (concat ds) > 0" using False Cons.prems(4) by (cases ds) auto
    then have "length (?b @ d) < length (?b @ concat (d # ds)) - 4 + length break4" using Cons.prems(2) unfolding length_append by simp
    then have n: "find_in break4 (?b @ d) = None" using Cons.prems(1) by (intro find_in_prefix_None [where b = "concat ds"]) simp_all
    have p: "k = length d" "o1 = []" "buffered a h1 = ?b @ d" "routes h1 = routes h" using on_data_partial [OF n d] by simp_all
    have "d \<noteq> []" using Cons.prems(4) by auto
    then have s: "http_segment n a d ([], h) = ([], [], h1)" by (simp add: http_segment_def d Let_def p(1,2))
    obtain o2 h2 rx2 where r: "http_segments n a ds ([], h1) = (o2, rx2, h2)" by (metis prod_cases3)
    have c: "buffered a h1 @ concat ds = ?b @ concat (d # ds)" by (simp add: p(3))
    have "o2 = answer n h1 (buffered a h1 @ concat ds) \<and> buffered a h2 = [] \<and> routes h2 = routes h1"
      by (rule Cons.IH [OF _ _ False _ r]) (use Cons.prems(1,2,4) in \<open>simp_all only: c, simp_all\<close>)
    moreover have "out = o2" "h' = h2" using Cons.prems(5) by (simp_all add: s r)
    ultimately show ?thesis using p(4) answer_routes [OF p(4)] by (simp only: c)
  qed
qed simp

text \<open>
  Behind a request that came in pieces the connection is out of step: the server reports the whole request
  consumed, more than the endpoint holds, so the last piece stays and is read again before what follows.
\<close>

lemma last_piece_is_kept:
  assumes "find_in break4 (buffered a h @ d) = Some (length (buffered a h @ d) - 4)" "4 \<le> length (buffered a h @ d)" "buffered a h \<noteq> []"
  shows "fst (snd (http_segment n a d ([], h))) = d"
proof -
  obtain k o1 h1 where d: "http_on_data n a d h = (k, o1, h1)" by (metis prod_cases3)
  have "k = length (buffered a h @ d)" using on_data_whole [OF assms(1) _ d] assms(2) by simp
  then show ?thesis using assms(3) by (simp add: http_segment_def d Let_def)
qed

text \<open>So a second request on such a connection is refused, though it is the one just answered.\<close>

lemma second_request_refused:
  "fst (http_segments n a [''GET / HTTP/1.1'' @ ws_crlf, ws_crlf, get_request ''/'' []] ([], http_on_connect a http_new))
    = handle_root n req @ [send_json 400 (''{'' @ quoted ''error'' @ '':'' @ quoted ''Bad Request'' @ ''}'')]"
proof -
  define d1 where "d1 = ''GET / HTTP/1.1'' @ ws_crlf"
  let ?h = "http_on_connect a http_new" and ?r = "get_request ''/'' []"
  have r: "?r = d1 @ ws_crlf" by (simp add: get_request_def d1_def)
  have e: "find_in break4 ?r = Some (length ?r - 4)" "4 \<le> length ?r"
    using get_request_end [of "''/''" "[]"] by (simp_all add: path_ok_def isspace_def)
  have b: "buffered a ?h = []" by (simp add: buffered_def http_on_connect_def new_connection_state_def)
  obtain k1 o1 h1 where 1: "http_on_data n a d1 ?h = (k1, o1, h1)" by (metis prod_cases3)
  have n: "find_in break4 d1 = None" "length d1 = 16" unfolding d1_def by code_simp+
  have p1: "k1 = 16" "o1 = []" "buffered a h1 = d1" "routes h1 = routes ?h"
    using on_data_partial [OF _ 1] n by (simp_all add: b)
  obtain k2 o2 h2 where 2: "http_on_data n a ws_crlf h1 = (k2, o2, h2)" by (metis prod_cases3)
  have p2: "k2 = length ?r" "o2 = answer n h1 ?r" "buffered a h2 = []" "routes h2 = routes h1"
    using on_data_whole [OF _ _ 2] e r p1(3) by simp_all
  obtain k3 o3 h3 where 3: "http_on_data n a (ws_crlf @ ?r) h2 = (k3, o3, h3)" by (metis prod_cases3)
  have "find_in break4 (ws_crlf @ ?r) = Some (length (ws_crlf @ ?r) - 4)" using find_break_line [of "[]" ?r] e by (simp add: r d1_def ws_crlf_def)
  then have p3: "o3 = answer n h2 (ws_crlf @ ?r)" using on_data_whole [OF _ _ 3] e(2) p2(3) by simp
  have "answer n h2 (ws_crlf @ ?r) = [send_json 400 (''{'' @ quoted ''error'' @ '':'' @ quoted ''Bad Request'' @ ''}'')]"
    by (simp add: answer_def parse_request_def getline_def ws_crlf_def pop_cr_def request_line_def read_word_def)
  moreover obtain hs where "parse_request ?r = Some \<lparr>rq_method = ''GET'', rq_path = ''/'', rq_version = ''HTTP/1.1'', rq_headers = hs\<rparr>"
    using parse_get_request [of "''/''" "[]"] by (auto simp: path_ok_def isspace_def)
  then have "answer n h1 ?r = handle_root n req"
    by (simp add: answer_def handle_request_def p1(4)) (simp add: http_on_connect_def http_new_def http_on_def handle_root_def)
  moreover have "http_segment n a d1 ([], ?h) = ([], [], h1)" using n(2) by (simp add: http_segment_def Let_def 1 p1(1,2))
  moreover have "http_segment n a ws_crlf ([], h1) = (o2, ws_crlf, h2)" using e(2) by (simp add: http_segment_def Let_def 2 p2(1))
  moreover have "fst (http_segment n a ?r (ws_crlf, h2)) = o3" by (simp add: http_segment_def Let_def 3)
  ultimately show ?thesis unfolding d1_def [symmetric] by (auto simp: p2(2) p3 split: prod.splits)
qed

text \<open>
  The buffers go by the addresses of the endpoint's records, which move when a record before them is
  erased. A connection whose record has moved finds no buffer, and its last piece is taken for the request.
\<close>

lemma moved_connection_forgets:
  assumes "connection_states h a = None" "find_in break4 d = Some (length d - 4)" "4 \<le> length d"
  shows "fst (snd (http_on_data n a d h)) = answer n h d"
proof -
  obtain k out h' where d: "http_on_data n a d h = (k, out, h')" by (metis prod_cases3)
  show ?thesis using on_data_whole [OF _ _ d] assms by (simp add: d buffered_def)
qed

section \<open>Over the TCP endpoint\<close>

lemma find_conn_update:
  assumes "conn_key c = conn_key (cs ! i)" "c_state c = c_state (cs ! i)"
  shows "find_tcp_connection ip port (cs[i := c]) = find_tcp_connection ip port cs"
proof -
  have "length (takeWhile P (cs[i := c])) = length (takeWhile P cs)" if "P c = P (cs ! i)" for P
    using that by (induction cs arbitrary: i) (auto split: nat.splits)
  moreover have "conn_matches ip port c = conn_matches ip port (cs ! i)" using assms by (auto simp: conn_matches_def conn_key_def)
  ultimately show ?thesis by (simp add: find_tcp_connection_def Let_def)
qed

text \<open>The \<open>i\<close>-th connection is open, empty, bound to the server, and its peer can be reached; no connection waits to be cleaned up.\<close>

definition http_open :: "nat \<Rightarrow> nat \<Rightarrow> tcp_stack \<Rightarrow> bool" where
  "http_open i peer t \<longleftrightarrow> (let c = tcp_connections t ! i in
     find_tcp_connection (c_src_ip c) (c_src_port c) (tcp_connections t) = Some i \<and> c_state c = ESTABLISHED \<and> rx_buffer c = []
     \<and> c_socket c \<noteq> None \<and> list_all open_conn (tcp_connections t) \<and> find_socket (c_dst_port c) t \<noteq> None
     \<and> om_get (dotted_ip (c_src_ip c)) (ip_to_peer t) = Some peer \<and> peer < length (peer_ips t))"

text \<open>A packet that brings the next bytes of the connection, neither SYN nor FIN.\<close>

definition brings :: "tcp_conn \<Rightarrow> u32 \<Rightarrow> bytes \<Rightarrow> string \<Rightarrow> bool" where
  "brings c q p d \<longleftrightarrow> (case parse_segment p of None \<Rightarrow> False | Some s \<Rightarrow>
     s_src_ip s = c_src_ip c \<and> s_src_port s = c_src_port c \<and> s_dst_port s = c_dst_port c \<and> s_flags s AND 0x02 = 0 \<and> s_flags s AND 0x01 = 0
     \<and> s_seq s = q \<and> payload s p = bytes_of d \<and> payload_len s = word_of_nat (length d) \<and> 0 < payload_len s \<and> \<not> reads_behind s p)"

fun bring_all :: "tcp_conn \<Rightarrow> u32 \<Rightarrow> (u32 \<times> u32 \<times> bytes) list \<Rightarrow> string list \<Rightarrow> bool" where
  "bring_all c q [] [] = True"
| "bring_all c q ((rnd, now, p) # ps) (d # ds) = (brings c q p d \<and> bring_all c (q + word_of_nat (length d)) ps ds)"
| "bring_all c q _ _ = False"

text \<open>The endpoint and the server at such a packet.\<close>

definition http_step :: "page_info option \<Rightarrow> nat \<Rightarrow> nat \<Rightarrow> u32 \<times> u32 \<times> bytes \<Rightarrow> tcp_stack \<times> http_server \<Rightarrow> tcp_stack \<times> http_server" where
  "http_step n a i = (\<lambda>(rnd, now, p) (t, h). (handle_tcp_packet (\<lambda>_. http_socket n a h) rnd now p t,
     case parse_segment p of None \<Rightarrow> h
     | Some s \<Rightarrow> snd (snd (http_on_data n a (string_of (rx_buffer (tcp_connections t ! i) @ payload s p)) h))))"

lemma feed_http:
  assumes "http_on_data n a (string_of (rx_buffer c)) h = (k, out, h')"
  shows "feed_socket (http_socket n a h) run (c, t) = (case fold run (map (\<lambda>x. SendData (bytes_of x)) out) (c, t) of (c, t) \<Rightarrow>
     (if 0 < k \<and> k \<le> length (rx_buffer c) then c\<lparr>rx_buffer := drop k (rx_buffer c)\<rparr> else c, t))"
  by (simp add: feed_socket_def http_socket_def assms)

lemma http_packet:
  fixes now :: u32
  assumes "http_open i peer t" "brings (tcp_connections t ! i) (c_ack (tcp_connections t ! i)) p d" "http_on_data n a d h = (k, out, h')"
  defines "c \<equiv> (tcp_connections t ! i)\<lparr>c_last_activity := now, rx_buffer := bytes_of d,
      c_ack := c_ack (tcp_connections t ! i) + word_of_nat (length d)\<rparr>"
  shows "http_step n a i (rnd, now, p) (t, h)
    = (drop_closed (set_conn i (feed_socket (http_socket n a h) (run_call (\<lambda>_. http_socket n a h)) (c, t))), h')"
proof -
  let ?c = "tcp_connections t ! i"
  obtain s where s: "parse_segment p = Some s" "s_src_ip s = c_src_ip ?c" "s_src_port s = c_src_port ?c" "s_dst_port s = c_dst_port ?c"
    "s_flags s AND 0x02 = 0" "s_flags s AND 0x01 = 0" "s_seq s = c_ack ?c" "payload s p = bytes_of d"
    "payload_len s = word_of_nat (length d)" "0 < payload_len s" "\<not> reads_behind s p"
    using assms(2) by (auto simp: brings_def split: option.splits)
  have o: "find_tcp_connection (s_src_ip s) (s_src_port s) (tcp_connections t) = Some i" "c_state ?c = ESTABLISHED" "rx_buffer ?c = []"
    "c_socket ?c \<noteq> None" "find_socket (s_dst_port s) t \<noteq> None" using assms(1) s(2-4) by (simp_all add: http_open_def Let_def)
  have "bytes_of d \<noteq> []" using s(9,10) by (cases d) auto
  then have "handle_segment_data (\<lambda>_. http_socket n a h) p s (?c\<lparr>c_last_activity := now\<rparr>, t)
      = (True, feed_socket (http_socket n a h) (run_call (\<lambda>_. http_socket n a h)) (c, t))"
    using o s(7-11) by (auto simp: handle_segment_data_def Let_def c_def)
  then have "handle_tcp_packet (\<lambda>_. http_socket n a h) rnd now p t
      = drop_closed (set_conn i (feed_socket (http_socket n a h) (run_call (\<lambda>_. http_socket n a h)) (c, t)))"
    unfolding handle_tcp_established [OF s(1) o(5) s(5) o(1,2)] using s(6) by (simp add: handle_fin_def split: prod.splits)
  then show ?thesis using o(3) assms(3) by (simp add: http_step_def s(1,8))
qed

lemma cleanup_nothing:
  assumes "list_all open_conn (tcp_connections t)" "open_conn c" "tcp_connections t' = tcp_connections t"
  shows "drop_closed (set_conn i (c, t')) = t'\<lparr>tcp_connections := (tcp_connections t)[i := c]\<rparr>"
proof -
  have "filter open_conn ((tcp_connections t)[i := c]) = (tcp_connections t)[i := c]"
    using list_all_update [OF assms(1,2)] by (simp add: list_all_iff)
  then show ?thesis by (simp add: drop_closed_def set_conn_def assms(3))
qed

lemma http_open_update:
  assumes "http_open i peer t" "conn_key c = conn_key (tcp_connections t ! i)" "c_dst_port c = c_dst_port (tcp_connections t ! i)"
    and "c_state c = ESTABLISHED" "rx_buffer c = []" "c_socket c \<noteq> None"
  shows "http_open i peer (t\<lparr>tcp_connections := (tcp_connections t)[i := c]\<rparr>)"
proof -
  let ?c = "tcp_connections t ! i"
  have o: "find_tcp_connection (c_src_ip ?c) (c_src_port ?c) (tcp_connections t) = Some i" "c_state ?c = ESTABLISHED"
    "list_all open_conn (tcp_connections t)" using assms(1) by (simp_all add: http_open_def Let_def)
  have k: "c_src_ip c = c_src_ip ?c" "c_src_port c = c_src_port ?c" using assms(2) by (simp_all add: conn_key_def)
  have "find_tcp_connection (c_src_ip c) (c_src_port c) ((tcp_connections t)[i := c]) = Some i"
    using find_conn_update [OF assms(2), of "c_src_ip c" "c_src_port c"] o(1,2) assms(4) by (simp add: k)
  moreover have "list_all open_conn ((tcp_connections t)[i := c])" using list_all_update [OF o(3), of c i] assms(4) by simp
  ultimately show ?thesis using assms(1,3-6) find_conn_Some(1) [OF o(1)] by (simp add: http_open_def Let_def k find_socket_def)
qed

lemma http_partial:
  fixes now :: u32
  assumes "http_open i peer t" "brings (tcp_connections t ! i) (c_ack (tcp_connections t ! i)) p d" "find_in break4 (buffered a h @ d) = None"
  defines "c \<equiv> (tcp_connections t ! i)\<lparr>c_last_activity := now, c_ack := c_ack (tcp_connections t ! i) + word_of_nat (length d)\<rparr>"
  shows "\<exists>h'. http_step n a i (rnd, now, p) (t, h) = (t\<lparr>tcp_connections := (tcp_connections t)[i := c]\<rparr>, h')
    \<and> buffered a h' = buffered a h @ d \<and> routes h' = routes h \<and> http_open i peer (t\<lparr>tcp_connections := (tcp_connections t)[i := c]\<rparr>)"
proof -
  obtain k out h' where d: "http_on_data n a d h = (k, out, h')" by (metis prod_cases3)
  have p: "k = length d" "out = []" "buffered a h' = buffered a h @ d" "routes h' = routes h" using on_data_partial [OF assms(3) d] by simp_all
  have o: "rx_buffer (tcp_connections t ! i) = []" "list_all open_conn (tcp_connections t)" "c_state (tcp_connections t ! i) = ESTABLISHED"
    "c_socket (tcp_connections t ! i) \<noteq> None" using assms(1) by (simp_all add: http_open_def Let_def)
  let ?c = "(tcp_connections t ! i)\<lparr>c_last_activity := now, rx_buffer := bytes_of d, c_ack := c_ack (tcp_connections t ! i) + word_of_nat (length d)\<rparr>"
  have "feed_socket (http_socket n a h) (run_call (\<lambda>_. http_socket n a h)) (?c, t) = (c, t)"
    using feed_http [of n a ?c h k out h' "run_call (\<lambda>_. http_socket n a h)" t] d p(1,2) o(1)
    by (cases "tcp_connections t ! i") (auto simp: c_def)
  then have "http_step n a i (rnd, now, p) (t, h) = (t\<lparr>tcp_connections := (tcp_connections t)[i := c]\<rparr>, h')"
    unfolding http_packet [OF assms(1,2) d] using cleanup_nothing [OF o(2), of c t i] o(3) by (simp add: c_def)
  moreover have "http_open i peer (t\<lparr>tcp_connections := (tcp_connections t)[i := c]\<rparr>)"
    using o by (intro http_open_update [OF assms(1)]) (simp_all add: c_def conn_key_def)
  ultimately show ?thesis using p(3,4) by blast
qed

lemma http_whole:
  assumes "http_open i peer t" "brings (tcp_connections t ! i) (c_ack (tcp_connections t ! i)) p d"
    and "find_in break4 (buffered a h @ d) = Some (length (buffered a h @ d) - 4)" "4 \<le> length (buffered a h @ d)"
    and "answer n h (buffered a h @ d) = [x]" "x \<noteq> []" "length x \<le> 1460"
  shows "\<exists>c. out_packets (fst (http_step n a i (rnd, now, p) (t, h)))
      = out_packets t @ [(peer_ips t ! peer, tcp_packet (own_ip t) c 0x18 (bytes_of x))]
    \<and> c_ack c = c_ack (tcp_connections t ! i) + word_of_nat (length d) \<and> c_seq c = c_seq (tcp_connections t ! i)
    \<and> conn_key c = conn_key (tcp_connections t ! i) \<and> c_dst_port c = c_dst_port (tcp_connections t ! i)"
proof -
  obtain k out h' where d: "http_on_data n a d h = (k, out, h')" by (metis prod_cases3)
  have p: "k = length (buffered a h @ d)" "out = [x]" using on_data_whole [OF assms(3,4) d] assms(5) by simp_all
  let ?c = "(tcp_connections t ! i)\<lparr>c_last_activity := now, rx_buffer := bytes_of d, c_ack := c_ack (tcp_connections t ! i) + word_of_nat (length d)\<rparr>"
  have o: "om_get (dotted_ip (c_src_ip ?c)) (ip_to_peer t) = Some peer" "peer < length (peer_ips t)"
    using assms(1) by (simp_all add: http_open_def Let_def)
  obtain c' t' where f: "feed_socket (http_socket n a h) (run_call (\<lambda>_. http_socket n a h)) (?c, t) = (c', t')" by fastforce
  have "bytes_of x \<noteq> []" using assms(6) by (cases x) auto
  then have "out_packets t' = out_packets t @ [(peer_ips t ! peer, tcp_packet (own_ip t) ?c 0x18 (bytes_of x))]"
    using feed_http [of n a ?c h k out h' "run_call (\<lambda>_. http_socket n a h)" t] d o assms(6,7) f
    by (auto simp: p(2) run_call_def send_tcp_data_def send_tcp_packet_def)
  then show ?thesis unfolding http_packet [OF assms(1,2) d] f
    by (intro exI [of _ ?c]) (simp add: drop_closed_def set_conn_def conn_key_def)
qed

lemma bring_all_key:
  assumes "conn_key c' = conn_key c" "c_dst_port c' = c_dst_port c"
  shows "bring_all c' q ps ds = bring_all c q ps ds"
proof -
  have "brings c' q p d = brings c q p d" for q p d
    using assms by (simp add: brings_def conn_key_def split: option.split)
  then show ?thesis by (induction c q ps ds rule: bring_all.induct) simp_all
qed

text \<open>A piece of a request is kept but not acknowledged, so its sender repeats it until the timer fires.\<close>

lemma piece_not_acked:
  assumes "http_open i peer t" "brings (tcp_connections t ! i) (c_ack (tcp_connections t ! i)) p d" "find_in break4 (buffered a h @ d) = None"
  shows "out_packets (fst (http_step n a i (rnd, now, p) (t, h))) = out_packets t"
  using http_partial [OF assms, of n rnd now] by auto

text \<open>All segments of a request.\<close>

lemma http_request_packets:
  assumes "http_open i peer t" "bring_all (tcp_connections t ! i) (c_ack (tcp_connections t ! i)) ps ds" "ds \<noteq> []" "[] \<notin> set ds"
    and "find_in break4 (buffered a h @ concat ds) = Some (length (buffered a h @ concat ds) - 4)" "4 \<le> length (buffered a h @ concat ds)"
    and "answer n h (buffered a h @ concat ds) = [x]" "x \<noteq> []" "length x \<le> 1460"
  shows "\<exists>c. out_packets (fst (fold (http_step n a i) ps (t, h)))
      = out_packets t @ [(peer_ips t ! peer, tcp_packet (own_ip t) c 0x18 (bytes_of x))]
    \<and> c_ack c = c_ack (tcp_connections t ! i) + word_of_nat (length (concat ds)) \<and> c_seq c = c_seq (tcp_connections t ! i)
    \<and> conn_key c = conn_key (tcp_connections t ! i) \<and> c_dst_port c = c_dst_port (tcp_connections t ! i)"
  using assms
proof (induction ds arbitrary: t h ps)
  case (Cons d ds)
  let ?c = "tcp_connections t ! i" and ?b = "buffered a h"
  obtain rnd now p ps' where ps: "ps = (rnd, now, p) # ps'" using Cons.prems(2) by (cases ps) auto
  have br: "brings ?c (c_ack ?c) p d" "bring_all ?c (c_ack ?c + word_of_nat (length d)) ps' ds" using Cons.prems(2) by (simp_all add: ps)
  show ?case
  proof (cases "ds = []")
    case True
    then have "ps' = []" using br(2) by (cases ps') auto
    then show ?thesis using http_whole [OF Cons.prems(1) br(1), of a h n x rnd now] Cons.prems(5-9) True by (simp add: ps)
  next
    case False
    have "length (concat ds) > 0" using False Cons.prems(4) by (cases ds) auto
    then have "length (?b @ d) < length (?b @ concat (d # ds)) - 4 + length break4" using Cons.prems(6) unfolding length_append by simp
    then have "find_in break4 (?b @ d) = None" using Cons.prems(5) by (intro find_in_prefix_None [where b = "concat ds"]) simp_all
    from http_partial [OF Cons.prems(1) br(1) this, of n rnd now] obtain t1 h1 c1 where
      1: "http_step n a i (rnd, now, p) (t, h) = (t1, h1)" "buffered a h1 = ?b @ d" "routes h1 = routes h" "http_open i peer t1"
        "t1 = t\<lparr>tcp_connections := (tcp_connections t)[i := c1]\<rparr>" "c1 = ?c\<lparr>c_last_activity := now, c_ack := c_ack ?c + word_of_nat (length d)\<rparr>" by blast
    have "i < length (tcp_connections t)" using Cons.prems(1) find_conn_Some(1) by (auto simp: http_open_def Let_def)
    then have c1: "tcp_connections t1 ! i = c1" by (simp add: 1(5))
    have b: "bring_all c1 q qs es = bring_all ?c q qs es" for q qs es by (rule bring_all_key) (simp_all add: 1(6) conn_key_def)
    have e: "buffered a h1 @ concat ds = ?b @ concat (d # ds)" by (simp add: 1(2))
    have "\<exists>c. out_packets (fst (fold (http_step n a i) ps' (t1, h1)))
        = out_packets t1 @ [(peer_ips t1 ! peer, tcp_packet (own_ip t1) c 0x18 (bytes_of x))]
      \<and> c_ack c = c_ack (tcp_connections t1 ! i) + word_of_nat (length (concat ds)) \<and> c_seq c = c_seq (tcp_connections t1 ! i)
      \<and> conn_key c = conn_key (tcp_connections t1 ! i) \<and> c_dst_port c = c_dst_port (tcp_connections t1 ! i)"
      by (rule Cons.IH [OF 1(4) _ False])
         (use Cons.prems(4-9) br(2) answer_routes [OF 1(3)] in \<open>simp_all only: c1 b e\<close>, simp_all add: 1(6))
    moreover have "own_ip t1 = own_ip t" by (simp add: 1(5) own_ip_def split: option.splits)
    ultimately show ?thesis unfolding c1 by (auto simp: ps 1(1)) (auto simp: 1(5,6) conn_key_def add.assoc)
  qed
qed simp

lemma status_fits: "length (send_json 200 (render (status_doc n))) \<le> 1460"
proof -
  have "length (state_name st) \<le> 50" for st by (cases st) simp_all
  then have l: "length (render (status_doc n)) \<le> 80" by (auto simp: status_doc_def json_bool_def split: option.splits intro: order_trans)
  then have "length (show_nat (length (render (status_doc n)))) \<le> 2" by (intro length_show_nat) simp_all
  moreover have "length (show_nat 200) \<le> 3" by (intro length_show_nat) simp_all
  ultimately show ?thesis using l by (simp add: send_json_def response_text_def status_text_def)
qed

lemma status_answered:
  assumes "routes h = routes http_new"
  shows "answer n h (get_request ''/status'' hdrs) = [send_json 200 (render (status_doc n))]"
proof -
  obtain hs where "parse_request (get_request ''/status'' hdrs)
      = Some \<lparr>rq_method = ''GET'', rq_path = ''/status'', rq_version = ''HTTP/1.1'', rq_headers = hs\<rparr>"
    using parse_get_request [of "''/status''" hdrs] by (auto simp: path_ok_def isspace_def)
  then show ?thesis using assms status_is_json(1) by (simp add: answer_def handle_request_def http_new_def http_on_def)
qed

text \<open>
  C30. The status page over the tunnel's own TCP endpoint: a GET request for \<^verbatim>\<open>/status\<close>
  with any headers, cut into segments anywhere, is answered once, behind its last segment, by one packet to
  the peer. It acknowledges the whole request and carries a response of status 200 whose body is a
  well-formed JSON document that says whether the node is connected and in which state it is.
\<close>

theorem status_page_served:
  assumes "http_open i peer t" "routes h = routes http_new" "buffered a h = []" "list_all header_ok hdrs"
    and "concat ds = get_request ''/status'' hdrs" "[] \<notin> set ds"
    and "bring_all (tcp_connections t ! i) (c_ack (tcp_connections t ! i)) ps ds"
  shows "\<exists>c. out_packets (fst (fold (http_step n a i) ps (t, h)))
      = out_packets t @ [(peer_ips t ! peer, tcp_packet (own_ip t) c 0x18 (bytes_of (send_json 200 (render (status_doc n)))))]
    \<and> wf_json (status_doc n) \<and> c_ack c = c_ack (tcp_connections t ! i) + word_of_nat (length (concat ds))
    \<and> c_seq c = c_seq (tcp_connections t ! i) \<and> conn_key c = conn_key (tcp_connections t ! i)"
proof -
  have p: "path_ok ''/status''" by (simp add: path_ok_def isspace_def)
  have "ds \<noteq> []" using assms(5) by (auto simp: get_request_def)
  moreover have "send_json 200 (render (status_doc n)) \<noteq> []" by (simp add: send_json_def response_text_def)
  ultimately show ?thesis
    using http_request_packets [OF assms(1,7) _ assms(6), of a h n] get_request_end [OF p assms(4)] status_answered [OF assms(2)] status_fits status_is_json(2)
    unfolding assms(3,5) append_Nil by metis
qed

definition toy_client :: "u32 \<Rightarrow> tcp_conn" where
  "toy_client q = \<lparr>c_src_ip = 0x64400001, c_src_port = 8080, c_dst_port = 5, c_seq = q, c_ack = 100, c_state = ESTABLISHED,
     rx_buffer = [], c_last_activity = 0, c_socket = None\<rparr>"

definition toy_visit :: "string \<Rightarrow> u32 \<Rightarrow> u32 \<times> u32 \<times> bytes" where
  "toy_visit d q = (0, 0, tcp_packet [100, 64, 0, 2] (toy_client q) 0x18 (bytes_of d))"

definition toy_pages :: tcp_stack where
  "toy_pages = (stack_with [(conn_in ESTABLISHED 5)\<lparr>c_dst_port := 8080\<rparr>])\<lparr>bound_sockets := [(8080, 0)]\<rparr>"

lemma toy_visit_brings:
  assumes "d \<noteq> []" "length d \<le> 1460"
  shows "brings ((conn_in ESTABLISHED 5)\<lparr>c_dst_port := 8080\<rparr>) q (snd (snd (toy_visit d q))) d"
proof -
  have l: "length [100, 64, 0, 2 :: u8] = 4" "length (bytes_of d) \<le> 1460" using assms(2) by simp_all
  have "unat (word_of_nat (length d) :: u32) = length d" using assms(2) by (simp add: unat_of_nat take_bit_nat_eq_self)
  then have "0 < (word_of_nat (length d) :: u32)" using assms(1) by (simp add: word_less_nat_alt)
  then show ?thesis
    using tcp_packet_payload [OF l parse_tcp_packet [OF l], where c = "toy_client q" and f = "0x18"]
    by (simp add: brings_def toy_visit_def parse_tcp_packet [OF l]) (simp add: toy_client_def conn_in_def get_be32_def)
qed

theorem status_page_served_witness:
  "\<exists>c. out_packets (fst (fold (http_step None 7 0) [toy_visit ''GET /status HT'' 200, toy_visit (''TP/1.1'' @ ws_crlf @ ws_crlf) 214] (toy_pages, http_new)))
      = out_packets toy_pages @ [(peer_ips toy_pages ! 0, tcp_packet (own_ip toy_pages) c 0x18 (bytes_of (send_json 200 (render (status_doc None)))))]
    \<and> wf_json (status_doc None)
    \<and> c_ack c = c_ack (tcp_connections toy_pages ! 0) + word_of_nat (length (concat [''GET /status HT'', ''TP/1.1'' @ ws_crlf @ ws_crlf]))
    \<and> c_seq c = c_seq (tcp_connections toy_pages ! 0) \<and> conn_key c = conn_key (tcp_connections toy_pages ! 0)"
proof (rule status_page_served [where hdrs = "[]"])
  have "c_src_port (conn_in ESTABLISHED 5) = 5" by (simp add: conn_in_def)
  then show "http_open 0 0 toy_pages"
    using find_conn_update [of "(conn_in ESTABLISHED 5)\<lparr>c_dst_port := 8080\<rparr>" "[conn_in ESTABLISHED 5]" 0] find_conn_in [of ESTABLISHED 5]
    by (simp add: http_open_def toy_pages_def Let_def conn_key_def) (simp add: find_socket_def stack_with_def om_get_def)
  show "buffered 7 http_new = []" by (simp add: buffered_def http_new_def http_on_def)
  show "concat [''GET /status HT'', ''TP/1.1'' @ ws_crlf @ ws_crlf] = get_request ''/status'' []" by (simp add: get_request_def)
  show "bring_all (tcp_connections toy_pages ! 0) (c_ack (tcp_connections toy_pages ! 0))
      [toy_visit ''GET /status HT'' 200, toy_visit (''TP/1.1'' @ ws_crlf @ ws_crlf) 214] [''GET /status HT'', ''TP/1.1'' @ ws_crlf @ ws_crlf]"
    using toy_visit_brings [of "''GET /status HT''" 200] toy_visit_brings [of "''TP/1.1'' @ ws_crlf @ ws_crlf" 214]
    by (simp add: toy_pages_def toy_visit_def)
qed (simp_all add: http_new_def)

end
