(* ===== verification/Main_Loop.thy ===== *)
theory Main_Loop
  imports Control_Fetch Io_Task Derp_Client Ts_Netif
begin

text \<open>
  The component as ESPHome runs it: \<^verbatim>\<open>loop\<close>, the handlers of the fetching and of the connected
  state, the timers they keep in static variables, and the test server on the tunnel's address. They
  join the control connection (\<open>Control_Fetch\<close>), the packets (\<open>Io_Task\<close>, \<open>Packet_Router\<close>), the relay
  client (\<open>Derp_Client\<close>) and the interface to lwIP (\<open>Ts_Netif\<close>).

  Those theories each hold the fields their operations read; \<open>control_view\<close> and \<open>control_back\<close> keep
  the ones that are the same variable in step. What a step hands to the relay client is sent by
  \<open>hand_over\<close> when the step is over. The receiving task does not move during a handler here: its
  interleaving is \<open>Io_Task\<close>'s. \<open>tick\<close> is what is outside during one call: the libraries, the answers, and
  the clock each time it is read. A result \<open>None\<close> is a call through a null pointer or an exception.
\<close>

section \<open>The test server\<close>

record echo_server =
  es_socket :: int
  es_clients :: "int list"
  es_sent :: "(int \<times> bytes) list"
  es_closed :: "int list"

text \<open>What \<^verbatim>\<open>recv\<close> gives: data, the end, nothing yet, an error.\<close>

datatype echo_read = Echo_Data bytes | Echo_End | Echo_Again | Echo_Error

definition setup_netif_echo_server :: "int \<Rightarrow> bool \<Rightarrow> bool \<Rightarrow> echo_server \<Rightarrow> echo_server" where
  "setup_netif_echo_server fd bound listens e =
     (let e = e\<lparr>es_socket := fd\<rparr> in
      if fd < 0 then e
      else if \<not> bound \<or> \<not> listens then e\<lparr>es_socket := -1, es_closed := es_closed e @ [fd]\<rparr>
      else e)"

text \<open>One client: at most 255 bytes are read and sent back, of which the system takes \<open>sends\<close> many, or fails.\<close>

definition serve_client :: "(int \<Rightarrow> nat \<Rightarrow> echo_read) \<Rightarrow> (int \<Rightarrow> bytes \<Rightarrow> nat option) \<Rightarrow> int \<Rightarrow> echo_server \<Rightarrow> bool \<times> echo_server" where
  "serve_client recv sends k e =
     (case recv k 255 of
        Echo_Data d \<Rightarrow> (case sends k d of None \<Rightarrow> (False, e\<lparr>es_closed := es_closed e @ [k]\<rparr>)
                        | Some n \<Rightarrow> (True, e\<lparr>es_sent := es_sent e @ [(k, take n d)]\<rparr>))
      | Echo_Again \<Rightarrow> (True, e)
      | _ \<Rightarrow> (False, e\<lparr>es_closed := es_closed e @ [k]\<rparr>))"

fun serve_clients :: "(int \<Rightarrow> nat \<Rightarrow> echo_read) \<Rightarrow> (int \<Rightarrow> bytes \<Rightarrow> nat option) \<Rightarrow> int list \<Rightarrow> echo_server \<Rightarrow> int list \<times> echo_server" where
  "serve_clients recv sends [] e = ([], e)"
| "serve_clients recv sends (k # ks) e =
     (case serve_client recv sends k e of (keep, e) \<Rightarrow>
        case serve_clients recv sends ks e of (ks, e) \<Rightarrow> (if keep then k # ks else ks, e))"

definition handle_netif_echo_clients :: "int \<Rightarrow> (int \<Rightarrow> nat \<Rightarrow> echo_read) \<Rightarrow> (int \<Rightarrow> bytes \<Rightarrow> nat option) \<Rightarrow> echo_server \<Rightarrow> echo_server" where
  "handle_netif_echo_clients accepted recv sends e =
     (if es_socket e < 0 then e
      else case serve_clients recv sends (es_clients e @ (if accepted \<ge> 0 then [accepted] else [])) e of
        (ks, e) \<Rightarrow> e\<lparr>es_clients := ks\<rparr>)"

section \<open>State\<close>

text \<open>The static variables of the handler of the connected state.\<close>

record timers =
  first_keepalive_init :: bool
  last_keepalive_send :: u32
  direct_mode_start :: u32
  derp_backoff_until :: u32
  derp_failures :: nat
  last_handshake_check :: u32
  natpmp_requested :: bool
  natpmp_request_time :: u32
  natpmp_success :: bool
  last_disco_ping :: u32
  last_nat_discovery :: u32
  last_wg_keepalive :: u32

definition timers_new :: timers where
  "timers_new = \<lparr>first_keepalive_init = True, last_keepalive_send = 0, direct_mode_start = 0, derp_backoff_until = 0, derp_failures = 0,
     last_handshake_check = 0, natpmp_requested = False, natpmp_request_time = 0, natpmp_success = False, last_disco_ping = 0,
     last_nat_discovery = 0, last_wg_keepalive = 0\<rparr>"

record 'd component =
  ctl :: control
  cio :: "'d io"
  relay :: "derp option"
  derp_initialized :: bool
  tun :: "netif option"
  echo :: echo_server
  natpmp_external_port :: u16
  clocks :: timers

record 'd tick =
  tk_control :: control_world
  tk_world :: "'d world"
  tk_queue :: "nat \<Rightarrow> 'd world"
  tk_setup :: setup_env
  tk_icmp :: int
  tk_task :: bool
  tk_now :: u32
  tk_current :: u32
  tk_natpmp_sent :: u32
  tk_natpmp_check :: u32
  tk_probe :: u32
  tk_ping :: u32
  tk_derp_box :: "bytes \<Rightarrow> bytes \<Rightarrow> bytes \<Rightarrow> bytes \<Rightarrow> bytes option"
  tk_derp_nonce :: bytes
  tk_relay :: derp
  tk_sodium :: bool
  tk_tls :: tls_answer
  tk_tcp :: tcp_answer
  tk_gateway :: "bytes option"
  tk_natpmp :: "int \<times> bytes"
  tk_ttl_set :: bool
  tk_probe_sent :: bool
  tk_netif :: netif_env
  tk_echo :: "int \<times> bool \<times> bool"
  tk_accept :: int
  tk_recv :: "int \<Rightarrow> nat \<Rightarrow> echo_read"
  tk_sends :: "int \<Rightarrow> bytes \<Rightarrow> nat option"

abbreviation cnode :: "'d component \<Rightarrow> 'd node" where "cnode c \<equiv> io_node (cio c)"

definition set_node :: "'d node \<Rightarrow> 'd component \<Rightarrow> 'd component" where
  "set_node n c = c\<lparr>cio := (cio c)\<lparr>io_node := n\<rparr>\<rparr>"

abbreviation paths :: "'d component \<Rightarrow> bool list" where
  "paths c \<equiv> map direct_path_confirmed (sessions (cnode c))"

text \<open>The fields that are one variable in the program.\<close>

definition control_view :: "'d component \<Rightarrow> control" where
  "control_view c = (ctl c)\<lparr>
     ct_stun := (ct_stun (ctl c))\<lparr>unified_socket_open := unified_socket (cio c) \<ge> 0, io_running := io_task_running (cio c),
                  discovered_endpoint := own_endpoint (cnode c)\<rparr>,
     ct_peers := cfg_peers (ds (cnode c)), data_available := control_plane_data_available (cio c), tcp_monitored := monitor_tcp (cio c)\<rparr>"

definition control_back :: "control \<Rightarrow> 'd component \<Rightarrow> 'd component" where
  "control_back d c =
     (let k = ct_keys d; s = cio c; n = io_node s in
      c\<lparr>ctl := d, cio := s\<lparr>
        io_task_running := io_running (ct_stun d), task_handle := io_running (ct_stun d) \<or> (task_handle s \<and> \<not> io_task_running s),
        control_plane_data_available := data_available d, monitor_tcp := tcp_monitored d,
        io_node := n\<lparr>own_endpoint := discovered_endpoint (ct_stun d),
          ds := (ds n)\<lparr>cfg_peers := ct_peers d, d_socket_open := unified_socket s \<ge> 0, disco_key_private := nk_disco_private k,
                        disco_key_public := nk_disco_public k, node_key_public := nk_node_public k\<rparr>\<rparr>\<rparr>\<rparr>)"

definition relay_ready :: "'d component \<Rightarrow> bool" where
  "relay_ready c \<longleftrightarrow> (case relay c of None \<Rightarrow> False | Some d \<Rightarrow> d_state d = READY)"

definition sync_relay :: "'d component \<Rightarrow> 'd component" where
  "sync_relay c = set_node ((cnode c)\<lparr>derp_ready := relay_ready c\<rparr>) c"

definition hand_over :: "'d component \<Rightarrow> 'd component" where
  "hand_over c =
     (case relay c of None \<Rightarrow> c
      | Some d \<Rightarrow> sync_relay (set_node ((cnode c)\<lparr>derp_out := []\<rparr>)
                    (c\<lparr>relay := Some (fold (\<lambda>(k, p) d. snd (send_packet k p d)) (derp_out (cnode c)) d)\<rparr>)))"

text \<open>A step of the packet paths.\<close>

definition node_step :: "('d node \<Rightarrow> 'd node) \<Rightarrow> 'd component \<Rightarrow> 'd component" where
  "node_step f c = hand_over (set_node (f (cnode c)) c)"

section \<open>The queues\<close>

text \<open>The main loop's half of the packet queue, without the task in between: at most twenty packets.\<close>

fun take_packets :: "nat \<Rightarrow> (nat \<Rightarrow> 'd world) \<Rightarrow> 'd io \<Rightarrow> 'd io" where
  "take_packets 0 w s = s"
| "take_packets (Suc n) w s =
     (case queue_receive (ready_queue s) of None \<Rightarrow> s
      | Some (b, q) \<Rightarrow> take_packets n w (give_back b (handle_buffer (w n) b (s\<lparr>ready_queue := q\<rparr>))))"

definition process_packet_queue :: "(nat \<Rightarrow> 'd world) \<Rightarrow> 'd io \<Rightarrow> 'd io" where
  "process_packet_queue w s = (if ready_made s then take_packets MAX_PACKETS_PER_LOOP w s else s)"

text \<open>The relay client's turn: what it delivers goes through the callback.\<close>

definition process_relay :: "'d tick \<Rightarrow> 'd component \<Rightarrow> 'd component" where
  "process_relay k c =
     (case relay c of None \<Rightarrow> c
      | Some d \<Rightarrow>
          (let d' = process (tk_derp_box k) (tk_derp_nonce k) (tk_now k) d;
               c = sync_relay (c\<lparr>relay := Some d'\<rparr>)
           in node_step (fold (\<lambda>(key, p). handle_derp_packet (tk_world k) key p) (drop (length (delivered d)) (delivered d'))) c))"

text \<open>All packets lwIP has queued.\<close>

fun take_pending :: "nat \<Rightarrow> netif \<Rightarrow> (bytes \<times> u32) list \<times> netif" where
  "take_pending 0 s = ([], s)"
| "take_pending (Suc n) s =
     (case get_pending_tx s of
        (None, s) \<Rightarrow> ([], s)
      | (Some x, s) \<Rightarrow> (case take_pending n s of (xs, s) \<Rightarrow> (x # xs, s)))"

definition process_lwip :: "'d tick \<Rightarrow> 'd component \<Rightarrow> 'd component" where
  "process_lwip k c =
     (case (tun c, manager (cnode c)) of
        (Some t, Some _) \<Rightarrow>
          (case take_pending (get_tx_queue_depth t) t of (q, t) \<Rightarrow> node_step (process_tx_queue (tk_world k) q) (c\<lparr>tun := Some t\<rparr>))
      | _ \<Rightarrow> c)"

section \<open>The fetching of the map\<close>

text \<open>The relay client is made once; a URL it cannot be made from, and a port that is no number, end in an exception.\<close>

definition init_relay :: "'d tick \<Rightarrow> 'd component \<Rightarrow> 'd component option" where
  "init_relay k c =
     (if derp_initialized c then Some c
      else case derp_url (ctl c) of None \<Rightarrow> None
      | Some url \<Rightarrow>
          (let c = c\<lparr>relay := Some (tk_relay k)\<rparr>;
               pub = cw_b64d (tk_control k) (nk_node_public (ct_keys (ctl c))); priv = cw_b64d (tk_control k) (nk_node_private (ct_keys (ctl c))) in
           if length pub \<noteq> 32 \<or> length priv \<noteq> 32 then Some (sync_relay c)
           else case derp_init (tk_sodium k) url pub priv (tk_relay k) of
             None \<Rightarrow> None
           | Some (ok, d) \<Rightarrow> Some (sync_relay (c\<lparr>relay := Some (if ok then d\<lparr>has_cb := True\<rparr> else d), derp_initialized := ok\<rparr>))))"

definition query_endpoint :: "'d tick \<Rightarrow> 'd component \<Rightarrow> 'd component" where
  "query_endpoint k c =
     (case stun_query_from_map (tk_control k) (control_view c) of (ok, d) \<Rightarrow>
        control_back (if ok then discover_local_endpoints (tk_control k) d else d) c)"

definition init_netif :: "'d tick \<Rightarrow> 'd component \<Rightarrow> 'd component" where
  "init_netif k c =
     (if tun c = None \<and> ct_ipv4 (ctl c) \<noteq> []
      then case netif_init (tk_netif k) (ct_ipv4 (ctl c)) netif_new of
             (True, t) \<Rightarrow> set_node ((cnode c)\<lparr>netif_running := nf_running t\<rparr>) (c\<lparr>tun := Some t\<rparr>)
           | (False, _) \<Rightarrow> c
      else c)"

definition to_state :: "'d tick \<Rightarrow> ts_state \<Rightarrow> 'd component \<Rightarrow> 'd component" where
  "to_state k st c = c\<lparr>ctl := transition_to (cw_later (tk_control k)) st (ctl c)\<rparr>"

definition handle_fetching_map_state :: "'d tick \<Rightarrow> 'd component \<Rightarrow> 'd component option" where
  "handle_fetching_map_state k c =
     (let c = c\<lparr>cio := setup_icmp_socket (tk_icmp k) (setup_unified_socket (tk_setup k) (cio c))\<rparr>;
          d = discover_local_endpoints (tk_control k) (control_view c)
      in case fetch_map_response (tk_control k) d of
           (False, d) \<Rightarrow> Some (to_state k TS_ERROR (control_back d c))
         | (True, d) \<Rightarrow>
             (case init_relay k (control_back d c) of None \<Rightarrow> None
              | Some c \<Rightarrow>
                  (case init_sessions (tk_world k) (nk_node_private (ct_keys (ctl c))) (cnode c) of
                     (False, n) \<Rightarrow> Some (to_state k TS_ERROR (set_node n c))
                   | (True, n) \<Rightarrow> Some (to_state k TS_CONNECTED (init_netif k (query_endpoint k (hand_over (set_node n c))))))))"

section \<open>The connected state\<close>

definition KEEPALIVE_SEND_INTERVAL_MS :: u32 where "KEEPALIVE_SEND_INTERVAL_MS = 60000"
definition DIRECT_MODE_FALLBACK_TIMEOUT :: u32 where "DIRECT_MODE_FALLBACK_TIMEOUT = 30000"

definition run_echo :: "'d tick \<Rightarrow> 'd component \<Rightarrow> 'd component" where
  "run_echo k c =
     (let e = (if es_socket (echo c) = -1 \<and> ct_ipv4 (ctl c) \<noteq> []
               then case tk_echo k of (fd, bound, listens) \<Rightarrow> setup_netif_echo_server fd bound listens (echo c) else echo c)
      in c\<lparr>echo := handle_netif_echo_clients (tk_accept k) (tk_recv k) (tk_sends k) e\<rparr>)"

definition check_server :: "'d tick \<Rightarrow> 'd component \<Rightarrow> 'd component" where
  "check_server k c = control_back (snd (check_server_keepalive (tk_control k) (paths c) (control_view c))) c"

text \<open>The update of the endpoints: every minute, and not before the first minute is over.\<close>

definition keepalive_due :: "u32 \<Rightarrow> timers \<Rightarrow> bool" where
  "keepalive_due now t \<longleftrightarrow> now - last_keepalive_send t \<ge> KEEPALIVE_SEND_INTERVAL_MS"

definition start_keepalive :: "u32 \<Rightarrow> timers \<Rightarrow> timers" where
  "start_keepalive now t = (if first_keepalive_init t then t\<lparr>last_keepalive_send := now, first_keepalive_init := False\<rparr> else t)"

definition send_keepalive :: "'d tick \<Rightarrow> 'd component \<Rightarrow> 'd component option" where
  "send_keepalive k c =
     (let c = c\<lparr>clocks := start_keepalive (tk_current k) (clocks c)\<rparr> in
      if keepalive_due (tk_current k) (clocks c)
      then map_option (\<lambda>(_, d). (control_back d c)\<lparr>clocks := (clocks c)\<lparr>last_keepalive_send := tk_current k\<rparr>\<rparr>)
             (send_map_keepalive (tk_control k) (paths c) (control_view c))
      else Some c)"

text \<open>The relay is left alone while direct paths are preferred and either all work or 30 seconds are not over.\<close>

definition start_direct :: "bool \<Rightarrow> u32 \<Rightarrow> timers \<Rightarrow> timers" where
  "start_direct prefer now t = (if prefer \<and> direct_mode_start t = 0 then t\<lparr>direct_mode_start := now\<rparr> else t)"

definition skip_derp :: "bool \<Rightarrow> u32 \<Rightarrow> bool list \<Rightarrow> timers \<Rightarrow> bool" where
  "skip_derp prefer now ps t \<longleftrightarrow>
     prefer \<and> ((ps \<noteq> [] \<and> list_all id ps) \<or> now - direct_mode_start t < DIRECT_MODE_FALLBACK_TIMEOUT)"

definition backoff_ms :: "nat \<Rightarrow> u32" where
  "backoff_ms failures = min (5000 * 2 ^ min (failures - 1) 3) 30000"

definition connect_relay :: "'d tick \<Rightarrow> derp \<times> timers \<Rightarrow> derp \<times> timers" where
  "connect_relay k = (\<lambda>(d, t).
     if d_state d = DISCONNECTED \<and> tk_now k \<ge> derp_backoff_until t then
       (case connect (tk_tls k) (tk_tcp k) (d\<lparr>millis := tk_now k\<rparr>) of
          (True, d) \<Rightarrow> (d, t\<lparr>derp_failures := 0\<rparr>)
        | (False, d) \<Rightarrow>
            (let n = derp_failures t + 1 in (d, t\<lparr>derp_failures := n, derp_backoff_until := tk_now k + backoff_ms n\<rparr>)))
     else (d, t))"

definition run_relay :: "'d tick \<Rightarrow> 'd component \<Rightarrow> 'd component" where
  "run_relay k c =
     (let prefer = prefer_direct_udp (cnode c); c = c\<lparr>clocks := start_direct prefer (tk_now k) (clocks c)\<rparr> in
      if skip_derp prefer (tk_now k) (paths c) (clocks c) then c
      else case relay c of None \<Rightarrow> c
        | Some d \<Rightarrow> (case connect_relay k (d, clocks c) of (d, t) \<Rightarrow> sync_relay (c\<lparr>relay := Some d, clocks := t\<rparr>)))"

text \<open>The sessions of the active peers: a keepalive where there is one, a handshake where there is none.\<close>

definition maintain_peer :: "'d world \<Rightarrow> nat \<Rightarrow> 'd node \<Rightarrow> 'd node option" where
  "maintain_peer w i n =
     (case manager n of None \<Rightarrow> None
      | Some m \<Rightarrow>
          (let ip = s_tailscale_ip (sessions n ! i) in
           if get_peer ip m = None then Some n
           else if is_handshake_established ip m then Some (drain w (snd (send_peer_keepalive (w_lib w) ip m)) n)
           else Some (drain w (snd (start_peer_handshake (w_lib w) ip m)) n)))"

definition maintain_peers :: "'d world \<Rightarrow> 'd node \<Rightarrow> 'd node option" where
  "maintain_peers w n = fold (\<lambda>i r. Option.bind r (maintain_peer w i)) [0..<length (sessions n)] (Some n)"

definition maintain_sessions :: "'d tick \<Rightarrow> bool \<Rightarrow> 'd component \<Rightarrow> 'd component option" where
  "maintain_sessions k direct c =
     (if tk_now k - last_handshake_check (clocks c) \<ge> 60000 then
        map_option (\<lambda>c. c\<lparr>clocks := (clocks c)\<lparr>last_handshake_check := tk_now k\<rparr>\<rparr>)
          (if direct \<or> relay_ready c then map_option (\<lambda>n. hand_over (set_node n c)) (maintain_peers (tk_world k) (cnode c)) else Some c)
      else Some c)"

text \<open>The port mapping: asked for once, and its answer looked for in the next five seconds.\<close>

definition request_natpmp :: "'d tick \<Rightarrow> 'd component \<Rightarrow> 'd component" where
  "request_natpmp k c =
     (if natpmp_requested (clocks c) \<or> unified_socket (cio c) < 0 then c
      else case tk_gateway k of None \<Rightarrow> c
        | Some gw \<Rightarrow> (set_node (udp_emit gw 5351 (natpmp_request (cw_unified_port (tk_control k))) (cnode c)) c)
            \<lparr>clocks := (clocks c)\<lparr>natpmp_requested := True, natpmp_request_time := tk_natpmp_sent k\<rparr>\<rparr>)"

definition check_natpmp :: "'d tick \<Rightarrow> 'd component \<Rightarrow> 'd component" where
  "check_natpmp k c =
     (let t = clocks c in
      if natpmp_requested t \<and> \<not> natpmp_success t \<and> tk_natpmp_check k - natpmp_request_time t < 5000 then
        (case check_natpmp_response (fst (tk_natpmp k)) (snd (tk_natpmp k))
                \<lparr>nm_discovered = own_endpoint (cnode c), nm_external_port = natpmp_external_port c, nm_endpoint = ct_natpmp_endpoint (ctl c)\<rparr> of
           (ok, p) \<Rightarrow> c\<lparr>natpmp_external_port := nm_external_port p, ctl := (ctl c)\<lparr>ct_natpmp_endpoint := nm_endpoint p\<rparr>,
                        clocks := t\<lparr>natpmp_success := ok\<rparr>\<rparr>)
      else c)"

text \<open>A probe of the port discovery, with its terminating zero.\<close>

definition probe_data :: bytes where "probe_data = bytes_of ''NAT probe'' @ [0]"

definition send_probe :: "'d tick \<Rightarrow> 'd component \<Rightarrow> 'd component" where
  "send_probe k c =
     (let s = cio c; nd = nat_state s in
      if \<not> nd_active nd \<or> tk_probe k - nd_last_probe nd < 200 then c
      else case pton (nd_peer_ip nd) of None \<Rightarrow> c
        | Some a \<Rightarrow> if tk_ttl_set k \<and> tk_probe_sent k
            then c\<lparr>cio := s\<lparr>nat_state := nd\<lparr>nd_last_probe := tk_probe k\<rparr>, io_node := udp_emit a (nd_peer_port nd) probe_data (io_node s)\<rparr>\<rparr>
            else c)"

text \<open>
  The pings: every ten seconds to every peer with an endpoint, unless a port discovery is running; every
  minute, instead of the ping to the first of them and the others, a discovery is started.
\<close>

definition ping_one :: "'d world \<Rightarrow> peer_info \<Rightarrow> 'd io \<Rightarrow> 'd io" where
  "ping_one w p s =
     (if nd_active (nat_state s) then s
      else s\<lparr>io_node := (io_node s)\<lparr>ds := send_disco_ping (w_seal w) (w_b64d w) (w_fill w) (p_endpoint p) (p_port p) (p_disco_key p) (ds (io_node s))\<rparr>\<rparr>)"

fun ping_peers :: "'d world \<Rightarrow> u32 \<Rightarrow> peer_info list \<Rightarrow> u32 \<times> 'd io \<Rightarrow> u32 \<times> 'd io" where
  "ping_peers w now [] (t, s) = (t, s)"
| "ping_peers w now (p # ps) (t, s) =
     (if p_disco_key p \<noteq> [] \<and> p_endpoint p \<noteq> [] \<and> p_port p > 0
      then if now - t \<ge> 60000
           then (now, discover_nat_port_for_peer (p_endpoint p) (p_port p) (s\<lparr>nat_state := (nat_state s)\<lparr>nd_disco_key := p_disco_key p\<rparr>\<rparr>))
           else ping_peers w now ps (t, ping_one w p s)
      else ping_peers w now ps (t, s))"

definition send_pings :: "'d world \<Rightarrow> u32 \<Rightarrow> 'd component \<Rightarrow> 'd component" where
  "send_pings w now c =
     (let t = clocks c in
      if now - last_disco_ping t \<ge> 10000 then
        (case ping_peers w now (cfg_peers (ds (cnode c))) (last_nat_discovery t, cio c) of
           (t', s) \<Rightarrow> c\<lparr>cio := s, clocks := t\<lparr>last_nat_discovery := t', last_disco_ping := now\<rparr>\<rparr>)
      else c)"

text \<open>The keepalive over the relay, to the first peer, whose key is decoded as base64.\<close>

definition send_relay_keepalive :: "'d world \<Rightarrow> u32 \<Rightarrow> 'd component \<Rightarrow> 'd component" where
  "send_relay_keepalive w now c =
     (let t = clocks c in
      if now - last_wg_keepalive t < 20000 then c
      else case (relay c, cfg_peers (ds (cnode c))) of
        (Some d, p # _) \<Rightarrow>
          (let key = p_public_key p; raw = w_b64d w (if take 8 key = nodekey then drop 8 key else key) in
           if length raw = 32 \<and> d_state d = READY then
             (case send_packet raw (replicate 32 0) d of
                (ok, d) \<Rightarrow> sync_relay (c\<lparr>relay := Some d, clocks := (if ok then t\<lparr>last_wg_keepalive := now\<rparr> else t)\<rparr>))
           else c)
      | _ \<Rightarrow> c)"

text \<open>While a discovery runs the clock is read once more, for the probe; the pings go by that reading.\<close>

definition handle_connected_state :: "'d tick \<Rightarrow> 'd component \<Rightarrow> 'd component option" where
  "handle_connected_state k c =
     (case send_keepalive k (check_server k (run_echo k c)) of None \<Rightarrow> None
      | Some c \<Rightarrow>
          (let c = run_relay k c;
               direct = skip_derp (prefer_direct_udp (cnode c)) (tk_now k) (paths c) (clocks c)
           in case maintain_sessions k direct c of None \<Rightarrow> None
              | Some c \<Rightarrow>
                  (let now = (if nd_active (nat_state (cio c)) then tk_probe k else tk_ping k) in
                   Some (send_relay_keepalive (tk_world k) now (send_pings (tk_world k) now
                     (send_probe k (check_natpmp k (request_natpmp k c))))))))"

section \<open>The loop\<close>

definition run_state :: "'d tick \<Rightarrow> 'd component \<Rightarrow> 'd component option" where
  "run_state k c =
     (let w = tk_control k; d = control_view c in
      case ts_state d of
        TS_IDLE \<Rightarrow> Some (control_back (handle_idle_state w d) c)
      | TS_INITIALIZING \<Rightarrow> map_option (\<lambda>d. control_back d c) (handle_initializing_state w d)
      | TS_REGISTERING \<Rightarrow> map_option (\<lambda>d. control_back d c) (handle_registering_state w d)
      | TS_FETCHING_MAP \<Rightarrow> handle_fetching_map_state k c
      | TS_CONNECTED \<Rightarrow> handle_connected_state k c
      | TS_ERROR \<Rightarrow> Some (control_back (handle_error_state w d) c)
      | TS_REGISTERED \<Rightarrow> Some c)"

text \<open>What every turn does first, in whatever state: the LED, the packets that came, the relay, and lwIP's packets.\<close>

definition packet_turn :: "'d tick \<Rightarrow> 'd component \<Rightarrow> 'd component" where
  "packet_turn k c =
     (let c = c\<lparr>ctl := (ctl c)\<lparr>ct_led := led_update (tk_now k) (ct_led (ctl c))\<rparr>\<rparr>;
          c = process_relay k (hand_over (c\<lparr>cio := process_packet_queue (tk_queue k) (cio c)\<rparr>));
          c = (case manager (cnode c) of None \<Rightarrow> c
               | Some m \<Rightarrow> if wg_device m = None then c else node_step (process_buffered_wg_packets (tk_world k)) c)
      in process_lwip k c)"

definition loop :: "'d tick \<Rightarrow> 'd component \<Rightarrow> 'd component option" where
  "loop k c = run_state k (packet_turn k c)"

end
