(* ===== verification/Loop_Runs.thy ===== *)
theory Loop_Runs
  imports Main_Loop Router_State Control_Opening
begin

text \<open>
  What \<open>Main_Loop\<close> keeps over any number of turns: the peer table stays consistent and the manager is
  there when it is called; a relay client that has failed is never used again; and the handlers of the
  connected state, one by one.
\<close>

fun run_loops :: "'d tick list \<Rightarrow> 'd component \<Rightarrow> 'd component option" where
  "run_loops [] c = Some c"
| "run_loops (k # ks) c = Option.bind (loop k c) (run_loops ks)"

text \<open>What every turn keeps, as long as \<open>P\<close> holds of its surroundings, every run keeps.\<close>

lemma run_loops_invariant:
  assumes "\<And>k c c'. Q c \<Longrightarrow> P k \<Longrightarrow> loop k c = Some c' \<Longrightarrow> Q c'"
  shows "Q c \<Longrightarrow> list_all P ks \<Longrightarrow> run_loops ks c = Some c' \<Longrightarrow> Q c'"
proof (induction ks arbitrary: c)
  case (Cons k ks)
  obtain c1 where c1: "loop k c = Some c1" "run_loops ks c1 = Some c'" using Cons.prems(3) by (cases "loop k c") auto
  then show ?case using Cons.IH assms [OF Cons.prems(1) _ c1(1)] Cons.prems(2) by simp
qed simp

section \<open>A failed relay client\<close>

text \<open>What the steps that do not name it leave of the relay client.\<close>

lemma relay_fields [simp]:
  "relay (set_node n c) = relay c" "relay (control_back d c) = relay c" "relay (sync_relay c) = relay c" "relay (to_state k st c) = relay c"
  "relay (query_endpoint k c) = relay c" "relay (init_netif k c) = relay c" "relay (run_echo k c) = relay c" "relay (check_server k c) = relay c"
  "relay (request_natpmp k c) = relay c" "relay (check_natpmp k c) = relay c" "relay (send_probe k c) = relay c" "relay (send_pings w now c) = relay c"
  by (auto simp: set_node_def control_back_def sync_relay_def to_state_def query_endpoint_def init_netif_def run_echo_def check_server_def
      request_natpmp_def check_natpmp_def send_probe_def send_pings_def Let_def split: prod.splits option.splits bool.splits)

lemma initialized_fields [simp]:
  "derp_initialized (set_node n c) = derp_initialized c" "derp_initialized (control_back d c) = derp_initialized c"
  "derp_initialized (sync_relay c) = derp_initialized c" "derp_initialized (to_state k st c) = derp_initialized c"
  "derp_initialized (query_endpoint k c) = derp_initialized c" "derp_initialized (init_netif k c) = derp_initialized c"
  "derp_initialized (run_echo k c) = derp_initialized c" "derp_initialized (check_server k c) = derp_initialized c"
  "derp_initialized (request_natpmp k c) = derp_initialized c" "derp_initialized (check_natpmp k c) = derp_initialized c"
  "derp_initialized (send_probe k c) = derp_initialized c" "derp_initialized (send_pings w now c) = derp_initialized c"
  "derp_initialized (hand_over c) = derp_initialized c"
  by (auto simp: set_node_def control_back_def sync_relay_def to_state_def query_endpoint_def init_netif_def run_echo_def check_server_def
      request_natpmp_def check_natpmp_def send_probe_def send_pings_def hand_over_def Let_def split: prod.splits option.splits bool.splits)

text \<open>The relay client has failed, and what it has sent and delivered is what it was.\<close>

definition failed_with :: "bytes list \<Rightarrow> (bytes \<times> bytes) list \<Rightarrow> 'd component \<Rightarrow> bool" where
  "failed_with out rcv c \<longleftrightarrow> derp_initialized c
     \<and> (case relay c of None \<Rightarrow> False | Some d \<Rightarrow> d_state d = ERROR \<and> tx d = out \<and> delivered d = rcv)"

lemma failed_frame: "relay c' = relay c \<Longrightarrow> derp_initialized c' = derp_initialized c \<Longrightarrow> failed_with out rcv c' = failed_with out rcv c"
  by (simp add: failed_with_def)

lemma send_failed: "d_state d \<noteq> READY \<Longrightarrow> send_packet k p d = (False, d)"
  by (simp add: send_packet_def)

lemma sends_failed: "d_state d \<noteq> READY \<Longrightarrow> fold (\<lambda>(k, p) d. snd (send_packet k p d)) qs d = d"
  by (induction qs) (auto simp: send_failed)

lemma failed_hand_over: "failed_with out rcv c \<Longrightarrow> failed_with out rcv (hand_over c)"
  by (auto simp: failed_with_def hand_over_def sends_failed split: option.splits)

lemma failed_node_step: "failed_with out rcv c \<Longrightarrow> failed_with out rcv (node_step f c)"
  unfolding node_step_def by (rule failed_hand_over) (simp add: failed_with_def)

lemma process_failed: "d_state d = ERROR \<Longrightarrow> process box nonce now d = d\<lparr>millis := now\<rparr>"
  by (simp add: process_def process_client_info_def process_server_info_def Let_def)

lemma failed_process: "failed_with out rcv c \<Longrightarrow> failed_with out rcv (process_relay k c)"
  unfolding process_relay_def
  by (auto simp: Let_def split: option.splits intro!: failed_node_step)
     (auto simp: failed_with_def process_failed)

lemma failed_init_relay: "failed_with out rcv c \<Longrightarrow> init_relay k c = Some c"
  by (simp add: failed_with_def init_relay_def)

lemma failed_run_relay: "failed_with out rcv c \<Longrightarrow> failed_with out rcv (run_relay k c)"
  by (auto simp: failed_with_def run_relay_def connect_relay_def Let_def split: option.splits prod.splits)

lemma failed_keepalive: "failed_with out rcv c \<Longrightarrow> failed_with out rcv (send_relay_keepalive w now c)"
  by (auto simp: failed_with_def send_relay_keepalive_def Let_def split: option.splits prod.splits list.splits)

lemma failed_send_keepalive: "failed_with out rcv c \<Longrightarrow> send_keepalive k c = Some c' \<Longrightarrow> failed_with out rcv c'"
  by (auto simp: send_keepalive_def Let_def failed_with_def split: if_splits)

lemma failed_maintain: "failed_with out rcv c \<Longrightarrow> maintain_sessions k direct c = Some c' \<Longrightarrow> failed_with out rcv c'"
proof -
  assume f: "failed_with out rcv c" and m: "maintain_sessions k direct c = Some c'"
  have h: "failed_with out rcv (hand_over (set_node n c))" for n by (rule failed_hand_over) (use f in \<open>simp add: failed_with_def\<close>)
  have t: "failed_with out rcv x \<Longrightarrow> failed_with out rcv (x\<lparr>clocks := y\<rparr>)" for x :: "'a component" and y by (simp add: failed_with_def)
  show ?thesis using m f h t by (auto simp: maintain_sessions_def split: if_splits)
qed

lemmas failed_steps = failed_hand_over failed_node_step failed_process failed_run_relay failed_keepalive

lemma failed_connected:
  assumes "failed_with out rcv c" "handle_connected_state k c = Some c'"
  shows "failed_with out rcv c'"
proof -
  have f0: "failed_with out rcv (check_server k (run_echo k c))" using assms(1) by (simp add: failed_with_def)
  obtain c1 where c1: "send_keepalive k (check_server k (run_echo k c)) = Some c1"
    using assms(2) by (auto simp: handle_connected_state_def split: option.splits)
  have f1: "failed_with out rcv (run_relay k c1)" by (rule failed_run_relay [OF failed_send_keepalive [OF f0 c1]])
  define direct where "direct = skip_derp (prefer_direct_udp (cnode (run_relay k c1))) (tk_now k) (paths (run_relay k c1)) (clocks (run_relay k c1))"
  obtain c2 where c2: "maintain_sessions k direct (run_relay k c1) = Some c2"
    using assms(2) by (auto simp: handle_connected_state_def c1 Let_def direct_def split: option.splits)
  have f2: "failed_with out rcv c2" by (rule failed_maintain [OF f1 c2])
  define now where "now = (if nd_active (nat_state (cio c2)) then tk_probe k else tk_ping k)"
  have "failed_with out rcv (send_pings (tk_world k) now (send_probe k (check_natpmp k (request_natpmp k c2))))"
    using f2 by (simp add: failed_with_def)
  then have "failed_with out rcv (send_relay_keepalive (tk_world k) now (send_pings (tk_world k) now (send_probe k (check_natpmp k (request_natpmp k c2)))))"
    by (rule failed_keepalive)
  then show ?thesis using assms(2) by (simp add: handle_connected_state_def c1 Let_def c2 flip: direct_def) (simp add: now_def)
qed

lemma failed_fetching:
  assumes "failed_with out rcv c" "handle_fetching_map_state k c = Some c'"
  shows "failed_with out rcv c'"
proof -
  define s where "s = setup_icmp_socket (tk_icmp k) (setup_unified_socket (tk_setup k) (cio c))"
  have f: "failed_with out rcv (control_back d (c\<lparr>cio := s\<rparr>))" for d using assms(1) by (simp add: failed_with_def)
  have g: "failed_with out rcv (to_state k st x)" if "failed_with out rcv x" for st and x :: "'a component" using that by (simp add: failed_with_def)
  have h: "failed_with out rcv (set_node n x)" if "failed_with out rcv x" for n and x :: "'a component" using that by (simp add: failed_with_def)
  have q: "failed_with out rcv (init_netif k (query_endpoint k x))" if "failed_with out rcv x" for x :: "'a component"
    using that by (simp add: failed_with_def)
  show ?thesis using assms(2) unfolding handle_fetching_map_state_def Let_def s_def [symmetric]
    by (auto simp: failed_init_relay [OF f] split: prod.splits bool.splits intro!: g h q f failed_hand_over)
qed

lemma failed_loop:
  assumes "failed_with out rcv c" "loop k c = Some c'"
  shows "failed_with out rcv c'"
proof -
  have l: "failed_with out rcv (x\<lparr>ctl := d\<rparr>)" "failed_with out rcv (x\<lparr>cio := s\<rparr>)" "failed_with out rcv (control_back d x)"
    "failed_with out rcv (x\<lparr>tun := t\<rparr>)" if "failed_with out rcv x" for d s t and x :: "'a component" using that by (simp_all add: failed_with_def)
  have lw: "failed_with out rcv (process_lwip k x)" if "failed_with out rcv x" for x
    using that by (auto simp: process_lwip_def split: option.splits prod.splits intro!: failed_node_step l)
  have st: "run_state k x = Some c' \<Longrightarrow> failed_with out rcv c'" if "failed_with out rcv x" for x
    using that by (auto simp: run_state_def Let_def split: ts_state.splits intro: l(3) dest: failed_connected failed_fetching)
  have pt: "failed_with out rcv (packet_turn k x)" if "failed_with out rcv x" for x unfolding packet_turn_def Let_def
    by (rule lw) (use that in \<open>auto split: option.split intro!: failed_process failed_hand_over failed_node_step l\<close>)
  show ?thesis by (rule st [OF pt [OF assms(1)]]) (use assms(2) in \<open>simp add: loop_def\<close>)
qed

text \<open>
  C28. A relay client that has failed stays failed: once it is in its error state, however often the loop
  turns, in whatever state of the component and with whatever answers from outside, it is never connected
  again, sends nothing and delivers nothing. The loop connects it only from the disconnected state, no call
  of the client leaves the error state, and the client is made once.
\<close>

theorem failed_relay_stays:
  assumes "relay c = Some d" "d_state d = ERROR" "derp_initialized c" "run_loops ks c = Some c'"
  shows "\<not> relay_ready c' \<and> (\<exists>d'. relay c' = Some d' \<and> d_state d' = ERROR \<and> tx d' = tx d \<and> delivered d' = delivered d)"
proof -
  have "failed_with (tx d) (delivered d) c" using assms(1-3) by (simp add: failed_with_def)
  then have "failed_with (tx d) (delivered d) c'"
    by (rule run_loops_invariant [where P = "\<lambda>_. True" and Q = "failed_with (tx d) (delivered d)", rotated])
       (use assms(4) failed_loop in \<open>auto simp: list_all_iff\<close>)
  then show ?thesis by (auto simp: failed_with_def relay_ready_def split: option.splits)
qed

text \<open>The way there: a write of the client's information that fails, when the connection breaks during the handshake.\<close>

lemma lost_client_info_fails:
  assumes "d_state d = SEND_CLIENT_INFO" "\<not> fst (send_client_info box nonce (d\<lparr>millis := now\<rparr>))"
  shows "d_state (process box nonce now d) = ERROR"
  using assms by (auto simp: process_def process_client_info_def Let_def split: prod.splits bool.splits)

text \<open>A component at rest, with a relay client that has failed.\<close>

definition toy_relay :: derp where
  "toy_relay = \<lparr>server_host = ''relay'', server_port = 443, use_tls = True, our_node_key = replicate 32 1, our_node_key_priv = replicate 32 2,
     server_public_key = [], d_state = ERROR, has_cb = True, sock_open = False, derp_buffer = [], last_keep_alive = 0, last_activity = 0,
     millis = 0, script = [], tx = [[7]], accepts = (\<lambda>_ _. 0), delivered = [], smashed = False, oom_recovery_attempts = 0, restarted = False\<rparr>"

definition toy_component :: "nat component" where
  "toy_component = \<lparr>ctl = (toy_control (Some noise_session_new) None)\<lparr>ts_state := TS_ERROR\<rparr>, cio = io_new (toy_fresh []), relay = Some toy_relay,
     derp_initialized = True, tun = None, echo = \<lparr>es_socket = -1, es_clients = [], es_sent = [], es_closed = []\<rparr>,
     natpmp_external_port = 0, clocks = timers_new\<rparr>"

lemma packet_steps_frame [simp]:
  "ctl (set_node n c) = ctl c" "tun (set_node n c) = tun c" "ctl (hand_over c) = ctl c" "tun (hand_over c) = tun c"
  "ctl (sync_relay c) = ctl c" "tun (sync_relay c) = tun c" "ctl (node_step f c) = ctl c" "tun (node_step f c) = tun c"
  "ctl (process_relay k c) = ctl c" "tun (process_relay k c) = tun c"
  by (simp_all add: set_node_def hand_over_def sync_relay_def node_step_def process_relay_def Let_def split: option.split)

lemma packet_turn_frame:
  assumes "tun c = None"
  shows "ctl (packet_turn k c) = (ctl c)\<lparr>ct_led := led_update (tk_now k) (ct_led (ctl c))\<rparr>"
proof -
  have l: "process_lwip k x = x" if "tun x = None" for x :: "'a component" using that by (simp add: process_lwip_def)
  show ?thesis unfolding packet_turn_def Let_def by (subst l) (use assms in \<open>auto split: option.split\<close>)
qed

lemma loop_at_error:
  assumes "ts_state (ctl c) = TS_ERROR" "tun c = None"
  shows "\<exists>c'. loop k c = Some c'"
proof -
  have s: "\<exists>x'. run_state k x = Some x'" if "ts_state (ctl x) = TS_ERROR" for x :: "'a component"
    using that by (simp add: run_state_def Let_def control_view_def)
  show ?thesis unfolding loop_def by (rule s) (simp add: packet_turn_frame assms)
qed

theorem failed_relay_stays_witness:
  "\<forall>k. \<exists>c'. run_loops [k] toy_component = Some c'
    \<and> \<not> relay_ready c' \<and> (\<exists>d'. relay c' = Some d' \<and> d_state d' = ERROR \<and> tx d' = tx toy_relay \<and> delivered d' = delivered toy_relay)"
proof
  fix k
  obtain c' where c': "loop k toy_component = Some c'" using loop_at_error [of toy_component k] by (auto simp: toy_component_def)
  then show "\<exists>c'. run_loops [k] toy_component = Some c'
      \<and> \<not> relay_ready c' \<and> (\<exists>d'. relay c' = Some d' \<and> d_state d' = ERROR \<and> tx d' = tx toy_relay \<and> delivered d' = delivered toy_relay)"
    using failed_relay_stays [of toy_component toy_relay "[k]" c'] by (simp add: toy_component_def toy_relay_def)
qed

section \<open>The manager is there when it is called\<close>

text \<open>A packet step adds and removes no session and does not drop the manager.\<close>

definition serves :: "'d node \<Rightarrow> 'd node \<Rightarrow> bool" where
  "serves n n' \<longleftrightarrow> length (sessions n') = length (sessions n) \<and> (manager n' = None \<longrightarrow> manager n = None)"

lemma serves_refl [simp]: "serves n n"
  by (simp add: serves_def)

lemma serves_trans: "serves a b \<Longrightarrow> serves b c \<Longrightarrow> serves a c"
  by (simp add: serves_def)

lemma serves_fields [simp]:
  "serves n (n\<lparr>manager := Some m\<rparr>)" "serves n (set_session i s n)" "serves n (udp_emit a port p n)" "serves n (derp_emit now i p n)"
  "serves n (n\<lparr>netif_in := ps\<rparr>)" "serves n (n\<lparr>tcp := t\<rparr>)" "serves n (n\<lparr>own_endpoint := e\<rparr>)" "serves n (n\<lparr>derp_out := q\<rparr>)"
  "serves n (n\<lparr>wg_packet_buffer := b\<rparr>)" "serves n (n\<lparr>last_rx_endpoint := e, last_rx_port := port\<rparr>)"
  by (simp_all add: serves_def set_session_def udp_emit_def derp_emit_def Let_def)

lemma serves_fold: "(\<And>x n. serves n (f x n)) \<Longrightarrow> serves n (fold f xs n)"
proof (induction xs arbitrary: n)
  case (Cons x xs)
  show ?case using serves_trans [OF Cons.prems Cons.IH [OF Cons.prems]] by simp
qed simp

lemma serves_transmit: "serves n (wg_transmit w i p n)"
  by (auto simp: wg_transmit_def Let_def intro: serves_trans [OF _ serves_fields(3)])

lemma serves_send: "serves n (wg_send_callback w x n)"
proof -
  obtain ip p where x: "x = (ip, p)" by (cases x)
  have t: "serves n (wg_transmit w i p n')" if "serves n n'" for i n' using that serves_transmit by (rule serves_trans)
  have m: "serves n ((set_session i s n)\<lparr>manager := Some m\<rparr>)" for i s m by (rule serves_trans [OF serves_fields(2,1)])
  show ?thesis by (auto simp: x wg_send_callback_def Let_def split: option.split prod.split intro!: t m)
qed

lemma serves_decrypt: "serves n (wg_decrypt_callback w x n)"
  by (cases x) (auto simp: wg_decrypt_callback_def Let_def split: option.split intro: serves_trans [OF serves_fields(2,5)])

lemma serves_drain: "serves n (drain w m n)"
  unfolding drain_def
  by (rule serves_trans [OF serves_trans [OF serves_fields(1)]]) (rule serves_fold, rule serves_send serves_decrypt)+

lemma serves_received: "serves n (snd (receive_by_manager w p m n))"
  by (auto simp: receive_by_manager_def serves_drain split: prod.split)

lemma serves_disco: "serves n (run_disco w p a port n)"
proof -
  have "length (peer_sessions d') = length (peer_sessions d)" if "ids d' = ids d" for d d' :: disco
    using arg_cong [OF that, of length] by simp
  from this [OF ids_disco] show ?thesis by (simp add: serves_def run_disco_def)
qed

lemma serves_route: "serves n (route_incoming_packet w p a port n)"
proof -
  have rec: "serves x (recover_stale w a port x)" for x by (auto simp: recover_stale_def serves_drain split: option.split)
  have wg: "serves x (route_wireguard w p a port x)" for x
  proof (cases "manager x")
    case (Some m)
    obtain b y where r: "receive_by_manager w p m x = (b, y)" by (rule prod.exhaust)
    then have "serves x y" using serves_received [of x w p m] by simp
    then show ?thesis using serves_trans [OF _ rec] by (auto simp: route_wireguard_def Some r split: bool.split)
  qed (simp add: route_wireguard_def)
  have st: "serves x (run_stun w p a port x)" for x
    unfolding run_stun_def by (auto split: prod.split intro!: serves_trans [OF serves_fields(7) serves_fold] serves_fields(3))
  show ?thesis unfolding route_incoming_packet_def Let_def
    by (auto intro: serves_trans [OF serves_fields(10)] serves_disco st wg)
qed

lemma serves_send_out: "serves n (case manager n of None \<Rightarrow> n | Some m \<Rightarrow> drain w (snd (send_ip_packet (w_lib w) ip q m)) n)"
  by (auto simp: serves_drain split: option.split)

lemma serves_relayed: "serves n (handle_derp_packet w pk p n)"
proof -
  have tcp: "serves x (run_tcp w p x)" for x unfolding run_tcp_def Let_def
    by (rule serves_trans [OF serves_fields(6) serves_fold]) (auto split: prod.split intro: serves_send_out)
  have pl: "serves x (handle_plain_ip w pk p x)" for x by (simp add: handle_plain_ip_def tcp)
  have act: "serves x (activate_sender w pk x)" for x by (auto simp: activate_sender_def Let_def split: option.split)
  have buf: "serves x (buffer_packet (w_now w) p x)" for x by (simp add: buffer_packet_def)
  define wg where "wg = (\<lambda>x :: 'a node. case manager x of
           Some m \<Rightarrow> if wg_device m \<noteq> None then snd (receive_by_manager w p m x)
                     else if sessions x = [] then buffer_packet (w_now w) p x else x
         | None \<Rightarrow> if sessions x = [] then buffer_packet (w_now w) p x else x)"
  have wg': "serves x (wg x)" for x by (auto simp: wg_def serves_received buf split: option.split)
  show ?thesis unfolding handle_derp_packet_def Let_def wg_def [symmetric]
    by (simp add: serves_disco pl serves_trans [OF act wg'])
qed

lemma serves_buffered: "serves n (process_buffered_wg_packets w n)"
proof -
  have "serves x (case q of (p, t) \<Rightarrow> if w_now w - t > 5000 then x
          else case manager x of None \<Rightarrow> x | Some m \<Rightarrow> if wg_device m = None then x else snd (receive_by_manager w p m x))" for x q
    by (auto simp: serves_received split: prod.split option.split)
  then have "serves n (fold (\<lambda>(p, t) n. if w_now w - t > 5000 then n
          else case manager n of None \<Rightarrow> n | Some m \<Rightarrow> if wg_device m = None then n else snd (receive_by_manager w p m n))
        (wg_packet_buffer n) n)" by (intro serves_fold) (simp add: case_prod_beta)
  then show ?thesis unfolding process_buffered_wg_packets_def by (rule serves_trans [OF _ serves_fields(9)])
qed

lemma serves_tx: "serves n (process_tx_queue w q n)"
  unfolding process_tx_queue_def by (rule serves_fold) (auto split: prod.split intro: serves_send_out)

lemma serves_maintain:
  assumes "manager n \<noteq> None"
  shows "\<exists>n'. maintain_peers w n = Some n' \<and> serves n n'"
proof -
  have one: "\<exists>n'. maintain_peer w i x = Some n' \<and> serves n n'" if "serves n x" for i x
    using that assms serves_trans [OF that serves_drain] by (auto simp: maintain_peer_def Let_def serves_def split: option.split)
  have "\<exists>n'. fold (\<lambda>i r. Option.bind r (maintain_peer w i)) xs (Some x) = Some n' \<and> serves n n'" if "serves n x" for xs x
    using that
  proof (induction xs arbitrary: x)
    case (Cons i xs)
    obtain y where y: "maintain_peer w i x = Some y" "serves n y" using one [OF Cons.prems] by blast
    show ?case using Cons.IH [OF y(2)] by (simp add: y(1))
  qed simp
  then show ?thesis by (simp add: maintain_peers_def)
qed

section \<open>The node over the turns of the loop\<close>

text \<open>The router's invariant, and a manager wherever there are sessions.\<close>

definition node_ok :: "'d node \<Rightarrow> bool" where
  "node_ok n \<longleftrightarrow> router_ok n \<and> (sessions n \<noteq> [] \<longrightarrow> manager n \<noteq> None)"

lemma node_ok_serves: "node_ok n \<Longrightarrow> serves n n' \<Longrightarrow> router_ok n' \<Longrightarrow> node_ok n'"
  by (auto simp: node_ok_def serves_def)

text \<open>Nodes that do not differ in what the invariant looks at.\<close>

definition same_peers :: "'d node \<Rightarrow> 'd node \<Rightarrow> bool" where
  "same_peers n n' \<longleftrightarrow> ids (ds n') = ids (ds n) \<and> ip_map n' = ip_map n \<and> manager n' = manager n \<and> wg_packet_buffer n' = wg_packet_buffer n"

lemma same_peers_ok:
  assumes "same_peers n n'" "node_ok n"
  shows "node_ok n'"
proof -
  have s: "ids (ds n') = ids (ds n)" "manager n' = manager n" using assms(1) by (simp_all add: same_peers_def)
  have "router_ok n'"
    by (rule router_ok_same [of n]) (use assms ids_eqD [OF s(1)] in \<open>simp_all add: same_peers_def node_ok_def router_ok_times\<close>)
  then show ?thesis using assms(2) s arg_cong [OF s(1), of length] by (auto simp: node_ok_def)
qed

definition tick_ok :: "'d tick \<Rightarrow> bool" where
  "tick_ok k \<longleftrightarrow> w_now (tk_world k) \<noteq> 0xFFFFFFFF \<and> (\<forall>i. w_now (tk_queue k i) \<noteq> 0xFFFFFFFF)"

lemma same_peers_steps [simp]:
  "same_peers n n" "same_peers n (udp_emit a port p n)" "same_peers n (n\<lparr>derp_out := q\<rparr>)" "same_peers n (n\<lparr>derp_ready := b\<rparr>)"
  "same_peers n (n\<lparr>netif_running := b\<rparr>)"
  by (simp_all add: same_peers_def udp_emit_def)

lemma same_peers_trans: "same_peers a b \<Longrightarrow> same_peers b c \<Longrightarrow> same_peers a c"
  by (simp add: same_peers_def)

lemma cnode_set [simp]: "cnode (set_node n c) = n"
  by (simp add: set_node_def)

lemma same_peers_hand_over [simp]: "same_peers (cnode c) (cnode (hand_over c))"
  by (auto simp: hand_over_def sync_relay_def same_peers_def split: option.split)

lemma same_peers_back [simp]: "same_peers (cnode c) (cnode (control_back d c))"
  by (simp add: control_back_def Let_def same_peers_def)

lemma same_peers_sync [simp]: "same_peers (cnode c) (cnode (sync_relay c))"
  by (simp add: sync_relay_def same_peers_def)

lemma same_peers_query [simp]: "same_peers (cnode c) (cnode (query_endpoint k c))"
  by (simp add: query_endpoint_def split: prod.split)

lemma same_peers_netif [simp]: "same_peers (cnode c) (cnode (init_netif k c))"
  by (simp add: init_netif_def split: prod.split bool.split)

lemma same_peers_natpmp [simp]:
  "same_peers (cnode c) (cnode (request_natpmp k c))" "same_peers (cnode c) (cnode (check_natpmp k c))"
  "same_peers (cnode c) (cnode (send_probe k c))"
  by (auto simp: request_natpmp_def check_natpmp_def send_probe_def Let_def split: option.split prod.split)

lemma same_peers_ping: "same_peers (io_node s) (io_node (snd (ping_peers w now ps (t, s))))"
proof (induction w now ps "(t, s)" arbitrary: t s rule: ping_peers.induct)
  case (2 w now p ps t s)
  have o: "same_peers (io_node s) (io_node (ping_one w p s))" by (simp add: ping_one_def same_peers_def)
  show ?case using 2 same_peers_trans [OF o] by (auto simp: discover_nat_port_for_peer_def)
qed simp

lemma same_peers_pings [simp]: "same_peers (cnode c) (cnode (send_pings w now c))"
  using same_peers_ping [of "cio c" w now] by (auto simp: send_pings_def Let_def split: prod.split) (metis snd_conv)

text \<open>A step that keeps the router's invariant and serves keeps both.\<close>

abbreviation comp_ok :: "'d component \<Rightarrow> bool" where
  "comp_ok c \<equiv> node_ok (cnode c)"

lemma comp_ok_step:
  assumes "comp_ok c" "\<And>n. router_ok n \<Longrightarrow> router_ok (f n)" "\<And>n. serves n (f n)"
  shows "comp_ok (node_step f c)"
proof -
  have "router_ok (cnode c)" using assms(1) by (simp add: node_ok_def)
  then have "node_ok (f (cnode c))" by (rule node_ok_serves [OF assms(1) assms(3) assms(2)])
  then show ?thesis unfolding node_step_def by (intro same_peers_ok [OF same_peers_hand_over]) simp
qed

lemma comp_ok_same: "comp_ok c \<Longrightarrow> same_peers (cnode c) (cnode c') \<Longrightarrow> comp_ok c'"
  by (rule same_peers_ok)

lemma node_ok_route: "node_ok n \<Longrightarrow> w_now w \<noteq> 0xFFFFFFFF \<Longrightarrow> node_ok (route_incoming_packet w p a port n)"
  by (rule node_ok_serves [OF _ serves_route]) (simp_all add: node_ok_def router_ok_route)

lemma node_ok_buffer:
  assumes "node_ok (io_node s)" "w_now w \<noteq> 0xFFFFFFFF"
  shows "node_ok (io_node (handle_buffer w b s))"
proof -
  have "node_ok (io_node (nat_port_found w port s))" for port
    by (rule same_peers_ok [OF _ assms(1)]) (simp add: nat_port_found_def Let_def same_peers_def)
  then show ?thesis using assms by (auto simp: handle_buffer_def Let_def intro: node_ok_route split: option.split)
qed

lemma node_ok_queue:
  assumes "node_ok (io_node s)" "\<And>i. w_now (w i) \<noteq> 0xFFFFFFFF"
  shows "node_ok (io_node (process_packet_queue w s))"
proof -
  have "node_ok (io_node (take_packets n w s))" for n
    using assms(1)
  proof (induction n arbitrary: s)
    case (Suc n)
    have "node_ok (io_node (give_back b (handle_buffer (w n) b (s\<lparr>ready_queue := q\<rparr>))))" for b q
      using node_ok_buffer [of "s\<lparr>ready_queue := q\<rparr>" "w n" b] Suc.prems assms(2) by (simp add: give_back_def)
    then show ?case using Suc by (auto split: option.split prod.split)
  qed simp
  then show ?thesis using assms(1) by (simp add: process_packet_queue_def)
qed

lemma comp_ok_relay:
  assumes "comp_ok c" "tick_ok k"
  shows "comp_ok (process_relay k c)"
proof (cases "relay c")
  case (Some d)
  have now: "w_now (tk_world k) \<noteq> 0xFFFFFFFF" using assms(2) by (simp add: tick_ok_def)
  have "comp_ok (sync_relay (c\<lparr>relay := r\<rparr>))" for r
    by (rule comp_ok_same [OF _ same_peers_sync]) (simp add: assms(1))
  then show ?thesis unfolding process_relay_def Some option.case Let_def
    by (rule comp_ok_step)
       (auto intro!: router_ok_fold serves_fold simp: split_beta router_ok_derp [OF _ now] serves_relayed)
qed (simp add: process_relay_def assms(1))

lemma comp_ok_turn:
  assumes "comp_ok c" "tick_ok k"
  shows "comp_ok (packet_turn k c)"
proof -
  have now: "w_now (tk_world k) \<noteq> 0xFFFFFFFF" using assms(2) by (simp add: tick_ok_def)
  have q: "comp_ok (hand_over (c\<lparr>ctl := d, cio := process_packet_queue (tk_queue k) (cio c)\<rparr>))" for d
    by (rule comp_ok_same [OF _ same_peers_hand_over]) (use assms in \<open>simp add: node_ok_queue tick_ok_def\<close>)
  have b: "comp_ok (node_step (process_buffered_wg_packets (tk_world k)) x)" if "comp_ok x" for x
    using that by (rule comp_ok_step) (simp_all add: router_ok_buffered now serves_buffered)
  have l: "comp_ok (process_lwip k x)" if "comp_ok x" for x
    using that by (auto simp: process_lwip_def split: option.split prod.split intro!: comp_ok_step router_ok_tx now serves_tx)
  show ?thesis unfolding packet_turn_def Let_def
    by (rule l) (auto split: option.split intro!: b comp_ok_relay q assms(2))
qed

lemma mgr_ok_keepalive: "mgr_ok ips m \<Longrightarrow> mgr_ok ips (snd (send_peer_keepalive lib ip m))"
  by (simp add: mgr_ok_keys keys_keepalive wgm_ok_keepalive)

text \<open>The sessions are maintained with the manager that made them.\<close>

lemma maintain_peer_ok:
  assumes "router_ok n" "manager n \<noteq> None" "w_now w \<noteq> 0xFFFFFFFF"
  shows "\<exists>n'. maintain_peer w i n = Some n' \<and> serves n n' \<and> router_ok n'"
  using assms by (auto simp: maintain_peer_def Let_def serves_drain
      intro!: router_ok_drain mgr_ok_keepalive mgr_ok_start intro: router_okD)

lemma maintain_peers_ok:
  assumes "node_ok n" "w_now w \<noteq> 0xFFFFFFFF"
  shows "\<exists>n'. maintain_peers w n = Some n' \<and> node_ok n'"
proof (cases "sessions n")
  case (Cons s ss)
  have run: "\<exists>n'. fold (\<lambda>i r. Option.bind r (maintain_peer w i)) xs (Some x) = Some n' \<and> serves n n' \<and> router_ok n'"
    if "serves n x" "router_ok x" for xs x
    using that
  proof (induction xs arbitrary: x)
    case (Cons i xs)
    have "manager x \<noteq> None" using Cons.prems(1) assms(1) \<open>sessions n = s # ss\<close> by (auto simp: serves_def node_ok_def)
    then obtain y where y: "maintain_peer w i x = Some y" "serves x y" "router_ok y"
      using maintain_peer_ok [OF Cons.prems(2) _ assms(2)] by blast
    show ?case using Cons.IH [OF serves_trans [OF Cons.prems(1) y(2)] y(3)] by (simp add: y(1))
  qed simp
  then obtain n' where n': "maintain_peers w n = Some n'" "serves n n'" "router_ok n'"
    unfolding maintain_peers_def using run [OF serves_refl, of "[0..<length (sessions n)]"] assms(1) unfolding node_ok_def by blast
  then show ?thesis using node_ok_serves [OF assms(1) n'(2,3)] by blast
qed (simp add: maintain_peers_def assms(1))

lemma maintain_sessions_ok:
  assumes "comp_ok c" "tick_ok k"
  shows "\<exists>c'. maintain_sessions k direct c = Some c' \<and> comp_ok c'"
proof -
  obtain n' where n': "maintain_peers (tk_world k) (cnode c) = Some n'" "node_ok n'"
    using maintain_peers_ok [OF assms(1), of "tk_world k"] assms(2) by (auto simp: tick_ok_def)
  have "comp_ok (hand_over (set_node n' c))" by (rule comp_ok_same [OF _ same_peers_hand_over]) (simp add: n'(2))
  then show ?thesis using assms(1) by (simp add: maintain_sessions_def n'(1))
qed

lemma comp_ok_before:
  assumes "comp_ok c"
  shows "comp_ok (check_server k (run_echo k c))"
proof -
  have "comp_ok (run_echo k c)" using assms by (simp add: run_echo_def Let_def)
  then show ?thesis unfolding check_server_def by (rule comp_ok_same [OF _ same_peers_back])
qed

lemma comp_ok_send_keepalive: "comp_ok c \<Longrightarrow> send_keepalive k c = Some c' \<Longrightarrow> comp_ok c'"
  by (auto simp: send_keepalive_def Let_def split: if_splits
      intro: comp_ok_same [OF _ same_peers_back [of "c\<lparr>clocks := start_keepalive (tk_current k) (clocks c)\<rparr>"], simplified])

lemma comp_ok_run_relay: "comp_ok c \<Longrightarrow> comp_ok (run_relay k c)"
proof -
  assume c: "comp_ok c"
  have "comp_ok (sync_relay (c\<lparr>clocks := t, relay := r, clocks := t'\<rparr>))" for t r t'
    by (rule comp_ok_same [OF _ same_peers_sync]) (simp add: c)
  then show ?thesis using c by (auto simp: run_relay_def Let_def split: option.split prod.split)
qed

lemma comp_ok_relay_keepalive: "comp_ok c \<Longrightarrow> comp_ok (send_relay_keepalive w now c)"
proof -
  assume c: "comp_ok c"
  have "comp_ok (sync_relay (c\<lparr>relay := r, clocks := t'\<rparr>))" for r t'
    by (rule comp_ok_same [OF _ same_peers_sync]) (simp add: c)
  then show ?thesis using c by (auto simp: send_relay_keepalive_def Let_def split: option.split prod.split list.split)
qed

text \<open>A turn of the connected state fails only in the update it sends to the control server.\<close>

lemma connected_ok:
  assumes "comp_ok c" "tick_ok k" "send_keepalive k (check_server k (run_echo k c)) \<noteq> None"
  shows "\<exists>c'. handle_connected_state k c = Some c' \<and> comp_ok c'"
proof -
  obtain c1 where c1: "send_keepalive k (check_server k (run_echo k c)) = Some c1" using assms(3) by blast
  define direct where "direct = skip_derp (prefer_direct_udp (cnode (run_relay k c1))) (tk_now k) (paths (run_relay k c1)) (clocks (run_relay k c1))"
  have "comp_ok (run_relay k c1)" by (intro comp_ok_run_relay comp_ok_send_keepalive [OF comp_ok_before c1] assms(1))
  then obtain c2 where c2: "maintain_sessions k direct (run_relay k c1) = Some c2" "comp_ok c2"
    using maintain_sessions_ok [OF _ assms(2)] by blast
  have "comp_ok (send_pings w now (send_probe k (check_natpmp k (request_natpmp k c2))))" for w now
    by (intro comp_ok_same [OF _ same_peers_pings] comp_ok_same [OF _ same_peers_natpmp(3)] comp_ok_same [OF _ same_peers_natpmp(2)]
        comp_ok_same [OF _ same_peers_natpmp(1)] c2(2))
  then show ?thesis by (simp add: handle_connected_state_def c1 Let_def c2(1) comp_ok_relay_keepalive flip: direct_def)
qed

lemma node_ok_init:
  assumes "node_ok n" "w_now w \<noteq> 0xFFFFFFFF"
  shows "node_ok (snd (init_sessions w priv n))"
proof -
  have "router_ok (snd (init_sessions w priv n))" using assms by (simp add: router_ok_init node_ok_def)
  moreover have "manager (snd (init_sessions w priv n)) \<noteq> None" if "cfg_peers (ds n) \<noteq> []" "length (w_b64d w priv) = 32"
  proof -
    have pb: "manager (process_buffered_wg_packets w (y\<lparr>manager := Some m\<rparr>)) \<noteq> None" for m and y :: "'a node"
      using serves_buffered [of "y\<lparr>manager := Some m\<rparr>" w] by (auto simp: serves_def)
    obtain b m where m: "wg_init (w_lib w) (w_b64d w priv) wgm_new = (b, m)" by (rule prod.exhaust)
    show ?thesis using that pb by (cases b) (simp_all add: init_sessions_def Let_def m case_prod_beta)
  qed
  moreover have "snd (init_sessions w priv n) = n" if "cfg_peers (ds n) = [] \<or> length (w_b64d w priv) \<noteq> 32"
    using that by (auto simp: init_sessions_def)
  ultimately show ?thesis using assms(1) unfolding node_ok_def by metis
qed

lemma init_relay_node: "init_relay k c = Some c' \<Longrightarrow> same_peers (cnode c) (cnode c')"
  by (auto simp: init_relay_def Let_def sync_relay_def same_peers_def split: if_splits option.splits prod.splits)

lemma comp_ok_to_state [simp]: "comp_ok (to_state k st c) = comp_ok c"
  by (simp add: to_state_def)

lemma fetching_ok:
  assumes "comp_ok c" "tick_ok k" "handle_fetching_map_state k c = Some c'"
  shows "comp_ok c'"
proof -
  define s where "s = setup_icmp_socket (tk_icmp k) (setup_unified_socket (tk_setup k) (cio c))"
  have n: "io_node s = cnode c"
  proof -
    have a: "io_node (alloc_buffer ok x) = io_node x" for ok and x :: "'a io" by (simp add: alloc_buffer_def give_back_def)
    have f: "io_node (fold (\<lambda>i. alloc_buffer (g i)) xs x) = io_node x" for g and xs :: "nat list" and x :: "'a io"
      by (induction xs arbitrary: x) (simp_all add: a)
    show ?thesis by (simp add: s_def setup_icmp_socket_def setup_unified_socket_def start_io_task_def Let_def f)
  qed
  have b: "comp_ok (control_back d (c\<lparr>cio := s\<rparr>))" for d
    by (rule comp_ok_same [OF _ same_peers_back]) (simp add: n assms(1))
  have i: "comp_ok (set_node (snd (init_sessions (tk_world k) p (cnode x))) y)" if "comp_ok x" for p x y
    using node_ok_init [OF that, of "tk_world k"] assms(2) by (simp add: tick_ok_def)
  have q: "comp_ok (init_netif k (query_endpoint k (hand_over x)))" if "comp_ok x" for x
    by (intro comp_ok_same [OF _ same_peers_netif] comp_ok_same [OF _ same_peers_query] comp_ok_same [OF _ same_peers_hand_over] that)
  obtain ok d where d: "fetch_map_response (tk_control k) (discover_local_endpoints (tk_control k) (control_view (c\<lparr>cio := s\<rparr>))) = (ok, d)"
    by (rule prod.exhaust)
  show ?thesis
  proof (cases ok)
    case True
    then obtain x where x: "init_relay k (control_back d (c\<lparr>cio := s\<rparr>)) = Some x"
      using assms(3) d by (auto simp: handle_fetching_map_state_def Let_def s_def split: option.splits)
    have okx: "comp_ok x" by (rule comp_ok_same [OF b init_relay_node [OF x]])
    obtain r n where rn: "init_sessions (tk_world k) (nk_node_private (ct_keys (ctl x))) (cnode x) = (r, n)" by (rule prod.exhaust)
    have "comp_ok (set_node n y)" for y using i [OF okx, of "nk_node_private (ct_keys (ctl x))" y] rn by simp
    then have "comp_ok (to_state k TS_ERROR (set_node n x))" "comp_ok (to_state k TS_CONNECTED (init_netif k (query_endpoint k (hand_over (set_node n x)))))"
      by (simp_all only: comp_ok_to_state q)
    then show ?thesis using assms(3) x rn d True by (cases r) (auto simp: handle_fetching_map_state_def Let_def simp flip: s_def)
  next
    case False
    have "comp_ok (to_state k TS_ERROR (control_back d (c\<lparr>cio := s\<rparr>)))" by (simp only: comp_ok_to_state b)
    then show ?thesis using assms(3) d False by (auto simp: handle_fetching_map_state_def Let_def simp flip: s_def)
  qed
qed

lemma run_state_ok:
  assumes "comp_ok c" "tick_ok k" "run_state k c = Some c'"
  shows "comp_ok c'"
proof -
  have b: "comp_ok (control_back d c)" for d by (rule comp_ok_same [OF assms(1) same_peers_back])
  have "comp_ok x" if "handle_connected_state k c = Some x" for x
    using connected_ok [OF assms(1,2)] that by (cases "send_keepalive k (check_server k (run_echo k c))") (auto simp: handle_connected_state_def)
  then show ?thesis using assms b fetching_ok [OF assms(1,2)] by (auto simp: run_state_def Let_def split: ts_state.splits)
qed

lemma loop_ok:
  assumes "comp_ok c" "tick_ok k" "loop k c = Some c'"
  shows "comp_ok c'"
  by (rule run_state_ok [OF comp_ok_turn _ assms(3) [unfolded loop_def]]) (use assms in simp_all)

text \<open>
  C7. From a component that has no sessions yet, however often the loop turns, whatever comes in and in
  whatever states: at most one WireGuard peer is active and it is one of the sessions'; the sessions are
  never there without the manager their maintenance calls without a test; and a turn in the connected state
  therefore goes through unless the update for the control server fails. Time is not the last
  millisecond before the clock wraps.
\<close>

theorem manager_never_missing:
  assumes "manager (cnode c0) = None" "sessions (cnode c0) = []" "ip_map (cnode c0) = []" "wg_packet_buffer (cnode c0) = []"
    and "list_all tick_ok ks" "run_loops ks c0 = Some c"
  shows "(case manager (cnode c) of None \<Rightarrow> sessions (cnode c) = []
      | Some m \<Rightarrow> get_peer_count m \<le> 1 \<and> list_all (\<lambda>(ip, _). ip \<in> s_tailscale_ip ` set (sessions (cnode c))) (wg_peers m))
    \<and> (\<forall>k. tick_ok k \<and> ts_state (ctl (packet_turn k c)) = TS_CONNECTED
        \<and> send_keepalive k (check_server k (run_echo k (packet_turn k c))) \<noteq> None
        \<longrightarrow> loop k c \<noteq> None)"
proof -
  have "comp_ok c0" using assms(1-4) by (simp add: node_ok_def router_ok_def ip_map_ok_def om_wf_def times_ok_def)
  then have c: "comp_ok c"
    by (rule run_loops_invariant [where P = tick_ok and Q = comp_ok, rotated, OF _ assms(5,6)]) (rule loop_ok)
  then have "case manager (cnode c) of None \<Rightarrow> sessions (cnode c) = []
      | Some m \<Rightarrow> get_peer_count m \<le> 1 \<and> list_all (\<lambda>(ip, _). ip \<in> s_tailscale_ip ` set (sessions (cnode c))) (wg_peers m)"
    by (auto simp: node_ok_def router_ok_def mgr_ok_def get_peer_count_def MAX_ACTIVE_WIREGUARD_PEERS_def split: option.split)
  moreover have "loop k c \<noteq> None" if k: "tick_ok k" and
    "ts_state (ctl (packet_turn k c)) = TS_CONNECTED"
    "send_keepalive k (check_server k (run_echo k (packet_turn k c))) \<noteq> None" for k
  proof -
    have "comp_ok (packet_turn k c)"
      by (rule comp_ok_turn) (rule c, rule k)
    from connected_ok [OF this k that(3)] show ?thesis using that(2) by (auto simp: loop_def run_state_def Let_def control_view_def)
  qed
  ultimately show ?thesis by blast
qed

text \<open>A component in its connected state, without a connection to the server, turns as often as it is called.\<close>

definition toy_connected :: "nat component" where
  "toy_connected = toy_component\<lparr>ctl := (ctl toy_component)\<lparr>ts_state := TS_CONNECTED, ct_transport := None\<rparr>\<rparr>"

definition quiet :: "nat tick \<Rightarrow> nat tick" where
  "quiet k = k\<lparr>tk_world := toy_world, tk_queue := (\<lambda>_. toy_world)\<rparr>"

lemma tick_ok_quiet: "tick_ok (quiet k)"
  by (simp add: tick_ok_def quiet_def toy_world_def)

lemma unconnected_keepalive:
  assumes "ct_transport (ctl c) = None"
  shows "send_keepalive k (check_server k (run_echo k c)) \<noteq> None"
proof -
  have "ct_transport (watch_not_ready w ps x) = None" if "ct_transport x = None" for w ps x
    using that by (simp add: watch_not_ready_def Let_def transition_to_def update_led_state_def drop_connection_def)
  then have "ct_transport (ctl (check_server k (run_echo k c))) = None"
    using assms by (simp add: check_server_def run_echo_def Let_def check_server_keepalive_def control_view_def control_back_def)
  then show ?thesis by (simp add: send_keepalive_def Let_def send_map_keepalive_def control_view_def)
qed

lemma toy_connected_turns: "ts_state (ctl (packet_turn k toy_connected)) = TS_CONNECTED" "ct_transport (ctl (packet_turn k toy_connected)) = None"
  by (simp_all add: packet_turn_frame toy_connected_def toy_component_def)

theorem manager_never_missing_witness:
  "\<forall>k. \<exists>c. run_loops [quiet k] toy_connected = Some c
    \<and> (case manager (cnode c) of None \<Rightarrow> sessions (cnode c) = []
      | Some m \<Rightarrow> get_peer_count m \<le> 1 \<and> list_all (\<lambda>(ip, _). ip \<in> s_tailscale_ip ` set (sessions (cnode c))) (wg_peers m))"
proof
  fix k
  have f: "manager (cnode toy_connected) = None" "sessions (cnode toy_connected) = []" "ip_map (cnode toy_connected) = []"
    "wg_packet_buffer (cnode toy_connected) = []" by (simp_all add: toy_connected_def toy_component_def io_new_def toy_fresh_def)
  have "loop (quiet k) toy_connected \<noteq> None"
    using manager_never_missing [OF f, of "[]" toy_connected] tick_ok_quiet [of k] toy_connected_turns [of "quiet k"]
      unconnected_keepalive [OF toy_connected_turns(2), of "quiet k"] by (simp del: not_None_eq)
  then obtain c where c: "run_loops [quiet k] toy_connected = Some c" by auto
  show "\<exists>c. run_loops [quiet k] toy_connected = Some c
    \<and> (case manager (cnode c) of None \<Rightarrow> sessions (cnode c) = []
      | Some m \<Rightarrow> get_peer_count m \<le> 1 \<and> list_all (\<lambda>(ip, _). ip \<in> s_tailscale_ip ` set (sessions (cnode c))) (wg_peers m))"
    using c manager_never_missing [OF f _ c] tick_ok_quiet [of k] by simp
qed

end
