(* ===== verification/Spec2Isabelle.thy ===== *)
theory Spec2Isabelle
  imports Http2_Posts Map_Filter Map_Roundtrip Derp_Handshake Tcp_Delivery Stun_Check Router_Paths
    Blake2s_Check Noise_Types Control_Channel Io_Runs Control_Recovery Netif_Runs Http_Pages Loop_Runs
begin

text \<open>
  A Tailscale node for ESPHome on an ESP32, in C++ with a C Noise library
  (\<^verbatim>\<open>src/components/tailscale\<close>): its data formats, its cryptography, its three
  connections and the packet paths between them, translated into HOL and proved to do what they are
  for, or shown not to.

  \<^bold>\<open>The program.\<close> One component, \<^verbatim>\<open>TailscaleComponent\<close> in
  \<^verbatim>\<open>tailscale.cpp\<close>, runs as a state machine from ESPHome's main loop. It loads or
  draws its keys, opens the control connection (TLS, a websocket upgrade, a Noise IK handshake, records,
  HTTP/2), registers, fetches the network map and parses it into the peers' sessions. Then packets
  flow: a relay client (DERP) over TLS, a UDP socket on which WireGuard, disco, STUN and NAT-PMP
  share a port and which a task of its own reads, a WireGuard manager with one slot per peer, and a TCP
  endpoint and lwIP above the tunnel.

  \<^bold>\<open>The theories.\<close> Paths are relative to \<^verbatim>\<open>src/components/tailscale\<close>; definitions
  carry the names of the functions, without the trailing underscore, and records the names of the
  classes and their fields.

  \<^item> Foundations. \<open>Ts_Prelude\<close>: integers, field codecs, the collections \<open>codec_simps\<close> and
    \<open>inv_intros\<close>. \<open>Ts_Interfaces\<close>: the locales \<open>framing\<close> (a self-delimiting format) and
    \<open>machine\<close> (an invariant every call keeps). \<open>Json_Spec\<close>: JSON documents and their rendering, a
    reference. \<open>Ord_Map\<close>: \<^verbatim>\<open>std::map\<close> and the locale \<open>keyed_store\<close>. \<open>Net_Addr\<close>,
    \<open>Net_Checksum\<close>: addresses and the Internet checksum.
  \<^item> The map. \<open>Json_Stream\<close> (\<^verbatim>\<open>json_stream_parser.h\<close>), \<open>Map_Parser\<close>
    (\<^verbatim>\<open>map_response_parser.cpp\<close>), with \<open>Map_Roundtrip\<close> (a rendered map is parsed back) and
    \<open>Map_Filter\<close> (the peer filter); \<open>Peer_Table\<close>: from the map to \<^verbatim>\<open>peer_sessions_\<close>.
  \<^item> HTTP/2. \<open>Http2_Codec\<close>, \<open>Http2_Session\<close>, \<open>Http2_Posts\<close>
    (\<^verbatim>\<open>http2_session.cpp\<close>): frames, header blocks, requests and flow control.
  \<^item> Noise. \<open>Blake2s\<close> (the hash, scalar and vector, against RFC 7693; \<open>Blake2s_Check\<close> runs its
    example), \<open>Noise_Hash\<close>, \<open>Noise_Cipher\<close>, \<open>Noise_Symmetric\<close>, \<open>Noise_Pattern\<close>,
    \<open>Noise_Handshake\<close> (\<^verbatim>\<open>noise/src\<close>), \<open>Noise_Agreement\<close> (the two sides against each
    other), \<open>Noise_Types\<close> (no null pointer is read), \<open>Noise_Session\<close>
    (\<^verbatim>\<open>noise_session.cpp\<close>).
  \<^item> The control connection. \<open>Ws_Upgrade\<close> (\<^verbatim>\<open>ts2021_upgrade.cpp\<close>), \<open>Ts2021_Transport\<close>
    (\<^verbatim>\<open>ts2021_transport.cpp\<close>), \<open>Control_Channel\<close> (the layers together).
  \<^item> The component. \<open>Node_Keys\<close> (keys and flash), \<open>Payloads\<close>
    (\<^verbatim>\<open>hostinfo_builder.cpp\<close>, \<^verbatim>\<open>map_payload.cpp\<close>,
    \<^verbatim>\<open>register_payload.cpp\<close>), \<open>Led_Status\<close> (\<^verbatim>\<open>led_status.cpp\<close>),
    \<open>Control_Plane\<close> (states, transitions, \<^verbatim>\<open>ensure_ts2021_ready_\<close>),
    \<open>Control_Fetch\<close> (registration, the map, its updates, the watchdogs),
    \<open>Control_Opening\<close> (the connection opens end to end), \<open>Control_Recovery\<close> (a silent
    server, refused keys),
    \<open>Main_Loop\<close> (\<^verbatim>\<open>loop\<close>, the handlers of the fetching and of the connected state
    and their timers, the test server; it joins this part with the next two), \<open>Loop_Runs\<close> (what any
    number of turns keeps).
  \<^item> The relay. \<open>Crypto_Box\<close> (\<^verbatim>\<open>crypto_box_simple.cpp\<close>), \<open>Derp_Client\<close>,
    \<open>Derp_Session\<close>, \<open>Derp_Handshake\<close> (\<^verbatim>\<open>derp_client.cpp\<close>).
  \<^item> Packets. \<open>Io_Task\<close>, \<open>Io_Runs\<close> (the receiving task beside the main loop), \<open>Disco\<close>,
    \<open>Disco_Exchange\<close>, \<open>Stun\<close>, \<open>Stun_Check\<close>, \<open>Wg_Manager\<close>, \<open>Wg_Delivery\<close>
    (\<^verbatim>\<open>wireguard_device_manager.cpp\<close>), \<open>Packet_Router\<close> (demultiplexer, relayed packets,
    activation of peers, early packets), \<open>Router_State\<close>, \<open>Router_Paths\<close>, \<open>Tcp_Stack\<close>,
    \<open>Tcp_Delivery\<close>, \<open>Ts_Netif\<close>, \<open>Netif_Runs\<close> (\<^verbatim>\<open>tailscale_netif.cpp\<close>: the
    buffers shared with lwIP, its checksums),
    \<open>Http_Server\<close>, \<open>Http_Pages\<close> (\<^verbatim>\<open>http_server.cpp\<close>).

  \<^bold>\<open>What is shown.\<close> Formats: what one side renders the other parses, whatever the pieces it
  arrives in (HTTP/2 and relay frames, websocket frames, Noise records, the JSON of the map, TCP
  segments, keys in flash, boxes). Equivalences: the hash and its vector body against the reference, the
  request writers against the rendering of documents. Invariants over all sequences of operations:
  buffers within their size, the maps of the WireGuard manager, the table of TCP connections, one active
  peer, nonces that never repeat, the packet buffers that two threads hand each other. Whole paths: a
  request through every layer of the control connection, a packet from one node's lwIP over the relay
  into the other's, disco pings that confirm a path, an echo over the relay. What any number
  of turns of the main loop keeps: the manager that is called without a test, and a relay client that
  has failed. Errors: the inputs on which a component overruns a buffer, loses data or follows an attacker, each as a theorem or lemma
  and a finding of the manifest.

  \<^bold>\<open>The outside.\<close> What is not under \<^verbatim>\<open>src\<close> is a parameter: the WireGuard library is the
  record \<open>wg_lib\<close>, libsodium the record \<open>sodium\<close> or two box functions, base64 and the key lookup
  of the JSON library functions, random draws a numbered sequence. A socket is a script of what its reads
  give and how much its writes take, together with the log of what was sent; clocks are arguments. The
  hypotheses on them are what they document (a box opens what was sealed with matching keys, \<open>good_dh\<close>:
  both sides of a Diffie-Hellman exchange agree), and the witnesses instantiate them with concrete
  functions. FreeRTOS queues are lists of bounded length, the flash store is a map.

  \<^bold>\<open>Loops.\<close> No fuel is used: a loop over a script ends because each round takes an entry of it,
  and a script run out reads as the peer's silence, which the code answers with its time-out. Retry loops
  with a fixed count (six rounds for the handshake) are recursions on that count. That the two loops of
  the receiving task end is a theorem over every interleaving (\<open>Io_Runs\<close>), with its bound. Addresses
  and lengths keep their width where the code lets them wrap.

  \<^bold>\<open>Not modelled.\<close> The receiving task's steps in the middle of a handler of \<open>Main_Loop\<close>:
  they are interleaved with the main loop's queue in \<open>Io_Task\<close> alone, and lwIP's with the transmit
  queue in \<open>Ts_Netif\<close>. What a step hands to the relay client is sent when the step is over;
  the single-peer
  predecessor of the WireGuard manager (\<^verbatim>\<open>wireguard_session.cpp\<close>), which nothing constructs;
  the pulses of the light; initialisation of libsodium; ESPHome's Python
  configuration; logs, watchdog feeding, delays and heap statistics. Of the Noise library, the
  algorithms that are compiled out, the hooks for fixed ephemeral and pre-shared keys, and the object
  pools. Allocation succeeds, except where the code asks whether it did. The threads interleave between
  queue operations; reads and writes of single flags are atomic.
\<close>

end
